(* ===== verification/Prelude.thy ===== *)
theory Prelude
  imports Main "HOL-Library.Word" "HOL-Library.AList" "HOL-Library.Sublist" "HOL-Library.List_Lexorder"
    "HOL-Library.Char_ord" "HOL-Library.Multiset"
begin

text \<open>
  Shared vocabulary of the development: the machine types of the Rust sources, the queue and
  vector operations of the standard library that the components use (\<open>VecDeque::remove\<close>,
  \<open>Iterator::position\<close>, decimal formatting), association lists with distinct keys as the model
  of a \<open>HashMap\<close> in some iteration order, and the generic facts on them that carry the
  component proofs.
\<close>

section \<open>Types\<close>

type_synonym u8 = "8 word"
type_synonym u32 = "32 word"
type_synonym u64 = "64 word"
type_synonym bytes = "8 word list"

text \<open>Collections filled by the component theories.\<close>

named_theorems acct \<open>byte and frame accounting of the bounded queues\<close>
named_theorems keeps \<open>what an operation leaves unchanged\<close>

section \<open>Vectors and queues\<close>

text \<open>\<open>Iterator::position\<close>.\<close>

primrec position :: "('a \<Rightarrow> bool) \<Rightarrow> 'a list \<Rightarrow> nat option" where
  "position p [] = None"
| "position p (x # xs) = (if p x then Some 0 else map_option Suc (position p xs))"

text \<open>\<open>VecDeque::remove\<close> and \<open>Vec::remove\<close> at an index in range.\<close>

definition remove_nth :: "nat \<Rightarrow> 'a list \<Rightarrow> 'a list" where
  "remove_nth i xs = take i xs @ drop (Suc i) xs"

lemma position_SomeD:
  "position p xs = Some i \<Longrightarrow> i < length xs \<and> p (xs ! i) \<and> (\<forall>j<i. \<not> p (xs ! j))"
proof (induction xs arbitrary: i)
  case (Cons x xs)
  show ?case
  proof (cases "p x")
    case False
    with Cons.prems obtain k where k: "position p xs = Some k" "i = Suc k" by auto
    have less: "\<not> p ((x # xs) ! j)" if "j < Suc k" for j
      using that False Cons.IH [OF k(1)] by (cases j) auto
    then show ?thesis using Cons.IH [OF k(1)] k(2) by simp
  qed (use Cons.prems in simp)
qed simp

lemma position_None_iff: "position p xs = None \<longleftrightarrow> (\<forall>x\<in>set xs. \<not> p x)"
  by (induction xs) auto

lemma position_bound: "position p xs = Some i \<Longrightarrow> i < length xs"
  using position_SomeD by blast

lemma position_holds: "position p xs = Some i \<Longrightarrow> p (xs ! i)"
  using position_SomeD by blast

lemma remove_nth_Cons [simp]:
  "remove_nth 0 (x # xs) = xs" "remove_nth (Suc i) (x # xs) = x # remove_nth i xs"
  by (simp_all add: remove_nth_def)

lemma length_remove_nth [simp]: "i < length xs \<Longrightarrow> length (remove_nth i xs) = length xs - 1"
  by (simp add: remove_nth_def)

lemma remove_nth_split: "i < length xs \<Longrightarrow> xs = take i xs @ xs ! i # drop (Suc i) xs"
  by (simp add: id_take_nth_drop)

lemma sum_remove_nth [acct]:
  fixes g :: "'a \<Rightarrow> nat"
  assumes "i < length xs"
  shows "sum_list (map g (remove_nth i xs)) = sum_list (map g xs) - g (xs ! i)"
proof -
  have "sum_list (map g xs) = sum_list (map g (take i xs @ xs ! i # drop (Suc i) xs))"
    using remove_nth_split [OF assms] by simp
  then show ?thesis by (simp add: remove_nth_def)
qed

lemma filter_remove_nth [keeps]:
  assumes "i < length xs" "\<not> q (xs ! i)"
  shows "filter q (remove_nth i xs) = filter q xs"
proof -
  have "filter q xs = filter q (take i xs @ xs ! i # drop (Suc i) xs)"
    using remove_nth_split [OF assms(1)] by simp
  then show ?thesis using assms(2) by (simp add: remove_nth_def)
qed

lemma subseq_remove_nth [keeps]: "i < length xs \<Longrightarrow> subseq (remove_nth i xs) xs"
  by (subst (2) remove_nth_split, assumption)
    (auto simp: remove_nth_def intro: list_emb_append_mono)

lemma set_remove_nth: "set (remove_nth i xs) \<subseteq> set xs"
  by (auto simp: remove_nth_def dest: in_set_takeD in_set_dropD)

lemma sum_nth_le:
  fixes g :: "'a \<Rightarrow> nat"
  shows "i < length xs \<Longrightarrow> g (xs ! i) \<le> sum_list (map g xs)"
  by (rule member_le_sum_list) auto

text \<open>A subsequence of a strictly ordered list is strictly ordered.\<close>

lemma subseq_sorted_wrt:
  assumes "subseq xs ys" "sorted_wrt P ys"
  shows "sorted_wrt P xs"
  using assms
proof (induction rule: list_emb.induct)
  case (list_emb_Cons2 x y xs ys)
  then show ?case using list_emb_set [of "(=)" xs ys] by auto
qed auto

lemma subseq_map: "subseq xs ys \<Longrightarrow> subseq (map f xs) (map f ys)"
  by (induction rule: list_emb.induct) auto

lemma subseq_set: "subseq xs ys \<Longrightarrow> set xs \<subseteq> set ys"
  by (auto dest: list_emb_set)

lemma subseq_dropWhile: "subseq (dropWhile p xs) xs"
  by (induction xs) auto

section \<open>Association lists with distinct keys\<close>

text \<open>
  \<open>HashMap::retain\<close> on the values, and \<open>HashMap::insert\<close> and \<open>get_mut\<close> as \<open>AList.update\<close>.
\<close>

definition retain_values :: "('v \<Rightarrow> bool) \<Rightarrow> ('k \<times> 'v) list \<Rightarrow> ('k \<times> 'v) list" where
  "retain_values p kvs = filter (\<lambda>kv. p (snd kv)) kvs"

abbreviation keys_distinct :: "('k \<times> 'v) list \<Rightarrow> bool" where
  "keys_distinct kvs \<equiv> distinct (map fst kvs)"

lemma map_of_retain_values:
  "keys_distinct kvs \<Longrightarrow> map_of (retain_values p kvs) k =
     (case map_of kvs k of Some v \<Rightarrow> if p v then Some v else None | None \<Rightarrow> None)"
  by (induction kvs) (auto simp: retain_values_def map_of_eq_None_iff image_iff split: option.splits)

lemma keys_distinct_retain [simp]: "keys_distinct kvs \<Longrightarrow> keys_distinct (retain_values p kvs)"
  by (simp add: retain_values_def distinct_map_filter)

lemma keys_distinct_update [simp]: "keys_distinct kvs \<Longrightarrow> keys_distinct (AList.update k v kvs)"
  by (rule distinct_update)

declare update_conv' [simp] map_of_eq_Some_iff [simp del]

text \<open>
  \<open>BTreeMap\<close>: an association list in strictly increasing order of its keys. \<open>remove\<close> is \<open>AList.delete\<close>.
\<close>

fun bt_insert :: "'k::linorder \<Rightarrow> 'v \<Rightarrow> ('k \<times> 'v) list \<Rightarrow> ('k \<times> 'v) list" where
  "bt_insert k v [] = [(k, v)]"
| "bt_insert k v ((k', v') # m) =
     (if k < k' then (k, v) # (k', v') # m else if k = k' then (k, v) # m else (k', v') # bt_insert k v m)"

abbreviation bt_ok :: "('k::linorder \<times> 'v) list \<Rightarrow> bool" where
  "bt_ok m \<equiv> sorted_wrt (<) (map fst m)"

lemma bt_keys [simp]: "fst ` set (bt_insert k v m) = insert k (fst ` set m)"
  by (induction k v m rule: bt_insert.induct) auto

lemma bt_ok_insert [simp]: "bt_ok m \<Longrightarrow> bt_ok (bt_insert k v m)"
proof (induction k v m rule: bt_insert.induct)
  case (2 k v k' v' m)
  have "\<forall>x\<in>fst ` set (bt_insert k v m). k' < x" if "k' < k" using that "2.prems" by auto
  then show ?case using 2 by auto
qed simp

lemma bt_ok_delete [simp]: "bt_ok m \<Longrightarrow> bt_ok (AList.delete k m)"
  by (induction m) (auto simp: AList.delete_eq)

lemma bt_ok_distinct: "bt_ok m \<Longrightarrow> keys_distinct m"
  by (induction m) auto

lemma bt_lookup_insert [simp]: "bt_ok m \<Longrightarrow> map_of (bt_insert k v m) = (map_of m)(k \<mapsto> v)"
proof (induction k v m rule: bt_insert.induct)
  case (2 k v k' v' m)
  then show ?case by (auto simp: fun_eq_iff)
qed auto

lemma bt_set_insert: "set (bt_insert k v m) \<subseteq> insert (k, v) (set m)"
  by (induction k v m rule: bt_insert.induct) auto

section \<open>Decimal formatting\<close>

text \<open>\<open>format!("{}")\<close> of an unsigned and of a signed integer.\<close>

fun show_nat :: "nat \<Rightarrow> string" where
  "show_nat n = (if n < 10 then [char_of (48 + n)] else show_nat (n div 10) @ [char_of (48 + n mod 10)])"

declare show_nat.simps [simp del]

definition show_int :: "int \<Rightarrow> string" where
  "show_int i = (if i < 0 then CHR ''-'' # show_nat (nat (- i)) else show_nat (nat i))"

lemma digit_char_inj:
  assumes "m < 10" "n < 10" "char_of (48 + m) = (char_of (48 + n) :: char)"
  shows "m = (n::nat)"
proof -
  have "of_char (char_of (48 + m) :: char) = (of_char (char_of (48 + n) :: char) :: nat)"
    using assms(3) by simp
  then show ?thesis using assms(1,2) by (simp add: of_char_of)
qed

lemma show_nat_digits: "c \<in> set (show_nat n) \<Longrightarrow> \<exists>d<10. c = char_of (48 + d :: nat)"
proof (induction n rule: show_nat.induct)
  case (1 n)
  show ?case
  proof (cases "n < 10")
    case True
    with "1.prems" show ?thesis by (auto simp: show_nat.simps [of n])
  next
    case False
    with "1.prems" have "c \<in> set (show_nat (n div 10)) \<or> c = char_of (48 + n mod 10)"
      by (auto simp: show_nat.simps [of n])
    then show ?thesis
    proof
      assume "c = char_of (48 + n mod 10)"
      then show ?thesis by (intro exI [of _ "n mod 10"]) simp
    qed (use "1.IH" False in blast)
  qed
qed

lemma show_nat_no:
  assumes "c \<in> set (show_nat n)" "48 \<le> (of_char x :: nat) \<Longrightarrow> 57 < (of_char x :: nat)"
  shows "c \<noteq> x"
proof
  assume "c = x"
  with show_nat_digits [OF assms(1)] obtain d :: nat where d: "d < 10" "x = char_of (48 + d)" by blast
  then have "of_char x = 48 + d" by (simp add: of_char_of)
  with assms(2) d(1) show False by simp
qed

lemma show_nat_nonempty: "show_nat n \<noteq> []"
  by (subst show_nat.simps) simp

lemma show_nat_inj: "show_nat m = show_nat n \<Longrightarrow> m = n"
proof (induction m arbitrary: n rule: show_nat.induct)
  case (1 m)
  consider "m < 10" "n < 10" | "m < 10" "\<not> n < 10" | "\<not> m < 10" "n < 10" | "\<not> m < 10" "\<not> n < 10"
    by linarith
  then show ?case
  proof cases
    case 1
    then show ?thesis using "1.prems" digit_char_inj
      by (simp add: show_nat.simps [of m] show_nat.simps [of n])
  next
    case 4
    then have "show_nat (m div 10) = show_nat (n div 10)"
      and d: "char_of (48 + m mod 10) = (char_of (48 + n mod 10) :: char)"
      using "1.prems" by (simp_all add: show_nat.simps [of m] show_nat.simps [of n])
    then have "m div 10 = n div 10" using "1.IH" 4 by blast
    moreover have "m mod 10 = n mod 10" using d by (rule digit_char_inj [rotated 2]) simp_all
    ultimately show ?thesis by (metis mod_div_mult_eq)
  qed (use "1.prems" show_nat_nonempty in
        \<open>auto simp: show_nat.simps [of m] show_nat.simps [of n] append_eq_Cons_conv Cons_eq_append_conv\<close>)
qed

lemma show_int_inj: "show_int i = show_int j \<Longrightarrow> i = j"
proof -
  have no: "CHR ''-'' \<notin> set (show_nat n)" for n
    using show_nat_no [of "CHR ''-''" n "CHR ''-''"] by auto
  assume "show_int i = show_int j"
  then show ?thesis
    using no [of "nat i"] no [of "nat j"] show_nat_inj
    by (auto simp: show_int_def split: if_splits dest!: show_nat_inj) (metis list.set_intros(1))+
qed

lemma show_int_no_colon: "CHR '':'' \<notin> set (show_int i)"
  using show_nat_no [of "CHR '':''" _ "CHR '':''"] by (auto simp: show_int_def split: if_splits)

text \<open>
  \<open>str::parse::<usize>()\<close> on a 64-bit target: an optional plus sign, then at least one digit; a
  value that does not fit is an error.
\<close>

definition digit_val :: "char \<Rightarrow> nat option" where
  "digit_val c = (let n = of_char c in if 48 \<le> n \<and> n \<le> 57 then Some (n - 48) else None)"

fun parse_digits :: "nat \<Rightarrow> string \<Rightarrow> nat option" where
  "parse_digits acc [] = Some acc"
| "parse_digits acc (c # cs) = (case digit_val c of
     None \<Rightarrow> None
   | Some d \<Rightarrow> if acc * 10 + d < 2 ^ 64 then parse_digits (acc * 10 + d) cs else None)"

definition parse_usize :: "string \<Rightarrow> nat option" where
  "parse_usize s = (case s of
     [] \<Rightarrow> None
   | c # cs \<Rightarrow> if c = CHR ''+'' then (if cs = [] then None else parse_digits 0 cs) else parse_digits 0 s)"

lemma parse_digits_append:
  "parse_digits acc (xs @ ys) = (case parse_digits acc xs of None \<Rightarrow> None | Some a \<Rightarrow> parse_digits a ys)"
  by (induction xs arbitrary: acc) (auto split: option.splits)

lemma digit_val_char: "d < 10 \<Longrightarrow> digit_val (char_of (48 + d)) = Some d"
  by (simp add: digit_val_def of_char_of Let_def)

lemma parse_digits_show: "n < 2 ^ 64 \<Longrightarrow> parse_digits 0 (show_nat n) = Some n"
proof (induction n rule: show_nat.induct)
  case (1 n)
  show ?case
  proof (cases "n < 10")
    case True
    then show ?thesis by (simp add: show_nat.simps [of n] digit_val_char)
  next
    case False
    have "n div 10 * 10 + n mod 10 = n" by simp
    then show ?thesis using False "1.IH" "1.prems"
      by (simp add: show_nat.simps [of n] parse_digits_append digit_val_char)
  qed
qed

lemma parse_usize_show: "n < 2 ^ 64 \<Longrightarrow> parse_usize (show_nat n) = Some n"
proof -
  assume n: "n < 2 ^ 64"
  have "CHR ''+'' \<notin> set (show_nat n)" using show_nat_no [of "CHR ''+''" n "CHR ''+''"] by auto
  then show ?thesis using parse_digits_show [OF n] show_nat_nonempty [of n]
    by (auto simp: parse_usize_def split: list.splits)
qed

text \<open>A separator that does not occur in the last part makes a joined key unambiguous.\<close>

lemma last_separator_unique:
  assumes "xs @ c # ys = xs' @ c # ys'" "c \<notin> set ys" "c \<notin> set ys'"
  shows "xs = xs' \<and> ys = ys'"
  using assms
proof (induction xs arbitrary: xs')
  case Nil
  then show ?case by (cases xs') auto
next
  case (Cons x xs)
  then show ?case by (cases xs') auto
qed

text \<open>\<open>slice::join\<close>.\<close>

fun join_with :: "string \<Rightarrow> string list \<Rightarrow> string" where
  "join_with sep [] = []"
| "join_with sep [p] = p"
| "join_with sep (p # ps) = p @ sep @ join_with sep ps"

section \<open>Trimming\<close>

text \<open>
  \<open>str::trim\<close>: the characters with the Unicode property \<open>White_Space\<close>, in UTF-8. No UTF-8 sequence
  is a proper suffix or prefix of another, so stripping byte sequences strips characters.
\<close>

definition utf8_bytes :: "nat list \<Rightarrow> string" where "utf8_bytes ns = map char_of ns"

definition ws_seqs :: "string list" where
  "ws_seqs = map (\<lambda>n. utf8_bytes [n]) [9, 10, 11, 12, 13, 32] @ map utf8_bytes [[0xC2, 0x85], [0xC2, 0xA0],
     [0xE1, 0x9A, 0x80], [0xE2, 0x80, 0xA8], [0xE2, 0x80, 0xA9], [0xE2, 0x80, 0xAF], [0xE2, 0x81, 0x9F], [0xE3, 0x80, 0x80]] @
     map (\<lambda>n. utf8_bytes [0xE2, 0x80, 0x80 + n]) [0..<11]"

definition starts_with :: "string \<Rightarrow> string \<Rightarrow> bool" where
  "starts_with p s \<longleftrightarrow> take (length p) s = p"

text \<open>\<open>str::contains\<close>.\<close>

fun str_contains :: "string \<Rightarrow> string \<Rightarrow> bool" where
  "str_contains p [] = (p = [])"
| "str_contains p (c # cs) = (starts_with p (c # cs) \<or> str_contains p cs)"

definition strip_prefix :: "string \<Rightarrow> string \<Rightarrow> string option" where
  "strip_prefix p s = (if starts_with p s then Some (drop (length p) s) else None)"

lemma strip_prefix_append [simp]: "strip_prefix p (p @ s) = Some s"
  by (simp add: strip_prefix_def starts_with_def)

lemma ws_seqs_nonempty: "w \<in> set ws_seqs \<Longrightarrow> w \<noteq> []"
  by (auto simp: ws_seqs_def utf8_bytes_def)

text \<open>\<open>strip_seqs ws s\<close> removes leading occurrences of the given sequences.\<close>

function strip_seqs :: "string list \<Rightarrow> string \<Rightarrow> string" where
  "strip_seqs ws s = (case List.find (\<lambda>w. w \<noteq> [] \<and> starts_with w s) ws of
     None \<Rightarrow> s
   | Some w \<Rightarrow> strip_seqs ws (drop (length w) s))"
  by pat_completeness auto
termination
proof (relation "measure (\<lambda>(ws, s). length s)")
  fix ws :: "string list" and s w :: string
  assume "List.find (\<lambda>w. w \<noteq> [] \<and> starts_with w s) ws = Some w"
  then have "w \<noteq> []" "take (length w) s = w" by (auto simp: find_Some_iff starts_with_def)
  then have "0 < length w" "length w \<le> length s" by (auto dest: arg_cong [where f = length])
  then have "length s - length w < length s" by linarith
  then show "((ws, drop (length w) s), ws, s) \<in> measure (\<lambda>(ws, s). length s)" by simp
qed simp

declare strip_seqs.simps [simp del]

definition trim_start :: "string \<Rightarrow> string" where "trim_start s = strip_seqs ws_seqs s"
definition trim_end :: "string \<Rightarrow> string" where "trim_end s = rev (strip_seqs (map rev ws_seqs) (rev s))"
definition str_trim :: "string \<Rightarrow> string" where "str_trim s = trim_end (trim_start s)"

lemma strip_seqs_id: "(\<And>w. w \<in> set ws \<Longrightarrow> w \<noteq> [] \<Longrightarrow> \<not> starts_with w s) \<Longrightarrow> strip_seqs ws s = s"
  by (subst strip_seqs.simps) (auto simp: find_None_iff split: option.splits dest!: find_Some_iff [THEN iffD1] nth_mem)

definition ascii_graphic :: "char \<Rightarrow> bool" where
  "ascii_graphic c \<longleftrightarrow> 33 \<le> (of_char c :: nat) \<and> (of_char c :: nat) \<le> 126"

lemma ws_ends: "w \<in> set ws_seqs \<Longrightarrow> w \<noteq> [] \<and> \<not> ascii_graphic (hd w) \<and> \<not> ascii_graphic (last w)"
  by (auto simp: ws_seqs_def utf8_bytes_def ascii_graphic_def of_char_of)

lemma str_trim_id:
  assumes "s \<noteq> []" "ascii_graphic (hd s)" "ascii_graphic (last s)"
  shows "str_trim s = s"
proof -
  have no: "\<not> starts_with w x" if "w \<noteq> []" "x \<noteq> []" "hd w \<noteq> hd x" for w x :: string
    using that by (cases w; cases x) (auto simp: starts_with_def)
  have a: "strip_seqs ws_seqs s = s"
    using ws_ends assms(1,2) no by (intro strip_seqs_id) metis
  have b: "strip_seqs (map rev ws_seqs) (rev s) = rev s"
  proof (rule strip_seqs_id)
    fix w assume w: "w \<in> set (map rev ws_seqs)" "w \<noteq> []"
    then have "\<not> ascii_graphic (hd w)" using ws_ends by (auto simp: hd_rev)
    then show "\<not> starts_with w (rev s)" using no [of w "rev s"] w(2) assms(1,3) by (metis hd_rev rev_is_Nil_conv)
  qed
  show ?thesis by (simp add: str_trim_def trim_start_def trim_end_def a b)
qed

section \<open>Machines driven by operations\<close>

text \<open>
  A component whose state changes only through its operations: \<open>step s op\<close> runs one operation.
  The contract is that an invariant holds initially and that every operation keeps it; what follows
  for whole runs is proved here once.
\<close>

locale op_machine =
  fixes step :: "'s \<Rightarrow> 'op \<Rightarrow> 's"
    and inv :: "'s \<Rightarrow> bool"
  assumes step_inv: "inv s \<Longrightarrow> inv (step s x)"
begin

lemma run_inv: "inv s \<Longrightarrow> inv (foldl step s ops)"
  by (induction ops arbitrary: s) (auto intro: step_inv)

lemma run_relation:
  assumes "inv s" "R s s" "\<And>t x. inv t \<Longrightarrow> R s t \<Longrightarrow> R s (step t x)"
  shows "R s (foldl step s ops)"
proof -
  have "inv (foldl step s ops) \<and> R s (foldl step s ops)"
    using assms by (induction ops rule: rev_induct) (auto intro: step_inv)
  then show ?thesis ..
qed

end

locale op_machine_init = op_machine step inv
  for step :: "'s \<Rightarrow> 'op \<Rightarrow> 's" and inv :: "'s \<Rightarrow> bool" +
  fixes init :: 's
  assumes init_inv: "inv init"
begin

lemma reachable_inv: "inv (foldl step init ops)"
  by (rule run_inv [OF init_inv])

end

text \<open>What is observed along a run: \<open>obs s x\<close> lists the observations of one operation.\<close>

primrec run_log :: "('s \<Rightarrow> 'op \<Rightarrow> 's) \<Rightarrow> ('s \<Rightarrow> 'op \<Rightarrow> 'e list) \<Rightarrow> 's \<Rightarrow> 'op list \<Rightarrow> 'e list" where
  "run_log step obs s [] = []"
| "run_log step obs s (x # xs) = obs s x @ run_log step obs (step s x) xs"

lemma run_log_append: "run_log step obs s (xs @ ys) = run_log step obs s xs @ run_log step obs (foldl step s xs) ys"
  by (induction xs arbitrary: s) auto

lemma distinct_count_list: "distinct xs \<Longrightarrow> x \<in> set xs \<Longrightarrow> count_list xs x = 1"
  by (induction xs) (auto simp: count_list_0_iff)

text \<open>
  A ledger: an operation may enter ids, which must be new then, and no operation ever forgets one.
  Its clients may rely on an id being entered at most once in a run, whatever happens in between.
\<close>

locale once_ledger = op_machine step inv
  for step :: "'s \<Rightarrow> 'op \<Rightarrow> 's" and inv :: "'s \<Rightarrow> bool" +
  fixes enters :: "'s \<Rightarrow> 'op \<Rightarrow> 'i list"
    and known :: "'s \<Rightarrow> 'i \<Rightarrow> bool"
  assumes enters_new: "inv s \<Longrightarrow> i \<in> set (enters s x) \<Longrightarrow> \<not> known s i \<and> known (step s x) i"
    and enters_distinct: "inv s \<Longrightarrow> distinct (enters s x)"
    and known_stays: "inv s \<Longrightarrow> known s i \<Longrightarrow> known (step s x) i"
begin

lemma run_known: "inv s \<Longrightarrow> known s i \<Longrightarrow> known (foldl step s ops) i"
  by (induction ops arbitrary: s) (auto intro: known_stays step_inv)

lemma entered_at_most_once: "inv s \<Longrightarrow> count_list (run_log step enters s ops) i \<le> (if known s i then 0 else 1)"
proof (induction ops arbitrary: s)
  case (Cons x ops)
  note IH = Cons.IH [OF step_inv [OF Cons.prems], of x]
  show ?case
  proof (cases "i \<in> set (enters s x)")
    case True
    then have "count_list (enters s x) i = 1" using enters_distinct [OF Cons.prems, of x] distinct_count_list by metis
    then show ?thesis using enters_new [OF Cons.prems True] IH by simp
  next
    case False
    then have "count_list (enters s x) i = 0" by (simp add: count_list_0_iff)
    then show ?thesis using IH known_stays [OF Cons.prems, of i x] by (auto split: if_splits)
  qed
qed simp

lemma known_not_entered: "inv s \<Longrightarrow> known s i \<Longrightarrow> i \<notin> set (run_log step enters s ops)"
  using entered_at_most_once [of s ops i] by (simp add: count_list_0_iff)

end

end
