(* ===== verification/Proto.thy ===== *)
theory Proto
  imports Prelude
begin

text \<open>
  The protobuf messages of \<open>proto/agent_console/v1\<close> that the relay inspects, and the narrow
  codec of \<open>crates/protocol/src/codec.rs\<close>. Message bodies that no modelled code looks into are
  kept as opaque byte strings (\<open>blob\<close>). The prost encoder and decoder are generated code: the
  encoded length, the encoder and the decoder are arguments of the definitions that use them.
\<close>

section \<open>Messages\<close>

type_synonym blob = bytes
type_synonym timestamp = "int \<times> int"

record pb_item_id =
  iid_id :: string
  iid_synthetic :: bool

datatype item_content =
    UserMessage blob | AssistantMessage blob | ReasoningSummary blob | PlanContent blob
  | ToolCall blob | CommandStatus blob | FileChangeSet blob | SubagentStatus blob
  | QuestionContent blob | ApprovalContent blob | TokenUsage blob

record pb_item =
  it_item_id :: "pb_item_id option"
  it_turn :: "blob option"
  it_revision :: nat
  it_created_at :: "timestamp option"
  it_content :: "item_content option"

record output_append =
  oa_item_id :: "pb_item_id option"
  oa_expected_offset :: u64
  oa_bytes :: bytes
  oa_channel :: int

record device_presence =
  dp_device_id :: string
  dp_connection :: int
  dp_last_seen_at :: "timestamp option"
  dp_degraded_reason :: string

record background_command =
  bc_command_id :: string
  bc_rest :: blob

record pb_session_key =
  psk_device_id :: string
  psk_agent_kind :: int
  psk_native_session_id :: string
  psk_relay_session_uuid :: string

record session_summary =
  ssm_session_key :: "pb_session_key option"
  ssm_title :: string
  ssm_project_display_name :: string
  ssm_current_branch :: string
  ssm_updated_at :: "timestamp option"
  ssm_device_connection :: int
  ssm_device_last_seen_at :: "timestamp option"
  ssm_degraded_reason :: string
  ssm_control_mode :: int
  ssm_compatibility_state :: int
  ssm_active_turn_phase :: int
  ssm_pending_attention_count :: nat
  ssm_pending_attention_kinds :: "int list"
  ssm_queue_state :: int
  ssm_last_turn_outcome :: int
  ssm_rest :: blob

record turn_lifecycle =
  tlc_outcome :: int
  tlc_rest :: blob

datatype attention = AttQuestion blob | AttApproval blob

datatype event =
    TurnLifecycle turn_lifecycle
  | ItemUpsert "pb_item option"
  | OutputAppend output_append
  | OutputReplace blob
  | OutputFinal blob
  | SessionSummaryChanged session_summary
  | PendingAttentionAdded "attention option"
  | PendingAttentionRemoved blob
  | QueueStateChanged blob
  | BackgroundCommandChanged "background_command option"
  | DevicePresenceChanged "device_presence option"
  | CapabilityChanged blob

record domain_event =
  de_emitted_at :: "timestamp option"
  de_event :: "event option"

record event_batch =
  eb_stream_id :: string
  eb_events :: "domain_event list"

record subscribed =
  sb_stream_id :: string
  sb_stream_epoch :: nat
  sb_base_sequence :: nat

record resync_required =
  rr_stream_id :: string
  rr_reason_code :: nat

datatype subscribe_target = SubList | SubSession pb_session_key

record summary_batch =
  smb_summaries :: "session_summary list"
  smb_snapshot :: bool

datatype pb_query =
    QRuntimeSnapshot
  | QHistoryPage string nat
  | QCommandOutputPage string bool string nat
  | QGitSummary
  | QGitFileDiff string bool
  | QFileMetadata string

record query_request =
  qrq_session_key :: "pb_session_key option"
  qrq_query :: "pb_query option"

record query_response =
  qre_request_id :: string
  qre_result :: "blob option"
  qre_error_code :: int

record client_hello =
  chl_protocol_version :: nat
  chl_client_kind :: int
  chl_device_id :: string
  chl_rest :: blob

record capability_snapshot =
  cps_compatibility_state :: int
  cps_control_mode :: int
  cps_rest :: blob

record pb_command_request =
  pcr_request_id :: string
  pcr_operation :: int
  pcr_session_key :: "pb_session_key option"
  pcr_payload_digest :: string
  pcr_rest :: blob

record command_accepted =
  cac_request_id :: string
  cac_status :: int
  cac_accepted_at :: "timestamp option"

record command_result =
  cre_request_id :: string
  cre_status :: int
  cre_error_code :: int
  cre_details :: "(string \<times> string) list"
  cre_duration_ms :: "nat option"

record protocol_error =
  pte_error_code :: int
  pte_message :: string
  pte_request_id :: string
  pte_stream_id :: string
  pte_details :: "(string \<times> string) list"

datatype payload =
    PClientHello client_hello | PServerHello blob | PCapabilitySnapshot capability_snapshot | PDevicePresence blob
  | PSubscribe "subscribe_target option" | PSubscribed subscribed | PUnsubscribe string | PAck "string \<times> nat"
  | PSessionSummaryBatch summary_batch | PRuntimeSnapshot blob | PEventBatch event_batch
  | PResyncRequired resync_required | PResyncRequest string | PQueryRequest query_request
  | PQueryResponse query_response | PCommandRequest pb_command_request | PCommandAccepted command_accepted
  | PCommandResult command_result
  | PTransferOffer blob | PTransferReady blob | PTransferResult blob | PHeartbeat
  | PHeartbeatAck | PProtocolError protocol_error

record envelope =
  ev_protocol_version :: nat
  ev_message_id :: string
  ev_correlation_id :: string
  ev_sent_at :: "timestamp option"
  ev_device_id :: string
  ev_agent_kind :: int
  ev_stream_id :: string
  ev_stream_epoch :: nat
  ev_sequence :: nat
  ev_payload :: "payload option"
  ev_provider_extension :: "blob option"

section \<open>The codec\<close>

definition PROTOCOL_VERSION :: nat where "PROTOCOL_VERSION = 1"

definition MAX_FRAME_BYTES :: nat where "MAX_FRAME_BYTES = 1024 * 1024"

definition MAX_OUTPUT_CHUNK_BYTES :: nat where "MAX_OUTPUT_CHUNK_BYTES = 64 * 1024"

datatype codec_error = FrameTooLarge nat nat | EncodeFailed | DecodeFailed

text \<open>
  \<open>elen\<close> is \<open>Message::encoded_len\<close>, \<open>enc\<close> is \<open>Message::encode\<close> into a growable
  vector (\<open>None\<close> for \<open>EncodeError\<close>) and \<open>dec\<close> is \<open>Envelope::decode\<close>.
\<close>

definition encode_envelope ::
  "(envelope \<Rightarrow> nat) \<Rightarrow> (envelope \<Rightarrow> bytes option) \<Rightarrow> envelope \<Rightarrow> codec_error + bytes" where
  "encode_envelope elen enc e =
     (let size = elen e in
      if size > MAX_FRAME_BYTES then Inl (FrameTooLarge size MAX_FRAME_BYTES)
      else (case enc e of None \<Rightarrow> Inl EncodeFailed | Some buf \<Rightarrow> Inr buf))"

definition decode_envelope :: "(bytes \<Rightarrow> envelope option) \<Rightarrow> bytes \<Rightarrow> codec_error + envelope" where
  "decode_envelope dec bs =
     (if length bs > MAX_FRAME_BYTES then Inl (FrameTooLarge (length bs) MAX_FRAME_BYTES)
      else (case dec bs of None \<Rightarrow> Inl DecodeFailed | Some e \<Rightarrow> Inr e))"

fun payload_kind :: "payload \<Rightarrow> string" where
  "payload_kind (PClientHello _) = ''client_hello''"
| "payload_kind (PServerHello _) = ''server_hello''"
| "payload_kind (PCapabilitySnapshot _) = ''capability_snapshot''"
| "payload_kind (PDevicePresence _) = ''device_presence''"
| "payload_kind (PSubscribe _) = ''subscribe''"
| "payload_kind (PSubscribed _) = ''subscribed''"
| "payload_kind (PUnsubscribe _) = ''unsubscribe''"
| "payload_kind (PAck _) = ''ack''"
| "payload_kind (PSessionSummaryBatch _) = ''session_summary_batch''"
| "payload_kind (PRuntimeSnapshot _) = ''runtime_snapshot''"
| "payload_kind (PEventBatch _) = ''event_batch''"
| "payload_kind (PResyncRequired _) = ''resync_required''"
| "payload_kind (PResyncRequest _) = ''resync_request''"
| "payload_kind (PQueryRequest _) = ''query_request''"
| "payload_kind (PQueryResponse _) = ''query_response''"
| "payload_kind (PCommandRequest _) = ''command_request''"
| "payload_kind (PCommandAccepted _) = ''command_accepted''"
| "payload_kind (PCommandResult _) = ''command_result''"
| "payload_kind (PTransferOffer _) = ''transfer_offer''"
| "payload_kind (PTransferReady _) = ''transfer_ready''"
| "payload_kind (PTransferResult _) = ''transfer_result''"
| "payload_kind PHeartbeat = ''heartbeat''"
| "payload_kind PHeartbeatAck = ''heartbeat_ack''"
| "payload_kind (PProtocolError _) = ''protocol_error''"

section \<open>Facts\<close>

text \<open>
  What the codec relies on of the generated prost code at one message \<open>e\<close>: encoding writes
  exactly \<open>encoded_len\<close> bytes into the growable vector, and decoding these bytes gives \<open>e\<close>.
\<close>

definition prost_faithful ::
  "(envelope \<Rightarrow> nat) \<Rightarrow> (envelope \<Rightarrow> bytes option) \<Rightarrow> (bytes \<Rightarrow> envelope option) \<Rightarrow> envelope \<Rightarrow> bool"
  where
  "prost_faithful elen enc dec e \<longleftrightarrow>
     (case enc e of None \<Rightarrow> False | Some bs \<Rightarrow> length bs = elen e \<and> dec bs = Some e)"

lemma encode_within_limit:
  "prost_faithful elen enc dec e \<Longrightarrow> encode_envelope elen enc e = Inr bs \<Longrightarrow>
   length bs = elen e \<and> length bs \<le> MAX_FRAME_BYTES"
  by (auto simp: encode_envelope_def prost_faithful_def Let_def split: if_splits option.splits)

lemma encode_result:
  assumes "prost_faithful elen enc dec e"
  shows "encode_envelope elen enc e =
    (if elen e \<le> MAX_FRAME_BYTES then Inr (the (enc e)) else Inl (FrameTooLarge (elen e) MAX_FRAME_BYTES))"
  using assms by (auto simp: encode_envelope_def prost_faithful_def Let_def split: option.splits)

text \<open>
  The codec round trip: an envelope whose encoding fits the 1 MiB frame limit is encoded, and
  decoding the frame gives the envelope back; a larger envelope is rejected with its size, and no
  frame is produced.
\<close>

theorem envelope_round_trip:
  assumes "prost_faithful elen enc dec e"
  shows "(case encode_envelope elen enc e of
      Inr bs \<Rightarrow> length bs \<le> MAX_FRAME_BYTES \<and> decode_envelope dec bs = Inr e
    | Inl err \<Rightarrow> elen e > MAX_FRAME_BYTES \<and> err = FrameTooLarge (elen e) MAX_FRAME_BYTES)"
  using assms
  by (auto simp: encode_envelope_def decode_envelope_def prost_faithful_def Let_def
      split: option.splits)

definition heartbeat_envelope :: envelope where
  "heartbeat_envelope = \<lparr>ev_protocol_version = 1, ev_message_id = ''m'', ev_correlation_id = [],
     ev_sent_at = None, ev_device_id = ''d'', ev_agent_kind = 1, ev_stream_id = [],
     ev_stream_epoch = 0, ev_sequence = 0, ev_payload = Some PHeartbeat,
     ev_provider_extension = None\<rparr>"

theorem envelope_round_trip_witness:
  "decode_envelope (\<lambda>_. Some heartbeat_envelope) [8, 1] = Inr heartbeat_envelope"
proof -
  have "prost_faithful (\<lambda>_. 2) (\<lambda>_. Some [8, 1]) (\<lambda>_. Some heartbeat_envelope) heartbeat_envelope"
    by (simp add: prost_faithful_def)
  from envelope_round_trip [OF this] show ?thesis
    by (simp add: encode_envelope_def MAX_FRAME_BYTES_def)
qed

end
