(* ===== verification/Relay_Buffer.thy ===== *)
theory Relay_Buffer
  imports Proto
begin

text \<open>
  The replay window of \<open>apps/relay/src/realtime/buffer.rs\<close>: frames and their priority classes,
  classification of domain events, merging of adjacent output increments, the pressure path
  \<open>coalesce\<close>, and \<open>StreamBuffer\<close> with its three limits (age, count, bytes).

  An \<open>Arc<Frame>\<close> is a frame value (frames are immutable; the lazily cached encoding is a pure
  function of the envelope). \<open>Instant::now()\<close> is the argument \<open>now\<close>, one reading per operation.
  Byte counters are \<open>usize\<close> sums of queued frame lengths, far below the width of the type, and
  are modelled as \<open>nat\<close>; \<open>saturating_sub\<close> is truncated subtraction. Output offsets come from
  the wire as \<open>u64\<close> and keep their width: \<open>oa + la\<close> wraps as it does in a release build.
\<close>

section \<open>Frames\<close>

datatype frame_kind = Critical | Recoverable | Mergeable

datatype merge_info = MOutputAppend string u64 nat | MReplaceLatest string

fun scoped :: "string \<Rightarrow> merge_info \<Rightarrow> merge_info" where
  "scoped pre (MOutputAppend k off len) = MOutputAppend (pre @ ''/'' @ k) off len"
| "scoped pre (MReplaceLatest k) = MReplaceLatest (pre @ ''/'' @ k)"

record frame =
  f_env :: envelope
  f_kind :: frame_kind
  f_merge :: "merge_info option"
  f_upstream_seq :: "nat option"
  f_ts :: nat
  f_bytes_len :: nat

definition frame_with_upstream_seq ::
  "(envelope \<Rightarrow> nat) \<Rightarrow> nat \<Rightarrow> envelope \<Rightarrow> frame_kind \<Rightarrow> merge_info option \<Rightarrow> nat option \<Rightarrow> frame" where
  "frame_with_upstream_seq elen now e k m u =
     \<lparr>f_env = e, f_kind = k, f_merge = m, f_upstream_seq = u, f_ts = now, f_bytes_len = elen e\<rparr>"

definition frame_new ::
  "(envelope \<Rightarrow> nat) \<Rightarrow> nat \<Rightarrow> envelope \<Rightarrow> frame_kind \<Rightarrow> merge_info option \<Rightarrow> frame" where
  "frame_new elen now e k m = frame_with_upstream_seq elen now e k m None"

definition frame_encoded ::
  "(envelope \<Rightarrow> nat) \<Rightarrow> (envelope \<Rightarrow> bytes option) \<Rightarrow> frame \<Rightarrow> bytes option" where
  "frame_encoded elen enc f = (case encode_envelope elen enc (f_env f) of Inl _ \<Rightarrow> None | Inr bs \<Rightarrow> Some bs)"

abbreviation f_seq :: "frame \<Rightarrow> nat" where "f_seq f \<equiv> ev_sequence (f_env f)"

definition out_key :: "output_append \<Rightarrow> string" where
  "out_key a = ''out:'' @ (case oa_item_id a of Some i \<Rightarrow> iid_id i | None \<Rightarrow> []) @ '':'' @ show_int (oa_channel a)"

fun classify :: "event \<Rightarrow> frame_kind \<times> merge_info option" where
  "classify (TurnLifecycle _) = (Critical, None)"
| "classify (SessionSummaryChanged _) = (Critical, None)"
| "classify (PendingAttentionAdded _) = (Critical, None)"
| "classify (PendingAttentionRemoved _) = (Critical, None)"
| "classify (QueueStateChanged _) = (Critical, None)"
| "classify (DevicePresenceChanged p) =
     (Mergeable, Some (MReplaceLatest (''presence:'' @ (case p of Some x \<Rightarrow> dp_device_id x | None \<Rightarrow> []))))"
| "classify (CapabilityChanged _) = (Recoverable, Some (MReplaceLatest ''capability''))"
| "classify (BackgroundCommandChanged c) =
     (Recoverable, Some (MReplaceLatest (''bg:'' @ (case c of Some x \<Rightarrow> bc_command_id x | None \<Rightarrow> []))))"
| "classify (ItemUpsert it) =
     (let item_key = (case it of None \<Rightarrow> [] | Some i \<Rightarrow>
                        (case it_item_id i of None \<Rightarrow> [] | Some d \<Rightarrow> iid_id d))
      in case Option.bind it it_content of
           Some (TokenUsage _) \<Rightarrow> (Mergeable, Some (MReplaceLatest (''token:'' @ item_key)))
         | Some (QuestionContent _) \<Rightarrow> (Critical, None)
         | Some (ApprovalContent _) \<Rightarrow> (Critical, None)
         | _ \<Rightarrow> (Recoverable, None))"
| "classify (OutputAppend a) =
     (Mergeable, Some (MOutputAppend (out_key a) (oa_expected_offset a) (length (oa_bytes a))))"
| "classify (OutputReplace _) = (Recoverable, None)"
| "classify (OutputFinal _) = (Recoverable, None)"

section \<open>Merging adjacent frames\<close>

text \<open>The \<open>OutputAppend\<close> of the last event of an envelope's batch, and its replacement.\<close>

definition last_append :: "envelope \<Rightarrow> output_append option" where
  "last_append e = (case ev_payload e of
       Some (PEventBatch b) \<Rightarrow>
         (if eb_events b = [] then None
          else case de_event (last (eb_events b)) of Some (OutputAppend a) \<Rightarrow> Some a | _ \<Rightarrow> None)
     | _ \<Rightarrow> None)"

definition set_last_append :: "envelope \<Rightarrow> output_append \<Rightarrow> envelope" where
  "set_last_append e a = (case ev_payload e of
       Some (PEventBatch b) \<Rightarrow>
         e\<lparr>ev_payload := Some (PEventBatch (b\<lparr>eb_events := butlast (eb_events b) @
            [(last (eb_events b))\<lparr>de_event := Some (OutputAppend a)\<rparr>]\<rparr>))\<rparr>
     | _ \<Rightarrow> e)"

fun min_seq :: "nat option \<Rightarrow> nat option \<Rightarrow> nat option" where
  "min_seq (Some a) (Some b) = Some (min a b)"
| "min_seq _ _ = None"

definition merge_pair :: "(envelope \<Rightarrow> nat) \<Rightarrow> nat \<Rightarrow> frame \<Rightarrow> frame \<Rightarrow> frame option" where
  "merge_pair elen now a b = (case (f_merge a, f_merge b) of
     (Some (MOutputAppend ka oa la), Some (MOutputAppend kb ob lb)) \<Rightarrow>
       (if ka \<noteq> kb \<or> oa + of_nat la \<noteq> ob then None
        else case (last_append (f_env a), last_append (f_env b)) of
          (Some app_a, Some app_b) \<Rightarrow>
            (let e = set_last_append (f_env a) (app_a\<lparr>oa_bytes := oa_bytes app_a @ oa_bytes app_b\<rparr>)
             in if elen e > MAX_FRAME_BYTES then None
                else Some (frame_with_upstream_seq elen now e (f_kind a)
                       (Some (MOutputAppend ka oa (la + lb)))
                       (min_seq (f_upstream_seq a) (f_upstream_seq b))))
        | _ \<Rightarrow> None)
   | _ \<Rightarrow> None)"

definition REPLACE_WINDOW :: nat where "REPLACE_WINDOW = 64"

fun replace_key :: "frame \<Rightarrow> string option" where
  "replace_key f = (case f_merge f of Some (MReplaceLatest k) \<Rightarrow> Some k | _ \<Rightarrow> None)"

declare replace_key.simps [simp del]

text \<open>
  The first pass of \<open>coalesce\<close>: a \<open>ReplaceLatest\<close> frame goes if one of the next 64 frames has
  its key. The flags are computed on the queue as it was, so the recursion looks at the original tail.
\<close>

fun drop_replaced :: "frame list \<Rightarrow> frame list" where
  "drop_replaced [] = []"
| "drop_replaced (f # fs) =
     (if replace_key f \<noteq> None \<and> (\<exists>g\<in>set (take REPLACE_WINDOW fs). replace_key g = replace_key f)
      then drop_replaced fs else f # drop_replaced fs)"

text \<open>The second pass: one scan from left to right, merging into the frame kept last.\<close>

definition merge_step ::
  "(envelope \<Rightarrow> nat) \<Rightarrow> nat \<Rightarrow> frame list \<times> nat \<Rightarrow> frame \<Rightarrow> frame list \<times> nat" where
  "merge_step elen now rt f = (case rt of (result, tot) \<Rightarrow>
     (case (if result = [] then None else merge_pair elen now (last result) f) of
        Some merged \<Rightarrow> (butlast result @ [merged], tot - f_bytes_len (last result) + f_bytes_len merged)
      | None \<Rightarrow> (result @ [f], tot + f_bytes_len f)))"

definition coalesce :: "(envelope \<Rightarrow> nat) \<Rightarrow> nat \<Rightarrow> frame list \<Rightarrow> frame list \<times> nat" where
  "coalesce elen now items =
     foldl (merge_step elen now) ([], 0) (if length items > 1 then drop_replaced items else items)"

section \<open>The stream buffer\<close>

record stream_buffer =
  sb_items :: "frame list"
  sb_bytes :: nat
  sb_max_events :: nat
  sb_max_bytes :: nat
  sb_retention :: nat

datatype insert_outcome = Buffered | OverflowReset

definition stream_buffer_new :: "nat \<Rightarrow> nat \<Rightarrow> nat \<Rightarrow> stream_buffer" where
  "stream_buffer_new me mb ret =
     \<lparr>sb_items = [], sb_bytes = 0, sb_max_events = me, sb_max_bytes = mb, sb_retention = ret\<rparr>"

fun expire_front :: "nat \<Rightarrow> nat \<Rightarrow> frame list \<Rightarrow> nat \<Rightarrow> frame list \<times> nat" where
  "expire_front now ret [] b = ([], b)"
| "expire_front now ret (f # fs) b =
     (if now - f_ts f > ret then expire_front now ret fs (b - f_bytes_len f) else (f # fs, b))"

text \<open>
  Insertion proper: into the tail frame when the two merge; otherwise a \<open>ReplaceLatest\<close> frame
  first removes the newest frame of its key among the last 32, and the frame is appended.
\<close>

definition place_frame ::
  "(envelope \<Rightarrow> nat) \<Rightarrow> nat \<Rightarrow> frame \<Rightarrow> frame list \<times> nat \<Rightarrow> frame list \<times> nat" where
  "place_frame elen now f ib = (case ib of (items, b) \<Rightarrow>
     (case (if items = [] then None else merge_pair elen now (last items) f) of
        Some merged \<Rightarrow> (butlast items @ [merged], b - f_bytes_len (last items) + f_bytes_len merged)
      | None \<Rightarrow>
         (let (items', b') =
            (case replace_key f of
               None \<Rightarrow> (items, b)
             | Some k \<Rightarrow>
                 (case position (\<lambda>g. replace_key g = Some k) (take 32 (rev items)) of
                    None \<Rightarrow> (items, b)
                  | Some p \<Rightarrow> (let i = length items - 1 - p in
                              (remove_nth i items, b - f_bytes_len (items ! i)))))
          in (items' @ [f], b' + f_bytes_len f))))"

definition within_limits :: "nat \<Rightarrow> nat \<Rightarrow> frame list \<times> nat \<Rightarrow> bool" where
  "within_limits me mb ib \<longleftrightarrow> length (fst ib) \<le> me \<and> snd ib \<le> mb"

function evict_kind :: "frame_kind \<Rightarrow> nat \<Rightarrow> nat \<Rightarrow> frame list \<Rightarrow> nat \<Rightarrow> frame list \<times> nat" where
  "evict_kind k me mb items b =
     (if length items > me \<or> b > mb then
        (case position (\<lambda>f. f_kind f = k) items of
           Some i \<Rightarrow> evict_kind k me mb (remove_nth i items) (b - f_bytes_len (items ! i))
         | None \<Rightarrow> (items, b))
      else (items, b))"
  by pat_completeness auto
termination
  by (relation "measure (\<lambda>(k, me, mb, items, b). length items)") (auto dest: position_bound)

declare evict_kind.simps [simp del]

definition stream_buffer_insert ::
  "(envelope \<Rightarrow> nat) \<Rightarrow> nat \<Rightarrow> frame \<Rightarrow> stream_buffer \<Rightarrow> stream_buffer \<times> insert_outcome" where
  "stream_buffer_insert elen now f s =
     (let me = sb_max_events s; mb = sb_max_bytes s;
          ok = within_limits me mb;
          ret = (\<lambda>ib. (s\<lparr>sb_items := fst ib, sb_bytes := snd ib\<rparr>, Buffered));
          ib1 = place_frame elen now f (expire_front now (sb_retention s) (sb_items s) (sb_bytes s))
      in if ok ib1 then ret ib1 else
      let ib2 = coalesce elen now (fst ib1)
      in if ok ib2 then ret ib2 else
      let ib3 = evict_kind Mergeable me mb (fst ib2) (snd ib2)
      in if ok ib3 then ret ib3 else
      let ib4 = evict_kind Recoverable me mb (fst ib3) (snd ib3)
      in if ok ib4 then ret ib4 else
      (s\<lparr>sb_items := [], sb_bytes := 0\<rparr>, OverflowReset))"

definition frames_from :: "nat \<Rightarrow> stream_buffer \<Rightarrow> frame list" where
  "frames_from from_sequence s = filter (\<lambda>f. f_seq f \<ge> from_sequence) (sb_items s)"

definition covered :: "string \<Rightarrow> nat \<Rightarrow> frame \<Rightarrow> bool" where
  "covered device c f \<longleftrightarrow> ev_device_id (f_env f) = device \<and>
     (case f_upstream_seq f of Some n \<Rightarrow> n \<le> c | None \<Rightarrow> False)"

definition retain_uncovered :: "string \<Rightarrow> nat \<Rightarrow> stream_buffer \<Rightarrow> stream_buffer \<times> nat" where
  "retain_uncovered device c s =
     (let kept = filter (\<lambda>f. \<not> covered device c f) (sb_items s);
          removed = length (sb_items s) - length kept
      in (s\<lparr>sb_items := kept,
            sb_bytes := (if removed > 0 then sum_list (map f_bytes_len kept) else sb_bytes s)\<rparr>, removed))"

definition stream_buffer_clear :: "stream_buffer \<Rightarrow> stream_buffer" where
  "stream_buffer_clear s = s\<lparr>sb_items := [], sb_bytes := 0\<rparr>"

section \<open>Facts on the passes\<close>

abbreviation fbytes :: "frame list \<Rightarrow> nat" where "fbytes fs \<equiv> sum_list (map f_bytes_len fs)"

text \<open>A critical frame carries no merge information: this is what \<open>classify\<close> gives.\<close>

definition crit_solid :: "frame \<Rightarrow> bool" where
  "crit_solid f \<longleftrightarrow> (f_kind f = Critical \<longrightarrow> f_merge f = None)"

lemma classify_critical: "classify e = (Critical, m) \<Longrightarrow> m = None"
  by (cases e) (auto simp: Let_def split: option.splits item_content.splits)

lemma merge_pair_SomeD:
  assumes "merge_pair elen now a b = Some m"
  obtains k off la lb app_a app_b where
    "f_merge a = Some (MOutputAppend k off la)" "f_merge b = Some (MOutputAppend k (off + of_nat la) lb)"
    "last_append (f_env a) = Some app_a" "last_append (f_env b) = Some app_b"
    "f_env m = set_last_append (f_env a) (app_a\<lparr>oa_bytes := oa_bytes app_a @ oa_bytes app_b\<rparr>)"
    "f_merge m = Some (MOutputAppend k off (la + lb))"
    "f_kind m = f_kind a" "f_upstream_seq m = min_seq (f_upstream_seq a) (f_upstream_seq b)"
    "f_bytes_len m = elen (f_env m)" "elen (f_env m) \<le> MAX_FRAME_BYTES"
  using assms
  by (auto simp: merge_pair_def frame_with_upstream_seq_def Let_def
      split: option.splits merge_info.splits if_splits)

lemma merge_pair_unmerged [simp]:
  "f_merge a = None \<Longrightarrow> merge_pair elen now a b = None"
  "f_merge b = None \<Longrightarrow> merge_pair elen now a b = None"
  by (auto simp: merge_pair_def split: option.splits merge_info.splits)

lemma set_last_append_keeps [simp]:
  "ev_sequence (set_last_append e a) = ev_sequence e"
  "ev_device_id (set_last_append e a) = ev_device_id e"
  "ev_stream_id (set_last_append e a) = ev_stream_id e"
  "ev_stream_epoch (set_last_append e a) = ev_stream_epoch e"
  by (auto simp: set_last_append_def split: option.splits payload.splits)

lemma last_append_set: "last_append e = Some x \<Longrightarrow> last_append (set_last_append e a) = Some a"
  by (auto simp: last_append_def set_last_append_def split: option.splits payload.splits if_splits)

lemma merge_pair_seq: "merge_pair elen now a b = Some m \<Longrightarrow> f_seq m = f_seq a"
  by (erule merge_pair_SomeD) simp

lemma merge_pair_crit:
  assumes "merge_pair elen now a b = Some m" "crit_solid a" "crit_solid b"
  shows "f_kind a \<noteq> Critical" "f_kind b \<noteq> Critical" "f_kind m \<noteq> Critical" "crit_solid m"
  using assms by (auto elim!: merge_pair_SomeD simp: crit_solid_def)

subsection \<open>A left-to-right pass that keeps, merges or drops frames\<close>

lemma expire_front_eq:
  "expire_front now ret fs b =
     (let gone = takeWhile (\<lambda>f. now - f_ts f > ret) fs
      in (dropWhile (\<lambda>f. now - f_ts f > ret) fs, b - fbytes gone))"
  by (induction fs arbitrary: b) (auto simp: Let_def)

lemma fbytes_takeWhile_dropWhile: "fbytes (takeWhile p fs) + fbytes (dropWhile p fs) = fbytes fs"
  by (metis map_append sum_list_append takeWhile_dropWhile_id)

lemma expire_front_acct [acct]:
  "expire_front now ret fs (fbytes fs) = (fs', b') \<Longrightarrow> b' = fbytes fs'"
  using fbytes_takeWhile_dropWhile [of "\<lambda>f. now - f_ts f > ret" fs]
  by (auto simp: expire_front_eq Let_def)

lemma butlast_last_bytes: "fs \<noteq> [] \<Longrightarrow> fbytes fs = fbytes (butlast fs) + f_bytes_len (last fs)"
  by (induction fs) auto

lemma merge_step_acct [acct]:
  "merge_step elen now (rs, fbytes rs) f = (rs', t') \<Longrightarrow> t' = fbytes rs'"
  using butlast_last_bytes [of rs] by (auto simp: merge_step_def split: option.splits if_splits)

lemma merge_fold_acct:
  "foldl (merge_step elen now) (rs, fbytes rs) fs = (rs', t') \<Longrightarrow> t' = fbytes rs'"
proof (induction fs arbitrary: rs)
  case (Cons f fs)
  obtain rs1 t1 where "merge_step elen now (rs, fbytes rs) f = (rs1, t1)" by fastforce
  with Cons show ?case using merge_step_acct [of elen now rs f rs1 t1] by simp
qed simp

lemma coalesce_acct [acct]: "coalesce elen now items = (items', b') \<Longrightarrow> b' = fbytes items'"
  using merge_fold_acct [of elen now "[]"] by (simp add: coalesce_def)

lemma place_frame_acct [acct]:
  "place_frame elen now f (items, fbytes items) = (items', b') \<Longrightarrow> b' = fbytes items'"
proof -
  have pos: "length items - Suc p < length items" if "position P (take 32 (rev items)) = Some p" for P p
    using position_bound [OF that] by auto
  assume "place_frame elen now f (items, fbytes items) = (items', b')"
  then show ?thesis using butlast_last_bytes [of items]
    by (auto simp: place_frame_def Let_def pos sum_remove_nth split: option.splits if_splits)
qed

lemma evict_kind_acct [acct]:
  "evict_kind k me mb items (fbytes items) = (items', b') \<Longrightarrow> b' = fbytes items'"
proof (induction k me mb items "fbytes items" rule: evict_kind.induct)
  case (1 k me mb items)
  show ?case
  proof (cases "length items > me \<or> fbytes items > mb")
    case True
    show ?thesis
    proof (cases "position (\<lambda>f. f_kind f = k) items")
      case (Some i)
      note step = sum_remove_nth [OF position_bound [OF Some], of f_bytes_len]
      show ?thesis
        using "1.hyps" [OF True Some] "1.prems" True Some
        by (simp add: evict_kind.simps [of k me mb items] step)
    qed (use "1.prems" in \<open>auto simp: evict_kind.simps [of k me mb items] split: if_splits\<close>)
  qed (use "1.prems" in \<open>auto simp: evict_kind.simps [of k me mb items] split: if_splits\<close>)
qed

subsection \<open>Critical frames\<close>

abbreviation crit :: "frame list \<Rightarrow> frame list" where "crit fs \<equiv> filter (\<lambda>f. f_kind f = Critical) fs"

lemma crit_solid_replace: "crit_solid f \<Longrightarrow> replace_key f \<noteq> None \<Longrightarrow> f_kind f \<noteq> Critical"
  by (auto simp: crit_solid_def replace_key.simps split: option.splits)

lemma drop_replaced_set: "set (drop_replaced fs) \<subseteq> set fs"
  by (induction fs) auto

lemma drop_replaced_crit [keeps]:
  "list_all crit_solid fs \<Longrightarrow> crit (drop_replaced fs) = crit fs"
  by (induction fs) (auto dest: crit_solid_replace)

lemma merged_last_crit:
  assumes "rs \<noteq> []" "merge_pair elen now (last rs) f = Some m" "list_all crit_solid rs" "crit_solid f"
  shows "crit (butlast rs @ [m]) = crit (rs @ [f]) \<and> list_all crit_solid (butlast rs @ [m])"
proof -
  obtain ys y where rs: "rs = ys @ [y]" using assms(1) by (metis rev_exhaust)
  then show ?thesis using merge_pair_crit [OF assms(2)] assms(3,4) by simp
qed

lemma merge_step_crit [keeps]:
  assumes "merge_step elen now (rs, t) f = (rs', t')" "list_all crit_solid rs" "crit_solid f"
  shows "crit rs' = crit (rs @ [f]) \<and> list_all crit_solid rs'"
  using assms merged_last_crit [of rs elen now f]
  by (fastforce simp: merge_step_def split: option.splits if_splits)

lemma merge_fold_crit:
  assumes "foldl (merge_step elen now) (rs, t) fs = (rs', t')" "list_all crit_solid (rs @ fs)"
  shows "crit rs' = crit (rs @ fs) \<and> list_all crit_solid rs'"
  using assms
proof (induction fs arbitrary: rs t)
  case (Cons f fs)
  obtain rs1 t1 where st: "merge_step elen now (rs, t) f = (rs1, t1)" by fastforce
  from Cons.prems(2) have "crit rs1 = crit (rs @ [f])" "list_all crit_solid (rs1 @ fs)"
    using merge_step_crit [OF st] by auto
  with Cons.IH [of rs1 t1] Cons.prems(1) st show ?case by simp
qed simp

lemma coalesce_crit [keeps]:
  assumes "list_all crit_solid items" "coalesce elen now items = (items', b')"
  shows "crit items' = crit items \<and> list_all crit_solid items'"
proof -
  have "list_all crit_solid (drop_replaced items)"
    using assms(1) drop_replaced_set by (auto simp: list_all_iff)
  then show ?thesis
    using merge_fold_crit [of elen now "[]" 0 _ items' b'] assms drop_replaced_crit [OF assms(1)]
    by (auto simp: coalesce_def split: if_splits)
qed

lemma replaced_index:
  assumes "position (\<lambda>g. replace_key g = Some k) (take 32 (rev items)) = Some p"
  shows "length items - Suc p < length items \<and> replace_key (items ! (length items - Suc p)) = Some k"
  using position_SomeD [OF assms] by (auto simp: rev_nth)

lemma place_frame_crit [keeps]:
  assumes "list_all crit_solid items" "crit_solid f" "place_frame elen now f (items, b) = (items', b')"
  shows "crit items' = crit (items @ [f]) \<and> list_all crit_solid items'"
proof (cases "if items = [] then None else merge_pair elen now (last items) f")
  case (Some m)
  then show ?thesis using assms merged_last_crit [of items elen now f m]
    by (auto simp: place_frame_def split: if_splits)
next
  case None
  show ?thesis
  proof (cases "Option.bind (replace_key f) (\<lambda>k. position (\<lambda>g. replace_key g = Some k) (take 32 (rev items)))")
    case None': None
    then show ?thesis using assms None
      by (auto simp: place_frame_def Let_def bind_eq_None_conv split: option.splits if_splits)
  next
    case (Some p)
    then obtain k where k: "replace_key f = Some k"
      and p: "position (\<lambda>g. replace_key g = Some k) (take 32 (rev items)) = Some p"
      by (auto simp: bind_eq_Some_conv)
    let ?i = "length items - Suc p"
    have i: "?i < length items" "f_kind (items ! ?i) \<noteq> Critical"
      using replaced_index [OF p] assms(1) crit_solid_replace by (auto simp: list_all_length)
    have "items' = remove_nth ?i items @ [f]"
      using assms(3) None k p by (auto simp: place_frame_def Let_def split: if_splits)
    then show ?thesis
      using filter_remove_nth [of ?i items "\<lambda>f. f_kind f = Critical"] i assms(1,2) set_remove_nth [of ?i items]
      by (auto simp: list_all_iff)
  qed
qed

lemma evict_kind_keeps [keeps]:
  "evict_kind k me mb items b = (items', b') \<Longrightarrow>
     (\<forall>q. (\<forall>f. q f \<longrightarrow> f_kind f \<noteq> k) \<longrightarrow> filter q items' = filter q items) \<and> subseq items' items"
proof (induction k me mb items b rule: evict_kind.induct)
  case (1 k me mb items b)
  show ?case
  proof (cases "(length items > me \<or> b > mb) \<and> position (\<lambda>f. f_kind f = k) items \<noteq> None")
    case True
    then obtain i where i: "position (\<lambda>f. f_kind f = k) items = Some i" by auto
    have rec: "evict_kind k me mb (remove_nth i items) (b - f_bytes_len (items ! i)) = (items', b')"
      using "1.prems" True i by (simp add: evict_kind.simps [of k me mb items b])
    note IH = "1.IH" [OF _ i rec]
    have "filter q items' = filter q items" if "\<forall>f. q f \<longrightarrow> f_kind f \<noteq> k" for q
      using IH True that filter_remove_nth [OF position_bound [OF i], of q] position_holds [OF i] by auto
    moreover have "subseq items' items"
      using IH True subseq_remove_nth [OF position_bound [OF i]] subseq_order.order_trans by blast
    ultimately show ?thesis by blast
  qed (use "1.prems" in \<open>auto simp: evict_kind.simps [of k me mb items b] split: if_splits option.splits\<close>)
qed

lemma evict_kind_stops:
  "evict_kind k me mb items b = (items', b') \<Longrightarrow>
     within_limits me mb (items', b') \<or> (\<forall>f\<in>set items'. f_kind f \<noteq> k)"
proof (induction k me mb items b rule: evict_kind.induct)
  case (1 k me mb items b)
  show ?case
  proof (cases "(length items > me \<or> b > mb) \<and> position (\<lambda>f. f_kind f = k) items \<noteq> None")
    case True
    then show ?thesis using "1" by (auto simp: evict_kind.simps [of k me mb items b])
  next
    case False
    then have "items' = items" "b' = b" using "1.prems"
      by (auto simp: evict_kind.simps [of k me mb items b] split: if_splits)
    then show ?thesis using False
      by (auto simp: within_limits_def) (auto simp: position_None_iff)
  qed
qed

lemma evict_kind_set: "set (fst (evict_kind k me mb items b)) \<subseteq> set items"
  by (cases "evict_kind k me mb items b") (auto dest!: evict_kind_keeps subseq_set)

lemma evict_kind_stops':
  "\<not> within_limits me mb (evict_kind k me mb items b) \<Longrightarrow> f \<in> set (fst (evict_kind k me mb items b)) \<Longrightarrow> f_kind f \<noteq> k"
  by (cases "evict_kind k me mb items b") (use evict_kind_stops in fastforce)

lemma evict_both_critical:
  assumes "ib3 = evict_kind Mergeable me mb items b" "ib4 = evict_kind Recoverable me mb (fst ib3) (snd ib3)"
    and "\<not> within_limits me mb ib3" "\<not> within_limits me mb ib4"
  shows "crit (fst ib4) = fst ib4"
proof -
  have "f_kind g = Critical" if g: "g \<in> set (fst ib4)" for g
  proof -
    have "f_kind g \<noteq> Recoverable" using evict_kind_stops' [of me mb Recoverable] assms(2,4) g by simp
    moreover have "g \<in> set (fst ib3)" using evict_kind_set g assms(2) by blast
    then have "f_kind g \<noteq> Mergeable" using evict_kind_stops' [of me mb Mergeable] assms(1,3) by simp
    ultimately show ?thesis by (cases "f_kind g") auto
  qed
  then show ?thesis by (simp add: filter_id_conv)
qed

subsection \<open>Sequence numbers\<close>

text \<open>No pass reorders frames or invents a sequence number.\<close>

lemma drop_replaced_subseq: "subseq (drop_replaced fs) fs"
  by (induction fs) auto

lemma merged_last_seq:
  "rs \<noteq> [] \<Longrightarrow> merge_pair elen now (last rs) f = Some m \<Longrightarrow> map f_seq (butlast rs @ [m]) = map f_seq rs"
  by (cases rs rule: rev_cases) (auto dest: merge_pair_seq)

lemma merge_step_seq [keeps]:
  assumes "merge_step elen now (rs, t) f = (rs', t')"
  shows "subseq (map f_seq rs') (map f_seq (rs @ [f]))"
  using assms merged_last_seq [of rs elen now f]
  by (auto simp: merge_step_def split: option.splits if_splits)

lemma merge_fold_seq:
  "foldl (merge_step elen now) (rs, t) fs = (rs', t') \<Longrightarrow> subseq (map f_seq rs') (map f_seq (rs @ fs))"
proof (induction fs arbitrary: rs t)
  case (Cons f fs)
  obtain rs1 t1 where st: "merge_step elen now (rs, t) f = (rs1, t1)" by fastforce
  have "subseq (map f_seq rs') (map f_seq (rs1 @ fs))" using Cons.IH [of rs1 t1] Cons.prems st by simp
  moreover have "subseq (map f_seq (rs1 @ fs)) (map f_seq ((rs @ [f]) @ fs))"
    using list_emb_append_mono [OF merge_step_seq [OF st] subseq_order.order_refl [of "map f_seq fs"]]
    by simp
  ultimately show ?case using subseq_order.order_trans by fastforce
qed simp

lemma coalesce_seq [keeps]:
  "coalesce elen now items = (items', b') \<Longrightarrow> subseq (map f_seq items') (map f_seq items)"
  using merge_fold_seq [of elen now "[]" 0 _ items' b'] subseq_map [OF drop_replaced_subseq [of items], of f_seq]
  by (auto simp: coalesce_def split: if_splits intro: subseq_order.order_trans)

lemma place_frame_seq [keeps]:
  assumes "place_frame elen now f (items, b) = (items', b')"
  shows "subseq (map f_seq items') (map f_seq (items @ [f]))"
proof -
  have "subseq (map f_seq (remove_nth (length items - Suc p) items)) (map f_seq items)"
    if "position P (take 32 (rev items)) = Some p" for P p
    using position_bound [OF that] by (intro subseq_map subseq_remove_nth) auto
  then show ?thesis using assms merged_last_seq [of items elen now f]
    by (auto simp: place_frame_def Let_def list_emb_append_mono split: option.splits if_splits)
qed

lemma coalesce_seq': "subseq (map f_seq (fst (coalesce elen now items))) (map f_seq items)"
  by (cases "coalesce elen now items") (use coalesce_seq in auto)

lemma evict_kind_seq': "subseq (map f_seq (fst (evict_kind k me mb items b))) (map f_seq items)"
  by (cases "evict_kind k me mb items b") (auto dest!: evict_kind_keeps intro: subseq_map)

lemma place_frame_seq': "subseq (map f_seq (fst (place_frame elen now f ib))) (map f_seq (fst ib @ [f]))"
  by (cases ib, cases "place_frame elen now f ib") (use place_frame_seq in auto)

subsection \<open>Output bytes\<close>

text \<open>The bytes an output frame writes, each with its merge key and its absolute offset.\<close>

fun cells :: "string \<Rightarrow> u64 \<Rightarrow> bytes \<Rightarrow> (string \<times> u64 \<times> u8) list" where
  "cells k off [] = []"
| "cells k off (b # bs) = (k, off, b) # cells k (off + 1) bs"

lemma cells_append: "cells k off (xs @ ys) = cells k off xs @ cells k (off + of_nat (length xs)) ys"
  by (induction xs arbitrary: off) (simp_all add: algebra_simps)

definition frame_cells :: "frame \<Rightarrow> (string \<times> u64 \<times> u8) list" where
  "frame_cells f = (case (f_merge f, last_append (f_env f)) of
       (Some (MOutputAppend k off _), Some a) \<Rightarrow> cells k off (oa_bytes a)
     | _ \<Rightarrow> [])"

text \<open>The merge information agrees with the payload; \<open>classify\<close> builds it so.\<close>

definition append_consistent :: "frame \<Rightarrow> bool" where
  "append_consistent f = (case f_merge f of
       Some (MOutputAppend _ _ len) \<Rightarrow>
         (case last_append (f_env f) of Some a \<Rightarrow> length (oa_bytes a) = len | None \<Rightarrow> False)
     | _ \<Rightarrow> True)"

abbreviation all_cells :: "frame list \<Rightarrow> (string \<times> u64 \<times> u8) list" where
  "all_cells fs \<equiv> concat (map frame_cells fs)"

lemma merge_pair_cells:
  assumes "merge_pair elen now a b = Some m" "append_consistent a" "append_consistent b"
  shows "frame_cells m = frame_cells a @ frame_cells b" "append_consistent m"
  using assms
  by (auto elim!: merge_pair_SomeD simp: frame_cells_def append_consistent_def last_append_set cells_append)

lemma replace_no_cells: "replace_key f \<noteq> None \<Longrightarrow> frame_cells f = []"
  by (auto simp: replace_key.simps frame_cells_def split: option.splits merge_info.splits)

lemma drop_replaced_cells: "all_cells (drop_replaced fs) = all_cells fs"
  by (induction fs) (auto simp: replace_no_cells)

lemma merged_last_cells:
  assumes "rs \<noteq> []" "merge_pair elen now (last rs) f = Some m" "list_all append_consistent rs" "append_consistent f"
  shows "all_cells (butlast rs @ [m]) = all_cells (rs @ [f]) \<and> list_all append_consistent (butlast rs @ [m])"
  using assms by (cases rs rule: rev_cases) (auto dest: merge_pair_cells)

lemma merge_step_cells:
  assumes "merge_step elen now (rs, t) f = (rs', t')" "list_all append_consistent rs" "append_consistent f"
  shows "all_cells rs' = all_cells (rs @ [f]) \<and> list_all append_consistent rs'"
  using assms merged_last_cells [of rs elen now f]
  by (fastforce simp: merge_step_def split: option.splits if_splits)

lemma merge_fold_cells:
  assumes "foldl (merge_step elen now) (rs, t) fs = (rs', t')" "list_all append_consistent (rs @ fs)"
  shows "all_cells rs' = all_cells (rs @ fs)"
  using assms
proof (induction fs arbitrary: rs t)
  case (Cons f fs)
  obtain rs1 t1 where st: "merge_step elen now (rs, t) f = (rs1, t1)" by fastforce
  from Cons.prems(2) have "all_cells rs1 = all_cells (rs @ [f])" "list_all append_consistent (rs1 @ fs)"
    using merge_step_cells [OF st] by auto
  with Cons.IH [of rs1 t1] Cons.prems(1) st show ?case by simp
qed simp

lemma coalesce_cells:
  assumes "list_all append_consistent items"
  shows "all_cells (fst (coalesce elen now items)) = all_cells items"
proof -
  obtain fs b where c: "coalesce elen now items = (fs, b)" by fastforce
  have "list_all append_consistent (drop_replaced items)"
    using assms drop_replaced_set by (auto simp: list_all_iff)
  then show ?thesis
    using merge_fold_cells [of elen now "[]" 0 _ fs b] assms c
    by (auto simp: coalesce_def drop_replaced_cells split: if_splits)
qed

lemma remove_replaced_cells:
  assumes "position (\<lambda>g. replace_key g = Some k) (take 32 (rev items)) = Some p"
  shows "all_cells (remove_nth (length items - Suc p) items) = all_cells items"
proof -
  note i = replaced_index [OF assms]
  have "all_cells items = all_cells (take (length items - Suc p) items @
          items ! (length items - Suc p) # drop (Suc (length items - Suc p)) items)"
    using remove_nth_split i by metis
  then show ?thesis using i replace_no_cells by (simp add: remove_nth_def)
qed

lemma place_frame_cells:
  assumes "list_all append_consistent items" "append_consistent f"
  shows "all_cells (fst (place_frame elen now f (items, b))) = all_cells (items @ [f])"
  using assms merged_last_cells [of items elen now f]
  by (auto simp: place_frame_def Let_def remove_replaced_cells split: option.splits)

section \<open>Properties of the stream buffer\<close>

definition buffer_ok :: "stream_buffer \<Rightarrow> bool" where
  "buffer_ok s \<longleftrightarrow> sb_bytes s = fbytes (sb_items s) \<and>
     within_limits (sb_max_events s) (sb_max_bytes s) (sb_items s, sb_bytes s) \<and>
     list_all crit_solid (sb_items s) \<and> sorted_wrt (<) (map f_seq (sb_items s))"

abbreviation unexpired :: "nat \<Rightarrow> stream_buffer \<Rightarrow> frame list" where
  "unexpired now s \<equiv> dropWhile (\<lambda>f. now - f_ts f > sb_retention s) (sb_items s)"

lemma insert_Buffered:
  assumes "stream_buffer_insert elen now f s = (s', Buffered)"
    and "P (place_frame elen now f (expire_front now (sb_retention s) (sb_items s) (sb_bytes s)))"
    and "\<And>ib. P ib \<Longrightarrow> P (coalesce elen now (fst ib))"
    and "\<And>k ib. k \<noteq> Critical \<Longrightarrow> P ib \<Longrightarrow>
           P (evict_kind k (sb_max_events s) (sb_max_bytes s) (fst ib) (snd ib))"
  shows "P (sb_items s', sb_bytes s')"
proof -
  let ?ib1 = "place_frame elen now f (expire_front now (sb_retention s) (sb_items s) (sb_bytes s))"
  have P2: "P (coalesce elen now (fst ?ib1))" using assms(2,3) by blast
  have P3: "P (evict_kind Mergeable (sb_max_events s) (sb_max_bytes s)
      (fst (coalesce elen now (fst ?ib1))) (snd (coalesce elen now (fst ?ib1))))"
    using assms(4) [OF _ P2] by simp
  show ?thesis using assms(1,2) P2 P3 assms(4) [OF _ P3, of Recoverable]
    by (auto simp: stream_buffer_insert_def Let_def split: if_splits)
qed

lemma insert_frame_keeps:
  assumes "stream_buffer_insert elen now f s = (s', out)"
  shows "sb_max_events s' = sb_max_events s \<and> sb_max_bytes s' = sb_max_bytes s \<and> sb_retention s' = sb_retention s"
  using assms by (auto simp: stream_buffer_insert_def Let_def split: if_splits)

lemma insert_limits:
  assumes "stream_buffer_insert elen now f s = (s', out)"
  shows "within_limits (sb_max_events s) (sb_max_bytes s) (sb_items s', sb_bytes s')"
  using assms by (auto simp: stream_buffer_insert_def Let_def within_limits_def split: if_splits)

lemma insert_overflow:
  "stream_buffer_insert elen now f s = (s', OverflowReset) \<Longrightarrow> sb_items s' = [] \<and> sb_bytes s' = 0"
  by (auto simp: stream_buffer_insert_def Let_def split: if_splits)

lemma insert_acct:
  assumes "sb_bytes s = fbytes (sb_items s)" "stream_buffer_insert elen now f s = (s', out)"
  shows "sb_bytes s' = fbytes (sb_items s')"
proof (cases out)
  case Buffered
  let ?P = "\<lambda>ib. snd ib = fbytes (fst ib)"
  have "?P (place_frame elen now f (expire_front now (sb_retention s) (sb_items s) (sb_bytes s)))"
    using expire_front_acct place_frame_acct assms(1) by (metis (no_types, lifting) prod.collapse)
  moreover have "?P (coalesce elen now (fst ib))" for ib :: "frame list \<times> nat"
    using coalesce_acct by (metis prod.collapse)
  moreover have "?P (evict_kind k (sb_max_events s) (sb_max_bytes s) (fst ib) (snd ib))" if "?P ib" for k ib
    using that evict_kind_acct by (metis prod.collapse)
  ultimately show ?thesis using insert_Buffered [where P = ?P, OF assms(2) [unfolded Buffered]] by simp
qed (use insert_overflow assms(2) in auto)

lemma insert_seq:
  assumes "stream_buffer_insert elen now f s = (s', out)"
  shows "subseq (map f_seq (sb_items s')) (map f_seq (sb_items s @ [f]))"
proof (cases out)
  case Buffered
  let ?P = "\<lambda>ib :: frame list \<times> nat. subseq (map f_seq (fst ib)) (map f_seq (sb_items s @ [f]))"
  have "subseq (map f_seq (fst (place_frame elen now f (expire_front now (sb_retention s) (sb_items s) (sb_bytes s)))))
          (map f_seq (unexpired now s @ [f]))"
    using place_frame_seq' [of elen now f "expire_front now (sb_retention s) (sb_items s) (sb_bytes s)"]
    by (simp add: expire_front_eq Let_def)
  moreover have "subseq (map f_seq (unexpired now s @ [f])) (map f_seq (sb_items s @ [f]))"
    unfolding map_append
    by (rule list_emb_append_mono [OF subseq_map [OF subseq_dropWhile] subseq_order.order_refl])
  ultimately have "?P (place_frame elen now f (expire_front now (sb_retention s) (sb_items s) (sb_bytes s)))"
    using subseq_order.order_trans by blast
  moreover have "?P (coalesce elen now (fst ib))" if "?P ib" for ib
    using subseq_order.order_trans [OF coalesce_seq' that] .
  moreover have "?P (evict_kind k (sb_max_events s) (sb_max_bytes s) (fst ib) (snd ib))" if "?P ib" for k ib
    using subseq_order.order_trans [OF evict_kind_seq' that] .
  ultimately show ?thesis using insert_Buffered [where P = ?P, OF assms [unfolded Buffered]] by simp
qed (use insert_overflow assms in auto)

definition crit_kept :: "nat \<Rightarrow> frame \<Rightarrow> stream_buffer \<Rightarrow> frame list \<times> nat \<Rightarrow> bool" where
  "crit_kept now f s ib \<longleftrightarrow> crit (fst ib) = crit (unexpired now s @ [f]) \<and> list_all crit_solid (fst ib)"

lemma crit_kept_place:
  assumes "list_all crit_solid (sb_items s)" "crit_solid f"
  shows "crit_kept now f s (place_frame elen now f (expire_front now (sb_retention s) (sb_items s) (sb_bytes s)))"
proof -
  have "list_all crit_solid (unexpired now s)"
    using assms(1) subseq_set [OF subseq_dropWhile] by (fastforce simp: list_all_iff)
  then show ?thesis
    using place_frame_crit assms(2) unfolding crit_kept_def expire_front_eq Let_def by (metis prod.collapse)
qed

lemma crit_kept_coalesce: "crit_kept now f s ib \<Longrightarrow> crit_kept now f s (coalesce elen now' (fst ib))"
  using coalesce_crit unfolding crit_kept_def by (metis prod.collapse)

lemma crit_kept_evict:
  assumes "k \<noteq> Critical" "crit_kept now f s ib"
  shows "crit_kept now f s (evict_kind k me mb (fst ib) (snd ib))"
proof -
  obtain is' b' where e: "evict_kind k me mb (fst ib) (snd ib) = (is', b')" by fastforce
  have "crit is' = crit (fst ib)" using evict_kind_keeps [OF e] assms(1) by auto
  moreover have "list_all crit_solid is'"
    using evict_kind_keeps [OF e] subseq_set assms(2) by (fastforce simp: crit_kept_def list_all_iff)
  ultimately show ?thesis using assms(2) e by (simp add: crit_kept_def)
qed

lemma insert_crit_kept:
  assumes "list_all crit_solid (sb_items s)" "crit_solid f" "stream_buffer_insert elen now f s = (s', Buffered)"
  shows "crit_kept now f s (sb_items s', sb_bytes s')"
  using insert_Buffered [OF assms(3) crit_kept_place [OF assms(1,2)] crit_kept_coalesce crit_kept_evict] by blast

lemma buffer_ok_insert:
  assumes "buffer_ok s" "crit_solid f" "\<forall>g\<in>set (sb_items s). f_seq g < f_seq f"
  shows "buffer_ok (fst (stream_buffer_insert elen now f s))"
proof -
  obtain s' out where i: "stream_buffer_insert elen now f s = (s', out)" by fastforce
  have "sorted_wrt (<) (map f_seq (sb_items s @ [f]))"
    using assms by (auto simp: buffer_ok_def sorted_wrt_append)
  then have "sorted_wrt (<) (map f_seq (sb_items s'))" using insert_seq [OF i] by (rule subseq_sorted_wrt [rotated])
  moreover have "list_all crit_solid (sb_items s')"
    using i insert_overflow insert_crit_kept [of s f elen now s'] assms(1,2)
    by (cases out) (auto simp: buffer_ok_def crit_kept_def)
  ultimately show ?thesis
    using i insert_acct [of s elen now f s' out] insert_limits [OF i] insert_frame_keeps [OF i] assms(1)
    by (simp add: buffer_ok_def)
qed

text \<open>
  C22. Inserting a frame keeps the invariant of the replay window: the byte counter is the sum of
  the queued frame lengths, the count and byte limits hold, critical frames carry no merge
  information, and sequence numbers stay strictly ascending.
\<close>

theorem insert_keeps_buffer_ok:
  assumes "buffer_ok s" "crit_solid f" "\<forall>g\<in>set (sb_items s). f_seq g < f_seq f"
  shows "buffer_ok (fst (stream_buffer_insert elen now f s))"
  using assms by (rule buffer_ok_insert)

text \<open>
  C12. Critical frames (questions, approvals, turn lifecycle, summaries, queue state) are never
  dropped by pressure: after a buffered insert the critical frames are exactly the critical frames
  that had not outlived the retention time, in order, with the new frame appended if it is critical.
  The window is reset as a whole only when the critical frames alone exceed a limit.
\<close>

theorem critical_frames_survive_insert:
  assumes "list_all crit_solid (sb_items s)" "crit_solid f" "sb_bytes s = fbytes (sb_items s)"
  shows "case stream_buffer_insert elen now f s of
      (s', Buffered) \<Rightarrow> crit (sb_items s') = crit (unexpired now s @ [f])
    | (s', OverflowReset) \<Rightarrow> sb_items s' = [] \<and>
        \<not> within_limits (sb_max_events s) (sb_max_bytes s)
            (crit (unexpired now s @ [f]), fbytes (crit (unexpired now s @ [f])))"
proof -
  obtain s' out where i: "stream_buffer_insert elen now f s = (s', out)" by fastforce
  show ?thesis
  proof (cases out)
    case Buffered
    then show ?thesis using i insert_crit_kept [OF assms(1,2), of elen now s'] by (simp add: crit_kept_def)
  next
    case OverflowReset
    let ?ib1 = "place_frame elen now f (expire_front now (sb_retention s) (sb_items s) (sb_bytes s))"
    let ?ib2 = "coalesce elen now (fst ?ib1)"
    let ?ev = "\<lambda>k ib. evict_kind k (sb_max_events s) (sb_max_bytes s) (fst ib) (snd ib)"
    define ib3 where "ib3 = ?ev Mergeable ?ib2"
    define ib4 where "ib4 = ?ev Recoverable ib3"
    let ?ok = "within_limits (sb_max_events s) (sb_max_bytes s)"
    have no: "\<not> ?ok ib3" "\<not> ?ok ib4"
      using i OverflowReset
      by (auto simp: stream_buffer_insert_def Let_def ib3_def ib4_def split: if_splits)
    have "snd ?ib2 = fbytes (fst ?ib2)" using coalesce_acct by (metis prod.collapse)
    then have "snd ib3 = fbytes (fst ib3)" using evict_kind_acct ib3_def by (metis prod.collapse)
    then have acct: "snd ib4 = fbytes (fst ib4)" using evict_kind_acct ib4_def by (metis prod.collapse)
    have "crit_kept now f s ib4"
      unfolding ib3_def ib4_def
      by (intro crit_kept_evict crit_kept_coalesce crit_kept_place assms) simp_all
    then have "fst ib4 = crit (unexpired now s @ [f])"
      using evict_both_critical [OF ib3_def ib4_def no] by (simp add: crit_kept_def)
    then show ?thesis
      using i OverflowReset insert_overflow [of elen now f s s'] no(2) acct by (simp add: within_limits_def)
  qed
qed

text \<open>
  C23. Merging is lossless: the pressure pass and the insertion of a frame leave the output bytes
  of the window unchanged, byte for byte, with their merge key and absolute offset.
\<close>

theorem merging_loses_no_output:
  assumes "list_all append_consistent items" "append_consistent f"
  shows "all_cells (fst (coalesce elen now items)) = all_cells items \<and>
    all_cells (fst (place_frame elen now f (items, b))) = all_cells (items @ [f])"
  using coalesce_cells place_frame_cells assms by blast

text \<open>The scope the hub puts before a merge key: stream, epoch and upstream device.\<close>

definition merge_scope :: "string \<Rightarrow> nat \<Rightarrow> string \<Rightarrow> string" where
  "merge_scope stream epoch device = stream @ ''/'' @ show_nat epoch @ ''/'' @ device"

lemma first_separator_unique:
  assumes "xs @ c # ys = xs' @ c # ys'" "c \<notin> set xs" "c \<notin> set xs'"
  shows "xs = xs' \<and> ys = ys'"
  using assms
proof (induction xs arbitrary: xs')
  case Nil
  then show ?case by (cases xs') auto
next
  case (Cons x xs)
  then show ?case by (cases xs') auto
qed

lemma show_nat_no_slash: "CHR ''/'' \<notin> set (show_nat n)"
  using show_nat_no [of "CHR ''/''" n "CHR ''/''"] by auto

lemma out_key_inj:
  assumes "out_key x = out_key y"
  shows "(case oa_item_id x of Some i \<Rightarrow> iid_id i | None \<Rightarrow> []) = (case oa_item_id y of Some i \<Rightarrow> iid_id i | None \<Rightarrow> [])"
    and "oa_channel x = oa_channel y"
  using assms last_separator_unique [OF _ show_int_no_colon show_int_no_colon] show_int_inj
  by (auto simp: out_key_def)

text \<open>
  Output of different streams, epochs, devices, items or channels is never merged: if two
  frames whose merge information was classified and scoped by the hub merge, then their stream,
  epoch, device, item and channel agree and the second starts where the first ends.
\<close>

theorem no_cross_stream_merge:
  assumes "f_merge a = map_option (scoped (merge_scope s e d)) (snd (classify (OutputAppend x)))"
    and "f_merge b = map_option (scoped (merge_scope s' e' d')) (snd (classify (OutputAppend y)))"
    and "CHR ''/'' \<notin> set s" "CHR ''/'' \<notin> set s'" "CHR ''/'' \<notin> set d" "CHR ''/'' \<notin> set d'"
    and "merge_pair elen now a b = Some m"
  shows "s = s' \<and> e = e' \<and> d = d' \<and>
    (case oa_item_id x of Some i \<Rightarrow> iid_id i | None \<Rightarrow> []) = (case oa_item_id y of Some i \<Rightarrow> iid_id i | None \<Rightarrow> []) \<and>
    oa_channel x = oa_channel y \<and>
    oa_expected_offset y = oa_expected_offset x + of_nat (length (oa_bytes x))"
proof -
  have k: "merge_scope s e d @ ''/'' @ out_key x = merge_scope s' e' d' @ ''/'' @ out_key y"
    and off: "oa_expected_offset y = oa_expected_offset x + of_nat (length (oa_bytes x))"
    using assms(1,2,7) by (auto elim!: merge_pair_SomeD)
  have "s = s'" and r: "show_nat e @ CHR ''/'' # d @ CHR ''/'' # out_key x = show_nat e' @ CHR ''/'' # d' @ CHR ''/'' # out_key y"
    using k first_separator_unique [OF _ assms(3,4)] by (simp_all add: merge_scope_def)
  moreover have "show_nat e = show_nat e'" and r2: "d @ CHR ''/'' # out_key x = d' @ CHR ''/'' # out_key y"
    using first_separator_unique [OF r show_nat_no_slash show_nat_no_slash] by simp_all
  moreover have "d = d'" "out_key x = out_key y"
    using first_separator_unique [OF r2 assms(5,6)] by simp_all
  ultimately show ?thesis using show_nat_inj [of e e'] out_key_inj [of x y] off by blast
qed

lemma retain_uncovered_spec:
  assumes "sb_bytes s = fbytes (sb_items s)" "retain_uncovered device c s = (s', n)"
  shows "sb_items s' = filter (\<lambda>f. \<not> covered device c f) (sb_items s) \<and>
    n = length (filter (covered device c) (sb_items s)) \<and>
    sb_bytes s' = fbytes (sb_items s') \<and>
    {f \<in> set (sb_items s). f_upstream_seq f = None} \<subseteq> set (sb_items s')"
proof -
  let ?kept = "filter (\<lambda>f. \<not> covered device c f) (sb_items s)"
  have len: "length (sb_items s) - length ?kept = length (filter (covered device c) (sb_items s))"
    using sum_length_filter_compl [of "covered device c" "sb_items s"] by simp
  have items: "sb_items s' = ?kept" and n: "n = length (filter (covered device c) (sb_items s))"
    using assms(2) len by (auto simp: retain_uncovered_def Let_def)
  have "sb_items s = ?kept" if "length (sb_items s) - length ?kept = 0"
    using that len by (simp add: filter_empty_conv filter_id_conv)
  then have "sb_bytes s' = fbytes (sb_items s')"
    using assms by (auto simp: retain_uncovered_def Let_def)
  then show ?thesis using items n by (auto simp: covered_def)
qed

text \<open>
  Snapshot coverage removes exactly the frames of the device whose upstream batch number is at
  most the covered one: what stays is in order, frames without a batch number always stay, the
  result counts the removed frames, and the byte counter stays the sum of the queued lengths.
\<close>

theorem retain_uncovered_exact:
  assumes "sb_bytes s = fbytes (sb_items s)" "retain_uncovered device c s = (s', n)"
  shows "sb_items s' = filter (\<lambda>f. \<not> covered device c f) (sb_items s) \<and>
    n = length (filter (covered device c) (sb_items s)) \<and>
    sb_bytes s' = fbytes (sb_items s') \<and>
    {f \<in> set (sb_items s). f_upstream_seq f = None} \<subseteq> set (sb_items s')"
  using assms by (rule retain_uncovered_spec)

text \<open>
  The batch number kept for a merged frame is the smaller one, so coverage removes too much:
  whenever the first of two merged increments is covered by a snapshot and both carry batch
  numbers, the merged frame is removed with the bytes of the second increment, although the second
  increment on its own is not covered and would have been kept.
\<close>

theorem merged_frame_removed_with_uncovered_bytes:
  assumes "merge_pair elen now a b = Some m"
    and "covered device c a" "\<not> covered device c b" "ev_device_id (f_env b) = device" "f_upstream_seq b \<noteq> None"
  shows "sb_items (fst (retain_uncovered device c (s\<lparr>sb_items := [m]\<rparr>))) = [] \<and>
    sb_items (fst (retain_uncovered device c (s\<lparr>sb_items := [a, b]\<rparr>))) = [b]"
proof -
  have "covered device c m"
    using assms(1,2,5) by (auto elim!: merge_pair_SomeD simp: covered_def min_def split: option.splits)
  then show ?thesis using assms(2,3) by (simp add: retain_uncovered_def Let_def)
qed

section \<open>Witnesses\<close>

definition ex_env :: "nat \<Rightarrow> event \<Rightarrow> envelope" where
  "ex_env seq e = \<lparr>ev_protocol_version = 1, ev_message_id = ''m'', ev_correlation_id = [],
     ev_sent_at = None, ev_device_id = ''d'', ev_agent_kind = 1, ev_stream_id = ''s'',
     ev_stream_epoch = 1, ev_sequence = seq,
     ev_payload = Some (PEventBatch \<lparr>eb_stream_id = ''s'', eb_events = [\<lparr>de_emitted_at = None, de_event = Some e\<rparr>]\<rparr>),
     ev_provider_extension = None\<rparr>"

definition ex_out :: "u64 \<Rightarrow> bytes \<Rightarrow> output_append" where
  "ex_out off bs = \<lparr>oa_item_id = Some \<lparr>iid_id = ''i'', iid_synthetic = False\<rparr>,
     oa_expected_offset = off, oa_bytes = bs, oa_channel = 3\<rparr>"

definition ex_frame :: "nat \<Rightarrow> nat option \<Rightarrow> event \<Rightarrow> frame" where
  "ex_frame seq up e = (case classify e of (k, m) \<Rightarrow>
     frame_with_upstream_seq (\<lambda>_. 10) 0 (ex_env seq e) k (map_option (scoped (merge_scope ''s'' 1 ''d'')) m) up)"

definition ex_append :: "nat \<Rightarrow> nat option \<Rightarrow> u64 \<Rightarrow> bytes \<Rightarrow> frame" where
  "ex_append seq up off bs = ex_frame seq up (OutputAppend (ex_out off bs))"

definition ex_buffer :: "frame list \<Rightarrow> stream_buffer" where
  "ex_buffer fs = \<lparr>sb_items = fs, sb_bytes = fbytes fs, sb_max_events = 2, sb_max_bytes = 100, sb_retention = 60\<rparr>"

lemmas ex_simps = ex_env_def ex_out_def ex_frame_def ex_append_def ex_buffer_def
  frame_with_upstream_seq_def crit_solid_def append_consistent_def last_append_def set_last_append_def
  within_limits_def covered_def MAX_FRAME_BYTES_def

theorem insert_keeps_buffer_ok_witness:
  "buffer_ok (fst (stream_buffer_insert (\<lambda>_. 10) 5 (ex_frame 7 (Some 3) (QueueStateChanged [])) (ex_buffer [ex_frame 4 None (QueueStateChanged [1])])))"
  by (rule insert_keeps_buffer_ok) (simp_all add: ex_simps buffer_ok_def)

theorem critical_frames_survive_insert_witness:
  "crit (sb_items (fst (stream_buffer_insert (\<lambda>_. 10) 5 (ex_append 7 (Some 3) 0 [1])
      (ex_buffer [ex_frame 4 None (QueueStateChanged [1])])))) = [ex_frame 4 None (QueueStateChanged [1])]"
  using critical_frames_survive_insert
    [where s = "ex_buffer [ex_frame 4 None (QueueStateChanged [1])]" and f = "ex_append 7 (Some 3) 0 [1]"
       and elen = "\<lambda>_. 10" and now = 5]
  by (simp add: ex_simps split: prod.splits insert_outcome.splits)

theorem merging_loses_no_output_witness:
  "all_cells (fst (place_frame (\<lambda>_. 10) 5 (ex_append 5 None 2 [8]) ([ex_append 4 None 0 [6, 7]], 10)))
    = all_cells ([ex_append 4 None 0 [6, 7]] @ [ex_append 5 None 2 [8]])"
  by (rule merging_loses_no_output [THEN conjunct2]) (simp_all add: ex_simps)

theorem no_cross_stream_merge_witness:
  "oa_channel (ex_out 0 [6, 7]) = oa_channel (ex_out 2 [8])"
proof -
  have "\<exists>m. merge_pair (\<lambda>_. 10) 5 (ex_append 4 None 0 [6, 7]) (ex_append 5 None 2 [8]) = Some m"
    by (simp add: merge_pair_def ex_simps Let_def out_key_def)
  then obtain m where "merge_pair (\<lambda>_. 10) 5 (ex_append 4 None 0 [6, 7]) (ex_append 5 None 2 [8]) = Some m" ..
  from no_cross_stream_merge [OF _ _ _ _ _ _ this, of "''s''" 1 "''d''" "ex_out 0 [6, 7]" "''s''" 1 "''d''" "ex_out 2 [8]"]
  show ?thesis by (simp add: ex_simps)
qed

theorem retain_uncovered_exact_witness:
  "sb_items (fst (retain_uncovered ''d'' 5 (ex_buffer [ex_append 4 (Some 5) 0 [6], ex_append 5 (Some 6) 1 [7]])))
     = [ex_append 5 (Some 6) 1 [7]]"
  using retain_uncovered_exact [of "ex_buffer [ex_append 4 (Some 5) 0 [6], ex_append 5 (Some 6) 1 [7]]" "''d''" 5
      "fst (retain_uncovered ''d'' 5 (ex_buffer [ex_append 4 (Some 5) 0 [6], ex_append 5 (Some 6) 1 [7]]))"]
  by (cases "retain_uncovered ''d'' 5 (ex_buffer [ex_append 4 (Some 5) 0 [6], ex_append 5 (Some 6) 1 [7]])")
    (simp add: ex_simps)

theorem merged_frame_removed_witness:
  "\<exists>m. merge_pair (\<lambda>_. 10) 5 (ex_append 4 (Some 5) 0 [6]) (ex_append 5 (Some 6) 1 [7]) = Some m \<and>
     frame_cells m \<noteq> [] \<and>
     sb_items (fst (retain_uncovered ''d'' 5 ((ex_buffer [])\<lparr>sb_items := [m]\<rparr>))) = [] \<and>
     sb_items (fst (retain_uncovered ''d'' 5 ((ex_buffer [])\<lparr>sb_items := [ex_append 4 (Some 5) 0 [6], ex_append 5 (Some 6) 1 [7]]\<rparr>)))
       = [ex_append 5 (Some 6) 1 [7]]"
proof -
  let ?a = "ex_append 4 (Some 5) 0 [6]" and ?b = "ex_append 5 (Some 6) 1 [7]"
  have "\<exists>m. merge_pair (\<lambda>_. 10) 5 ?a ?b = Some m \<and> frame_cells m \<noteq> []"
    by (simp add: merge_pair_def ex_simps Let_def out_key_def frame_cells_def)
  then obtain m where m: "merge_pair (\<lambda>_. 10) 5 ?a ?b = Some m" "frame_cells m \<noteq> []" by blast
  have "covered ''d'' 5 ?a" "\<not> covered ''d'' 5 ?b" "ev_device_id (f_env ?b) = ''d''" "f_upstream_seq ?b \<noteq> None"
    by (simp_all add: ex_simps)
  from merged_frame_removed_with_uncovered_bytes [OF m(1) this, of "ex_buffer []"] m show ?thesis by blast
qed

end
