(* ===== verification/Outbox.thy ===== *)
theory Outbox
  imports Relay_Buffer
begin

text \<open>
  The bounded send queue of one browser connection (\<open>Outbox\<close> in
  \<open>apps/relay/src/realtime/buffer.rs\<close>). Every method takes the mutex once, so a method is one
  step of the machine; \<open>recv\<close> is one turn of its loop under the lock, which hands out an item,
  ends, or would wait for a wake-up. \<open>Notify\<close> only wakes waiters and has no state here. The
  process-wide counter \<open>OUTBOX_OVERLOAD_CLOSES\<close> is a field.
\<close>

section \<open>Model\<close>

datatype out_item = OFrame frame | ODirect bytes | OClose string

datatype push_error = SlowConsumer | Closed

record outbox =
  ob_capacity :: nat
  ob_max_bytes :: nat
  ob_items :: "out_item list"
  ob_frames :: nat
  ob_bytes :: nat
  ob_closed :: bool
  ob_overload_closes :: nat

definition BROWSER_QUEUE_MAX_BYTES :: nat where "BROWSER_QUEUE_MAX_BYTES = 16 * 1024 * 1024"
definition DIRECT_RESERVE_BYTES :: nat where "DIRECT_RESERVE_BYTES = 1024 * 1024"

definition outbox_new :: "nat \<Rightarrow> nat \<Rightarrow> outbox" where
  "outbox_new cap mb = \<lparr>ob_capacity = cap, ob_max_bytes = mb, ob_items = [], ob_frames = 0,
     ob_bytes = 0, ob_closed = False, ob_overload_closes = 0\<rparr>"

definition push_frame :: "frame \<Rightarrow> outbox \<Rightarrow> outbox \<times> (push_error + unit)" where
  "push_frame f g =
     (if ob_closed g then (g, Inl Closed)
      else if ob_frames g + 1 > ob_capacity g \<or> ob_bytes g + f_bytes_len f > ob_max_bytes g
      then (g, Inl SlowConsumer)
      else (g\<lparr>ob_bytes := ob_bytes g + f_bytes_len f, ob_frames := ob_frames g + 1,
              ob_items := ob_items g @ [OFrame f]\<rparr>, Inr ()))"

fun direct_len :: "out_item \<Rightarrow> nat" where
  "direct_len (ODirect bs) = length bs"
| "direct_len _ = 0"

fun is_frame :: "out_item \<Rightarrow> bool" where
  "is_frame (OFrame _) = True"
| "is_frame _ = False"

definition outbox_close :: "string \<Rightarrow> outbox \<Rightarrow> outbox" where
  "outbox_close reason g =
     (if ob_closed g then g
      else let kept = filter (\<lambda>i. \<not> is_frame i) (ob_items g)
           in g\<lparr>ob_closed := True, ob_frames := 0, ob_bytes := sum_list (map direct_len kept),
                ob_items := kept @ [OClose reason]\<rparr>)"

definition push_direct :: "bytes \<Rightarrow> outbox \<Rightarrow> outbox \<times> bool" where
  "push_direct bs g =
     (if ob_closed g then (g, False)
      else if bs = [] then (g, False)
      else if ob_bytes g + length bs > ob_max_bytes g + DIRECT_RESERVE_BYTES
      then (outbox_close ''OUTBOX_OVERLOAD'' (g\<lparr>ob_overload_closes := ob_overload_closes g + 1\<rparr>), False)
      else (g\<lparr>ob_bytes := ob_bytes g + length bs, ob_items := ob_items g @ [ODirect bs]\<rparr>, True))"

datatype recv_result = Received out_item | Ended | Blocked

definition outbox_recv :: "outbox \<Rightarrow> outbox \<times> recv_result" where
  "outbox_recv g = (case ob_items g of
       item # rest \<Rightarrow>
         (case item of
            OFrame f \<Rightarrow> (g\<lparr>ob_items := rest, ob_frames := ob_frames g - 1, ob_bytes := ob_bytes g - f_bytes_len f\<rparr>, Received item)
          | ODirect bs \<Rightarrow> (g\<lparr>ob_items := rest, ob_bytes := ob_bytes g - length bs\<rparr>, Received item)
          | OClose _ \<Rightarrow> (g\<lparr>ob_items := rest\<rparr>, Received item))
     | [] \<Rightarrow> (g, if ob_closed g then Ended else Blocked))"

section \<open>The invariant\<close>

fun item_len :: "out_item \<Rightarrow> nat" where
  "item_len (OFrame f) = f_bytes_len f"
| "item_len (ODirect bs) = length bs"
| "item_len (OClose _) = 0"

fun is_close :: "out_item \<Rightarrow> bool" where
  "is_close (OClose _) = True"
| "is_close _ = False"

text \<open>
  The counters are exact and within the budgets; a close item exists only after closing, is the
  last item, and then no frame is queued.
\<close>

definition outbox_ok :: "outbox \<Rightarrow> bool" where
  "outbox_ok g \<longleftrightarrow>
     ob_frames g = length (filter is_frame (ob_items g)) \<and>
     ob_bytes g = sum_list (map item_len (ob_items g)) \<and>
     ob_frames g \<le> ob_capacity g \<and>
     ob_bytes g \<le> ob_max_bytes g + DIRECT_RESERVE_BYTES \<and>
     \<not> list_ex is_close (butlast (ob_items g)) \<and>
     (if ob_closed g then \<not> list_ex is_frame (ob_items g) \<and> (ob_items g \<noteq> [] \<longrightarrow> is_close (last (ob_items g)))
      else \<not> list_ex is_close (ob_items g))"

lemma outbox_new_ok: "outbox_ok (outbox_new cap mb)"
  by (simp add: outbox_ok_def outbox_new_def)

lemma push_frame_ok: "outbox_ok g \<Longrightarrow> outbox_ok (fst (push_frame f g))"
  by (auto simp: outbox_ok_def push_frame_def butlast_append)

lemma sum_direct_le: "sum_list (map direct_len (filter (\<lambda>i. \<not> is_frame i) xs)) \<le> sum_list (map item_len xs)"
proof (induction xs)
  case (Cons x xs)
  then show ?case by (cases x) auto
qed simp

lemma sum_item_len_nonframe:
  "\<not> list_ex is_frame xs \<Longrightarrow> sum_list (map item_len xs) = sum_list (map direct_len xs)"
proof (induction xs)
  case (Cons x xs)
  then show ?case by (cases x) auto
qed simp

lemma outbox_close_ok: "outbox_ok g \<Longrightarrow> outbox_ok (outbox_close r g)"
proof -
  assume ok: "outbox_ok g"
  let ?kept = "filter (\<lambda>i. \<not> is_frame i) (ob_items g)"
  have "\<not> list_ex is_frame ?kept" by (auto simp: list_ex_iff)
  then have "sum_list (map item_len ?kept) = sum_list (map direct_len ?kept)" by (rule sum_item_len_nonframe)
  moreover have "sum_list (map direct_len ?kept) \<le> ob_max_bytes g + DIRECT_RESERVE_BYTES"
    using ok sum_direct_le [of "ob_items g"] by (simp add: outbox_ok_def)
  ultimately show ?thesis using ok
    by (auto simp: outbox_ok_def outbox_close_def Let_def list_ex_iff butlast_append split: if_splits)
qed

lemma push_direct_ok: "outbox_ok g \<Longrightarrow> outbox_ok (fst (push_direct bs g))"
proof -
  assume ok: "outbox_ok g"
  then have "outbox_ok (g\<lparr>ob_overload_closes := n\<rparr>)" for n by (simp add: outbox_ok_def)
  then have "outbox_ok (outbox_close r (g\<lparr>ob_overload_closes := n\<rparr>))" for r n by (rule outbox_close_ok)
  then show ?thesis using ok by (auto simp: push_direct_def) (auto simp: outbox_ok_def butlast_append)
qed

lemma outbox_recv_ok:
  assumes "outbox_ok g"
  shows "outbox_ok (fst (outbox_recv g))"
proof (cases "ob_items g")
  case (Cons x xs)
  then show ?thesis using assms
    by (cases x; cases xs) (auto simp: outbox_ok_def outbox_recv_def)
qed (use assms in \<open>simp add: outbox_recv_def\<close>)

section \<open>Runs\<close>

datatype ob_op = OpPushFrame frame | OpPushDirect bytes | OpClose string | OpRecv

text \<open>A run with what the queue accepted from its producers and what the write loop received.\<close>

record ob_trace =
  tr_box :: outbox
  tr_accepted :: "out_item list"
  tr_received :: "out_item list"

fun ob_step :: "ob_trace \<Rightarrow> ob_op \<Rightarrow> ob_trace" where
  "ob_step t (OpPushFrame f) = (case push_frame f (tr_box t) of
       (g, Inr _) \<Rightarrow> t\<lparr>tr_box := g, tr_accepted := tr_accepted t @ [OFrame f]\<rparr>
     | (g, Inl _) \<Rightarrow> t\<lparr>tr_box := g\<rparr>)"
| "ob_step t (OpPushDirect bs) = (case push_direct bs (tr_box t) of
       (g, True) \<Rightarrow> t\<lparr>tr_box := g, tr_accepted := tr_accepted t @ [ODirect bs]\<rparr>
     | (g, False) \<Rightarrow> t\<lparr>tr_box := g\<rparr>)"
| "ob_step t (OpClose r) = t\<lparr>tr_box := outbox_close r (tr_box t)\<rparr>"
| "ob_step t OpRecv = (case outbox_recv (tr_box t) of
       (g, Received i) \<Rightarrow> t\<lparr>tr_box := g, tr_received := tr_received t @ [i]\<rparr>
     | (g, _) \<Rightarrow> t\<lparr>tr_box := g\<rparr>)"

definition ob_start :: "nat \<Rightarrow> nat \<Rightarrow> ob_trace" where
  "ob_start cap mb = \<lparr>tr_box = outbox_new cap mb, tr_accepted = [], tr_received = []\<rparr>"

fun is_direct :: "out_item \<Rightarrow> bool" where
  "is_direct (ODirect _) = True"
| "is_direct _ = False"

definition trace_ok :: "ob_trace \<Rightarrow> bool" where
  "trace_ok t \<longleftrightarrow> outbox_ok (tr_box t) \<and>
     filter is_direct (tr_received t) @ filter is_direct (ob_items (tr_box t)) = filter is_direct (tr_accepted t) \<and>
     (if ob_closed (tr_box t) then prefix (filter is_frame (tr_received t)) (filter is_frame (tr_accepted t))
      else filter is_frame (tr_received t) @ filter is_frame (ob_items (tr_box t)) = filter is_frame (tr_accepted t))"

lemma filter_direct_nonframe: "filter (\<lambda>i. \<not> is_frame i \<and> is_direct i) xs = filter is_direct xs"
  by (induction xs) (auto elim: is_frame.elims is_direct.elims)

lemma trace_ok_prefix:
  "trace_ok t \<Longrightarrow> prefix (filter is_frame (tr_received t)) (filter is_frame (tr_accepted t))"
  by (metis prefixI trace_ok_def)

lemma trace_ok_close:
  assumes "trace_ok t" "n = ob_overload_closes (tr_box t) \<or> n = Suc (ob_overload_closes (tr_box t))"
  shows "trace_ok (t\<lparr>tr_box := outbox_close r ((tr_box t)\<lparr>ob_overload_closes := n\<rparr>)\<rparr>)"
proof -
  let ?g = "(tr_box t)\<lparr>ob_overload_closes := n\<rparr>"
  have "outbox_ok ?g" using assms(1) by (simp add: trace_ok_def outbox_ok_def)
  then have "outbox_ok (outbox_close r ?g)" by (rule outbox_close_ok)
  moreover have "filter is_direct (ob_items (outbox_close r ?g)) = filter is_direct (ob_items (tr_box t))"
    by (auto simp: outbox_close_def Let_def filter_direct_nonframe)
  moreover have "prefix (filter is_frame (tr_received t)) (filter is_frame (tr_accepted t))"
    using assms(1) by (rule trace_ok_prefix)
  moreover have "ob_closed (outbox_close r ?g)" by (simp add: outbox_close_def Let_def)
  ultimately show ?thesis using assms(1) by (simp add: trace_ok_def)
qed

lemma trace_ok_step: "trace_ok t \<Longrightarrow> trace_ok (ob_step t x)"
proof (cases x)
  case (OpPushFrame f)
  assume ok: "trace_ok t"
  then have "outbox_ok (fst (push_frame f (tr_box t)))" by (auto simp: trace_ok_def intro: push_frame_ok)
  then show ?thesis using ok OpPushFrame by (auto simp: trace_ok_def push_frame_def split: if_splits)
next
  case (OpPushDirect bs)
  assume ok: "trace_ok t"
  then have "outbox_ok (fst (push_direct bs (tr_box t)))" by (auto simp: trace_ok_def intro: push_direct_ok)
  then show ?thesis using ok OpPushDirect trace_ok_close [OF ok, of "Suc (ob_overload_closes (tr_box t))"]
    by (auto simp: push_direct_def) (auto simp: trace_ok_def)
next
  case (OpClose r)
  assume ok: "trace_ok t"
  then show ?thesis using OpClose trace_ok_close [OF ok, of "ob_overload_closes (tr_box t)" r] by simp
next
  case OpRecv
  assume ok: "trace_ok t"
  then have "outbox_ok (fst (outbox_recv (tr_box t)))" by (auto simp: trace_ok_def intro: outbox_recv_ok)
  then show ?thesis using ok OpRecv
    by (cases "ob_items (tr_box t)"; cases "hd (ob_items (tr_box t))")
      (auto simp: trace_ok_def outbox_recv_def outbox_ok_def)
qed

lemma trace_ok_start: "trace_ok (ob_start cap mb)"
  using outbox_new_ok by (simp add: trace_ok_def ob_start_def) (simp add: outbox_new_def)

interpretation outbox_m: op_machine_init ob_step trace_ok "ob_start cap mb" for cap mb
  by unfold_locales (rule trace_ok_step trace_ok_start, assumption?)+

section \<open>Properties\<close>

text \<open>
  In every run of a connection's queue, whatever the interleaving of pushes, closes and
  receives, the frame and byte counters are exact, the queue never holds more frames than its
  capacity nor more bytes than its budget plus the reserve for direct messages, and once it is
  closed no stream frame is left and the close item is the last one.
\<close>

theorem outbox_always_bounded: "outbox_ok (tr_box (foldl ob_step (ob_start cap mb) ops))"
  using outbox_m.reachable_inv [of cap mb ops] by (simp add: trace_ok_def)

text \<open>
  C31. The stream frames a connection receives are a prefix of the frames its queue accepted, and
  direct messages are received in order with none lost: so if the accepted frames are numbered
  consecutively, the received ones are too, without a gap, in every run.
\<close>

theorem outbox_delivers_consecutive_frames:
  assumes "t = foldl ob_step (ob_start cap mb) ops"
    and "filter is_frame (tr_accepted t) = map OFrame fs" "map f_seq fs = [n..<n + length fs]"
  shows "\<exists>k\<le>length fs. filter is_frame (tr_received t) = map OFrame (take k fs) \<and>
      map f_seq (take k fs) = [n..<n + k] \<and>
      filter is_direct (tr_received t) @ filter is_direct (ob_items (tr_box t)) = filter is_direct (tr_accepted t)"
proof -
  have ok: "trace_ok t" using outbox_m.reachable_inv [of cap mb ops] assms(1) by simp
  then have "prefix (filter is_frame (tr_received t)) (map OFrame fs)"
    using assms(2) trace_ok_prefix by metis
  then obtain k where k: "k \<le> length fs" "filter is_frame (tr_received t) = take k (map OFrame fs)"
    by (metis length_map prefix_length_le take_is_prefix prefix_def append_eq_conv_conj)
  moreover have "map f_seq (take k fs) = [n..<n + k]"
    using assms(3) k(1) by (metis take_map take_upt add_le_cancel_left)
  ultimately show ?thesis using ok by (auto simp: trace_ok_def take_map)
qed

theorem outbox_delivers_consecutive_frames_witness:
  "\<exists>k\<le>2. map f_seq (take k [ex_append 4 None 0 [6], ex_append 5 None 1 [7]]) = [4..<4 + k]"
proof -
  let ?ops = "[OpPushFrame (ex_append 4 None 0 [6]), OpPushDirect [1], OpPushFrame (ex_append 5 None 1 [7]), OpRecv]"
  have "filter is_frame (tr_accepted (foldl ob_step (ob_start 8 100) ?ops))
      = map OFrame [ex_append 4 None 0 [6], ex_append 5 None 1 [7]]"
    by (simp add: ob_start_def outbox_new_def push_frame_def push_direct_def outbox_recv_def
        DIRECT_RESERVE_BYTES_def ex_simps)
  from outbox_delivers_consecutive_frames [OF refl this, of 4] show ?thesis
    by (auto simp: ex_simps)
qed

text \<open>What the write loop gets in \<open>n\<close> turns.\<close>

fun recvs :: "nat \<Rightarrow> outbox \<Rightarrow> recv_result list" where
  "recvs 0 g = []"
| "recvs (Suc n) g = snd (outbox_recv g) # recvs n (fst (outbox_recv g))"

lemma recvs_items:
  "length xs = n \<Longrightarrow> ob_items g = xs \<Longrightarrow> ob_closed g \<Longrightarrow>
     recvs (n + m) g = map Received xs @ replicate m Ended"
proof (induction n arbitrary: xs g)
  case 0
  then show ?case
  proof (induction m arbitrary: g)
    case (Suc m)
    then show ?case by (simp add: outbox_recv_def)
  qed simp
next
  case (Suc n)
  then obtain y ys where xs: "xs = y # ys" "length ys = n" by (cases xs) auto
  have "snd (outbox_recv g) = Received y" "ob_items (fst (outbox_recv g)) = ys" "ob_closed (fst (outbox_recv g))"
    using Suc.prems xs by (cases y; simp add: outbox_recv_def)+
  then show ?case using Suc.IH [OF xs(2)] xs(1) by simp
qed

text \<open>
  Closing an open queue drops the unsent stream frames, keeps the queued direct messages in
  order, and ends with the close reason: the write loop receives exactly these direct messages, then
  the close item with the given reason once, and from then on the end of the queue.
\<close>

theorem close_delivers_directs_then_reason:
  assumes "\<not> ob_closed g"
  defines "ds \<equiv> filter (\<lambda>i. \<not> is_frame i) (ob_items g)"
  shows "recvs (length ds + 1 + m) (outbox_close r g) =
    map Received ds @ [Received (OClose r)] @ replicate m Ended"
proof -
  have "ob_items (outbox_close r g) = ds @ [OClose r]" "ob_closed (outbox_close r g)"
    using assms(1) by (simp_all add: outbox_close_def Let_def ds_def)
  then show ?thesis using recvs_items [of "ds @ [OClose r]" "length ds + 1" "outbox_close r g" m] by simp
qed

theorem close_delivers_directs_then_reason_witness:
  "recvs (length [ODirect [1]] + 1 + 1) (outbox_close ''AUTH_EXPIRED'' ((outbox_new 8 100)
     \<lparr>ob_items := [OFrame (ex_append 4 None 0 [6]), ODirect [1]], ob_frames := 1, ob_bytes := 11\<rparr>))
   = [Received (ODirect [1]), Received (OClose ''AUTH_EXPIRED''), Ended]"
  using close_delivers_directs_then_reason [of "(outbox_new 8 100)
     \<lparr>ob_items := [OFrame (ex_append 4 None 0 [6]), ODirect [1]], ob_frames := 1, ob_bytes := 11\<rparr>" 1 "''AUTH_EXPIRED''"]
  by (simp add: outbox_new_def)

text \<open>
  Pushing a non-empty direct message on an open queue either queues it last with its length
  counted, whatever the frame budget, or, only when the budget and the reserve together are
  exhausted, closes the queue with reason OUTBOX\_OVERLOAD, counts the overload, and keeps every
  direct message queued before.
\<close>

theorem push_direct_queues_or_closes:
  assumes "\<not> ob_closed g" "bs \<noteq> []"
  shows "(case push_direct bs g of
     (g', True) \<Rightarrow> ob_bytes g + length bs \<le> ob_max_bytes g + DIRECT_RESERVE_BYTES \<and>
        ob_items g' = ob_items g @ [ODirect bs] \<and> ob_bytes g' = ob_bytes g + length bs \<and>
        ob_frames g' = ob_frames g \<and> \<not> ob_closed g'
   | (g', False) \<Rightarrow> ob_bytes g + length bs > ob_max_bytes g + DIRECT_RESERVE_BYTES \<and>
        ob_items g' = filter (\<lambda>i. \<not> is_frame i) (ob_items g) @ [OClose ''OUTBOX_OVERLOAD''] \<and>
        ob_overload_closes g' = Suc (ob_overload_closes g) \<and> ob_closed g')"
  using assms by (auto simp: push_direct_def outbox_close_def Let_def)

theorem push_direct_queues_or_closes_witness:
  "ob_items (fst (push_direct [1] (outbox_new 8 100))) = [ODirect [1]]"
  using push_direct_queues_or_closes [of "outbox_new 8 100" "[1]"]
  by (simp add: outbox_new_def push_direct_def DIRECT_RESERVE_BYTES_def)

end
