(* ===== verification/Push.thy ===== *)
theory Push
  imports Proto
begin

text \<open>
  Which events notify the user (\<open>apps/relay/src/push/mod.rs\<close>): the trigger matrix, the notification
  settings, the suppression of repetitions and the decision of \<open>notify\<close>. Database answers and clock
  readings are arguments; the message bodies and the web push service are not modelled.
\<close>

section \<open>Triggers\<close>

type_synonym uuid = string

datatype push_kind = TurnCompleted | TurnFailed | TurnInterrupted | WaitingQuestion | WaitingApproval

primrec push_key :: "push_kind \<Rightarrow> nat" where
  "push_key TurnCompleted = 1"
| "push_key TurnFailed = 2"
| "push_key TurnInterrupted = 3"
| "push_key WaitingQuestion = 4"
| "push_key WaitingApproval = 5"

definition from_turn_outcome :: "int \<Rightarrow> push_kind option" where
  "from_turn_outcome n = (if n = 1 then Some TurnCompleted else if n = 2 then Some TurnFailed
     else if n = 3 then Some TurnInterrupted else None)"

record push_trigger =
  pt_owner :: uuid
  pt_device :: uuid
  pt_agent_kind :: string
  pt_native_session_id :: string
  pt_kind :: push_kind

definition kinds_of_summary :: "session_summary \<Rightarrow> push_kind list" where
  "kinds_of_summary s =
     (case from_turn_outcome (ssm_last_turn_outcome s) of Some k \<Rightarrow> [k] | None \<Rightarrow> []) @
     (if ssm_pending_attention_count s > 0 then
        (if 1 \<in> set (ssm_pending_attention_kinds s) then [WaitingQuestion] else []) @
        (if 2 \<in> set (ssm_pending_attention_kinds s) then [WaitingApproval] else [])
      else [])"

fun kinds_of_event :: "event \<Rightarrow> push_kind list" where
  "kinds_of_event (TurnLifecycle t) = (case from_turn_outcome (tlc_outcome t) of Some k \<Rightarrow> [k] | None \<Rightarrow> [])"
| "kinds_of_event (PendingAttentionAdded (Some (AttQuestion _))) = [WaitingQuestion]"
| "kinds_of_event (PendingAttentionAdded (Some (AttApproval _))) = [WaitingApproval]"
| "kinds_of_event (SessionSummaryChanged s) = kinds_of_summary s"
| "kinds_of_event _ = []"

definition triggers_from_event :: "uuid \<Rightarrow> uuid \<Rightarrow> string \<Rightarrow> string \<Rightarrow> event \<Rightarrow> push_trigger list" where
  "triggers_from_event owner device agent_kind native e =
     map (\<lambda>k. \<lparr>pt_owner = owner, pt_device = device, pt_agent_kind = agent_kind, pt_native_session_id = native, pt_kind = k\<rparr>)
       (kinds_of_event e)"

section \<open>Settings\<close>

record push_settings =
  pn_show_title :: bool
  pn_turn_completed :: bool
  pn_turn_failed :: bool
  pn_turn_interrupted :: bool
  pn_waiting_question :: bool
  pn_waiting_approval :: bool

definition push_settings_default :: push_settings where
  "push_settings_default = \<lparr>pn_show_title = False, pn_turn_completed = True, pn_turn_failed = True,
     pn_turn_interrupted = True, pn_waiting_question = True, pn_waiting_approval = True\<rparr>"

primrec event_enabled :: "push_settings \<Rightarrow> push_kind \<Rightarrow> bool" where
  "event_enabled s TurnCompleted = pn_turn_completed s"
| "event_enabled s TurnFailed = pn_turn_failed s"
| "event_enabled s TurnInterrupted = pn_turn_interrupted s"
| "event_enabled s WaitingQuestion = pn_waiting_question s"
| "event_enabled s WaitingApproval = pn_waiting_approval s"

section \<open>Repetitions\<close>

text \<open>Seconds since a fixed instant; the map is keyed by session and kind.\<close>

definition DEDUP_WINDOW :: nat where "DEDUP_WINDOW = 60"
definition DEDUP_MAX_ENTRIES :: nat where "DEDUP_MAX_ENTRIES = 4096"

type_synonym dedup_map = "((uuid \<times> nat) \<times> nat) list"

definition dedup_allow :: "nat \<Rightarrow> uuid \<Rightarrow> push_kind \<Rightarrow> dedup_map \<Rightarrow> dedup_map \<times> bool" where
  "dedup_allow now session kind m =
    (let m1 = (if length m > DEDUP_MAX_ENTRIES then retain_values (\<lambda>t. now - t \<le> DEDUP_WINDOW) m else m);
         key = (session, push_key kind)
     in case map_of m1 key of
          Some t \<Rightarrow> if now - t \<le> DEDUP_WINDOW then (m1, False) else (AList.update key now m1, True)
        | None \<Rightarrow> (AList.update key now m1, True))"

text \<open>
  \<open>notify\<close>: what is sent, in order, as pairs of subscription and trigger. For each trigger the
  arguments hold the session row (id, muted, title), the owner's settings and the subscriptions;
  a subscription reported as gone is deleted.
\<close>

record push_session =
  pw_id :: uuid
  pw_muted :: bool
  pw_title :: string

datatype send_result = PushSent | PushGone | PushTransient

record push_world =
  px_session :: "push_trigger \<Rightarrow> push_session option"
  px_settings :: "uuid \<Rightarrow> push_settings option"
  px_send :: "uuid \<Rightarrow> send_result"

record push_state =
  ps_enabled :: bool
  ps_dedup :: dedup_map
  ps_subscriptions :: "(uuid \<times> uuid) list"

definition push_to_all :: "push_world \<Rightarrow> uuid \<Rightarrow> push_state \<Rightarrow> push_state \<times> uuid list" where
  "push_to_all w owner p =
    (let subs = map snd (filter (\<lambda>(o', i). o' = owner) (ps_subscriptions p))
     in (p\<lparr>ps_subscriptions := filter (\<lambda>(o', i). \<not> (i \<in> set subs \<and> px_send w i = PushGone)) (ps_subscriptions p)\<rparr>, subs))"

definition notify_one :: "push_world \<Rightarrow> nat \<Rightarrow> push_trigger \<Rightarrow> push_state \<Rightarrow> push_state \<times> (uuid \<times> push_trigger) list" where
  "notify_one w now t p = (case px_session w t of
     None \<Rightarrow> (p, [])
   | Some s \<Rightarrow>
       if pw_muted s then (p, [])
       else if \<not> event_enabled (case px_settings w (pt_owner t) of Some x \<Rightarrow> x | None \<Rightarrow> push_settings_default) (pt_kind t) then (p, [])
       else (case dedup_allow now (pw_id s) (pt_kind t) (ps_dedup p) of
         (m, False) \<Rightarrow> (p\<lparr>ps_dedup := m\<rparr>, [])
       | (m, True) \<Rightarrow> (case push_to_all w (pt_owner t) (p\<lparr>ps_dedup := m\<rparr>) of (p1, subs) \<Rightarrow> (p1, map (\<lambda>i. (i, t)) subs))))"

fun notify_all :: "push_world \<Rightarrow> nat \<Rightarrow> push_trigger list \<Rightarrow> push_state \<Rightarrow> push_state \<times> (uuid \<times> push_trigger) list" where
  "notify_all w now [] p = (p, [])"
| "notify_all w now (t # ts) p = (case notify_one w now t p of (p1, sent) \<Rightarrow>
     case notify_all w now ts p1 of (p2, more_sent) \<Rightarrow> (p2, sent @ more_sent))"

definition push_notify :: "push_world \<Rightarrow> nat \<Rightarrow> push_trigger list \<Rightarrow> push_state \<Rightarrow> push_state \<times> (uuid \<times> push_trigger) list" where
  "push_notify w now ts p = (if ts = [] \<or> \<not> ps_enabled p then (p, []) else notify_all w now ts p)"

section \<open>What the user is sent\<close>

text \<open>
  The reference: per session and kind, the time of the notification that was let through last,
  kept forever. \<open>dedup_allow\<close> forgets entries when its map grows; no answer depends on that.
\<close>

type_synonym dedup_call = "nat \<times> uuid \<times> push_kind"

fun dedup_run :: "dedup_map \<Rightarrow> dedup_call list \<Rightarrow> bool list" where
  "dedup_run m [] = []"
| "dedup_run m ((now, s, k) # cs) = (case dedup_allow now s k m of (m1, ok) \<Rightarrow> ok # dedup_run m1 cs)"

fun dedup_ref :: "(uuid \<times> nat \<Rightarrow> nat option) \<Rightarrow> dedup_call list \<Rightarrow> bool list" where
  "dedup_ref r [] = []"
| "dedup_ref r ((now, s, k) # cs) =
    (let key = (s, push_key k); ok = (case r key of Some t \<Rightarrow> now - t > DEDUP_WINDOW | None \<Rightarrow> True)
     in ok # dedup_ref (if ok then r(key \<mapsto> now) else r) cs)"

definition dedup_rel :: "nat \<Rightarrow> dedup_map \<Rightarrow> (uuid \<times> nat \<Rightarrow> nat option) \<Rightarrow> bool" where
  "dedup_rel now m r \<longleftrightarrow> keys_distinct m \<and>
     (\<forall>k. map_of m k = r k \<or> (map_of m k = None \<and> (\<exists>t. r k = Some t \<and> now - t > DEDUP_WINDOW)))"

lemma dedup_rel_later: "dedup_rel now m r \<Longrightarrow> now \<le> now' \<Longrightarrow> dedup_rel now' m r"
  unfolding dedup_rel_def by (meson diff_le_mono order_less_le_trans)

lemma dedup_rel_retain:
  assumes "dedup_rel now m r"
  shows "dedup_rel now (retain_values (\<lambda>t. now - t \<le> DEDUP_WINDOW) m) r"
proof -
  let ?m = "retain_values (\<lambda>t. now - t \<le> DEDUP_WINDOW) m"
  have kd: "keys_distinct m" using assms by (simp add: dedup_rel_def)
  have "map_of ?m k = r k \<or> (map_of ?m k = None \<and> (\<exists>t. r k = Some t \<and> now - t > DEDUP_WINDOW))" for k
  proof -
    have k: "map_of m k = r k \<or> (map_of m k = None \<and> (\<exists>t. r k = Some t \<and> now - t > DEDUP_WINDOW))"
      using assms unfolding dedup_rel_def by blast
    have e: "map_of ?m k = (case map_of m k of None \<Rightarrow> None | Some v \<Rightarrow> if now - v \<le> DEDUP_WINDOW then Some v else None)"
      using map_of_retain_values [OF kd] by simp
    show ?thesis using k unfolding e by (cases "r k"; cases "map_of m k") auto
  qed
  then show ?thesis using kd unfolding dedup_rel_def by (simp del: split_paired_All)
qed

lemma dedup_allow_ref:
  assumes "dedup_rel now m r" "dedup_allow now s k m = (m1, ok)"
  shows "ok = (case r (s, push_key k) of Some t \<Rightarrow> now - t > DEDUP_WINDOW | None \<Rightarrow> True)"
    "dedup_rel now m1 (if ok then r((s, push_key k) \<mapsto> now) else r)"
proof -
  let ?key = "(s, push_key k)"
  obtain m2 where m2: "dedup_rel now m2 r"
    and al: "(m1, ok) = (case map_of m2 ?key of
        Some t \<Rightarrow> if now - t \<le> DEDUP_WINDOW then (m2, False) else (AList.update ?key now m2, True)
      | None \<Rightarrow> (AList.update ?key now m2, True))"
    using assms dedup_rel_retain [OF assms(1)] by (auto simp: dedup_allow_def Let_def split: if_splits)
  have key: "map_of m2 ?key = r ?key \<or> (map_of m2 ?key = None \<and> (\<exists>t. r ?key = Some t \<and> now - t > DEDUP_WINDOW))"
    using m2 unfolding dedup_rel_def by blast
  show ok: "ok = (case r ?key of Some t \<Rightarrow> now - t > DEDUP_WINDOW | None \<Rightarrow> True)"
    using key al by (cases "r ?key"; cases "map_of m2 ?key") (auto split: if_splits)
  have upd: "dedup_rel now (AList.update ?key now m2) (r(?key \<mapsto> now))"
    using m2 unfolding dedup_rel_def by (simp add: update_conv')
  have "m1 = (if ok then AList.update ?key now m2 else m2)" using al by (auto split: option.splits if_splits)
  then show "dedup_rel now m1 (if ok then r(?key \<mapsto> now) else r)" using upd m2 by simp
qed

lemma dedup_run_ref:
  "dedup_rel now m r \<Longrightarrow> sorted (now # map fst cs) \<Longrightarrow> dedup_run m cs = dedup_ref r cs"
proof (induction cs arbitrary: now m r)
  case (Cons c cs)
  obtain t s k where c: "c = (t, s, k)" by (metis prod.exhaust)
  obtain m1 ok where al: "dedup_allow t s k m = (m1, ok)" by fastforce
  have rel: "dedup_rel t m r" using Cons.prems c by (auto intro: dedup_rel_later)
  note step = dedup_allow_ref [OF rel al]
  have "dedup_run m1 cs = dedup_ref (if ok then r((s, push_key k) \<mapsto> t) else r) cs"
    using Cons.IH [OF step(2)] Cons.prems(2) c by simp
  then show ?case using c al step(1) by (simp add: Let_def)
qed simp

text \<open>Which of the calls for one key were let through, by time.\<close>

fun passed_times :: "uuid \<times> nat \<Rightarrow> dedup_call list \<Rightarrow> bool list \<Rightarrow> nat list" where
  "passed_times key ((now, s, k) # cs) (ok # oks) = (if ok \<and> (s, push_key k) = key then [now] else []) @ passed_times key cs oks"
| "passed_times key _ _ = []"

lemma dedup_ref_spaced:
  "sorted_wrt (\<lambda>a b. b - a > DEDUP_WINDOW) ((case r key of Some t \<Rightarrow> [t] | None \<Rightarrow> []) @ passed_times key cs (dedup_ref r cs)) \<or>
     \<not> sorted (map fst cs)"
proof (induction cs arbitrary: r)
  case (Cons c cs)
  obtain t s k where c: "c = (t, s, k)" by (metis prod.exhaust)
  let ?key = "(s, push_key k)" and ?ok = "case r (s, push_key k) of Some t' \<Rightarrow> t - t' > DEDUP_WINDOW | None \<Rightarrow> True"
  let ?r = "if ?ok then r(?key \<mapsto> t) else r"
  show ?case
  proof (cases "sorted (map fst (c # cs))")
    case True
    then have srt: "sorted (map fst cs)" and ge: "\<forall>x\<in>set (map fst cs). t \<le> x" using c by auto
    have ih: "sorted_wrt (\<lambda>a b. b - a > DEDUP_WINDOW) ((case ?r key of Some t \<Rightarrow> [t] | None \<Rightarrow> []) @ passed_times key cs (dedup_ref ?r cs))"
      using Cons.IH [of ?r] srt by blast
    show ?thesis
    proof (cases "?ok \<and> ?key = key")
      case True
      then have "passed_times key (c # cs) (dedup_ref r (c # cs)) = t # passed_times key cs (dedup_ref ?r cs)"
        using c by (auto simp: Let_def)
      moreover have "sorted_wrt (\<lambda>a b. b - a > DEDUP_WINDOW) (t # passed_times key cs (dedup_ref ?r cs))"
      proof -
        have "?r key = Some t" using True by auto
        then show ?thesis using ih by simp
      qed
      moreover have "x - t' > DEDUP_WINDOW" if "r key = Some t'" "x \<in> set (passed_times key cs (dedup_ref ?r cs))" for t' x
        using calculation(2) that True by auto
      moreover have "t - t' > DEDUP_WINDOW" if "r key = Some t'" for t' using that True by auto
      ultimately show ?thesis by (auto split: option.splits)
    next
      case False
      then have "?r key = r key" "passed_times key (c # cs) (dedup_ref r (c # cs)) = passed_times key cs (dedup_ref ?r cs)"
        using c by (auto simp: Let_def split: if_splits)
      then show ?thesis using ih by simp
    qed
  qed simp
qed (simp split: option.splits)

text \<open>
  Repetitions are suppressed exactly: whatever calls arrive, in order of time, a notification for a session
  and kind passes if and only if the last one that passed for them is more than 60 seconds old, so
  forgetting old entries when the map is large changes no answer; and two notifications of the same
  session and kind that pass are always more than 60 seconds apart.
\<close>

theorem repetitions_suppressed_exactly:
  assumes "sorted (map fst calls)"
  shows "dedup_run [] calls = dedup_ref (\<lambda>_. None) calls \<and>
    sorted_wrt (\<lambda>a b. b - a > DEDUP_WINDOW) (passed_times key calls (dedup_run [] calls))"
proof -
  have "dedup_rel 0 [] (\<lambda>_. None)" by (simp add: dedup_rel_def)
  then have "dedup_run [] calls = dedup_ref (\<lambda>_. None) calls" using dedup_run_ref [of 0] assms by simp
  then show ?thesis using dedup_ref_spaced [of "\<lambda>_. None" key calls] assms by simp
qed

theorem repetitions_suppressed_exactly_witness:
  "dedup_run [] [(0, ''s'', TurnFailed), (60, ''s'', TurnFailed), (61, ''s'', TurnFailed)] = [True, False, True] \<and>
   sorted_wrt (\<lambda>a b. b - a > DEDUP_WINDOW) (passed_times (''s'', 2) [(0, ''s'', TurnFailed), (60, ''s'', TurnFailed), (61, ''s'', TurnFailed)]
     (dedup_run [] [(0, ''s'', TurnFailed), (60, ''s'', TurnFailed), (61, ''s'', TurnFailed)]))"
  using repetitions_suppressed_exactly [of "[(0, ''s'', TurnFailed), (60, ''s'', TurnFailed), (61, ''s'', TurnFailed)]" "(''s'', 2)"]
  by (simp add: DEDUP_WINDOW_def)

text \<open>What is sent, is sent for a trigger at hand, to a subscription of its owner, for a known session that is not muted and a kind that is switched on.\<close>

lemma notify_one_sent:
  assumes "notify_one w now t p = (p1, sent)" "(i, t') \<in> set sent"
  shows "t' = t" "(pt_owner t, i) \<in> set (ps_subscriptions p)"
    "\<exists>s. px_session w t = Some s \<and> \<not> pw_muted s"
    "event_enabled (case px_settings w (pt_owner t) of Some x \<Rightarrow> x | None \<Rightarrow> push_settings_default) (pt_kind t)"
  using assms by (auto simp: notify_one_def push_to_all_def Let_def split: option.splits if_splits prod.splits bool.splits)

lemma notify_one_subs: "notify_one w now t p = (p1, sent) \<Longrightarrow> set (ps_subscriptions p1) \<subseteq> set (ps_subscriptions p)"
  by (auto simp: notify_one_def push_to_all_def Let_def split: option.splits if_splits prod.splits bool.splits)

lemma notify_all_sent:
  "notify_all w now ts p = (p1, sent) \<Longrightarrow> (i, t) \<in> set sent \<Longrightarrow>
     t \<in> set ts \<and> (pt_owner t, i) \<in> set (ps_subscriptions p) \<and> (\<exists>s. px_session w t = Some s \<and> \<not> pw_muted s) \<and>
     event_enabled (case px_settings w (pt_owner t) of Some x \<Rightarrow> x | None \<Rightarrow> push_settings_default) (pt_kind t)"
proof (induction ts arbitrary: p sent)
  case (Cons t0 ts)
  obtain p2 s1 where n: "notify_one w now t0 p = (p2, s1)" by fastforce
  obtain s2 where a: "notify_all w now ts p2 = (p1, s2)" "sent = s1 @ s2" using Cons.prems(1) n by (auto split: prod.splits)
  show ?case
  proof (cases "(i, t) \<in> set s1")
    case True
    then show ?thesis using notify_one_sent [OF n True] by auto
  next
    case False
    then show ?thesis using Cons.IH [OF a(1)] Cons.prems(2) a(2) notify_one_subs [OF n] by auto
  qed
qed simp

end
