(* ===== verification/DStream.thy ===== *)
theory DStream
  imports Outbox Push
begin

text \<open>
  One downstream stream of the relay hub (\<open>DStream\<close> in \<open>apps/relay/src/realtime/mod.rs\<close>): the
  cached device snapshots, the replay buffer, the batches stashed before the first snapshot, the
  subscribers and the upstream bindings, and the two segments of \<open>Hub::handle_upstream_snapshot\<close>
  and \<open>Hub::fan_out_events\<close> that number frames. Sequence numbers are allocated by counting from 1,
  far below the width of \<open>u64\<close>, and are natural numbers. \<open>elen\<close> is the protobuf length of an
  envelope, \<open>evlen\<close> that of an event. A UUID is its text form.
\<close>

section \<open>State\<close>


datatype target_tag = TList | TSession uuid int string

record subscriber_state =
  su_awaiting_snapshot :: bool
  su_acked :: nat
  su_correlation :: string

record upstream_binding =
  ub_device :: uuid
  ub_epoch :: nat
  ub_last_seq :: nat
  ub_snapshot_covers :: nat
  ub_snapshot_received :: bool

record pending_batch =
  pb_upstream_id :: string
  pb_upstream_seq :: nat
  pb_sent_at :: "timestamp option"
  pb_device_id :: string
  pb_events :: "event list"

record dstream =
  ds_key :: "uuid \<times> target_tag"
  ds_stream_id :: string
  ds_epoch :: nat
  ds_next_seq :: nat
  ds_snapshots :: "frame list"
  ds_pending :: "pending_batch list"
  ds_pending_bytes :: nat
  ds_pending_events :: nat
  ds_buffer :: stream_buffer
  ds_subscribers :: "(uuid \<times> subscriber_state) list"
  ds_upstreams :: "(string \<times> upstream_binding) list"

definition BUFFER_RETENTION :: nat where "BUFFER_RETENTION = 15 * 60 * 1000"
definition BUFFER_MAX_EVENTS :: nat where "BUFFER_MAX_EVENTS = 10000"
definition BUFFER_MAX_BYTES :: nat where "BUFFER_MAX_BYTES = 16 * 1024 * 1024"
definition SNAPSHOT_PENDING_MAX_EVENTS :: nat where "SNAPSHOT_PENDING_MAX_EVENTS = 1024"
definition SNAPSHOT_CACHE_MAX :: nat where "SNAPSHOT_CACHE_MAX = 16"

definition dstream_new :: "string \<Rightarrow> uuid \<times> target_tag \<Rightarrow> dstream" where
  "dstream_new sid key = \<lparr>ds_key = key, ds_stream_id = sid, ds_epoch = 1, ds_next_seq = 1,
     ds_snapshots = [], ds_pending = [], ds_pending_bytes = 0, ds_pending_events = 0,
     ds_buffer = stream_buffer_new BUFFER_MAX_EVENTS BUFFER_MAX_BYTES BUFFER_RETENTION,
     ds_subscribers = [], ds_upstreams = []\<rparr>"

section \<open>Stashed batches\<close>

definition is_mergeable :: "event \<Rightarrow> bool" where
  "is_mergeable e \<longleftrightarrow> fst (classify e) = Mergeable"

text \<open>One eviction: the first mergeable event of the first batch that has one; an emptied batch goes.\<close>

fun evict_mergeable :: "pending_batch list \<Rightarrow> (event \<times> pending_batch list) option" where
  "evict_mergeable [] = None"
| "evict_mergeable (b # bs) =
     (case position is_mergeable (pb_events b) of
        None \<Rightarrow> map_option (\<lambda>(e, bs'). (e, b # bs')) (evict_mergeable bs)
      | Some p \<Rightarrow>
          (let es = remove_nth p (pb_events b)
           in Some (pb_events b ! p, if es = [] then bs else b\<lparr>pb_events := es\<rparr> # bs)))"

abbreviation n_events :: "pending_batch list \<Rightarrow> nat" where
  "n_events bs \<equiv> length (concat (map pb_events bs))"

lemma evict_mergeable_spec:
  "evict_mergeable bs = Some (e, bs') \<Longrightarrow>
     is_mergeable e \<and> (\<exists>xs ys. concat (map pb_events bs) = xs @ e # ys \<and> concat (map pb_events bs') = xs @ ys)"
proof (induction bs arbitrary: bs')
  case (Cons b bs)
  show ?case
  proof (cases "position is_mergeable (pb_events b)")
    case None
    with Cons.prems obtain bs1 where 1: "evict_mergeable bs = Some (e, bs1)" "bs' = b # bs1" by auto
    then show ?thesis using Cons.IH [OF 1(1)]
      by (metis append.assoc concat.simps(2) list.simps(9))
  next
    case (Some p)
    note p = position_SomeD [OF Some]
    have e: "e = pb_events b ! p"
      and bs': "concat (map pb_events bs') = remove_nth p (pb_events b) @ concat (map pb_events bs)"
      using Cons.prems Some by (auto simp: Let_def split: if_splits)
    have "concat (map pb_events (b # bs)) = take p (pb_events b) @ e # (drop (Suc p) (pb_events b) @ concat (map pb_events bs))"
      using p e by (simp add: id_take_nth_drop)
    moreover have "concat (map pb_events bs') = take p (pb_events b) @ (drop (Suc p) (pb_events b) @ concat (map pb_events bs))"
      using bs' by (simp add: remove_nth_def)
    ultimately show ?thesis using p e by blast
  qed
qed simp

lemma evict_mergeable_None: "evict_mergeable bs = None \<longleftrightarrow> (\<forall>e\<in>set (concat (map pb_events bs)). \<not> is_mergeable e)"
proof (induction bs)
  case (Cons b bs)
  show ?case
  proof (cases "position is_mergeable (pb_events b)")
    case None
    moreover from None have "\<forall>e\<in>set (pb_events b). \<not> is_mergeable e" by (simp only: position_None_iff)
    ultimately show ?thesis using Cons.IH by auto
  next
    case (Some p)
    then show ?thesis using position_SomeD [OF Some] by (auto simp: Let_def intro: nth_mem)
  qed
qed simp

text \<open>The loop of \<open>push_pending\<close>; the result says whether only non-mergeable events are left over the limit.\<close>

function shrink_pending ::
  "(event \<Rightarrow> nat) \<Rightarrow> pending_batch list \<Rightarrow> nat \<Rightarrow> nat \<Rightarrow> pending_batch list \<times> nat \<times> nat \<times> bool" where
  "shrink_pending evlen bs ev by =
     (if ev > SNAPSHOT_PENDING_MAX_EVENTS \<or> by > BUFFER_MAX_BYTES then
        (case evict_mergeable bs of
           None \<Rightarrow> (bs, ev, by, True)
         | Some (e, bs') \<Rightarrow> shrink_pending evlen bs' (ev - 1) (by - evlen e))
      else (bs, ev, by, False))"
  by pat_completeness auto
termination
  by (relation "measure (\<lambda>(evlen, bs, ev, by). n_events bs)") (auto dest!: evict_mergeable_spec)

declare shrink_pending.simps [simp del]

definition push_pending :: "(event \<Rightarrow> nat) \<Rightarrow> pending_batch \<Rightarrow> dstream \<Rightarrow> dstream \<times> bool" where
  "push_pending evlen batch ds =
     (case shrink_pending evlen (ds_pending ds @ [batch])
             (ds_pending_events ds + length (pb_events batch))
             (ds_pending_bytes ds + sum_list (map evlen (pb_events batch))) of
        (bs, ev, by, over) \<Rightarrow>
          (ds\<lparr>ds_pending := bs, ds_pending_events := ev, ds_pending_bytes := by\<rparr>, over))"

definition clear_pending :: "dstream \<Rightarrow> dstream" where
  "clear_pending ds = ds\<lparr>ds_pending := [], ds_pending_bytes := 0, ds_pending_events := 0\<rparr>"

section \<open>Snapshots and replay\<close>

definition cache_snapshot :: "frame \<Rightarrow> dstream \<Rightarrow> dstream" where
  "cache_snapshot f ds =
     (let ss = filter (\<lambda>s. ev_device_id (f_env s) \<noteq> ev_device_id (f_env f)) (ds_snapshots ds) @ [f]
      in ds\<lparr>ds_snapshots := drop (length ss - SNAPSHOT_CACHE_MAX) ss\<rparr>)"

definition latest_snapshot_seq :: "dstream \<Rightarrow> nat option" where
  "latest_snapshot_seq ds = (if ds_snapshots ds = [] then None else Some (f_seq (last (ds_snapshots ds))))"

definition surviving_frames :: "dstream \<Rightarrow> frame list" where
  "surviving_frames ds = sort_key f_seq (ds_snapshots ds @ sb_items (ds_buffer ds))"

definition replay_base :: "dstream \<Rightarrow> frame \<Rightarrow> nat" where
  "replay_base ds first = (if first \<in> set (ds_snapshots ds) then f_seq first else f_seq first - 1)"

definition full_replay :: "dstream \<Rightarrow> (nat \<times> frame list) option" where
  "full_replay ds = (let frames = surviving_frames ds in
     case frames of
       [] \<Rightarrow> None
     | first # _ \<Rightarrow>
         (let lo = f_seq first in
          if ds_next_seq ds < lo then None
          else if length frames \<noteq> ds_next_seq ds - lo then None
          else if \<not> list_all (\<lambda>(i, f). f_seq f = lo + i) (List.enumerate 0 frames) then None
          else Some (replay_base ds first, frames)))"

definition anchored_replay :: "dstream \<Rightarrow> nat \<times> frame list" where
  "anchored_replay ds =
     (let anchor = (case latest_snapshot_seq ds of Some n \<Rightarrow> n | None \<Rightarrow> 0);
          tail = filter (\<lambda>f. f_seq f > anchor) (sb_items (ds_buffer ds));
          expected_tail_len = ds_next_seq ds - (anchor + 1);
          contiguous = (length tail = expected_tail_len \<and>
                        list_all (\<lambda>(i, f). f_seq f = anchor + 1 + i) (List.enumerate 0 tail));
          frames = sort_key f_seq (ds_snapshots ds @ (if contiguous then tail else []));
          base = (case frames of [] \<Rightarrow> 0 | f # _ \<Rightarrow> replay_base ds f)
      in (base, frames))"

definition reset_binding :: "upstream_binding \<Rightarrow> upstream_binding" where
  "reset_binding b = b\<lparr>ub_epoch := 0, ub_last_seq := 0, ub_snapshot_covers := 0, ub_snapshot_received := False\<rparr>"

text \<open>
  \<open>refresh_snapshot_envs\<close>: the result lists the devices whose upstream is subscribed again (the
  Subscribe envelope is a function of device and target).
\<close>

definition refresh_snapshot_envs :: "bool \<Rightarrow> dstream \<Rightarrow> dstream \<times> uuid list" where
  "refresh_snapshot_envs force ds =
     (let again = (\<lambda>b. force \<or> ub_snapshot_received b);
          ds1 = (clear_pending (ds\<lparr>ds_snapshots := []\<rparr>))\<lparr>ds_buffer := stream_buffer_clear (ds_buffer ds),
             ds_subscribers := map (\<lambda>(c, s). (c, s\<lparr>su_awaiting_snapshot := True\<rparr>)) (ds_subscribers ds),
             ds_upstreams := map (\<lambda>(u, b). (u, if again b then reset_binding b else b)) (ds_upstreams ds)\<rparr>
      in (ds1, map (ub_device \<circ> snd) (filter (\<lambda>(u, b). again b) (ds_upstreams ds))))"

section \<open>Numbering\<close>

text \<open>
  The numbering segment of \<open>Hub::handle_upstream_snapshot\<close>: coverage removes the device's covered
  frames, the snapshot takes the next sequence number and replaces the device's cached one.
\<close>

definition ds_apply_snapshot ::
  "(envelope \<Rightarrow> nat) \<Rightarrow> nat \<Rightarrow> string \<Rightarrow> envelope \<Rightarrow> dstream \<Rightarrow> dstream option" where
  "ds_apply_snapshot elen now upstream_id env ds = (case map_of (ds_upstreams ds) upstream_id of
     None \<Rightarrow> None
   | Some b \<Rightarrow>
      (let ds1 = ds\<lparr>ds_upstreams := AList.update upstream_id (b\<lparr>ub_snapshot_received := True\<rparr>) (ds_upstreams ds),
             ds_pending := [], ds_pending_bytes := 0, ds_pending_events := 0,
             ds_buffer := fst (retain_uncovered (ev_device_id env) (ub_snapshot_covers b) (ds_buffer ds)),
             ds_next_seq := ds_next_seq ds + 1\<rparr>;
           e = env\<lparr>ev_stream_id := ds_stream_id ds, ev_stream_epoch := ds_epoch ds, ev_sequence := ds_next_seq ds\<rparr>
       in Some (cache_snapshot (frame_new elen now e Critical None) ds1)))"

text \<open>The per-event segment of \<open>Hub::fan_out_events\<close>: classify, scope, number, buffer.\<close>

definition event_frame ::
  "(envelope \<Rightarrow> nat) \<Rightarrow> nat \<Rightarrow> envelope \<Rightarrow> envelope \<Rightarrow> event \<Rightarrow> dstream \<Rightarrow> frame" where
  "event_frame elen now base env e ds = (case classify e of (kind, merge) \<Rightarrow>
     frame_with_upstream_seq elen now
       (base\<lparr>ev_device_id := ev_device_id env,
          ev_payload := Some (PEventBatch \<lparr>eb_stream_id = ds_stream_id ds,
             eb_events = [\<lparr>de_emitted_at = ev_sent_at env, de_event = Some e\<rparr>]\<rparr>),
          ev_stream_id := ds_stream_id ds, ev_stream_epoch := ds_epoch ds, ev_sequence := ds_next_seq ds\<rparr>)
       kind
       (map_option (scoped (merge_scope (ds_stream_id ds) (ds_epoch ds) (ev_device_id env))) merge)
       (if ev_sequence env = 0 then None else Some (ev_sequence env)))"

definition ds_append_event ::
  "(envelope \<Rightarrow> nat) \<Rightarrow> nat \<Rightarrow> envelope \<Rightarrow> envelope \<Rightarrow> event \<Rightarrow> dstream \<Rightarrow> dstream \<times> frame \<times> insert_outcome" where
  "ds_append_event elen now base env e ds =
     (let f = event_frame elen now base env e ds
      in case stream_buffer_insert elen now f (ds_buffer ds) of
           (b, out) \<Rightarrow> (ds\<lparr>ds_next_seq := ds_next_seq ds + 1, ds_buffer := b\<rparr>, f, out))"

section \<open>Facts on stashing\<close>

abbreviation all_events :: "pending_batch list \<Rightarrow> event list" where
  "all_events bs \<equiv> concat (map pb_events bs)"

abbreviation keepers :: "event list \<Rightarrow> event list" where
  "keepers es \<equiv> filter (\<lambda>e. \<not> is_mergeable e) es"

lemma shrink_pending_spec:
  assumes "shrink_pending evlen bs (length (all_events bs)) (sum_list (map evlen (all_events bs))) = (bs', ev, by, over)"
  shows "keepers (all_events bs') = keepers (all_events bs) \<and> ev = length (all_events bs') \<and>
    by = sum_list (map evlen (all_events bs')) \<and>
    (if over then (\<forall>e\<in>set (all_events bs'). \<not> is_mergeable e) \<and> (ev > SNAPSHOT_PENDING_MAX_EVENTS \<or> by > BUFFER_MAX_BYTES)
     else ev \<le> SNAPSHOT_PENDING_MAX_EVENTS \<and> by \<le> BUFFER_MAX_BYTES)"
  using assms
proof (induction evlen bs "length (all_events bs)" "sum_list (map evlen (all_events bs))" rule: shrink_pending.induct)
  case (1 evlen bs)
  let ?n = "length (all_events bs)" and ?b = "sum_list (map evlen (all_events bs))"
  show ?case
  proof (cases "?n > SNAPSHOT_PENDING_MAX_EVENTS \<or> ?b > BUFFER_MAX_BYTES")
    case True
    show ?thesis
    proof (cases "evict_mergeable bs")
      case None
      then have none: "\<forall>e\<in>set (all_events bs). \<not> is_mergeable e" by (simp only: evict_mergeable_None simp_thms)
      have "(bs', ev, by, over) = (bs, ?n, ?b, True)"
        using "1.prems" True None by (auto simp: shrink_pending.simps [of evlen bs ?n ?b])
      then show ?thesis using True none by simp
    next
      case (Some r)
      obtain e bs1 where r: "r = (e, bs1)" by fastforce
      obtain xs ys where e: "is_mergeable e" "all_events bs = xs @ e # ys" "all_events bs1 = xs @ ys"
        using evict_mergeable_spec Some r by blast
      have n: "?n - 1 = length (all_events bs1)" "?b - evlen e = sum_list (map evlen (all_events bs1))"
        using e by simp_all
      have step: "shrink_pending evlen bs1 (length (all_events bs1)) (sum_list (map evlen (all_events bs1))) = (bs', ev, by, over)"
        using "1.prems" True Some r n by (simp add: shrink_pending.simps [of evlen bs ?n ?b])
      have "keepers (all_events bs1) = keepers (all_events bs)" using e by simp
      with "1.hyps" [OF True Some r [symmetric] n step] show ?thesis by metis
    qed
  next
    case False
    then have "(bs', ev, by, over) = (bs, ?n, ?b, False)"
      using "1.prems" by (auto simp: shrink_pending.simps [of evlen bs ?n ?b])
    then show ?thesis using False by simp
  qed
qed

definition pending_ok :: "(event \<Rightarrow> nat) \<Rightarrow> dstream \<Rightarrow> bool" where
  "pending_ok evlen ds \<longleftrightarrow> ds_pending_events ds = length (all_events (ds_pending ds)) \<and>
     ds_pending_bytes ds = sum_list (map evlen (all_events (ds_pending ds)))"

text \<open>
  Stashing a batch before the first snapshot never loses a critical or recoverable event: all
  of them stay, in order; only mergeable output increments are evicted. The counters stay exact, the
  call reports overload exactly when no mergeable event is left and a limit is still exceeded, and
  otherwise both limits hold.
\<close>

theorem push_pending_keeps_nonmergeable:
  assumes "pending_ok evlen ds" "push_pending evlen batch ds = (ds', over)"
  shows "pending_ok evlen ds' \<and>
    keepers (all_events (ds_pending ds')) = keepers (all_events (ds_pending ds) @ pb_events batch) \<and>
    (over \<longrightarrow> list_all (\<lambda>e. \<not> is_mergeable e) (all_events (ds_pending ds'))) \<and>
    over = (ds_pending_events ds' > SNAPSHOT_PENDING_MAX_EVENTS \<or> ds_pending_bytes ds' > BUFFER_MAX_BYTES)"
proof -
  let ?bs = "ds_pending ds @ [batch]"
  obtain bs' ev b o' where sh: "shrink_pending evlen ?bs (length (all_events ?bs)) (sum_list (map evlen (all_events ?bs))) = (bs', ev, b, o')"
    by (metis prod.exhaust)
  have "ds' = ds\<lparr>ds_pending := bs', ds_pending_events := ev, ds_pending_bytes := b\<rparr>" "over = o'"
    using assms sh by (auto simp: push_pending_def pending_ok_def)
  then show ?thesis using shrink_pending_spec [OF sh]
    by (auto simp: pending_ok_def list_all_iff split: if_splits)
qed

theorem push_pending_keeps_nonmergeable_witness:
  "pending_ok (\<lambda>_. 1) (fst (push_pending (\<lambda>_. 1)
      \<lparr>pb_upstream_id = ''u'', pb_upstream_seq = 1, pb_sent_at = None, pb_device_id = ''d'', pb_events = [QueueStateChanged []]\<rparr>
      (dstream_new ''s'' (''o'', TList))))"
proof -
  have "pending_ok (\<lambda>_. 1) (dstream_new ''s'' (''o'', TList))" by (simp add: pending_ok_def dstream_new_def)
  from push_pending_keeps_nonmergeable [OF this] show ?thesis by (metis prod.collapse)
qed

section \<open>Facts on replay\<close>

text \<open>
  The invariant of a stream: the buffer's own invariant; snapshots in ascending order, one per
  device and at most 16; every number used at most once and below the next one.
\<close>

definition ds_ok :: "dstream \<Rightarrow> bool" where
  "ds_ok ds \<longleftrightarrow> buffer_ok (ds_buffer ds) \<and>
     sorted_wrt (<) (map f_seq (ds_snapshots ds)) \<and>
     distinct (map (ev_device_id \<circ> f_env) (ds_snapshots ds)) \<and>
     length (ds_snapshots ds) \<le> SNAPSHOT_CACHE_MAX \<and>
     set (map f_seq (ds_snapshots ds)) \<inter> set (map f_seq (sb_items (ds_buffer ds))) = {} \<and>
     list_all (\<lambda>f. f_seq f < ds_next_seq ds) (ds_snapshots ds @ sb_items (ds_buffer ds))"

lemma enumerate_seq:
  "list_all (\<lambda>(i, f). f_seq f = a + i) (List.enumerate n fs) \<longleftrightarrow> map f_seq fs = [a + n..<a + n + length fs]"
proof (induction fs arbitrary: n)
  case (Cons f fs)
  have "[a + n..<a + n + length (f # fs)] = (a + n) # [a + Suc n..<a + Suc n + length fs]"
    by (subst upt_conv_Cons) simp_all
  then show ?case using Cons.IH [of "Suc n"] by (simp del: upt_Suc)
qed simp

lemma surviving_mset: "mset (surviving_frames ds) = mset (ds_snapshots ds @ sb_items (ds_buffer ds))"
  by (simp add: surviving_frames_def)

lemma full_replay_iff:
  "full_replay ds = Some (base, frames) \<longleftrightarrow>
     frames \<noteq> [] \<and> frames = surviving_frames ds \<and>
     map f_seq frames = [f_seq (hd frames)..<ds_next_seq ds] \<and> f_seq (hd frames) \<le> ds_next_seq ds \<and>
     base = (if hd frames \<in> set (ds_snapshots ds) then f_seq (hd frames) else f_seq (hd frames) - 1)"
proof (cases "surviving_frames ds")
  case Nil
  then show ?thesis by (auto simp: full_replay_def)
next
  case (Cons f fs)
  let ?lo = "f_seq f" and ?fs = "f # fs"
  have enum: "list_all (\<lambda>(i, g). f_seq g = ?lo + i) (List.enumerate 0 ?fs) \<longleftrightarrow>
      map f_seq ?fs = [?lo..<?lo + length ?fs]"
    using enumerate_seq [of ?lo 0 ?fs] by (simp del: upt_Suc)
  have upto: "(length ?fs = ds_next_seq ds - ?lo \<and> map f_seq ?fs = [?lo..<?lo + length ?fs] \<and> ?lo \<le> ds_next_seq ds) =
      (map f_seq ?fs = [?lo..<ds_next_seq ds] \<and> ?lo \<le> ds_next_seq ds)" (is "?L = ?R")
  proof
    assume ?R
    then have "length (map f_seq ?fs) = length [?lo..<ds_next_seq ds]" by simp
    then have "length ?fs = ds_next_seq ds - ?lo" by simp
    then show ?L using \<open>?R\<close> by (simp del: upt_Suc)
  next
    assume ?L
    then have "?lo + length ?fs = ds_next_seq ds" by linarith
    then show ?R using \<open>?L\<close> by (simp del: upt_Suc)
  qed
  have "full_replay ds = (if ds_next_seq ds < ?lo then None else if length ?fs \<noteq> ds_next_seq ds - ?lo then None
      else if map f_seq ?fs \<noteq> [?lo..<?lo + length ?fs] then None else Some (replay_base ds f, ?fs))"
    unfolding full_replay_def Cons Let_def list.case enum by simp
  then have "full_replay ds = (if map f_seq ?fs = [?lo..<ds_next_seq ds] \<and> ?lo \<le> ds_next_seq ds
      then Some (replay_base ds f, ?fs) else None)"
    using upto by (simp del: upt_Suc list.map length_Cons split: if_splits)
  then show ?thesis using Cons
    by (auto simp: replay_base_def simp del: upt_Suc list.map)
qed

text \<open>
  A full replay is contiguous: when it is offered, it consists of every surviving frame, in
  order, numbered without a gap from its first frame up to the next number to be allocated, so the
  live frames continue it; the announced base is the number of its first frame if that is a
  snapshot, and one less otherwise. It is offered exactly when the surviving numbers are contiguous.
\<close>

theorem full_replay_contiguous:
  "full_replay ds = Some (base, frames) \<longleftrightarrow>
     frames \<noteq> [] \<and> frames = surviving_frames ds \<and>
     map f_seq frames = [f_seq (hd frames)..<ds_next_seq ds] \<and> f_seq (hd frames) \<le> ds_next_seq ds \<and>
     base = (if hd frames \<in> set (ds_snapshots ds) then f_seq (hd frames) else f_seq (hd frames) - 1)"
  by (rule full_replay_iff)

text \<open>The sort of the anchored window changes nothing: the snapshots precede the tail.\<close>

lemma snapshots_then_tail:
  assumes "ds_ok ds" "\<And>f. f \<in> set tail \<Longrightarrow> ds_snapshots ds = [] \<or> f_seq (last (ds_snapshots ds)) < f_seq f"
    and "sorted_wrt (<) (map f_seq tail)"
  shows "sorted_wrt (<) (map f_seq (ds_snapshots ds @ tail))"
proof (cases "ds_snapshots ds" rule: rev_cases)
  case (snoc ss s)
  have "f_seq g < f_seq f" if "g \<in> set (ds_snapshots ds)" "f \<in> set tail" for f g
    using that assms(1) assms(2) [OF that(2)] snoc by (auto simp: ds_ok_def sorted_wrt_append intro: less_trans)
  then show ?thesis using assms by (auto simp: ds_ok_def sorted_wrt_append)
qed (use assms in simp)

lemma sort_key_strict: "sorted_wrt (<) (map f_seq fs) \<Longrightarrow> sort_key f_seq fs = fs"
  by (rule sort_key_id_if_sorted) (simp add: strict_sorted_imp_sorted)

definition anchor_seq :: "dstream \<Rightarrow> nat" where
  "anchor_seq ds = (if ds_snapshots ds = [] then 0 else f_seq (last (ds_snapshots ds)))"

definition anchored_tail :: "dstream \<Rightarrow> frame list" where
  "anchored_tail ds = filter (\<lambda>f. f_seq f > anchor_seq ds) (sb_items (ds_buffer ds))"

lemma anchored_tail_sorted: "buffer_ok (ds_buffer ds) \<Longrightarrow> sorted_wrt (<) (map f_seq (anchored_tail ds))"
  unfolding anchored_tail_def buffer_ok_def
  by (metis subseq_filter_left subseq_map subseq_sorted_wrt)

lemma anchored_replay_frames:
  assumes "ds_ok ds"
  shows "snd (anchored_replay ds) = ds_snapshots ds @
    (if map f_seq (anchored_tail ds) = [anchor_seq ds + 1..<ds_next_seq ds] then anchored_tail ds else [])"
proof -
  let ?a = "anchor_seq ds" and ?t = "anchored_tail ds"
  have a: "(case latest_snapshot_seq ds of Some n \<Rightarrow> n | None \<Rightarrow> 0) = ?a"
    by (simp add: latest_snapshot_seq_def anchor_seq_def)
  have cont: "(length ?t = ds_next_seq ds - (?a + 1) \<and> list_all (\<lambda>(i, f). f_seq f = ?a + 1 + i) (List.enumerate 0 ?t)) =
      (map f_seq ?t = [?a + 1..<ds_next_seq ds])"
  proof -
    have "length ?t = ds_next_seq ds - (?a + 1) \<Longrightarrow> [?a + 1..<?a + 1 + length ?t] = [?a + 1..<ds_next_seq ds]"
      by (cases "?a + 1 \<le> ds_next_seq ds") auto
    moreover have "map f_seq ?t = [?a + 1..<ds_next_seq ds] \<Longrightarrow> length ?t = ds_next_seq ds - (?a + 1)"
      by (metis length_map length_upt)
    ultimately show ?thesis unfolding enumerate_seq add_0_right by metis
  qed
  have "sorted_wrt (<) (map f_seq (ds_snapshots ds @ ?t))"
    using assms by (intro snapshots_then_tail anchored_tail_sorted) (auto simp: anchored_tail_def anchor_seq_def ds_ok_def)
  moreover have "sorted_wrt (<) (map f_seq (ds_snapshots ds @ []))" using assms by (simp add: ds_ok_def)
  ultimately have "sort_key f_seq (ds_snapshots ds @ (if c then ?t else [])) = ds_snapshots ds @ (if c then ?t else [])" for c
    by (cases c) (simp_all add: sort_key_strict)
  then show ?thesis
    unfolding anchored_replay_def Let_def a anchored_tail_def [symmetric] cont snd_conv .
qed

lemma anchored_replay_spec:
  assumes "ds_ok ds" "anchored_replay ds = (base, frames)"
  shows "frames = ds_snapshots ds @
      (if map f_seq (anchored_tail ds) = [anchor_seq ds + 1..<ds_next_seq ds] then anchored_tail ds else []) \<and>
    sorted_wrt (<) (map f_seq frames) \<and>
    base = (if ds_snapshots ds = [] then 0 else f_seq (hd (ds_snapshots ds)))"
proof -
  let ?t = "if map f_seq (anchored_tail ds) = [anchor_seq ds + 1..<ds_next_seq ds] then anchored_tail ds else []"
  have fr: "frames = ds_snapshots ds @ ?t" using anchored_replay_frames [OF assms(1)] assms(2) by simp
  have srt: "sorted_wrt (<) (map f_seq frames)" unfolding fr
    using assms(1) by (intro snapshots_then_tail) (auto simp: anchored_tail_def anchor_seq_def ds_ok_def
        intro: anchored_tail_sorted [unfolded anchored_tail_def anchor_seq_def])
  have base: "base = (case frames of [] \<Rightarrow> 0 | f # _ \<Rightarrow> replay_base ds f)"
    using assms(2) by (auto simp: anchored_replay_def Let_def)
  have "base = (if ds_snapshots ds = [] then 0 else f_seq (hd (ds_snapshots ds)))"
  proof (cases "ds_snapshots ds")
    case Nil
    have first: "f_seq f = 1" if "frames = f # fs" for f fs
    proof -
      have "map f_seq (f # fs) = [1..<ds_next_seq ds]"
        using that Nil fr by (simp only: anchor_seq_def split: if_splits) simp_all
      then show ?thesis by (metis list.simps(9) upt_eq_Cons_conv)
    qed
    then show ?thesis using Nil base by (cases frames) (simp_all add: replay_base_def)
  qed (use base fr in \<open>simp add: replay_base_def\<close>)
  with fr srt show ?thesis by blast
qed

text \<open>
  The fallback replay is always well formed: it is the cached snapshots, oldest first, followed
  by the buffered frames after the newest snapshot if these are numbered without a gap up to the
  next number to be allocated, and by nothing otherwise; numbers ascend strictly, and the announced
  base is the number of the first snapshot (0 when nothing is cached).
\<close>

theorem anchored_replay_well_formed:
  assumes "ds_ok ds" "anchored_replay ds = (base, frames)"
  shows "frames = ds_snapshots ds @
      (if map f_seq (anchored_tail ds) = [anchor_seq ds + 1..<ds_next_seq ds] then anchored_tail ds else []) \<and>
    sorted_wrt (<) (map f_seq frames) \<and>
    base = (if ds_snapshots ds = [] then 0 else f_seq (hd (ds_snapshots ds)))"
  using assms by (rule anchored_replay_spec)

section \<open>Every operation keeps the invariant\<close>

lemma device_snapshots_distinct:
  "distinct (map (ev_device_id \<circ> f_env) fs) \<Longrightarrow>
     distinct (map (ev_device_id \<circ> f_env) (filter (\<lambda>s. ev_device_id (f_env s) \<noteq> ev_device_id (f_env f)) fs @ [f]))"
  by (auto simp: distinct_map inj_on_def)

lemma cache_snapshot_ok:
  assumes "ds_ok ds" "ds_next_seq ds' = Suc (f_seq f)" "ds_snapshots ds' = ds_snapshots ds"
    and "ds_next_seq ds = f_seq f" "buffer_ok (ds_buffer ds')" "set (sb_items (ds_buffer ds')) \<subseteq> set (sb_items (ds_buffer ds))"
  shows "ds_ok (cache_snapshot f ds')"
proof -
  let ?ss = "filter (\<lambda>s. ev_device_id (f_env s) \<noteq> ev_device_id (f_env f)) (ds_snapshots ds) @ [f]"
  let ?k = "length ?ss - SNAPSHOT_CACHE_MAX"
  have srt: "sorted_wrt (<) (map f_seq ?ss)"
    using assms(1,4) subseq_sorted_wrt [OF subseq_map [OF subseq_filter_left], of "(<)" f_seq "ds_snapshots ds"]
    by (auto simp: ds_ok_def sorted_wrt_append list_all_iff)
  have snaps: "ds_snapshots (cache_snapshot f ds') = drop ?k ?ss"
    and rest: "ds_buffer (cache_snapshot f ds') = ds_buffer ds'" "ds_next_seq (cache_snapshot f ds') = ds_next_seq ds'"
    using assms(3) by (simp_all add: cache_snapshot_def Let_def)
  have sub: "set (drop ?k ?ss) \<subseteq> insert f (set (ds_snapshots ds))" using set_drop_subset [of ?k ?ss] by auto
  have seqs: "f_seq g < f_seq f \<and> f_seq g \<notin> f_seq ` set (ds_snapshots ds)" if "g \<in> set (sb_items (ds_buffer ds'))" for g
    using that assms(1,4,6) by (auto simp: ds_ok_def list_all_iff)
  have old: "f_seq s < f_seq f" if "s \<in> set (ds_snapshots ds)" for s
    using that assms(1,4) by (auto simp: ds_ok_def list_all_iff)
  have disj: "set (map f_seq (drop ?k ?ss)) \<inter> set (map f_seq (sb_items (ds_buffer ds'))) = {}"
    using sub seqs by fastforce
  have below: "list_all (\<lambda>g. f_seq g < ds_next_seq ds') (drop ?k ?ss @ sb_items (ds_buffer ds'))"
    using sub seqs old assms(2) by (fastforce simp: list_all_iff)
  have dist: "distinct (map (ev_device_id \<circ> f_env) (drop ?k ?ss))"
    using device_snapshots_distinct [of "ds_snapshots ds" f] assms(1) unfolding ds_ok_def drop_map [symmetric] by (intro distinct_drop) blast
  have srt': "sorted_wrt (<) (map f_seq (drop ?k ?ss))"
    using srt unfolding drop_map [symmetric] by (rule sorted_wrt_drop)
  show ?thesis unfolding ds_ok_def snaps rest using srt' dist disj below assms(5) by (intro conjI) simp_all
qed

lemma retain_uncovered_ok: "buffer_ok b \<Longrightarrow> buffer_ok (fst (retain_uncovered d c b))"
proof -
  assume ok: "buffer_ok b"
  obtain b' n where r: "retain_uncovered d c b = (b', n)" by fastforce
  have keep: "sb_max_events b' = sb_max_events b" "sb_max_bytes b' = sb_max_bytes b"
    using r by (auto simp: retain_uncovered_def Let_def)
  have sp: "sb_items b' = filter (\<lambda>f. \<not> covered d c f) (sb_items b)" "sb_bytes b' = fbytes (sb_items b')"
    using retain_uncovered_spec [OF _ r] ok by (simp_all add: buffer_ok_def)
  let ?k = "filter (\<lambda>f. \<not> covered d c f) (sb_items b)"
  have "fbytes (filter p xs) \<le> fbytes xs" for p xs
    by (induction xs) auto
  then have "fbytes ?k \<le> fbytes (sb_items b)" "length ?k \<le> length (sb_items b)" by simp_all
  then have "fbytes ?k \<le> sb_max_bytes b" "length ?k \<le> sb_max_events b"
    using ok unfolding buffer_ok_def within_limits_def by (simp_all add: le_trans [OF length_filter_le])
  moreover have "sorted_wrt (<) (map f_seq (sb_items b'))"
    using ok subseq_sorted_wrt [OF subseq_map [OF subseq_filter_left]] unfolding sp(1) buffer_ok_def by blast
  ultimately show ?thesis using ok keep sp r
    by (simp add: buffer_ok_def within_limits_def list_all_iff)
qed

lemma ds_apply_snapshot_ok:
  assumes "ds_ok ds" "ds_apply_snapshot elen now u env ds = Some ds'"
  shows "ds_ok ds'"
proof -
  obtain b where b: "map_of (ds_upstreams ds) u = Some b"
    using assms(2) by (auto simp: ds_apply_snapshot_def split: option.splits)
  let ?f = "frame_new elen now (env\<lparr>ev_stream_id := ds_stream_id ds, ev_stream_epoch := ds_epoch ds, ev_sequence := ds_next_seq ds\<rparr>) Critical None"
  let ?b = "fst (retain_uncovered (ev_device_id env) (ub_snapshot_covers b) (ds_buffer ds))"
  let ?ds = "ds\<lparr>ds_upstreams := AList.update u (b\<lparr>ub_snapshot_received := True\<rparr>) (ds_upstreams ds),
      ds_pending := [], ds_pending_bytes := 0, ds_pending_events := 0, ds_buffer := ?b, ds_next_seq := ds_next_seq ds + 1\<rparr>"
  have ds': "ds' = cache_snapshot ?f ?ds" using assms(2) b by (simp add: ds_apply_snapshot_def Let_def)
  have fs: "f_seq ?f = ds_next_seq ds" by (simp add: frame_new_def frame_with_upstream_seq_def)
  have "buffer_ok ?b" using assms(1) by (intro retain_uncovered_ok) (simp add: ds_ok_def)
  moreover have "set (sb_items ?b) \<subseteq> set (sb_items (ds_buffer ds))"
    by (auto simp: retain_uncovered_def Let_def)
  ultimately show ?thesis unfolding ds'
    by (intro cache_snapshot_ok [OF assms(1)]) (simp_all add: fs)
qed

lemma event_frame_seq [simp]: "f_seq (event_frame elen now base env e ds) = ds_next_seq ds"
  by (simp add: event_frame_def frame_with_upstream_seq_def split: prod.splits)

lemma event_frame_solid: "crit_solid (event_frame elen now base env e ds)"
  using classify_critical
  by (auto simp: event_frame_def frame_with_upstream_seq_def crit_solid_def split: prod.splits)

lemma disjoint_insert_subset: "A \<inter> B = {} \<Longrightarrow> n \<notin> A \<Longrightarrow> C \<subseteq> insert n B \<Longrightarrow> A \<inter> C = {}"
  by blast

lemma append_frame_ok:
  assumes "ds_ok ds" "stream_buffer_insert elen now f (ds_buffer ds) = (b, out)" "f_seq f = ds_next_seq ds" "crit_solid f"
  shows "ds_ok (ds\<lparr>ds_next_seq := ds_next_seq ds + 1, ds_buffer := b\<rparr>)"
proof -
  have ok: "buffer_ok b"
    using buffer_ok_insert [of "ds_buffer ds" f elen now] assms by (auto simp: ds_ok_def list_all_iff)
  have seqs: "f_seq ` set (sb_items b) \<subseteq> insert (ds_next_seq ds) (f_seq ` set (sb_items (ds_buffer ds)))"
    using subseq_set [OF insert_seq [OF assms(2)]] assms(3) by auto
  have old: "f_seq g < ds_next_seq ds" if "g \<in> set (ds_snapshots ds) \<union> set (sb_items (ds_buffer ds))" for g
    using that assms(1) by (auto simp: ds_ok_def list_all_iff)
  have "f_seq ` set (ds_snapshots ds) \<inter> f_seq ` set (sb_items (ds_buffer ds)) = {}"
    using assms(1) by (simp add: ds_ok_def)
  moreover have "ds_next_seq ds \<notin> f_seq ` set (ds_snapshots ds)" using old by fastforce
  ultimately have disj: "f_seq ` set (ds_snapshots ds) \<inter> f_seq ` set (sb_items b) = {}"
    using seqs by (rule disjoint_insert_subset)
  have "n \<le> ds_next_seq ds" if "n \<in> f_seq ` set (sb_items b)" for n
    using subsetD [OF seqs that] old [THEN less_imp_le] by auto
  then have "\<forall>g \<in> set (ds_snapshots ds @ sb_items b). f_seq g < ds_next_seq ds + 1"
    using old by (auto simp: less_Suc_eq_le less_imp_le)
  then have lt: "list_all (\<lambda>g. f_seq g < ds_next_seq ds + 1) (ds_snapshots ds @ sb_items b)"
    by (simp only: list_all_iff)
  let ?ds = "ds\<lparr>ds_next_seq := ds_next_seq ds + 1, ds_buffer := b\<rparr>"
  have sel: "ds_snapshots ?ds = ds_snapshots ds" "ds_buffer ?ds = b" "ds_next_seq ?ds = ds_next_seq ds + 1"
    by simp_all
  show ?thesis using assms(1) disj ok lt unfolding ds_ok_def sel set_map by (elim conjE) (intro conjI)
qed

lemma ds_append_event_ok:
  assumes "ds_ok ds" "ds_append_event elen now base env e ds = (ds', f, out)"
  shows "ds_ok ds'"
  using assms(2) append_frame_ok [OF assms(1) _ event_frame_seq event_frame_solid]
  by (auto simp: ds_append_event_def Let_def split: prod.splits)

datatype ds_op =
    OpSnapshot nat string envelope
  | OpEvent nat envelope envelope event
  | OpStash pending_batch
  | OpRefresh bool
  | OpClearPending

fun ds_step :: "(envelope \<Rightarrow> nat) \<Rightarrow> (event \<Rightarrow> nat) \<Rightarrow> dstream \<Rightarrow> ds_op \<Rightarrow> dstream" where
  "ds_step elen evlen ds (OpSnapshot now u env) =
     (case ds_apply_snapshot elen now u env ds of Some ds' \<Rightarrow> ds' | None \<Rightarrow> ds)"
| "ds_step elen evlen ds (OpEvent now base env e) = fst (ds_append_event elen now base env e ds)"
| "ds_step elen evlen ds (OpStash batch) = fst (push_pending evlen batch ds)"
| "ds_step elen evlen ds (OpRefresh force) = fst (refresh_snapshot_envs force ds)"
| "ds_step elen evlen ds OpClearPending = clear_pending ds"

lemma push_pending_frames:
  "ds_snapshots (fst (push_pending evlen b ds)) = ds_snapshots ds"
  "ds_buffer (fst (push_pending evlen b ds)) = ds_buffer ds"
  "ds_next_seq (fst (push_pending evlen b ds)) = ds_next_seq ds"
  by (simp_all add: push_pending_def split: prod.splits)

lemma ds_step_ok:
  assumes "ds_ok ds"
  shows "ds_ok (ds_step elen evlen ds x)"
proof (cases x)
  case (OpSnapshot now u env)
  then show ?thesis using assms ds_apply_snapshot_ok by (simp split: option.splits)
next
  case (OpEvent now base env e)
  then show ?thesis using ds_append_event_ok [OF assms, of elen now base env e]
    by (metis ds_step.simps(2) prod.collapse)
next
  case (OpRefresh force)
  then show ?thesis using assms
    by (simp add: refresh_snapshot_envs_def Let_def clear_pending_def ds_ok_def buffer_ok_def stream_buffer_clear_def
        within_limits_def)
qed (use assms in \<open>simp_all add: ds_ok_def push_pending_frames clear_pending_def\<close>)

lemma dstream_new_ok: "ds_ok (dstream_new sid key)"
  by (simp add: ds_ok_def dstream_new_def buffer_ok_def stream_buffer_new_def within_limits_def)

interpretation stream_m: op_machine_init "ds_step elen evlen" ds_ok "dstream_new sid key"
  for elen evlen sid key
  by unfold_locales (rule ds_step_ok dstream_new_ok, assumption?)+

text \<open>What the recovery paths send: the full replay if there is one, the anchored one otherwise.\<close>

definition recovery_window :: "dstream \<Rightarrow> nat \<times> frame list" where
  "recovery_window ds = (case full_replay ds of Some r \<Rightarrow> r | None \<Rightarrow> anchored_replay ds)"

definition window_ok :: "dstream \<Rightarrow> nat \<times> frame list \<Rightarrow> bool" where
  "window_ok ds w \<longleftrightarrow> sorted_wrt (<) (map f_seq (snd w)) \<and> set (ds_snapshots ds) \<subseteq> set (snd w) \<and>
     list_all (\<lambda>f. fst w \<le> f_seq f \<and> f_seq f < ds_next_seq ds) (snd w)"

lemma sorted_head_least: "sorted_wrt (<) (map g xs) \<Longrightarrow> y \<in> set xs \<Longrightarrow> g (hd xs) \<le> (g y :: nat)"
  by (cases xs) auto

lemma full_window_ok:
  assumes "ds_ok ds" "full_replay ds = Some (base, frames)"
  shows "window_ok ds (base, frames)"
proof -
  note f = assms(2) [unfolded full_replay_iff]
  from f have srt: "sorted_wrt (<) (map f_seq frames)" by (metis sorted_wrt_upt)
  have set: "set frames = set (ds_snapshots ds) \<union> set (sb_items (ds_buffer ds))"
    using f surviving_mset [of ds] by (metis set_append set_mset_mset)
  have "base \<le> f_seq (hd frames)" using f by simp
  moreover have "f_seq (hd frames) \<le> f_seq g" if "g \<in> set frames" for g
    using srt that by (rule sorted_head_least)
  ultimately have "base \<le> f_seq g" if "g \<in> set frames" for g using that le_trans by blast
  then show ?thesis using srt set assms(1) by (auto simp: window_ok_def list_all_iff ds_ok_def)
qed

lemma anchored_window_ok:
  assumes "ds_ok ds"
  shows "window_ok ds (anchored_replay ds)"
proof -
  obtain base frames where r: "anchored_replay ds = (base, frames)" by fastforce
  note f = anchored_replay_spec [OF assms r]
  have sub: "set (ds_snapshots ds) \<subseteq> set frames" "set frames \<subseteq> set (ds_snapshots ds @ sb_items (ds_buffer ds))"
    using f by (auto simp: anchored_tail_def)
  have "base \<le> f_seq g" if "g \<in> set frames" for g
  proof (cases "ds_snapshots ds")
    case (Cons s ss)
    then have "hd frames = s" "base = f_seq s" using f by simp_all
    moreover have "f_seq (hd frames) \<le> f_seq g" 
      by (rule sorted_head_least [OF f [THEN conjunct2, THEN conjunct1] that])
    ultimately show ?thesis by simp
  qed (use f in simp)
  moreover have "f_seq g < ds_next_seq ds" if "g \<in> set frames" for g
    using that sub(2) assms by (auto simp: ds_ok_def list_all_iff)
  moreover have "sorted_wrt (<) (map f_seq frames)" using f by blast
  ultimately show ?thesis using sub(1) unfolding r window_ok_def fst_conv snd_conv list_all_iff by blast
qed

lemma recovery_window_ok: "ds_ok ds \<Longrightarrow> window_ok ds (recovery_window ds)"
  using full_window_ok anchored_window_ok by (auto simp: recovery_window_def split: option.splits)


theorem anchored_replay_well_formed_witness:
  "fst (anchored_replay (foldl (ds_step (\<lambda>_. 1) (\<lambda>_. 1)) (dstream_new ''s'' (''o'', TList))
      [OpEvent 1 (ex_env 1 (QueueStateChanged [])) (ex_env 1 (QueueStateChanged [])) (QueueStateChanged [])])) = 0"
proof -
  let ?ds = "foldl (ds_step (\<lambda>_. 1) (\<lambda>_. 1)) (dstream_new ''s'' (''o'', TList)) [OpEvent 1 (ex_env 1 (QueueStateChanged [])) (ex_env 1 (QueueStateChanged [])) (QueueStateChanged [])]"
  obtain base frames where r: "anchored_replay ?ds = (base, frames)" by fastforce
  have "ds_snapshots ?ds = []" by (simp add: ds_append_event_def Let_def dstream_new_def split: prod.splits)
  then show ?thesis using anchored_replay_well_formed [OF stream_m.reachable_inv r] r by simp
qed

end
