(* ===== verification/Domain.thy ===== *)
theory Domain
  imports Prelude
begin

text \<open>
  Vocabulary of the bridge (\<open>apps/bridge/src/domain\<close>): identifiers, stable error codes, state
  dimensions, capabilities, attention items, commands and receipts; and the capability probe
  (\<open>capabilities/mod.rs\<close>, with the version tables of \<open>adapter/codex/ipc/discovery.rs\<close>).
  Strings are UTF-8 bytes; times are their RFC 3339 text.
\<close>

section \<open>Identifiers\<close>

datatype agent_kind = CodexDesktop | ZcodeDesktop

fun kind_name :: "agent_kind \<Rightarrow> string" where
  "kind_name CodexDesktop = ''codex-desktop''"
| "kind_name ZcodeDesktop = ''zcode-desktop''"

fun proto_value :: "agent_kind \<Rightarrow> int" where
  "proto_value CodexDesktop = 1"
| "proto_value ZcodeDesktop = 2"

definition from_proto_value :: "int \<Rightarrow> agent_kind option" where
  "from_proto_value v = (if v = 1 then Some CodexDesktop else if v = 2 then Some ZcodeDesktop else None)"

record session_key =
  sk_device_id :: string
  sk_agent_kind :: agent_kind
  sk_native_session_id :: string
  sk_relay_session_uuid :: "string option"

record turn_id =
  ti_id :: string
  ti_synthetic :: bool

definition turn_native :: "string \<Rightarrow> turn_id" where "turn_native i = \<lparr>ti_id = i, ti_synthetic = False\<rparr>"
definition turn_synthetic :: "string \<Rightarrow> turn_id" where "turn_synthetic i = \<lparr>ti_id = i, ti_synthetic = True\<rparr>"

record item_id =
  ii_id :: string
  ii_synthetic :: bool

definition item_native :: "string \<Rightarrow> item_id" where "item_native i = \<lparr>ii_id = i, ii_synthetic = False\<rparr>"
definition item_synthetic :: "string \<Rightarrow> item_id" where "item_synthetic i = \<lparr>ii_id = i, ii_synthetic = True\<rparr>"

section \<open>Error codes\<close>

datatype stable_error_code =
    AuthRequired | AuthExpired | CsrfInvalid | WsTicketInvalid | WsTicketExpired | WsTicketConsumed
  | DeviceOffline | DeviceRevoked | CodexUnavailable | CodexVersionUnverified | ControlReadOnly
  | CapabilityUnsupported | SessionNotFound | StaleTurn | DuplicateRequestMismatch | OutcomeUnknownCode
  | ResyncRequiredCode | QueueAlreadyExists | QueuePausedCode | QuestionExpired | ApprovalExpired
  | SettingCombinationUnsupported | FileHandleInvalid | FileOutsideScope | FileChanged
  | FileTypeNotPreviewable | TransferExpired | TransferTooLarge | TransferRangeInvalid | DiffTooLarge
  | RateLimited | InternalError

fun code_as_str :: "stable_error_code \<Rightarrow> string" where
  "code_as_str AuthRequired = ''AUTH_REQUIRED''"
| "code_as_str AuthExpired = ''AUTH_EXPIRED''"
| "code_as_str CsrfInvalid = ''CSRF_INVALID''"
| "code_as_str WsTicketInvalid = ''WS_TICKET_INVALID''"
| "code_as_str WsTicketExpired = ''WS_TICKET_EXPIRED''"
| "code_as_str WsTicketConsumed = ''WS_TICKET_CONSUMED''"
| "code_as_str DeviceOffline = ''DEVICE_OFFLINE''"
| "code_as_str DeviceRevoked = ''DEVICE_REVOKED''"
| "code_as_str CodexUnavailable = ''CODEX_UNAVAILABLE''"
| "code_as_str CodexVersionUnverified = ''CODEX_VERSION_UNVERIFIED''"
| "code_as_str ControlReadOnly = ''CONTROL_READ_ONLY''"
| "code_as_str CapabilityUnsupported = ''CAPABILITY_UNSUPPORTED''"
| "code_as_str SessionNotFound = ''SESSION_NOT_FOUND''"
| "code_as_str StaleTurn = ''STALE_TURN''"
| "code_as_str DuplicateRequestMismatch = ''DUPLICATE_REQUEST_MISMATCH''"
| "code_as_str OutcomeUnknownCode = ''OUTCOME_UNKNOWN''"
| "code_as_str ResyncRequiredCode = ''RESYNC_REQUIRED''"
| "code_as_str QueueAlreadyExists = ''QUEUE_ALREADY_EXISTS''"
| "code_as_str QueuePausedCode = ''QUEUE_PAUSED''"
| "code_as_str QuestionExpired = ''QUESTION_EXPIRED''"
| "code_as_str ApprovalExpired = ''APPROVAL_EXPIRED''"
| "code_as_str SettingCombinationUnsupported = ''SETTING_COMBINATION_UNSUPPORTED''"
| "code_as_str FileHandleInvalid = ''FILE_HANDLE_INVALID''"
| "code_as_str FileOutsideScope = ''FILE_OUTSIDE_SCOPE''"
| "code_as_str FileChanged = ''FILE_CHANGED''"
| "code_as_str FileTypeNotPreviewable = ''FILE_TYPE_NOT_PREVIEWABLE''"
| "code_as_str TransferExpired = ''TRANSFER_EXPIRED''"
| "code_as_str TransferTooLarge = ''TRANSFER_TOO_LARGE''"
| "code_as_str TransferRangeInvalid = ''TRANSFER_RANGE_INVALID''"
| "code_as_str DiffTooLarge = ''DIFF_TOO_LARGE''"
| "code_as_str RateLimited = ''RATE_LIMITED''"
| "code_as_str InternalError = ''INTERNAL_ERROR''"

record bridge_error =
  be_code :: stable_error_code
  be_message :: string

definition bridge_err :: "stable_error_code \<Rightarrow> string \<Rightarrow> bridge_error" where
  "bridge_err c m = \<lparr>be_code = c, be_message = m\<rparr>"

section \<open>States\<close>

datatype control_mode = FullControl | LimitedControl | ReadOnly | Unavailable
datatype compatibility_state = Verified | Degraded | Unsupported
datatype active_turn_phase = PhIdle | PhRunning | PhFinishing
datatype queue_state = QsEmpty | QsQueued | QsPaused
datatype last_turn_outcome = OutCompleted | OutFailed | OutInterrupted | OutUnknown
datatype attention_kind = UserQuestion | RiskApproval
datatype background_state = BgRunning | BgCompleted | BgFailed | BgStopped | BgUnknown

section \<open>Attention\<close>

record question_option =
  qo_option_id :: string
  qo_label :: string

record pending_question =
  pq_question_id :: string
  pq_title :: string
  pq_description :: string
  pq_options :: "question_option list"
  pq_allow_multiple :: bool
  pq_allow_free_text :: bool
  pq_turn :: "turn_id option"
  pq_created_at :: "string option"
  pq_valid :: bool

record approval_decision =
  ad_decision_id :: string
  ad_label :: string

record pending_approval =
  pa_approval_id :: string
  pa_risk_description :: string
  pa_requested_action :: string
  pa_decisions :: "approval_decision list"
  pa_scope :: "string option"
  pa_turn :: "turn_id option"
  pa_created_at :: "string option"
  pa_valid :: bool

datatype pending_attention = AtQuestion pending_question | AtApproval pending_approval

fun attention_kind_of :: "pending_attention \<Rightarrow> attention_kind" where
  "attention_kind_of (AtQuestion q) = UserQuestion"
| "attention_kind_of (AtApproval a) = RiskApproval"

fun attention_native_id :: "pending_attention \<Rightarrow> string" where
  "attention_native_id (AtQuestion q) = pq_question_id q"
| "attention_native_id (AtApproval a) = pa_approval_id a"

fun attention_turn :: "pending_attention \<Rightarrow> turn_id option" where
  "attention_turn (AtQuestion q) = pq_turn q"
| "attention_turn (AtApproval a) = pa_turn a"

fun attention_is_valid :: "pending_attention \<Rightarrow> bool" where
  "attention_is_valid (AtQuestion q) = pq_valid q"
| "attention_is_valid (AtApproval a) = pa_valid a"

section \<open>Capabilities\<close>

datatype operation =
    CreateSession | StartTurn | QueueNextTurn | SteerTurn | InterruptTurn | AnswerQuestion | SubmitApproval
  | UpdateSettings | RenameSession | ArchiveSession | UnarchiveSession | ForkSession
  | StopBackgroundCommand | StopAllBackgroundCommands

datatype setting_kind = SkModel | SkReasoningEffort | SkServiceTier | SkPermissionMode | SkCollaborationMode

fun native_key :: "setting_kind \<Rightarrow> string" where
  "native_key SkModel = ''model''"
| "native_key SkReasoningEffort = ''effort''"
| "native_key SkServiceTier = ''serviceTier''"
| "native_key SkPermissionMode = ''approvalPolicy''"
| "native_key SkCollaborationMode = ''collaborationMode''"

record setting_value =
  sv_value :: string
  sv_label :: string

record setting_option =
  so_option_id :: string
  so_kind :: setting_kind
  so_label :: string
  so_current_value :: "string option"
  so_available_values :: "setting_value list"
  so_mutable :: bool

record setting_update =
  su_kind :: setting_kind
  su_value :: string

record transfer_limits =
  tl_text_inline_max_bytes :: nat
  tl_image_inline_max_bytes :: nat
  tl_pdf_range_max_bytes :: nat
  tl_download_max_bytes :: nat
  tl_upload_max_bytes :: nat
  tl_max_concurrent_per_browser :: nat
  tl_max_concurrent_per_device :: nat
  tl_previewable_mime_prefixes :: "string list"

definition transfer_limits_default :: transfer_limits where
  "transfer_limits_default = (let mib = 1024 * 1024 in
     \<lparr>tl_text_inline_max_bytes = 2 * mib, tl_image_inline_max_bytes = 25 * mib,
      tl_pdf_range_max_bytes = 100 * mib, tl_download_max_bytes = 512 * mib,
      tl_upload_max_bytes = 20 * mib, tl_max_concurrent_per_browser = 2, tl_max_concurrent_per_device = 2,
      tl_previewable_mime_prefixes = [''text/'', ''application/json'', ''application/xml'',
        ''application/x-yaml'', ''image/png'', ''image/jpeg'', ''image/webp'', ''image/gif'', ''application/pdf'']\<rparr>)"

record capability_set =
  cs_control_mode :: control_mode
  cs_compatibility_state :: compatibility_state
  cs_codex_version :: "string option"
  cs_supported_operations :: "operation list"
  cs_settings :: "setting_option list"
  cs_transfer_limits :: transfer_limits

definition read_only_degraded :: "string option \<Rightarrow> capability_set" where
  "read_only_degraded v = \<lparr>cs_control_mode = ReadOnly, cs_compatibility_state = Degraded, cs_codex_version = v,
     cs_supported_operations = [], cs_settings = [], cs_transfer_limits = transfer_limits_default\<rparr>"

definition caps_unavailable :: capability_set where
  "caps_unavailable = \<lparr>cs_control_mode = Unavailable, cs_compatibility_state = Unsupported, cs_codex_version = None,
     cs_supported_operations = [], cs_settings = [], cs_transfer_limits = transfer_limits_default\<rparr>"

definition caps_supports :: "capability_set \<Rightarrow> operation \<Rightarrow> bool" where
  "caps_supports c x \<longleftrightarrow> x \<in> set (cs_supported_operations c)"

section \<open>Commands and receipts\<close>

datatype command_payload =
    PlStartTurn string
  | PlSteer string
  | PlInterrupt
  | PlAnswerQuestion string "string list" "string option"
  | PlSubmitApproval string string
  | PlUpdateSettings "setting_update list"
  | PlQueueNextTurn string bool
  | PlCancelQueue
  | PlPauseQueue
  | PlStopBackgroundCommand string
  | PlStopAllBackgroundCommands

record command_request =
  cr_request_id :: string
  cr_operation :: operation
  cr_session_key :: session_key
  cr_expected_turn_id :: "turn_id option"
  cr_expected_runtime_revision :: "u64 option"
  cr_payload_digest :: "string option"
  cr_payload :: command_payload

definition permits_revision_drift :: "command_request \<Rightarrow> turn_id option \<Rightarrow> bool" where
  "permits_revision_drift req current_turn \<longleftrightarrow> cr_payload req = PlInterrupt \<and>
     (case (cr_expected_turn_id req, current_turn) of
        (Some expected, Some current) \<Rightarrow> expected = current | _ \<Rightarrow> False)"

datatype receipt_state = RsDispatchedToCodex | RsCompleted | RsRejected stable_error_code string | RsOutcomeUnknown

record command_receipt =
  ct_request_id :: string
  ct_state :: receipt_state
  ct_at :: "string option"

record queued_turn =
  qt_request_id :: string
  qt_input :: string
  qt_after_turn_id :: turn_id
  qt_accepted_runtime_revision :: u64
  qt_state :: queue_state
  qt_accepted_at :: "string option"

record current_turn =
  cu_turn :: turn_id
  cu_phase :: active_turn_phase
  cu_started_at :: "string option"

record bg_command =
  bc_command_id :: "string option"
  bc_item_id :: "item_id option"
  bc_state :: background_state
  bc_display :: "string option"
  bc_started_at :: "string option"
  bc_finished_at :: "string option"

text \<open>The part of \<open>RuntimeSnapshot\<close> that the command pipeline reads.\<close>

record runtime_snapshot =
  rs_session_key :: session_key
  rs_runtime_revision :: u64
  rs_current_turn :: "current_turn option"
  rs_pending_questions :: "pending_question list"
  rs_pending_approvals :: "pending_approval list"
  rs_background_commands :: "bg_command list"
  rs_capabilities :: capability_set

end
