(* ===== verification/Relay_State.thy ===== *)
theory Relay_State
  imports Domain
begin

text \<open>
  Shared parts of the relay (\<open>apps/relay/src/state.rs\<close>): stable error codes and their HTTP status,
  trusted proxy networks, the client address used for rate limits, and the rate limiter. Addresses
  are words; \<open>parse_ip\<close> is the standard library's parser of textual addresses, an argument. Instants
  are natural numbers, in one unit with the window.
\<close>

section \<open>Stable error codes\<close>

text \<open>The protocol enumeration has the codes of the domain and the unspecified one.\<close>

datatype wire_code = WcUnspecified | Wc stable_error_code

definition wire_codes :: "stable_error_code list" where
  "wire_codes = [AuthRequired, AuthExpired, CsrfInvalid, WsTicketInvalid, WsTicketExpired, WsTicketConsumed,
     DeviceOffline, DeviceRevoked, CodexUnavailable, CodexVersionUnverified, ControlReadOnly, CapabilityUnsupported,
     SessionNotFound, StaleTurn, DuplicateRequestMismatch, OutcomeUnknownCode, ResyncRequiredCode, QueueAlreadyExists,
     QueuePausedCode, QuestionExpired, ApprovalExpired, SettingCombinationUnsupported, FileHandleInvalid,
     FileOutsideScope, FileChanged, FileTypeNotPreviewable, TransferExpired, TransferTooLarge, TransferRangeInvalid,
     DiffTooLarge, RateLimited, InternalError]"

definition wire_try_from :: "int \<Rightarrow> wire_code option" where
  "wire_try_from n = (if n = 0 then Some WcUnspecified
     else if 1 \<le> n \<and> n \<le> 32 then Some (Wc (wire_codes ! nat (n - 1))) else None)"

fun wire_number :: "wire_code \<Rightarrow> int" where
  "wire_number WcUnspecified = 0"
| "wire_number (Wc c) = (case position (\<lambda>x. x = c) wire_codes of Some i \<Rightarrow> int i + 1 | None \<Rightarrow> 0)"

fun stable_code_ref_name :: "wire_code \<Rightarrow> string" where
  "stable_code_ref_name WcUnspecified = ''INTERNAL_ERROR''"
| "stable_code_ref_name (Wc c) = code_as_str c"

definition stable_code_name :: "int \<Rightarrow> string" where
  "stable_code_name n = (case wire_try_from n of Some c \<Rightarrow> stable_code_ref_name c | None \<Rightarrow> ''INTERNAL_ERROR'')"

definition stable_code_from_name :: "string \<Rightarrow> wire_code" where
  "stable_code_from_name s = (case List.find (\<lambda>c. code_as_str c = s) wire_codes of Some c \<Rightarrow> Wc c | None \<Rightarrow> Wc InternalError)"

definition status_for_code :: "wire_code \<Rightarrow> nat" where
  "status_for_code c = (case c of
     Wc AuthRequired \<Rightarrow> 401 | Wc AuthExpired \<Rightarrow> 401 | Wc WsTicketInvalid \<Rightarrow> 401 | Wc WsTicketExpired \<Rightarrow> 401 | Wc WsTicketConsumed \<Rightarrow> 401
   | Wc SessionNotFound \<Rightarrow> 404
   | Wc RateLimited \<Rightarrow> 429
   | Wc DeviceOffline \<Rightarrow> 503 | Wc CodexUnavailable \<Rightarrow> 503 | Wc DeviceRevoked \<Rightarrow> 503
   | Wc StaleTurn \<Rightarrow> 409 | Wc DuplicateRequestMismatch \<Rightarrow> 409 | Wc QueueAlreadyExists \<Rightarrow> 409
   | _ \<Rightarrow> 500)"

section \<open>Networks\<close>

datatype ip_addr = IpV4 "32 word" | IpV6 "128 word"

datatype cidr = CidrV4 "32 word" nat | CidrV6 "128 word" nat

unbundle bit_operations_syntax

definition mask4 :: "nat \<Rightarrow> 32 word" where
  "mask4 p = (if p = 0 then 0 else push_bit (32 - p) (- 1))"

definition mask6 :: "nat \<Rightarrow> 128 word" where
  "mask6 p = (if p = 0 then 0 else push_bit (128 - p) (- 1))"

definition cidr_of :: "ip_addr \<Rightarrow> nat \<Rightarrow> cidr" where
  "cidr_of ip plen = (case ip of
     IpV4 v \<Rightarrow> (let p = min plen 32 in CidrV4 (v AND mask4 p) p)
   | IpV6 v \<Rightarrow> (let p = min plen 128 in CidrV6 (v AND mask6 p) p))"

definition parse_u8 :: "string \<Rightarrow> nat option" where
  "parse_u8 s = (case parse_usize s of Some n \<Rightarrow> if n < 256 then Some n else None | None \<Rightarrow> None)"

text \<open>\<open>split_once\<close>.\<close>

definition split_once :: "char \<Rightarrow> string \<Rightarrow> (string \<times> string) option" where
  "split_once c s = (if c \<in> set s then Some (takeWhile (\<lambda>x. x \<noteq> c) s, tl (dropWhile (\<lambda>x. x \<noteq> c) s)) else None)"

definition cidr_from_str :: "(string \<Rightarrow> ip_addr option) \<Rightarrow> string \<Rightarrow> cidr option" where
  "cidr_from_str parse_ip s =
    (case (case split_once (CHR ''/'') s of
        Some (a, p) \<Rightarrow> (case parse_u8 p of Some n \<Rightarrow> Some (a, n) | None \<Rightarrow> None)
      | None \<Rightarrow> Some (s, 255)) of
       None \<Rightarrow> None
     | Some (addr, plen) \<Rightarrow> map_option (\<lambda>ip. cidr_of ip plen) (parse_ip addr))"

definition to_ipv4_mapped :: "128 word \<Rightarrow> 32 word option" where
  "to_ipv4_mapped v = (if drop_bit 32 v = 0xFFFF then Some (ucast v) else None)"

fun cidr_contains :: "cidr \<Rightarrow> ip_addr \<Rightarrow> bool" where
  "cidr_contains (CidrV4 net plen) (IpV4 v) \<longleftrightarrow> v AND mask4 plen = net"
| "cidr_contains (CidrV6 net plen) (IpV6 v) \<longleftrightarrow> v AND mask6 plen = net"
| "cidr_contains (CidrV4 net plen) (IpV6 v) \<longleftrightarrow> (case to_ipv4_mapped v of Some u \<Rightarrow> u AND mask4 plen = net | None \<Rightarrow> False)"
| "cidr_contains _ _ \<longleftrightarrow> False"

definition is_trusted_proxy :: "cidr list \<Rightarrow> ip_addr \<Rightarrow> bool" where
  "is_trusted_proxy cidrs ip = list_ex (\<lambda>c. cidr_contains c ip) cidrs"

text \<open>\<open>xff\<close> is the \<open>X-Forwarded-For\<close> header, if it is present and valid text.\<close>

definition client_ip_for_limit :: "(string \<Rightarrow> ip_addr option) \<Rightarrow> cidr list \<Rightarrow> ip_addr \<Rightarrow> string option \<Rightarrow> ip_addr" where
  "client_ip_for_limit parse_ip cidrs peer xff =
    (if is_trusted_proxy cidrs peer then
       (case xff of
          Some v \<Rightarrow> (case parse_ip (str_trim (takeWhile (\<lambda>c. c \<noteq> CHR '','') v)) of Some ip \<Rightarrow> ip | None \<Rightarrow> peer)
        | None \<Rightarrow> peer)
     else peer)"

section \<open>Rate limiter\<close>

type_synonym rate_map = "(ip_addr \<times> u32 \<times> nat) list"

definition RATE_MAP_MAX :: nat where "RATE_MAP_MAX = 10000"

definition hit_entry :: "nat \<Rightarrow> nat \<Rightarrow> (u32 \<times> nat) option \<Rightarrow> u32 \<times> nat" where
  "hit_entry window now e = (case e of
     None \<Rightarrow> (1, now)
   | Some (c, start) \<Rightarrow> if now - start > window then (1, now) else (c + 1, start))"

definition rate_hit :: "ip_addr \<Rightarrow> u32 \<Rightarrow> nat \<Rightarrow> nat \<Rightarrow> rate_map \<Rightarrow> rate_map \<times> bool" where
  "rate_hit ip limit window now m =
    (let e = hit_entry window now (map_of m ip);
         m1 = AList.update ip e m;
         m2 = (if length m1 > RATE_MAP_MAX then retain_values (\<lambda>(c, start). now - start \<le> window) m1 else m1)
     in (m2, fst e > limit))"

section \<open>Masks\<close>

lemma and_mask_drop:
  fixes a b :: "'a::len word"
  assumes "n \<le> LENGTH('a)"
  shows "a AND push_bit n (- 1) = b AND push_bit n (- 1) \<longleftrightarrow> drop_bit n a = drop_bit n b"
proof
  assume eq: "a AND push_bit n (- 1) = b AND push_bit n (- 1)"
  show "drop_bit n a = drop_bit n b"
  proof (rule bit_word_eqI)
    fix i assume "i < LENGTH('a)"
    have "bit (a AND push_bit n (- 1)) (n + i) = bit (b AND push_bit n (- 1)) (n + i)" using eq by simp
    then show "bit (drop_bit n a) i = bit (drop_bit n b) i"
      by (auto simp: bit_simps dest: bit_imp_le_length)
  qed
next
  assume eq: "drop_bit n a = drop_bit n b"
  show "a AND push_bit n (- 1) = b AND push_bit n (- 1)"
  proof (rule bit_word_eqI)
    fix i assume "i < LENGTH('a)"
    have "bit (drop_bit n a) (i - n) = bit (drop_bit n b) (i - n)" using eq by simp
    then show "bit (a AND push_bit n (- 1)) i = bit (b AND push_bit n (- 1)) i"
      by (auto simp: bit_simps)
  qed
qed

lemma drop_bit_all: "drop_bit LENGTH('a) (a :: 'a::len word) = 0"
  by (rule bit_word_eqI) (auto simp: bit_simps dest: bit_imp_le_length)

lemma mask4_iff: "p \<le> 32 \<Longrightarrow> a AND mask4 p = b AND mask4 p \<longleftrightarrow> drop_bit (32 - p) a = drop_bit (32 - p) b"
  using and_mask_drop [of "32 - p" a b] drop_bit_all [of a] drop_bit_all [of b] by (auto simp: mask4_def)

lemma mask6_iff: "p \<le> 128 \<Longrightarrow> a AND mask6 p = b AND mask6 p \<longleftrightarrow> drop_bit (128 - p) a = drop_bit (128 - p) b"
  using and_mask_drop [of "128 - p" a b] drop_bit_all [of a] drop_bit_all [of b] by (auto simp: mask6_def)

lemma cidr_contains_of:
  "cidr_contains (cidr_of (IpV4 a) p) (IpV4 b) \<longleftrightarrow> drop_bit (32 - min p 32) b = drop_bit (32 - min p 32) a"
  "cidr_contains (cidr_of (IpV6 a') p) (IpV6 b') \<longleftrightarrow> drop_bit (128 - min p 128) b' = drop_bit (128 - min p 128) a'"
  "cidr_contains (cidr_of (IpV4 a) p) (IpV6 b') \<longleftrightarrow> drop_bit 32 b' = 0xFFFF \<and> drop_bit (32 - min p 32) (ucast b') = drop_bit (32 - min p 32) a"
  "\<not> cidr_contains (cidr_of (IpV6 a') p) (IpV4 b)"
  by (simp_all add: cidr_of_def Let_def mask4_iff mask6_iff to_ipv4_mapped_def)

section \<open>Runs of the rate limiter\<close>

record hit =
  ht_ip :: ip_addr
  ht_limit :: u32
  ht_time :: nat

primrec rate_run :: "nat \<Rightarrow> rate_map \<Rightarrow> hit list \<Rightarrow> bool list" where
  "rate_run window m [] = []"
| "rate_run window m (h # hs) = (case rate_hit (ht_ip h) (ht_limit h) window (ht_time h) m of (m', refused) \<Rightarrow> refused # rate_run window m' hs)"

text \<open>The reference: one counter per address, never cleaned up.\<close>

definition ref_next :: "nat \<Rightarrow> (ip_addr \<Rightarrow> (u32 \<times> nat) option) \<Rightarrow> hit \<Rightarrow> ip_addr \<Rightarrow> (u32 \<times> nat) option" where
  "ref_next window f h = f(ht_ip h := Some (hit_entry window (ht_time h) (f (ht_ip h))))"

primrec ref_run :: "nat \<Rightarrow> (ip_addr \<Rightarrow> (u32 \<times> nat) option) \<Rightarrow> hit list \<Rightarrow> bool list" where
  "ref_run window f [] = []"
| "ref_run window f (h # hs) = (fst (hit_entry window (ht_time h) (f (ht_ip h))) > ht_limit h) # ref_run window (ref_next window f h) hs"

text \<open>The map holds the reference's counters, except some whose window has passed at time \<open>t\<close>.\<close>

definition rate_rel :: "nat \<Rightarrow> nat \<Rightarrow> rate_map \<Rightarrow> (ip_addr \<Rightarrow> (u32 \<times> nat) option) \<Rightarrow> bool" where
  "rate_rel window t m f \<longleftrightarrow> keys_distinct m \<and>
     (\<forall>ip. map_of m ip = f ip \<or> map_of m ip = None \<and> (\<exists>c s. f ip = Some (c, s) \<and> t - s > window))"

lemma rate_rel_entry:
  "rate_rel window t m f \<Longrightarrow> t \<le> now \<Longrightarrow> hit_entry window now (map_of m ip) = hit_entry window now (f ip)"
proof -
  assume r: "rate_rel window t m f" and t: "t \<le> now"
  consider "map_of m ip = f ip" | c s where "map_of m ip = None" "f ip = Some (c, s)" "t - s > window"
    using r unfolding rate_rel_def by blast
  then show ?thesis using t by cases (auto simp: hit_entry_def)
qed

lemma rate_rel_later: "rate_rel window t m f \<Longrightarrow> t \<le> now \<Longrightarrow> rate_rel window now m f"
  unfolding rate_rel_def by (meson diff_le_mono order.strict_trans2)

lemma rate_rel_retain:
  assumes "rate_rel window now m f"
  shows "rate_rel window now (retain_values (\<lambda>(c, start). now - start \<le> window) m) f"
  unfolding rate_rel_def
proof (intro conjI allI)
  have d: "keys_distinct m" using assms by (simp add: rate_rel_def)
  then show "keys_distinct (retain_values (\<lambda>(c, start). now - start \<le> window) m)" by simp
  fix ip
  have m: "map_of m ip = f ip \<or> map_of m ip = None \<and> (\<exists>c s. f ip = Some (c, s) \<and> now - s > window)"
    using assms by (simp add: rate_rel_def)
  show "map_of (retain_values (\<lambda>(c, start). now - start \<le> window) m) ip = f ip \<or>
      map_of (retain_values (\<lambda>(c, start). now - start \<le> window) m) ip = None \<and> (\<exists>c s. f ip = Some (c, s) \<and> now - s > window)"
    using m by (cases "f ip") (auto simp: map_of_retain_values [OF d] split: if_splits)
qed

lemma rate_rel_step:
  assumes "rate_rel window t m f" "t \<le> ht_time h" "rate_hit (ht_ip h) (ht_limit h) window (ht_time h) m = (m', b)"
  shows "rate_rel window (ht_time h) m' (ref_next window f h) \<and> b = (fst (hit_entry window (ht_time h) (f (ht_ip h))) > ht_limit h)"
proof -
  let ?now = "ht_time h"
  let ?e = "hit_entry window ?now (f (ht_ip h))"
  let ?m1 = "AList.update (ht_ip h) ?e m"
  note e = rate_rel_entry [OF assms(1,2), of "ht_ip h"]
  have m1: "rate_rel window ?now ?m1 (ref_next window f h)"
    using rate_rel_later [OF assms(1,2)] by (auto simp: rate_rel_def ref_next_def)
  from rate_rel_retain [OF this]
  show ?thesis using assms(3) m1 e by (auto simp: rate_hit_def Let_def split: if_splits)
qed

lemma rate_run_ref:
  "rate_rel window t m f \<Longrightarrow> sorted (t # map ht_time hs) \<Longrightarrow> rate_run window m hs = ref_run window f hs"
proof (induction hs arbitrary: t m f)
  case (Cons h hs)
  obtain m' b where r: "rate_hit (ht_ip h) (ht_limit h) window (ht_time h) m = (m', b)" by fastforce
  note step = rate_rel_step [OF Cons.prems(1) _ r]
  show ?case using step Cons.IH [of "ht_time h" m' "ref_next window f h"] Cons.prems(2) r by simp
qed simp

section \<open>How many hits get through\<close>

fun admitted :: "ip_addr \<Rightarrow> hit list \<Rightarrow> bool list \<Rightarrow> nat" where
  "admitted ip (h # hs) (b # bs) = (if ht_ip h = ip \<and> \<not> b then 1 else 0) + admitted ip hs bs"
| "admitted ip _ _ = 0"

text \<open>The count of an address stays below the number of hits so far, so it does not wrap.\<close>

definition count_below :: "nat \<Rightarrow> (ip_addr \<Rightarrow> (u32 \<times> nat) option) \<Rightarrow> bool" where
  "count_below n f \<longleftrightarrow> (\<forall>ip c s. f ip = Some (c, s) \<longrightarrow> unat c \<le> n)"

lemma unat_inc: "unat c \<le> n \<Longrightarrow> n + 1 < 2 ^ 32 \<Longrightarrow> unat ((c :: u32) + 1) = unat c + 1"
  by (simp add: unat_word_ariths)

lemma count_below_next:
  assumes "count_below n f" "n + 1 < 2 ^ 32"
  shows "count_below (n + 1) (ref_next window f h)"
  unfolding count_below_def
proof (intro allI impI)
  fix ip c s
  assume "ref_next window f h ip = Some (c, s)"
  then consider "f ip = Some (c, s)" | "(c, s) = hit_entry window (ht_time h) (f (ht_ip h))"
    by (cases "ip = ht_ip h") (simp_all add: ref_next_def)
  then show "unat c \<le> n + 1"
  proof cases
    case 1
    then show ?thesis using assms(1) unfolding count_below_def by (meson le_add1 le_trans)
  next
    case 2
    show ?thesis
    proof (cases "f (ht_ip h)")
      case None
      then show ?thesis using 2 by (simp add: hit_entry_def)
    next
      case (Some e)
      obtain c0 s0 where e: "e = (c0, s0)" by fastforce
      then have "unat c0 \<le> n" using assms(1) Some unfolding count_below_def by blast
      then show ?thesis using 2 Some e unat_inc [of c0 n] assms(2) by (auto simp: hit_entry_def split: if_splits)
    qed
  qed
qed

lemma admitted_no_reset:
  assumes "count_below n f" "n + length hs < 2 ^ 32" "\<And>h. h \<in> set hs \<Longrightarrow> ht_limit h = l"
    and "f ip = Some (c, s)" "\<And>h. h \<in> set hs \<Longrightarrow> ht_ip h = ip \<Longrightarrow> ht_time h - s \<le> window"
  shows "admitted ip hs (ref_run window f hs) \<le> unat l - unat c"
  using assms
proof (induction hs arbitrary: f n c)
  case (Cons h hs)
  have cb: "count_below (n + 1) (ref_next window f h)" using Cons.prems by (intro count_below_next) auto
  show ?case
  proof (cases "ht_ip h = ip")
    case True
    have c: "unat c \<le> n" using Cons.prems(1,4) unfolding count_below_def by blast
    then have c1: "unat (c + 1) = unat c + 1" using Cons.prems(2) by (intro unat_inc) auto
    have "ht_time h - s \<le> window" using Cons.prems(5) [of h] True by simp
    then have e: "hit_entry window (ht_time h) (f ip) = (c + 1, s)" using Cons.prems(4) by (simp add: hit_entry_def)
    have "admitted ip hs (ref_run window (ref_next window f h) hs) \<le> unat l - unat (c + 1)"
      using Cons.prems True e by (intro Cons.IH [OF cb]) (auto simp: ref_next_def)
    moreover have "ht_limit h = l" using Cons.prems(3) by simp
    ultimately show ?thesis using True e c1 by (auto simp: word_less_nat_alt)
  next
    case False
    have "admitted ip hs (ref_run window (ref_next window f h) hs) \<le> unat l - unat c"
      using Cons.prems False by (intro Cons.IH [OF cb]) (auto simp: ref_next_def)
    then show ?thesis using False by simp
  qed
qed simp

text \<open>Within any span no longer than the window the counter starts anew at most once.\<close>

lemma admitted_in_span:
  assumes "count_below n f" "n + length hs < 2 ^ 32"
    and "\<And>h. h \<in> set hs \<Longrightarrow> ht_limit h = l \<and> tb \<le> ht_time h \<and> ht_time h \<le> tb + window" "sorted (map ht_time hs)"
  shows "admitted ip hs (ref_run window f hs) \<le> (case f ip of None \<Rightarrow> unat l | Some (c, s) \<Rightarrow> (unat l - unat c) + unat l)"
  using assms
proof (induction hs arbitrary: f n)
  case (Cons h hs)
  have cb: "count_below (n + 1) (ref_next window f h)" using Cons.prems by (intro count_below_next) auto
  have IH: "admitted ip hs (ref_run window (ref_next window f h) hs) \<le>
      (case ref_next window f h ip of None \<Rightarrow> unat l | Some (c, s) \<Rightarrow> (unat l - unat c) + unat l)"
    using Cons.prems by (intro Cons.IH [OF cb]) auto
  show ?case
  proof (cases "ht_ip h = ip")
    case False
    then show ?thesis using IH by (auto simp: ref_next_def split: option.splits)
  next
    case True
    show ?thesis
    proof (cases "hit_entry window (ht_time h) (f ip) = (1, ht_time h)")
      case fresh: True
      have near: "ht_time h' - ht_time h \<le> window" if "h' \<in> set hs" for h'
        using Cons.prems(3) [of h] Cons.prems(3) [of h'] that by auto
      have "admitted ip hs (ref_run window (ref_next window f h) hs) \<le> unat l - unat (1 :: u32)"
        using Cons.prems True fresh near by (intro admitted_no_reset [OF cb]) (auto simp: ref_next_def)
      moreover have "ht_limit h = l" using Cons.prems(3) by simp
      ultimately have "admitted ip (h # hs) (ref_run window f (h # hs)) \<le> unat l"
        using True fresh by (auto simp: word_less_nat_alt)
      then show ?thesis by (auto split: option.splits)
    next
      case False
      then obtain c s where cs: "f ip = Some (c, s)" "hit_entry window (ht_time h) (f ip) = (c + 1, s)"
        by (auto simp: hit_entry_def split: option.splits if_splits)
      have "unat c \<le> n" using Cons.prems(1) cs(1) unfolding count_below_def by blast
      then have "unat (c + 1) = unat c + 1" using Cons.prems(2) by (intro unat_inc) auto
      moreover have "ht_limit h = l" using Cons.prems(3) by simp
      ultimately show ?thesis using IH cs True by (auto simp: ref_next_def word_less_nat_alt)
    qed
  qed
qed (simp split: option.split)

lemma ref_run_append: "ref_run window f (xs @ ys) = ref_run window f xs @ ref_run window (foldl (ref_next window) f xs) ys"
  by (induction xs arbitrary: f) auto

lemma length_ref_run [simp]: "length (ref_run window f hs) = length hs"
  by (induction hs arbitrary: f) auto

lemma count_below_run: "count_below n f \<Longrightarrow> n + length hs < 2 ^ 32 \<Longrightarrow> count_below (n + length hs) (foldl (ref_next window) f hs)"
proof (induction hs arbitrary: f n)
  case (Cons h hs)
  have "count_below (n + 1) (ref_next window f h)" using Cons.prems by (intro count_below_next) auto
  from Cons.IH [OF this] show ?case using Cons.prems by (simp add: algebra_simps)
qed simp

section \<open>Properties\<close>

text \<open>
  The rate limiter: its clean-up of old entries never changes an answer, i.e. it answers like
  a limiter that keeps every counter for ever; and whatever happened before, in any span of time not longer
  than the window an address gets at most twice its limit through (fewer than \<open>2 ^ 32\<close> hits in all,
  so that no counter wraps).
\<close>

theorem rate_limiter_bounds_every_span:
  assumes "sorted (map ht_time (before @ hs))" "length (before @ hs) < 2 ^ 32"
    and "\<And>h. h \<in> set hs \<Longrightarrow> ht_limit h = l \<and> tb \<le> ht_time h \<and> ht_time h \<le> tb + window"
  shows "rate_run window [] (before @ hs) = ref_run window (\<lambda>_. None) (before @ hs) \<and>
    admitted ip hs (drop (length before) (rate_run window [] (before @ hs))) \<le> 2 * unat l"
proof -
  let ?f = "foldl (ref_next window) (\<lambda>_. None) before"
  have eq: "rate_run window [] (before @ hs) = ref_run window (\<lambda>_. None) (before @ hs)"
    using assms(1) by (intro rate_run_ref [where t = 0]) (auto simp: rate_rel_def)
  have "count_below (0 + length before) ?f" using assms(2) by (intro count_below_run) (auto simp: count_below_def)
  then have "admitted ip hs (ref_run window ?f hs) \<le> (case ?f ip of None \<Rightarrow> unat l | Some (c, s) \<Rightarrow> (unat l - unat c) + unat l)"
    using assms by (intro admitted_in_span [where tb = tb]) (auto simp: sorted_append)
  also have "\<dots> \<le> 2 * unat l" by (auto split: option.split)
  finally show ?thesis using eq by (simp add: ref_run_append)
qed

text \<open>
  Trust in forwarded addresses: a network contains an address exactly if the leading bits agree (an
  IPv4 network also matches IPv4 addresses mapped into IPv6, an IPv6 network no IPv4 address), and a
  peer outside every trusted network is limited under its own address, whatever headers it sends.
\<close>

theorem networks_match_leading_bits:
  "(cidr_contains (cidr_of (IpV4 a) p) (IpV4 b) \<longleftrightarrow> drop_bit (32 - min p 32) b = drop_bit (32 - min p 32) a) \<and>
   (cidr_contains (cidr_of (IpV6 a') p) (IpV6 b') \<longleftrightarrow> drop_bit (128 - min p 128) b' = drop_bit (128 - min p 128) a') \<and>
   (cidr_contains (cidr_of (IpV4 a) p) (IpV6 b') \<longleftrightarrow>
      drop_bit 32 b' = 0xFFFF \<and> drop_bit (32 - min p 32) (ucast b' :: 32 word) = drop_bit (32 - min p 32) a) \<and>
   \<not> cidr_contains (cidr_of (IpV6 a') p) (IpV4 b) \<and>
   (client_ip_for_limit parse_ip cidrs peer xff = peer \<or> (\<exists>c\<in>set cidrs. cidr_contains c peer))"
  by (auto simp: cidr_contains_of client_ip_for_limit_def is_trusted_proxy_def list_ex_iff)

lemma wire_codes_complete: "c \<in> set wire_codes"
  by (cases c) (simp_all add: wire_codes_def)

text \<open>Every code other than the unspecified one survives the way over its name and over its number.\<close>

lemma code_name_round_trip: "stable_code_from_name (stable_code_ref_name (Wc c)) = Wc c"
  by (cases c) (simp_all add: stable_code_from_name_def wire_codes_def)

lemma code_number_round_trip: "wire_try_from (wire_number w) = Some w"
proof (cases w)
  case (Wc c)
  then show ?thesis by (cases c) (simp_all add: wire_try_from_def wire_codes_def)
qed (simp add: wire_try_from_def)

definition ex_hit :: "nat \<Rightarrow> hit" where "ex_hit t = \<lparr>ht_ip = IpV4 1, ht_limit = 1, ht_time = t\<rparr>"

theorem rate_limiter_bounds_every_span_witness:
  "admitted (IpV4 1) [ex_hit 5, ex_hit 7] (drop (length [ex_hit 3]) (rate_run 3 [] ([ex_hit 3] @ [ex_hit 5, ex_hit 7]))) \<le> 2 * unat (1 :: u32)"
proof -
  have "sorted (map ht_time ([ex_hit 3] @ [ex_hit 5, ex_hit 7]))" "length ([ex_hit 3] @ [ex_hit 5, ex_hit 7]) < 2 ^ 32"
    "\<And>h. h \<in> set [ex_hit 5, ex_hit 7] \<Longrightarrow> ht_limit h = 1 \<and> 5 \<le> ht_time h \<and> ht_time h \<le> 5 + 3"
    by (auto simp: ex_hit_def)
  from rate_limiter_bounds_every_span [OF this] show ?thesis by blast
qed

end
