(* ===== verification/Hub.thy ===== *)
theory Hub
  imports DStream Relay_State
begin

text \<open>
  The relay hub (\<open>Hub\<close> in \<open>apps/relay/src/realtime/mod.rs\<close>): browsers with their send queues, bridges,
  downstream streams and the commands under way. A definition below is what a method does while it
  holds the hub's mutex; a method that takes the mutex several times is composed of several. What
  the generated codec computes is in \<open>wire\<close>; a \<open>stamp\<close> holds the clock readings and fresh message ids of
  one call, which nothing reads back. Hash maps are association lists: the order in which the code
  visits them is arbitrary. \<open>nw_log\<close> records, per connection, what its send queue accepted.
\<close>

section \<open>State\<close>

type_synonym dkey = "uuid \<times> target_tag"

record wire =
  wi_elen :: "envelope \<Rightarrow> nat"
  wi_enc :: "envelope \<Rightarrow> bytes option"
  wi_evlen :: "event \<Rightarrow> nat"
  wi_uuid :: "string \<Rightarrow> uuid option"

record stamp =
  sp_message_id :: string
  sp_correlation :: string
  sp_sent_at :: "timestamp option"
  sp_now :: nat

record browser_identity =
  bi_auth_session_id :: uuid
  bi_owner_id :: uuid
  bi_expires_at :: nat

datatype sent = SentFrame frame | SentDirect envelope

record net =
  nw_browsers :: "(uuid \<times> browser_identity) list"
  nw_box :: "uuid \<Rightarrow> outbox"
  nw_log :: "uuid \<Rightarrow> sent list"

record bridge_conn =
  bn_owner :: uuid
  bn_cap :: nat
  bn_queue :: "bytes list"
  bn_open :: bool
  bn_close_signal :: bool

record pending_command =
  pc_conn_id :: uuid
  pc_device :: uuid
  pc_operation :: string
  pc_started_at :: nat

record hub =
  hb_bridges :: "(uuid \<times> bridge_conn) list"
  hb_net :: net
  hb_upstream_index :: "(string \<times> dkey) list"
  hb_streams :: "(dkey \<times> dstream) list"
  hb_browser_streams :: "(uuid \<times> dkey list) list"
  hb_commands :: "(string \<times> pending_command) list"
  hb_queries :: "string list"
  hb_degraded_until :: "nat option"
  hb_shutdown :: bool
  hb_global_buffer_bytes :: nat

definition hub_new :: hub where
  "hub_new = \<lparr>hb_bridges = [], hb_net = \<lparr>nw_browsers = [], nw_box = (\<lambda>_. outbox_new 0 0), nw_log = (\<lambda>_. [])\<rparr>,
     hb_upstream_index = [], hb_streams = [], hb_browser_streams = [], hb_commands = [], hb_queries = [],
     hb_degraded_until = None, hb_shutdown = False, hb_global_buffer_bytes = 0\<rparr>"

section \<open>Envelopes\<close>

definition base_envelope :: "stamp \<Rightarrow> string \<Rightarrow> payload \<Rightarrow> envelope" where
  "base_envelope sp device p = \<lparr>ev_protocol_version = PROTOCOL_VERSION, ev_message_id = sp_message_id sp, ev_correlation_id = [],
     ev_sent_at = sp_sent_at sp, ev_device_id = device, ev_agent_kind = 1, ev_stream_id = [], ev_stream_epoch = 0,
     ev_sequence = 0, ev_payload = Some p, ev_provider_extension = None\<rparr>"

definition encode_direct :: "wire \<Rightarrow> envelope \<Rightarrow> bytes" where
  "encode_direct w e = (case encode_envelope (wi_elen w) (wi_enc w) e of Inr bs \<Rightarrow> bs | Inl _ \<Rightarrow> [])"

fun upstream_stream_id :: "uuid \<Rightarrow> target_tag \<Rightarrow> string" where
  "upstream_stream_id device TList = ''u-'' @ device @ ''-list''"
| "upstream_stream_id _ (TSession device kind native) = ''u-'' @ device @ ''-sess-'' @ show_int kind @ ''-'' @ native"

definition resync_required_env :: "stamp \<Rightarrow> string \<Rightarrow> envelope" where
  "resync_required_env sp sid = base_envelope sp []
     (PResyncRequired \<lparr>rr_stream_id = sid, rr_reason_code = nat (wire_number (Wc ResyncRequiredCode))\<rparr>)"

definition subscribed_env :: "stamp \<Rightarrow> string \<Rightarrow> nat \<Rightarrow> nat \<Rightarrow> string \<Rightarrow> envelope" where
  "subscribed_env sp sid epoch base correlation =
     (base_envelope sp [] (PSubscribed \<lparr>sb_stream_id = sid, sb_stream_epoch = epoch, sb_base_sequence = base\<rparr>))
       \<lparr>ev_correlation_id := correlation\<rparr>"

fun subscribe_target_of :: "target_tag \<Rightarrow> subscribe_target" where
  "subscribe_target_of TList = SubList"
| "subscribe_target_of (TSession device kind native) = SubSession \<lparr>psk_device_id = device, psk_agent_kind = kind,
     psk_native_session_id = native, psk_relay_session_uuid = []\<rparr>"

definition upstream_subscribe_env :: "stamp \<Rightarrow> uuid \<Rightarrow> target_tag \<Rightarrow> envelope" where
  "upstream_subscribe_env sp device tag =
     (base_envelope sp device (PSubscribe (Some (subscribe_target_of tag))))
       \<lparr>ev_stream_id := upstream_stream_id device tag, ev_correlation_id := sp_correlation sp\<rparr>"

section \<open>Sending\<close>

abbreviation connected :: "uuid \<Rightarrow> net \<Rightarrow> bool" where
  "connected c n \<equiv> map_of (nw_browsers n) c \<noteq> None"

definition log_sent :: "uuid \<Rightarrow> sent \<Rightarrow> net \<Rightarrow> net" where
  "log_sent c x n = n\<lparr>nw_log := (nw_log n)(c := nw_log n c @ [x])\<rparr>"

definition net_direct :: "wire \<Rightarrow> envelope \<Rightarrow> uuid \<Rightarrow> net \<Rightarrow> net \<times> bool" where
  "net_direct w e c n = (case push_direct (encode_direct w e) (nw_box n c) of (b, ok) \<Rightarrow>
     (let n1 = n\<lparr>nw_box := (nw_box n)(c := b)\<rparr> in (if ok then log_sent c (SentDirect e) n1 else n1, ok)))"

definition net_frame :: "frame \<Rightarrow> uuid \<Rightarrow> net \<Rightarrow> net \<times> (push_error + unit)" where
  "net_frame f c n = (case push_frame f (nw_box n c) of
     (b, Inr u) \<Rightarrow> (log_sent c (SentFrame f) (n\<lparr>nw_box := (nw_box n)(c := b)\<rparr>), Inr u)
   | (b, Inl e) \<Rightarrow> (n\<lparr>nw_box := (nw_box n)(c := b)\<rparr>, Inl e))"

definition net_close :: "string \<Rightarrow> uuid \<Rightarrow> net \<Rightarrow> net" where
  "net_close reason c n = n\<lparr>nw_box := (nw_box n)(c := outbox_close reason (nw_box n c))\<rparr>"

text \<open>\<open>if let Some(bc) = browsers.get(..)\<close> with a direct message whose fate is not looked at.\<close>

definition net_tell :: "wire \<Rightarrow> envelope \<Rightarrow> uuid \<Rightarrow> net \<Rightarrow> net" where
  "net_tell w e c n = (if connected c n then fst (net_direct w e c n) else n)"

definition tell_all :: "wire \<Rightarrow> envelope \<Rightarrow> uuid list \<Rightarrow> net \<Rightarrow> net" where
  "tell_all w e cs n = foldl (\<lambda>n c. net_tell w e c n) n cs"

fun push_frames :: "frame list \<Rightarrow> uuid \<Rightarrow> net \<Rightarrow> net \<times> bool" where
  "push_frames [] c n = (n, True)"
| "push_frames (f # fs) c n = (case net_frame f c n of (n1, Inl _) \<Rightarrow> (n1, False) | (n1, Inr _) \<Rightarrow> push_frames fs c n1)"

text \<open>Subscribed and then the replay window, as long as the queue takes them.\<close>

definition send_window :: "wire \<Rightarrow> stamp \<Rightarrow> nat \<times> frame list \<Rightarrow> string \<Rightarrow> nat \<Rightarrow> string \<Rightarrow> uuid \<Rightarrow> net \<Rightarrow> net \<times> bool" where
  "send_window w sp window sid epoch correlation c n =
    (case net_direct w (subscribed_env sp sid epoch (fst window) correlation) c n of
       (n1, False) \<Rightarrow> (n1, False)
     | (n1, True) \<Rightarrow> push_frames (snd window) c n1)"

text \<open>A live frame to the active subscribers; the result names those whose queue is full.\<close>

fun fan_frame :: "frame \<Rightarrow> (uuid \<times> subscriber_state) list \<Rightarrow> net \<Rightarrow> net \<times> uuid list" where
  "fan_frame f [] n = (n, [])"
| "fan_frame f ((c, s) # subs) n =
    (if su_awaiting_snapshot s \<or> \<not> connected c n then fan_frame f subs n
     else (case net_frame f c n of
        (n1, Inl SlowConsumer) \<Rightarrow> (case fan_frame f subs n1 of (n2, slow) \<Rightarrow> (n2, c # slow))
      | (n1, _) \<Rightarrow> fan_frame f subs n1))"

definition sink_send :: "bytes \<Rightarrow> bridge_conn \<Rightarrow> bridge_conn \<times> bool" where
  "sink_send bs b = (if bn_open b \<and> length (bn_queue b) < bn_cap b then (b\<lparr>bn_queue := bn_queue b @ [bs]\<rparr>, True) else (b, False))"

definition send_to_bridge :: "wire \<Rightarrow> uuid \<Rightarrow> envelope \<Rightarrow> hub \<Rightarrow> hub \<times> bool" where
  "send_to_bridge w device e g = (case map_of (hb_bridges g) device of
     None \<Rightarrow> (g, False)
   | Some b \<Rightarrow> (case sink_send (encode_direct w e) b of (b1, ok) \<Rightarrow> (g\<lparr>hb_bridges := AList.update device b1 (hb_bridges g)\<rparr>, ok)))"

definition send_all_to_bridges :: "wire \<Rightarrow> (uuid \<times> envelope) list \<Rightarrow> hub \<Rightarrow> hub" where
  "send_all_to_bridges w envs g = foldl (\<lambda>g (device, e). fst (send_to_bridge w device e g)) g envs"

section \<open>Browsers\<close>

definition register_browser :: "uuid \<Rightarrow> browser_identity \<Rightarrow> outbox \<Rightarrow> hub \<Rightarrow> hub" where
  "register_browser c ident box g = g\<lparr>hb_net := (hb_net g)\<lparr>nw_browsers := AList.update c ident (nw_browsers (hb_net g)),
     nw_box := (nw_box (hb_net g))(c := box), nw_log := (nw_log (hb_net g))(c := [])\<rparr>\<rparr>"

definition drop_subscriber :: "uuid \<Rightarrow> dstream \<Rightarrow> dstream" where
  "drop_subscriber c ds = ds\<lparr>ds_subscribers := AList.delete c (ds_subscribers ds)\<rparr>"

definition detach_subscriber :: "uuid \<Rightarrow> hub \<Rightarrow> hub" where
  "detach_subscriber c g = (case map_of (hb_browser_streams g) c of
     None \<Rightarrow> g
   | Some keys \<Rightarrow> g\<lparr>hb_browser_streams := AList.delete c (hb_browser_streams g),
       hb_streams := map (\<lambda>(k, ds). (k, if k \<in> set keys then drop_subscriber c ds else ds)) (hb_streams g)\<rparr>)"

definition drop_browser :: "uuid \<Rightarrow> hub \<Rightarrow> hub" where
  "drop_browser c g = g\<lparr>hb_net := (hb_net g)\<lparr>nw_browsers := AList.delete c (nw_browsers (hb_net g))\<rparr>\<rparr>"

definition remove_browser :: "uuid \<Rightarrow> hub \<Rightarrow> hub" where
  "remove_browser c g = detach_subscriber c (drop_browser c g)"

definition close_box :: "string \<Rightarrow> uuid \<Rightarrow> hub \<Rightarrow> hub" where
  "close_box reason c g = g\<lparr>hb_net := net_close reason c (hb_net g)\<rparr>"

definition close_browser :: "uuid \<Rightarrow> string \<Rightarrow> hub \<Rightarrow> hub" where
  "close_browser c reason g = (if connected c (hb_net g) then close_box reason c (remove_browser c g) else g)"

definition close_all_browsers :: "string \<Rightarrow> hub \<Rightarrow> hub" where
  "close_all_browsers reason g = foldl (\<lambda>g c. close_box reason c (remove_browser c g)) g (map fst (nw_browsers (hb_net g)))"

definition browser_sessions :: "hub \<Rightarrow> (uuid \<times> uuid \<times> nat) list" where
  "browser_sessions g = map (\<lambda>(c, i). (c, bi_auth_session_id i, bi_expires_at i)) (nw_browsers (hb_net g))"

text \<open>A subscriber whose queue refused a frame: told, disconnected, and taken off the stream.\<close>

definition put_stream :: "dkey \<Rightarrow> dstream \<Rightarrow> hub \<Rightarrow> hub" where
  "put_stream key ds g = g\<lparr>hb_streams := AList.update key ds (hb_streams g)\<rparr>"

definition detach_failed_subscriber :: "wire \<Rightarrow> stamp \<Rightarrow> dkey \<Rightarrow> hub \<Rightarrow> uuid \<Rightarrow> hub" where
  "detach_failed_subscriber w sp key g c =
    (let g1 = (case map_of (hb_streams g) key of
           None \<Rightarrow> g
         | Some ds \<Rightarrow> (put_stream key (drop_subscriber c ds) g)\<lparr>hb_net :=
             (if connected c (hb_net g)
              then net_close ''RESYNC_REQUIRED'' c (fst (net_direct w (resync_required_env sp (ds_stream_id ds)) c (hb_net g)))
              else hb_net g)\<rparr>)
     in case map_of (hb_browser_streams g1) c of
          None \<Rightarrow> g1
        | Some keys \<Rightarrow> g1\<lparr>hb_browser_streams := AList.update c (removeAll key keys) (hb_browser_streams g1)\<rparr>)"

section \<open>Bridges\<close>

definition bridge_insert :: "uuid \<Rightarrow> bridge_conn \<Rightarrow> hub \<Rightarrow> hub" where
  "bridge_insert device b g = g\<lparr>hb_bridges := AList.update device b (hb_bridges g)\<rparr>"

definition fresh_binding :: "uuid \<Rightarrow> upstream_binding" where
  "fresh_binding device = \<lparr>ub_device = device, ub_epoch = 0, ub_last_seq = 0, ub_snapshot_covers = 0, ub_snapshot_received = False\<rparr>"

definition add_binding :: "dkey \<Rightarrow> uuid \<Rightarrow> string \<Rightarrow> dstream \<Rightarrow> hub \<Rightarrow> hub" where
  "add_binding key device uid ds g =
     (put_stream key (ds\<lparr>ds_upstreams := AList.update uid (fresh_binding device) (ds_upstreams ds)\<rparr>) g)
       \<lparr>hb_upstream_index := AList.update uid key (hb_upstream_index g)\<rparr>"

fun concerns :: "uuid \<Rightarrow> uuid \<Rightarrow> dkey \<Rightarrow> bool" where
  "concerns device owner (o', TList) \<longleftrightarrow> o' = owner"
| "concerns device owner (o', TSession d _ _) \<longleftrightarrow> o' = owner \<and> d = device"

fun bind_keys :: "stamp \<Rightarrow> uuid \<Rightarrow> dkey list \<Rightarrow> hub \<Rightarrow> hub \<times> envelope list" where
  "bind_keys sp device [] g = (g, [])"
| "bind_keys sp device (key # keys) g = (case map_of (hb_streams g) key of
     None \<Rightarrow> bind_keys sp device keys g
   | Some ds \<Rightarrow> (let uid = upstream_stream_id device (snd key) in
       if map_of (ds_upstreams ds) uid \<noteq> None then bind_keys sp device keys g
       else (case bind_keys sp device keys (add_binding key device uid ds g) of
         (g1, envs) \<Rightarrow> (g1, upstream_subscribe_env sp device (snd key) # envs))))"

definition ensure_bindings :: "stamp \<Rightarrow> uuid \<Rightarrow> uuid \<Rightarrow> hub \<Rightarrow> hub \<times> envelope list" where
  "ensure_bindings sp device owner g = bind_keys sp device (filter (concerns device owner) (map fst (hb_streams g))) g"

definition register_bridge :: "wire \<Rightarrow> stamp \<Rightarrow> uuid \<Rightarrow> bridge_conn \<Rightarrow> hub \<Rightarrow> hub" where
  "register_bridge w sp device b g = (case ensure_bindings sp device (bn_owner b) (bridge_insert device b g) of
     (g1, envs) \<Rightarrow> send_all_to_bridges w (map (\<lambda>e. (device, e)) envs) g1)"

definition force_close_bridge :: "uuid \<Rightarrow> hub \<Rightarrow> hub" where
  "force_close_bridge device g = (case map_of (hb_bridges g) device of
     None \<Rightarrow> g | Some b \<Rightarrow> bridge_insert device (b\<lparr>bn_close_signal := True\<rparr>) g)"

definition is_online :: "uuid \<Rightarrow> hub \<Rightarrow> bool" where
  "is_online device g \<longleftrightarrow> map_of (hb_bridges g) device \<noteq> None"

definition bridge_owner :: "uuid \<Rightarrow> hub \<Rightarrow> uuid option" where
  "bridge_owner device g = map_option bn_owner (map_of (hb_bridges g) device)"

definition online_devices_of_owner :: "uuid \<Rightarrow> hub \<Rightarrow> uuid list" where
  "online_devices_of_owner owner g = map fst (filter (\<lambda>(d, b). bn_owner b = owner) (hb_bridges g))"

definition outcome_unknown :: "stamp \<Rightarrow> uuid \<Rightarrow> string \<Rightarrow> envelope" where
  "outcome_unknown sp device rid = base_envelope sp device (PCommandResult \<lparr>cre_request_id = rid, cre_status = 6,
     cre_error_code = wire_number (Wc OutcomeUnknownCode), cre_details = [], cre_duration_ms = None\<rparr>)"

definition settle_commands :: "wire \<Rightarrow> stamp \<Rightarrow> (string \<times> pending_command) list \<Rightarrow> net \<Rightarrow> net" where
  "settle_commands w sp ps n = foldl (\<lambda>n (rid, p). net_tell w (outcome_unknown sp (pc_device p) rid) (pc_conn_id p) n) n ps"

definition remove_bridge :: "wire \<Rightarrow> stamp \<Rightarrow> uuid \<Rightarrow> hub \<Rightarrow> hub \<times> (string \<times> string) list" where
  "remove_bridge w sp device g =
    (let dead = filter (starts_with (''u-'' @ device @ ''-'')) (map fst (hb_upstream_index g));
         lost = filter (\<lambda>(rid, p). pc_device p = device) (hb_commands g)
     in (g\<lparr>hb_bridges := AList.delete device (hb_bridges g),
           hb_upstream_index := filter (\<lambda>(u, k). u \<notin> set dead) (hb_upstream_index g),
           hb_streams := map (\<lambda>(k, ds). (k, ds\<lparr>ds_upstreams := filter (\<lambda>(u, b). u \<notin> set dead) (ds_upstreams ds)\<rparr>)) (hb_streams g),
           hb_commands := filter (\<lambda>(rid, p). pc_device p \<noteq> device) (hb_commands g),
           hb_net := settle_commands w sp lost (hb_net g)\<rparr>,
         map (\<lambda>(rid, p). (rid, pc_operation p)) lost))"

section \<open>Degradation and shutdown\<close>

definition set_degraded :: "nat option \<Rightarrow> hub \<Rightarrow> hub" where
  "set_degraded d g = g\<lparr>hb_degraded_until := d\<rparr>"

definition writes_allowed :: "nat \<Rightarrow> hub \<Rightarrow> bool" where
  "writes_allowed now g = (case hb_degraded_until g of Some until \<Rightarrow> now < until | None \<Rightarrow> True)"

definition begin_shutdown :: "wire \<Rightarrow> stamp \<Rightarrow> hub \<Rightarrow> hub \<times> (string \<times> string) list" where
  "begin_shutdown w sp g =
     (g\<lparr>hb_shutdown := True, hb_commands := [], hb_net := settle_commands w sp (hb_commands g) (hb_net g)\<rparr>,
      map (\<lambda>(rid, p). (rid, pc_operation p)) (hb_commands g))"

section \<open>Subscriptions\<close>

definition stream_entry :: "string \<Rightarrow> dkey \<Rightarrow> hub \<Rightarrow> dstream" where
  "stream_entry sid key g = (case map_of (hb_streams g) key of Some ds \<Rightarrow> ds | None \<Rightarrow> dstream_new sid key)"

definition all_awaiting :: "dstream \<Rightarrow> dstream" where
  "all_awaiting ds = ds\<lparr>ds_subscribers := map (\<lambda>(c, s). (c, s\<lparr>su_awaiting_snapshot := True\<rparr>)) (ds_subscribers ds)\<rparr>"

definition clear_stream :: "dstream \<Rightarrow> dstream" where
  "clear_stream ds = (clear_pending (ds\<lparr>ds_snapshots := []\<rparr>))\<lparr>ds_buffer := stream_buffer_clear (ds_buffer ds)\<rparr>"

text \<open>
  The first critical section of \<open>browser_subscribe\<close>: bind the stream to the devices, and fetch a fresh
  snapshot for a session. \<open>sid\<close> is the identity a new stream gets.
\<close>

fun is_session :: "target_tag \<Rightarrow> bool" where
  "is_session TList = False"
| "is_session (TSession _ _ _) = True"

fun bind_needs :: "stamp \<Rightarrow> string \<Rightarrow> dkey \<Rightarrow> (uuid \<times> target_tag) list \<Rightarrow> hub \<Rightarrow> hub \<times> (uuid \<times> envelope) list" where
  "bind_needs sp sid key [] g = (g, [])"
| "bind_needs sp sid key ((device, tag) # needs) g =
    (let uid = upstream_stream_id device tag;
         ds = stream_entry sid key g;
         again = (device, upstream_subscribe_env sp device tag)
     in case map_of (ds_upstreams ds) uid of
          None \<Rightarrow> (case bind_needs sp sid key needs (add_binding key device uid ds g) of (g1, envs) \<Rightarrow> (g1, again # envs))
        | Some b \<Rightarrow>
            if is_session (snd key) \<and> ub_snapshot_received b then
              (let ds1 = all_awaiting (clear_stream (ds\<lparr>ds_upstreams := AList.update uid (reset_binding b) (ds_upstreams ds)\<rparr>))
               in case bind_needs sp sid key needs (put_stream key ds1 g) of (g1, envs) \<Rightarrow> (g1, again # envs))
            else bind_needs sp sid key needs (put_stream key ds g))"

definition subscribe_bind :: "wire \<Rightarrow> stamp \<Rightarrow> string \<Rightarrow> uuid \<Rightarrow> dkey \<Rightarrow> (uuid \<times> target_tag) list \<Rightarrow> hub \<Rightarrow> hub" where
  "subscribe_bind w sp sid c key needs g =
    (if \<not> connected c (hb_net g) then g
     else case bind_needs sp sid key needs g of (g1, envs) \<Rightarrow> send_all_to_bridges w envs g1)"

text \<open>
  Its second critical section: attach the subscriber, and replay if there is a snapshot.
\<close>

definition add_browser_stream :: "uuid \<Rightarrow> dkey \<Rightarrow> hub \<Rightarrow> hub" where
  "add_browser_stream c key g = g\<lparr>hb_browser_streams := AList.update c
     (List.insert key (case map_of (hb_browser_streams g) c of Some ks \<Rightarrow> ks | None \<Rightarrow> [])) (hb_browser_streams g)\<rparr>"

definition set_awaiting :: "bool \<Rightarrow> uuid \<Rightarrow> dstream \<Rightarrow> dstream" where
  "set_awaiting b c ds = (case map_of (ds_subscribers ds) c of
     None \<Rightarrow> ds | Some s \<Rightarrow> ds\<lparr>ds_subscribers := AList.update c (s\<lparr>su_awaiting_snapshot := b\<rparr>) (ds_subscribers ds)\<rparr>)"

definition replay_to :: "wire \<Rightarrow> stamp \<Rightarrow> uuid \<Rightarrow> dkey \<Rightarrow> string \<Rightarrow> dstream \<Rightarrow> hub \<Rightarrow> hub" where
  "replay_to w sp c key correlation ds g =
    (case send_window w sp (recovery_window ds) (ds_stream_id ds) (ds_epoch ds) correlation c (hb_net g) of
       (n, True) \<Rightarrow> put_stream key (set_awaiting False c ds) (g\<lparr>hb_net := n\<rparr>)
     | (n, False) \<Rightarrow> detach_failed_subscriber w sp key (g\<lparr>hb_net := n\<rparr>) c)"

definition subscribe_attach :: "wire \<Rightarrow> stamp \<Rightarrow> string \<Rightarrow> uuid \<Rightarrow> dkey \<Rightarrow> string \<Rightarrow> hub \<Rightarrow> hub" where
  "subscribe_attach w sp sid c key correlation g =
    (if \<not> connected c (hb_net g) then g
     else
       (let ds = stream_entry sid key g;
            has_snapshot = (ds_snapshots ds \<noteq> []);
            acked = (case map_of (ds_subscribers ds) c of Some s \<Rightarrow> su_acked s | None \<Rightarrow> 0);
            ds1 = ds\<lparr>ds_subscribers := AList.update c
              \<lparr>su_awaiting_snapshot = \<not> has_snapshot, su_acked = acked, su_correlation = correlation\<rparr> (ds_subscribers ds)\<rparr>;
            g1 = add_browser_stream c key (put_stream key ds1 g)
        in if has_snapshot then replay_to w sp c key correlation ds1 g1 else g1))"

definition browser_subscribe :: "wire \<Rightarrow> stamp \<Rightarrow> string \<Rightarrow> uuid \<Rightarrow> dkey \<Rightarrow> (uuid \<times> target_tag) list \<Rightarrow> string \<Rightarrow> hub \<Rightarrow> hub" where
  "browser_subscribe w sp sid c key needs correlation g =
     subscribe_attach w sp sid c key correlation (subscribe_bind w sp sid c key needs g)"

definition key_of_stream :: "string \<Rightarrow> hub \<Rightarrow> dkey option" where
  "key_of_stream sid g = map_option fst (List.find (\<lambda>(k, ds). ds_stream_id ds = sid) (hb_streams g))"

definition browser_unsubscribe :: "uuid \<Rightarrow> string \<Rightarrow> hub \<Rightarrow> hub" where
  "browser_unsubscribe c sid g = (case key_of_stream sid g of
     None \<Rightarrow> g
   | Some key \<Rightarrow>
       (let g1 = (case map_of (hb_streams g) key of Some ds \<Rightarrow> put_stream key (drop_subscriber c ds) g | None \<Rightarrow> g)
        in case map_of (hb_browser_streams g1) c of
             None \<Rightarrow> g1
           | Some ks \<Rightarrow> g1\<lparr>hb_browser_streams := AList.update c (removeAll key ks) (hb_browser_streams g1)\<rparr>))"

definition subscribe_envs :: "stamp \<Rightarrow> target_tag \<Rightarrow> uuid list \<Rightarrow> (uuid \<times> envelope) list" where
  "subscribe_envs sp tag devices = map (\<lambda>d. (d, upstream_subscribe_env sp d tag)) devices"

definition browser_resync :: "wire \<Rightarrow> stamp \<Rightarrow> uuid \<Rightarrow> string \<Rightarrow> string \<Rightarrow> hub \<Rightarrow> hub" where
  "browser_resync w sp c sid correlation g = (case key_of_stream sid g of
     None \<Rightarrow> g
   | Some key \<Rightarrow> (case map_of (hb_streams g) key of
       None \<Rightarrow> g
     | Some ds \<Rightarrow>
         if map_of (ds_subscribers ds) c = None then g
         else if is_session (snd key) \<or> ds_snapshots ds = [] then
           (case refresh_snapshot_envs False ds of
              (ds1, devices) \<Rightarrow> send_all_to_bridges w (subscribe_envs sp (snd key) devices) (put_stream key ds1 g))
         else if \<not> connected c (hb_net g) then g
         else replay_to w sp c key correlation ds g))"

definition browser_ack :: "uuid \<Rightarrow> string \<Rightarrow> nat \<Rightarrow> hub \<Rightarrow> hub" where
  "browser_ack c sid seq g = (case key_of_stream sid g of
     None \<Rightarrow> g
   | Some key \<Rightarrow> (case map_of (hb_streams g) key of
       None \<Rightarrow> g
     | Some ds \<Rightarrow> (case map_of (ds_subscribers ds) c of
         None \<Rightarrow> g
       | Some s \<Rightarrow> put_stream key (ds\<lparr>ds_subscribers := AList.update c (s\<lparr>su_acked := max (su_acked s) seq\<rparr>) (ds_subscribers ds)\<rparr>) g)))"

section \<open>From the bridges\<close>

text \<open>\<open>handle_upstream_subscribed\<close>: fix epoch and watermark; a changed epoch starts the stream over.\<close>

definition rebind_others :: "string \<Rightarrow> target_tag \<Rightarrow> dstream \<Rightarrow> dstream" where
  "rebind_others u tag ds =
    (let uids = map (\<lambda>(_, b). upstream_stream_id (ub_device b) tag) (filter (\<lambda>(v, _). v \<noteq> u) (ds_upstreams ds))
     in ds\<lparr>ds_upstreams := map (\<lambda>(v, b). (v, if v \<in> set uids then reset_binding b else b)) (ds_upstreams ds)\<rparr>)"

definition handle_upstream_subscribed :: "wire \<Rightarrow> stamp \<Rightarrow> string \<Rightarrow> subscribed \<Rightarrow> hub \<Rightarrow> hub" where
  "handle_upstream_subscribed w sp u sub g = (case map_of (hb_upstream_index g) u of
     None \<Rightarrow> g
   | Some key \<Rightarrow> (case map_of (hb_streams g) key of
       None \<Rightarrow> g
     | Some ds \<Rightarrow> (case map_of (ds_upstreams ds) u of
         None \<Rightarrow> g
       | Some b \<Rightarrow>
           (let changed = (ub_snapshot_received b \<and> ub_epoch b \<noteq> sb_stream_epoch sub);
                b1 = b\<lparr>ub_epoch := sb_stream_epoch sub, ub_last_seq := sb_base_sequence sub - 1,
                   ub_snapshot_covers := sb_base_sequence sub, ub_snapshot_received := False\<rparr>;
                ds1 = ds\<lparr>ds_upstreams := AList.update u b1 (ds_upstreams ds)\<rparr>;
                others = map (ub_device \<circ> snd) (filter (\<lambda>(v, _). v \<noteq> u) (ds_upstreams ds1))
            in if \<not> changed then put_stream key ds1 g
               else
                 (let ds2 = all_awaiting ((clear_stream ds1)\<lparr>ds_epoch := ds_epoch ds1 + 1\<rparr>);
                      n = tell_all w (resync_required_env sp (ds_stream_id ds)) (map fst (ds_subscribers ds2)) (hb_net g)
                  in send_all_to_bridges w (subscribe_envs sp (snd key) others)
                       (put_stream key (rebind_others u (snd key) ds2) (g\<lparr>hb_net := n\<rparr>)))))))"

text \<open>The events of a batch, one after the other: number, buffer, fan out.\<close>

fun fan_events :: "wire \<Rightarrow> stamp \<Rightarrow> envelope \<Rightarrow> event list \<Rightarrow> dstream \<Rightarrow> net \<Rightarrow> dstream \<times> net \<times> uuid list" where
  "fan_events w sp env [] ds n = (ds, n, [])"
| "fan_events w sp env (e # es) ds n =
    (case ds_append_event (wi_elen w) (sp_now sp) (base_envelope sp (ev_device_id env) PHeartbeat) env e ds of
       (ds1, f, out) \<Rightarrow>
         if out = OverflowReset
         then fan_events w sp env es ds1 (tell_all w (resync_required_env sp (ds_stream_id ds1)) (map fst (ds_subscribers ds1)) n)
         else (case fan_frame f (ds_subscribers ds1) n of (n1, slow) \<Rightarrow>
           case fan_events w sp env es ds1 n1 of (ds2, n2, slow2) \<Rightarrow> (ds2, n2, slow @ slow2)))"

definition agent_kind_name :: "int \<Rightarrow> string" where
  "agent_kind_name k = (if k = 0 then ''AGENT_KIND_UNSPECIFIED'' else if k = 1 then ''CODEX_DESKTOP''
     else if k = 2 then ''ZCODE_DESKTOP'' else ''AGENT_KIND_'' @ show_int k)"

definition event_target :: "wire \<Rightarrow> target_tag \<Rightarrow> event \<Rightarrow> (uuid \<times> string \<times> string) option" where
  "event_target w tag e = (case e of
     SessionSummaryChanged s \<Rightarrow> (case ssm_session_key s of
         None \<Rightarrow> None
       | Some k \<Rightarrow> map_option (\<lambda>d. (d, psk_native_session_id k, agent_kind_name (psk_agent_kind k))) (wi_uuid w (psk_device_id k)))
   | _ \<Rightarrow> (case tag of TSession d kind native \<Rightarrow> Some (d, native, agent_kind_name kind) | TList \<Rightarrow> None))"

definition event_triggers :: "wire \<Rightarrow> dkey \<Rightarrow> event list \<Rightarrow> push_trigger list" where
  "event_triggers w key es = concat (map (\<lambda>e. case event_target w (snd key) e of
     None \<Rightarrow> [] | Some (d, native, kind) \<Rightarrow> triggers_from_event (fst key) d kind native e) es)"

text \<open>Before the first snapshot events are stashed; too many critical ones start the recovery.\<close>

definition stash_events :: "wire \<Rightarrow> stamp \<Rightarrow> string \<Rightarrow> envelope \<Rightarrow> event list \<Rightarrow> dkey \<Rightarrow> dstream \<Rightarrow> hub \<Rightarrow> hub" where
  "stash_events w sp u env es key ds g =
    (case push_pending (wi_evlen w) \<lparr>pb_upstream_id = u, pb_upstream_seq = ev_sequence env, pb_sent_at = ev_sent_at env,
         pb_device_id = ev_device_id env, pb_events = es\<rparr> ds of
       (ds1, False) \<Rightarrow> put_stream key ds1 g
     | (ds1, True) \<Rightarrow>
         (let n = tell_all w (resync_required_env sp (ds_stream_id ds1)) (map fst (ds_subscribers ds1)) (hb_net g)
          in case refresh_snapshot_envs True ds1 of
               (ds2, devices) \<Rightarrow> send_all_to_bridges w (subscribe_envs sp (snd key) devices) (put_stream key ds2 (g\<lparr>hb_net := n\<rparr>))))"

definition fan_out_events :: "wire \<Rightarrow> stamp \<Rightarrow> string \<Rightarrow> envelope \<Rightarrow> event list \<Rightarrow> hub \<Rightarrow> hub \<times> push_trigger list" where
  "fan_out_events w sp u env es g = (case map_of (hb_upstream_index g) u of
     None \<Rightarrow> (g, [])
   | Some key \<Rightarrow> (case map_of (hb_streams g) key of
       None \<Rightarrow> (g, [])
     | Some ds \<Rightarrow> (case map_of (ds_upstreams ds) u of
         None \<Rightarrow> (g, [])
       | Some b \<Rightarrow>
           if ev_sequence env \<noteq> 0 \<and> ev_sequence env \<le> ub_last_seq b then (g, [])
           else if es = [] then (g, [])
           else if \<not> ub_snapshot_received b \<and> ds_snapshots ds = [] then (stash_events w sp u env es key ds g, [])
           else
             (let ds1 = (if ev_sequence env \<noteq> 0
                 then ds\<lparr>ds_upstreams := AList.update u (b\<lparr>ub_last_seq := ev_sequence env\<rparr>) (ds_upstreams ds)\<rparr> else ds)
              in case fan_events w sp env es ds1 (hb_net g) of (ds2, n, slow) \<Rightarrow>
                   (foldl (detach_failed_subscriber w sp key) (put_stream key ds2 (g\<lparr>hb_net := n\<rparr>)) slow, event_triggers w key es)))))"

text \<open>
  \<open>handle_upstream_snapshot\<close>: waiting subscribers get the replay window, active ones the snapshot as
  their next frame; then the batches stashed so far, unless their snapshot covers them.
\<close>

fun flush_subs :: "wire \<Rightarrow> stamp \<Rightarrow> dstream \<Rightarrow> (uuid \<times> subscriber_state) list \<Rightarrow> net \<Rightarrow>
    (uuid \<times> subscriber_state) list \<times> net \<times> uuid list" where
  "flush_subs w sp ds [] n = ([], n, [])"
| "flush_subs w sp ds ((c, s) # subs) n =
    (if \<not> connected c n then (case flush_subs w sp ds subs n of (subs', n', bad) \<Rightarrow> ((c, s) # subs', n', bad))
     else if su_awaiting_snapshot s then
       (case send_window w sp (recovery_window ds) (ds_stream_id ds) (ds_epoch ds) (su_correlation s) c n of
          (n1, True) \<Rightarrow> (case flush_subs w sp ds subs n1 of (subs', n', bad) \<Rightarrow> ((c, s\<lparr>su_awaiting_snapshot := False\<rparr>) # subs', n', bad))
        | (n1, False) \<Rightarrow> (case flush_subs w sp ds subs n1 of (subs', n', bad) \<Rightarrow> ((c, s) # subs', n', c # bad)))
     else
       (case net_frame (last (ds_snapshots ds)) c n of
          (n1, Inr _) \<Rightarrow> (case flush_subs w sp ds subs n1 of (subs', n', bad) \<Rightarrow> ((c, s) # subs', n', bad))
        | (n1, Inl _) \<Rightarrow> (case flush_subs w sp ds subs n1 of (subs', n', bad) \<Rightarrow> ((c, s) # subs', n', c # bad))))"

definition batch_covered :: "dkey \<Rightarrow> pending_batch \<Rightarrow> hub \<Rightarrow> bool" where
  "batch_covered key pb g =
    (let covers = (case map_of (hb_streams g) key of
           None \<Rightarrow> 0
         | Some ds \<Rightarrow> (case map_of (ds_upstreams ds) (pb_upstream_id pb) of Some b \<Rightarrow> ub_snapshot_covers b | None \<Rightarrow> 0))
     in pb_upstream_seq pb \<noteq> 0 \<and> pb_upstream_seq pb \<le> covers)"

fun flush_pending :: "wire \<Rightarrow> stamp \<Rightarrow> dkey \<Rightarrow> pending_batch list \<Rightarrow> hub \<Rightarrow> hub \<times> push_trigger list" where
  "flush_pending w sp key [] g = (g, [])"
| "flush_pending w sp key (pb # pbs) g =
    (if batch_covered key pb g then flush_pending w sp key pbs g
     else
       (let env = (base_envelope sp (pb_device_id pb) (PEventBatch \<lparr>eb_stream_id = [], eb_events = []\<rparr>))
              \<lparr>ev_sequence := pb_upstream_seq pb, ev_sent_at := pb_sent_at pb\<rparr>
        in case fan_out_events w sp (pb_upstream_id pb) env (pb_events pb) g of (g1, ts) \<Rightarrow>
             case flush_pending w sp key pbs g1 of (g2, ts2) \<Rightarrow> (g2, ts @ ts2)))"

definition handle_upstream_snapshot :: "wire \<Rightarrow> stamp \<Rightarrow> string \<Rightarrow> envelope \<Rightarrow> hub \<Rightarrow> hub \<times> push_trigger list" where
  "handle_upstream_snapshot w sp u env g = (case map_of (hb_upstream_index g) u of
     None \<Rightarrow> (g, [])
   | Some key \<Rightarrow> (case map_of (hb_streams g) key of
       None \<Rightarrow> (g, [])
     | Some ds \<Rightarrow> (case ds_apply_snapshot (wi_elen w) (sp_now sp) u env ds of
         None \<Rightarrow> (g, [])
       | Some ds1 \<Rightarrow> (case flush_subs w sp ds1 (ds_subscribers ds1) (hb_net g) of (subs, n, bad) \<Rightarrow>
           flush_pending w sp key (ds_pending ds)
             (foldl (detach_failed_subscriber w sp key) (put_stream key (ds1\<lparr>ds_subscribers := subs\<rparr>) (g\<lparr>hb_net := n\<rparr>)) bad)))))"

text \<open>A bridge that asks for a resynchronisation.\<close>

definition upstream_resync :: "wire \<Rightarrow> stamp \<Rightarrow> uuid \<Rightarrow> string \<Rightarrow> hub \<Rightarrow> hub" where
  "upstream_resync w sp device u g = (case map_of (hb_upstream_index g) u of
     None \<Rightarrow> g
   | Some key \<Rightarrow> (case map_of (hb_streams g) key of
       None \<Rightarrow> g
     | Some ds \<Rightarrow> (case map_of (ds_upstreams ds) u of
         None \<Rightarrow> g
       | Some b \<Rightarrow> fst (send_to_bridge w device (upstream_subscribe_env sp (ub_device b) (snd key))
           (put_stream key (ds\<lparr>ds_upstreams := AList.update u (b\<lparr>ub_snapshot_received := False\<rparr>) (ds_upstreams ds)\<rparr>) g)))))"

text \<open>Presence, for every list stream of the owner.\<close>

definition presence_event :: "stamp \<Rightarrow> uuid \<Rightarrow> bool \<Rightarrow> event" where
  "presence_event sp device online = DevicePresenceChanged (Some \<lparr>dp_device_id = device,
     dp_connection = (if online then 2 else 4), dp_last_seen_at = sp_sent_at sp, dp_degraded_reason = []\<rparr>)"

definition presence_frame :: "wire \<Rightarrow> stamp \<Rightarrow> uuid \<Rightarrow> bool \<Rightarrow> dstream \<Rightarrow> frame" where
  "presence_frame w sp device online ds = frame_new (wi_elen w) (sp_now sp)
     ((base_envelope sp device (PEventBatch \<lparr>eb_stream_id = ds_stream_id ds,
         eb_events = [\<lparr>de_emitted_at = sp_sent_at sp, de_event = Some (presence_event sp device online)\<rparr>]\<rparr>))
       \<lparr>ev_stream_id := ds_stream_id ds, ev_stream_epoch := ds_epoch ds, ev_sequence := ds_next_seq ds\<rparr>) Critical None"

definition presence_one :: "wire \<Rightarrow> stamp \<Rightarrow> uuid \<Rightarrow> bool \<Rightarrow> hub \<Rightarrow> dkey \<Rightarrow> hub" where
  "presence_one w sp device online g key = (case map_of (hb_streams g) key of
     None \<Rightarrow> g
   | Some ds \<Rightarrow>
       if ds_snapshots ds = [] \<and> list_all (\<lambda>(c, s). su_awaiting_snapshot s) (ds_subscribers ds) then g
       else
         (let f = presence_frame w sp device online ds;
              ds1 = ds\<lparr>ds_next_seq := ds_next_seq ds + 1, ds_buffer := fst (stream_buffer_insert (wi_elen w) (sp_now sp) f (ds_buffer ds))\<rparr>
          in case fan_frame f (ds_subscribers ds1) (hb_net g) of (n, slow) \<Rightarrow>
               foldl (detach_failed_subscriber w sp key) (put_stream key ds1 (g\<lparr>hb_net := n\<rparr>)) slow))"

definition fan_out_presence :: "wire \<Rightarrow> stamp \<Rightarrow> uuid \<Rightarrow> uuid \<Rightarrow> bool \<Rightarrow> hub \<Rightarrow> hub" where
  "fan_out_presence w sp device owner online g =
     foldl (presence_one w sp device online) g (filter (\<lambda>(o', tag). o' = owner \<and> tag = TList) (map fst (hb_streams g)))"

section \<open>Queries, commands and memory\<close>

definition register_query :: "string \<Rightarrow> hub \<Rightarrow> hub" where
  "register_query correlation g = g\<lparr>hb_queries := List.insert correlation (hb_queries g)\<rparr>"

definition remove_query :: "string \<Rightarrow> hub \<Rightarrow> hub" where
  "remove_query correlation g = g\<lparr>hb_queries := removeAll correlation (hb_queries g)\<rparr>"

text \<open>\<open>device_query\<close> up to the wait for the answer, and the end of that wait.\<close>

definition query_begin :: "wire \<Rightarrow> stamp \<Rightarrow> uuid \<Rightarrow> query_request \<Rightarrow> hub \<Rightarrow> hub \<times> (wire_code + string)" where
  "query_begin w sp device request g =
    (if \<not> is_online device g then (g, Inl (Wc DeviceOffline))
     else
       (let correlation = sp_correlation sp;
            env = (base_envelope sp device (PQueryRequest request))\<lparr>ev_correlation_id := correlation\<rparr>
        in case send_to_bridge w device env (register_query correlation g) of
             (g1, True) \<Rightarrow> (g1, Inr correlation)
           | (g1, False) \<Rightarrow> (remove_query correlation g1, Inl (Wc DeviceOffline))))"

definition query_end :: "string \<Rightarrow> query_response option \<Rightarrow> hub \<Rightarrow> hub \<times> (wire_code + query_response)" where
  "query_end correlation answer g = (case answer of
     Some r \<Rightarrow> (g, Inr r) | None \<Rightarrow> (remove_query correlation g, Inl (Wc CodexUnavailable)))"

text \<open>\<open>QueryResponse\<close> from the bridge: whether somebody waits for it.\<close>

definition query_answered :: "query_response \<Rightarrow> hub \<Rightarrow> hub \<times> bool" where
  "query_answered r g = (remove_query (qre_request_id r) g, qre_request_id r \<in> set (hb_queries g))"

definition register_command :: "string \<Rightarrow> uuid \<Rightarrow> uuid \<Rightarrow> string \<Rightarrow> nat \<Rightarrow> hub \<Rightarrow> hub" where
  "register_command rid c device operation now g = g\<lparr>hb_commands := AList.update rid
     \<lparr>pc_conn_id = c, pc_device = device, pc_operation = operation, pc_started_at = now\<rparr> (hb_commands g)\<rparr>"

definition take_command :: "string \<Rightarrow> hub \<Rightarrow> hub" where
  "take_command rid g = g\<lparr>hb_commands := AList.delete rid (hb_commands g)\<rparr>"

definition GLOBAL_BUFFER_MAX_BYTES :: nat where "GLOBAL_BUFFER_MAX_BYTES = 256 * 1024 * 1024"

definition charged :: "dstream \<Rightarrow> nat" where
  "charged ds = sb_bytes (ds_buffer ds) + ds_pending_bytes ds"

fun worst_stream :: "(dkey \<times> nat) option \<Rightarrow> (dkey \<times> dstream) list \<Rightarrow> (dkey \<times> nat) option" where
  "worst_stream acc [] = acc"
| "worst_stream acc ((k, ds) # xs) =
     worst_stream (case acc of Some (k', b) \<Rightarrow> if charged ds > b then Some (k, charged ds) else acc | None \<Rightarrow> Some (k, charged ds)) xs"

definition collect_streams :: "hub \<Rightarrow> hub" where
  "collect_streams g =
    (let gone = concat (map (\<lambda>(k, ds). map fst (ds_upstreams ds)) (filter (\<lambda>(k, ds). ds_subscribers ds = []) (hb_streams g)))
     in g\<lparr>hb_streams := filter (\<lambda>(k, ds). ds_subscribers ds \<noteq> []) (hb_streams g),
          hb_upstream_index := filter (\<lambda>(u, k). u \<notin> set gone) (hb_upstream_index g)\<rparr>)"

definition sweep_global_memory :: "wire \<Rightarrow> stamp \<Rightarrow> hub \<Rightarrow> hub" where
  "sweep_global_memory w sp g =
    (let g1 = collect_streams g;
         total = sum_list (map (charged \<circ> snd) (hb_streams g1)) +
           sum_list (map (\<lambda>(c, i). ob_bytes (nw_box (hb_net g1) c)) (nw_browsers (hb_net g1)));
         g2 = g1\<lparr>hb_global_buffer_bytes := total\<rparr>
     in if total > GLOBAL_BUFFER_MAX_BYTES then
          (case worst_stream None (hb_streams g2) of
             None \<Rightarrow> g2
           | Some (key, _) \<Rightarrow> (case map_of (hb_streams g2) key of
               None \<Rightarrow> g2
             | Some ds \<Rightarrow> (put_stream key (clear_stream ds) g2)\<lparr>hb_net :=
                 tell_all w (resync_required_env sp (ds_stream_id ds)) (map fst (ds_subscribers ds)) (hb_net g2)\<rparr>))
        else g2)"

section \<open>From the browsers\<close>

definition send_protocol_error :: "wire \<Rightarrow> stamp \<Rightarrow> wire_code \<Rightarrow> string \<Rightarrow> uuid \<Rightarrow> hub \<Rightarrow> hub" where
  "send_protocol_error w sp code msg c g = g\<lparr>hb_net := net_tell w (base_envelope sp [] (PProtocolError
     \<lparr>pte_error_code = wire_number code, pte_message = msg, pte_request_id = [], pte_stream_id = [], pte_details = []\<rparr>)) c (hb_net g)\<rparr>"

definition MSG_NO_SESSION :: string where
  "MSG_NO_SESSION = utf8_bytes [228, 188, 154, 232, 175, 157, 228, 184, 141, 229, 173, 152, 229, 156, 168]"

definition MSG_OFFLINE :: string where
  "MSG_OFFLINE = utf8_bytes [232, 174, 190, 229, 164, 135, 231, 166, 187, 231, 186, 191]"

definition MSG_UNSUPPORTED :: string where
  "MSG_UNSUPPORTED = utf8_bytes [228, 184, 141, 230, 148, 175, 230, 140, 129, 231, 154, 132, 230, 182, 136, 230, 129, 175, 231, 177, 187, 229, 158, 139]"

text \<open>\<open>owned\<close> is the database's answer: the device exists, is not revoked and belongs to the user.\<close>

definition on_browser_subscribe :: "wire \<Rightarrow> stamp \<Rightarrow> string \<Rightarrow> uuid \<Rightarrow> subscribe_target option \<Rightarrow> bool \<Rightarrow> string \<Rightarrow> hub \<Rightarrow> hub" where
  "on_browser_subscribe w sp sid c target owned correlation g = (case map_of (nw_browsers (hb_net g)) c of
     None \<Rightarrow> g
   | Some ident \<Rightarrow> (case target of
       None \<Rightarrow> g
     | Some SubList \<Rightarrow> browser_subscribe w sp sid c (bi_owner_id ident, TList)
         (map (\<lambda>d. (d, TList)) (online_devices_of_owner (bi_owner_id ident) g)) correlation g
     | Some (SubSession k) \<Rightarrow> (case wi_uuid w (psk_device_id k) of
         None \<Rightarrow> send_protocol_error w sp (Wc SessionNotFound) MSG_NO_SESSION c g
       | Some device \<Rightarrow>
           if \<not> owned then send_protocol_error w sp (Wc SessionNotFound) MSG_NO_SESSION c g
           else if \<not> is_online device g then send_protocol_error w sp (Wc DeviceOffline) MSG_OFFLINE c g
           else (let tag = TSession device (psk_agent_kind k) (psk_native_session_id k)
                 in browser_subscribe w sp sid c (bi_owner_id ident, tag) [(device, tag)] correlation g))))"

section \<open>The hub at work\<close>

text \<open>What the hub sends as a direct reply, outside any stream.\<close>

fun is_reply :: "payload \<Rightarrow> bool" where
  "is_reply (PCommandAccepted _) = True"
| "is_reply (PCommandResult _) = True"
| "is_reply (PProtocolError _) = True"
| "is_reply PHeartbeatAck = True"
| "is_reply _ = False"

text \<open>
  One step takes the mutex once, or is a step of a connection's own task. New identities
  are fresh (they are random), and identities are at most 64 characters long.
\<close>

datatype hub_op =
    HRegister uuid browser_identity nat nat
  | HCloseBrowser uuid string
  | HCloseAll string
  | HRemoveBrowser uuid
  | HBrowserTakes uuid
  | HBridgeInsert uuid bridge_conn
  | HEnsure stamp uuid uuid
  | HSendBridge uuid envelope
  | HForceClose uuid
  | HRemoveBridge stamp uuid
  | HBridgeTakes uuid
  | HBridgeGone uuid
  | HSubscribeBind stamp string uuid target_tag "(uuid \<times> target_tag) list"
  | HSubscribeAttach stamp string uuid target_tag string
  | HUnsubscribe uuid string
  | HResync stamp uuid string string
  | HAck uuid string nat
  | HSubscribed stamp string subscribed
  | HSnapshot stamp string envelope
  | HEvents stamp string envelope "event list"
  | HUpstreamResync stamp uuid string
  | HPresence stamp uuid uuid bool
  | HSweep stamp
  | HShutdown stamp
  | HDegraded "nat option"
  | HReply stamp string payload uuid
  | HRegisterQuery string
  | HRemoveQuery string
  | HRegisterCommand string uuid uuid string nat
  | HTakeCommand string

definition unused_conn :: "uuid \<Rightarrow> hub \<Rightarrow> bool" where
  "unused_conn c g \<longleftrightarrow> \<not> connected c (hb_net g) \<and> list_all (\<lambda>(k, ds). map_of (ds_subscribers ds) c = None) (hb_streams g)"

definition good_sid :: "string \<Rightarrow> hub \<Rightarrow> bool" where
  "good_sid sid g \<longleftrightarrow> length sid \<le> 64 \<and> list_all (\<lambda>(k, ds). ds_stream_id ds \<noteq> sid) (hb_streams g)"

abbreviation good_stamp :: "stamp \<Rightarrow> bool" where
  "good_stamp sp \<equiv> length (sp_message_id sp) \<le> 64"

definition take_item :: "uuid \<Rightarrow> net \<Rightarrow> net" where
  "take_item c n = n\<lparr>nw_box := (nw_box n)(c := fst (outbox_recv (nw_box n c)))\<rparr>"

definition change_bridge :: "uuid \<Rightarrow> (bridge_conn \<Rightarrow> bridge_conn) \<Rightarrow> hub \<Rightarrow> hub" where
  "change_bridge device h g = (case map_of (hb_bridges g) device of None \<Rightarrow> g | Some b \<Rightarrow> bridge_insert device (h b) g)"

definition with_owner :: "uuid \<Rightarrow> (uuid \<Rightarrow> hub \<Rightarrow> hub) \<Rightarrow> hub \<Rightarrow> hub" where
  "with_owner c h g = (case map_of (nw_browsers (hb_net g)) c of None \<Rightarrow> g | Some i \<Rightarrow> h (bi_owner_id i) g)"

fun hub_step :: "wire \<Rightarrow> hub \<Rightarrow> hub_op \<Rightarrow> hub" where
  "hub_step w g (HRegister c ident cap mb) = (if unused_conn c g then register_browser c ident (outbox_new cap mb) g else g)"
| "hub_step w g (HCloseBrowser c reason) = close_browser c reason g"
| "hub_step w g (HCloseAll reason) = close_all_browsers reason g"
| "hub_step w g (HRemoveBrowser c) = remove_browser c g"
| "hub_step w g (HBrowserTakes c) = g\<lparr>hb_net := take_item c (hb_net g)\<rparr>"
| "hub_step w g (HBridgeInsert device b) = bridge_insert device b g"
| "hub_step w g (HEnsure sp device owner) = fst (ensure_bindings sp device owner g)"
| "hub_step w g (HSendBridge device e) = fst (send_to_bridge w device e g)"
| "hub_step w g (HForceClose device) = force_close_bridge device g"
| "hub_step w g (HRemoveBridge sp device) = fst (remove_bridge w sp device g)"
| "hub_step w g (HBridgeTakes device) = change_bridge device (\<lambda>b. b\<lparr>bn_queue := tl (bn_queue b)\<rparr>) g"
| "hub_step w g (HBridgeGone device) = change_bridge device (\<lambda>b. b\<lparr>bn_open := False\<rparr>) g"
| "hub_step w g (HSubscribeBind sp sid c tag needs) =
     (if good_sid sid g then with_owner c (\<lambda>owner. subscribe_bind w sp sid c (owner, tag) needs) g else g)"
| "hub_step w g (HSubscribeAttach sp sid c tag correlation) =
     (if good_sid sid g then with_owner c (\<lambda>owner. subscribe_attach w sp sid c (owner, tag) correlation) g else g)"
| "hub_step w g (HUnsubscribe c sid) = browser_unsubscribe c sid g"
| "hub_step w g (HResync sp c sid correlation) = browser_resync w sp c sid correlation g"
| "hub_step w g (HAck c sid seq) = browser_ack c sid seq g"
| "hub_step w g (HSubscribed sp u sub) = (if good_stamp sp then handle_upstream_subscribed w sp u sub g else g)"
| "hub_step w g (HSnapshot sp u env) = (if good_stamp sp then fst (handle_upstream_snapshot w sp u env g) else g)"
| "hub_step w g (HEvents sp u env es) = (if good_stamp sp then fst (fan_out_events w sp u env es g) else g)"
| "hub_step w g (HUpstreamResync sp device u) = upstream_resync w sp device u g"
| "hub_step w g (HPresence sp device owner online) = fan_out_presence w sp device owner online g"
| "hub_step w g (HSweep sp) = (if good_stamp sp then sweep_global_memory w sp g else g)"
| "hub_step w g (HShutdown sp) = fst (begin_shutdown w sp g)"
| "hub_step w g (HDegraded d) = set_degraded d g"
| "hub_step w g (HReply sp device p c) =
     (if is_reply p then g\<lparr>hb_net := net_tell w (base_envelope sp device p) c (hb_net g)\<rparr> else g)"
| "hub_step w g (HRegisterQuery correlation) = register_query correlation g"
| "hub_step w g (HRemoveQuery correlation) = remove_query correlation g"
| "hub_step w g (HRegisterCommand rid c device operation now) = register_command rid c device operation now g"
| "hub_step w g (HTakeCommand rid) = take_command rid g"

end
