(* ===== verification/Hub_Order.thy ===== *)
theory Hub_Order
  imports Hub
begin

text \<open>
  What the browsers are sent. An active subscriber of a stream has been sent, after its latest
  Subscribed message, a strictly ascending replay window and then every live frame of the stream,
  consecutively and up to the newest one, unless it has been told since that it has to resynchronise.
  The proof follows one stream at a time: messages for other streams do not matter to it.
\<close>

section \<open>A subscriber's place in a stream\<close>

datatype sub_place = Outside | Told | Since nat "frame list"

fun place_step :: "string \<Rightarrow> sub_place \<Rightarrow> sent \<Rightarrow> sub_place" where
  "place_step sid p (SentFrame f) = (if ev_stream_id (f_env f) = sid then
     (case p of Since b fs \<Rightarrow> Since b (fs @ [f]) | _ \<Rightarrow> p) else p)"
| "place_step sid p (SentDirect e) = (case ev_payload e of
     Some (PSubscribed s) \<Rightarrow> if sb_stream_id s = sid then Since (sb_base_sequence s) [] else p
   | Some (PResyncRequired r) \<Rightarrow> if rr_stream_id r = sid then Told else p
   | _ \<Rightarrow> p)"

definition place :: "string \<Rightarrow> sent list \<Rightarrow> sub_place" where
  "place sid log = foldl (place_step sid) Outside log"

lemma place_snoc [simp]: "place sid (log @ [x]) = place_step sid (place sid log) x"
  by (simp add: place_def)

text \<open>The window \<open>ws\<close> that was replayed, and the live frames from number \<open>m\<close> to before \<open>nxt\<close>.\<close>

fun in_step :: "nat \<Rightarrow> sub_place \<Rightarrow> bool" where
  "in_step nxt Outside \<longleftrightarrow> False"
| "in_step nxt Told \<longleftrightarrow> True"
| "in_step nxt (Since b fs) \<longleftrightarrow> (\<exists>ws ls m. fs = ws @ ls \<and> m \<le> nxt \<and> sorted_wrt (<) (map f_seq ws) \<and>
     (\<forall>f\<in>set ws. b \<le> f_seq f \<and> f_seq f < m) \<and> map f_seq ls = [m..<nxt])"

lemma in_step_frame:
  assumes "in_step nxt p" "ev_stream_id (f_env f) = sid" "f_seq f = nxt"
  shows "in_step (Suc nxt) (place_step sid p (SentFrame f))"
proof (cases p)
  case (Since b fs)
  then obtain ws ls m where w: "fs = ws @ ls" "m \<le> nxt" "sorted_wrt (<) (map f_seq ws)"
    "\<forall>f\<in>set ws. b \<le> f_seq f \<and> f_seq f < m" "map f_seq ls = [m..<nxt]"
    using assms(1) by auto
  then have "fs @ [f] = ws @ (ls @ [f])" "m \<le> Suc nxt" "map f_seq (ls @ [f]) = [m..<Suc nxt]"
    using assms(3) by simp_all
  then have "in_step (Suc nxt) (Since b (fs @ [f]))" using w(3,4) unfolding in_step.simps by blast
  then show ?thesis using Since assms(2) by simp
qed (use assms in auto)

lemma in_step_window: "window_ok ds (b, fs) \<Longrightarrow> in_step (ds_next_seq ds) (Since b fs)"
proof -
  assume "window_ok ds (b, fs)"
  then have "fs = fs @ [] \<and> ds_next_seq ds \<le> ds_next_seq ds \<and> sorted_wrt (<) (map f_seq fs) \<and>
    (\<forall>f\<in>set fs. b \<le> f_seq f \<and> f_seq f < ds_next_seq ds) \<and> map f_seq [] = [ds_next_seq ds..<ds_next_seq ds]"
    by (simp add: window_ok_def list_all_iff)
  then show ?thesis unfolding in_step.simps by blast
qed

section \<open>Single messages\<close>

definition live :: "net \<Rightarrow> uuid \<Rightarrow> bool" where
  "live n c \<longleftrightarrow> connected c n \<and> \<not> ob_closed (nw_box n c)"

text \<open>A change that does not matter to the followers of stream \<open>sid\<close>.\<close>

definition quiet :: "string \<Rightarrow> net \<Rightarrow> net \<Rightarrow> bool" where
  "quiet sid n n' \<longleftrightarrow> nw_browsers n' = nw_browsers n \<and>
     (\<forall>c. live n' c \<longrightarrow> live n c \<and> place sid (nw_log n' c) = place sid (nw_log n c))"

lemma quiet_refl [simp]: "quiet sid n n"
  by (simp add: quiet_def)

lemma quiet_trans: "quiet sid n n1 \<Longrightarrow> quiet sid n1 n2 \<Longrightarrow> quiet sid n n2"
  by (auto simp: quiet_def)

definition about :: "envelope \<Rightarrow> string option" where
  "about e = (case ev_payload e of Some (PSubscribed s) \<Rightarrow> Some (sb_stream_id s)
     | Some (PResyncRequired r) \<Rightarrow> Some (rr_stream_id r) | _ \<Rightarrow> None)"

lemma about_envs [simp]:
  "about (resync_required_env sp sid) = Some sid" "about (subscribed_env sp sid ep b corr) = Some sid"
  by (simp_all add: about_def resync_required_env_def subscribed_env_def base_envelope_def)

lemma about_reply: "is_reply p \<Longrightarrow> about (base_envelope sp d p) = None"
  by (cases p) (simp_all add: about_def base_envelope_def)

lemma place_other: "about e \<noteq> Some sid \<Longrightarrow> place_step sid p (SentDirect e) = p"
  by (auto simp: about_def split: option.splits payload.splits)

lemma closed_stays:
  "ob_closed b \<Longrightarrow> ob_closed (fst (push_direct bs b))" "ob_closed b \<Longrightarrow> ob_closed (fst (push_frame f b))"
  "ob_closed (outbox_close r b)" "ob_closed (fst (outbox_recv b)) = ob_closed b"
  by (auto simp: push_direct_def push_frame_def outbox_close_def outbox_recv_def Let_def split: list.splits out_item.splits)

lemma net_direct_facts:
  assumes "net_direct w e c n = (n', ok)"
  shows "nw_browsers n' = nw_browsers n" "c' \<noteq> c \<Longrightarrow> nw_box n' c' = nw_box n c'" "c' \<noteq> c \<Longrightarrow> nw_log n' c' = nw_log n c'"
    "nw_log n' c = nw_log n c @ (if ok then [SentDirect e] else [])" "live n' c' \<Longrightarrow> live n c'"
    "encode_direct w e \<noteq> [] \<Longrightarrow> live n' c \<Longrightarrow> ok"
  using assms by (auto simp: net_direct_def log_sent_def live_def Let_def push_direct_def outbox_close_def split: prod.splits if_splits)

lemma net_frame_facts:
  assumes "net_frame f c n = (n', r)"
  shows "nw_browsers n' = nw_browsers n" "c' \<noteq> c \<Longrightarrow> nw_box n' c' = nw_box n c'" "c' \<noteq> c \<Longrightarrow> nw_log n' c' = nw_log n c'"
    "nw_log n' c = nw_log n c @ (case r of Inr _ \<Rightarrow> [SentFrame f] | Inl _ \<Rightarrow> [])" "live n' c' \<Longrightarrow> live n c'"
    "r = Inl Closed \<Longrightarrow> \<not> live n' c"
  using assms by (auto simp: net_frame_def log_sent_def live_def push_frame_def split: prod.splits if_splits sum.splits)

lemma quiet_direct:
  assumes "net_direct w e c n = (n', ok)" "about e \<noteq> Some sid"
  shows "quiet sid n n'"
proof -
  have "place sid (nw_log n' c') = place sid (nw_log n c')" for c'
    using net_direct_facts(3,4) [OF assms(1)] place_other [OF assms(2)] by (cases "c' = c") auto
  then show ?thesis using net_direct_facts(1,5) [OF assms(1)] by (simp add: quiet_def)
qed

lemma quiet_frame:
  assumes "net_frame f c n = (n', r)" "ev_stream_id (f_env f) \<noteq> sid"
  shows "quiet sid n n'"
proof -
  have "place sid (nw_log n' c') = place sid (nw_log n c')" for c'
    using net_frame_facts(3,4) [OF assms(1)] assms(2) by (cases "c' = c"; cases r) auto
  then show ?thesis using net_frame_facts(1,5) [OF assms(1)] by (simp add: quiet_def)
qed

lemma quiet_close: "quiet sid n (net_close r c n)"
  by (auto simp: quiet_def net_close_def live_def closed_stays split: if_splits)

lemma quiet_take: "quiet sid n (take_item c n)"
  by (auto simp: quiet_def take_item_def live_def closed_stays split: if_splits)

lemma quiet_tell: "about e \<noteq> Some sid \<Longrightarrow> quiet sid n (net_tell w e c n)"
  using quiet_direct [of w e c n "fst (net_direct w e c n)" "snd (net_direct w e c n)" sid] by (auto simp: net_tell_def)

lemma quiet_foldl: "(\<And>x n. x \<in> set xs \<Longrightarrow> quiet sid n (h n x)) \<Longrightarrow> quiet sid n (foldl h n xs)"
  by (induction xs arbitrary: n) (auto intro: quiet_trans)

lemma quiet_tell_all: "about e \<noteq> Some sid \<Longrightarrow> quiet sid n (tell_all w e cs n)"
  unfolding tell_all_def by (rule quiet_foldl) (rule quiet_tell)

lemma quiet_settle: "quiet sid n (settle_commands w sp ps n)"
  unfolding settle_commands_def
  by (rule quiet_foldl) (auto simp: outcome_unknown_def about_reply intro: quiet_tell)

section \<open>The followers of one stream\<close>

text \<open>\<open>xs\<close> are subscribers that are about to be detached.\<close>

definition follows :: "uuid set \<Rightarrow> net \<Rightarrow> dstream \<Rightarrow> bool" where
  "follows xs n ds \<longleftrightarrow> (\<forall>(c, s)\<in>set (ds_subscribers ds). c \<notin> xs \<and> \<not> su_awaiting_snapshot s \<and> live n c \<longrightarrow>
     in_step (ds_next_seq ds) (place (ds_stream_id ds) (nw_log n c)))"

lemma followsD: "follows xs n ds \<Longrightarrow> (c, s) \<in> set (ds_subscribers ds) \<Longrightarrow> c \<notin> xs \<Longrightarrow> \<not> su_awaiting_snapshot s \<Longrightarrow> live n c \<Longrightarrow>
    in_step (ds_next_seq ds) (place (ds_stream_id ds) (nw_log n c))"
  by (auto simp: follows_def)

lemma followsI:
  "(\<And>c s. (c, s) \<in> set (ds_subscribers ds) \<Longrightarrow> c \<notin> xs \<Longrightarrow> \<not> su_awaiting_snapshot s \<Longrightarrow> live n c \<Longrightarrow>
     in_step (ds_next_seq ds) (place (ds_stream_id ds) (nw_log n c))) \<Longrightarrow> follows xs n ds"
  by (auto simp: follows_def)

lemma follows_quiet: "follows xs n ds \<Longrightarrow> quiet (ds_stream_id ds) n n' \<Longrightarrow> follows xs n' ds"
  by (fastforce simp: follows_def quiet_def)

lemma follows_same:
  "follows xs n ds \<Longrightarrow> set (ds_subscribers ds') \<subseteq> set (ds_subscribers ds) \<Longrightarrow> ds_stream_id ds' = ds_stream_id ds \<Longrightarrow>
     ds_next_seq ds' = ds_next_seq ds \<Longrightarrow> follows xs n ds'"
  by (auto simp: follows_def)

lemma follows_awaiting: "(\<And>c s. (c, s) \<in> set (ds_subscribers ds) \<Longrightarrow> su_awaiting_snapshot s) \<Longrightarrow> follows xs n ds"
  by (force simp: follows_def)

text \<open>The codec encodes the short message that asks for a resynchronisation.\<close>

definition wire_ok :: "wire \<Rightarrow> bool" where
  "wire_ok w \<longleftrightarrow> (\<forall>sp sid. length (sp_message_id sp) \<le> 64 \<and> length sid \<le> 64 \<longrightarrow> encode_direct w (resync_required_env sp sid) \<noteq> [])"

lemma tell_one:
  assumes "encode_direct w (resync_required_env sp sid) \<noteq> []" "live (net_tell w (resync_required_env sp sid) c n) c'"
  shows "live n c'" "c' = c \<Longrightarrow> place sid (nw_log (net_tell w (resync_required_env sp sid) c n) c') = Told"
    "c' \<noteq> c \<Longrightarrow> nw_log (net_tell w (resync_required_env sp sid) c n) c' = nw_log n c'"
proof -
  let ?e = "resync_required_env sp sid"
  obtain n' ok where d: "net_direct w ?e c n = (n', ok)" by fastforce
  note f = net_direct_facts [OF d]
  show "live n c'" using assms(2) f(5) d by (auto simp: net_tell_def split: if_splits)
  show "c' \<noteq> c \<Longrightarrow> nw_log (net_tell w ?e c n) c' = nw_log n c'" using f(3) d by (simp add: net_tell_def)
  assume c: "c' = c"
  have con: "connected c n" using assms(2) c by (auto simp: net_tell_def live_def split: if_splits)
  then have "ok" using f(6) assms c d by (simp add: net_tell_def)
  then have "nw_log (net_tell w ?e c n) c = nw_log n c @ [SentDirect ?e]" using con d f(4) by (simp add: net_tell_def)
  then show "place sid (nw_log (net_tell w ?e c n) c') = Told"
    using c by (simp add: resync_required_env_def base_envelope_def)
qed

lemma tell_all_told:
  assumes "encode_direct w (resync_required_env sp sid) \<noteq> []" "live (tell_all w (resync_required_env sp sid) cs n) c"
  shows "live n c \<and> (if c \<in> set cs then place sid (nw_log (tell_all w (resync_required_env sp sid) cs n) c) = Told
      else nw_log (tell_all w (resync_required_env sp sid) cs n) c = nw_log n c)"
  using assms(2) unfolding tell_all_def
proof (induction cs rule: rev_induct)
  case (snoc x cs)
  let ?n = "foldl (\<lambda>n c. net_tell w (resync_required_env sp sid) c n) n cs"
  have l: "live (net_tell w (resync_required_env sp sid) x ?n) c" using snoc.prems by simp
  show ?case using snoc.IH [OF tell_one(1) [OF assms(1) l]] tell_one(2,3) [OF assms(1) l] by (cases "c = x") auto
qed simp

lemma follows_told:
  assumes "encode_direct w (resync_required_env sp (ds_stream_id ds)) \<noteq> []"
  shows "follows xs (tell_all w (resync_required_env sp (ds_stream_id ds)) (map fst (ds_subscribers ds)) n) ds"
proof (rule followsI)
  fix c s
  assume c: "(c, s) \<in> set (ds_subscribers ds)" and l: "live (tell_all w (resync_required_env sp (ds_stream_id ds)) (map fst (ds_subscribers ds)) n) c"
  have "c \<in> set (map fst (ds_subscribers ds))" using c by force
  then show "in_step (ds_next_seq ds) (place (ds_stream_id ds)
      (nw_log (tell_all w (resync_required_env sp (ds_stream_id ds)) (map fst (ds_subscribers ds)) n) c))"
    using tell_all_told [OF assms l] by simp
qed

text \<open>A live frame.\<close>

lemma fan_frame_facts:
  assumes "fan_frame f subs n = (n', slow)" "live n' c"
  shows "live n c" "c \<notin> fst ` set subs \<Longrightarrow> nw_log n' c = nw_log n c"
    "keys_distinct subs \<Longrightarrow> (c, s) \<in> set subs \<Longrightarrow> \<not> su_awaiting_snapshot s \<Longrightarrow> c \<notin> set slow \<Longrightarrow> nw_log n' c = nw_log n c @ [SentFrame f]"
proof -
  have main: "live n c \<and> (c \<notin> fst ` set subs \<longrightarrow> nw_log n' c = nw_log n c) \<and>
    (keys_distinct subs \<and> (c, s) \<in> set subs \<and> \<not> su_awaiting_snapshot s \<and> c \<notin> set slow \<longrightarrow> nw_log n' c = nw_log n c @ [SentFrame f])"
    using assms
  proof (induction subs arbitrary: n n' slow)
    case (Cons x subs)
    obtain d t where x: "x = (d, t)" by fastforce
    show ?case
    proof (cases "su_awaiting_snapshot t \<or> \<not> connected d n")
      case True
      then have r: "fan_frame f subs n = (n', slow)" using Cons.prems x by simp
      have "\<not> live n d" if "\<not> connected d n" using that by (simp add: live_def)
      then show ?thesis using Cons.IH [OF r Cons.prems(2)] True x by (auto simp: rev_image_eqI)
    next
      case False
      obtain n1 r where nf: "net_frame f d n = (n1, r)" by fastforce
      note facts = net_frame_facts [OF nf]
      obtain slow1 where r1: "fan_frame f subs n1 = (n', slow1)" "slow = (if r = Inl SlowConsumer then d # slow1 else slow1)"
        using Cons.prems(1) x False nf by (cases r rule: sum.exhaust) (auto split: prod.splits push_error.splits)
      note ih = Cons.IH [OF r1(1) Cons.prems(2)]
      have l1: "live n1 c" using ih by blast
      have sent: "nw_log n1 d = nw_log n d @ [SentFrame f]" if "c = d" "c \<notin> set slow"
        using facts(4,6) l1 that r1(2) by (cases r) (auto split: if_splits push_error.splits, metis push_error.exhaust)
      show ?thesis
      proof (cases "c = d")
        case True
        then have "keys_distinct (x # subs) \<Longrightarrow> c \<notin> fst ` set subs" using x by auto
        then show ?thesis using ih facts(5) [OF l1] sent True x by (auto simp: rev_image_eqI)
      next
        case False
        then have "c \<notin> set slow \<longleftrightarrow> c \<notin> set slow1" using r1(2) by simp
        then show ?thesis using ih facts(3) [OF False] facts(5) [OF l1] False x by auto
      qed
    qed
  qed simp
  then show "live n c" "c \<notin> fst ` set subs \<Longrightarrow> nw_log n' c = nw_log n c"
    "keys_distinct subs \<Longrightarrow> (c, s) \<in> set subs \<Longrightarrow> \<not> su_awaiting_snapshot s \<Longrightarrow> c \<notin> set slow \<Longrightarrow> nw_log n' c = nw_log n c @ [SentFrame f]"
    by blast+
qed

lemma fan_frame_quiet:
  "fan_frame f subs n = (n', slow) \<Longrightarrow> ev_stream_id (f_env f) \<noteq> sid \<Longrightarrow> quiet sid n n'"
proof (induction subs arbitrary: n n' slow)
  case (Cons x subs)
  obtain c s where x: "x = (c, s)" by fastforce
  obtain n1 r where nf: "net_frame f c n = (n1, r)" by fastforce
  have "quiet sid n n1" by (rule quiet_frame [OF nf Cons.prems(2)])
  moreover have "fan_frame f subs n = (n', slow) \<or> (\<exists>slow1. fan_frame f subs n1 = (n', slow1))"
    using Cons.prems(1) x nf by (cases r) (auto split: if_splits prod.splits push_error.splits)
  ultimately show ?case using Cons.IH Cons.prems(2) quiet_trans by blast
qed simp

lemma fan_frame_browsers: "fan_frame f subs n = (n', slow) \<Longrightarrow> nw_browsers n' = nw_browsers n"
  using fan_frame_quiet [where sid = "CHR ''-'' # ev_stream_id (f_env f)"] by (simp add: quiet_def)

lemma fan_frame_follows:
  assumes "follows xs n ds" "keys_distinct (ds_subscribers ds)" "fan_frame f (ds_subscribers ds) n = (n', slow)"
    and "ev_stream_id (f_env f) = ds_stream_id ds" "f_seq f = ds_next_seq ds"
    and "ds_subscribers ds' = ds_subscribers ds" "ds_stream_id ds' = ds_stream_id ds" "ds_next_seq ds' = Suc (ds_next_seq ds)"
  shows "follows (xs \<union> set slow) n' ds'"
proof (rule followsI)
  fix c s
  assume c: "(c, s) \<in> set (ds_subscribers ds')" "c \<notin> xs \<union> set slow" "\<not> su_awaiting_snapshot s" "live n' c"
  note facts = fan_frame_facts [OF assms(3) c(4)]
  have "nw_log n' c = nw_log n c @ [SentFrame f]" using facts(3) assms(2,6) c by auto
  moreover have "in_step (ds_next_seq ds) (place (ds_stream_id ds) (nw_log n c))"
    using followsD [OF assms(1)] c facts(1) assms(6) by auto
  ultimately show "in_step (ds_next_seq ds') (place (ds_stream_id ds') (nw_log n' c))"
    using in_step_frame assms(4,5,7,8) by simp
qed

section \<open>The frames of a stream carry its identity\<close>

text \<open>What merging keeps of a frame, every pass over the buffer keeps of all frames.\<close>

definition merge_closed :: "(envelope \<Rightarrow> nat) \<Rightarrow> nat \<Rightarrow> (frame \<Rightarrow> bool) \<Rightarrow> bool" where
  "merge_closed elen now Q \<longleftrightarrow> (\<forall>a b m. merge_pair elen now a b = Some m \<longrightarrow> Q a \<longrightarrow> Q m)"

lemma merged_last_all:
  assumes "merge_closed elen now Q" "list_all Q rs" "rs \<noteq> []" "merge_pair elen now (last rs) f = Some m"
  shows "list_all Q (butlast rs @ [m])"
  using assms by (cases rs rule: rev_cases) (auto simp: merge_closed_def)

lemma merge_fold_all:
  assumes "merge_closed elen now Q"
  shows "list_all Q rs \<Longrightarrow> list_all Q fs \<Longrightarrow> list_all Q (fst (foldl (merge_step elen now) (rs, t) fs))"
proof (induction fs arbitrary: rs t)
  case (Cons f fs)
  obtain rs1 t1 where st: "merge_step elen now (rs, t) f = (rs1, t1)" by fastforce
  have "list_all Q rs1" using st Cons.prems merged_last_all [OF assms]
    by (auto simp: merge_step_def split: option.splits if_splits)
  then show ?case using Cons.IH [of rs1 t1] Cons.prems st by simp
qed simp

lemma coalesce_all:
  assumes "merge_closed elen now Q" "list_all Q items"
  shows "list_all Q (fst (coalesce elen now items))"
  using merge_fold_all [where rs = "[]" and t = 0, OF assms(1)] assms(2) drop_replaced_set [of items]
  by (auto simp: coalesce_def list_all_iff)

lemma place_frame_all:
  assumes "merge_closed elen now Q" "list_all Q items" "Q f"
  shows "list_all Q (fst (place_frame elen now f (items, b)))"
proof -
  have "list_all Q (remove_nth i items)" for i using assms(2) set_remove_nth by (fastforce simp: list_all_iff)
  then show ?thesis using assms(2,3) merged_last_all [OF assms(1,2)]
    by (auto simp: place_frame_def Let_def split: option.splits if_splits)
qed

lemma insert_all:
  assumes "stream_buffer_insert elen now f s = (s', out)" "list_all Q (sb_items s)" "Q f"
    and "merge_closed elen now Q"
  shows "list_all Q (sb_items s')"
proof (cases out)
  case Buffered
  let ?P = "\<lambda>ib :: frame list \<times> nat. list_all Q (fst ib)"
  obtain items b where e: "expire_front now (sb_retention s) (sb_items s) (sb_bytes s) = (items, b)" by fastforce
  then have "list_all Q items" using assms(2) by (auto simp: expire_front_eq Let_def list_all_iff dest: set_dropWhileD)
  then have "?P (place_frame elen now f (items, b))" using assms(3,4) by (intro place_frame_all) blast+
  moreover have "?P (coalesce elen now (fst ib))" if "?P ib" for ib :: "frame list \<times> nat"
    using that assms(4) by (intro coalesce_all) blast+
  moreover have "?P (evict_kind k (sb_max_events s) (sb_max_bytes s) (fst ib) (snd ib))" if "?P ib" for k and ib :: "frame list \<times> nat"
    using that evict_kind_set by (fastforce simp: list_all_iff)
  ultimately have "?P (sb_items s', sb_bytes s')"
    using insert_Buffered [where P = ?P, OF assms(1) [unfolded Buffered]] e by simp
  then show ?thesis by simp
qed (use insert_overflow assms(1) in auto)

definition tagged :: "string \<Rightarrow> frame \<Rightarrow> bool" where
  "tagged sid f \<longleftrightarrow> ev_stream_id (f_env f) = sid"

definition ds_tagged :: "dstream \<Rightarrow> bool" where
  "ds_tagged ds \<longleftrightarrow> list_all (tagged (ds_stream_id ds)) (ds_snapshots ds) \<and> list_all (tagged (ds_stream_id ds)) (sb_items (ds_buffer ds))"

lemma merge_tagged: "merge_pair elen now a b = Some m \<Longrightarrow> tagged sid a \<Longrightarrow> tagged sid m"
  by (erule merge_pair_SomeD) (simp add: tagged_def)

lemma insert_tagged:
  "stream_buffer_insert elen now f s = (s', out) \<Longrightarrow> list_all (tagged sid) (sb_items s) \<Longrightarrow> tagged sid f \<Longrightarrow> list_all (tagged sid) (sb_items s')"
  by (erule insert_all) (auto simp: merge_closed_def intro: merge_tagged)

lemma new_frame_env [simp]: "f_env (frame_new elen now e k m) = e" "f_env (frame_with_upstream_seq elen now e k m u) = e"
  by (simp_all add: frame_new_def frame_with_upstream_seq_def)

lemma event_frame_tagged [simp]: "tagged (ds_stream_id ds) (event_frame elen now base env e ds)"
  by (simp add: event_frame_def tagged_def split: prod.splits)

lemma append_event_facts:
  assumes "ds_append_event elen now base env e ds = (ds1, f, out)"
  shows "ds_stream_id ds1 = ds_stream_id ds" "ds_subscribers ds1 = ds_subscribers ds" "ds_next_seq ds1 = Suc (ds_next_seq ds)"
    "f_seq f = ds_next_seq ds" "tagged (ds_stream_id ds) f" "ds_tagged ds \<Longrightarrow> ds_tagged ds1" "ds_snapshots ds1 = ds_snapshots ds"
  using assms by (auto simp: ds_append_event_def Let_def ds_tagged_def intro: insert_tagged split: prod.splits)

lemma window_tagged:
  assumes "ds_tagged ds"
  shows "list_all (tagged (ds_stream_id ds)) (snd (recovery_window ds))"
proof -
  have "set (snd (recovery_window ds)) \<subseteq> set (ds_snapshots ds) \<union> set (sb_items (ds_buffer ds))"
    by (auto simp: recovery_window_def full_replay_def anchored_replay_def surviving_frames_def Let_def
        split: option.splits list.splits if_splits)
  then show ?thesis using assms by (auto simp: ds_tagged_def list_all_iff)
qed

lemma apply_snapshot_facts:
  assumes "ds_apply_snapshot elen now u env ds = Some ds1"
  shows "ds_stream_id ds1 = ds_stream_id ds" "ds_subscribers ds1 = ds_subscribers ds" "ds_next_seq ds1 = Suc (ds_next_seq ds)"
    "ds_snapshots ds1 \<noteq> []" "f_seq (last (ds_snapshots ds1)) = ds_next_seq ds" "tagged (ds_stream_id ds) (last (ds_snapshots ds1))"
    "ds_tagged ds \<Longrightarrow> ds_tagged ds1"
proof -
  obtain b where b: "map_of (ds_upstreams ds) u = Some b"
    using assms by (auto simp: ds_apply_snapshot_def split: option.splits)
  define f where "f = frame_new elen now (env\<lparr>ev_stream_id := ds_stream_id ds, ev_stream_epoch := ds_epoch ds, ev_sequence := ds_next_seq ds\<rparr>) Critical None"
  define ss where "ss = filter (\<lambda>s. ev_device_id (f_env s) \<noteq> ev_device_id (f_env f)) (ds_snapshots ds) @ [f]"
  define k where "k = length ss - SNAPSHOT_CACHE_MAX"
  have f: "tagged (ds_stream_id ds) f" "f_seq f = ds_next_seq ds"
    by (simp_all add: f_def tagged_def frame_new_def frame_with_upstream_seq_def)
  have sn: "ds_snapshots ds1 = drop k ss"
    using assms b by (auto simp: ds_apply_snapshot_def Let_def cache_snapshot_def f_def ss_def k_def)
  have k: "k < length ss" by (simp add: k_def ss_def SNAPSHOT_CACHE_MAX_def)
  show "ds_stream_id ds1 = ds_stream_id ds" "ds_subscribers ds1 = ds_subscribers ds" "ds_next_seq ds1 = Suc (ds_next_seq ds)"
    using assms b by (auto simp: ds_apply_snapshot_def Let_def cache_snapshot_def)
  show "ds_snapshots ds1 \<noteq> []" using sn k by simp
  have "last (ds_snapshots ds1) = f" using sn k by (simp add: last_drop) (simp add: ss_def)
  then show "f_seq (last (ds_snapshots ds1)) = ds_next_seq ds" "tagged (ds_stream_id ds) (last (ds_snapshots ds1))" using f by simp_all
  assume t: "ds_tagged ds"
  then have "list_all (tagged (ds_stream_id ds)) ss" using f by (auto simp: ss_def ds_tagged_def list_all_iff)
  then have "list_all (tagged (ds_stream_id ds)) (drop k ss)" by (auto simp: list_all_iff dest: in_set_dropD)
  moreover have "set (sb_items (ds_buffer ds1)) \<subseteq> set (sb_items (ds_buffer ds))" "ds_stream_id ds1 = ds_stream_id ds"
    using assms b by (auto simp: ds_apply_snapshot_def Let_def cache_snapshot_def retain_uncovered_def)
  ultimately show "ds_tagged ds1" using t sn by (auto simp: ds_tagged_def list_all_iff)
qed

section \<open>Replay windows\<close>

text \<open>A change that concerns connection \<open>c\<close> alone.\<close>

definition only :: "uuid \<Rightarrow> net \<Rightarrow> net \<Rightarrow> bool" where
  "only c n n' \<longleftrightarrow> nw_browsers n' = nw_browsers n \<and> (\<forall>c'. live n' c' \<longrightarrow> live n c') \<and> (\<forall>c'. c' \<noteq> c \<longrightarrow> nw_log n' c' = nw_log n c')"

lemma only_refl [simp]: "only c n n"
  by (simp add: only_def)

lemma only_trans: "only c n n1 \<Longrightarrow> only c n1 n2 \<Longrightarrow> only c n n2"
  by (auto simp: only_def)

lemma only_direct: "net_direct w e c n = (n', ok) \<Longrightarrow> only c n n'"
  using net_direct_facts(1,3,5) by (auto simp: only_def)

lemma only_frame: "net_frame f c n = (n', r) \<Longrightarrow> only c n n'"
  using net_frame_facts(1,3,5) by (auto simp: only_def)

lemma push_frames_facts:
  "push_frames fs c n = (n', ok) \<Longrightarrow> only c n n' \<and> (ok \<longrightarrow> nw_log n' c = nw_log n c @ map SentFrame fs) \<and>
     (list_all (\<lambda>f. \<not> tagged sid f) fs \<longrightarrow> quiet sid n n')"
proof (induction fs arbitrary: n)
  case (Cons f fs)
  obtain n1 r where nf: "net_frame f c n = (n1, r)" by fastforce
  note o1 = only_frame [OF nf]
  show ?case
  proof (cases r)
    case (Inl a)
    then have "n' = n1 \<and> \<not> ok" using Cons.prems nf by simp
    then show ?thesis using o1 quiet_frame [OF nf] by (auto simp: tagged_def)
  next
    case (Inr u)
    then have "push_frames fs c n1 = (n', ok)" using Cons.prems nf by simp
    note ih = Cons.IH [OF this]
    have "nw_log n1 c = nw_log n c @ [SentFrame f]" using net_frame_facts(4) [OF nf] Inr by simp
    moreover have "\<not> tagged sid f \<Longrightarrow> quiet sid n n1" using quiet_frame [OF nf] by (simp add: tagged_def)
    ultimately show ?thesis using ih only_trans [OF o1] quiet_trans [of sid n n1 n'] by auto
  qed
qed simp

lemma send_window_facts:
  assumes "send_window w sp win sid ep corr c n = (n', ok)"
  shows "only c n n'"
    "ok \<Longrightarrow> nw_log n' c = nw_log n c @ SentDirect (subscribed_env sp sid ep (fst win) corr) # map SentFrame (snd win)"
    "list_all (tagged sid) (snd win) \<Longrightarrow> sid' \<noteq> sid \<Longrightarrow> quiet sid' n n'"
proof -
  let ?e = "subscribed_env sp sid ep (fst win) corr"
  obtain n1 ok1 where d: "net_direct w ?e c n = (n1, ok1)" by fastforce
  note o1 = only_direct [OF d]
  have cases: "(\<not> ok1 \<and> n' = n1 \<and> \<not> ok) \<or> (ok1 \<and> push_frames (snd win) c n1 = (n', ok))"
    using assms d by (auto simp: send_window_def split: bool.splits)
  have log1: "ok1 \<Longrightarrow> nw_log n1 c = nw_log n c @ [SentDirect ?e]" using net_direct_facts(4) [OF d] by simp
  show "only c n n'" using cases o1 only_trans [OF o1] push_frames_facts by blast
  show "ok \<Longrightarrow> nw_log n' c = nw_log n c @ SentDirect ?e # map SentFrame (snd win)"
    using cases log1 push_frames_facts [of "snd win" c n1 n' ok] by auto
  assume t: "list_all (tagged sid) (snd win)" "sid' \<noteq> sid"
  have q1: "quiet sid' n n1" using quiet_direct [OF d] t(2) by auto
  have "list_all (\<lambda>f. \<not> tagged sid' f) (snd win)" using t by (auto simp: list_all_iff tagged_def)
  then show "quiet sid' n n'" using cases q1 quiet_trans [OF q1] push_frames_facts by blast
qed

lemma place_frames: "list_all (tagged sid) fs \<Longrightarrow> foldl (place_step sid) (Since b gs) (map SentFrame fs) = Since b (gs @ fs)"
  by (induction fs arbitrary: gs) (auto simp: tagged_def)

lemma place_window:
  assumes "send_window w sp win sid ep corr c n = (n', True)" "list_all (tagged sid) (snd win)"
  shows "place sid (nw_log n' c) = Since (fst win) (snd win)"
  using send_window_facts(2) [OF assms(1)] place_frames [OF assms(2), of "fst win" "[]"]
  by (simp add: place_def subscribed_env_def base_envelope_def)

lemma replay_in_step:
  assumes "send_window w sp (recovery_window ds) (ds_stream_id ds) ep corr c n = (n', True)" "ds_ok ds" "ds_tagged ds"
  shows "in_step (ds_next_seq ds) (place (ds_stream_id ds) (nw_log n' c))"
  using place_window [OF assms(1) window_tagged [OF assms(3)]] in_step_window [of ds] recovery_window_ok [OF assms(2)] by simp

section \<open>Live frames\<close>

lemma follows_unsent:
  assumes "follows xs n ds" "only c n n'"
  shows "follows (insert c xs) n' ds"
  using assms by (fastforce simp: follows_def only_def)

lemma fan_events_follows:
  assumes "fan_events w sp env es ds n = (ds', n', slow)" "follows xs n ds" "keys_distinct (ds_subscribers ds)"
    and "encode_direct w (resync_required_env sp (ds_stream_id ds)) \<noteq> []"
  shows "follows (xs \<union> set slow) n' ds'"
  using assms
proof (induction es arbitrary: ds n xs slow)
  case (Cons e es)
  obtain ds1 f out where ap: "ds_append_event (wi_elen w) (sp_now sp) (base_envelope sp (ev_device_id env) PHeartbeat) env e ds = (ds1, f, out)"
    by (metis prod.exhaust)
  note facts = append_event_facts [OF ap]
  show ?case
  proof (cases "out = OverflowReset")
    case True
    let ?n1 = "tell_all w (resync_required_env sp (ds_stream_id ds1)) (map fst (ds_subscribers ds1)) n"
    have "follows xs ?n1 ds1" using follows_told [of w sp ds1 xs n] Cons.prems(4) facts(1) by simp
    moreover have "fan_events w sp env es ds1 ?n1 = (ds', n', slow)" using Cons.prems(1) ap True by simp
    ultimately show ?thesis using Cons.IH [of ds1 ?n1 slow xs] Cons.prems(3,4) facts(1,2) by simp
  next
    case False
    obtain n1 s1 where ff: "fan_frame f (ds_subscribers ds1) n = (n1, s1)" by fastforce
    obtain s2 where r: "fan_events w sp env es ds1 n1 = (ds', n', s2)" "slow = s1 @ s2"
      using Cons.prems(1) ap False ff by (auto split: prod.splits)
    have "follows (xs \<union> set s1) n1 ds1"
      using Cons.prems(2,3) ff facts by (intro fan_frame_follows [of xs n ds f n1 s1 ds1]) (simp_all add: tagged_def)
    then have "follows ((xs \<union> set s1) \<union> set s2) n' ds'"
      using Cons.IH [OF r(1)] Cons.prems(3,4) facts(1,2) by simp
    then show ?thesis using r(2) by (simp add: Un_assoc)
  qed
qed simp

lemma fan_events_facts:
  assumes "fan_events w sp env es ds n = (ds', n', slow)"
  shows "ds_stream_id ds' = ds_stream_id ds" "ds_subscribers ds' = ds_subscribers ds" "ds_ok ds \<Longrightarrow> ds_ok ds'"
    "ds_tagged ds \<Longrightarrow> ds_tagged ds'" "sid \<noteq> ds_stream_id ds \<Longrightarrow> quiet sid n n'"
proof -
  have main: "ds_stream_id ds' = ds_stream_id ds \<and> ds_subscribers ds' = ds_subscribers ds \<and> (ds_ok ds \<longrightarrow> ds_ok ds') \<and>
    (ds_tagged ds \<longrightarrow> ds_tagged ds') \<and> (sid \<noteq> ds_stream_id ds \<longrightarrow> quiet sid n n')"
    using assms
  proof (induction es arbitrary: ds n slow)
    case (Cons e es)
    obtain ds1 f out where ap: "ds_append_event (wi_elen w) (sp_now sp) (base_envelope sp (ev_device_id env) PHeartbeat) env e ds = (ds1, f, out)"
      by (metis prod.exhaust)
    note facts = append_event_facts [OF ap] and ok = ds_append_event_ok [OF _ ap]
    obtain n1 s2 where r: "fan_events w sp env es ds1 n1 = (ds', n', s2)"
      and n1: "n1 = tell_all w (resync_required_env sp (ds_stream_id ds1)) (map fst (ds_subscribers ds1)) n \<or> (\<exists>s1. fan_frame f (ds_subscribers ds1) n = (n1, s1))"
      using Cons.prems ap by (auto split: prod.splits if_splits)
    have "quiet sid n n1" if "sid \<noteq> ds_stream_id ds"
      using n1 that facts(1,5) quiet_tell_all [of "resync_required_env sp (ds_stream_id ds1)" sid] fan_frame_quiet [of f _ n n1 _ sid]
      by (auto simp: tagged_def)
    then show ?case using Cons.IH [OF r] facts ok quiet_trans [of sid n n1 n'] by auto
  qed simp
  then show "ds_stream_id ds' = ds_stream_id ds" "ds_subscribers ds' = ds_subscribers ds" "ds_ok ds \<Longrightarrow> ds_ok ds'"
    "ds_tagged ds \<Longrightarrow> ds_tagged ds'" "sid \<noteq> ds_stream_id ds \<Longrightarrow> quiet sid n n'" by blast+
qed

section \<open>A fresh snapshot\<close>

text \<open>What \<open>flush_subs\<close> does for one subscriber: its new state, and whether its queue refused.\<close>

definition flush_one :: "wire \<Rightarrow> stamp \<Rightarrow> dstream \<Rightarrow> uuid \<Rightarrow> subscriber_state \<Rightarrow> net \<Rightarrow> subscriber_state \<times> net \<times> bool" where
  "flush_one w sp ds c s n =
    (if \<not> connected c n then (s, n, False)
     else if su_awaiting_snapshot s then
       (case send_window w sp (recovery_window ds) (ds_stream_id ds) (ds_epoch ds) (su_correlation s) c n of
          (n1, True) \<Rightarrow> (s\<lparr>su_awaiting_snapshot := False\<rparr>, n1, False) | (n1, False) \<Rightarrow> (s, n1, True))
     else (case net_frame (last (ds_snapshots ds)) c n of (n1, Inr _) \<Rightarrow> (s, n1, False) | (n1, Inl _) \<Rightarrow> (s, n1, True)))"

lemma flush_subs_Cons:
  assumes "flush_subs w sp ds ((c, s) # subs) n = (subs', n', bad)" "flush_one w sp ds c s n = (s1, n1, b)"
  obtains subs1 bad1 where "flush_subs w sp ds subs n1 = (subs1, n', bad1)" "subs' = (c, s1) # subs1" "bad = (if b then c # bad1 else bad1)"
  using assms by (auto simp: flush_one_def split: if_splits prod.splits bool.splits sum.splits)

lemma flush_one_facts:
  assumes "flush_one w sp ds c s n = (s1, n1, b)" "ds_ok ds" "ds_tagged ds" "ds_snapshots ds \<noteq> []"
    and "Suc (f_seq (last (ds_snapshots ds))) = ds_next_seq ds"
    and "\<not> su_awaiting_snapshot s \<Longrightarrow> live n c \<Longrightarrow> in_step (f_seq (last (ds_snapshots ds))) (place (ds_stream_id ds) (nw_log n c))"
  shows "only c n n1" "sid \<noteq> ds_stream_id ds \<Longrightarrow> quiet sid n n1"
    "\<not> b \<Longrightarrow> \<not> su_awaiting_snapshot s1 \<Longrightarrow> live n1 c \<Longrightarrow> in_step (ds_next_seq ds) (place (ds_stream_id ds) (nw_log n1 c))"
proof -
  let ?f = "last (ds_snapshots ds)"
  have tag: "tagged (ds_stream_id ds) ?f" using assms(3,4) by (simp add: ds_tagged_def list_all_iff)
  consider (gone) "\<not> connected c n" "(s1, n1, b) = (s, n, False)"
    | (window) ok where "su_awaiting_snapshot s" "b = (\<not> ok)" "ok \<or> s1 = s"
        "send_window w sp (recovery_window ds) (ds_stream_id ds) (ds_epoch ds) (su_correlation s) c n = (n1, ok)"
    | (frame) r where "net_frame ?f c n = (n1, r)" "s1 = s" "\<not> su_awaiting_snapshot s" "b \<longleftrightarrow> (\<exists>e. r = Inl e)"
    using assms(1) by (auto simp: flush_one_def split: if_splits prod.splits bool.splits sum.splits)
  then have main: "only c n n1 \<and> (sid \<noteq> ds_stream_id ds \<longrightarrow> quiet sid n n1) \<and>
    (\<not> b \<and> \<not> su_awaiting_snapshot s1 \<and> live n1 c \<longrightarrow> in_step (ds_next_seq ds) (place (ds_stream_id ds) (nw_log n1 c)))"
  proof cases
    case gone
    then show ?thesis by (simp add: live_def)
  next
    case window
    then show ?thesis using send_window_facts(1,3) [OF window(4)] window_tagged [OF assms(3)] replay_in_step [OF _ assms(2,3)] by auto
  next
    case frame
    have "in_step (ds_next_seq ds) (place (ds_stream_id ds) (nw_log n1 c))" if nb: "\<not> b" and l1: "live n1 c"
    proof -
      obtain u where "r = Inr u" using frame(4) nb by (cases r) auto
      then have "nw_log n1 c = nw_log n c @ [SentFrame ?f]" using net_frame_facts(4) [OF frame(1)] by simp
      moreover have "live n c" using net_frame_facts(5) [OF frame(1) l1] .
      ultimately show ?thesis
        using in_step_frame [OF assms(6) [OF frame(3)], of ?f "ds_stream_id ds"] tag assms(5) by (simp add: tagged_def)
    qed
    then show ?thesis using only_frame [OF frame(1)] quiet_frame [OF frame(1)] tag by (auto simp: tagged_def)
  qed
  then show "only c n n1" "sid \<noteq> ds_stream_id ds \<Longrightarrow> quiet sid n n1"
    "\<not> b \<Longrightarrow> \<not> su_awaiting_snapshot s1 \<Longrightarrow> live n1 c \<Longrightarrow> in_step (ds_next_seq ds) (place (ds_stream_id ds) (nw_log n1 c))"
    by blast+
qed

lemma flush_subs_facts:
  assumes "flush_subs w sp ds subs n = (subs', n', bad)" "keys_distinct subs" "ds_ok ds" "ds_tagged ds" "ds_snapshots ds \<noteq> []"
    and "Suc (f_seq (last (ds_snapshots ds))) = ds_next_seq ds"
    and "\<forall>c s. (c, s) \<in> set subs \<and> \<not> su_awaiting_snapshot s \<and> live n c \<longrightarrow>
      in_step (f_seq (last (ds_snapshots ds))) (place (ds_stream_id ds) (nw_log n c))"
  shows "map fst subs' = map fst subs \<and> nw_browsers n' = nw_browsers n \<and> (sid \<noteq> ds_stream_id ds \<longrightarrow> quiet sid n n') \<and>
    (\<forall>c. live n' c \<longrightarrow> live n c \<and> (c \<notin> fst ` set subs \<longrightarrow> nw_log n' c = nw_log n c)) \<and>
    (\<forall>(c, s)\<in>set subs'. c \<notin> set bad \<and> \<not> su_awaiting_snapshot s \<and> live n' c \<longrightarrow>
       in_step (ds_next_seq ds) (place (ds_stream_id ds) (nw_log n' c)))"
  using assms(1,2,7)
proof (induction subs arbitrary: n subs' bad)
  case (Cons x subs)
  obtain c s where x: "x = (c, s)" by fastforce
  obtain s1 n1 b where o: "flush_one w sp ds c s n = (s1, n1, b)" by (metis prod.exhaust)
  obtain subs1 bad1 where r: "flush_subs w sp ds subs n1 = (subs1, n', bad1)" "subs' = (c, s1) # subs1" "bad = (if b then c # bad1 else bad1)"
    using flush_subs_Cons [OF Cons.prems(1) [unfolded x] o] .
  have mine: "in_step (f_seq (last (ds_snapshots ds))) (place (ds_stream_id ds) (nw_log n c))"
    if "\<not> su_awaiting_snapshot s" "live n c" using Cons.prems(3) that x by auto
  note one = flush_one_facts [OF o assms(3-6) mine]
  have on: "only c n n1" using one(1) x by simp
  have fresh: "c \<notin> fst ` set subs" "keys_distinct subs" using Cons.prems(2) x by auto
  have pre: "\<forall>d t. (d, t) \<in> set subs \<and> \<not> su_awaiting_snapshot t \<and> live n1 d \<longrightarrow>
    in_step (f_seq (last (ds_snapshots ds))) (place (ds_stream_id ds) (nw_log n1 d))"
  proof (intro allI impI, elim conjE)
    fix d t
    assume d: "(d, t) \<in> set subs" "\<not> su_awaiting_snapshot t" "live n1 d"
    then have "d \<noteq> c" using fresh(1) by force
    then have "nw_log n1 d = nw_log n d" "live n d" using d on by (simp_all add: only_def)
    then show "in_step (f_seq (last (ds_snapshots ds))) (place (ds_stream_id ds) (nw_log n1 d))"
      using Cons.prems(3) d(1,2) by auto
  qed
  note ih = Cons.IH [OF r(1) fresh(2) pre]
  have q: "quiet sid n n'" if "sid \<noteq> ds_stream_id ds" using ih one(2) that x quiet_trans [of sid n n1 n'] by auto
  have lv: "live n c' \<and> (c' \<notin> fst ` set (x # subs) \<longrightarrow> nw_log n' c' = nw_log n c')" if "live n' c'" for c'
    using ih that on x by (auto simp: only_def)
  have new: "in_step (ds_next_seq ds) (place (ds_stream_id ds) (nw_log n' c))"
    if "c \<notin> set bad" "\<not> su_awaiting_snapshot s1" "live n' c"
  proof -
    have "live n1 c" "nw_log n' c = nw_log n1 c" using ih that(3) fresh(1) by blast+
    then show ?thesis using one(3) that r(3) x by (auto split: if_splits)
  qed
  have "in_step (ds_next_seq ds) (place (ds_stream_id ds) (nw_log n' d))"
    if "(d, t) \<in> set subs'" "d \<notin> set bad" "\<not> su_awaiting_snapshot t" "live n' d" for d t
    using that r(2,3) new ih by (auto split: if_splits)
  then show ?case using ih q lv r(2) on x by (auto simp: only_def)
qed simp

lemma flush_subs_follows:
  assumes "follows {} n ds" "ds_apply_snapshot elen now u env ds = Some ds1" "ds_ok ds1" "ds_tagged ds" "keys_distinct (ds_subscribers ds)"
    and "flush_subs w sp ds1 (ds_subscribers ds1) n = (subs, n', bad)"
  shows "follows (set bad) n' (ds1\<lparr>ds_subscribers := subs\<rparr>)" "map fst subs = map fst (ds_subscribers ds)"
    "nw_browsers n' = nw_browsers n" "sid \<noteq> ds_stream_id ds \<Longrightarrow> quiet sid n n'"
proof -
  note a = apply_snapshot_facts [OF assms(2)]
  have pre: "\<forall>c s. (c, s) \<in> set (ds_subscribers ds1) \<and> \<not> su_awaiting_snapshot s \<and> live n c \<longrightarrow>
    in_step (f_seq (last (ds_snapshots ds1))) (place (ds_stream_id ds1) (nw_log n c))"
    using followsD [OF assms(1)] a by auto
  have k: "keys_distinct (ds_subscribers ds1)" "Suc (f_seq (last (ds_snapshots ds1))) = ds_next_seq ds1" using a assms(5) by simp_all
  note f = flush_subs_facts [where sid = sid, OF assms(6) k(1) assms(3) a(7) [OF assms(4)] a(4) k(2) pre]
  show "follows (set bad) n' (ds1\<lparr>ds_subscribers := subs\<rparr>)" using f by (auto simp: follows_def)
  show "map fst subs = map fst (ds_subscribers ds)" "nw_browsers n' = nw_browsers n" "sid \<noteq> ds_stream_id ds \<Longrightarrow> quiet sid n n'"
    using f a(1,2) by simp_all
qed

section \<open>The hub's invariant\<close>

declare split_paired_All [simp del] split_paired_Ex [simp del]

definition ours :: "net \<Rightarrow> uuid \<Rightarrow> dstream \<Rightarrow> bool" where
  "ours n owner ds \<longleftrightarrow> (\<forall>c i. map_of (ds_subscribers ds) c \<noteq> None \<and> map_of (nw_browsers n) c = Some i \<longrightarrow> bi_owner_id i = owner)"

definition stream_fine :: "uuid set \<Rightarrow> net \<Rightarrow> dkey \<Rightarrow> dstream \<Rightarrow> bool" where
  "stream_fine xs n key ds \<longleftrightarrow> ds_ok ds \<and> ds_tagged ds \<and> keys_distinct (ds_subscribers ds) \<and> length (ds_stream_id ds) \<le> 64 \<and>
     follows xs n ds \<and> ours n (fst key) ds"

definition other_id :: "string \<Rightarrow> dkey \<Rightarrow> hub \<Rightarrow> bool" where
  "other_id sid key g \<longleftrightarrow> (\<forall>k ds. map_of (hb_streams g) k = Some ds \<and> k \<noteq> key \<longrightarrow> ds_stream_id ds \<noteq> sid)"

definition hub_fine :: "(dkey \<Rightarrow> uuid set) \<Rightarrow> hub \<Rightarrow> bool" where
  "hub_fine xs g \<longleftrightarrow> keys_distinct (hb_streams g) \<and>
     (\<forall>k ds. map_of (hb_streams g) k = Some ds \<longrightarrow> stream_fine (xs k) (hb_net g) k ds \<and> other_id (ds_stream_id ds) k g)"

abbreviation hub_ok :: "hub \<Rightarrow> bool" where
  "hub_ok g \<equiv> hub_fine (\<lambda>_. {}) g"

lemma hub_fineD:
  assumes "hub_fine xs g" "map_of (hb_streams g) key = Some ds"
  shows "stream_fine (xs key) (hb_net g) key ds" "other_id (ds_stream_id ds) key g"
  using assms unfolding hub_fine_def by blast+

lemma hub_fine_cong: "hub_fine xs g \<Longrightarrow> hb_streams g' = hb_streams g \<Longrightarrow> hb_net g' = hb_net g \<Longrightarrow> hub_fine xs g'"
  by (simp add: hub_fine_def other_id_def)

lemma ours_quiet: "ours n owner ds \<Longrightarrow> nw_browsers n' = nw_browsers n \<Longrightarrow> ours n' owner ds"
  by (simp add: ours_def)

lemma stream_fine_quiet: "stream_fine xs n key ds \<Longrightarrow> quiet (ds_stream_id ds) n n' \<Longrightarrow> stream_fine xs n' key ds"
  using follows_quiet ours_quiet by (auto simp: stream_fine_def quiet_def)

lemma hub_fine_quiet:
  assumes "hub_fine xs g" "\<And>sid. quiet sid (hb_net g) n'"
  shows "hub_fine xs (g\<lparr>hb_net := n'\<rparr>)"
  using assms(1) stream_fine_quiet [OF _ assms(2)] by (simp add: hub_fine_def other_id_def)

lemma hub_fine_put:
  assumes "hub_fine xs g" "hb_streams g' = AList.update key ds (hb_streams g)" "stream_fine ys (hb_net g') key ds"
    and "other_id (ds_stream_id ds) key g" "\<And>sid. sid \<noteq> ds_stream_id ds \<Longrightarrow> quiet sid (hb_net g) (hb_net g')"
  shows "hub_fine (xs(key := ys)) g'"
proof -
  have m: "map_of (hb_streams g') = (map_of (hb_streams g))(key \<mapsto> ds)" using assms(2) by (simp add: update_conv')
  have "stream_fine ((xs(key := ys)) k) (hb_net g') k d \<and> other_id (ds_stream_id d) k g'" if k: "map_of (hb_streams g') k = Some d" for k d
  proof (cases "k = key")
    case True
    then show ?thesis using k m assms(3,4) by (auto simp: other_id_def)
  next
    case False
    then have d: "map_of (hb_streams g) k = Some d" using k m by simp
    then have "ds_stream_id d \<noteq> ds_stream_id ds" using assms(4) False by (auto simp: other_id_def)
    moreover have "stream_fine (xs k) (hb_net g) k d" "other_id (ds_stream_id d) k g" using hub_fineD [OF assms(1) d] .
    ultimately show ?thesis using stream_fine_quiet assms(5) False m by (auto simp: other_id_def)
  qed
  then show ?thesis using assms(1,2) by (simp add: hub_fine_def)
qed

text \<open>Streams that change one by one.\<close>

lemma map_of_values: "map_of (map (\<lambda>(k, v). (k, h k v)) xs) k = map_option (h k) (map_of xs k)"
  by (induction xs) auto

lemma hub_fine_map:
  assumes "hub_fine xs g" "hb_streams g' = map (\<lambda>(k, ds). (k, h k ds)) (hb_streams g)"
    and "\<And>k ds. ds_stream_id (h k ds) = ds_stream_id ds"
    and "\<And>k ds. stream_fine (xs k) (hb_net g) k ds \<Longrightarrow> stream_fine (xs k) (hb_net g') k (h k ds)"
  shows "hub_fine xs g'"
proof -
  have "map fst (hb_streams g') = map fst (hb_streams g)" using assms(2) by auto
  moreover have "map_of (hb_streams g') k = map_option (h k) (map_of (hb_streams g) k)" for k using assms(2) by (simp add: map_of_values)
  ultimately show ?thesis using assms(1,3,4) by (simp add: hub_fine_def other_id_def) metis
qed

lemma map_of_filter_keys: "keys_distinct xs \<Longrightarrow> map_of (filter P xs) k = (case map_of xs k of Some v \<Rightarrow> if P (k, v) then Some v else None | None \<Rightarrow> None)"
  by (induction xs) (auto split: option.splits simp: map_of_eq_None_iff)

lemma hub_fine_filter:
  assumes "hub_fine xs g" "hb_streams g' = filter P (hb_streams g)" "hb_net g' = hb_net g"
  shows "hub_fine xs g'"
proof -
  have k: "keys_distinct (hb_streams g)" using assms(1) by (simp add: hub_fine_def)
  have "map_of (hb_streams g) k = Some v" if "map_of (hb_streams g') k = Some v" for k v
    using that map_of_filter_keys [OF k, of P k] assms(2) by (auto split: option.splits if_splits)
  moreover have "keys_distinct (hb_streams g')" using k assms(2) by (simp add: distinct_map_filter)
  ultimately show ?thesis using assms(1,3) unfolding hub_fine_def other_id_def by metis
qed

text \<open>What a stream's frames and its place among the others depend on.\<close>

definition same_frames :: "dstream \<Rightarrow> dstream \<Rightarrow> bool" where
  "same_frames ds ds' \<longleftrightarrow> ds_stream_id ds' = ds_stream_id ds \<and> ds_next_seq ds' = ds_next_seq ds \<and>
     ds_snapshots ds' = ds_snapshots ds \<and> ds_buffer ds' = ds_buffer ds"

lemma same_frames_ok: "same_frames ds ds' \<Longrightarrow> ds_ok ds \<Longrightarrow> ds_ok ds'" "same_frames ds ds' \<Longrightarrow> ds_tagged ds \<Longrightarrow> ds_tagged ds'"
  by (simp_all add: same_frames_def ds_ok_def ds_tagged_def)

lemma follows_map:
  "keys_distinct (ds_subscribers ds) \<Longrightarrow> follows xs n ds \<longleftrightarrow>
    (\<forall>c s. map_of (ds_subscribers ds) c = Some s \<and> c \<notin> xs \<and> \<not> su_awaiting_snapshot s \<and> live n c \<longrightarrow>
      in_step (ds_next_seq ds) (place (ds_stream_id ds) (nw_log n c)))"
  unfolding follows_def by (auto simp: map_of_eq_Some_iff)

lemma stream_fine_same:
  assumes "stream_fine xs n key ds" "same_frames ds ds'" "ds_subscribers ds' = ds_subscribers ds"
  shows "stream_fine xs n key ds'"
proof -
  have "follows xs n ds'" using follows_same [of xs n ds ds'] assms by (simp add: stream_fine_def same_frames_def)
  moreover have "ours n (fst key) ds'" using assms by (simp add: stream_fine_def ours_def)
  ultimately show ?thesis using assms same_frames_ok by (auto simp: stream_fine_def same_frames_def)
qed

lemma stream_fine_drop:
  assumes "stream_fine xs n key ds"
  shows "stream_fine (xs - {c}) n key (drop_subscriber c ds)"
proof -
  have m: "map_of (AList.delete c (ds_subscribers ds)) = (map_of (ds_subscribers ds))(c := None)" by (simp add: delete_conv')
  have k: "keys_distinct (AList.delete c (ds_subscribers ds))" "keys_distinct (ds_subscribers ds)"
    using assms distinct_delete by (auto simp: stream_fine_def)
  have "follows (xs - {c}) n (drop_subscriber c ds)"
    using assms m k by (auto simp: stream_fine_def follows_map drop_subscriber_def)
  moreover have "same_frames ds (drop_subscriber c ds)" by (simp add: same_frames_def drop_subscriber_def)
  ultimately show ?thesis using assms m k same_frames_ok
    by (auto simp: stream_fine_def same_frames_def ours_def drop_subscriber_def)
qed

lemma hub_fine_put_same:
  assumes "hub_fine xs g" "map_of (hb_streams g) key = Some ds" "same_frames ds ds'" "ds_subscribers ds' = ds_subscribers ds"
    and "hb_streams g' = AList.update key ds' (hb_streams g)" "hb_net g' = hb_net g"
  shows "hub_fine xs g'"
proof -
  have "stream_fine (xs key) (hb_net g') key ds'" using stream_fine_same [OF hub_fineD(1) [OF assms(1,2)] assms(3,4)] assms(6) by simp
  moreover have "other_id (ds_stream_id ds') key g" using hub_fineD(2) [OF assms(1,2)] assms(3) by (simp add: same_frames_def)
  ultimately have "hub_fine (xs(key := xs key)) g'" by (rule hub_fine_put [OF assms(1,5)]) (simp add: assms(6))
  then show ?thesis by simp
qed

end
