(* ===== verification/Hub_Inv.thy ===== *)
theory Hub_Inv
  imports Hub_Order
begin

text \<open>
  Every operation of the relay hub keeps the hub's invariant: the frames of each stream are well
  numbered and carry its identity, stream identities are distinct, the subscribers of a stream
  belong to the user it was opened for, and every active subscriber has been sent what it needs.
\<close>

section \<open>Bridges, queries and commands\<close>

lemma send_to_bridge_keeps [simp]:
  "hb_streams (fst (send_to_bridge w d e g)) = hb_streams g" "hb_net (fst (send_to_bridge w d e g)) = hb_net g"
  by (auto simp: send_to_bridge_def split: option.splits prod.splits)

lemma send_all_keeps [simp]:
  "hb_streams (send_all_to_bridges w envs g) = hb_streams g" "hb_net (send_all_to_bridges w envs g) = hb_net g"
  by (induction envs arbitrary: g) (auto simp: send_all_to_bridges_def)

lemma plain_keeps [simp]:
  "hb_streams (bridge_insert d b g) = hb_streams g" "hb_net (bridge_insert d b g) = hb_net g"
  "hb_streams (force_close_bridge d g) = hb_streams g" "hb_net (force_close_bridge d g) = hb_net g"
  "hb_streams (change_bridge d h g) = hb_streams g" "hb_net (change_bridge d h g) = hb_net g"
  by (auto simp: bridge_insert_def force_close_bridge_def change_bridge_def split: option.splits)

lemma ledger_keeps [simp]:
  "hb_streams (set_degraded d' g) = hb_streams g" "hb_net (set_degraded d' g) = hb_net g"
  "hb_streams (register_query q g) = hb_streams g" "hb_net (register_query q g) = hb_net g"
  "hb_streams (remove_query q g) = hb_streams g" "hb_net (remove_query q g) = hb_net g"
  "hb_streams (register_command rid c d op now g) = hb_streams g" "hb_net (register_command rid c d op now g) = hb_net g"
  "hb_streams (take_command rid g) = hb_streams g" "hb_net (take_command rid g) = hb_net g"
  by (simp_all add: set_degraded_def register_query_def remove_query_def register_command_def take_command_def)

lemma remove_bridge_fine:
  assumes "hub_fine xs g"
  shows "hub_fine xs (fst (remove_bridge w sp device g))"
proof -
  define dead where "dead = filter (starts_with (''u-'' @ device @ ''-'')) (map fst (hb_upstream_index g))"
  let ?h = "\<lambda>(k :: dkey) ds. ds\<lparr>ds_upstreams := filter (\<lambda>(u, b). u \<notin> set dead) (ds_upstreams ds)\<rparr>"
  have q: "quiet sid (hb_net g) (hb_net (fst (remove_bridge w sp device g)))" for sid
    using quiet_settle by (simp add: remove_bridge_def Let_def)
  have "stream_fine (xs k) (hb_net g) k ds \<Longrightarrow> stream_fine (xs k) (hb_net (fst (remove_bridge w sp device g))) k (?h k ds)" for k ds
    by (rule stream_fine_same [OF stream_fine_quiet [OF _ q], of _ _ ds]) (simp_all add: same_frames_def)
  moreover have "hb_streams (fst (remove_bridge w sp device g)) = map (\<lambda>(k, ds). (k, ?h k ds)) (hb_streams g)"
    by (simp add: remove_bridge_def Let_def dead_def)
  ultimately show ?thesis by (intro hub_fine_map [OF assms, where h = ?h]) simp_all
qed

lemma begin_shutdown_fine: "hub_fine xs g \<Longrightarrow> hub_fine xs (fst (begin_shutdown w sp g))"
  using hub_fine_quiet [of xs g "settle_commands w sp (hb_commands g) (hb_net g)"] quiet_settle
  by (auto simp: begin_shutdown_def intro: hub_fine_cong)

section \<open>Browsers\<close>

lemma fresh_other: "good_sid sid g \<Longrightarrow> other_id sid key g"
  by (auto simp: good_sid_def other_id_def list_all_iff dest!: map_of_SomeD)

lemma register_browser_fine:
  assumes "hub_fine xs g" "unused_conn c g"
  shows "hub_fine xs (register_browser c ident box g)"
proof -
  let ?n = "hb_net (register_browser c ident box g)"
  have other: "live ?n d = live (hb_net g) d" "nw_log ?n d = nw_log (hb_net g) d" "map_of (nw_browsers ?n) d = map_of (nw_browsers (hb_net g)) d" if "d \<noteq> c" for d
    using that by (simp_all add: register_browser_def live_def update_conv')
  have st: "stream_fine (xs k) ?n k ds" if k: "map_of (hb_streams g) k = Some ds" for k ds
  proof -
    have free: "map_of (ds_subscribers ds) c = None"
      using assms(2) map_of_SomeD [OF k] by (auto simp: unused_conn_def list_all_iff)
    note f = hub_fineD(1) [OF assms(1) k]
    have "follows (xs k) ?n ds" using f free other unfolding stream_fine_def by (metis (no_types, lifting) follows_map option.distinct(1))
    moreover have "ours ?n (fst k) ds" using f free other unfolding stream_fine_def ours_def by metis
    ultimately show ?thesis using f by (simp add: stream_fine_def)
  qed
  have "hb_streams (register_browser c ident box g) = hb_streams g" by (simp add: register_browser_def)
  then show ?thesis using assms(1) st unfolding hub_fine_def other_id_def by metis
qed

lemma drop_browser_live: "live (hb_net (drop_browser c g)) d \<Longrightarrow> live (hb_net g) d"
  by (auto simp: drop_browser_def live_def delete_conv' split: if_splits)

lemma stream_fine_fewer:
  assumes "stream_fine xs n key ds" "\<And>c. live n' c \<Longrightarrow> live n c" "\<And>c. nw_log n' c = nw_log n c"
    and "\<And>c i. map_of (nw_browsers n') c = Some i \<Longrightarrow> map_of (nw_browsers n) c = Some i"
  shows "stream_fine xs n' key ds"
proof -
  have "follows xs n' ds" using assms(1-3) by (fastforce simp: stream_fine_def follows_def)
  moreover have "ours n' (fst key) ds" using assms(1,4) unfolding stream_fine_def ours_def by blast
  ultimately show ?thesis using assms(1) by (simp add: stream_fine_def)
qed

lemma stream_fine_mono: "stream_fine xs n key ds \<Longrightarrow> xs \<subseteq> ys \<Longrightarrow> stream_fine ys n key ds"
  by (fastforce simp: stream_fine_def follows_def)

lemma drop_browser_fine:
  assumes "hub_fine xs g"
  shows "hub_fine xs (drop_browser c g)"
proof -
  have "stream_fine (xs k) (hb_net (drop_browser c g)) k ds" if "stream_fine (xs k) (hb_net g) k ds" for k ds
    using that drop_browser_live by (rule stream_fine_fewer) (auto simp: drop_browser_def delete_conv' split: if_splits)
  then show ?thesis using hub_fine_map [OF assms, where h = "\<lambda>k ds. ds"] by (simp add: drop_browser_def case_prod_beta')
qed

lemma detach_subscriber_fine:
  assumes "hub_fine xs g"
  shows "hub_fine xs (detach_subscriber c g)"
proof (cases "map_of (hb_browser_streams g) c")
  case (Some keys)
  let ?h = "\<lambda>k ds. if k \<in> set keys then drop_subscriber c ds else ds"
  have n: "hb_net (detach_subscriber c g) = hb_net g" using Some by (simp add: detach_subscriber_def)
  have "stream_fine (xs k) (hb_net g) k ds \<Longrightarrow> stream_fine (xs k) (hb_net g) k (?h k ds)" for k ds
    using stream_fine_mono [OF stream_fine_drop, of "xs k" "hb_net g" k ds c "xs k"] by auto
  then show ?thesis using Some n by (intro hub_fine_map [OF assms, where h = ?h]) (simp_all add: detach_subscriber_def drop_subscriber_def)
qed (use assms in \<open>simp add: detach_subscriber_def\<close>)

lemma remove_browser_fine: "hub_fine xs g \<Longrightarrow> hub_fine xs (remove_browser c g)"
  unfolding remove_browser_def by (intro detach_subscriber_fine drop_browser_fine)

lemma close_box_fine: "hub_fine xs g \<Longrightarrow> hub_fine xs (close_box r c g)"
  unfolding close_box_def by (rule hub_fine_quiet) (auto intro: quiet_close)

lemma close_browser_fine: "hub_fine xs g \<Longrightarrow> hub_fine xs (close_browser c r g)"
  by (simp add: close_browser_def close_box_fine remove_browser_fine)

lemma hub_fine_foldl: "hub_fine xs g \<Longrightarrow> (\<And>g y. hub_fine xs g \<Longrightarrow> hub_fine xs (h g y)) \<Longrightarrow> hub_fine xs (foldl h g ys)"
  by (induction ys arbitrary: g) auto

lemma close_all_fine: "hub_fine xs g \<Longrightarrow> hub_fine xs (close_all_browsers r g)"
  unfolding close_all_browsers_def by (erule hub_fine_foldl) (intro close_box_fine remove_browser_fine)

text \<open>Taking a subscriber off a stream ends its exemption.\<close>

lemma detach_failed_fine:
  assumes "hub_fine xs g"
  shows "hub_fine (xs(key := xs key - {c})) (detach_failed_subscriber w sp key g c)"
proof (cases "map_of (hb_streams g) key")
  case None
  then have "hub_fine (xs(key := xs key - {c})) g" using assms unfolding hub_fine_def by (metis fun_upd_apply option.distinct(1))
  then show ?thesis using None by (auto simp: detach_failed_subscriber_def intro: hub_fine_cong split: option.splits)
next
  case (Some ds)
  let ?e = "resync_required_env sp (ds_stream_id ds)"
  let ?n = "if connected c (hb_net g) then net_close ''RESYNC_REQUIRED'' c (fst (net_direct w ?e c (hb_net g))) else hb_net g"
  let ?g = "(put_stream key (drop_subscriber c ds) g)\<lparr>hb_net := ?n\<rparr>"
  note f = hub_fineD [OF assms Some]
  obtain n1 ok where d: "net_direct w ?e c (hb_net g) = (n1, ok)" by fastforce
  have dead: "\<not> live (net_close ''RESYNC_REQUIRED'' c n1) c" by (simp add: net_close_def live_def closed_stays)
  have q1: "only c (hb_net g) (net_close ''RESYNC_REQUIRED'' c n1)"
    using only_direct [OF d] by (auto simp: only_def net_close_def live_def closed_stays split: if_splits)
  have q: "sid \<noteq> ds_stream_id ds \<Longrightarrow> quiet sid (hb_net g) ?n" for sid
    using quiet_trans [OF quiet_direct [OF d] quiet_close] d by auto
  have "stream_fine (xs key - {c}) (hb_net g) key (drop_subscriber c ds)" by (rule stream_fine_drop [OF f(1)])
  then have fine: "stream_fine (xs key - {c}) ?n key (drop_subscriber c ds)"
  proof (cases "connected c (hb_net g)")
    case True
    let ?m = "net_close ''RESYNC_REQUIRED'' c n1"
    have "follows (xs key - {c}) ?m (drop_subscriber c ds)"
      using \<open>stream_fine (xs key - {c}) (hb_net g) key (drop_subscriber c ds)\<close> q1 dead
      unfolding stream_fine_def follows_def only_def by fastforce
    moreover have "ours ?m (fst key) (drop_subscriber c ds)"
      using \<open>stream_fine (xs key - {c}) (hb_net g) key (drop_subscriber c ds)\<close> q1 ours_quiet by (auto simp: stream_fine_def only_def)
    ultimately show ?thesis using \<open>stream_fine (xs key - {c}) (hb_net g) key (drop_subscriber c ds)\<close> d True by (simp add: stream_fine_def)
  qed simp
  have "hub_fine (xs(key := xs key - {c})) ?g"
    using fine f(2) q by (intro hub_fine_put [OF assms, where ds = "drop_subscriber c ds"]) (simp_all add: put_stream_def drop_subscriber_def)
  then show ?thesis using Some by (auto simp: detach_failed_subscriber_def Let_def intro: hub_fine_cong split: option.splits)
qed

lemma detach_all_fine:
  "hub_fine xs g \<Longrightarrow> hub_fine (xs(key := xs key - set cs)) (foldl (detach_failed_subscriber w sp key) g cs)"
proof (induction cs arbitrary: g xs)
  case (Cons c cs)
  have "hub_fine ((xs(key := xs key - {c}))(key := (xs(key := xs key - {c})) key - set cs)) (foldl (detach_failed_subscriber w sp key) (detach_failed_subscriber w sp key g c) cs)"
    by (rule Cons.IH [OF detach_failed_fine [OF Cons.prems]])
  moreover have "(xs(key := xs key - {c}))(key := (xs(key := xs key - {c})) key - set cs) = xs(key := xs key - set (c # cs))"
    by (rule ext) auto
  ultimately show ?case by (simp only: foldl_Cons)
qed simp

section \<open>Subscriptions\<close>

lemma put_stream_keeps [simp]: "hb_net (put_stream key ds g) = hb_net g" "hb_streams (put_stream key ds g) = AList.update key ds (hb_streams g)"
  by (simp_all add: put_stream_def)

lemma add_binding_keeps [simp]:
  "hb_net (add_binding key d u ds g) = hb_net g"
  "hb_streams (add_binding key d u ds g) = AList.update key (ds\<lparr>ds_upstreams := AList.update u (fresh_binding d) (ds_upstreams ds)\<rparr>) (hb_streams g)"
  by (simp_all add: add_binding_def)

lemma bind_keys_fine: "hub_fine xs g \<Longrightarrow> hub_fine xs (fst (bind_keys sp d keys g))"
proof (induction keys arbitrary: g)
  case (Cons key keys)
  show ?case
  proof (cases "map_of (hb_streams g) key")
    case (Some ds)
    let ?u = "upstream_stream_id d (snd key)"
    have "hub_fine xs (add_binding key d ?u ds g)"
      by (rule hub_fine_put_same [OF Cons.prems Some, where ds' = "ds\<lparr>ds_upstreams := AList.update ?u (fresh_binding d) (ds_upstreams ds)\<rparr>"])
        (simp_all add: same_frames_def)
    then show ?thesis using Cons.IH [of g] Cons.IH [of "add_binding key d ?u ds g"] Cons.prems Some by (simp add: Let_def case_prod_beta)
  qed (use Cons in simp)
qed simp

text \<open>Opening a stream: its identity is the stream's own from then on.\<close>

definition may_open :: "string \<Rightarrow> dkey \<Rightarrow> hub \<Rightarrow> bool" where
  "may_open sid key g \<longleftrightarrow> (map_of (hb_streams g) key = None \<longrightarrow> length sid \<le> 64 \<and> other_id sid key g)"

lemma stream_entry_fine:
  assumes "hub_fine xs g" "may_open sid key g"
  shows "stream_fine (xs key) (hb_net g) key (stream_entry sid key g)" "other_id (ds_stream_id (stream_entry sid key g)) key g"
proof -
  have "stream_fine (xs key) (hb_net g) key (dstream_new sid key)" if "length sid \<le> 64"
    using that dstream_new_ok [of sid key]
    by (simp add: stream_fine_def follows_def ours_def ds_tagged_def dstream_new_def stream_buffer_new_def)
  then show "stream_fine (xs key) (hb_net g) key (stream_entry sid key g)"
    using assms hub_fineD(1) by (auto simp: stream_entry_def may_open_def split: option.splits)
  show "other_id (ds_stream_id (stream_entry sid key g)) key g"
    using assms hub_fineD(2) by (auto simp: stream_entry_def may_open_def dstream_new_def split: option.splits)
qed

lemma hub_fine_entry:
  assumes "hub_fine xs g" "may_open sid key g" "hb_net g' = hb_net g" "hb_streams g' = AList.update key ds (hb_streams g)"
    and "stream_fine (xs key) (hb_net g) key (stream_entry sid key g) \<Longrightarrow> stream_fine (xs key) (hb_net g) key ds"
    and "ds_stream_id ds = ds_stream_id (stream_entry sid key g)"
  shows "hub_fine xs g'" "may_open sid key g'"
proof -
  note e = stream_entry_fine [OF assms(1,2)]
  have "hub_fine (xs(key := xs key)) g'"
    using assms e by (intro hub_fine_put [OF assms(1,4)]) simp_all
  then show "hub_fine xs g'" by simp
  show "may_open sid key g'" using assms(4) by (simp add: may_open_def update_conv')
qed

lemma map_fst_values: "map fst (map (\<lambda>(c, s). (c, h s)) xs) = map fst xs"
  by (induction xs) auto

lemma cleared_ok: "ds_ok ds \<Longrightarrow> ds_ok (clear_stream ds)" "ds_tagged (clear_stream ds)"
  by (simp_all add: ds_ok_def ds_tagged_def clear_stream_def clear_pending_def buffer_ok_def stream_buffer_clear_def within_limits_def)

lemma restart_fine:
  assumes "stream_fine xs n key ds" "ds_stream_id ds' = ds_stream_id ds" "ds_next_seq ds' = ds_next_seq ds" "ds_snapshots ds' = []"
    and "ds_buffer ds' = stream_buffer_clear (ds_buffer ds)"
    and "ds_subscribers ds' = map (\<lambda>(c, s). (c, s\<lparr>su_awaiting_snapshot := True\<rparr>)) (ds_subscribers ds)"
  shows "stream_fine ys n' key ds' \<longleftrightarrow> ours n' (fst key) ds'"
proof -
  have "map fst (ds_subscribers ds') = map fst (ds_subscribers ds)" unfolding assms(6) by (rule map_fst_values)
  moreover have "follows ys n' ds'" by (rule follows_awaiting) (auto simp: assms(6))
  ultimately show ?thesis using assms(1-5)
    by (auto simp: stream_fine_def ds_ok_def ds_tagged_def buffer_ok_def stream_buffer_clear_def within_limits_def)
qed

lemma ours_map:
  "ours n owner ds \<Longrightarrow> nw_browsers n' = nw_browsers n \<Longrightarrow> map fst (ds_subscribers ds') = map fst (ds_subscribers ds) \<Longrightarrow> ours n' owner ds'"
  unfolding ours_def map_of_eq_None_iff set_map [symmetric] by simp

lemma restart_fine_same:
  assumes "stream_fine xs n key ds" "ds_stream_id ds' = ds_stream_id ds" "ds_next_seq ds' = ds_next_seq ds" "ds_snapshots ds' = []"
    and "ds_buffer ds' = stream_buffer_clear (ds_buffer ds)"
    and "ds_subscribers ds' = map (\<lambda>(c, s). (c, s\<lparr>su_awaiting_snapshot := True\<rparr>)) (ds_subscribers ds)" "nw_browsers n' = nw_browsers n"
  shows "stream_fine ys n' key ds'"
proof -
  have "map fst (ds_subscribers ds') = map fst (ds_subscribers ds)" unfolding assms(6) by (rule map_fst_values)
  then have "ours n' (fst key) ds'" using assms(1) ours_map [OF _ assms(7)] unfolding stream_fine_def by blast
  then show ?thesis using restart_fine [OF assms(1-6)] by blast
qed

lemma bind_needs_fine:
  "hub_fine xs g \<Longrightarrow> may_open sid key g \<Longrightarrow> hub_fine xs (fst (bind_needs sp sid key needs g))"
proof (induction needs arbitrary: g)
  case (Cons x needs)
  obtain d tag where x: "x = (d, tag)" by fastforce
  define u ds where "u = upstream_stream_id d tag" and "ds = stream_entry sid key g"
  note entry = hub_fine_entry [OF Cons.prems, folded ds_def]
  have new: "hub_fine xs (add_binding key d u ds g)" "may_open sid key (add_binding key d u ds g)"
    by (rule entry [where ds = "ds\<lparr>ds_upstreams := AList.update u (fresh_binding d) (ds_upstreams ds)\<rparr>"],
        simp, simp, erule stream_fine_same, simp_all add: same_frames_def)+
  have keep: "hub_fine xs (put_stream key ds g)" "may_open sid key (put_stream key ds g)"
    by (rule entry [where ds = ds], simp_all)+
  define ds1 where "ds1 = (\<lambda>b. all_awaiting (clear_stream (ds\<lparr>ds_upstreams := AList.update u (reset_binding b) (ds_upstreams ds)\<rparr>)))"
  have again: "hub_fine xs (put_stream key (ds1 b) g)" "may_open sid key (put_stream key (ds1 b) g)" for b
    by (rule entry(1) [where ds = "ds1 b"], simp, simp, erule restart_fine_same,
        simp_all add: ds1_def all_awaiting_def clear_stream_def clear_pending_def may_open_def update_conv')
  have "fst (bind_needs sp sid key (x # needs) g) \<in> {fst (bind_needs sp sid key needs (add_binding key d u ds g)),
      fst (bind_needs sp sid key needs (put_stream key ds g))} \<union> range (\<lambda>b. fst (bind_needs sp sid key needs (put_stream key (ds1 b) g)))"
    by (simp add: x Let_def u_def [symmetric] ds_def [symmetric] ds1_def case_prod_beta split: option.splits)
  then show ?case using Cons.IH new keep again by auto
qed simp

lemma subscribe_bind_fine: "hub_fine xs g \<Longrightarrow> may_open sid key g \<Longrightarrow> hub_fine xs (subscribe_bind w sp sid c key needs g)"
  using bind_needs_fine [of xs g sid key sp needs] by (auto simp: subscribe_bind_def intro: hub_fine_cong split: prod.splits)

text \<open>A replay window puts a subscriber in step, or it is taken off the stream.\<close>

lemma set_awaiting_facts:
  "same_frames ds (set_awaiting b c ds)"
  "map_of (ds_subscribers (set_awaiting b c ds)) =
     (case map_of (ds_subscribers ds) c of None \<Rightarrow> map_of (ds_subscribers ds)
      | Some s \<Rightarrow> (map_of (ds_subscribers ds))(c \<mapsto> s\<lparr>su_awaiting_snapshot := b\<rparr>))"
  "keys_distinct (ds_subscribers ds) \<Longrightarrow> keys_distinct (ds_subscribers (set_awaiting b c ds))"
  by (auto simp: same_frames_def set_awaiting_def update_conv' split: option.splits)

lemma window_stream_fine:
  assumes "stream_fine xs n key ds" "xs \<subseteq> {c}"
    and "send_window w sp (recovery_window ds) (ds_stream_id ds) ep corr c n = (n', True)"
  shows "stream_fine {} n' key (set_awaiting False c ds)"
proof -
  note s = set_awaiting_facts [where ds = ds and b = False and c = c]
  have o: "only c n n'" using send_window_facts(1) [OF assms(3)] .
  have me: "in_step (ds_next_seq ds) (place (ds_stream_id ds) (nw_log n' c))"
    using assms(1) by (intro replay_in_step [OF assms(3)]) (simp_all add: stream_fine_def)
  have k: "keys_distinct (ds_subscribers ds)" "follows xs n ds" using assms(1) by (simp_all add: stream_fine_def)
  have "in_step (ds_next_seq ds) (place (ds_stream_id ds) (nw_log n' d))"
    if "map_of (ds_subscribers (set_awaiting False c ds)) d = Some t" "\<not> su_awaiting_snapshot t" "live n' d" for d t
  proof (cases "d = c")
    case False
    then have "map_of (ds_subscribers ds) d = Some t" using that(1) s(2) by (auto split: option.splits)
    then show ?thesis using k that o False assms(2) by (auto simp: follows_map only_def)
  qed (use me in simp)
  then have "follows {} n' (set_awaiting False c ds)" using s(1,3) k by (simp add: follows_map same_frames_def)
  moreover have "ours n' (fst key) (set_awaiting False c ds)"
    using assms(1) o unfolding stream_fine_def ours_def only_def s(2) by (auto split: option.splits if_splits)
  ultimately show ?thesis using assms(1) s(1,3) same_frames_ok [OF s(1)] by (simp add: stream_fine_def same_frames_def)
qed

lemma hub_fine_same_streams:
  "hub_fine xs g \<Longrightarrow> map_of (hb_streams g') = map_of (hb_streams g) \<Longrightarrow> keys_distinct (hb_streams g') \<Longrightarrow> hb_net g' = hb_net g \<Longrightarrow> hub_fine xs g'"
  by (simp add: hub_fine_def other_id_def)

lemma replay_to_fine:
  assumes "hub_fine xs g" "map_of (hb_streams g) key = Some ds" "xs key \<subseteq> {c}"
  shows "hub_fine (xs(key := {})) (replay_to w sp c key corr ds g)"
proof -
  note f = hub_fineD [OF assms(1,2)]
  obtain n' ok where sw: "send_window w sp (recovery_window ds) (ds_stream_id ds) (ds_epoch ds) corr c (hb_net g) = (n', ok)" by fastforce
  have q: "sid \<noteq> ds_stream_id ds \<Longrightarrow> quiet sid (hb_net g) n'" for sid
    using send_window_facts(3) [OF sw] window_tagged f(1) by (auto simp: stream_fine_def)
  show ?thesis
  proof (cases ok)
    case True
    have "stream_fine {} n' key (set_awaiting False c ds)" using window_stream_fine [OF f(1) assms(3)] sw True by simp
    then have "hub_fine (xs(key := {})) (put_stream key (set_awaiting False c ds) (g\<lparr>hb_net := n'\<rparr>))"
      using f(2) q set_awaiting_facts(1) [where ds = ds and b = False and c = c]
      by (intro hub_fine_put [OF assms(1), where ds = "set_awaiting False c ds"]) (simp_all add: same_frames_def)
    then show ?thesis using sw True by (simp add: replay_to_def)
  next
    case False
    have o: "only c (hb_net g) n'" by (rule send_window_facts(1) [OF sw])
    have c: "insert c (xs key) = {c}" using assms(3) by auto
    have "follows (xs key) (hb_net g) ds" using f(1) by (simp add: stream_fine_def)
    from follows_unsent [OF this o] have "follows {c} n' ds" unfolding c .
    moreover have "ours n' (fst key) ds" using f(1) o ours_quiet by (auto simp: stream_fine_def only_def)
    ultimately have "stream_fine {c} n' key ds" using f(1) by (simp add: stream_fine_def)
    then have put: "hub_fine (xs(key := {c})) (put_stream key ds (g\<lparr>hb_net := n'\<rparr>))"
      using f(2) q by (intro hub_fine_put [OF assms(1), where ds = ds]) simp_all
    have "map_of (hb_streams (g\<lparr>hb_net := n'\<rparr>)) = map_of (hb_streams (put_stream key ds (g\<lparr>hb_net := n'\<rparr>)))"
      using assms(2) by (auto simp: update_conv')
    from hub_fine_same_streams [OF put this] have "hub_fine (xs(key := {c})) (g\<lparr>hb_net := n'\<rparr>)"
      using assms(1) by (simp add: hub_fine_def)
    from detach_failed_fine [OF this, of key c w sp]
    have "hub_fine (xs(key := {})) (detach_failed_subscriber w sp key (g\<lparr>hb_net := n'\<rparr>) c)" by simp
    then show ?thesis using sw False by (simp add: replay_to_def)
  qed
qed

lemma add_subscriber_fine:
  assumes "stream_fine {} n key ds" "bi_owner_id i = fst key" "map_of (nw_browsers n) c = Some i"
  shows "stream_fine (if su_awaiting_snapshot s then {} else {c}) n key (ds\<lparr>ds_subscribers := AList.update c s (ds_subscribers ds)\<rparr>)"
proof -
  let ?ds = "ds\<lparr>ds_subscribers := AList.update c s (ds_subscribers ds)\<rparr>"
  have k: "keys_distinct (ds_subscribers ds)" "follows {} n ds" using assms(1) by (simp_all add: stream_fine_def)
  then have "follows (if su_awaiting_snapshot s then {} else {c}) n ?ds" by (auto simp: follows_map update_conv')
  moreover have "ours n (fst key) ?ds" using assms by (auto simp: stream_fine_def ours_def update_conv' split: if_splits)
  moreover have "same_frames ds ?ds" by (simp add: same_frames_def)
  ultimately show ?thesis using assms(1) k same_frames_ok [of ds ?ds] by (simp add: stream_fine_def)
qed

lemma subscribe_attach_fine:
  assumes "hub_ok g" "may_open sid key g" "map_of (nw_browsers (hb_net g)) c = Some i" "bi_owner_id i = fst key"
  shows "hub_ok (subscribe_attach w sp sid c key corr g)"
proof -
  define ds where "ds = stream_entry sid key g"
  define s where "s = \<lparr>su_awaiting_snapshot = (ds_snapshots ds = []),
    su_acked = (case map_of (ds_subscribers ds) c of Some s \<Rightarrow> su_acked s | None \<Rightarrow> 0), su_correlation = corr\<rparr>"
  define ds1 where "ds1 = ds\<lparr>ds_subscribers := AList.update c s (ds_subscribers ds)\<rparr>"
  define g1 where "g1 = add_browser_stream c key (put_stream key ds1 g)"
  note e = stream_entry_fine [OF assms(1,2), folded ds_def]
  have g1: "hb_net g1 = hb_net g" "hb_streams g1 = AList.update key ds1 (hb_streams g)"
    by (simp_all add: g1_def add_browser_stream_def)
  have "stream_fine (if ds_snapshots ds = [] then {} else {c}) (hb_net g) key ds1"
    using add_subscriber_fine [OF e(1) assms(4,3), of s] by (simp add: ds1_def s_def)
  then have f1: "hub_fine ((\<lambda>_. {})(key := if ds_snapshots ds = [] then {} else {c})) g1"
    using e(2) g1 by (intro hub_fine_put [OF assms(1) g1(2)]) (simp_all add: ds1_def)
  have sub: "subscribe_attach w sp sid c key corr g = (if ds_snapshots ds \<noteq> [] then replay_to w sp c key corr ds1 g1 else g1)"
    using assms(3) by (simp add: subscribe_attach_def Let_def ds_def [symmetric] s_def ds1_def g1_def)
  have clr: "((\<lambda>_. {})(key := {c}))(key := {}) = (\<lambda>_ :: dkey. {} :: uuid set)" by auto
  show ?thesis
  proof (cases "ds_snapshots ds = []")
    case True
    then have "((\<lambda>_. {})(key := if ds_snapshots ds = [] then {} else {c})) = (\<lambda>_. {})" by auto
    then show ?thesis using f1 sub True by simp
  next
    case False
    have "hub_fine (((\<lambda>_. {})(key := {c}))(key := {})) (replay_to w sp c key corr ds1 g1)"
      using f1 False g1(2) by (intro replay_to_fine) (simp_all add: update_conv')
    then show ?thesis unfolding clr using sub False by simp
  qed
qed

lemma unsubscribe_fine:
  assumes "hub_ok g"
  shows "hub_ok (browser_unsubscribe c sid g)"
proof (cases "key_of_stream sid g")
  case (Some key)
  show ?thesis
  proof (cases "map_of (hb_streams g) key")
    case None
    then show ?thesis using assms Some by (auto simp: browser_unsubscribe_def Let_def intro: hub_fine_cong split: option.splits)
  next
    case (Some ds)
    note f = hub_fineD [OF assms Some]
    have e: "((\<lambda>_. {})(key := {})) = (\<lambda>_ :: dkey. {} :: uuid set)" by auto
    have "stream_fine {} (hb_net g) key (drop_subscriber c ds)" using stream_fine_drop [OF f(1), of c] by simp
    then have "hub_fine ((\<lambda>_. {})(key := {})) (put_stream key (drop_subscriber c ds) g)"
      using f(2) by (intro hub_fine_put [OF assms, where ds = "drop_subscriber c ds"]) (simp_all add: drop_subscriber_def)
    then show ?thesis using Some \<open>key_of_stream sid g = Some key\<close> unfolding e
      by (auto simp: browser_unsubscribe_def Let_def intro: hub_fine_cong split: option.splits)
  qed
qed (use assms in \<open>simp add: browser_unsubscribe_def\<close>)

lemma refresh_facts:
  assumes "refresh_snapshot_envs force ds = (ds1, devices)"
  shows "ds_stream_id ds1 = ds_stream_id ds" "ds_next_seq ds1 = ds_next_seq ds" "ds_snapshots ds1 = []"
    "ds_buffer ds1 = stream_buffer_clear (ds_buffer ds)"
    "ds_subscribers ds1 = map (\<lambda>(c, s). (c, s\<lparr>su_awaiting_snapshot := True\<rparr>)) (ds_subscribers ds)"
  using assms by (auto simp: refresh_snapshot_envs_def Let_def clear_pending_def)

lemma restart_hub_fine:
  assumes "hub_fine xs g" "map_of (hb_streams g) key = Some ds" "hb_streams g' = AList.update key ds' (hb_streams g)"
    and "ds_stream_id ds' = ds_stream_id ds" "ds_next_seq ds' = ds_next_seq ds" "ds_snapshots ds' = []"
    and "ds_buffer ds' = stream_buffer_clear (ds_buffer ds)"
    and "ds_subscribers ds' = map (\<lambda>(c, s). (c, s\<lparr>su_awaiting_snapshot := True\<rparr>)) (ds_subscribers ds)"
    and "\<And>sid. sid \<noteq> ds_stream_id ds \<Longrightarrow> quiet sid (hb_net g) (hb_net g')"
  shows "hub_fine xs g'"
proof -
  note f = hub_fineD [OF assms(1,2)]
  have "nw_browsers (hb_net g') = nw_browsers (hb_net g)"
    using assms(9) [of "CHR ''-'' # ds_stream_id ds"] by (simp add: quiet_def)
  from restart_fine_same [OF f(1) assms(4-8) this, of "xs key"]
  have "hub_fine (xs(key := xs key)) g'" using f(2) assms(4,9) by (intro hub_fine_put [OF assms(1,3)]) simp_all
  then show ?thesis by simp
qed

lemma no_exempt [simp]: "(\<lambda>_. {})(key := {}) = (\<lambda>_. {})"
  by auto

lemma resync_fine:
  assumes "hub_ok g"
  shows "hub_ok (browser_resync w sp c sid corr g)"
proof (cases "key_of_stream sid g")
  case (Some key)
  show ?thesis
  proof (cases "map_of (hb_streams g) key")
    case (Some ds)
    obtain ds1 devices where r: "refresh_snapshot_envs False ds = (ds1, devices)" by fastforce
    have "hub_ok (put_stream key ds1 g)" by (rule restart_hub_fine [OF assms Some, of _ ds1]) (simp_all add: refresh_facts [OF r])
    then have 1: "hub_ok (send_all_to_bridges w envs (put_stream key ds1 g))" for envs by (auto intro: hub_fine_cong)
    have 2: "hub_ok (replay_to w sp c key corr ds g)" using replay_to_fine [OF assms Some, of c w sp corr] by simp
    show ?thesis using Some \<open>key_of_stream sid g = Some key\<close> 1 2 r assms by (simp add: browser_resync_def)
  qed (use assms Some in \<open>simp add: browser_resync_def\<close>)
qed (use assms in \<open>simp add: browser_resync_def\<close>)

lemma ack_fine:
  assumes "hub_ok g"
  shows "hub_ok (browser_ack c sid q g)"
proof (cases "\<exists>key ds s. key_of_stream sid g = Some key \<and> map_of (hb_streams g) key = Some ds \<and> map_of (ds_subscribers ds) c = Some s")
  case True
  then obtain key ds s where k: "key_of_stream sid g = Some key" "map_of (hb_streams g) key = Some ds" "map_of (ds_subscribers ds) c = Some s" by blast
  let ?ds = "ds\<lparr>ds_subscribers := AList.update c (s\<lparr>su_acked := max (su_acked s) q\<rparr>) (ds_subscribers ds)\<rparr>"
  note f = hub_fineD [OF assms k(2)]
  have d: "keys_distinct (ds_subscribers ds)" "follows {} (hb_net g) ds" using f(1) by (simp_all add: stream_fine_def)
  then have "follows {} (hb_net g) ?ds" using k(3) by (auto simp: follows_map update_conv')
  moreover have "ours (hb_net g) (fst key) ?ds" using f(1) k(3) by (auto simp: stream_fine_def ours_def update_conv' split: if_splits)
  ultimately have "stream_fine {} (hb_net g) key ?ds"
    using f(1) d same_frames_ok [of ds ?ds] by (simp add: stream_fine_def same_frames_def)
  then have "hub_fine ((\<lambda>_. {})(key := {})) (put_stream key ?ds g)"
    using f(2) by (intro hub_fine_put [OF assms, where ds = ?ds]) simp_all
  then show ?thesis using k by (simp add: browser_ack_def)
qed (use assms in \<open>auto simp: browser_ack_def split: option.splits\<close>)

section \<open>From the bridges\<close>

lemma subscribed_fine:
  assumes "hub_ok g"
  shows "hub_ok (handle_upstream_subscribed w sp u sub g)"
proof (cases "\<exists>key ds b. map_of (hb_upstream_index g) u = Some key \<and> map_of (hb_streams g) key = Some ds \<and> map_of (ds_upstreams ds) u = Some b")
  case True
  then obtain key ds b where k: "map_of (hb_upstream_index g) u = Some key" "map_of (hb_streams g) key = Some ds" "map_of (ds_upstreams ds) u = Some b" by blast
  define b1 where "b1 = b\<lparr>ub_epoch := sb_stream_epoch sub, ub_last_seq := sb_base_sequence sub - 1,
    ub_snapshot_covers := sb_base_sequence sub, ub_snapshot_received := False\<rparr>"
  define ds1 where "ds1 = ds\<lparr>ds_upstreams := AList.update u b1 (ds_upstreams ds)\<rparr>"
  define ds2 where "ds2 = all_awaiting ((clear_stream ds1)\<lparr>ds_epoch := ds_epoch ds1 + 1\<rparr>)"
  define n where "n = tell_all w (resync_required_env sp (ds_stream_id ds)) (map fst (ds_subscribers ds2)) (hb_net g)"
  define envs where "envs = subscribe_envs sp (snd key) (map (ub_device \<circ> snd) (filter (\<lambda>(v, _). v \<noteq> u) (ds_upstreams ds1)))"
  have eq: "handle_upstream_subscribed w sp u sub g = (if ub_snapshot_received b \<and> ub_epoch b \<noteq> sb_stream_epoch sub
      then send_all_to_bridges w envs (put_stream key (rebind_others u (snd key) ds2) (g\<lparr>hb_net := n\<rparr>)) else put_stream key ds1 g)"
    using k by (simp add: handle_upstream_subscribed_def Let_def b1_def ds1_def ds2_def n_def envs_def)
  have 1: "hub_ok (put_stream key ds1 g)"
    by (rule hub_fine_put_same [OF assms k(2), where ds' = ds1]) (simp_all add: ds1_def same_frames_def)
  have "hub_ok (put_stream key (rebind_others u (snd key) ds2) (g\<lparr>hb_net := n\<rparr>))"
    by (rule restart_hub_fine [OF assms k(2), where ds' = "rebind_others u (snd key) ds2"])
      (simp_all add: rebind_others_def Let_def ds2_def ds1_def all_awaiting_def clear_stream_def clear_pending_def n_def quiet_tell_all)
  then show ?thesis using 1 unfolding eq by (auto intro: hub_fine_cong)
qed (use assms in \<open>auto simp: handle_upstream_subscribed_def split: option.splits\<close>)

lemma upstream_resync_fine:
  assumes "hub_ok g"
  shows "hub_ok (upstream_resync w sp d u g)"
proof (cases "\<exists>key ds b. map_of (hb_upstream_index g) u = Some key \<and> map_of (hb_streams g) key = Some ds \<and> map_of (ds_upstreams ds) u = Some b")
  case True
  then obtain key ds b where k: "map_of (hb_upstream_index g) u = Some key" "map_of (hb_streams g) key = Some ds" "map_of (ds_upstreams ds) u = Some b" by blast
  let ?ds = "ds\<lparr>ds_upstreams := AList.update u (b\<lparr>ub_snapshot_received := False\<rparr>) (ds_upstreams ds)\<rparr>"
  have "hub_ok (put_stream key ?ds g)" by (rule hub_fine_put_same [OF assms k(2), where ds' = ?ds]) (simp_all add: same_frames_def)
  then show ?thesis using k by (auto simp: upstream_resync_def intro: hub_fine_cong)
qed (use assms in \<open>auto simp: upstream_resync_def split: option.splits\<close>)

lemma resync_encodes:
  "wire_ok w \<Longrightarrow> good_stamp sp \<Longrightarrow> stream_fine xs n key ds \<Longrightarrow> encode_direct w (resync_required_env sp (ds_stream_id ds)) \<noteq> []"
  by (simp add: wire_ok_def stream_fine_def)

lemma fanned_fine:
  assumes "hub_ok g" "map_of (hb_streams g) key = Some ds" "hb_streams g' = AList.update key ds' (hb_streams g)"
    and "ds_stream_id ds' = ds_stream_id ds" "map fst (ds_subscribers ds') = map fst (ds_subscribers ds)" "ds_ok ds'" "ds_tagged ds'"
    and "follows (set slow) (hb_net g') ds'" "\<And>sid. sid \<noteq> ds_stream_id ds \<Longrightarrow> quiet sid (hb_net g) (hb_net g')"
  shows "hub_ok (foldl (detach_failed_subscriber w sp key) g' slow)"
proof -
  note f = hub_fineD [OF assms(1,2)]
  have "nw_browsers (hb_net g') = nw_browsers (hb_net g)"
    using assms(9) [of "CHR ''-'' # ds_stream_id ds"] by (simp add: quiet_def)
  then have "ours (hb_net g') (fst key) ds'" using f(1) ours_map assms(5) by (auto simp: stream_fine_def)
  then have "stream_fine (set slow) (hb_net g') key ds'" using f(1) assms(4-8) by (simp add: stream_fine_def)
  then have "hub_fine ((\<lambda>_. {})(key := set slow)) g'"
    using f(2) assms(4,9) by (intro hub_fine_put [OF assms(1,3)]) simp_all
  from detach_all_fine [OF this, of key slow w sp] show ?thesis by simp
qed

lemma stash_events_fine:
  assumes "hub_ok g" "map_of (hb_streams g) key = Some ds"
  shows "hub_ok (stash_events w sp u env es key ds g)"
proof -
  define pb where "pb = \<lparr>pb_upstream_id = u, pb_upstream_seq = ev_sequence env, pb_sent_at = ev_sent_at env,
    pb_device_id = ev_device_id env, pb_events = es\<rparr>"
  obtain ds1 over where p: "push_pending (wi_evlen w) pb ds = (ds1, over)" by fastforce
  then have same: "same_frames ds ds1" "ds_subscribers ds1 = ds_subscribers ds"
    by (auto simp: push_pending_def same_frames_def split: prod.splits)
  have 1: "hub_ok (put_stream key ds1 g)" by (rule hub_fine_put_same [OF assms same]) simp_all
  obtain ds2 devices where r: "refresh_snapshot_envs True ds1 = (ds2, devices)" by fastforce
  let ?n = "tell_all w (resync_required_env sp (ds_stream_id ds1)) (map fst (ds_subscribers ds1)) (hb_net g)"
  have "hub_ok (put_stream key ds2 (g\<lparr>hb_net := ?n\<rparr>))"
    using same by (intro restart_hub_fine [OF assms, where ds' = ds2]) (simp_all add: refresh_facts [OF r] same_frames_def quiet_tell_all)
  then show ?thesis using 1 p r by (cases over) (auto simp: stash_events_def pb_def [symmetric] intro: hub_fine_cong)
qed

lemma fan_out_fine:
  assumes "hub_ok g" "wire_ok w" "good_stamp sp"
  shows "hub_ok (fst (fan_out_events w sp u env es g))"
proof (cases "\<exists>key ds b. map_of (hb_upstream_index g) u = Some key \<and> map_of (hb_streams g) key = Some ds \<and> map_of (ds_upstreams ds) u = Some b")
  case True
  then obtain key ds b where k: "map_of (hb_upstream_index g) u = Some key" "map_of (hb_streams g) key = Some ds" "map_of (ds_upstreams ds) u = Some b" by blast
  note f = hub_fineD [OF assms(1) k(2)]
  define ds1 where "ds1 = (if ev_sequence env \<noteq> 0
    then ds\<lparr>ds_upstreams := AList.update u (b\<lparr>ub_last_seq := ev_sequence env\<rparr>) (ds_upstreams ds)\<rparr> else ds)"
  have same: "same_frames ds ds1" "ds_subscribers ds1 = ds_subscribers ds" by (simp_all add: ds1_def same_frames_def)
  have f1: "stream_fine {} (hb_net g) key ds1" by (rule stream_fine_same [OF f(1) same])
  obtain ds2 n slow where fe: "fan_events w sp env es ds1 (hb_net g) = (ds2, n, slow)" by (metis prod.exhaust)
  note facts = fan_events_facts [OF fe]
  have "follows ({} \<union> set slow) n ds2"
    using f1 resync_encodes [OF assms(2,3) f1] by (intro fan_events_follows [OF fe]) (simp_all add: stream_fine_def)
  then have "hub_ok (foldl (detach_failed_subscriber w sp key) (put_stream key ds2 (g\<lparr>hb_net := n\<rparr>)) slow)"
    using facts f1 same by (intro fanned_fine [OF assms(1) k(2), where ds' = ds2]) (simp_all add: stream_fine_def same_frames_def)
  moreover have "hub_ok (stash_events w sp u env es key ds g)" by (rule stash_events_fine [OF assms(1) k(2)])
  ultimately have all: "\<forall>h. h \<in> {g, stash_events w sp u env es key ds g,
      foldl (detach_failed_subscriber w sp key) (put_stream key ds2 (g\<lparr>hb_net := n\<rparr>)) slow} \<longrightarrow> hub_ok h" using assms(1) by blast
  have "fst (fan_out_events w sp u env es g) \<in> {g, stash_events w sp u env es key ds g,
      foldl (detach_failed_subscriber w sp key) (put_stream key ds2 (g\<lparr>hb_net := n\<rparr>)) slow}"
    using k fe unfolding ds1_def by (auto simp: fan_out_events_def Let_def split: if_splits)
  then show ?thesis using all by blast
qed (use assms in \<open>auto simp: fan_out_events_def split: option.splits\<close>)

lemma flush_pending_fine: "hub_ok g \<Longrightarrow> wire_ok w \<Longrightarrow> good_stamp sp \<Longrightarrow> hub_ok (fst (flush_pending w sp key pbs g))"
  by (induction pbs arbitrary: g) (simp_all add: Let_def case_prod_beta fan_out_fine)

lemma snapshot_fine:
  assumes "hub_ok g" "wire_ok w" "good_stamp sp"
  shows "hub_ok (fst (handle_upstream_snapshot w sp u env g))"
proof (cases "\<exists>key ds ds1. map_of (hb_upstream_index g) u = Some key \<and> map_of (hb_streams g) key = Some ds \<and>
    ds_apply_snapshot (wi_elen w) (sp_now sp) u env ds = Some ds1")
  case True
  then obtain key ds ds1 where k: "map_of (hb_upstream_index g) u = Some key" "map_of (hb_streams g) key = Some ds"
    "ds_apply_snapshot (wi_elen w) (sp_now sp) u env ds = Some ds1" by blast
  note f = hub_fineD(1) [OF assms(1) k(2), unfolded stream_fine_def]
  obtain subs n bad where fs: "flush_subs w sp ds1 (ds_subscribers ds1) (hb_net g) = (subs, n, bad)" by (metis prod.exhaust)
  have ok1: "ds_ok ds1" "ds_tagged ds1" using f ds_apply_snapshot_ok [OF _ k(3)] apply_snapshot_facts(7) [OF k(3)] by blast+
  note ff = flush_subs_follows [OF _ k(3) ok1(1) _ _ fs]
  have "follows (set bad) n (ds1\<lparr>ds_subscribers := subs\<rparr>)" "map fst subs = map fst (ds_subscribers ds)"
    "\<And>sid. sid \<noteq> ds_stream_id ds \<Longrightarrow> quiet sid (hb_net g) n" using ff f by blast+
  then have "hub_ok (foldl (detach_failed_subscriber w sp key) (put_stream key (ds1\<lparr>ds_subscribers := subs\<rparr>) (g\<lparr>hb_net := n\<rparr>)) bad)"
    using apply_snapshot_facts(1) [OF k(3)] same_frames_ok [of ds1 "ds1\<lparr>ds_subscribers := subs\<rparr>"] ok1
    by (intro fanned_fine [OF assms(1) k(2), where ds' = "ds1\<lparr>ds_subscribers := subs\<rparr>"]) (simp_all add: same_frames_def)
  from flush_pending_fine [OF this assms(2,3), of key "ds_pending ds"]
  show ?thesis using k fs by (simp add: handle_upstream_snapshot_def)
qed (use assms in \<open>auto simp: handle_upstream_snapshot_def split: option.splits\<close>)

section \<open>Presence and memory\<close>

lemma presence_stream:
  assumes "f = presence_frame w sp d online ds"
    and "ds1 = ds\<lparr>ds_next_seq := ds_next_seq ds + 1, ds_buffer := fst (stream_buffer_insert (wi_elen w) (sp_now sp) f (ds_buffer ds))\<rparr>"
    and "ds_ok ds" "ds_tagged ds"
  shows "f_seq f = ds_next_seq ds" "tagged (ds_stream_id ds) f" "ds_ok ds1" "ds_tagged ds1"
proof -
  show fs: "f_seq f = ds_next_seq ds" and ft: "tagged (ds_stream_id ds) f"
    using assms(1) by (simp_all add: presence_frame_def frame_new_def frame_with_upstream_seq_def tagged_def)
  obtain b out where i: "stream_buffer_insert (wi_elen w) (sp_now sp) f (ds_buffer ds) = (b, out)" by fastforce
  have solid: "crit_solid f" using assms(1) by (simp add: presence_frame_def frame_new_def frame_with_upstream_seq_def crit_solid_def)
  show "ds_tagged ds1" using assms(2,4) i insert_tagged [OF i _ ft] by (simp add: ds_tagged_def)
  show "ds_ok ds1" using append_frame_ok [OF assms(3) i fs solid] assms(2) i by simp
qed

lemma presence_one_fine:
  assumes "hub_ok g"
  shows "hub_ok (presence_one w sp d online g key)"
proof (cases "map_of (hb_streams g) key")
  case (Some ds)
  define f where "f = presence_frame w sp d online ds"
  define ds1 where "ds1 = ds\<lparr>ds_next_seq := ds_next_seq ds + 1, ds_buffer := fst (stream_buffer_insert (wi_elen w) (sp_now sp) f (ds_buffer ds))\<rparr>"
  note s = hub_fineD(1) [OF assms Some, unfolded stream_fine_def]
  note p = presence_stream [OF f_def ds1_def]
  obtain n slow where ff: "fan_frame f (ds_subscribers ds) (hb_net g) = (n, slow)" by fastforce
  have "follows ({} \<union> set slow) n ds1"
    using s p by (intro fan_frame_follows [OF _ _ ff]) (simp_all add: ds1_def tagged_def)
  moreover have "sid \<noteq> ds_stream_id ds \<Longrightarrow> quiet sid (hb_net g) n" for sid
    using fan_frame_quiet [OF ff] p(2) s by (auto simp: tagged_def)
  ultimately have "hub_ok (foldl (detach_failed_subscriber w sp key) (put_stream key ds1 (g\<lparr>hb_net := n\<rparr>)) slow)"
    using p(3,4) s by (intro fanned_fine [OF assms Some, where ds' = ds1]) (simp_all add: ds1_def)
  then show ?thesis using Some ff assms by (simp add: presence_one_def Let_def f_def [symmetric] ds1_def [symmetric]) (simp add: ds1_def)
qed (use assms in \<open>simp add: presence_one_def\<close>)

lemma presence_fine: "hub_ok g \<Longrightarrow> hub_ok (fan_out_presence w sp d owner online g)"
  unfolding fan_out_presence_def by (erule hub_fine_foldl) (rule presence_one_fine)

lemma collect_fine: "hub_fine xs g \<Longrightarrow> hub_fine xs (collect_streams g)"
  by (erule hub_fine_filter [where P = "\<lambda>(k, ds). ds_subscribers ds \<noteq> []"]) (simp_all add: collect_streams_def Let_def)

lemma sweep_fine:
  assumes "hub_ok g" "wire_ok w" "good_stamp sp"
  shows "hub_ok (sweep_global_memory w sp g)"
proof -
  define total where "total = sum_list (map (charged \<circ> snd) (hb_streams (collect_streams g))) +
    sum_list (map (\<lambda>(c, i). ob_bytes (nw_box (hb_net (collect_streams g)) c)) (nw_browsers (hb_net (collect_streams g))))"
  define g2 where "g2 = (collect_streams g)\<lparr>hb_global_buffer_bytes := total\<rparr>"
  have ok: "hub_ok g2" using collect_fine [OF assms(1)] by (auto simp: g2_def intro: hub_fine_cong)
  have "hub_ok ((put_stream key (clear_stream ds) g2)\<lparr>hb_net :=
      tell_all w (resync_required_env sp (ds_stream_id ds)) (map fst (ds_subscribers ds)) (hb_net g2)\<rparr>)"
    if k: "map_of (hb_streams g2) key = Some ds" for key ds
  proof -
    note f = hub_fineD(1) [OF ok k]
    let ?n = "tell_all w (resync_required_env sp (ds_stream_id ds)) (map fst (ds_subscribers ds)) (hb_net g2)"
    have sel: "ds_stream_id (clear_stream ds) = ds_stream_id ds" "ds_subscribers (clear_stream ds) = ds_subscribers ds"
      by (simp_all add: clear_stream_def clear_pending_def)
    have "follows {} ?n (clear_stream ds)"
      using follows_told [of w sp "clear_stream ds" "{}" "hb_net g2"] resync_encodes [OF assms(2,3) f] sel by simp
    then have "hub_ok (foldl (detach_failed_subscriber w sp key) ((put_stream key (clear_stream ds) g2)\<lparr>hb_net := ?n\<rparr>) [])"
      using sel f cleared_ok by (intro fanned_fine [OF ok k, where ds' = "clear_stream ds"]) (simp_all add: stream_fine_def quiet_tell_all)
    then show ?thesis by simp
  qed
  then show ?thesis using ok
    by (auto simp: sweep_global_memory_def Let_def total_def [symmetric] g2_def [symmetric] split: option.splits)
qed

section \<open>Every step\<close>

lemma hub_step_ok:
  assumes "wire_ok w" "hub_ok g"
  shows "hub_ok (hub_step w g x)"
proof (cases x)
  case (HSubscribeBind sp sid c tag needs)
  then show ?thesis using assms(2) fresh_other subscribe_bind_fine
    by (auto simp: with_owner_def may_open_def good_sid_def split: option.splits)
next
  case (HSubscribeAttach sp sid c tag corr)
  then show ?thesis using assms(2) fresh_other subscribe_attach_fine
    by (auto simp: with_owner_def may_open_def good_sid_def split: option.splits)
next
  case (HEnsure sp d owner)
  then show ?thesis using assms(2) by (simp add: ensure_bindings_def bind_keys_fine)
next
  case (HReply sp d p c)
  have "hub_ok (g\<lparr>hb_net := net_tell w (base_envelope sp d p) c (hb_net g)\<rparr>)" if "is_reply p"
    using assms(2) by (rule hub_fine_quiet) (simp add: quiet_tell about_reply that)
  then show ?thesis using HReply assms(2) by simp
next
  case (HBrowserTakes c)
  then show ?thesis using assms(2) by (auto intro: hub_fine_quiet quiet_take)
qed (use assms in \<open>auto intro: register_browser_fine close_browser_fine close_all_fine remove_browser_fine remove_bridge_fine
    unsubscribe_fine resync_fine ack_fine subscribed_fine snapshot_fine fan_out_fine upstream_resync_fine presence_fine
    sweep_fine begin_shutdown_fine hub_fine_cong\<close>)

lemma hub_new_ok: "hub_ok hub_new"
  by (simp add: hub_fine_def hub_new_def)

interpretation hub_m: op_machine_init "hub_step w" "\<lambda>g. wire_ok w \<longrightarrow> hub_ok g" hub_new
  for w
  by unfold_locales (auto intro: hub_step_ok hub_new_ok)


text \<open>A browser of user \<open>o\<close> follows the list stream of device \<open>d\<close>: subscription, first snapshot, one event.\<close>

definition ex_wire :: wire where
  "ex_wire = \<lparr>wi_elen = (\<lambda>_. 1), wi_enc = (\<lambda>_. Some [1]), wi_evlen = (\<lambda>_. 1), wi_uuid = Some\<rparr>"

definition ex_stamp :: stamp where
  "ex_stamp = \<lparr>sp_message_id = ''m'', sp_correlation = ''q'', sp_sent_at = None, sp_now = 0\<rparr>"

definition ex_ops :: "hub_op list" where
  "ex_ops = [HRegister ''c'' \<lparr>bi_auth_session_id = ''a'', bi_owner_id = ''o'', bi_expires_at = 9\<rparr> 10 1000,
     HSubscribeBind ex_stamp ''s'' ''c'' TList [(''d'', TList)],
     HSubscribeAttach ex_stamp ''t'' ''c'' TList ''q'',
     HSubscribed ex_stamp ''u-d-list'' \<lparr>sb_stream_id = ''u-d-list'', sb_stream_epoch = 1, sb_base_sequence = 1\<rparr>,
     HSnapshot ex_stamp ''u-d-list'' (base_envelope ex_stamp ''d'' PHeartbeat),
     HEvents ex_stamp ''u-d-list'' ((base_envelope ex_stamp ''d'' PHeartbeat)\<lparr>ev_sequence := 2\<rparr>) [QueueStateChanged []]]"

definition ex_active :: "hub \<Rightarrow> dkey \<Rightarrow> uuid \<Rightarrow> bool" where
  "ex_active g key c = (case map_of (hb_streams g) key of None \<Rightarrow> False
     | Some ds \<Rightarrow> (case map_of (ds_subscribers ds) c of None \<Rightarrow> False | Some s \<Rightarrow> \<not> su_awaiting_snapshot s \<and> ds_next_seq ds = 3) \<and>
         connected c (hb_net g) \<and> \<not> ob_closed (nw_box (hb_net g) c))"

lemma ex_wire_ok: "wire_ok ex_wire"
  by (simp add: wire_ok_def ex_wire_def encode_direct_def encode_envelope_def MAX_FRAME_BYTES_def)

lemmas hub_run = hub_new_def ex_wire_def ex_stamp_def register_browser_def unused_conn_def good_sid_def with_owner_def
  subscribe_bind_def subscribe_attach_def stream_entry_def dstream_new_def stream_buffer_new_def outbox_new_def
  add_binding_def put_stream_def fresh_binding_def send_all_to_bridges_def send_to_bridge_def add_browser_stream_def
  handle_upstream_subscribed_def handle_upstream_snapshot_def ds_apply_snapshot_def retain_uncovered_def cache_snapshot_def
  frame_new_def frame_with_upstream_seq_def recovery_window_def full_replay_def surviving_frames_def replay_base_def
  send_window_def net_direct_def net_frame_def log_sent_def push_direct_def push_frame_def encode_direct_def encode_envelope_def
  fan_out_events_def ds_append_event_def event_frame_def stream_buffer_insert_def place_frame_def within_limits_def
  subscribed_env_def base_envelope_def upstream_subscribe_env_def MAX_FRAME_BYTES_def SNAPSHOT_CACHE_MAX_def
  BUFFER_MAX_EVENTS_def BUFFER_MAX_BYTES_def BUFFER_RETENTION_def replace_key.simps Let_def

lemma ex_hub_active: "ex_active (foldl (hub_step ex_wire) hub_new ex_ops) (''o'', TList) ''c''"
  by (simp add: ex_ops_def ex_active_def hub_run)



end
