(* ===== verification/Relay_Db.thy ===== *)
theory Relay_Db
  imports Hub
begin

text \<open>
  The relay's tables (\<open>apps/relay/migrations\<close>) as lists of rows in insertion order, together with
  the hub and the rate limiters: the state that the HTTP and WebSocket handlers share. Instants are
  milliseconds. A statement of the database is atomic; a handler that runs several is several definitions.
\<close>

section \<open>Rows\<close>

record device_row =
  dv_id :: uuid
  dv_owner_id :: uuid
  dv_display_name :: string
  dv_platform :: string
  dv_arch :: string
  dv_bridge_version :: string
  dv_credential_digest :: string
  dv_paired_at :: nat
  dv_revoked_at :: "nat option"
  dv_last_seen_at :: "nat option"
  dv_compatibility_summary :: string
  dv_control_summary :: string
  dv_privacy_hide_titles :: bool

record challenge_row =
  ch_id :: uuid
  ch_owner_id :: "uuid option"
  ch_challenge_digest :: string
  ch_short_code_digest :: string
  ch_device_name :: "string option"
  ch_platform :: "string option"
  ch_arch :: "string option"
  ch_bridge_version :: "string option"
  ch_expires_at :: nat
  ch_attempt_count :: int
  ch_registered_at :: "nat option"
  ch_approved_at :: "nat option"
  ch_credential_delivered_at :: "nat option"
  ch_consumed_at :: "nat option"
  ch_created_at :: nat

record summary_row =
  sr_id :: uuid
  sr_device_id :: uuid
  sr_agent_kind :: string
  sr_native_session_id :: string
  sr_title :: string
  sr_project_display_name :: string
  sr_current_branch :: string
  sr_device_connection :: string
  sr_device_last_seen_at :: "timestamp option"
  sr_degraded_reason :: string
  sr_control_mode :: string
  sr_compatibility_state :: string
  sr_active_turn_phase :: string
  sr_pending_attention_count :: int
  sr_pending_attention_kinds :: "string list"
  sr_queue_state :: string
  sr_last_turn_outcome :: string
  sr_runtime_revision :: int
  sr_last_updated_at :: timestamp
  sr_pinned :: bool
  sr_muted :: bool
  sr_archived :: bool

record receipt_entry =
  rw_request_id :: string
  rw_owner_id :: uuid
  rw_session_id :: "uuid option"
  rw_operation :: string
  rw_payload_digest :: string
  rw_status :: string
  rw_error_code :: string
  rw_created_at :: nat
  rw_updated_at :: nat

record audit_event =
  au_owner_id :: uuid
  au_device_id :: "uuid option"
  au_session_id :: "uuid option"
  au_request_id :: "string option"
  au_operation :: string
  au_result :: string
  au_latency_ms :: "int option"

record audit_row = audit_event +
  au_id :: int
  au_created_at :: nat

record relay =
  rl_hub :: hub
  rl_devices :: "device_row list"
  rl_challenges :: "challenge_row list"
  rl_sessions :: "summary_row list"
  rl_receipts :: "receipt_entry list"
  rl_audit :: "audit_row list"
  rl_register_limiter :: rate_map
  rl_claim_limiter :: rate_map
  rl_lookup_limiter :: rate_map
  rl_approve_limiter :: rate_map

definition relay_new :: relay where
  "relay_new = \<lparr>rl_hub = hub_new, rl_devices = [], rl_challenges = [], rl_sessions = [], rl_receipts = [], rl_audit = [],
     rl_register_limiter = [], rl_claim_limiter = [], rl_lookup_limiter = [], rl_approve_limiter = []\<rparr>"

text \<open>Audit rows are numbered by the database; a failing insertion is only logged.\<close>

definition record_audit :: "nat \<Rightarrow> audit_event \<Rightarrow> relay \<Rightarrow> relay" where
  "record_audit now e r = r\<lparr>rl_audit := rl_audit r @ [audit_event.extend e (audit_row.fields (int (length (rl_audit r)) + 1) now)]\<rparr>"

section \<open>Text\<close>

text \<open>The first \<open>n\<close> characters of a UTF-8 text.\<close>

definition is_cont_char :: "char \<Rightarrow> bool" where
  "is_cont_char c \<longleftrightarrow> 128 \<le> (of_char c :: nat) \<and> (of_char c :: nat) < 192"

fun take_chars :: "nat \<Rightarrow> string \<Rightarrow> string" where
  "take_chars 0 s = []"
| "take_chars n [] = []"
| "take_chars (Suc n) (c # s) = c # takeWhile is_cont_char s @ take_chars n (dropWhile is_cont_char s)"

section \<open>Enumerations\<close>

text \<open>The names of the protocol's enumerations, by number.\<close>

definition DEVICE_CONNECTION :: "string list" where
  "DEVICE_CONNECTION = [''DEVICE_CONNECTION_UNSPECIFIED'', ''CONNECTION_CONNECTING'', ''CONNECTION_ONLINE'', ''CONNECTION_DEGRADED'', ''CONNECTION_OFFLINE'']"

definition CONTROL_MODE :: "string list" where
  "CONTROL_MODE = [''CONTROL_MODE_UNSPECIFIED'', ''CONTROL_MODE_FULL_CONTROL'', ''CONTROL_MODE_LIMITED_CONTROL'', ''CONTROL_MODE_READ_ONLY'', ''CONTROL_MODE_UNAVAILABLE'']"

definition COMPATIBILITY_STATE :: "string list" where
  "COMPATIBILITY_STATE = [''COMPATIBILITY_STATE_UNSPECIFIED'', ''COMPATIBILITY_VERIFIED'', ''COMPATIBILITY_DEGRADED'', ''COMPATIBILITY_UNSUPPORTED'']"

definition ACTIVE_TURN_PHASE :: "string list" where
  "ACTIVE_TURN_PHASE = [''ACTIVE_TURN_PHASE_UNSPECIFIED'', ''TURN_PHASE_IDLE'', ''TURN_PHASE_RUNNING'', ''TURN_PHASE_FINISHING'']"

definition PENDING_ATTENTION_KIND :: "string list" where
  "PENDING_ATTENTION_KIND = [''PENDING_ATTENTION_KIND_UNSPECIFIED'', ''ATTENTION_USER_QUESTION'', ''ATTENTION_RISK_APPROVAL'']"

definition QUEUE_STATE :: "string list" where
  "QUEUE_STATE = [''QUEUE_STATE_UNSPECIFIED'', ''QUEUE_STATE_EMPTY'', ''QUEUE_STATE_QUEUED'', ''QUEUE_STATE_PAUSED'']"

definition LAST_TURN_OUTCOME :: "string list" where
  "LAST_TURN_OUTCOME = [''LAST_TURN_OUTCOME_UNSPECIFIED'', ''TURN_OUTCOME_COMPLETED'', ''TURN_OUTCOME_FAILED'', ''TURN_OUTCOME_INTERRUPTED'', ''TURN_OUTCOME_UNKNOWN'']"

definition OPERATION :: "string list" where
  "OPERATION = [''OPERATION_UNSPECIFIED'', ''OPERATION_CREATE_TASK'', ''OPERATION_START_TURN'', ''OPERATION_QUEUE_SET'', ''OPERATION_QUEUE_REPLACE'',
     ''OPERATION_QUEUE_CANCEL'', ''OPERATION_STEER'', ''OPERATION_INTERRUPT'', ''OPERATION_ANSWER_QUESTION'', ''OPERATION_ANSWER_APPROVAL'',
     ''OPERATION_UPDATE_SETTINGS'', ''OPERATION_RENAME_TASK'', ''OPERATION_ARCHIVE_TASK'', ''OPERATION_UNARCHIVE_TASK'', ''OPERATION_FORK_TASK'',
     ''OPERATION_STOP_BACKGROUND_COMMAND'', ''OPERATION_STOP_ALL_BACKGROUND_COMMANDS'']"

definition enum_name :: "string list \<Rightarrow> int \<Rightarrow> string option" where
  "enum_name names n = (if 0 \<le> n \<and> nat n < length names then Some (names ! nat n) else None)"

definition enum_or :: "string list \<Rightarrow> int \<Rightarrow> string \<Rightarrow> string" where
  "enum_or names n fallback = (case enum_name names n of Some s \<Rightarrow> s | None \<Rightarrow> fallback)"

end
