(* ===== verification/Devices.thy ===== *)
theory Devices
  imports Relay_Db
begin

text \<open>
  Pairing, devices and the bridge's connection (\<open>apps/relay/src/devices\<close>). The hash function is the
  argument \<open>sha\<close>; random values, the clock and whether the database answers (\<open>ok\<close>) are arguments too.
  The database refuses a row whose primary key, or a device whose credential digest, it has already.
\<close>

section \<open>Pairing\<close>

definition PAIRING_TTL :: nat where "PAIRING_TTL = 5 * 60 * 1000"
definition PAIRING_MAX_ATTEMPTS :: int where "PAIRING_MAX_ATTEMPTS = 5"
definition PAIRING_RATE_WINDOW :: nat where "PAIRING_RATE_WINDOW = 5 * 60 * 1000"
definition PAIRING_REGISTER_RATE_LIMIT :: u32 where "PAIRING_REGISTER_RATE_LIMIT = 10"
definition PAIRING_CLAIM_RATE_LIMIT :: u32 where "PAIRING_CLAIM_RATE_LIMIT = 600"
definition PAIRING_LOOKUP_RATE_LIMIT :: u32 where "PAIRING_LOOKUP_RATE_LIMIT = 30"
definition PAIRING_APPROVE_RATE_LIMIT :: u32 where "PAIRING_APPROVE_RATE_LIMIT = 30"

text \<open>Responses: a status with stable code and reason, or the body of a success.\<close>

datatype pair_resp =
    PairErr nat stable_error_code string
  | PairRegistered uuid string
  | PairPending
  | PairReady uuid string
  | PairInfo uuid "string option" "string option" "string option" "string option" nat
  | PairApproved uuid nat

definition pair_internal :: pair_resp where
  "pair_internal = PairErr 500 InternalError ''INTERNAL_ERROR''"

definition pair_limited :: pair_resp where
  "pair_limited = PairErr 429 RateLimited ''RATE_LIMITED''"

definition is_valid_challenge :: "string \<Rightarrow> bool" where
  "is_valid_challenge s \<longleftrightarrow> length s = 43 \<and> list_all (\<lambda>c. let n = (of_char c :: nat) in
     48 \<le> n \<and> n \<le> 57 \<or> 65 \<le> n \<and> n \<le> 90 \<or> 97 \<le> n \<and> n \<le> 122 \<or> c = CHR ''-'' \<or> c = CHR ''_'') s"

record register_body =
  rb_challenge :: string
  rb_device_name :: string
  rb_platform :: string
  rb_arch :: string
  rb_bridge_version :: string

definition register_challenge :: "(string \<Rightarrow> string) \<Rightarrow> ip_addr \<Rightarrow> register_body \<Rightarrow> uuid \<Rightarrow> string \<Rightarrow> nat \<Rightarrow> bool \<Rightarrow> relay \<Rightarrow> relay \<times> pair_resp" where
  "register_challenge sha ip body new_id code now ok r =
    (case rate_hit ip PAIRING_REGISTER_RATE_LIMIT PAIRING_RATE_WINDOW now (rl_register_limiter r) of (m, limited) \<Rightarrow>
      (let r1 = r\<lparr>rl_register_limiter := m\<rparr>; challenge = str_trim (rb_challenge body)
       in if limited then (r1, pair_limited)
          else if \<not> is_valid_challenge challenge then (r1, PairErr 401 AuthRequired ''INVALID_CHALLENGE'')
          else if \<not> ok \<or> new_id \<in> ch_id ` set (rl_challenges r1) then (r1, pair_internal)
          else (r1\<lparr>rl_challenges := rl_challenges r1 @ [\<lparr>ch_id = new_id, ch_owner_id = None, ch_challenge_digest = sha challenge,
              ch_short_code_digest = sha code, ch_device_name = Some (take_chars 128 (str_trim (rb_device_name body))),
              ch_platform = Some (take_chars 64 (str_trim (rb_platform body))), ch_arch = Some (take_chars 32 (str_trim (rb_arch body))),
              ch_bridge_version = Some (take_chars 64 (str_trim (rb_bridge_version body))), ch_expires_at = now + PAIRING_TTL,
              ch_attempt_count = 0, ch_registered_at = Some now, ch_approved_at = None, ch_credential_delivered_at = None,
              ch_consumed_at = None, ch_created_at = now\<rparr>]\<rparr>, PairRegistered new_id code)))"

definition challenge_at :: "uuid \<Rightarrow> relay \<Rightarrow> challenge_row option" where
  "challenge_at cid r = List.find (\<lambda>x. ch_id x = cid) (rl_challenges r)"

definition update_challenge :: "uuid \<Rightarrow> (challenge_row \<Rightarrow> challenge_row) \<Rightarrow> relay \<Rightarrow> relay" where
  "update_challenge cid h r = r\<lparr>rl_challenges := map (\<lambda>x. if ch_id x = cid then h x else x) (rl_challenges r)\<rparr>"

text \<open>\<open>claim\<close> up to its transaction: \<open>Inr\<close> goes on to the transaction.\<close>

definition claim_check :: "(string \<Rightarrow> string) \<Rightarrow> ip_addr \<Rightarrow> uuid \<Rightarrow> string \<Rightarrow> nat \<Rightarrow> bool \<Rightarrow> relay \<Rightarrow> relay \<times> (pair_resp + unit)" where
  "claim_check sha ip cid challenge now ok r =
    (case rate_hit ip PAIRING_CLAIM_RATE_LIMIT PAIRING_RATE_WINDOW now (rl_claim_limiter r) of (m, limited) \<Rightarrow>
      (let r1 = r\<lparr>rl_claim_limiter := m\<rparr>
       in (r1, if limited then Inl pair_limited
          else case (if ok then challenge_at cid r1 else None) of
            None \<Rightarrow> Inl (PairErr 404 SessionNotFound ''NOT_FOUND'')
          | Some x \<Rightarrow>
              if sha (str_trim challenge) \<noteq> ch_challenge_digest x then Inl (PairErr 401 AuthRequired ''CHALLENGE_MISMATCH'')
              else if ch_expires_at x \<le> now then Inl (PairErr 410 ApprovalExpired ''EXPIRED'')
              else if ch_credential_delivered_at x \<noteq> None then Inl (PairErr 409 DuplicateRequestMismatch ''CONSUMED'')
              else if ch_approved_at x = None then Inl PairPending
              else Inr ())))"

text \<open>Its transaction: mark the challenge, create the device. Any failure rolls both back.\<close>

definition claim_commit :: "(string \<Rightarrow> string) \<Rightarrow> uuid \<Rightarrow> uuid \<Rightarrow> string \<Rightarrow> string \<Rightarrow> nat \<Rightarrow> bool \<Rightarrow> relay \<Rightarrow> relay \<times> pair_resp" where
  "claim_commit sha cid device credential rid now ok r =
    (if \<not> ok then (r, pair_internal)
     else case List.find (\<lambda>x. ch_id x = cid \<and> ch_approved_at x \<noteq> None \<and> ch_credential_delivered_at x = None \<and> ch_expires_at x > now) (rl_challenges r) of
       None \<Rightarrow> (r, PairErr 409 DuplicateRequestMismatch ''CONSUMED'')
     | Some x \<Rightarrow> (case ch_owner_id x of
         None \<Rightarrow> (r, pair_internal)
       | Some owner \<Rightarrow>
           if device \<in> dv_id ` set (rl_devices r) \<or> sha credential \<in> dv_credential_digest ` set (rl_devices r) then (r, pair_internal)
           else (let r1 = update_challenge cid (\<lambda>x. x\<lparr>ch_credential_delivered_at := Some now, ch_consumed_at := Some now\<rparr>) r;
                r2 = r1\<lparr>rl_devices := rl_devices r1 @ [\<lparr>dv_id = device, dv_owner_id = owner,
                  dv_display_name = (case ch_device_name x of Some s \<Rightarrow> s | None \<Rightarrow> ''Mac''),
                  dv_platform = (case ch_platform x of Some s \<Rightarrow> s | None \<Rightarrow> []), dv_arch = (case ch_arch x of Some s \<Rightarrow> s | None \<Rightarrow> []),
                  dv_bridge_version = (case ch_bridge_version x of Some s \<Rightarrow> s | None \<Rightarrow> []), dv_credential_digest = sha credential,
                  dv_paired_at = now, dv_revoked_at = None, dv_last_seen_at = None,
                  dv_compatibility_summary = ''COMPATIBILITY_STATE_UNSPECIFIED'', dv_control_summary = ''CONTROL_MODE_UNSPECIFIED'',
                  dv_privacy_hide_titles = False\<rparr>]\<rparr>
            in (record_audit now \<lparr>au_owner_id = owner, au_device_id = Some device, au_session_id = None, au_request_id = Some rid,
                  au_operation = ''pairing_claim'', au_result = ''OK'', au_latency_ms = None\<rparr> r2, PairReady device credential))))"

text \<open>The newest of some rows; of equally old ones the one inserted last.\<close>

definition newest :: "challenge_row list \<Rightarrow> challenge_row option" where
  "newest xs = foldl (\<lambda>acc x. case acc of Some a \<Rightarrow> if ch_created_at x \<ge> ch_created_at a then Some x else acc | None \<Rightarrow> Some x) None xs"

definition newest_by_short_code :: "string \<Rightarrow> relay \<Rightarrow> challenge_row option" where
  "newest_by_short_code digest r = newest (filter (\<lambda>x. ch_short_code_digest x = digest \<and> ch_registered_at x \<noteq> None) (rl_challenges r))"

definition pairing_lookup :: "(string \<Rightarrow> string) \<Rightarrow> ip_addr \<Rightarrow> string \<Rightarrow> nat \<Rightarrow> bool \<Rightarrow> relay \<Rightarrow> relay \<times> pair_resp" where
  "pairing_lookup sha ip code now ok r =
    (case rate_hit ip PAIRING_LOOKUP_RATE_LIMIT PAIRING_RATE_WINDOW now (rl_lookup_limiter r) of (m, limited) \<Rightarrow>
      (let r1 = r\<lparr>rl_lookup_limiter := m\<rparr>
       in (r1, if limited then pair_limited
          else if \<not> ok then pair_internal
          else case newest_by_short_code (sha (str_trim code)) r1 of
            None \<Rightarrow> PairErr 404 SessionNotFound ''NOT_FOUND''
          | Some x \<Rightarrow>
              if ch_expires_at x \<le> now then PairErr 404 SessionNotFound ''EXPIRED''
              else if ch_consumed_at x \<noteq> None then PairErr 404 SessionNotFound ''CANCELLED''
              else if ch_approved_at x \<noteq> None then PairErr 404 SessionNotFound ''ALREADY_APPROVED''
              else if ch_attempt_count x \<ge> PAIRING_MAX_ATTEMPTS then PairErr 429 RateLimited ''LOCKED''
              else PairInfo (ch_id x) (ch_device_name x) (ch_platform x) (ch_arch x) (ch_bridge_version x) (ch_expires_at x))))"

text \<open>\<open>approve\<close>: the short code is checked against the named challenge first; then one row is approved.\<close>

definition approvable :: "string \<Rightarrow> nat \<Rightarrow> challenge_row \<Rightarrow> bool" where
  "approvable digest now x \<longleftrightarrow> ch_short_code_digest x = digest \<and> ch_registered_at x \<noteq> None \<and> ch_approved_at x = None \<and>
     ch_consumed_at x = None \<and> ch_expires_at x > now \<and> ch_attempt_count x < PAIRING_MAX_ATTEMPTS"

definition approve_refusal :: "string \<Rightarrow> nat \<Rightarrow> relay \<Rightarrow> pair_resp" where
  "approve_refusal digest now r = (case newest_by_short_code digest r of
     None \<Rightarrow> PairErr 404 SessionNotFound ''NOT_FOUND''
   | Some x \<Rightarrow>
       if ch_expires_at x \<le> now then PairErr 410 ApprovalExpired ''EXPIRED''
       else if ch_consumed_at x \<noteq> None then PairErr 404 SessionNotFound ''CANCELLED''
       else if ch_approved_at x \<noteq> None then PairErr 409 DuplicateRequestMismatch ''ALREADY_APPROVED''
       else if ch_attempt_count x \<ge> PAIRING_MAX_ATTEMPTS then PairErr 429 RateLimited ''LOCKED''
       else PairErr 404 SessionNotFound ''NOT_FOUND'')"

definition approve_row :: "string \<Rightarrow> uuid \<Rightarrow> string \<Rightarrow> nat \<Rightarrow> relay \<Rightarrow> relay \<times> pair_resp" where
  "approve_row digest owner rid now r = (case newest (filter (approvable digest now) (rl_challenges r)) of
     None \<Rightarrow> (r, approve_refusal digest now r)
   | Some x \<Rightarrow> (record_audit now \<lparr>au_owner_id = owner, au_device_id = None, au_session_id = None, au_request_id = Some rid,
         au_operation = ''pairing_approve'', au_result = ''OK'', au_latency_ms = None\<rparr>
       (update_challenge (ch_id x) (\<lambda>y. y\<lparr>ch_approved_at := Some now, ch_owner_id := Some owner\<rparr>) r), PairApproved (ch_id x) now))"

definition pairing_approve :: "(string \<Rightarrow> string) \<Rightarrow> uuid \<Rightarrow> string \<Rightarrow> uuid option \<Rightarrow> string \<Rightarrow> nat \<Rightarrow> bool \<Rightarrow> relay \<Rightarrow> relay \<times> pair_resp" where
  "pairing_approve sha owner code named rid now ok r =
    (let digest = sha (str_trim code);
         go = (if ok then approve_row digest owner rid now r else (r, pair_internal))
     in case named of
          None \<Rightarrow> go
        | Some cid \<Rightarrow> (case (if ok then challenge_at cid r else None) of
            None \<Rightarrow> go
          | Some x \<Rightarrow>
              if digest = ch_short_code_digest x then go
              else (update_challenge cid (\<lambda>y. y\<lparr>ch_attempt_count := ch_attempt_count y + 1\<rparr>) r,
                if ch_attempt_count x + 1 > PAIRING_MAX_ATTEMPTS then PairErr 429 RateLimited ''LOCKED''
                else PairErr 401 AuthRequired ''CODE_MISMATCH'')))"

definition approve_challenge :: "(string \<Rightarrow> string) \<Rightarrow> ip_addr \<Rightarrow> uuid \<Rightarrow> string \<Rightarrow> uuid option \<Rightarrow> string \<Rightarrow> nat \<Rightarrow> bool \<Rightarrow> relay \<Rightarrow> relay \<times> pair_resp" where
  "approve_challenge sha ip owner code named rid now ok r =
    (case rate_hit ip PAIRING_APPROVE_RATE_LIMIT PAIRING_RATE_WINDOW now (rl_approve_limiter r) of (m, limited) \<Rightarrow>
      (let r1 = r\<lparr>rl_approve_limiter := m\<rparr>
       in if limited then (r1, pair_limited) else pairing_approve sha owner code named rid now ok r1))"

definition list_challenges :: "uuid \<Rightarrow> nat \<Rightarrow> relay \<Rightarrow> challenge_row list" where
  "list_challenges owner now r = take 20 (rev (sort_key ch_created_at (filter (\<lambda>x. ch_owner_id x = Some owner \<and> ch_approved_at x \<noteq> None \<and>
     ch_consumed_at x = None \<and> ch_credential_delivered_at x = None \<and> ch_expires_at x > now) (rl_challenges r))))"

definition cancel_challenge :: "uuid \<Rightarrow> uuid \<Rightarrow> nat \<Rightarrow> bool \<Rightarrow> relay \<Rightarrow> relay \<times> (stable_error_code + unit)" where
  "cancel_challenge owner cid now ok r =
    (if \<not> ok then (r, Inl InternalError)
     else if list_ex (\<lambda>x. ch_id x = cid \<and> ch_owner_id x = Some owner \<and> ch_consumed_at x = None) (rl_challenges r)
     then (update_challenge cid (\<lambda>x. x\<lparr>ch_consumed_at := Some now\<rparr>) r, Inr ())
     else (r, Inl SessionNotFound))"

section \<open>Devices\<close>

definition list_devices :: "uuid \<Rightarrow> relay \<Rightarrow> (device_row \<times> bool) list" where
  "list_devices owner r = map (\<lambda>d. (d, is_online (dv_id d) (rl_hub r)))
     (sort_key dv_paired_at (filter (\<lambda>d. dv_owner_id d = owner) (rl_devices r)))"

definition live_device :: "uuid \<Rightarrow> uuid \<Rightarrow> device_row \<Rightarrow> bool" where
  "live_device owner device d \<longleftrightarrow> dv_id d = device \<and> dv_owner_id d = owner \<and> dv_revoked_at d = None"

definition update_device :: "uuid \<Rightarrow> (device_row \<Rightarrow> device_row) \<Rightarrow> relay \<Rightarrow> relay" where
  "update_device device h r = r\<lparr>rl_devices := map (\<lambda>d. if dv_id d = device then h d else d) (rl_devices r)\<rparr>"

definition patch_device :: "uuid \<Rightarrow> uuid \<Rightarrow> string option \<Rightarrow> bool option \<Rightarrow> string \<Rightarrow> nat \<Rightarrow> bool \<Rightarrow> relay \<Rightarrow> relay \<times> (stable_error_code + unit)" where
  "patch_device owner device display_name hide rid now ok r =
    (let name = (case map_option str_trim display_name of Some s \<Rightarrow> if s \<noteq> [] \<and> length s \<le> 128 then Some s else None | None \<Rightarrow> None)
     in if \<not> ok then (r, Inl InternalError)
        else if list_ex (live_device owner device) (rl_devices r)
        then (record_audit now \<lparr>au_owner_id = owner, au_device_id = Some device, au_session_id = None, au_request_id = Some rid,
              au_operation = ''device_rename'', au_result = ''OK'', au_latency_ms = None\<rparr>
            (update_device device (\<lambda>d. d\<lparr>dv_display_name := (case name of Some s \<Rightarrow> s | None \<Rightarrow> dv_display_name d),
               dv_privacy_hide_titles := (case hide of Some b \<Rightarrow> b | None \<Rightarrow> dv_privacy_hide_titles d)\<rparr>) r), Inr ())
        else (r, Inl SessionNotFound))"

definition revoke_device :: "uuid \<Rightarrow> uuid \<Rightarrow> string \<Rightarrow> nat \<Rightarrow> bool \<Rightarrow> relay \<Rightarrow> relay \<times> (stable_error_code + unit)" where
  "revoke_device owner device rid now ok r =
    (if \<not> ok then (r, Inl InternalError)
     else if list_ex (live_device owner device) (rl_devices r)
     then (let r1 = update_device device (\<lambda>d. d\<lparr>dv_revoked_at := Some now\<rparr>) r
           in (record_audit now \<lparr>au_owner_id = owner, au_device_id = Some device, au_session_id = None, au_request_id = Some rid,
                au_operation = ''device_revoke'', au_result = ''OK'', au_latency_ms = None\<rparr>
              (r1\<lparr>rl_hub := force_close_bridge device (rl_hub r1)\<rparr>), Inr ()))
     else (r, Inl SessionNotFound))"

definition update_device_capability_summary :: "uuid \<Rightarrow> capability_snapshot \<Rightarrow> relay \<Rightarrow> relay" where
  "update_device_capability_summary device cap r = update_device device (\<lambda>d. d
     \<lparr>dv_compatibility_summary := enum_or COMPATIBILITY_STATE (cps_compatibility_state cap) (''COMPATIBILITY_STATE_'' @ show_int (cps_compatibility_state cap)),
      dv_control_summary := enum_or CONTROL_MODE (cps_control_mode cap) (''CONTROL_MODE_'' @ show_int (cps_control_mode cap))\<rparr>) r"

section \<open>The bridge's connection\<close>

text \<open>\<open>bridge_ws_handler\<close>: the device and owner of a credential.\<close>

definition bridge_auth :: "(string \<Rightarrow> string) \<Rightarrow> string option \<Rightarrow> relay \<Rightarrow> stable_error_code + uuid \<times> uuid" where
  "bridge_auth sha authorization r =
    (let bearer = (case authorization of None \<Rightarrow> [] | Some v \<Rightarrow> (case strip_prefix ''Bearer '' v of Some s \<Rightarrow> str_trim s | None \<Rightarrow> []))
     in case List.find (\<lambda>d. dv_credential_digest d = sha bearer) (rl_devices r) of
          None \<Rightarrow> Inl AuthRequired
        | Some d \<Rightarrow> if dv_revoked_at d \<noteq> None then Inl DeviceRevoked else Inr (dv_id d, dv_owner_id d))"

text \<open>The first message of a bridge.\<close>

definition bridge_handshake :: "uuid \<Rightarrow> payload option \<Rightarrow> string + unit" where
  "bridge_handshake device p = (case p of
     Some (PClientHello h) \<Rightarrow>
       if chl_protocol_version h = PROTOCOL_VERSION \<and> chl_client_kind h = 2
       then (if chl_device_id h = device then Inr () else Inl ''DEVICE_MISMATCH'')
       else Inl ''PROTOCOL_VERSION_MISMATCH''
   | _ \<Rightarrow> Inl ''PROTOCOL_VERSION_MISMATCH'')"

text \<open>\<open>bridge_session\<close>: what it does to the hub and the tables before and after its read loop.\<close>

definition set_device_connection :: "timestamp \<Rightarrow> uuid \<Rightarrow> string \<Rightarrow> relay \<Rightarrow> relay" where
  "set_device_connection now device connection r = r\<lparr>rl_sessions := map (\<lambda>s. if sr_device_id s = device
     then s\<lparr>sr_device_connection := connection,
       sr_device_last_seen_at := (if connection = ''CONNECTION_OFFLINE'' then Some now else sr_device_last_seen_at s)\<rparr> else s) (rl_sessions r)\<rparr>"

definition bridge_session_begin :: "wire \<Rightarrow> stamp \<Rightarrow> timestamp \<Rightarrow> nat \<Rightarrow> uuid \<Rightarrow> uuid \<Rightarrow> relay \<Rightarrow> relay" where
  "bridge_session_begin w sp now cap device owner r =
    (let conn = \<lparr>bn_owner = owner, bn_cap = cap, bn_queue = [], bn_open = True, bn_close_signal = False\<rparr>;
         r1 = r\<lparr>rl_hub := register_bridge w sp device conn (force_close_bridge device (rl_hub r))\<rparr>;
         r2 = set_device_connection now device ''CONNECTION_ONLINE'' (update_device device (\<lambda>d. d\<lparr>dv_last_seen_at := Some (sp_now sp)\<rparr>) r1)
     in r2\<lparr>rl_hub := fan_out_presence w sp device owner True (rl_hub r2)\<rparr>)"

definition update_receipt :: "string \<Rightarrow> string \<Rightarrow> string \<Rightarrow> nat \<Rightarrow> relay \<Rightarrow> relay" where
  "update_receipt rid status code now r = r\<lparr>rl_receipts := map (\<lambda>x. if rw_request_id x = rid
     then x\<lparr>rw_status := status, rw_error_code := code, rw_updated_at := now\<rparr> else x) (rl_receipts r)\<rparr>"

definition bridge_session_end :: "wire \<Rightarrow> stamp \<Rightarrow> timestamp \<Rightarrow> uuid \<Rightarrow> uuid \<Rightarrow> relay \<Rightarrow> relay" where
  "bridge_session_end w sp now device owner r = (case remove_bridge w sp device (rl_hub r) of (g, pendings) \<Rightarrow>
    (let r1 = set_device_connection now device ''CONNECTION_OFFLINE''
           (update_device device (\<lambda>d. d\<lparr>dv_last_seen_at := Some (sp_now sp)\<rparr>) (r\<lparr>rl_hub := g\<rparr>));
         r2 = r1\<lparr>rl_hub := fan_out_presence w sp device owner False (rl_hub r1)\<rparr>
     in foldl (\<lambda>r (rid, operation). update_receipt rid ''OUTCOME_UNKNOWN'' ''OUTCOME_UNKNOWN'' (sp_now sp) r) r2 pendings))"

definition bridge_close_reason :: "bool \<Rightarrow> bool \<Rightarrow> string" where
  "bridge_close_reason revoked offline = (if revoked then ''DEVICE_REVOKED'' else if offline then ''DEVICE_OFFLINE'' else ''INTERNAL_ERROR'')"

section \<open>A challenge's life\<close>

text \<open>
  The handlers as steps. Between the check and the transaction of a claim anything may happen: a claim
  that passed its check holds a ticket with the challenge text it presented.
\<close>

record pairing =
  pg_relay :: relay
  pg_tickets :: "(uuid \<times> string) list"

datatype pair_op =
    PRegister ip_addr register_body uuid string nat bool
  | PLookup ip_addr string nat bool
  | PApprove ip_addr uuid string "uuid option" string nat bool
  | PClaimCheck ip_addr uuid string nat bool
  | PClaimCommit uuid string uuid string string nat bool
  | PCancel uuid uuid nat bool
  | PPatch uuid uuid "string option" "bool option" string nat bool
  | PRevoke uuid uuid string nat bool

fun pair_step :: "(string \<Rightarrow> string) \<Rightarrow> pairing \<Rightarrow> pair_op \<Rightarrow> pairing" where
  "pair_step sha s (PRegister ip body i code now ok) = s\<lparr>pg_relay := fst (register_challenge sha ip body i code now ok (pg_relay s))\<rparr>"
| "pair_step sha s (PLookup ip code now ok) = s\<lparr>pg_relay := fst (pairing_lookup sha ip code now ok (pg_relay s))\<rparr>"
| "pair_step sha s (PApprove ip owner code named rid now ok) = s\<lparr>pg_relay := fst (approve_challenge sha ip owner code named rid now ok (pg_relay s))\<rparr>"
| "pair_step sha s (PClaimCheck ip cid challenge now ok) = (case claim_check sha ip cid challenge now ok (pg_relay s) of
     (r, Inr _) \<Rightarrow> \<lparr>pg_relay = r, pg_tickets = (cid, challenge) # pg_tickets s\<rparr>
   | (r, Inl _) \<Rightarrow> s\<lparr>pg_relay := r\<rparr>)"
| "pair_step sha s (PClaimCommit cid challenge device credential rid now ok) =
     (if (cid, challenge) \<in> set (pg_tickets s)
      then \<lparr>pg_relay = fst (claim_commit sha cid device credential rid now ok (pg_relay s)), pg_tickets = remove1 (cid, challenge) (pg_tickets s)\<rparr>
      else s)"
| "pair_step sha s (PCancel owner cid now ok) = s\<lparr>pg_relay := fst (cancel_challenge owner cid now ok (pg_relay s))\<rparr>"
| "pair_step sha s (PPatch owner device name hide rid now ok) = s\<lparr>pg_relay := fst (patch_device owner device name hide rid now ok (pg_relay s))\<rparr>"
| "pair_step sha s (PRevoke owner device rid now ok) = s\<lparr>pg_relay := fst (revoke_device owner device rid now ok (pg_relay s))\<rparr>"

definition pairing_new :: pairing where
  "pairing_new = \<lparr>pg_relay = relay_new, pg_tickets = []\<rparr>"

text \<open>The challenges for which an operation hands out a credential.\<close>

fun is_ready :: "pair_resp \<Rightarrow> bool" where
  "is_ready (PairReady _ _) = True"
| "is_ready _ = False"

fun delivers :: "(string \<Rightarrow> string) \<Rightarrow> pairing \<Rightarrow> pair_op \<Rightarrow> uuid list" where
  "delivers sha s (PClaimCommit cid challenge device credential rid now ok) =
     (if (cid, challenge) \<in> set (pg_tickets s) \<and> is_ready (snd (claim_commit sha cid device credential rid now ok (pg_relay s))) then [cid] else [])"
| "delivers sha s _ = []"

definition challenges_of :: "relay \<Rightarrow> uuid \<Rightarrow> challenge_row option" where
  "challenges_of r = map_of (map (\<lambda>x. (ch_id x, x)) (rl_challenges r))"

definition delivered :: "pairing \<Rightarrow> uuid \<Rightarrow> bool" where
  "delivered s cid \<longleftrightarrow> (case challenges_of (pg_relay s) cid of Some x \<Rightarrow> ch_credential_delivered_at x \<noteq> None | None \<Rightarrow> False)"

definition row_ok :: "challenge_row \<Rightarrow> bool" where
  "row_ok x \<longleftrightarrow> (ch_approved_at x \<noteq> None \<longleftrightarrow> ch_owner_id x \<noteq> None) \<and> (ch_credential_delivered_at x \<noteq> None \<longrightarrow> ch_approved_at x \<noteq> None \<and> ch_consumed_at x \<noteq> None)"

definition pairing_ok :: "(string \<Rightarrow> string) \<Rightarrow> pairing \<Rightarrow> bool" where
  "pairing_ok sha s \<longleftrightarrow> distinct (map ch_id (rl_challenges (pg_relay s))) \<and> list_all row_ok (rl_challenges (pg_relay s)) \<and>
     (\<forall>(cid, challenge)\<in>set (pg_tickets s). \<exists>x. challenges_of (pg_relay s) cid = Some x \<and> sha (str_trim challenge) = ch_challenge_digest x)"

text \<open>How a row may change in one operation.\<close>

definition row_step :: "(string \<Rightarrow> string) \<Rightarrow> pair_op \<Rightarrow> challenge_row \<Rightarrow> challenge_row \<Rightarrow> bool" where
  "row_step sha op x y \<longleftrightarrow>
     (ch_id y, ch_challenge_digest y, ch_short_code_digest y, ch_expires_at y) = (ch_id x, ch_challenge_digest x, ch_short_code_digest x, ch_expires_at x) \<and>
     ch_attempt_count x \<le> ch_attempt_count y \<and>
     (ch_approved_at x \<noteq> None \<longrightarrow> ch_approved_at y = ch_approved_at x \<and> ch_owner_id y = ch_owner_id x) \<and>
     (ch_consumed_at x \<noteq> None \<longrightarrow> ch_consumed_at y \<noteq> None) \<and>
     (ch_credential_delivered_at x \<noteq> None \<longrightarrow> ch_credential_delivered_at y \<noteq> None) \<and>
     (ch_approved_at x = None \<and> ch_approved_at y \<noteq> None \<longrightarrow> (\<exists>ip owner code named rid now. op = PApprove ip owner code named rid now True \<and>
        ch_owner_id y = Some owner \<and> ch_approved_at y = Some now \<and> sha (str_trim code) = ch_short_code_digest x \<and> now < ch_expires_at x \<and>
        ch_consumed_at x = None \<and> ch_attempt_count x < PAIRING_MAX_ATTEMPTS)) \<and>
     (ch_credential_delivered_at x = None \<and> ch_credential_delivered_at y \<noteq> None \<longrightarrow> (\<exists>challenge device credential rid now.
        op = PClaimCommit (ch_id x) challenge device credential rid now True \<and> sha (str_trim challenge) = ch_challenge_digest x \<and>
        ch_approved_at x \<noteq> None \<and> now < ch_expires_at x))"

lemma row_step_refl [simp]: "row_step sha op x x"
  by (auto simp: row_step_def)

lemma newest_mem: "newest xs = Some x \<Longrightarrow> x \<in> set xs"
proof (induction xs arbitrary: x rule: rev_induct)
  case (snoc y ys)
  then show ?case by (auto simp: newest_def split: option.splits if_splits)
qed (simp add: newest_def)

lemma find_mem: "List.find P xs = Some x \<Longrightarrow> x \<in> set xs \<and> P x"
  by (auto simp: find_Some_iff)

lemma challenges_of_iff: "distinct (map ch_id (rl_challenges r)) \<Longrightarrow> challenges_of r cid = Some x \<longleftrightarrow> x \<in> set (rl_challenges r) \<and> ch_id x = cid"
  unfolding challenges_of_def by (subst map_of_eq_Some_iff) (auto simp: comp_def)

lemma same_row: "distinct (map ch_id xs) \<Longrightarrow> x \<in> set xs \<Longrightarrow> y \<in> set xs \<Longrightarrow> ch_id x = ch_id y \<Longrightarrow> x = y"
  by (auto simp: distinct_map inj_on_def)

text \<open>One operation changes the challenges row by row, and adds at most one.\<close>

definition rows_step :: "(string \<Rightarrow> string) \<Rightarrow> pair_op \<Rightarrow> challenge_row list \<Rightarrow> challenge_row list \<Rightarrow> bool" where
  "rows_step sha op xs ys \<longleftrightarrow> (\<exists>h new. ys = map h xs @ new \<and> (\<forall>x\<in>set xs. row_step sha op x (h x) \<and> (row_ok x \<longrightarrow> row_ok (h x))) \<and>
     (\<forall>y\<in>set new. ch_id y \<notin> ch_id ` set xs \<and> row_ok y \<and> ch_approved_at y = None) \<and> distinct (map ch_id new))"

lemma rows_step_same: "rows_step sha op xs xs"
  unfolding rows_step_def by (rule exI [of _ "\<lambda>x. x"], rule exI [of _ "[]"]) simp

lemma rows_step_update:
  assumes "\<And>x. x \<in> set xs \<Longrightarrow> ch_id x = cid \<Longrightarrow> row_step sha op x (h x) \<and> (row_ok x \<longrightarrow> row_ok (h x))"
  shows "rows_step sha op xs (map (\<lambda>x. if ch_id x = cid then h x else x) xs)"
  unfolding rows_step_def using assms
  by (intro exI [of _ "\<lambda>x. if ch_id x = cid then h x else x"] exI [of _ "[]"]) auto

lemma rows_step_add: "ch_id y \<notin> ch_id ` set xs \<Longrightarrow> row_ok y \<Longrightarrow> ch_approved_at y = None \<Longrightarrow> rows_step sha op xs (xs @ [y])"
  unfolding rows_step_def by (rule exI [of _ "\<lambda>x. x"], rule exI [of _ "[y]"]) simp

lemma other_rows [simp]:
  "rl_challenges (record_audit now e r) = rl_challenges r" "rl_challenges (update_device d h' r) = rl_challenges r"
  "rl_challenges (update_challenge cid h r) = map (\<lambda>x. if ch_id x = cid then h x else x) (rl_challenges r)"
  by (simp_all add: record_audit_def update_device_def update_challenge_def)

lemma approve_rows:
  assumes "distinct (map ch_id (rl_challenges r))"
  shows "rows_step sha (PApprove ip owner code named rid now ok) (rl_challenges r) (rl_challenges (fst (approve_challenge sha ip owner code named rid now ok r)))"
proof -
  let ?op = "PApprove ip owner code named rid now ok" and ?d = "sha (str_trim code)"
  have row: "rows_step sha ?op (rl_challenges q) (rl_challenges (fst (approve_row ?d owner rid now q)))"
    if ok: "ok" and q: "rl_challenges q = rl_challenges r" for q
  proof (cases "newest (filter (approvable ?d now) (rl_challenges q))")
    case (Some x)
    then have x: "x \<in> set (rl_challenges r)" "approvable ?d now x" using newest_mem q by fastforce+
    have "row_step sha ?op y (y\<lparr>ch_approved_at := Some now, ch_owner_id := Some owner\<rparr>) \<and>
        (row_ok y \<longrightarrow> row_ok (y\<lparr>ch_approved_at := Some now, ch_owner_id := Some owner\<rparr>))" if "y \<in> set (rl_challenges r)" "ch_id y = ch_id x" for y
    proof -
      have "y = x" using same_row [OF assms that(1) x(1) that(2)] .
      then show ?thesis using x(2) ok by (auto simp: row_step_def row_ok_def approvable_def)
    qed
    then show ?thesis using Some q rows_step_update [of "rl_challenges r" "ch_id x" sha ?op] by (simp add: approve_row_def)
  qed (simp add: approve_row_def rows_step_same)
  have count: "rows_step sha ?op (rl_challenges r) (map (\<lambda>x. if ch_id x = cid then x\<lparr>ch_attempt_count := ch_attempt_count x + 1\<rparr> else x) (rl_challenges r))" for cid
    by (rule rows_step_update) (auto simp: row_step_def row_ok_def)
  show ?thesis using row count
    by (auto simp: approve_challenge_def pairing_approve_def Let_def rows_step_same split: prod.splits option.splits)
qed

lemma claim_commit_rows:
  assumes "distinct (map ch_id (rl_challenges r))" "x \<in> set (rl_challenges r)" "ch_id x = cid" "sha (str_trim challenge) = ch_challenge_digest x"
  shows "rows_step sha (PClaimCommit cid challenge device credential rid now ok) (rl_challenges r) (rl_challenges (fst (claim_commit sha cid device credential rid now ok r)))"
proof -
  let ?op = "PClaimCommit cid challenge device credential rid now ok"
  let ?h = "\<lambda>x. x\<lparr>ch_credential_delivered_at := Some now, ch_consumed_at := Some now\<rparr>"
  let ?P = "\<lambda>x. ch_id x = cid \<and> ch_approved_at x \<noteq> None \<and> ch_credential_delivered_at x = None \<and> ch_expires_at x > now"
  show ?thesis
  proof (cases "ok \<and> (\<exists>y o'. List.find ?P (rl_challenges r) = Some y \<and> ch_owner_id y = Some o')")
    case True
    then obtain y o' where y: "List.find ?P (rl_challenges r) = Some y" "ch_owner_id y = Some o'" and ok: "ok" by blast
    have "y = x" using find_mem [OF y(1)] same_row [OF assms(1) _ assms(2), of y] assms(3) by auto
    then have px: "?P x" using find_mem [OF y(1)] by auto
    have "row_step sha ?op z (?h z) \<and> (row_ok z \<longrightarrow> row_ok (?h z))" if "z \<in> set (rl_challenges r)" "ch_id z = cid" for z
    proof -
      have "z = x" using same_row [OF assms(1) that(1) assms(2)] that(2) assms(3) by simp
      then show ?thesis using px ok assms(3,4) by (auto simp: row_step_def row_ok_def)
    qed
    from rows_step_update [where h = ?h, OF this] show ?thesis using y ok
      by (simp add: claim_commit_def Let_def rows_step_same)
  next
    case False
    then have "fst (claim_commit sha cid device credential rid now ok r) = r"
      by (auto simp: claim_commit_def split: option.splits)
    then show ?thesis by (simp add: rows_step_same)
  qed
qed

lemma pair_step_rows:
  assumes "pairing_ok sha s"
  shows "rows_step sha op (rl_challenges (pg_relay s)) (rl_challenges (pg_relay (pair_step sha s op)))"
proof -
  have d: "distinct (map ch_id (rl_challenges (pg_relay s)))" using assms by (simp add: pairing_ok_def)
  show ?thesis
  proof (cases op)
    case (PRegister ip body i code now ok)
    then show ?thesis
      by (auto simp: register_challenge_def Let_def row_ok_def intro!: rows_step_same rows_step_add split: prod.splits)
  next
    case (PApprove ip owner code named rid now ok)
    then show ?thesis using approve_rows [OF d] by simp
  next
    case (PClaimCheck ip cid challenge now ok)
    have "rl_challenges (fst (claim_check sha ip cid challenge now ok (pg_relay s))) = rl_challenges (pg_relay s)"
      by (auto simp: claim_check_def Let_def split: prod.splits)
    then show ?thesis using PClaimCheck by (auto simp: rows_step_same split: prod.splits sum.splits)
  next
    case (PClaimCommit cid challenge device credential rid now ok)
    show ?thesis
    proof (cases "(cid, challenge) \<in> set (pg_tickets s)")
      case True
      then obtain x where "challenges_of (pg_relay s) cid = Some x" "sha (str_trim challenge) = ch_challenge_digest x"
        using assms unfolding pairing_ok_def by blast
      then show ?thesis using claim_commit_rows [OF d, of x cid sha challenge] challenges_of_iff [OF d] True PClaimCommit by simp
    qed (simp add: PClaimCommit rows_step_same)
  next
    case (PCancel owner cid now ok)
    have "rows_step sha op (rl_challenges (pg_relay s)) (map (\<lambda>x. if ch_id x = cid then x\<lparr>ch_consumed_at := Some now\<rparr> else x) (rl_challenges (pg_relay s)))"
      by (rule rows_step_update) (auto simp: row_step_def row_ok_def)
    then show ?thesis using PCancel by (cases ok) (simp_all add: cancel_challenge_def rows_step_same)
  qed (auto simp: pairing_lookup_def patch_device_def revoke_device_def Let_def rows_step_same split: prod.splits)
qed

lemma rows_step_rows:
  assumes "rows_step sha op xs ys" "distinct (map ch_id xs)" "list_all row_ok xs"
  shows "distinct (map ch_id ys)" "list_all row_ok ys" "x \<in> set xs \<Longrightarrow> \<exists>y\<in>set ys. row_step sha op x y"
proof -
  obtain h new where h: "ys = map h xs @ new" "\<forall>x\<in>set xs. row_step sha op x (h x) \<and> (row_ok x \<longrightarrow> row_ok (h x))"
    "\<forall>y\<in>set new. ch_id y \<notin> ch_id ` set xs \<and> row_ok y \<and> ch_approved_at y = None" "distinct (map ch_id new)"
    using assms(1) unfolding rows_step_def by blast
  have ids: "map ch_id (map h xs) = map ch_id xs" using h(2) by (simp add: row_step_def)
  have "i \<notin> set (map ch_id new)" if "i \<in> set (map ch_id xs)" for i
  proof
    assume "i \<in> set (map ch_id new)"
    then obtain y where "y \<in> set new" "i = ch_id y" by auto
    then show False using bspec [OF h(3), of y] that by simp
  qed
  then have "set (map ch_id xs) \<inter> set (map ch_id new) = {}" unfolding disjoint_iff by blast
  then show "distinct (map ch_id ys)" using assms(2) h(1,4) ids by (metis distinct_append map_append)
  show "list_all row_ok ys" using h assms(3) by (auto simp: list_all_iff)
  show "x \<in> set xs \<Longrightarrow> \<exists>y\<in>set ys. row_step sha op x y" using h(1,2) by auto
qed

lemma challenge_kept:
  assumes "pairing_ok sha s" "challenges_of (pg_relay s) cid = Some x"
  shows "\<exists>y. challenges_of (pg_relay (pair_step sha s op)) cid = Some y \<and> row_step sha op x y"
proof -
  note r = rows_step_rows [OF pair_step_rows [OF assms(1), of op]]
  have d: "distinct (map ch_id (rl_challenges (pg_relay s)))" "list_all row_ok (rl_challenges (pg_relay s))" using assms(1) by (simp_all add: pairing_ok_def)
  obtain y where y: "y \<in> set (rl_challenges (pg_relay (pair_step sha s op)))" "row_step sha op x y"
    using r(3) [OF d] assms(2) challenges_of_iff [OF d(1)] by blast
  then have "ch_id y = cid" using assms(2) challenges_of_iff [OF d(1)] by (simp add: row_step_def)
  then show ?thesis using y challenges_of_iff [OF r(1) [OF d]] by blast
qed

lemma pair_tickets:
  assumes "pairing_ok sha s" "(cid, challenge) \<in> set (pg_tickets (pair_step sha s op))"
  shows "\<exists>x. challenges_of (pg_relay (pair_step sha s op)) cid = Some x \<and> sha (str_trim challenge) = ch_challenge_digest x"
proof (cases "(cid, challenge) \<in> set (pg_tickets s)")
  case True
  then obtain x where "challenges_of (pg_relay s) cid = Some x" "sha (str_trim challenge) = ch_challenge_digest x"
    using assms(1) unfolding pairing_ok_def by blast
  then show ?thesis using challenge_kept [OF assms(1), of cid x op] by (auto simp: row_step_def)
next
  case False
  have d: "distinct (map ch_id (rl_challenges (pg_relay s)))" using assms(1) by (simp add: pairing_ok_def)
  obtain ip now ok r where op: "op = PClaimCheck ip cid challenge now ok" "claim_check sha ip cid challenge now ok (pg_relay s) = (r, Inr ())"
    using False assms(2) by (cases op) (auto split: prod.splits sum.splits if_splits dest: set_remove1_subset [THEN subsetD])
  have "challenge_at cid r = challenge_at cid (pg_relay s)" using op(2) by (auto simp: claim_check_def challenge_at_def Let_def split: prod.splits)
  then obtain x where "challenge_at cid (pg_relay s) = Some x" "sha (str_trim challenge) = ch_challenge_digest x"
    using op(2) by (auto simp: claim_check_def Let_def challenge_at_def split: prod.splits if_splits option.splits)
  then have "challenges_of (pg_relay s) cid = Some x" using find_mem challenges_of_iff [OF d] by (fastforce simp: challenge_at_def)
  then show ?thesis using challenge_kept [OF assms(1), of cid x op] \<open>sha (str_trim challenge) = ch_challenge_digest x\<close> by (auto simp: row_step_def)
qed

lemma pairing_ok_step: "pairing_ok sha s \<Longrightarrow> pairing_ok sha (pair_step sha s op)"
  using rows_step_rows(1,2) [OF pair_step_rows, of sha s op] pair_tickets [of sha s _ _ op] unfolding pairing_ok_def by blast

lemma pairing_ok_new: "pairing_ok sha pairing_new"
  by (simp add: pairing_ok_def pairing_new_def relay_new_def)

lemma claim_readyD:
  assumes "snd (claim_commit sha cid device credential rid now ok r) = PairReady d c" "distinct (map ch_id (rl_challenges r))"
  shows "ok" "\<exists>x owner. challenges_of r cid = Some x \<and> ch_owner_id x = Some owner \<and> ch_approved_at x \<noteq> None \<and> ch_credential_delivered_at x = None \<and>
      now < ch_expires_at x \<and> (\<exists>dv. rl_devices (fst (claim_commit sha cid device credential rid now ok r)) = rl_devices r @ [dv] \<and>
        dv_id dv = device \<and> dv_owner_id dv = owner \<and> dv_credential_digest dv = sha credential \<and> dv_revoked_at dv = None) \<and>
      (\<exists>y. challenges_of (fst (claim_commit sha cid device credential rid now ok r)) cid = Some y \<and> ch_credential_delivered_at y = Some now)"
proof -
  let ?P = "\<lambda>x. ch_id x = cid \<and> ch_approved_at x \<noteq> None \<and> ch_credential_delivered_at x = None \<and> ch_expires_at x > now"
  let ?h = "\<lambda>x. if ch_id x = cid then x\<lparr>ch_credential_delivered_at := Some now, ch_consumed_at := Some now\<rparr> else x"
  show ok: ok using assms(1) by (auto simp: claim_commit_def pair_internal_def split: if_splits)
  obtain x where x: "List.find ?P (rl_challenges r) = Some x"
    using assms(1) ok by (cases "List.find ?P (rl_challenges r)") (auto simp: claim_commit_def)
  obtain owner where o: "ch_owner_id x = Some owner" using assms(1) ok x by (cases "ch_owner_id x") (auto simp: claim_commit_def pair_internal_def)
  have free: "\<not> (device \<in> dv_id ` set (rl_devices r) \<or> sha credential \<in> dv_credential_digest ` set (rl_devices r))"
    using assms(1) ok x o by (auto simp: claim_commit_def pair_internal_def split: if_splits)
  note px = find_mem [OF x]
  have rows: "rl_challenges (fst (claim_commit sha cid device credential rid now ok r)) = map ?h (rl_challenges r)"
    using ok x o free by (simp add: claim_commit_def Let_def)
  have "map ch_id (map ?h (rl_challenges r)) = map ch_id (rl_challenges r)" by simp
  then have "distinct (map ch_id (rl_challenges (fst (claim_commit sha cid device credential rid now ok r))))" using assms(2) rows by metis
  from challenges_of_iff [OF this] have "challenges_of (fst (claim_commit sha cid device credential rid now ok r)) cid = Some (?h x)"
    using px rows by auto
  then have y: "\<exists>y. challenges_of (fst (claim_commit sha cid device credential rid now ok r)) cid = Some y \<and> ch_credential_delivered_at y = Some now"
    using px by simp
  have dv: "\<exists>dv. rl_devices (fst (claim_commit sha cid device credential rid now ok r)) = rl_devices r @ [dv] \<and>
        dv_id dv = device \<and> dv_owner_id dv = owner \<and> dv_credential_digest dv = sha credential \<and> dv_revoked_at dv = None"
    using ok x o free by (simp add: claim_commit_def Let_def record_audit_def update_challenge_def)
  have "challenges_of r cid = Some x" using challenges_of_iff [OF assms(2)] px by blast
  then show "\<exists>x owner. challenges_of r cid = Some x \<and> ch_owner_id x = Some owner \<and> ch_approved_at x \<noteq> None \<and> ch_credential_delivered_at x = None \<and>
      now < ch_expires_at x \<and> (\<exists>dv. rl_devices (fst (claim_commit sha cid device credential rid now ok r)) = rl_devices r @ [dv] \<and>
        dv_id dv = device \<and> dv_owner_id dv = owner \<and> dv_credential_digest dv = sha credential \<and> dv_revoked_at dv = None) \<and>
      (\<exists>y. challenges_of (fst (claim_commit sha cid device credential rid now ok r)) cid = Some y \<and> ch_credential_delivered_at y = Some now)"
    using px o y dv by blast
qed

lemma deliversD:
  assumes "cid \<in> set (delivers sha s op)"
  obtains challenge device credential rid now d c where "op = PClaimCommit cid challenge device credential rid now True" "(cid, challenge) \<in> set (pg_tickets s)"
    "snd (claim_commit sha cid device credential rid now True (pg_relay s)) = PairReady d c"
proof -
  obtain challenge device credential rid now ok where op: "op = PClaimCommit cid challenge device credential rid now ok"
    and t: "(cid, challenge) \<in> set (pg_tickets s)"
    and rd: "is_ready (snd (claim_commit sha cid device credential rid now ok (pg_relay s)))"
    using assms by (cases op) (simp_all split: if_splits)
  obtain d c where r: "snd (claim_commit sha cid device credential rid now ok (pg_relay s)) = PairReady d c"
    using rd by (cases "snd (claim_commit sha cid device credential rid now ok (pg_relay s))") simp_all
  then have "ok" by (auto simp: claim_commit_def pair_internal_def split: if_splits)
  then show ?thesis using that op t r by simp
qed

interpretation pair_m: op_machine_init "pair_step sha" "pairing_ok sha" pairing_new for sha
  by unfold_locales (rule pairing_ok_step pairing_ok_new, assumption?)+

interpretation pair_once: once_ledger "pair_step sha" "pairing_ok sha" "delivers sha" delivered for sha
proof unfold_locales
  fix s op cid
  assume ok: "pairing_ok sha s"
  then have d: "distinct (map ch_id (rl_challenges (pg_relay s)))" by (simp add: pairing_ok_def)
  show "distinct (delivers sha s op)" by (cases op) simp_all
  show "delivered s cid \<Longrightarrow> delivered (pair_step sha s op) cid"
    using challenge_kept [OF ok, of cid _ op] by (fastforce simp: delivered_def row_step_def split: option.splits)
  assume "cid \<in> set (delivers sha s op)"
  then show "\<not> delivered s cid \<and> delivered (pair_step sha s op) cid"
    by (rule deliversD) (use claim_readyD(2) [OF _ d] in \<open>fastforce simp: delivered_def\<close>)
qed

text \<open>
  C10. Pairing hands out one credential per challenge, and only where it should. Whenever a
  credential is handed out, in any run and with claims that overlap in any way: it is the only one
  for its challenge, whatever happens before and after; the claimant has presented the challenge text the
  bridge registered; the challenge has not expired; a user has approved it; and the new device belongs
  to that user.
\<close>

theorem one_credential_per_challenge:
  assumes "s = foldl (pair_step sha) pairing_new ops" "cid \<in> set (delivers sha s op)"
  shows "count_list (run_log (pair_step sha) (delivers sha) pairing_new (ops @ op # more_ops)) cid = 1 \<and>
    (\<exists>challenge device credential rid now x owner dv.
      op = PClaimCommit cid challenge device credential rid now True \<and> challenges_of (pg_relay s) cid = Some x \<and>
      sha (str_trim challenge) = ch_challenge_digest x \<and> now < ch_expires_at x \<and> ch_approved_at x \<noteq> None \<and> ch_owner_id x = Some owner \<and>
      rl_devices (pg_relay (pair_step sha s op)) = rl_devices (pg_relay s) @ [dv] \<and> dv_id dv = device \<and> dv_owner_id dv = owner)"
proof (rule conjI)
  let ?log = "run_log (pair_step sha) (delivers sha) pairing_new (ops @ op # more_ops)"
  have "count_list ?log cid \<le> 1" using pair_once.entered_at_most_once [OF pairing_ok_new, of sha "ops @ op # more_ops" cid] by (auto split: if_splits)
  moreover have "cid \<in> set ?log" using assms by (simp add: run_log_append)
  then have "count_list ?log cid \<noteq> 0" by (simp add: count_list_0_iff)
  ultimately show "count_list ?log cid = 1" by simp
  have ok: "pairing_ok sha s" unfolding assms(1) by (rule pair_m.reachable_inv)
  obtain challenge device credential rid now d c where op: "op = PClaimCommit cid challenge device credential rid now True"
    "(cid, challenge) \<in> set (pg_tickets s)" "snd (claim_commit sha cid device credential rid now True (pg_relay s)) = PairReady d c"
    using assms(2) by (rule deliversD)
  obtain x where x: "challenges_of (pg_relay s) cid = Some x" "sha (str_trim challenge) = ch_challenge_digest x"
    using op(2) ok unfolding pairing_ok_def by blast
  show "\<exists>challenge device credential rid now x owner dv.
      op = PClaimCommit cid challenge device credential rid now True \<and> challenges_of (pg_relay s) cid = Some x \<and>
      sha (str_trim challenge) = ch_challenge_digest x \<and> now < ch_expires_at x \<and> ch_approved_at x \<noteq> None \<and> ch_owner_id x = Some owner \<and>
      rl_devices (pg_relay (pair_step sha s op)) = rl_devices (pg_relay s) @ [dv] \<and> dv_id dv = device \<and> dv_owner_id dv = owner"
    using claim_readyD(2) [OF op(3)] ok x op(1,2) by (auto simp: pairing_ok_def)
qed


section \<open>Examples\<close>

definition ex_text :: string where "ex_text = replicate 43 CHR ''a''"

definition ex_register :: "uuid \<Rightarrow> nat \<Rightarrow> pair_op" where
  "ex_register i now = PRegister (IpV4 1) \<lparr>rb_challenge = ex_text, rb_device_name = ''n'', rb_platform = ''n'',
     rb_arch = ''n'', rb_bridge_version = ''n''\<rparr> i ''123456'' now True"

definition ex_pair_ops :: "pair_op list" where
  "ex_pair_ops = [ex_register ''i'' 0, PApprove (IpV4 1) ''o'' ''123456'' (Some ''i'') ''q'' 1 True,
     PClaimCheck (IpV4 1) ''i'' ex_text 2 True]"

definition ex_claim :: pair_op where
  "ex_claim = PClaimCommit ''i'' ex_text ''d'' ''secret'' ''q'' 3 True"

lemma ex_trims: "str_trim ex_text = ex_text" "str_trim ''123456'' = ''123456''" "str_trim ''n'' = ''n''"
  by (rule str_trim_id, simp_all add: ex_text_def ascii_graphic_def)+

lemma ex_valid: "is_valid_challenge ex_text"
  by (simp add: is_valid_challenge_def ex_text_def Let_def list_all_iff)

lemmas pair_run = ex_pair_ops_def ex_register_def ex_claim_def pairing_new_def relay_new_def register_challenge_def approve_challenge_def
  pairing_approve_def approve_row_def approvable_def newest_def update_challenge_def record_audit_def claim_check_def challenge_at_def claim_commit_def
  cancel_challenge_def rate_hit_def hit_entry_def RATE_MAP_MAX_def PAIRING_RATE_WINDOW_def PAIRING_REGISTER_RATE_LIMIT_def
  PAIRING_APPROVE_RATE_LIMIT_def PAIRING_CLAIM_RATE_LIMIT_def PAIRING_TTL_def PAIRING_MAX_ATTEMPTS_def Let_def ex_trims ex_valid

lemma ex_delivers: "delivers (\<lambda>s. s) (foldl (pair_step (\<lambda>s. s)) pairing_new ex_pair_ops) ex_claim = [''i'']"
  by (simp add: pair_run)

theorem one_credential_per_challenge_witness:
  "count_list (run_log (pair_step (\<lambda>s. s)) (delivers (\<lambda>s. s)) pairing_new (ex_pair_ops @ [ex_claim, ex_claim])) ''i'' = 1"
  using one_credential_per_challenge [OF refl, of "''i''" "\<lambda>s. s" ex_pair_ops ex_claim "[ex_claim]"] ex_delivers by simp

lemma ex_challenge: "\<exists>x. challenges_of (pg_relay (foldl (pair_step (\<lambda>s. s)) pairing_new ex_pair_ops)) ''i'' = Some x \<and> ch_owner_id x = Some ''o''"
  by (simp add: pair_run challenges_of_def)


section \<open>Defects\<close>

text \<open>
  The owner's cancellation sets \<open>consumed_at\<close> only, which neither the check nor the transaction of a
  claim looks at: a cancelled challenge still yields a credential.
\<close>

lemma cancelled_challenge_is_claimed:
  "snd (cancel_challenge ''o'' ''i'' 2 True (pg_relay (foldl (pair_step (\<lambda>s. s)) pairing_new ex_pair_ops))) = Inr () \<and>
   delivers (\<lambda>s. s) (foldl (pair_step (\<lambda>s. s)) pairing_new (take 2 ex_pair_ops @
     [PCancel ''o'' ''i'' 2 True, PClaimCheck (IpV4 1) ''i'' ex_text 3 True])) ex_claim = [''i'']"
  by (simp add: pair_run)

text \<open>
  The row to approve is chosen by the short code alone: naming one challenge may approve another, newer one with the
  same short code.
\<close>

lemma named_challenge_is_not_the_one_approved:
  "snd (approve_challenge (\<lambda>s. s) (IpV4 1) ''o'' ''123456'' (Some ''i'') ''q'' 2 True
     (pg_relay (foldl (pair_step (\<lambda>s. s)) pairing_new [ex_register ''i'' 0, ex_register ''j'' 1]))) = PairApproved ''j'' 2"
  by (simp add: pair_run)

text \<open>
  A bridge that reconnects: the new connection is registered while the old one still runs; when the old
  one ends, its cleanup takes the new connection out of the hub.
\<close>

lemma register_bridge_online: "is_online device (register_bridge w sp device b g)"
proof -
  have send: "is_online device (send_all_to_bridges w es q)" if "is_online device q" for es q
    using that by (induction es arbitrary: q)
      (auto simp: send_all_to_bridges_def is_online_def send_to_bridge_def update_conv' split: option.splits prod.splits)
  have bind: "hb_bridges (fst (bind_keys sp device ks q)) = hb_bridges q" for ks q
    by (induction ks arbitrary: q) (auto simp: Let_def add_binding_def put_stream_def case_prod_beta split: option.splits)
  have "is_online device (fst (ensure_bindings sp device (bn_owner b) (bridge_insert device b g)))"
    using bind by (simp add: ensure_bindings_def is_online_def bridge_insert_def update_conv')
  then show ?thesis using send by (simp add: register_bridge_def case_prod_beta)
qed

lemma remove_bridge_offline: "\<not> is_online device (fst (remove_bridge w sp device g))"
  by (simp add: remove_bridge_def Let_def is_online_def delete_conv')

lemma old_connection_takes_the_new_one_down:
  "is_online device (rl_hub (bridge_session_begin w sp now cap device owner r)) \<and>
   \<not> is_online device (rl_hub (bridge_session_end w sp' now' device owner (bridge_session_begin w sp now cap device owner r)))"
proof -
  have presence: "is_online device (fan_out_presence w sp d o' b g) = is_online device g" for sp d o' b g
  proof -
    have df: "hb_bridges (detach_failed_subscriber w sp key q c) = hb_bridges q" for key q c
      by (auto simp: detach_failed_subscriber_def Let_def put_stream_def split: option.splits)
    have fo: "hb_bridges (foldl (detach_failed_subscriber w sp key) q cs) = hb_bridges q" for key q cs
      by (induction cs arbitrary: q) (simp_all add: df)
    have po: "hb_bridges (presence_one w sp d b q key) = hb_bridges q" for q key
      by (auto simp: presence_one_def Let_def fo put_stream_def split: option.splits prod.splits)
    have "hb_bridges (foldl (presence_one w sp d b) q ks) = hb_bridges q" for q ks
      by (induction ks arbitrary: q) (simp_all add: po)
    then show ?thesis by (simp add: fan_out_presence_def is_online_def)
  qed
  have receipts: "rl_hub (foldl (\<lambda>r (rid, operation). update_receipt rid s c t r) q ps) = rl_hub q" for s c t q and ps :: "(string \<times> string) list"
    by (induction ps arbitrary: q) (auto simp: update_receipt_def)
  have rest: "rl_hub (set_device_connection t d c q) = rl_hub q" "rl_hub (update_device d h q) = rl_hub q" for t d c h q
    by (simp_all add: set_device_connection_def update_device_def)
  show ?thesis using register_bridge_online remove_bridge_offline
    by (simp add: bridge_session_begin_def bridge_session_end_def Let_def presence receipts rest case_prod_beta)
qed

text \<open>
  A device that is revoked between its authentication and its registration comes online all the same.
\<close>

lemma revoked_during_handshake_comes_online:
  assumes "bridge_auth sha (Some authorization) r = Inr (device, owner)" "revoke_device owner device rid now True r = (r1, Inr ())"
  shows "is_online device (rl_hub (bridge_session_begin w sp ts cap device owner r1))"
  using old_connection_takes_the_new_one_down by blast

end
