(* ===== verification/Paging.thy ===== *)
theory Paging
  imports Prelude "HOL-Library.Product_Lexorder"
begin

text \<open>
  Keyset pagination, the contract shared by the session list and the audit trail: a page is the next
  \<open>lim\<close> rows below the cursor, newest first, and the cursor of the next page is the last row returned. A
  client follows the cursors. The locale \<open>keyset\<close> states what a list handler promises; the laws of the
  walk are proved from it once.
\<close>

definition newest_first :: "('a \<Rightarrow> 'k::linorder) \<Rightarrow> 'a list \<Rightarrow> 'a list" where
  "newest_first key xs = rev (sort_key key xs)"

text \<open>The handlers fetch one row more than the limit to see whether there is another page.\<close>

definition cut_page :: "nat \<Rightarrow> 'a list \<Rightarrow> 'a list \<times> 'a option" where
  "cut_page n fetched = (if length fetched > n
     then (let xs = butlast fetched in (xs, if xs = [] then None else Some (last xs)))
     else (fetched, None))"

text \<open>A client that asks for page after page; the table may change between the requests.\<close>

fun walk :: "('s \<Rightarrow> 'c option \<Rightarrow> 'e + 'a list \<times> 'c option) \<Rightarrow> 's list \<Rightarrow> 'c option \<Rightarrow> 'a list \<times> bool" where
  "walk page [] c = ([], False)"
| "walk page (s # ss) c = (case page s c of
     Inl _ \<Rightarrow> ([], False)
   | Inr (xs, None) \<Rightarrow> (xs, True)
   | Inr (xs, Some c') \<Rightarrow> (case walk page ss (Some c') of (ys, finished) \<Rightarrow> (xs @ ys, finished)))"

lemma set_newest_first [simp]: "set (newest_first key xs) = set xs"
  by (simp add: newest_first_def)

lemma length_newest_first [simp]: "length (newest_first key xs) = length xs"
  by (simp add: newest_first_def)

lemma filter_newest_first: "filter P (newest_first key xs) = newest_first key (filter P xs)"
  by (simp add: newest_first_def filter_sort rev_filter [symmetric])

lemma newest_first_decreasing:
  assumes "distinct (map key xs)"
  shows "sorted_wrt (\<lambda>a b. key b < key a) (newest_first key xs)"
proof -
  have "sorted_wrt (<) (map key (sort_key key xs))"
    using assms by (simp add: strict_sorted_iff distinct_map flip: mset_map distinct_count_atmost_1)
  then show ?thesis by (simp add: newest_first_def sorted_wrt_rev sorted_wrt_map)
qed

lemma decreasing_distinct: "sorted_wrt (\<lambda>a b. key b < (key a :: 'k::linorder)) xs \<Longrightarrow> distinct xs"
  by (induction xs) auto

lemma cut_fetched:
  assumes "0 < n"
  shows "cut_page n (take (n + 1) xs) = (if length xs \<le> n then (xs, None) else (take n xs, Some (xs ! (n - 1))))"
proof (cases "length xs \<le> n")
  case False
  then have "butlast (take (n + 1) xs) = take n xs" by (simp add: butlast_take)
  moreover have "last (take n xs) = xs ! (n - 1)" using False assms by (subst last_conv_nth) auto
  moreover have "take n xs \<noteq> []" using False assms by auto
  ultimately show ?thesis using False by (simp add: cut_page_def Let_def)
qed (simp add: cut_page_def)

lemma below_nth:
  assumes "sorted_wrt (\<lambda>a b. key b < key a) xs" "0 < n" "n \<le> length xs"
  shows "filter (\<lambda>y. key y < (key (xs ! (n - 1)) :: 'k::linorder)) xs = drop n xs"
proof -
  let ?P = "\<lambda>y. key y < key (xs ! (n - 1))"
  have above: "\<not> ?P y" if y: "y \<in> set (take n xs)" for y
  proof -
    obtain i where "i < length (take n xs)" "y = take n xs ! i" using y unfolding in_set_conv_nth by blast
    then have i: "i < n" "y = xs ! i" by simp_all
    show ?thesis
    proof (cases "i = n - 1")
      case False
      then have "key (xs ! (n - 1)) < key (xs ! i)" using i(1) assms(2,3) by (intro sorted_wrt_nth_less [OF assms(1)]) simp_all
      then show ?thesis using i(2) by simp
    qed (use i in simp)
  qed
  have less: "?P y" if y: "y \<in> set (drop n xs)" for y
  proof -
    obtain j where j: "j < length (drop n xs)" "y = drop n xs ! j" using y unfolding in_set_conv_nth by blast
    then have "y = xs ! (n + j)" "n + j < length xs" using assms(3) by auto
    then have "key (xs ! (n + j)) < key (xs ! (n - 1))" using assms(2) by (intro sorted_wrt_nth_less [OF assms(1)]) simp_all
    then show ?thesis using \<open>y = xs ! (n + j)\<close> by simp
  qed
  have "filter ?P xs = filter ?P (take n xs) @ filter ?P (drop n xs)" by (metis append_take_drop_id filter_append)
  also have "\<dots> = drop n xs" using above less by (simp add: filter_empty_conv)
  finally show ?thesis .
qed

text \<open>The rows below a bound.\<close>

definition below :: "('a \<Rightarrow> 'k::linorder) \<Rightarrow> 'a option \<Rightarrow> 'a \<Rightarrow> bool" where
  "below key b y \<longleftrightarrow> (case b of None \<Rightarrow> True | Some x \<Rightarrow> key y < key x)"

locale keyset =
  fixes key :: "'a \<Rightarrow> 'k::linorder"
    and rows :: "'s \<Rightarrow> 'a list"
    and page :: "'s \<Rightarrow> 'c option \<Rightarrow> 'e + 'a list \<times> 'c option"
    and lim :: nat
    and cursor :: "'a \<Rightarrow> 'c"
    and ok :: "'s \<Rightarrow> bool"
  assumes lim_pos: "0 < lim"
    and keys_distinct: "ok s \<Longrightarrow> distinct (map key (rows s))"
    and page_below: "ok s \<Longrightarrow> (\<forall>x. b = Some x \<longrightarrow> (\<exists>t. ok t \<and> x \<in> set (rows t))) \<Longrightarrow> page s (map_option cursor b) =
      Inr (map_prod id (map_option cursor) (cut_page lim (take (lim + 1) (newest_first key (filter (below key b) (rows s))))))"
begin

lemma decreasing: "ok s \<Longrightarrow> sorted_wrt (\<lambda>a b. key b < key a) (newest_first key (filter P (rows s)))"
  using keys_distinct by (intro newest_first_decreasing) (auto simp: distinct_map_filter)

text \<open>The cursor a page hands out is a row of the table below the bound; what it leaves are the rows below it.\<close>

lemma last_of_page:
  assumes "ok s" "zs = newest_first key (filter (below key b) (rows s))" "\<not> length zs \<le> lim"
  shows "zs ! (lim - 1) \<in> set (rows s)" "below key b (zs ! (lim - 1))"
    "newest_first key (filter (below key (Some (zs ! (lim - 1)))) (rows s)) = drop lim zs"
proof -
  let ?z = "zs ! (lim - 1)"
  have z: "?z \<in> set zs" using assms(3) lim_pos by simp
  then show r: "?z \<in> set (rows s)" and bz: "below key b ?z" using assms(2) by auto
  have "filter (below key (Some ?z)) (rows s) = filter (below key (Some ?z)) (filter (below key b) (rows s))"
    using bz by (auto simp: below_def intro!: filter_cong split: option.splits)
  then have "newest_first key (filter (below key (Some ?z)) (rows s)) = filter (\<lambda>y. key y < key ?z) zs"
    using assms(2) by (simp add: filter_newest_first below_def)
  also have "\<dots> = drop lim zs" using below_nth [of key zs lim] decreasing [OF assms(1), of "below key b"] assms(2,3) lim_pos by simp
  finally show "newest_first key (filter (below key (Some ?z)) (rows s)) = drop lim zs" .
qed

lemma page_cases:
  assumes "ok s" "\<forall>x. b = Some x \<longrightarrow> (\<exists>t. ok t \<and> x \<in> set (rows t))" "zs = newest_first key (filter (below key b) (rows s))"
  shows "page s (map_option cursor b) = (if length zs \<le> lim then Inr (zs, None) else Inr (take lim zs, Some (cursor (zs ! (lim - 1)))))"
  using page_below [OF assms(1,2)] cut_fetched [OF lim_pos, of zs] assms(3) by simp

text \<open>On an unchanged table the walk ends, after as many pages as the rows need, with every row once, newest first.\<close>

lemma walk_below:
  assumes "ok s" "\<forall>x. b = Some x \<longrightarrow> x \<in> set (rows s)" "length (filter (below key b) (rows s)) \<le> n * lim" "0 < n"
  shows "walk page (replicate n s) (map_option cursor b) = (newest_first key (filter (below key b) (rows s)), True)"
  using assms(2,3,4)
proof (induction n arbitrary: b)
  case (Suc n)
  define zs where "zs = newest_first key (filter (below key b) (rows s))"
  have page: "page s (map_option cursor b) = (if length zs \<le> lim then Inr (zs, None) else Inr (take lim zs, Some (cursor (zs ! (lim - 1)))))"
    using page_cases [OF assms(1) _ zs_def] Suc.prems(1) assms(1) by blast
  show ?case
  proof (cases "length zs \<le> lim")
    case False
    note last = last_of_page [OF assms(1) zs_def False]
    have len: "length (filter (below key (Some (zs ! (lim - 1)))) (rows s)) = length zs - lim"
      using arg_cong [OF last(3), of length] by simp
    have "length zs \<le> Suc n * lim" using Suc.prems(2) by (simp add: zs_def)
    then have "length (filter (below key (Some (zs ! (lim - 1)))) (rows s)) \<le> n * lim" "0 < n" using False len by (auto intro: gr0I)
    then have "walk page (replicate n s) (map_option cursor (Some (zs ! (lim - 1)))) = (drop lim zs, True)"
      using Suc.IH [of "Some (zs ! (lim - 1))"] last by simp
    then show ?thesis using page False by (simp flip: zs_def)
  qed (simp add: page flip: zs_def)
qed simp

lemma walk_unchanged:
  assumes "ok s" "length (rows s) \<le> n * lim" "0 < n"
  shows "walk page (replicate n s) None = (newest_first key (rows s), True)"
  using walk_below [of s None n] assms by (simp add: below_def)

text \<open>While the table changes, no row is returned twice, and a row that stays as it is is not missed.\<close>

lemma walk_changing:
  assumes "\<forall>s\<in>set ss. ok s" "\<forall>x. b = Some x \<longrightarrow> (\<exists>t. ok t \<and> x \<in> set (rows t))" "walk page ss (map_option cursor b) = (xs, finished)"
  shows "sorted_wrt (\<lambda>a b. key b < key a) xs \<and> (\<forall>x\<in>set xs. below key b x) \<and>
    (finished \<longrightarrow> (\<forall>x. (\<forall>s\<in>set ss. x \<in> set (rows s)) \<longrightarrow> below key b x \<longrightarrow> x \<in> set xs))"
  using assms
proof (induction ss arbitrary: b xs finished)
  case (Cons s ss)
  define zs where "zs = newest_first key (filter (below key b) (rows s))"
  have ok: "ok s" using Cons.prems(1) by simp
  have page: "page s (map_option cursor b) = (if length zs \<le> lim then Inr (zs, None) else Inr (take lim zs, Some (cursor (zs ! (lim - 1)))))"
    using page_cases [OF ok Cons.prems(2) zs_def] .
  have dec: "sorted_wrt (\<lambda>a b. key b < key a) zs" using decreasing [OF ok] by (simp add: zs_def)
  have setzs: "set zs = {x \<in> set (rows s). below key b x}" by (auto simp: zs_def)
  show ?case
  proof (cases "length zs \<le> lim")
    case True
    then have "xs = zs" "finished" using Cons.prems(3) page by simp_all
    then show ?thesis using dec setzs by simp
  next
    case False
    let ?z = "zs ! (lim - 1)"
    note last = last_of_page [OF ok zs_def False]
    obtain ys where ys: "walk page ss (map_option cursor (Some ?z)) = (ys, finished)" "xs = take lim zs @ ys"
      using Cons.prems(3) page False by (auto split: prod.splits)
    have IH: "sorted_wrt (\<lambda>a b. key b < key a) ys" "\<And>y. y \<in> set ys \<Longrightarrow> key y < key ?z"
      "\<And>x. finished \<Longrightarrow> (\<forall>s\<in>set ss. x \<in> set (rows s)) \<Longrightarrow> key x < key ?z \<Longrightarrow> x \<in> set ys"
      using Cons.IH [OF _ _ ys(1)] Cons.prems(1) ok last(1) by (auto simp: below_def)
    have rest: "filter (\<lambda>y. key y < key ?z) zs = drop lim zs" using below_nth [OF dec lim_pos] False by simp
    have ge: "key ?z \<le> key x" if "x \<in> set (take lim zs)" for x
    proof (rule ccontr)
      assume "\<not> key ?z \<le> key x"
      then have "x \<in> set (drop lim zs)" using that in_set_takeD [of x lim zs] unfolding rest [symmetric] by simp
      moreover have "distinct zs" using dec by (rule decreasing_distinct)
      ultimately show False using that set_take_disj_set_drop_if_distinct [of zs lim lim] by auto
    qed
    have "sorted_wrt (\<lambda>a b. key b < key a) xs"
      using dec IH(1,2) ge ys(2) by (auto simp: sorted_wrt_append sorted_wrt_take intro: less_le_trans)
    moreover have "below key b x" if "x \<in> set xs" for x
    proof (cases "x \<in> set (take lim zs)")
      case True
      then show ?thesis using setzs in_set_takeD by fastforce
    next
      case False
      then have "key x < key ?z" using that ys(2) IH(2) by auto
      then show ?thesis using last(2) by (auto simp: below_def split: option.splits)
    qed
    moreover have "x \<in> set xs" if x: "finished" "\<forall>s\<in>set (s # ss). x \<in> set (rows s)" "below key b x" for x
    proof (cases "key x < key ?z")
      case False
      have "x \<in> set zs" using x setzs by simp
      moreover have "x \<notin> set (drop lim zs)" using False unfolding rest [symmetric] by simp
      ultimately show ?thesis using ys(2) by (metis Un_iff append_take_drop_id set_append)
    qed (use IH(3) x ys(2) in simp)
    ultimately show ?thesis by blast
  qed
qed simp

lemma walk_stable:
  assumes "\<forall>s\<in>set ss. ok s" "walk page ss None = (xs, True)" "\<forall>s\<in>set ss. x \<in> set (rows s)"
  shows "count_list xs x = 1"
proof -
  have w: "sorted_wrt (\<lambda>a b. key b < key a) xs" "x \<in> set xs"
    using walk_changing [of ss None xs True] assms by (auto simp: below_def)
  then have "distinct xs" by (blast intro: decreasing_distinct)
  then show ?thesis using w(2) by (simp add: distinct_count_list)
qed

end

end
