(* ===== verification/Relay_Sessions.thy ===== *)
theory Relay_Sessions
  imports Devices Paging
begin

text \<open>
  Session summaries, receipts and the audit trail (\<open>apps/relay/src/sessions\<close>, \<open>apps/relay/src/audit\<close>): the
  store, the HTTP handlers behind the authentication, and the cursors of the two paginated lists.
  Base64, the text form of an instant and the parser of UUIDs are arguments (\<open>cursor_codec\<close>), as are the
  clock, fresh identifiers and whether the database answers.
\<close>

section \<open>The store\<close>

definition find_session :: "uuid \<Rightarrow> string \<Rightarrow> string \<Rightarrow> relay \<Rightarrow> summary_row option" where
  "find_session device kind native r = List.find (\<lambda>s. sr_device_id s = device \<and> sr_agent_kind s = kind \<and> sr_native_session_id s = native) (rl_sessions r)"

definition get_session :: "uuid \<Rightarrow> relay \<Rightarrow> summary_row option" where
  "get_session sid r = List.find (\<lambda>s. sr_id s = sid) (rl_sessions r)"

text \<open>\<open>ts_to_rfc3339\<close>: chrono's \<open>from_timestamp\<close> is the argument \<open>from_ts\<close>.\<close>

definition ts_to_rfc3339 :: "(int \<Rightarrow> int \<Rightarrow> timestamp option) \<Rightarrow> timestamp option \<Rightarrow> timestamp option" where
  "ts_to_rfc3339 from_ts t = (case t of None \<Rightarrow> None | Some (seconds, nanos) \<Rightarrow> from_ts seconds (max nanos 0))"

definition summary_device_id :: "summary_batch \<Rightarrow> uuid \<Rightarrow> string" where
  "summary_device_id batch fallback = (case smb_summaries batch of
     [] \<Rightarrow> fallback
   | s # _ \<Rightarrow> (case ssm_session_key s of
       None \<Rightarrow> fallback
     | Some k \<Rightarrow> if psk_device_id k \<noteq> [] then psk_device_id k else fallback))"

text \<open>A 32-bit unsigned count stored as a signed integer.\<close>

definition as_i32 :: "nat \<Rightarrow> int" where
  "as_i32 n = sint (of_nat n :: 32 word)"

definition attention_kind_or :: "int \<Rightarrow> string" where
  "attention_kind_or k = enum_or PENDING_ATTENTION_KIND k (''PENDING_ATTENTION_'' @ show_int k)"

text \<open>The columns that a summary sets, over the row it finds or a new one.\<close>

definition summary_columns :: "(int \<Rightarrow> int \<Rightarrow> timestamp option) \<Rightarrow> timestamp \<Rightarrow> session_summary \<Rightarrow> summary_row \<Rightarrow> summary_row" where
  "summary_columns from_ts now sm s = s\<lparr>sr_title := ssm_title sm, sr_project_display_name := ssm_project_display_name sm,
     sr_current_branch := ssm_current_branch sm, sr_device_connection := enum_or DEVICE_CONNECTION (ssm_device_connection sm) ''CONNECTION_OFFLINE'',
     sr_device_last_seen_at := ts_to_rfc3339 from_ts (ssm_device_last_seen_at sm), sr_degraded_reason := ssm_degraded_reason sm,
     sr_control_mode := enum_or CONTROL_MODE (ssm_control_mode sm) ''CONTROL_MODE_UNSPECIFIED'',
     sr_compatibility_state := enum_or COMPATIBILITY_STATE (ssm_compatibility_state sm) ''COMPATIBILITY_STATE_UNSPECIFIED'',
     sr_active_turn_phase := enum_or ACTIVE_TURN_PHASE (ssm_active_turn_phase sm) ''ACTIVE_TURN_PHASE_UNSPECIFIED'',
     sr_pending_attention_count := as_i32 (ssm_pending_attention_count sm),
     sr_pending_attention_kinds := map attention_kind_or (ssm_pending_attention_kinds sm),
     sr_queue_state := enum_or QUEUE_STATE (ssm_queue_state sm) ''QUEUE_STATE_UNSPECIFIED'',
     sr_last_turn_outcome := enum_or LAST_TURN_OUTCOME (ssm_last_turn_outcome sm) ''LAST_TURN_OUTCOME_UNSPECIFIED'',
     sr_last_updated_at := (case ts_to_rfc3339 from_ts (ssm_updated_at sm) of Some t \<Rightarrow> t | None \<Rightarrow> now)\<rparr>"

definition fresh_session :: "uuid \<Rightarrow> uuid \<Rightarrow> string \<Rightarrow> string \<Rightarrow> timestamp \<Rightarrow> summary_row" where
  "fresh_session new_id device kind native now = \<lparr>sr_id = new_id, sr_device_id = device, sr_agent_kind = kind, sr_native_session_id = native,
     sr_title = [], sr_project_display_name = [], sr_current_branch = [], sr_device_connection = ''CONNECTION_OFFLINE'',
     sr_device_last_seen_at = None, sr_degraded_reason = [], sr_control_mode = ''CONTROL_MODE_UNSPECIFIED'',
     sr_compatibility_state = ''COMPATIBILITY_STATE_UNSPECIFIED'', sr_active_turn_phase = ''ACTIVE_TURN_PHASE_UNSPECIFIED'',
     sr_pending_attention_count = 0, sr_pending_attention_kinds = [], sr_queue_state = ''QUEUE_STATE_UNSPECIFIED'',
     sr_last_turn_outcome = ''LAST_TURN_OUTCOME_UNSPECIFIED'', sr_runtime_revision = 0, sr_last_updated_at = now,
     sr_pinned = False, sr_muted = False, sr_archived = False\<rparr>"

text \<open>
  One summary: insert or, on the unique native key, update. The database refuses a row of an unknown
  device and a used identifier. \<open>None\<close> is an error; the rows stored before it stay.
\<close>

definition upsert_summary :: "(int \<Rightarrow> int \<Rightarrow> timestamp option) \<Rightarrow> timestamp \<Rightarrow> uuid \<Rightarrow> uuid \<Rightarrow> session_summary \<Rightarrow> relay \<Rightarrow> relay option" where
  "upsert_summary from_ts now new_id device sm r = (case ssm_session_key sm of
     None \<Rightarrow> Some r
   | Some k \<Rightarrow>
       (let kind = agent_kind_name (psk_agent_kind k); native = psk_native_session_id k
        in case find_session device kind native r of
             Some s \<Rightarrow> Some (r\<lparr>rl_sessions := map (\<lambda>t. if sr_id t = sr_id s then summary_columns from_ts now sm t else t) (rl_sessions r)\<rparr>)
           | None \<Rightarrow>
               if device \<notin> dv_id ` set (rl_devices r) \<or> new_id \<in> sr_id ` set (rl_sessions r) then None
               else Some (r\<lparr>rl_sessions := rl_sessions r @ [summary_columns from_ts now sm (fresh_session new_id device kind native now)]\<rparr>)))"

text \<open>\<open>ok\<close> lists for each statement whether the database answers, \<open>fresh\<close> the identifiers it would assign.\<close>

fun upsert_summaries :: "(int \<Rightarrow> int \<Rightarrow> timestamp option) \<Rightarrow> timestamp \<Rightarrow> uuid \<Rightarrow> (bool \<times> uuid) list \<Rightarrow> session_summary list \<Rightarrow> relay \<Rightarrow> relay \<times> bool" where
  "upsert_summaries from_ts now device answers [] r = (r, True)"
| "upsert_summaries from_ts now device [] (sm # sms) r = (r, False)"
| "upsert_summaries from_ts now device ((ok, new_id) # answers) (sm # sms) r =
     (case (if ok then upsert_summary from_ts now new_id device sm r else None) of
        None \<Rightarrow> (r, False)
      | Some r1 \<Rightarrow> upsert_summaries from_ts now device answers sms r1)"

definition upsert_summary_batch :: "(string \<Rightarrow> uuid option) \<Rightarrow> (int \<Rightarrow> int \<Rightarrow> timestamp option) \<Rightarrow> timestamp \<Rightarrow> (bool \<times> uuid) list \<Rightarrow> uuid \<Rightarrow> summary_batch \<Rightarrow> relay \<Rightarrow> relay \<times> bool" where
  "upsert_summary_batch parse from_ts now answers device batch r =
     (let target = (case parse (summary_device_id batch device) of Some d \<Rightarrow> d | None \<Rightarrow> device)
      in upsert_summaries from_ts now target answers (smb_summaries batch) r)"

definition patch_prefs :: "uuid \<Rightarrow> bool option \<Rightarrow> bool option \<Rightarrow> bool option \<Rightarrow> relay \<Rightarrow> relay \<times> bool" where
  "patch_prefs sid pinned muted archived r =
     (r\<lparr>rl_sessions := map (\<lambda>s. if sr_id s = sid then s\<lparr>sr_pinned := (case pinned of Some b \<Rightarrow> b | None \<Rightarrow> sr_pinned s),
         sr_muted := (case muted of Some b \<Rightarrow> b | None \<Rightarrow> sr_muted s), sr_archived := (case archived of Some b \<Rightarrow> b | None \<Rightarrow> sr_archived s)\<rparr> else s) (rl_sessions r)\<rparr>,
      list_ex (\<lambda>s. sr_id s = sid) (rl_sessions r))"

definition fetch_receipt :: "string \<Rightarrow> relay \<Rightarrow> receipt_entry option" where
  "fetch_receipt rid r = List.find (\<lambda>x. rw_request_id x = rid) (rl_receipts r)"

definition insert_receipt :: "string \<Rightarrow> uuid \<Rightarrow> uuid option \<Rightarrow> string \<Rightarrow> string \<Rightarrow> nat \<Rightarrow> relay \<Rightarrow> relay \<times> bool" where
  "insert_receipt rid owner session operation digest now r =
     (if rid \<in> rw_request_id ` set (rl_receipts r) then (r, False)
      else (r\<lparr>rl_receipts := rl_receipts r @ [\<lparr>rw_request_id = rid, rw_owner_id = owner, rw_session_id = session, rw_operation = operation,
        rw_payload_digest = digest, rw_status = ''RECEIVED'', rw_error_code = [], rw_created_at = now, rw_updated_at = now\<rparr>]\<rparr>, True))"

definition clamp :: "int \<Rightarrow> int \<Rightarrow> int \<Rightarrow> int" where
  "clamp lo hi x = (if x < lo then lo else if x > hi then hi else x)"

definition list_receipts_for_session :: "uuid \<Rightarrow> int \<Rightarrow> relay \<Rightarrow> receipt_entry list" where
  "list_receipts_for_session sid limit r = take (nat (clamp 1 200 limit)) (newest_first rw_created_at (filter (\<lambda>x. rw_session_id x = Some sid) (rl_receipts r)))"

text \<open>The number of a receipt's status on the wire.\<close>

definition receipt_status_code :: "string \<Rightarrow> int option" where
  "receipt_status_code status =
     (if status = ''RECEIVED'' then Some 1 else if status = ''ACCEPTED_BY_BRIDGE'' then Some 2 else if status = ''DISPATCHED_TO_CODEX'' then Some 3
      else if status = ''COMPLETED'' then Some 4 else if status = ''REJECTED'' then Some 5 else if status = ''OUTCOME_UNKNOWN'' then Some 6 else None)"

section \<open>Cursors\<close>

record cursor_codec =
  cc_b64 :: "string \<Rightarrow> string"
  cc_unb64 :: "string \<Rightarrow> string option"
  cc_show_time :: "timestamp \<Rightarrow> string"
  cc_parse_time :: "string \<Rightarrow> timestamp option"
  cc_parse_uuid :: "string \<Rightarrow> uuid option"

definition rsplit_once :: "char \<Rightarrow> string \<Rightarrow> (string \<times> string) option" where
  "rsplit_once c s = (if c \<in> set s
     then Some (rev (tl (dropWhile (\<lambda>x. x \<noteq> c) (rev s))), rev (takeWhile (\<lambda>x. x \<noteq> c) (rev s))) else None)"

definition encode_cursor :: "cursor_codec \<Rightarrow> summary_row \<Rightarrow> string" where
  "encode_cursor cc s = cc_b64 cc (''v1:'' @ cc_show_time cc (sr_last_updated_at s) @ '':'' @ sr_id s)"

definition decode_cursor :: "cursor_codec \<Rightarrow> string \<Rightarrow> (timestamp \<times> uuid) option" where
  "decode_cursor cc cursor = (case cc_unb64 cc cursor of
     None \<Rightarrow> None
   | Some raw \<Rightarrow> (case strip_prefix ''v1:'' raw of
       None \<Rightarrow> None
     | Some rest \<Rightarrow> (case rsplit_once (CHR '':'') rest of
         None \<Rightarrow> None
       | Some (ts, sid) \<Rightarrow> (case (cc_parse_time cc ts, cc_parse_uuid cc sid) of
           (Some t, Some u) \<Rightarrow> Some (t, u) | _ \<Rightarrow> None))))"

text \<open>A decimal \<open>i64\<close>, with an optional sign.\<close>

definition parse_i64 :: "string \<Rightarrow> int option" where
  "parse_i64 s = (case s of
     c # d # rest \<Rightarrow> if c = CHR ''-'' \<and> d \<noteq> CHR ''+''
       then (case parse_usize (d # rest) of Some n \<Rightarrow> if n \<le> 2 ^ 63 then Some (- int n) else None | None \<Rightarrow> None)
       else (case parse_usize s of Some n \<Rightarrow> if n < 2 ^ 63 then Some (int n) else None | None \<Rightarrow> None)
   | _ \<Rightarrow> (case parse_usize s of Some n \<Rightarrow> if n < 2 ^ 63 then Some (int n) else None | None \<Rightarrow> None))"

text \<open>An instant as seconds and nanoseconds.\<close>

definition instant :: "nat \<Rightarrow> timestamp" where
  "instant n = (int (n div 1000), int (n mod 1000) * 1000000)"

definition audit_encode_cursor :: "cursor_codec \<Rightarrow> audit_row \<Rightarrow> string" where
  "audit_encode_cursor cc x = cc_b64 cc (cc_show_time cc (instant (au_created_at x)) @ ''|'' @ show_int (au_id x))"

definition audit_decode_cursor :: "cursor_codec \<Rightarrow> string \<Rightarrow> (timestamp \<times> int) option" where
  "audit_decode_cursor cc cursor = (case cc_unb64 cc cursor of
     None \<Rightarrow> None
   | Some raw \<Rightarrow> (case rsplit_once (CHR ''|'') raw of
       None \<Rightarrow> None
     | Some (ts, i) \<Rightarrow> (case (cc_parse_time cc ts, parse_i64 i) of (Some t, Some n) \<Rightarrow> Some (t, n) | _ \<Rightarrow> None)))"

section \<open>Handlers\<close>

definition PAGE_DEFAULT :: int where "PAGE_DEFAULT = 50"
definition PAGE_MAX :: int where "PAGE_MAX = 200"

definition owned_session :: "uuid \<Rightarrow> uuid \<Rightarrow> bool \<Rightarrow> relay \<Rightarrow> wire_code + summary_row" where
  "owned_session owner sid ok r =
    (if \<not> ok then Inl (Wc InternalError)
     else case get_session sid r of
       None \<Rightarrow> Inl (Wc SessionNotFound)
     | Some s \<Rightarrow> if list_ex (live_device owner (sr_device_id s)) (rl_devices r) then Inr s else Inl (Wc SessionNotFound))"

text \<open>The order of the session list: by update, then identifier.\<close>

definition session_key_of :: "summary_row \<Rightarrow> timestamp \<times> uuid" where
  "session_key_of s = (sr_last_updated_at s, sr_id s)"

definition visible_sessions :: "uuid \<Rightarrow> bool option \<Rightarrow> relay \<Rightarrow> summary_row list" where
  "visible_sessions owner archived r = filter (\<lambda>s. list_ex (live_device owner (sr_device_id s)) (rl_devices r) \<and>
     (archived = None \<or> archived = Some (sr_archived s))) (rl_sessions r)"

text \<open>The statement of the list: one row more than the page.\<close>

definition store_list_sessions :: "uuid \<Rightarrow> int \<Rightarrow> bool option \<Rightarrow> (timestamp \<times> uuid) option \<Rightarrow> relay \<Rightarrow> summary_row list" where
  "store_list_sessions owner limit archived before r = take (nat (clamp 1 PAGE_MAX limit) + 1) (newest_first session_key_of
     (filter (\<lambda>s. case before of None \<Rightarrow> True | Some k \<Rightarrow> session_key_of s < k) (visible_sessions owner archived r)))"

definition list_sessions :: "cursor_codec \<Rightarrow> uuid \<Rightarrow> int option \<Rightarrow> bool option \<Rightarrow> bool \<Rightarrow> relay \<Rightarrow> string option \<Rightarrow> wire_code + summary_row list \<times> string option" where
  "list_sessions cc owner limit archived ok r cursor =
    (let before = (case cursor of Some c \<Rightarrow> decode_cursor cc c | None \<Rightarrow> None);
         n = (case limit of Some l \<Rightarrow> l | None \<Rightarrow> PAGE_DEFAULT)
     in if cursor \<noteq> None \<and> before = None \<or> \<not> ok then Inl (Wc InternalError)
        else (case cut_page (nat (clamp 1 PAGE_MAX n)) (store_list_sessions owner n archived before r) of
          (rows, lastrow) \<Rightarrow> Inr (rows, map_option (encode_cursor cc) lastrow)))"

definition patch_session :: "uuid \<Rightarrow> uuid \<Rightarrow> bool option \<Rightarrow> bool option \<Rightarrow> bool option \<Rightarrow> string \<Rightarrow> nat \<Rightarrow> bool \<Rightarrow> relay \<Rightarrow> relay \<times> (wire_code + unit)" where
  "patch_session owner sid pinned muted archived rid now ok r = (case owned_session owner sid ok r of
     Inl e \<Rightarrow> (r, Inl e)
   | Inr s \<Rightarrow> (case patch_prefs (sr_id s) pinned muted archived r of
       (r1, True) \<Rightarrow> (record_audit now \<lparr>au_owner_id = owner, au_device_id = Some (sr_device_id s), au_session_id = Some (sr_id s),
           au_request_id = Some rid, au_operation = ''session_prefs'', au_result = ''OK'', au_latency_ms = None\<rparr> r1, Inr ())
     | (r1, False) \<Rightarrow> (r1, Inl (Wc SessionNotFound))))"

definition query_session_key :: "summary_row \<Rightarrow> pb_session_key" where
  "query_session_key s = \<lparr>psk_device_id = sr_device_id s, psk_agent_kind = 1, psk_native_session_id = sr_native_session_id s,
     psk_relay_session_uuid = sr_id s\<rparr>"

text \<open>The queries of the session's pages.\<close>

datatype page_query =
    PgRuntime
  | PgHistory "string option" "nat option"
  | PgOutput string "string option" "nat option"
  | PgGit
  | PgGitDiff string "bool option"
  | PgFile string

fun query_of :: "page_query \<Rightarrow> pb_query" where
  "query_of PgRuntime = QRuntimeSnapshot"
| "query_of (PgHistory cursor n) = QHistoryPage (case cursor of Some c \<Rightarrow> c | None \<Rightarrow> []) (min (case n of Some i \<Rightarrow> i | None \<Rightarrow> 0) (nat PAGE_MAX))"
| "query_of (PgOutput item cursor n) = QCommandOutputPage item False (case cursor of Some c \<Rightarrow> c | None \<Rightarrow> []) (case n of Some i \<Rightarrow> i | None \<Rightarrow> 0)"
| "query_of PgGit = QGitSummary"
| "query_of (PgGitDiff path staged) = QGitFileDiff path (case staged of Some b \<Rightarrow> b | None \<Rightarrow> False)"
| "query_of (PgFile handle) = QFileMetadata handle"

text \<open>A query until it waits for the bridge; the answer is rendered by \<open>query_response_json\<close>.\<close>

definition query_session :: "wire \<Rightarrow> stamp \<Rightarrow> uuid \<Rightarrow> uuid \<Rightarrow> page_query \<Rightarrow> bool \<Rightarrow> relay \<Rightarrow> relay \<times> (wire_code + string)" where
  "query_session w sp owner sid q ok r = (case owned_session owner sid ok r of
     Inl e \<Rightarrow> (r, Inl e)
   | Inr s \<Rightarrow> (case query_begin w sp (sr_device_id s) \<lparr>qrq_session_key = Some (query_session_key s), qrq_query = Some (query_of q)\<rparr> (rl_hub r) of
       (g, res) \<Rightarrow> (r\<lparr>rl_hub := g\<rparr>, res)))"

definition query_response_json :: "query_response \<Rightarrow> wire_code + blob" where
  "query_response_json resp =
    (if qre_error_code resp \<noteq> 0 then Inl (case wire_try_from (qre_error_code resp) of Some c \<Rightarrow> c | None \<Rightarrow> Wc InternalError)
     else case qre_result resp of Some b \<Rightarrow> Inr b | None \<Rightarrow> Inl (Wc CodexUnavailable))"

definition get_request :: "uuid \<Rightarrow> string \<Rightarrow> bool \<Rightarrow> relay \<Rightarrow> wire_code + receipt_entry" where
  "get_request owner rid ok r =
    (if \<not> ok then Inl (Wc InternalError)
     else case fetch_receipt rid r of
       Some x \<Rightarrow> if rw_owner_id x = owner then Inr x else Inl (Wc SessionNotFound)
     | None \<Rightarrow> Inl (Wc SessionNotFound))"

definition session_requests :: "uuid \<Rightarrow> uuid \<Rightarrow> string option \<Rightarrow> int option \<Rightarrow> bool \<Rightarrow> relay \<Rightarrow> wire_code + receipt_entry list" where
  "session_requests owner sid rid limit ok r = (case owned_session owner sid ok r of
     Inl e \<Rightarrow> Inl e
   | Inr s \<Rightarrow> (case rid of
       Some i \<Rightarrow> (case get_request owner i ok r of Inl e \<Rightarrow> Inl e | Inr x \<Rightarrow> Inr [x])
     | None \<Rightarrow> Inr (filter (\<lambda>x. rw_owner_id x = owner)
         (list_receipts_for_session (sr_id s) (case limit of Some l \<Rightarrow> l | None \<Rightarrow> 50) r))))"

text \<open>The audit trail of a user.\<close>

definition audit_key :: "audit_row \<Rightarrow> timestamp \<times> int" where
  "audit_key x = (instant (au_created_at x), au_id x)"

definition list_audit :: "cursor_codec \<Rightarrow> uuid \<Rightarrow> int option \<Rightarrow> bool \<Rightarrow> relay \<Rightarrow> string option \<Rightarrow> wire_code + audit_row list \<times> string option" where
  "list_audit cc owner limit ok r cursor =
    (let before = (case cursor of Some c \<Rightarrow> audit_decode_cursor cc c | None \<Rightarrow> None);
         n = nat (clamp 1 PAGE_MAX (case limit of Some l \<Rightarrow> l | None \<Rightarrow> PAGE_DEFAULT))
     in if cursor \<noteq> None \<and> before = None \<or> \<not> ok then Inl (Wc InternalError)
        else (case cut_page n (take (n + 1) (newest_first audit_key
            (filter (\<lambda>x. au_owner_id x = owner \<and> (case before of None \<Rightarrow> True | Some k \<Rightarrow> audit_key x < k)) (rl_audit r)))) of
          (rows, lastrow) \<Rightarrow> Inr (rows, map_option (audit_encode_cursor cc) lastrow)))"

section \<open>Cursors round trip\<close>

lemma rsplit_once_append: "c \<notin> set t \<Longrightarrow> rsplit_once c (s @ c # t) = Some (s, t)"
  by (simp add: rsplit_once_def takeWhile_append dropWhile_append)

lemma digit_no_sign: "c \<in> set (show_nat n) \<Longrightarrow> c \<noteq> CHR ''-'' \<and> c \<noteq> CHR ''+'' \<and> c \<noteq> CHR ''|'' \<and> c \<noteq> CHR ''.''"
proof -
  assume "c \<in> set (show_nat n)"
  then obtain d :: nat where "d < 10" "c = char_of (48 + d)" using show_nat_digits by blast
  then have "of_char c = 48 + d" "d < 10" by (simp_all add: of_char_of)
  then show ?thesis by auto
qed

lemma parse_i64_show:
  assumes "- (2 ^ 63) \<le> i" "i < 2 ^ 63"
  shows "parse_i64 (show_int i) = Some i"
proof (cases "i < 0")
  case True
  obtain d rest where d: "show_nat (nat (- i)) = d # rest" by (meson neq_Nil_conv show_nat_nonempty)
  then have "d \<noteq> CHR ''+''" using digit_no_sign [of d] by (metis list.set_intros(1))
  moreover have "nat (- i) < 2 ^ 64" "nat (- i) \<le> 2 ^ 63" using assms True by (auto simp: nat_less_iff nat_le_iff)
  ultimately show ?thesis using True d parse_usize_show [of "nat (- i)"] by (simp add: parse_i64_def show_int_def)
next
  case False
  obtain d rest where d: "show_nat (nat i) = d # rest" by (meson neq_Nil_conv show_nat_nonempty)
  then have "d \<noteq> CHR ''-''" using digit_no_sign [of d] by (metis list.set_intros(1))
  moreover have "nat i < 2 ^ 63" "nat i < 2 ^ 64" using assms False by (auto simp: nat_less_iff)
  ultimately show ?thesis using False d parse_usize_show [of "nat i"]
    by (cases rest) (simp_all add: parse_i64_def show_int_def)
qed

lemma show_int_no_bar: "CHR ''|'' \<notin> set (show_int i)" "CHR ''.'' \<notin> set (show_int i)"
  using digit_no_sign by (auto simp: show_int_def)

text \<open>What the handlers rely on in the libraries: Base64 decodes what it encoded, and a UUID has no colon.\<close>

locale cursor_laws =
  fixes cc :: cursor_codec
  assumes unb64: "cc_unb64 cc (cc_b64 cc s) = Some s"
    and uuid_text: "cc_parse_uuid cc u = Some v \<Longrightarrow> CHR '':'' \<notin> set v"

definition sess_ok :: "cursor_codec \<Rightarrow> relay \<Rightarrow> bool" where
  "sess_ok cc r \<longleftrightarrow> distinct (map sr_id (rl_sessions r)) \<and> list_all (\<lambda>s. cc_parse_uuid cc (sr_id s) = Some (sr_id s) \<and>
     cc_parse_time cc (cc_show_time cc (sr_last_updated_at s)) = Some (sr_last_updated_at s)) (rl_sessions r)"

definition audit_ok :: "cursor_codec \<Rightarrow> relay \<Rightarrow> bool" where
  "audit_ok cc r \<longleftrightarrow> distinct (map au_id (rl_audit r)) \<and> list_all (\<lambda>x. - (2 ^ 63) \<le> au_id x \<and> au_id x < 2 ^ 63 \<and>
     cc_parse_time cc (cc_show_time cc (instant (au_created_at x))) = Some (instant (au_created_at x))) (rl_audit r)"

definition page_limit :: "int option \<Rightarrow> nat" where
  "page_limit limit = nat (clamp 1 PAGE_MAX (case limit of Some l \<Rightarrow> l | None \<Rightarrow> PAGE_DEFAULT))"

lemma page_limit_bounds: "0 < page_limit limit \<and> page_limit limit \<le> 200"
  by (auto simp: page_limit_def clamp_def PAGE_MAX_def nat_le_iff)

definition owned_audit :: "uuid \<Rightarrow> relay \<Rightarrow> audit_row list" where
  "owned_audit owner r = filter (\<lambda>x. au_owner_id x = owner) (rl_audit r)"

lemma below_simps: "below key None = (\<lambda>y. True)" "below key (Some x) = (\<lambda>y. key y < key x)"
  by (simp_all add: below_def fun_eq_iff)

context cursor_laws
begin

lemma cursor_round_trip:
  assumes "sess_ok cc r" "s \<in> set (rl_sessions r)"
  shows "decode_cursor cc (encode_cursor cc s) = Some (session_key_of s)"
proof -
  have s: "cc_parse_uuid cc (sr_id s) = Some (sr_id s)" "cc_parse_time cc (cc_show_time cc (sr_last_updated_at s)) = Some (sr_last_updated_at s)"
    using assms by (auto simp: sess_ok_def list_all_iff)
  have "rsplit_once (CHR '':'') (cc_show_time cc (sr_last_updated_at s) @ CHR '':'' # sr_id s) = Some (cc_show_time cc (sr_last_updated_at s), sr_id s)"
    by (rule rsplit_once_append) (rule uuid_text [OF s(1)])
  moreover have "strip_prefix ''v1:'' (''v1:'' @ t) = Some t" for t by (rule strip_prefix_append)
  ultimately show ?thesis using s by (simp add: decode_cursor_def encode_cursor_def unb64 session_key_of_def)
qed

lemma audit_cursor_round_trip:
  assumes "audit_ok cc r" "x \<in> set (rl_audit r)"
  shows "audit_decode_cursor cc (audit_encode_cursor cc x) = Some (audit_key x)"
proof -
  have x: "parse_i64 (show_int (au_id x)) = Some (au_id x)"
    "cc_parse_time cc (cc_show_time cc (instant (au_created_at x))) = Some (instant (au_created_at x))"
    using assms parse_i64_show by (auto simp: audit_ok_def list_all_iff)
  have "rsplit_once (CHR ''|'') (t @ CHR ''|'' # show_int (au_id x)) = Some (t, show_int (au_id x))" for t
    by (rule rsplit_once_append) (rule show_int_no_bar)
  then show ?thesis using x by (simp add: audit_decode_cursor_def audit_encode_cursor_def unb64 audit_key_def)
qed

lemma session_page:
  assumes "sess_ok cc r" "\<forall>x. b = Some x \<longrightarrow> (\<exists>t. sess_ok cc t \<and> x \<in> set (visible_sessions owner archived t))"
  shows "list_sessions cc owner limit archived True r (map_option (encode_cursor cc) b) =
    Inr (map_prod id (map_option (encode_cursor cc)) (cut_page (page_limit limit) (take (page_limit limit + 1)
      (newest_first session_key_of (filter (below session_key_of b) (visible_sessions owner archived r))))))"
proof -
  have "decode_cursor cc (encode_cursor cc x) = Some (session_key_of x)" if "b = Some x" for x
    using assms(2) cursor_round_trip that by (fastforce simp: visible_sessions_def)
  then show ?thesis
    by (cases b) (simp_all add: list_sessions_def store_list_sessions_def below_simps page_limit_def Let_def split: prod.splits)
qed

lemma audit_page:
  assumes "audit_ok cc r" "\<forall>x. b = Some x \<longrightarrow> (\<exists>t. audit_ok cc t \<and> x \<in> set (owned_audit owner t))"
  shows "list_audit cc owner limit True r (map_option (audit_encode_cursor cc) b) =
    Inr (map_prod id (map_option (audit_encode_cursor cc)) (cut_page (page_limit limit) (take (page_limit limit + 1)
      (newest_first audit_key (filter (below audit_key b) (owned_audit owner r))))))"
proof -
  have "audit_decode_cursor cc (audit_encode_cursor cc x) = Some (audit_key x)" if "b = Some x" for x
    using assms(2) audit_cursor_round_trip that by (fastforce simp: owned_audit_def)
  then show ?thesis
    by (cases b) (simp_all add: list_audit_def below_simps page_limit_def owned_audit_def Let_def conj_commute split: prod.splits)
qed

end

sublocale cursor_laws \<subseteq> sessions: keyset session_key_of "visible_sessions owner archived" "list_sessions cc owner limit archived True"
    "page_limit limit" "encode_cursor cc" "sess_ok cc" for owner archived limit
proof
  show "0 < page_limit limit" using page_limit_bounds by simp
  show "distinct (map session_key_of (visible_sessions owner archived s))" if "sess_ok cc s" for s
    using that by (auto simp: sess_ok_def visible_sessions_def distinct_map session_key_of_def inj_on_def)
qed (rule session_page)

sublocale cursor_laws \<subseteq> audit: keyset audit_key "owned_audit owner" "list_audit cc owner limit True"
    "page_limit limit" "audit_encode_cursor cc" "audit_ok cc" for owner limit
proof
  show "0 < page_limit limit" using page_limit_bounds by simp
  show "distinct (map audit_key (owned_audit owner s))" if "audit_ok cc s" for s
    using that by (auto simp: audit_ok_def owned_audit_def distinct_map audit_key_def inj_on_def)
qed (rule audit_page)
section \<open>Paginated lists\<close>

context cursor_laws
begin

lemmas session_walk_unchanged = sessions.walk_unchanged
lemmas session_walk_changing = sessions.walk_changing sessions.walk_stable
lemmas audit_walk_unchanged = audit.walk_unchanged
lemmas audit_walk_changing = audit.walk_changing audit.walk_stable

end

text \<open>
  C19. Following the cursors of the session list or of the audit trail ends: if the table does not change, after as
  many requests as its rows fill pages (a page holds between 1 and 200 rows, whatever limit is asked for)
  the client has every row it may see exactly once, newest first, and the last answer has no cursor.
\<close>

theorem list_walks_end:
  assumes "cursor_laws cc" "sess_ok cc r" "audit_ok cc r" "0 < n"
    "length (visible_sessions owner archived r) \<le> n * page_limit limit" "length (owned_audit owner r) \<le> n * page_limit limit"
  shows "walk (list_sessions cc owner limit archived True) (replicate n r) None = (newest_first session_key_of (visible_sessions owner archived r), True) \<and>
    walk (list_audit cc owner limit True) (replicate n r) None = (newest_first audit_key (owned_audit owner r), True)"
  using cursor_laws.session_walk_unchanged [OF assms(1,2,5,4)] cursor_laws.audit_walk_unchanged [OF assms(1,3,6,4)] by simp

text \<open>
  C36. The cursors are stable: while the tables change between the requests, a walk never returns a session or an audit row twice,
  keeps the order, and a finished walk contains every row exactly once that was there unchanged during all of it.
\<close>

theorem list_walks_stable:
  assumes "cursor_laws cc" "\<forall>r\<in>set rs. sess_ok cc r \<and> audit_ok cc r"
    "walk (list_sessions cc owner limit archived True) rs None = (xs, xend)" "walk (list_audit cc owner limit True) rs None = (ys, yend)"
  shows "sorted_wrt (\<lambda>a b. session_key_of b < session_key_of a) xs \<and> sorted_wrt (\<lambda>a b. audit_key b < audit_key a) ys \<and>
    (\<forall>s. xend \<and> (\<forall>r\<in>set rs. s \<in> set (visible_sessions owner archived r)) \<longrightarrow> count_list xs s = 1) \<and>
    (\<forall>x. yend \<and> (\<forall>r\<in>set rs. x \<in> set (owned_audit owner r)) \<longrightarrow> count_list ys x = 1)"
proof -
  have ok: "\<forall>r\<in>set rs. sess_ok cc r" "\<forall>r\<in>set rs. audit_ok cc r" using assms(2) by auto
  have xs: "sorted_wrt (\<lambda>a b. session_key_of b < session_key_of a) xs"
    using cursor_laws.session_walk_changing(1) [OF assms(1) ok(1), of None] assms(3) by force
  have ys: "sorted_wrt (\<lambda>a b. audit_key b < audit_key a) ys"
    using cursor_laws.audit_walk_changing(1) [OF assms(1) ok(2), of None] assms(4) by force
  have "count_list xs s = 1" if "xend" "\<forall>r\<in>set rs. s \<in> set (visible_sessions owner archived r)" for s
    using cursor_laws.session_walk_changing(2) [OF assms(1) ok(1) _ that(2)] assms(3) that(1) by metis
  moreover have "count_list ys x = 1" if "yend" "\<forall>r\<in>set rs. x \<in> set (owned_audit owner r)" for x
    using cursor_laws.audit_walk_changing(2) [OF assms(1) ok(2) _ that(2)] assms(4) that(1) by metis
  ultimately show ?thesis using xs ys by blast
qed

section \<open>Isolation of users\<close>

definition owns_session :: "uuid \<Rightarrow> relay \<Rightarrow> uuid \<Rightarrow> bool" where
  "owns_session owner r sid \<longleftrightarrow> (case get_session sid r of
     Some s \<Rightarrow> list_ex (live_device owner (sr_device_id s)) (rl_devices r) | None \<Rightarrow> False)"

lemma owned_session_iff:
  "owned_session owner sid True r = (case get_session sid r of
     Some s \<Rightarrow> if owns_session owner r sid then Inr s else Inl (Wc SessionNotFound) | None \<Rightarrow> Inl (Wc SessionNotFound))"
  by (simp add: owned_session_def owns_session_def split: option.splits)

lemma cut_page_subset: "set (fst (cut_page n xs)) \<subseteq> set xs"
  by (auto simp: cut_page_def Let_def dest: in_set_butlastD)

lemma fetched_subset: "set (take n (newest_first key xs)) \<subseteq> set xs"
  using set_take_subset [of n "newest_first key xs"] by simp

lemma listed_sessions_visible:
  assumes "list_sessions cc owner limit archived ok r cursor = Inr (rows, next)"
  shows "set rows \<subseteq> set (visible_sessions owner archived r)"
proof -
  define l where "l = (case limit of Some l \<Rightarrow> l | None \<Rightarrow> PAGE_DEFAULT)"
  define before where "before = (case cursor of Some c \<Rightarrow> decode_cursor cc c | None \<Rightarrow> None)"
  have "rows = fst (cut_page (nat (clamp 1 PAGE_MAX l)) (store_list_sessions owner l archived before r))"
    using assms by (simp add: list_sessions_def Let_def prod.case_eq_if split: if_splits flip: l_def before_def)
  then have "set rows \<subseteq> set (store_list_sessions owner l archived before r)" by (simp only: cut_page_subset)
  also have "\<dots> \<subseteq> set (visible_sessions owner archived r)"
    using fetched_subset unfolding store_list_sessions_def by (rule order_trans) auto
  finally show ?thesis .
qed

lemma listed_audit_owned:
  assumes "list_audit cc owner limit ok r cursor = Inr (rows, next)"
  shows "set rows \<subseteq> set (owned_audit owner r)"
proof -
  define n where "n = nat (clamp 1 PAGE_MAX (case limit of Some l \<Rightarrow> l | None \<Rightarrow> PAGE_DEFAULT))"
  define before where "before = (case cursor of Some c \<Rightarrow> audit_decode_cursor cc c | None \<Rightarrow> None)"
  define P where "P = (\<lambda>x. case before of None \<Rightarrow> True | Some k \<Rightarrow> audit_key x < k)"
  have rows: "rows = fst (cut_page n (take (n + 1) (newest_first audit_key (filter (\<lambda>x. au_owner_id x = owner \<and> P x) (rl_audit r)))))"
    using assms by (simp add: list_audit_def Let_def prod.case_eq_if P_def split: if_splits flip: n_def before_def)
  have "set rows \<subseteq> set (filter (\<lambda>x. au_owner_id x = owner \<and> P x) (rl_audit r))"
    unfolding rows using cut_page_subset fetched_subset by (rule order_trans)
  then show ?thesis by (auto simp: owned_audit_def)
qed

text \<open>
  C16. Users do not see each other: every row that a list, a receipt query or the audit trail returns belongs to the caller
  (a session through a device of the caller that is not revoked), and a session of another user is
  answered exactly as one that does not exist, without any effect.
\<close>

theorem users_are_isolated:
  "(\<forall>s\<in>set xs. list_sessions cc owner limit archived ok r cursor = Inr (xs, next) \<longrightarrow>
      s \<in> set (rl_sessions r) \<and> (\<exists>d\<in>set (rl_devices r). dv_id d = sr_device_id s \<and> dv_owner_id d = owner \<and> dv_revoked_at d = None)) \<and>
   (list_audit cc owner limit ok r cursor = Inr (ys, next) \<longrightarrow> (\<forall>y\<in>set ys. au_owner_id y = owner)) \<and>
   (get_request owner rid ok r = Inr x \<longrightarrow> rw_owner_id x = owner \<and> rw_request_id x = rid) \<and>
   (session_requests owner sid which limit ok r = Inr zs \<longrightarrow> (\<forall>z\<in>set zs. rw_owner_id z = owner)) \<and>
   (\<forall>(d, online)\<in>set (list_devices owner r). dv_owner_id d = owner) \<and>
   (\<forall>c\<in>set (list_challenges owner now r). ch_owner_id c = Some owner) \<and>
   (\<not> owns_session owner r sid \<longrightarrow>
      patch_session owner sid p m a q now True r = (r, Inl (Wc SessionNotFound)) \<and>
      query_session w sp owner sid pq True r = (r, Inl (Wc SessionNotFound)) \<and>
      session_requests owner sid which limit True r = Inl (Wc SessionNotFound))"
proof (intro conjI)
  show "\<forall>s\<in>set xs. list_sessions cc owner limit archived ok r cursor = Inr (xs, next) \<longrightarrow>
      s \<in> set (rl_sessions r) \<and> (\<exists>d\<in>set (rl_devices r). dv_id d = sr_device_id s \<and> dv_owner_id d = owner \<and> dv_revoked_at d = None)"
    using listed_sessions_visible by (fastforce simp: visible_sessions_def list_ex_iff live_device_def)
  show "list_audit cc owner limit ok r cursor = Inr (ys, next) \<longrightarrow> (\<forall>y\<in>set ys. au_owner_id y = owner)"
    using listed_audit_owned by (fastforce simp: owned_audit_def)
  show "get_request owner rid ok r = Inr x \<longrightarrow> rw_owner_id x = owner \<and> rw_request_id x = rid"
    by (auto simp: get_request_def fetch_receipt_def find_Some_iff split: if_splits option.splits)
  show "session_requests owner sid which limit ok r = Inr zs \<longrightarrow> (\<forall>z\<in>set zs. rw_owner_id z = owner)"
    by (auto simp: session_requests_def get_request_def split: if_splits option.splits sum.splits)
  show "\<forall>(d, online)\<in>set (list_devices owner r). dv_owner_id d = owner" by (auto simp: list_devices_def)
  show "\<forall>c\<in>set (list_challenges owner now r). ch_owner_id c = Some owner" by (auto simp: list_challenges_def dest: in_set_takeD)
  show "\<not> owns_session owner r sid \<longrightarrow>
      patch_session owner sid p m a q now True r = (r, Inl (Wc SessionNotFound)) \<and>
      query_session w sp owner sid pq True r = (r, Inl (Wc SessionNotFound)) \<and>
      session_requests owner sid which limit True r = Inl (Wc SessionNotFound)"
    by (auto simp: patch_session_def query_session_def session_requests_def owned_session_iff split: option.splits)
qed
section \<open>Examples\<close>

definition ex_codec :: cursor_codec where
  "ex_codec = \<lparr>cc_b64 = (\<lambda>s. s), cc_unb64 = Some, cc_show_time = (\<lambda>(a, b). show_int a @ ''.'' @ show_int b),
     cc_parse_time = (\<lambda>s. case rsplit_once (CHR ''.'') s of
       Some (x, y) \<Rightarrow> (case (parse_i64 x, parse_i64 y) of (Some a, Some b) \<Rightarrow> Some (a, b) | _ \<Rightarrow> None) | None \<Rightarrow> None),
     cc_parse_uuid = (\<lambda>u. if CHR '':'' \<in> set u then None else Some u)\<rparr>"

interpretation ex: cursor_laws ex_codec
  by unfold_locales (auto simp: ex_codec_def split: if_splits)

definition ex_device :: "uuid \<Rightarrow> uuid \<Rightarrow> device_row" where
  "ex_device d owner = \<lparr>dv_id = d, dv_owner_id = owner, dv_display_name = [], dv_platform = [], dv_arch = [], dv_bridge_version = [],
     dv_credential_digest = d, dv_paired_at = 0, dv_revoked_at = None, dv_last_seen_at = None, dv_compatibility_summary = [],
     dv_control_summary = [], dv_privacy_hide_titles = False\<rparr>"

definition ex_sessions :: "summary_row list" where
  "ex_sessions = [fresh_session ''a'' ''d'' ''CODEX_DESKTOP'' ''x'' (5, 0), fresh_session ''b'' ''d'' ''CODEX_DESKTOP'' ''y'' (7, 0),
     fresh_session ''c'' ''d'' ''CODEX_DESKTOP'' ''z'' (7, 0)]"

definition ex_relay :: relay where
  "ex_relay = record_audit 3000 \<lparr>au_owner_id = ''o'', au_device_id = None, au_session_id = None, au_request_id = None,
     au_operation = ''device_rename'', au_result = ''OK'', au_latency_ms = None\<rparr>
     (relay_new\<lparr>rl_devices := [ex_device ''d'' ''o'', ex_device ''e'' ''p''], rl_sessions := ex_sessions\<rparr>)"

lemma ex_time: "- (2 ^ 63) \<le> a \<Longrightarrow> a < 2 ^ 63 \<Longrightarrow> cc_parse_time ex_codec (cc_show_time ex_codec (a, 0)) = Some (a, 0)"
  using rsplit_once_append [OF show_int_no_bar(2)] parse_i64_show [of a] parse_i64_show [of 0] by (simp add: ex_codec_def)

lemma ex_sess_ok: "sess_ok ex_codec ex_relay"
  using ex_time [of 5] ex_time [of 7]
  by (simp add: sess_ok_def ex_relay_def record_audit_def ex_sessions_def fresh_session_def) (simp add: ex_codec_def)

lemma ex_audit_ok: "audit_ok ex_codec ex_relay"
  using ex_time [of 3] by (simp add: audit_ok_def instant_def ex_relay_def record_audit_def relay_new_def audit_event.defs audit_row.defs)

lemma ex_visible: "visible_sessions ''o'' None ex_relay = ex_sessions"
  by (simp add: visible_sessions_def ex_relay_def record_audit_def ex_sessions_def fresh_session_def live_device_def ex_device_def)

lemma ex_owned: "owned_audit ''p'' ex_relay = []"
  by (simp add: owned_audit_def ex_relay_def record_audit_def relay_new_def audit_event.defs audit_row.defs)

theorem list_walks_end_witness:
  "walk (list_sessions ex_codec ''o'' (Some 2) None True) (replicate 2 ex_relay) None = (newest_first session_key_of ex_sessions, True) \<and>
   map sr_id (newest_first session_key_of ex_sessions) = [''c'', ''b'', ''a'']"
proof -
  have two: "page_limit (Some 2) = 2" by (simp add: page_limit_def clamp_def PAGE_MAX_def)
  have "length (owned_audit ''o'' ex_relay) \<le> 2 * page_limit (Some 2)"
    by (simp add: two owned_audit_def ex_relay_def record_audit_def relay_new_def audit_event.defs audit_row.defs)
  then have "walk (list_sessions ex_codec ''o'' (Some 2) None True) (replicate 2 ex_relay) None = (newest_first session_key_of ex_sessions, True)"
    using list_walks_end [OF ex.cursor_laws_axioms ex_sess_ok ex_audit_ok, of 2 "''o''" None "Some 2"] ex_visible two
    by (simp add: ex_sessions_def)
  then show ?thesis by (simp add: newest_first_def ex_sessions_def fresh_session_def session_key_of_def less_list_code)
qed

theorem list_walks_stable_witness:
  "count_list (fst (walk (list_sessions ex_codec ''o'' None None True) [ex_relay] None)) (hd ex_sessions) = 1"
proof -
  let ?w = "walk (list_sessions ex_codec ''o'' None None True) [ex_relay] None"
  let ?v = "walk (list_audit ex_codec ''o'' None True) [ex_relay] None"
  have page: "list_sessions ex_codec ''o'' None None True ex_relay None = Inr (newest_first session_key_of ex_sessions, None)"
    using ex.sessions.page_cases [OF ex_sess_ok _ refl, of None "''o''" None None] ex_visible
    by (simp add: below_simps ex_sessions_def page_limit_def clamp_def PAGE_MAX_def PAGE_DEFAULT_def)
  then have "?w = (fst ?w, True)" by simp
  moreover have "\<forall>r\<in>set [ex_relay]. hd ex_sessions \<in> set (visible_sessions ''o'' None r)"
    using ex_visible by (simp add: ex_sessions_def)
  ultimately show ?thesis
    using list_walks_stable [OF ex.cursor_laws_axioms, of "[ex_relay]" "''o''" None None "fst ?w" True "fst ?v" "snd ?v"] ex_sess_ok ex_audit_ok
    by (simp del: walk.simps)
qed

theorem users_are_isolated_witness:
  "patch_session ''p'' ''a'' (Some True) None None ''q'' 9 True ex_relay = (ex_relay, Inl (Wc SessionNotFound))"
proof -
  have "\<not> owns_session ''p'' ex_relay ''a''"
    by (simp add: owns_session_def get_session_def ex_relay_def record_audit_def ex_sessions_def fresh_session_def live_device_def ex_device_def)
  then show ?thesis using users_are_isolated [where owner = "''p''" and sid = "''a''" and r = ex_relay] by simp
qed

section \<open>Defects\<close>

text \<open>
  The device whose rows a batch writes is the one named in its first summary, not the one that sent
  it: a bridge changes the sessions of another user's device.
\<close>

definition ex_foreign :: summary_batch where
  "ex_foreign = \<lparr>smb_summaries = [\<lparr>ssm_session_key = Some \<lparr>psk_device_id = ''d'', psk_agent_kind = 1, psk_native_session_id = ''x'', psk_relay_session_uuid = []\<rparr>,
     ssm_title = ''t'', ssm_project_display_name = [], ssm_current_branch = [], ssm_updated_at = None, ssm_device_connection = 2,
     ssm_device_last_seen_at = None, ssm_degraded_reason = [], ssm_control_mode = 1, ssm_compatibility_state = 1, ssm_active_turn_phase = 1,
     ssm_pending_attention_count = 0, ssm_pending_attention_kinds = [], ssm_queue_state = 1, ssm_last_turn_outcome = 1, ssm_rest = []\<rparr>],
   smb_snapshot = False\<rparr>"

lemma bridge_writes_foreign_sessions:
  "map sr_title (rl_sessions (fst (upsert_summary_batch Some (\<lambda>a b. Some (a, b)) (9, 0) [(True, ''n'')] ''e'' ex_foreign ex_relay))) = [''t'', [], []] \<and>
   owns_session ''o'' ex_relay ''a'' \<and> \<not> owns_session ''p'' ex_relay ''a''"
  by (simp add: upsert_summary_batch_def summary_device_id_def ex_foreign_def upsert_summary_def find_session_def agent_kind_name_def
    summary_columns_def Let_def owns_session_def get_session_def ex_relay_def record_audit_def ex_sessions_def fresh_session_def live_device_def ex_device_def)

end
