(* ===== verification/Relay_Commands.thy ===== *)
theory Relay_Commands
  imports Relay_Sessions
begin

text \<open>
  The dispatch of messages in \<open>apps/relay/src/realtime/mod.rs\<close>: what a bridge and a browser may send, and a
  command's way from the browser over its receipt to the bridge and back. The handler of a command
  waits for the database several times; each part between two waits is a definition. \<open>dig\<close> is the hash of
  the encoded request.
\<close>

section \<open>A command\<close>

definition command_rejected :: "string \<Rightarrow> wire_code \<Rightarrow> command_result" where
  "command_rejected rid code = \<lparr>cre_request_id = rid, cre_status = 5, cre_error_code = wire_number code, cre_details = [], cre_duration_ms = None\<rparr>"

definition canonical_browser_command_digest :: "(pb_command_request \<Rightarrow> string) \<Rightarrow> pb_command_request \<Rightarrow> string" where
  "canonical_browser_command_digest dig req = dig (req\<lparr>pcr_request_id := [], pcr_payload_digest := []\<rparr>)"

definition operation_of :: "pb_command_request \<Rightarrow> string" where
  "operation_of req = enum_or OPERATION (pcr_operation req) ''OPERATION_UNSPECIFIED''"

definition command_reply :: "wire \<Rightarrow> stamp \<Rightarrow> uuid \<Rightarrow> command_result \<Rightarrow> relay \<Rightarrow> relay" where
  "command_reply w sp c result r = r\<lparr>rl_hub := (rl_hub r)\<lparr>hb_net := net_tell w (base_envelope sp [] (PCommandResult result)) c (hb_net (rl_hub r))\<rparr>\<rparr>"

abbreviation reject :: "wire \<Rightarrow> stamp \<Rightarrow> uuid \<Rightarrow> pb_command_request \<Rightarrow> stable_error_code \<Rightarrow> relay \<Rightarrow> relay" where
  "reject w sp c req code \<equiv> command_reply w sp c (command_rejected (pcr_request_id req) (Wc code))"

text \<open>Whether commands are taken at all: the identity of the caller goes on.\<close>

definition command_admit :: "wire \<Rightarrow> stamp \<Rightarrow> uuid \<Rightarrow> pb_command_request \<Rightarrow> relay \<Rightarrow> relay \<times> browser_identity option" where
  "command_admit w sp c req r = (case map_of (nw_browsers (hb_net (rl_hub r))) c of
     None \<Rightarrow> (r, None)
   | Some ident \<Rightarrow>
       if hb_shutdown (rl_hub r) then (reject w sp c req InternalError r, None)
       else if \<not> writes_allowed (sp_now sp) (rl_hub r)
       then (command_reply w sp c ((command_rejected (pcr_request_id req) (Wc InternalError))
              \<lparr>cre_details := [(''reason'', ''AUTH_BACKEND_UNAVAILABLE'')]\<rparr>) r, None)
       else if bi_expires_at ident \<le> sp_now sp then (r\<lparr>rl_hub := close_browser c ''AUTH_EXPIRED'' (rl_hub r)\<rparr>, None)
       else (r, Some ident))"

text \<open>The device and the session; a database that does not answer reads as not found.\<close>

definition command_target :: "wire \<Rightarrow> uuid \<Rightarrow> pb_command_request \<Rightarrow> bool \<Rightarrow> relay \<Rightarrow> stable_error_code + uuid \<times> uuid option" where
  "command_target w owner req ok r = (case pcr_session_key req of
     Some k \<Rightarrow> (case wi_uuid w (psk_device_id k) of
       None \<Rightarrow> Inl SessionNotFound
     | Some device \<Rightarrow>
         if \<not> ok \<or> \<not> list_ex (live_device owner device) (rl_devices r) then Inl SessionNotFound
         else if \<not> is_online device (rl_hub r) then Inl DeviceOffline
         else (case find_session device (agent_kind_name (psk_agent_kind k)) (psk_native_session_id k) r of
           Some s \<Rightarrow> Inr (device, Some (sr_id s))
         | None \<Rightarrow> Inl SessionNotFound))
   | None \<Rightarrow> (case online_devices_of_owner owner (rl_hub r) of
       [] \<Rightarrow> Inl DeviceOffline
     | [device] \<Rightarrow> Inr (device, None)
     | _ \<Rightarrow> Inl CapabilityUnsupported))"

text \<open>The receipt decides: a new request goes on, a repeated one is answered from its receipt.\<close>

definition receipt_answer :: "string \<Rightarrow> receipt_entry \<Rightarrow> command_result" where
  "receipt_answer rid x = (command_rejected rid (if rw_error_code x = [] then WcUnspecified else stable_code_from_name (rw_error_code x)))
     \<lparr>cre_status := (case receipt_status_code (rw_status x) of Some n \<Rightarrow> n | None \<Rightarrow> 0)\<rparr>"

definition same_command :: "uuid \<Rightarrow> uuid option \<Rightarrow> string \<Rightarrow> string \<Rightarrow> receipt_entry \<Rightarrow> bool" where
  "same_command owner session operation digest x \<longleftrightarrow>
     rw_owner_id x = owner \<and> rw_session_id x = session \<and> rw_operation x = operation \<and> rw_payload_digest x = digest"

definition command_enter :: "wire \<Rightarrow> stamp \<Rightarrow> (pb_command_request \<Rightarrow> string) \<Rightarrow> uuid \<Rightarrow> uuid \<Rightarrow> pb_command_request \<Rightarrow> uuid option \<Rightarrow> bool \<Rightarrow> bool \<Rightarrow> relay \<Rightarrow> relay \<times> bool" where
  "command_enter w sp dig c owner req session inserts reads r =
    (let rid = pcr_request_id req; operation = operation_of req; digest = canonical_browser_command_digest dig req
     in if \<not> inserts then (reject w sp c req InternalError r, False)
        else (case insert_receipt rid owner session operation digest (sp_now sp) r of
          (r1, True) \<Rightarrow> (r1, True)
        | (r1, False) \<Rightarrow> (case (if reads then fetch_receipt rid r1 else None) of
            None \<Rightarrow> (r1, False)
          | Some x \<Rightarrow>
              if same_command owner session operation digest x then (command_reply w sp c (receipt_answer rid x) r1, False)
              else (reject w sp c req DuplicateRequestMismatch r1, False))))"

definition command_register :: "stamp \<Rightarrow> uuid \<Rightarrow> uuid \<Rightarrow> pb_command_request \<Rightarrow> relay \<Rightarrow> relay" where
  "command_register sp c device req r = r\<lparr>rl_hub := register_command (pcr_request_id req) c device (operation_of req) (sp_now sp) (rl_hub r)\<rparr>"

definition command_forward :: "wire \<Rightarrow> stamp \<Rightarrow> uuid \<Rightarrow> uuid \<Rightarrow> uuid \<Rightarrow> uuid option \<Rightarrow> pb_command_request \<Rightarrow> relay \<Rightarrow> relay \<times> bool" where
  "command_forward w sp c owner device session req r =
    (let env = (base_envelope sp device (PCommandRequest req))\<lparr>ev_correlation_id := pcr_request_id req\<rparr>
     in case send_to_bridge w device env (rl_hub r) of
          (g, False) \<Rightarrow> (reject w sp c req DeviceOffline (update_receipt (pcr_request_id req) ''REJECTED'' ''DEVICE_OFFLINE'' (sp_now sp)
              (r\<lparr>rl_hub := take_command (pcr_request_id req) g\<rparr>)), False)
        | (g, True) \<Rightarrow> (record_audit (sp_now sp) \<lparr>au_owner_id = owner, au_device_id = Some device, au_session_id = session,
              au_request_id = Some (pcr_request_id req), au_operation = ''command_request'', au_result = ''RECEIVED'', au_latency_ms = None\<rparr>
              (r\<lparr>rl_hub := g\<rparr>), True))"

text \<open>The handler without interruption; the result says whether the command went to the bridge.\<close>

definition on_browser_command :: "wire \<Rightarrow> stamp \<Rightarrow> (pb_command_request \<Rightarrow> string) \<Rightarrow> uuid \<Rightarrow> pb_command_request \<Rightarrow> bool \<Rightarrow> relay \<Rightarrow> relay \<times> bool" where
  "on_browser_command w sp dig c req ok r = (case command_admit w sp c req r of
     (r1, None) \<Rightarrow> (r1, False)
   | (r1, Some ident) \<Rightarrow> (case command_target w (bi_owner_id ident) req ok r1 of
       Inl code \<Rightarrow> (reject w sp c req code r1, False)
     | Inr (device, session) \<Rightarrow> (case command_enter w sp dig c (bi_owner_id ident) req session ok ok r1 of
         (r2, False) \<Rightarrow> (r2, False)
       | (r2, True) \<Rightarrow> command_forward w sp c (bi_owner_id ident) device session req (command_register sp c device req r2))))"

section \<open>The bridge's answers\<close>

definition tell_browser :: "wire \<Rightarrow> stamp \<Rightarrow> uuid \<Rightarrow> payload \<Rightarrow> uuid \<Rightarrow> relay \<Rightarrow> relay" where
  "tell_browser w sp device p c r = r\<lparr>rl_hub := (rl_hub r)\<lparr>hb_net := net_tell w (base_envelope sp device p) c (hb_net (rl_hub r))\<rparr>\<rparr>"

definition on_command_accepted :: "wire \<Rightarrow> stamp \<Rightarrow> uuid \<Rightarrow> command_accepted \<Rightarrow> relay \<Rightarrow> relay" where
  "on_command_accepted w sp device accepted r =
    (let r1 = (case map_of (hb_commands (rl_hub r)) (cac_request_id accepted) of
           None \<Rightarrow> r | Some p \<Rightarrow> tell_browser w sp device (PCommandAccepted accepted) (pc_conn_id p) r)
     in if cac_status accepted = 2 then update_receipt (cac_request_id accepted) ''ACCEPTED_BY_BRIDGE'' [] (sp_now sp) r1 else r1)"

definition terminal_status :: "int \<Rightarrow> bool" where
  "terminal_status status \<longleftrightarrow> status = 4 \<or> status = 5 \<or> status = 6"

definition status_name :: "int \<Rightarrow> string" where
  "status_name status = (if status = 4 then ''COMPLETED'' else if status = 5 then ''REJECTED'' else if status = 6 then ''OUTCOME_UNKNOWN''
     else if status = 3 then ''DISPATCHED_TO_CODEX'' else if status = 2 then ''ACCEPTED_BY_BRIDGE'' else ''RECEIVED'')"

definition result_error :: "command_result \<Rightarrow> string" where
  "result_error result = (if cre_error_code result = 0 then [] else stable_code_name (cre_error_code result))"

definition on_command_result :: "wire \<Rightarrow> stamp \<Rightarrow> uuid \<Rightarrow> command_result \<Rightarrow> relay \<Rightarrow> relay" where
  "on_command_result w sp device result r =
    (let rid = cre_request_id result; name = status_name (cre_status result); error = result_error result;
         pending = map_of (hb_commands (rl_hub r)) rid;
         r1 = (case pending of
           None \<Rightarrow> r
         | Some p \<Rightarrow> (let r0 = tell_browser w sp device (PCommandResult result) (pc_conn_id p) r
             in if terminal_status (cre_status result) then r0\<lparr>rl_hub := take_command rid (rl_hub r0)\<rparr> else r0));
         r2 = update_receipt rid name error (sp_now sp) r1
     in case pending of
          None \<Rightarrow> r2
        | Some p \<Rightarrow> (case map_of (nw_browsers (hb_net (rl_hub r2))) (pc_conn_id p) of
            None \<Rightarrow> r2
          | Some ident \<Rightarrow> record_audit (sp_now sp) \<lparr>au_owner_id = bi_owner_id ident, au_device_id = Some device, au_session_id = None,
              au_request_id = Some rid, au_operation = ''command_result'', au_result = (if error = [] then name else name @ '':'' @ error),
              au_latency_ms = Some (int (sp_now sp - pc_started_at p))\<rparr> r2))"

section \<open>Dispatch\<close>

text \<open>
  Messages of a bridge. The notifications to send and a message for the file data plane are results;
  \<open>answers\<close> are the database's answers for a batch of summaries.
\<close>

datatype bridge_effect = NoEffect | QueryAnswer query_response | ToTransfers payload

definition handle_bridge_envelope ::
  "wire \<Rightarrow> stamp \<Rightarrow> (int \<Rightarrow> int \<Rightarrow> timestamp option) \<Rightarrow> timestamp \<Rightarrow> (bool \<times> uuid) list \<Rightarrow> uuid \<Rightarrow> envelope \<Rightarrow> relay \<Rightarrow> relay \<times> push_trigger list \<times> bridge_effect" where
  "handle_bridge_envelope w sp from_ts now answers device env r =
    (let u = ev_stream_id env; g = rl_hub r
     in case ev_payload env of
       None \<Rightarrow> (r, [], NoEffect)
     | Some p \<Rightarrow> (case p of
         PHeartbeat \<Rightarrow> (r\<lparr>rl_hub := fst (send_to_bridge w device (base_envelope sp device PHeartbeatAck) g)\<rparr>, [], NoEffect)
       | PSubscribed sub \<Rightarrow> (r\<lparr>rl_hub := handle_upstream_subscribed w sp u sub g\<rparr>, [], NoEffect)
       | PRuntimeSnapshot _ \<Rightarrow> (case handle_upstream_snapshot w sp u env g of (g1, ts) \<Rightarrow> (r\<lparr>rl_hub := g1\<rparr>, ts, NoEffect))
       | PSessionSummaryBatch batch \<Rightarrow>
           (let r1 = fst (upsert_summary_batch (wi_uuid w) from_ts now answers device batch r)
            in case (if smb_snapshot batch then handle_upstream_snapshot w sp u env (rl_hub r1)
                     else fan_out_events w sp u env (map SessionSummaryChanged (smb_summaries batch)) (rl_hub r1)) of
                 (g1, ts) \<Rightarrow> (r1\<lparr>rl_hub := g1\<rparr>, ts, NoEffect))
       | PEventBatch batch \<Rightarrow> (case fan_out_events w sp u env (List.map_filter de_event (eb_events batch)) g of
           (g1, ts) \<Rightarrow> (r\<lparr>rl_hub := g1\<rparr>, ts, NoEffect))
       | PCommandAccepted accepted \<Rightarrow> (on_command_accepted w sp device accepted r, [], NoEffect)
       | PCommandResult result \<Rightarrow> (on_command_result w sp device result r, [], NoEffect)
       | PQueryResponse resp \<Rightarrow> (case query_answered resp g of (g1, waited) \<Rightarrow>
           (r\<lparr>rl_hub := g1\<rparr>, [], if waited then QueryAnswer resp else NoEffect))
       | PCapabilitySnapshot cap \<Rightarrow> (update_device_capability_summary device cap r, [], NoEffect)
       | PResyncRequired _ \<Rightarrow> (r\<lparr>rl_hub := upstream_resync w sp device u g\<rparr>, [], NoEffect)
       | PTransferReady _ \<Rightarrow> (r, [], ToTransfers p)
       | PTransferResult _ \<Rightarrow> (r, [], ToTransfers p)
       | _ \<Rightarrow> (r, [], NoEffect)))"

text \<open>Messages of a browser. \<open>sid\<close> is the identity a new stream would get.\<close>

definition device_owned :: "wire \<Rightarrow> uuid \<Rightarrow> subscribe_target option \<Rightarrow> bool \<Rightarrow> relay \<Rightarrow> bool" where
  "device_owned w c target ok r = (case (map_of (nw_browsers (hb_net (rl_hub r))) c, target) of
     (Some ident, Some (SubSession k)) \<Rightarrow> (case wi_uuid w (psk_device_id k) of
       Some device \<Rightarrow> ok \<and> list_ex (live_device (bi_owner_id ident) device) (rl_devices r) | None \<Rightarrow> False)
   | _ \<Rightarrow> False)"

definition handle_browser_envelope ::
  "wire \<Rightarrow> stamp \<Rightarrow> (pb_command_request \<Rightarrow> string) \<Rightarrow> string \<Rightarrow> bool \<Rightarrow> uuid \<Rightarrow> envelope \<Rightarrow> relay \<Rightarrow> relay" where
  "handle_browser_envelope w sp dig sid ok c env r =
    (let g = rl_hub r; correlation = ev_correlation_id env
     in case ev_payload env of
       Some (PSubscribe target) \<Rightarrow> r\<lparr>rl_hub := on_browser_subscribe w sp sid c target (device_owned w c target ok r) correlation g\<rparr>
     | Some (PUnsubscribe stream) \<Rightarrow> r\<lparr>rl_hub := browser_unsubscribe c stream g\<rparr>
     | Some (PAck (stream, seq)) \<Rightarrow> r\<lparr>rl_hub := browser_ack c stream seq g\<rparr>
     | Some (PResyncRequest stream) \<Rightarrow> r\<lparr>rl_hub := browser_resync w sp c stream correlation g\<rparr>
     | Some (PCommandRequest req) \<Rightarrow> fst (on_browser_command w sp dig c req ok r)
     | Some PHeartbeat \<Rightarrow> tell_browser w sp [] PHeartbeatAck c r
     | Some (PClientHello _) \<Rightarrow> r
     | Some (PServerHello _) \<Rightarrow> r
     | _ \<Rightarrow> r\<lparr>rl_hub := send_protocol_error w sp (Wc InternalError) MSG_UNSUPPORTED c g\<rparr>)"
section \<open>Commands at work\<close>

text \<open>
  Handlers run concurrently. A task is a command's handler between two waits; everything else that touches the hub
  or the receipts may come in between.
\<close>

datatype cmd_stage = Admitted | Entered | Registered

record cmd_task =
  ct_conn :: uuid
  ct_owner :: uuid
  ct_device :: uuid
  ct_session :: "uuid option"
  ct_request :: pb_command_request
  ct_stage :: cmd_stage

record cmds =
  cm_relay :: relay
  cm_tasks :: "(nat \<times> cmd_task) list"

datatype cmd_op =
    CAdmit stamp nat uuid pb_command_request bool
  | CEnter stamp nat bool bool
  | CRegister stamp nat
  | CForward stamp nat
  | CFromBridge stamp timestamp "(bool \<times> uuid) list" uuid envelope
  | CBridgeEnd stamp timestamp uuid uuid
  | CHub hub_op

definition stage_at :: "nat \<Rightarrow> cmd_stage \<Rightarrow> cmds \<Rightarrow> cmd_task option" where
  "stage_at t st s = (case map_of (cm_tasks s) t of Some k \<Rightarrow> if ct_stage k = st then Some k else None | None \<Rightarrow> None)"

definition set_task :: "nat \<Rightarrow> cmd_task \<Rightarrow> relay \<Rightarrow> cmds \<Rightarrow> cmds" where
  "set_task t k r s = s\<lparr>cm_relay := r, cm_tasks := AList.update t k (cm_tasks s)\<rparr>"

definition end_task :: "nat \<Rightarrow> relay \<Rightarrow> cmds \<Rightarrow> cmds" where
  "end_task t r s = s\<lparr>cm_relay := r, cm_tasks := AList.delete t (cm_tasks s)\<rparr>"

definition admit_task :: "wire \<Rightarrow> stamp \<Rightarrow> nat \<Rightarrow> uuid \<Rightarrow> pb_command_request \<Rightarrow> bool \<Rightarrow> cmds \<Rightarrow> cmds" where
  "admit_task w sp t c req ok s = (case command_admit w sp c req (cm_relay s) of
     (r, None) \<Rightarrow> s\<lparr>cm_relay := r\<rparr>
   | (r, Some ident) \<Rightarrow> (case command_target w (bi_owner_id ident) req ok r of
       Inl code \<Rightarrow> s\<lparr>cm_relay := reject w sp c req code r\<rparr>
     | Inr (device, session) \<Rightarrow> set_task t \<lparr>ct_conn = c, ct_owner = bi_owner_id ident, ct_device = device, ct_session = session,
         ct_request = req, ct_stage = Admitted\<rparr> r s))"

fun cmd_step :: "wire \<Rightarrow> (pb_command_request \<Rightarrow> string) \<Rightarrow> (int \<Rightarrow> int \<Rightarrow> timestamp option) \<Rightarrow> cmds \<Rightarrow> cmd_op \<Rightarrow> cmds" where
  "cmd_step w dig ft s (CAdmit sp t c req ok) = (if map_of (cm_tasks s) t = None then admit_task w sp t c req ok s else s)"
| "cmd_step w dig ft s (CEnter sp t inserts reads) = (case stage_at t Admitted s of
     None \<Rightarrow> s
   | Some k \<Rightarrow> (case command_enter w sp dig (ct_conn k) (ct_owner k) (ct_request k) (ct_session k) inserts reads (cm_relay s) of
       (r, True) \<Rightarrow> set_task t (k\<lparr>ct_stage := Entered\<rparr>) r s
     | (r, False) \<Rightarrow> end_task t r s))"
| "cmd_step w dig ft s (CRegister sp t) = (case stage_at t Entered s of
     None \<Rightarrow> s
   | Some k \<Rightarrow> set_task t (k\<lparr>ct_stage := Registered\<rparr>) (command_register sp (ct_conn k) (ct_device k) (ct_request k) (cm_relay s)) s)"
| "cmd_step w dig ft s (CForward sp t) = (case stage_at t Registered s of
     None \<Rightarrow> s
   | Some k \<Rightarrow> end_task t (fst (command_forward w sp (ct_conn k) (ct_owner k) (ct_device k) (ct_session k) (ct_request k) (cm_relay s))) s)"
| "cmd_step w dig ft s (CFromBridge sp now answers device env) =
     s\<lparr>cm_relay := fst (handle_bridge_envelope w sp ft now answers device env (cm_relay s))\<rparr>"
| "cmd_step w dig ft s (CBridgeEnd sp now device owner) = s\<lparr>cm_relay := bridge_session_end w sp now device owner (cm_relay s)\<rparr>"
| "cmd_step w dig ft s (CHub x) = s\<lparr>cm_relay := (cm_relay s)\<lparr>rl_hub := hub_step w (rl_hub (cm_relay s)) x\<rparr>\<rparr>"

text \<open>The request identifiers that a step hands to a bridge.\<close>

fun forwards :: "wire \<Rightarrow> cmds \<Rightarrow> cmd_op \<Rightarrow> string list" where
  "forwards w s (CForward sp t) = (case stage_at t Registered s of
     None \<Rightarrow> []
   | Some k \<Rightarrow> if snd (command_forward w sp (ct_conn k) (ct_owner k) (ct_device k) (ct_session k) (ct_request k) (cm_relay s))
       then [pcr_request_id (ct_request k)] else [])"
| "forwards w s _ = []"

text \<open>What a receipt fixes for ever, and the receipt that a task has entered.\<close>

definition core :: "receipt_entry \<Rightarrow> string \<times> uuid \<times> uuid option \<times> string \<times> string" where
  "core x = (rw_request_id x, rw_owner_id x, rw_session_id x, rw_operation x, rw_payload_digest x)"

definition cores :: "relay \<Rightarrow> (string \<times> uuid \<times> uuid option \<times> string \<times> string) list" where
  "cores r = map core (rl_receipts r)"

definition task_core :: "(pb_command_request \<Rightarrow> string) \<Rightarrow> cmd_task \<Rightarrow> string \<times> uuid \<times> uuid option \<times> string \<times> string" where
  "task_core dig k = (pcr_request_id (ct_request k), ct_owner k, ct_session k, operation_of (ct_request k), canonical_browser_command_digest dig (ct_request k))"

definition entered :: "cmds \<Rightarrow> nat \<Rightarrow> cmd_task \<Rightarrow> bool" where
  "entered s t k \<longleftrightarrow> map_of (cm_tasks s) t = Some k \<and> ct_stage k \<noteq> Admitted"

abbreviation rid_of :: "cmd_task \<Rightarrow> string" where
  "rid_of k \<equiv> pcr_request_id (ct_request k)"

definition cmds_ok :: "(pb_command_request \<Rightarrow> string) \<Rightarrow> cmds \<Rightarrow> bool" where
  "cmds_ok dig s \<longleftrightarrow> distinct (map fst (cores (cm_relay s))) \<and>
     (\<forall>t k. entered s t k \<longrightarrow> task_core dig k \<in> set (cores (cm_relay s)) \<and> (\<forall>t' k'. entered s t' k' \<and> rid_of k' = rid_of k \<longrightarrow> t' = t))"

definition command_settled :: "cmds \<Rightarrow> string \<Rightarrow> bool" where
  "command_settled s rid \<longleftrightarrow> rid \<in> fst ` set (cores (cm_relay s)) \<and> (\<forall>t k. entered s t k \<longrightarrow> rid_of k \<noteq> rid)"

definition cmds_new :: cmds where
  "cmds_new = \<lparr>cm_relay = relay_new, cm_tasks = []\<rparr>"

lemma cores_update_receipt [simp]: "cores (update_receipt rid st e now r) = cores r"
  by (simp add: cores_def core_def update_receipt_def)

lemma cores_other [simp]:
  "cores (record_audit now e r) = cores r" "cores (r\<lparr>rl_hub := g\<rparr>) = cores r" "cores (command_reply w sp c x r) = cores r"
  "cores (tell_browser w sp device p c r) = cores r" "cores (set_device_connection ts device st r) = cores r"
  "cores (update_device device h r) = cores r" "cores (r\<lparr>rl_sessions := ss\<rparr>) = cores r" "cores (command_register sp c device req r) = cores r"
  by (simp_all add: cores_def record_audit_def command_reply_def tell_browser_def set_device_connection_def update_device_def command_register_def)

lemma cores_receipts: "cores (r\<lparr>rl_receipts := rl_receipts r @ [x]\<rparr>) = cores r @ [core x]"
  by (simp add: cores_def)

lemma cores_ids: "fst ` set (cores r) = rw_request_id ` set (rl_receipts r)"
  by (force simp: cores_def core_def)

lemma cores_foldl: "(\<And>r x. cores (h r x) = cores r) \<Longrightarrow> cores (foldl h r xs) = cores r"
  by (induction xs arbitrary: r) simp_all

lemma cores_summaries: "cores (fst (upsert_summaries ft now device answers sms r)) = cores r"
proof (induction ft now device answers sms r rule: upsert_summaries.induct)
  case (3 ft now device ok new_id answers sm sms r)
  have "cores r1 = cores r" if "upsert_summary ft now new_id device sm r = Some r1" for r1
    using that by (auto simp: upsert_summary_def Let_def split: option.splits if_splits)
  then show ?case using 3 by (auto split: option.splits)
qed simp_all

lemma cores_from_bridge: "cores (fst (handle_bridge_envelope w sp ft now answers device env r)) = cores r"
proof (cases "ev_payload env")
  case (Some p)
  then show ?thesis
    by (cases p) (auto simp: handle_bridge_envelope_def Let_def on_command_accepted_def on_command_result_def cores_summaries upsert_summary_batch_def
      update_device_capability_summary_def split: option.splits prod.splits)
qed (simp add: handle_bridge_envelope_def)

lemma cores_bridge_end: "cores (bridge_session_end w sp now device owner r) = cores r"
  by (auto simp: bridge_session_end_def Let_def cores_foldl split: prod.splits)

lemma cores_admit: "cores (fst (command_admit w sp c req r)) = cores r"
  by (simp add: command_admit_def split: option.splits)

lemma cores_forward: "cores (fst (command_forward w sp c owner device session req r)) = cores r"
  by (simp add: command_forward_def Let_def split: prod.splits bool.splits)

text \<open>The receipt is new exactly when the command goes on.\<close>

lemma cores_enter:
  assumes "command_enter w sp dig c owner req session inserts reads r = (r1, new)"
  shows "if new then pcr_request_id req \<notin> fst ` set (cores r) \<and>
      cores r1 = cores r @ [(pcr_request_id req, owner, session, operation_of req, canonical_browser_command_digest dig req)]
    else cores r1 = cores r"
  using assms
  by (auto simp: command_enter_def insert_receipt_def Let_def cores_receipts cores_ids core_def split: if_splits option.splits)
text \<open>Four ways for a step to change the tasks.\<close>

lemma entered_set_task [simp]: "entered (set_task t k r s) t' k' \<longleftrightarrow> (if t' = t then k' = k \<and> ct_stage k \<noteq> Admitted else entered s t' k')"
  by (auto simp: entered_def set_task_def update_conv')

lemma entered_end_task [simp]: "entered (end_task t r s) t' k' \<longleftrightarrow> t' \<noteq> t \<and> entered s t' k'"
  by (auto simp: entered_def end_task_def delete_conv')

lemma entered_relay [simp]: "entered (s\<lparr>cm_relay := r\<rparr>) = entered s"
  by (simp add: entered_def fun_eq_iff)

lemma relay_of_task [simp]: "cm_relay (set_task t k r s) = r" "cm_relay (end_task t r s) = r"
  by (simp_all add: set_task_def end_task_def)

lemma stage_at_some: "stage_at t st s = Some k \<longleftrightarrow> map_of (cm_tasks s) t = Some k \<and> ct_stage k = st"
  by (auto simp: stage_at_def split: option.splits if_splits)

text \<open>A step keeps the receipts and lets entered tasks at most go on or end, or enters one new receipt with its task.\<close>

lemma step_cases:
  obtains (same) "cores (cm_relay (cmd_step w dig ft s x)) = cores (cm_relay s)"
      "\<And>t k. entered (cmd_step w dig ft s x) t k \<Longrightarrow> \<exists>k0. entered s t k0 \<and> task_core dig k = task_core dig k0"
    | (fresh) t k where "forwards w s x = []" "rid_of k \<notin> fst ` set (cores (cm_relay s))"
      "cores (cm_relay (cmd_step w dig ft s x)) = cores (cm_relay s) @ [task_core dig k]"
      "\<And>t' k'. entered (cmd_step w dig ft s x) t' k' \<longleftrightarrow> (if t' = t then k' = k\<lparr>ct_stage := Entered\<rparr> else entered s t' k')"
proof (cases x)
  case (CAdmit sp t c req ok)
  have "cores (cm_relay (admit_task w sp t c req ok s)) = cores (cm_relay s)"
    using cores_admit [of w sp c req "cm_relay s"] by (auto simp: admit_task_def split: prod.splits option.splits sum.splits)
  moreover have "entered (admit_task w sp t c req ok s) t' k \<Longrightarrow> entered s t' k" if "map_of (cm_tasks s) t = None" for t' k
    by (auto simp: admit_task_def split: prod.splits option.splits sum.splits if_splits)
  ultimately have "cores (cm_relay (cmd_step w dig ft s x)) = cores (cm_relay s)"
    "\<And>t k. entered (cmd_step w dig ft s x) t k \<Longrightarrow> \<exists>k0. entered s t k0 \<and> task_core dig k = task_core dig k0"
    using CAdmit by (auto split: if_splits)
  then show ?thesis by (rule same)
next
  case (CEnter sp t inserts reads)
  show ?thesis
  proof (cases "stage_at t Admitted s")
    case (Some k)
    obtain r1 new where e: "command_enter w sp dig (ct_conn k) (ct_owner k) (ct_request k) (ct_session k) inserts reads (cm_relay s) = (r1, new)" by fastforce
    have step: "cmd_step w dig ft s x = (if new then set_task t (k\<lparr>ct_stage := Entered\<rparr>) r1 s else end_task t r1 s)"
      using Some e CEnter by simp
    show ?thesis
    proof (cases new)
      case True
      then show ?thesis using fresh [of k t] cores_enter [OF e] step CEnter by (auto simp: task_core_def)
    next
      case False
      then show ?thesis using same cores_enter [OF e] step by auto
    qed
  qed (use same CEnter in auto)
next
  case (CRegister sp t)
  show ?thesis
  proof (cases "stage_at t Entered s")
    case (Some k)
    then have "entered s t k" by (simp add: stage_at_some entered_def)
    then show ?thesis using Some CRegister by (intro same) (auto simp: task_core_def split: if_splits)
  qed (use same CRegister in auto)
next
  case (CForward sp t)
  then show ?thesis using same cores_forward by (cases "stage_at t Registered s") auto
qed (use same cores_from_bridge cores_bridge_end in auto)
lemma cmd_step_ok:
  assumes "cmds_ok dig s"
  shows "cmds_ok dig (cmd_step w dig ft s x)"
proof (cases rule: step_cases [of w dig ft s x])
  case same
  then show ?thesis using assms by (auto simp: cmds_ok_def task_core_def) metis+
next
  case (fresh t k)
  have new: "rid_of k' \<noteq> rid_of k" if "entered s t' k'" for t' k'
    using assms that fresh(2) by (force simp: cmds_ok_def task_core_def)
  have "distinct (map fst (cores (cm_relay (cmd_step w dig ft s x))))"
    using assms fresh(2,3) by (auto simp: cmds_ok_def task_core_def)
  moreover have "task_core dig k' \<in> set (cores (cm_relay (cmd_step w dig ft s x)))" if "entered (cmd_step w dig ft s x) t' k'" for t' k'
    using that assms fresh(3,4) by (auto simp: cmds_ok_def task_core_def split: if_splits)
  moreover have "t1 = t2" if "entered (cmd_step w dig ft s x) t1 k1" "entered (cmd_step w dig ft s x) t2 k2" "rid_of k1 = rid_of k2" for t1 k1 t2 k2
  proof -
    have one: "entered s a ka \<Longrightarrow> entered s b kb \<Longrightarrow> rid_of ka = rid_of kb \<Longrightarrow> a = b" for a ka b kb using assms unfolding cmds_ok_def by metis
    show ?thesis using that new one unfolding fresh(4) by (auto split: if_splits)
  qed
  ultimately show ?thesis unfolding cmds_ok_def by blast
qed

lemma forwardsD:
  assumes "rid \<in> set (forwards w s x)"
  obtains sp t k where "x = CForward sp t" "map_of (cm_tasks s) t = Some k" "ct_stage k = Registered" "rid = rid_of k" "entered s t k"
    "forwards w s x = [rid]"
proof -
  obtain sp t where x: "x = CForward sp t" using assms by (cases x) auto
  then obtain k where "stage_at t Registered s = Some k" "forwards w s x = [rid_of k]" "rid = rid_of k"
    using assms by (cases "stage_at t Registered s") (auto split: if_splits)
  then show ?thesis using that [of sp t k] x by (simp add: stage_at_some entered_def)
qed

lemma command_settled_stays:
  assumes "cmds_ok dig s" "command_settled s rid"
  shows "command_settled (cmd_step w dig ft s x) rid"
proof (cases rule: step_cases [of w dig ft s x])
  case same
  have "rid_of k \<noteq> rid" if k: "entered (cmd_step w dig ft s x) t k" for t k
  proof -
    obtain k0 where "entered s t k0" "rid_of k = rid_of k0" using same(2) [OF k] by (auto simp: task_core_def)
    then show ?thesis using assms(2) unfolding command_settled_def by metis
  qed
  then show ?thesis using assms(2) same(1) unfolding command_settled_def by auto
next
  case (fresh t k)
  have "rid_of k \<noteq> rid" using fresh(2) assms(2) by (auto simp: command_settled_def)
  then show ?thesis using assms(2) unfolding command_settled_def fresh(3,4) by auto
qed

lemma forward_settles:
  assumes ok: "cmds_ok dig s" and f: "rid \<in> set (forwards w s x)"
  shows "\<not> command_settled s rid \<and> command_settled (cmd_step w dig ft s x) rid"
proof -
  obtain sp t k where k: "x = CForward sp t" "map_of (cm_tasks s) t = Some k" "ct_stage k = Registered" "rid = rid_of k" "entered s t k"
    using f by (rule forwardsD)
  have step: "cmd_step w dig ft s x = end_task t (fst (command_forward w sp (ct_conn k) (ct_owner k) (ct_device k) (ct_session k) (ct_request k) (cm_relay s))) s"
    using k(1-3) by (simp add: stage_at_def)
  have "task_core dig k \<in> set (cores (cm_relay s))" and one: "\<And>t' k'. entered s t' k' \<Longrightarrow> rid_of k' = rid_of k \<Longrightarrow> t' = t"
    using ok k(5) unfolding cmds_ok_def by blast+
  then have "rid \<in> fst ` set (cores (cm_relay s))" using k(4) by (force simp: task_core_def)
  moreover have "\<not> command_settled s rid" using k(4,5) unfolding command_settled_def by metis
  ultimately show ?thesis using one k(4) unfolding command_settled_def step by (auto simp: cores_forward)
qed

interpretation cmd_m: op_machine_init "cmd_step w dig ft" "cmds_ok dig" cmds_new for w dig ft
  by unfold_locales (rule cmd_step_ok, assumption, simp add: cmds_ok_def cmds_new_def relay_new_def cores_def entered_def)

interpretation cmd_once: once_ledger "cmd_step w dig ft" "cmds_ok dig" "forwards w" command_settled for w dig ft
proof unfold_locales
  show "distinct (forwards w s x)" for s x by (cases x) (auto split: option.splits)
qed (auto intro: command_settled_stays dest: forward_settles)

text \<open>
  C6. A command reaches a bridge at most once, however handlers, answers, lost bridges and hub operations
  interleave and however often the browser repeats the request: for one request identifier at most one step
  of any run hands a request to a bridge, and that request is the one whose owner, session,
  operation and content its receipt records.
\<close>

theorem command_forwarded_at_most_once:
  assumes "s = foldl (cmd_step w dig ft) cmds_new ops"
  shows "count_list (run_log (cmd_step w dig ft) (forwards w) cmds_new ops) rid \<le> 1 \<and>
    (\<forall>x. rid \<in> set (forwards w s x) \<longrightarrow> (\<exists>sp t k. x = CForward sp t \<and> map_of (cm_tasks s) t = Some k \<and> pcr_request_id (ct_request k) = rid \<and>
       (\<exists>y\<in>set (rl_receipts (cm_relay s)). rw_request_id y = rid \<and>
          same_command (ct_owner k) (ct_session k) (operation_of (ct_request k)) (canonical_browser_command_digest dig (ct_request k)) y)))"
proof -
  have ok: "cmds_ok dig s" using cmd_m.reachable_inv assms by blast
  have "count_list (run_log (cmd_step w dig ft) (forwards w) cmds_new ops) rid \<le> 1"
    using cmd_once.entered_at_most_once [OF cmd_m.init_inv, of w dig ft ops rid] by (auto split: if_splits)
  moreover have "\<exists>sp t k. x = CForward sp t \<and> map_of (cm_tasks s) t = Some k \<and> rid_of k = rid \<and>
       (\<exists>y\<in>set (rl_receipts (cm_relay s)). rw_request_id y = rid \<and>
          same_command (ct_owner k) (ct_session k) (operation_of (ct_request k)) (canonical_browser_command_digest dig (ct_request k)) y)"
    if f: "rid \<in> set (forwards w s x)" for x
  proof -
    obtain sp t k where k: "x = CForward sp t" "map_of (cm_tasks s) t = Some k" "rid = rid_of k" "entered s t k" using f by (rule forwardsD)
    then have "task_core dig k \<in> core ` set (rl_receipts (cm_relay s))" using ok by (auto simp: cmds_ok_def cores_def)
    then show ?thesis using k by (auto simp: task_core_def core_def same_command_def)
  qed
  ultimately show ?thesis by blast
qed

text \<open>
  C20. What a repeated or new request leads to: a new identifier gets a receipt and goes on; a known one with the same
  owner, session, operation and content is answered with the stored status and error and never
  goes on; a known one with anything different is refused as a mismatch, so nobody learns the state of another
  request, and no receipt changes.
\<close>

theorem repeated_command_is_answered_from_its_receipt:
  assumes "distinct (map rw_request_id (rl_receipts r))" "command_enter w sp dig c owner req session True True r = (r1, goes_on)"
  shows "(goes_on \<longleftrightarrow> (\<forall>y\<in>set (rl_receipts r). rw_request_id y \<noteq> pcr_request_id req)) \<and>
    (goes_on \<longrightarrow> (\<exists>y. rl_receipts r1 = rl_receipts r @ [y] \<and> rw_request_id y = pcr_request_id req \<and> rw_status y = ''RECEIVED'' \<and>
       same_command owner session (operation_of req) (canonical_browser_command_digest dig req) y)) \<and>
    (\<not> goes_on \<longrightarrow> rl_receipts r1 = rl_receipts r) \<and>
    (\<forall>y\<in>set (rl_receipts r). rw_request_id y = pcr_request_id req \<longrightarrow>
       r1 = command_reply w sp c (if same_command owner session (operation_of req) (canonical_browser_command_digest dig req) y
         then receipt_answer (pcr_request_id req) y else command_rejected (pcr_request_id req) (Wc DuplicateRequestMismatch)) r)"
proof (cases "fetch_receipt (pcr_request_id req) r")
  case None
  then have fresh: "\<forall>y\<in>set (rl_receipts r). rw_request_id y \<noteq> pcr_request_id req" by (simp add: fetch_receipt_def find_None_iff)
  then have "pcr_request_id req \<notin> rw_request_id ` set (rl_receipts r)" by auto
  then show ?thesis using assms(2) fresh by (auto simp: command_enter_def insert_receipt_def same_command_def Let_def)
next
  case (Some x)
  then have x: "x \<in> set (rl_receipts r)" "rw_request_id x = pcr_request_id req" by (auto simp: fetch_receipt_def find_Some_iff)
  then have mem: "pcr_request_id req \<in> rw_request_id ` set (rl_receipts r)" by force
  have r1: "r1 = command_reply w sp c (if same_command owner session (operation_of req) (canonical_browser_command_digest dig req) x
      then receipt_answer (pcr_request_id req) x else command_rejected (pcr_request_id req) (Wc DuplicateRequestMismatch)) r" "\<not> goes_on"
    using assms(2) Some mem by (auto simp: command_enter_def insert_receipt_def Let_def split: if_splits)
  have one: "y = x" if "y \<in> set (rl_receipts r)" "rw_request_id y = pcr_request_id req" for y
    using assms(1) that x by (auto simp: distinct_map inj_on_def)
  have "rl_receipts r1 = rl_receipts r" using r1(1) by (simp add: command_reply_def)
  then show ?thesis using r1 x one by blast
qed
section \<open>A lost bridge\<close>

lemma detach_commands: "hb_commands (detach_failed_subscriber w sp key g c) = hb_commands g"
  by (auto simp: detach_failed_subscriber_def put_stream_def Let_def split: option.splits prod.splits if_splits)

lemma foldl_commands: "(\<And>g x. hb_commands (h g x) = hb_commands g) \<Longrightarrow> hb_commands (foldl h g xs) = hb_commands g"
  by (induction xs arbitrary: g) simp_all

lemma presence_commands: "hb_commands (fan_out_presence w sp device owner online g) = hb_commands g"
proof -
  have "hb_commands (presence_one w sp device online g k) = hb_commands g" for g k
    by (auto simp: presence_one_def put_stream_def Let_def detach_commands foldl_commands split: option.splits prod.splits)
  then show ?thesis by (simp add: fan_out_presence_def foldl_commands)
qed

lemma receipts_of_updates:
  "rl_receipts (foldl (\<lambda>r (rid, operation). update_receipt rid st e now r) r ps) =
     map (\<lambda>y. if rw_request_id y \<in> fst ` set ps then y\<lparr>rw_status := st, rw_error_code := e, rw_updated_at := now\<rparr> else y) (rl_receipts r)"
  by (induction ps arbitrary: r) (auto simp: update_receipt_def)

lemma hub_of_updates: "rl_hub (foldl (\<lambda>r (rid, operation). update_receipt rid st e now r) r ps) = rl_hub r"
  by (induction ps arbitrary: r) (auto simp: update_receipt_def)


section \<open>Examples\<close>

definition ex_req :: pb_command_request where
  "ex_req = \<lparr>pcr_request_id = ''q'', pcr_operation = 1, pcr_session_key = None, pcr_payload_digest = [], pcr_rest = []\<rparr>"

definition cmd_wire :: wire where
  "cmd_wire = \<lparr>wi_elen = (\<lambda>_. 1), wi_enc = (\<lambda>_. Some [0]), wi_evlen = (\<lambda>_. 1), wi_uuid = Some\<rparr>"

definition cmd_stamp :: stamp where
  "cmd_stamp = \<lparr>sp_message_id = ''m'', sp_correlation = ''x'', sp_sent_at = None, sp_now = 1\<rparr>"

definition ex_cmd_ops :: "cmd_op list" where
  "ex_cmd_ops = [CHub (HRegister ''c'' \<lparr>bi_auth_session_id = ''a'', bi_owner_id = ''o'', bi_expires_at = 9\<rparr> 10 1000),
     CHub (HBridgeInsert ''d'' \<lparr>bn_owner = ''o'', bn_cap = 4, bn_queue = [], bn_open = True, bn_close_signal = False\<rparr>),
     CAdmit cmd_stamp 0 ''c'' ex_req True, CAdmit cmd_stamp 1 ''c'' ex_req True, CEnter cmd_stamp 0 True True, CEnter cmd_stamp 1 True True, CRegister cmd_stamp 0]"

lemmas cmd_run = ex_cmd_ops_def ex_req_def cmd_wire_def cmd_stamp_def cmds_new_def relay_new_def hub_new_def unused_conn_def register_browser_def
  bridge_insert_def admit_task_def command_admit_def writes_allowed_def command_target_def online_devices_of_owner_def
  set_task_def end_task_def stage_at_def command_enter_def insert_receipt_def fetch_receipt_def same_command_def command_register_def register_command_def
  command_reply_def command_forward_def send_to_bridge_def sink_send_def record_audit_def Let_def

lemma ex_forwards:
  "forwards cmd_wire (foldl (cmd_step cmd_wire (\<lambda>_. []) (\<lambda>a b. None)) cmds_new ex_cmd_ops) (CForward cmd_stamp 0) = [''q'']"
  by (simp add: cmd_run)

theorem command_forwarded_at_most_once_witness:
  "\<exists>y\<in>set (rl_receipts (cm_relay (foldl (cmd_step cmd_wire (\<lambda>_. []) (\<lambda>a b. None)) cmds_new ex_cmd_ops))). rw_request_id y = ''q''"
proof -
  have "''q'' \<in> set (forwards cmd_wire (foldl (cmd_step cmd_wire (\<lambda>_. []) (\<lambda>a b. None)) cmds_new ex_cmd_ops) (CForward cmd_stamp 0))"
    by (simp only: ex_forwards) simp
  then show ?thesis
    using command_forwarded_at_most_once [OF refl, of cmd_wire "\<lambda>_. []" "\<lambda>a b. None" ex_cmd_ops "''q''"] by blast
qed

theorem repeated_command_is_answered_from_its_receipt_witness:
  "\<not> snd (command_enter cmd_wire cmd_stamp (\<lambda>_. []) ''c'' ''o'' ex_req None True True
     (fst (insert_receipt ''q'' ''p'' None ''OPERATION_CREATE_TASK'' [] 0 relay_new)))"
proof -
  let ?r = "fst (insert_receipt ''q'' ''p'' None ''OPERATION_CREATE_TASK'' [] 0 relay_new)"
  obtain r1 goes_on where e: "command_enter cmd_wire cmd_stamp (\<lambda>_. []) ''c'' ''o'' ex_req None True True ?r = (r1, goes_on)" by fastforce
  have r: "rl_receipts ?r \<noteq> []" "rw_request_id (hd (rl_receipts ?r)) = pcr_request_id ex_req" "distinct (map rw_request_id (rl_receipts ?r))"
    by (simp_all add: insert_receipt_def relay_new_def ex_req_def)
  then have "\<not> goes_on" using repeated_command_is_answered_from_its_receipt [OF r(3) e] hd_in_set [OF r(1)] by metis
  then show ?thesis using e by simp
qed

section \<open>Defects\<close>

text \<open>
  Neither the receipt nor the waiting browser is checked against the device that answers: any bridge
  completes the command of another user's device.
\<close>

lemma foreign_bridge_settles_a_command:
  "map rw_status (rl_receipts (on_command_result w sp ''e'' \<lparr>cre_request_id = ''q'', cre_status = 4, cre_error_code = 0, cre_details = [], cre_duration_ms = None\<rparr>
     (fst (insert_receipt ''q'' ''o'' None ''OPERATION_CREATE_TASK'' [] 0 relay_new)))) = [''COMPLETED'']"
  by (simp add: on_command_result_def insert_receipt_def relay_new_def hub_new_def update_receipt_def status_name_def Let_def)

end
