(* ===== verification/Utf8.thy ===== *)
theory Utf8
  imports Prelude
begin

text \<open>
  UTF-8 text as bytes: validity as \<open>std::str::from_utf8\<close> decides it, character boundaries, and the
  splitting of output into bounded chunks (\<open>apps/bridge/src/domain/text.rs\<close>, and the flush loop of
  \<open>apps/bridge/src/adapter/codex/mapper.rs\<close>).
\<close>

unbundle bit_operations_syntax

section \<open>Validity\<close>

definition is_cont :: "u8 \<Rightarrow> bool" where "is_cont b \<longleftrightarrow> 0x80 \<le> b \<and> b < 0xC0"

definition utf8_width :: "u8 \<Rightarrow> nat" where
  "utf8_width b = (if b < 0x80 then 1 else if 0xC2 \<le> b \<and> b \<le> 0xDF then 2
     else if 0xE0 \<le> b \<and> b \<le> 0xEF then 3 else if 0xF0 \<le> b \<and> b \<le> 0xF4 then 4 else 0)"

definition second_ok :: "u8 \<Rightarrow> u8 \<Rightarrow> bool" where
  "second_ok b c \<longleftrightarrow> is_cont c \<and>
     (if b = 0xE0 then 0xA0 \<le> c else if b = 0xED then c \<le> 0x9F
      else if b = 0xF0 then 0x90 \<le> c else if b = 0xF4 then c \<le> 0x8F else True)"

fun utf8_char :: "bytes \<Rightarrow> bool" where
  "utf8_char [] = False"
| "utf8_char (b # r) = (length (b # r) = utf8_width b \<and>
     (case r of [] \<Rightarrow> True | c # r' \<Rightarrow> second_ok b c \<and> list_all is_cont r'))"

function utf8_valid :: "bytes \<Rightarrow> bool" where
  "utf8_valid bs =
     (if bs = [] then True
      else if utf8_char (take (utf8_width (hd bs)) bs) then utf8_valid (drop (utf8_width (hd bs)) bs)
      else False)"
  by pat_completeness auto
termination
proof (relation "measure length")
  fix bs :: bytes
  assume "bs \<noteq> []" "utf8_char (take (utf8_width (hd bs)) bs)"
  then have "utf8_width (hd bs) \<noteq> 0" by (metis take_0 utf8_char.simps(1))
  then show "(drop (utf8_width (hd bs)) bs, bs) \<in> measure length" using \<open>bs \<noteq> []\<close> by simp
qed simp

declare utf8_valid.simps [simp del]

lemma cont_mask: "b AND 0xC0 = 0x80 \<longleftrightarrow> is_cont b"
proof -
  have shift: "b AND NOT (mask 6) = push_bit 6 (drop_bit 6 b)"
    by (rule bit_word_eqI) (auto simp: bit_simps)
  have mask: "NOT (mask 6) = (0xC0 :: u8)" by (simp add: mask_eq_exp_minus_1)
  have "unat b div 64 < 4" using unsigned_less [where ?'a = nat, of b] by simp
  then have val: "unat (push_bit 6 (drop_bit 6 b)) = unat b div 64 * 64"
    by (simp only: unsigned_push_bit_eq unsigned_drop_bit_eq)
      (simp add: push_bit_eq_mult drop_bit_eq_div take_bit_eq_mod)
  have "(b AND 0xC0 = 0x80) = (unat (b AND 0xC0) = 128)" by (simp add: word_unat_eq_iff)
  also have "\<dots> = (unat b div 64 * 64 = 128)" using shift val by (simp add: mask)
  also have "\<dots> = is_cont b" by (auto simp: is_cont_def word_le_nat_alt word_less_nat_alt)
  finally show ?thesis .
qed

text \<open>A character is one leading byte followed by at most three continuation bytes.\<close>

lemma utf8_width_cont: "is_cont b \<Longrightarrow> utf8_width b = 0"
  by (auto simp: is_cont_def utf8_width_def word_le_nat_alt word_less_nat_alt)

lemma utf8_char_shape:
  assumes "utf8_char c"
  shows "0 < length c \<and> length c \<le> 4 \<and> \<not> is_cont (hd c) \<and> list_all is_cont (tl c) \<and> length c = utf8_width (hd c)"
proof (cases c)
  case (Cons b r)
  have "utf8_width b \<le> 4" by (simp add: utf8_width_def)
  moreover have "\<not> is_cont b" using assms Cons utf8_width_cont by fastforce
  ultimately show ?thesis using assms Cons by (auto simp: second_ok_def split: list.splits)
qed (use assms in simp)

lemma utf8_valid_concat: "list_all utf8_char cs \<Longrightarrow> utf8_valid (concat cs)"
proof (induction cs)
  case (Cons c cs)
  then have "utf8_char c" by simp
  then have "concat (c # cs) \<noteq> []" "utf8_width (hd (concat (c # cs))) = length c"
    using utf8_char_shape [of c] by (auto simp: hd_append)
  then show ?case using Cons \<open>utf8_char c\<close> by (subst utf8_valid.simps) simp
qed (simp add: utf8_valid.simps)

lemma utf8_valid_chars: "utf8_valid bs \<Longrightarrow> \<exists>cs. bs = concat cs \<and> list_all utf8_char cs"
proof (induction bs rule: utf8_valid.induct)
  case (1 bs)
  show ?case
  proof (cases "bs = []")
    case True
    then show ?thesis by (intro exI [of _ "[]"]) simp
  next
    case False
    let ?n = "utf8_width (hd bs)"
    have v: "utf8_char (take ?n bs)" "utf8_valid (drop ?n bs)"
      using "1.prems" False by (auto simp: utf8_valid.simps [of bs] split: if_splits)
    obtain cs where "drop ?n bs = concat cs" "list_all utf8_char cs"
      using "1.IH" [OF False] v by blast
    then have "bs = concat (take ?n bs # cs)" "list_all utf8_char (take ?n bs # cs)"
      using v append_take_drop_id [of ?n bs] by simp_all
    then show ?thesis by blast
  qed
qed

section \<open>Bounded chunks\<close>

definition is_char_boundary :: "bytes \<Rightarrow> nat \<Rightarrow> bool" where
  "is_char_boundary bs i \<longleftrightarrow> i = 0 \<or> i \<ge> length bs \<or> bs ! i AND 0xC0 \<noteq> 0x80"

text \<open>The loop that steps back from the cut to a boundary.\<close>

fun back_to_boundary :: "bytes \<Rightarrow> nat \<Rightarrow> nat" where
  "back_to_boundary bs 0 = 0"
| "back_to_boundary bs (Suc n) = (if is_char_boundary bs (Suc n) then Suc n else back_to_boundary bs n)"

definition split_utf8_safe :: "nat \<Rightarrow> bytes \<Rightarrow> (bytes \<times> bytes) option" where
  "split_utf8_safe mx bs =
     (if bs = [] \<or> mx = 0 then None
      else (let cut = back_to_boundary bs (min mx (length bs))
            in if cut = 0 then None else Some (take cut bs, drop cut bs)))"

text \<open>
  The flush loop of \<open>take_pending_output\<close>: (offset, chunk) pairs. The loop's \<open>expect\<close> panics when no
  split exists; that is the result None.
\<close>

function flush_chunks :: "nat \<Rightarrow> nat \<Rightarrow> bytes \<Rightarrow> (nat \<times> bytes) list option" where
  "flush_chunks mx offset rest =
     (if rest = [] then Some []
      else (case split_utf8_safe mx rest of
          None \<Rightarrow> None
        | Some (chunk, tl') \<Rightarrow> map_option ((#) (offset, chunk)) (flush_chunks mx (offset + length chunk) tl')))"
  by pat_completeness auto
termination
  by (relation "measure (\<lambda>(mx, offset, rest). length rest)")
    (auto simp: split_utf8_safe_def Let_def split: if_splits)

declare flush_chunks.simps [simp del]

lemma boundary_in_chars:
  assumes "list_all utf8_char cs" "is_char_boundary (concat cs) k" "k \<le> length (concat cs)"
  shows "\<exists>i\<le>length cs. k = length (concat (take i cs))"
  using assms
proof (induction cs arbitrary: k)
  case (Cons c cs)
  have c: "utf8_char c" using Cons.prems by simp
  consider "k = 0" | "0 < k" "k < length c" | "length c \<le> k" by linarith
  then show ?case
  proof cases
    case 1
    then show ?thesis by (intro exI [of _ 0]) simp
  next
    case 2
    then have "concat (c # cs) ! k = tl c ! (k - 1)" "k - 1 < length (tl c)"
      by (auto simp: nth_append nth_tl)
    then have "is_cont (concat (c # cs) ! k)"
      using utf8_char_shape [OF c] by (metis list_all_length)
    then show ?thesis using 2 Cons.prems(2) by (auto simp: is_char_boundary_def cont_mask)
  next
    case 3
    have "is_char_boundary (concat cs) (k - length c)"
      using 3 Cons.prems(2) by (auto simp: is_char_boundary_def nth_append)
    then obtain i where "i \<le> length cs" "k - length c = length (concat (take i cs))"
      using Cons.IH [of "k - length c"] Cons.prems 3 by (auto simp: le_diff_conv)
    then show ?thesis using 3 by (intro exI [of _ "Suc i"]) simp
  qed
qed simp

lemma char_end_is_boundary:
  assumes "list_all utf8_char (c # cs)"
  shows "is_char_boundary (concat (c # cs)) (length c)"
proof (cases cs)
  case (Cons d ds)
  then have "utf8_char d" using assms by simp
  then have "concat (c # cs) ! length c = hd d" "\<not> is_cont (hd d)"
    using utf8_char_shape [of d] Cons by (auto simp: nth_append hd_conv_nth)
  then show ?thesis by (simp add: is_char_boundary_def cont_mask)
qed (simp add: is_char_boundary_def)

lemma back_to_boundary_le: "back_to_boundary bs n \<le> n"
  by (induction n) auto

lemma back_to_boundary_boundary: "is_char_boundary bs (back_to_boundary bs n)"
  by (induction n) (auto simp: is_char_boundary_def)

lemma back_to_boundary_ge: "is_char_boundary bs k \<Longrightarrow> k \<le> n \<Longrightarrow> k \<le> back_to_boundary bs n"
  by (induction n) (auto simp: le_Suc_eq)

lemma split_utf8_safe_valid:
  assumes "utf8_valid bs" "bs \<noteq> []" "4 \<le> mx"
  obtains chunk rest where "split_utf8_safe mx bs = Some (chunk, rest)" "chunk @ rest = bs"
    "chunk \<noteq> []" "length chunk \<le> mx" "utf8_valid chunk" "utf8_valid rest"
proof -
  obtain cs where cs: "bs = concat cs" "list_all utf8_char cs" using utf8_valid_chars [OF assms(1)] by blast
  then obtain c cs' where c: "cs = c # cs'" using assms(2) by (cases cs) auto
  let ?cut = "back_to_boundary bs (min mx (length bs))"
  have "length c \<le> min mx (length bs)" using utf8_char_shape [of c] cs c assms(3) by simp
  then have "length c \<le> ?cut" using char_end_is_boundary [of c cs'] cs c by (intro back_to_boundary_ge) auto
  moreover have "utf8_char c" using cs(2) c by simp
  then have "0 < length c" using utf8_char_shape by blast
  ultimately have pos: "?cut > 0" by linarith
  have le: "?cut \<le> mx" "?cut \<le> length bs" using back_to_boundary_le [of bs "min mx (length bs)"] by simp_all
  obtain i where i: "?cut = length (concat (take i cs))"
    using boundary_in_chars [OF cs(2)] back_to_boundary_boundary [of bs] le cs(1) by blast
  have split: "bs = concat (take i cs) @ concat (drop i cs)"
    using cs(1) by (metis append_take_drop_id concat_append)
  then have "take ?cut bs = concat (take i cs)" "drop ?cut bs = concat (drop i cs)"
    unfolding i by (metis append_eq_conv_conj)+
  moreover have "list_all utf8_char (take i cs)" "list_all utf8_char (drop i cs)"
    using cs(2) by (metis append_take_drop_id list_all_append)+
  ultimately have "utf8_valid (take ?cut bs)" "utf8_valid (drop ?cut bs)"
    using utf8_valid_concat by metis+
  then show ?thesis
    using that [of "take ?cut bs" "drop ?cut bs"] pos le assms(2,3)
    by (auto simp: split_utf8_safe_def Let_def)
qed

text \<open>
  Chunks as they are meant: they concatenate to the buffer, each at the offset where the one before
  ended, each non-empty, within the bound and valid on its own.
\<close>

fun chunks_ok :: "nat \<Rightarrow> nat \<Rightarrow> (nat \<times> bytes) list \<Rightarrow> bool" where
  "chunks_ok mx offset [] = True"
| "chunks_ok mx offset ((o1, c) # cs) =
     (o1 = offset \<and> c \<noteq> [] \<and> length c \<le> mx \<and> utf8_valid c \<and> chunks_ok mx (offset + length c) cs)"

lemma flush_chunks_ok:
  assumes "utf8_valid bs" "4 \<le> mx"
  shows "\<exists>cs. flush_chunks mx offset bs = Some cs \<and> concat (map snd cs) = bs \<and> chunks_ok mx offset cs"
  using assms
proof (induction mx offset bs rule: flush_chunks.induct)
  case (1 mx offset bs)
  show ?case
  proof (cases "bs = []")
    case False
    obtain c r where s: "split_utf8_safe mx bs = Some (c, r)" "c @ r = bs" "c \<noteq> []" "length c \<le> mx"
        "utf8_valid c" "utf8_valid r"
      using split_utf8_safe_valid [OF "1.prems"(1) False "1.prems"(2)] by blast
    obtain cs where cs: "flush_chunks mx (offset + length c) r = Some cs" "concat (map snd cs) = r"
        "chunks_ok mx (offset + length c) cs"
      using "1.IH" [OF False s(1) refl] s "1.prems" by blast
    then have "flush_chunks mx offset bs = Some ((offset, c) # cs)"
      using s False by (simp add: flush_chunks.simps [of mx offset bs])
    then show ?thesis using s cs by auto
  qed (simp add: flush_chunks.simps)
qed

text \<open>
  Flushing pending output never panics and loses nothing: for every text and every chunk bound
  of at least four bytes, the loop ends with chunks that concatenate to the buffer, have consecutive
  offsets, are non-empty and within the bound, and are valid UTF-8 each, so no character is split.
\<close>

theorem flush_is_lossless_and_char_safe:
  assumes "utf8_valid bs" "4 \<le> mx"
  shows "\<exists>cs. flush_chunks mx offset bs = Some cs \<and> concat (map snd cs) = bs \<and> chunks_ok mx offset cs"
  using assms by (rule flush_chunks_ok)

text \<open>
  The bound of four bytes is needed: with a chunk bound below the length of a character the split
  finds no boundary and the flush loop's \<open>expect\<close> panics.
\<close>

lemma flush_panics_below_char_length:
  "utf8_valid [0xF0, 0x9F, 0x8E, 0xAF] \<and> flush_chunks 3 0 [0xF0, 0x9F, 0x8E, 0xAF] = None"
proof
  show "utf8_valid [0xF0, 0x9F, 0x8E, 0xAF]"
    by (simp add: utf8_valid.simps utf8_width_def second_ok_def is_cont_def)
  show "flush_chunks 3 0 [0xF0, 0x9F, 0x8E, 0xAF] = None"
    by (subst flush_chunks.simps) (simp add: split_utf8_safe_def is_char_boundary_def cont_mask is_cont_def)
qed

theorem flush_is_lossless_and_char_safe_witness:
  "\<exists>cs. flush_chunks 4 7 [0x61, 0xE4, 0xB8, 0xAD, 0x62] = Some cs \<and>
     concat (map snd cs) = [0x61, 0xE4, 0xB8, 0xAD, 0x62] \<and> chunks_ok 4 7 cs"
  by (rule flush_is_lossless_and_char_safe) (simp_all add: utf8_valid.simps utf8_width_def second_ok_def is_cont_def)

end
