(* ===== verification/Files.thy ===== *)
theory Files
  imports Utf8 Relay_State
begin

text \<open>
  File access of the bridge (\<open>apps/bridge/src/files\<close>): handles on files below an authorised root (\<open>grant.rs\<close>), the
  policy for previews, downloads and ranges (\<open>policy.rs\<close>) and the sink of an upload (\<open>upload.rs\<close>). A path
  is the list of its components below the file system's root. Other processes change the file system between
  any two calls, so every system call has a file system of its own: \<open>fss i\<close> is what the \<open>i\<close>-th call sees. Random
  tokens, the clocks and the library that guesses a type from the first bytes are arguments.
\<close>

section \<open>Errors\<close>

datatype not_previewable = TypeUnsupported | SizeLimit nat nat

datatype files_error =
    FeHandleInvalid string
  | FeOutsideScope
  | FeChanged
  | FeNotPreviewable not_previewable
  | FeTransferExpired
  | FeTooLarge
  | FeRangeInvalid
  | FeIo
  | FeTooManyTransfers
  | FeInternal string

fun files_stable_code :: "files_error \<Rightarrow> string" where
  "files_stable_code (FeHandleInvalid _) = ''FILE_HANDLE_INVALID''"
| "files_stable_code FeOutsideScope = ''FILE_OUTSIDE_SCOPE''"
| "files_stable_code FeChanged = ''FILE_CHANGED''"
| "files_stable_code (FeNotPreviewable _) = ''FILE_TYPE_NOT_PREVIEWABLE''"
| "files_stable_code FeTransferExpired = ''TRANSFER_EXPIRED''"
| "files_stable_code FeTooLarge = ''TRANSFER_TOO_LARGE''"
| "files_stable_code FeRangeInvalid = ''TRANSFER_RANGE_INVALID''"
| "files_stable_code FeTooManyTransfers = ''RATE_LIMITED''"
| "files_stable_code FeIo = ''INTERNAL_ERROR''"
| "files_stable_code (FeInternal _) = ''INTERNAL_ERROR''"

section \<open>Paths and the file system\<close>

type_synonym path = "string list"

record fmeta =
  fm_is_dir :: bool
  fm_is_file :: bool
  fm_dev :: nat
  fm_ino :: nat
  fm_len :: nat
  fm_mtime_ns :: int

record fs =
  fs_canonicalize :: "path \<Rightarrow> path option"
  fs_metadata :: "path \<Rightarrow> fmeta option"
  fs_open :: "path \<Rightarrow> (fmeta \<times> bytes) option"

fun split_on :: "char \<Rightarrow> string \<Rightarrow> string list" where
  "split_on c [] = [[]]"
| "split_on c (x # xs) = (if x = c then [] # split_on c xs else (case split_on c xs of [] \<Rightarrow> [[x]] | p # ps \<Rightarrow> (x # p) # ps))"

text \<open>\<open>Path::components\<close>: repeated separators and inner dots are skipped.\<close>

datatype pcomp = RootDir | CurDir | ParentDir | Normal string

definition path_components :: "string \<Rightarrow> pcomp list" where
  "path_components s =
    (if s \<noteq> [] \<and> hd s = CHR ''/'' then [RootDir] else if hd (split_on (CHR ''/'') s) = ''.'' then [CurDir] else []) @
    map (\<lambda>p. if p = ''..'' then ParentDir else Normal p) (filter (\<lambda>p. p \<noteq> [] \<and> p \<noteq> ''.'') (split_on (CHR ''/'') s))"

fun normal_parts :: "pcomp list \<Rightarrow> string list option" where
  "normal_parts [] = Some []"
| "normal_parts (Normal p # cs) = map_option ((#) p) (normal_parts cs)"
| "normal_parts (_ # cs) = None"

definition normalize_relative :: "string \<Rightarrow> files_error + string" where
  "normalize_relative rel =
    (if rel = [] \<or> hd rel = CHR ''/'' then Inl (FeHandleInvalid ''relative path required'')
     else (case normal_parts (path_components rel) of
       None \<Rightarrow> Inl (FeHandleInvalid ''path traversal rejected'')
     | Some [] \<Rightarrow> Inl (FeHandleInvalid ''relative path required'')
     | Some parts \<Rightarrow> Inr (join_with ''/'' parts)))"

text \<open>\<open>root.join(rel)\<close> for a normalised relative path, and \<open>Path::starts_with\<close>.\<close>

definition join_path :: "path \<Rightarrow> string \<Rightarrow> path" where
  "join_path root rel = root @ (case normal_parts (path_components rel) of Some ps \<Rightarrow> ps | None \<Rightarrow> [])"

definition path_starts_with :: "path \<Rightarrow> path \<Rightarrow> bool" where
  "path_starts_with p root \<longleftrightarrow> take (length root) p = root"

section \<open>Handles\<close>

definition DEFAULT_GRANT_TTL :: nat where "DEFAULT_GRANT_TTL = 600"
definition MAX_GRANT_TTL :: nat where "MAX_GRANT_TTL = 3600"
definition MAX_ACTIVE_TRANSFERS_PER_DEVICE :: nat where "MAX_ACTIVE_TRANSFERS_PER_DEVICE = 2"

datatype grant_action = GPreview | GDownload | GUpload

fun action_bit :: "grant_action \<Rightarrow> u8" where
  "action_bit GPreview = 1" | "action_bit GDownload = 2" | "action_bit GUpload = 4"

definition actions_all :: u8 where "actions_all = 7"

unbundle bit_operations_syntax

definition allows :: "u8 \<Rightarrow> grant_action \<Rightarrow> bool" where
  "allows acts a \<longleftrightarrow> acts AND action_bit a \<noteq> 0"

datatype grant_source = SessionUpload | SessionReference string | UserOpened

datatype grant_source_kind = KUpload | KSessionReference | KUserOpened

record file_handle =
  fh_token :: string
  fh_device_id :: string
  fh_session :: string
  fh_root :: path
  fh_relative_path :: string
  fh_actions :: u8
  fh_source_kind :: grant_source_kind
  fh_dev :: nat
  fh_ino :: nat
  fh_size :: nat
  fh_mtime_ns :: int
  fh_expires_at :: nat

record grant_entry =
  ge_handle :: file_handle
  ge_deadline :: nat

record grants =
  gm_grants :: "(string \<times> grant_entry) list"
  gm_transfers :: "(string \<times> nat) list"

record verified_file =
  vf_meta :: fmeta
  vf_content :: bytes
  vf_size :: nat
  vf_handle :: file_handle

definition grants_new :: grants where
  "grants_new = \<lparr>gm_grants = [], gm_transfers = []\<rparr>"

definition source_kind :: "grant_source \<Rightarrow> files_error + grant_source_kind" where
  "source_kind source = (case source of
     SessionUpload \<Rightarrow> Inr KUpload
   | SessionReference evidence \<Rightarrow> if str_trim evidence = [] then Inl (FeInternal ''session reference requires evidence'') else Inr KSessionReference
   | UserOpened \<Rightarrow> Inr KUserOpened)"

text \<open>The part of \<open>issue\<close> that looks at the file system: root, relative path, target and its metadata.\<close>

definition locate :: "(nat \<Rightarrow> fs) \<Rightarrow> path \<Rightarrow> string \<Rightarrow> files_error + path \<times> string \<times> path \<times> fmeta" where
  "locate fss root relative = (case fs_canonicalize (fss 0) root of
     None \<Rightarrow> Inl (FeHandleInvalid ''root missing'')
   | Some root_c \<Rightarrow>
       if \<not> (case fs_metadata (fss 1) root_c of Some md \<Rightarrow> fm_is_dir md | None \<Rightarrow> False) then Inl (FeHandleInvalid ''root not a directory'')
       else (case normalize_relative relative of
         Inl e \<Rightarrow> Inl e
       | Inr rel \<Rightarrow> (case fs_canonicalize (fss 2) (join_path root_c rel) of
           None \<Rightarrow> Inl (FeHandleInvalid ''target missing'')
         | Some target \<Rightarrow>
             if \<not> path_starts_with target root_c then Inl FeOutsideScope
             else (case fs_metadata (fss 3) target of
               None \<Rightarrow> Inl FeIo
             | Some md \<Rightarrow> if \<not> fm_is_file md then Inl (FeHandleInvalid ''target is not a regular file'') else Inr (root_c, rel, target, md)))))"

definition issue :: "(nat \<Rightarrow> fs) \<Rightarrow> string \<Rightarrow> string \<Rightarrow> path \<Rightarrow> string \<Rightarrow> u8 \<Rightarrow> grant_source \<Rightarrow> nat \<Rightarrow> string \<Rightarrow> nat \<Rightarrow> nat \<Rightarrow> grants \<Rightarrow> grants \<times> (files_error + file_handle)" where
  "issue fss device session root relative acts source ttl token wall now m =
    (if device = [] \<or> session = [] then (m, Inl (FeInternal ''device/session required''))
     else if acts = 0 then (m, Inl (FeInternal ''at least one action required''))
     else (case source_kind source of
       Inl e \<Rightarrow> (m, Inl e)
     | Inr kind \<Rightarrow> (case locate fss root relative of
         Inl e \<Rightarrow> (m, Inl e)
       | Inr (root_c, rel, target, md) \<Rightarrow>
           (let ttl1 = min ttl MAX_GRANT_TTL;
                h = \<lparr>fh_token = token, fh_device_id = device, fh_session = session, fh_root = root_c, fh_relative_path = rel,
                  fh_actions = acts, fh_source_kind = kind, fh_dev = fm_dev md, fh_ino = fm_ino md, fh_size = fm_len md,
                  fh_mtime_ns = fm_mtime_ns md, fh_expires_at = wall + ttl1\<rparr>
            in (m\<lparr>gm_grants := AList.update token \<lparr>ge_handle = h, ge_deadline = now + ttl1\<rparr> (gm_grants m)\<rparr>, Inr h)))))"

definition lookup_valid :: "string \<Rightarrow> string \<Rightarrow> string \<Rightarrow> grant_action \<Rightarrow> nat \<Rightarrow> grants \<Rightarrow> grants \<times> (files_error + file_handle)" where
  "lookup_valid device session token action now m = (case map_of (gm_grants m) token of
     None \<Rightarrow> (m, Inl (FeHandleInvalid ''unknown token''))
   | Some e \<Rightarrow>
       if ge_deadline e \<le> now then (m\<lparr>gm_grants := AList.delete token (gm_grants m)\<rparr>, Inl FeTransferExpired)
       else if fh_device_id (ge_handle e) \<noteq> device \<or> fh_session (ge_handle e) \<noteq> session then (m, Inl (FeHandleInvalid ''binding mismatch''))
       else if \<not> allows (fh_actions (ge_handle e)) action then (m, Inl (FeHandleInvalid ''action not allowed''))
       else (m, Inr (ge_handle e)))"

text \<open>Resolving again, opening, and comparing what was opened with what was granted.\<close>

definition open_granted :: "(nat \<Rightarrow> fs) \<Rightarrow> file_handle \<Rightarrow> files_error + verified_file" where
  "open_granted fss h = (case fs_canonicalize (fss 0) (fh_root h) of
     None \<Rightarrow> Inl (FeHandleInvalid ''root missing'')
   | Some root_c \<Rightarrow> (case fs_canonicalize (fss 1) (join_path root_c (fh_relative_path h)) of
       None \<Rightarrow> Inl (FeHandleInvalid ''target missing'')
     | Some target \<Rightarrow>
         if \<not> path_starts_with target root_c then Inl FeOutsideScope
         else (case fs_open (fss 2) target of
           None \<Rightarrow> Inl FeIo
         | Some (md, content) \<Rightarrow>
             if (fm_dev md, fm_ino md) \<noteq> (fh_dev h, fh_ino h) \<or> fm_len md \<noteq> fh_size h \<or> fm_mtime_ns md \<noteq> fh_mtime_ns h then Inl FeChanged
             else Inr \<lparr>vf_meta = md, vf_content = content, vf_size = fh_size h, vf_handle = h\<rparr>)))"

definition resolve_for_read :: "(nat \<Rightarrow> fs) \<Rightarrow> string \<Rightarrow> string \<Rightarrow> string \<Rightarrow> grant_action \<Rightarrow> nat \<Rightarrow> grants \<Rightarrow> grants \<times> (files_error + verified_file)" where
  "resolve_for_read fss device session token action now m = (case lookup_valid device session token action now m of
     (m1, Inl e) \<Rightarrow> (m1, Inl e)
   | (m1, Inr h) \<Rightarrow> (m1, open_granted fss h))"

definition revoke :: "string \<Rightarrow> grants \<Rightarrow> grants \<times> bool" where
  "revoke token m = (m\<lparr>gm_grants := AList.delete token (gm_grants m)\<rparr>, map_of (gm_grants m) token \<noteq> None)"

definition sweep_expired :: "nat \<Rightarrow> grants \<Rightarrow> grants \<times> nat" where
  "sweep_expired now m =
    (let kept = filter (\<lambda>(t, e). ge_deadline e > now) (gm_grants m)
     in (m\<lparr>gm_grants := kept\<rparr>, length (gm_grants m) - length kept))"

text \<open>The slots for transfers; \<open>None\<close> on release is an underflow of the counter.\<close>

definition acquire_transfer_slot :: "string \<Rightarrow> grants \<Rightarrow> grants \<times> (files_error + unit)" where
  "acquire_transfer_slot device m =
    (let count = (case map_of (gm_transfers m) device of Some n \<Rightarrow> n | None \<Rightarrow> 0);
         m1 = m\<lparr>gm_transfers := AList.update device count (gm_transfers m)\<rparr>
     in if count \<ge> MAX_ACTIVE_TRANSFERS_PER_DEVICE then (m1, Inl FeTooManyTransfers)
        else (m\<lparr>gm_transfers := AList.update device (count + 1) (gm_transfers m)\<rparr>, Inr ()))"

definition drop_transfer_slot :: "string \<Rightarrow> grants \<Rightarrow> grants option" where
  "drop_transfer_slot device m = (case map_of (gm_transfers m) device of
     None \<Rightarrow> Some m
   | Some 0 \<Rightarrow> None
   | Some (Suc n) \<Rightarrow> Some (m\<lparr>gm_transfers := (if n = 0 then AList.delete device (gm_transfers m) else AList.update device n (gm_transfers m))\<rparr>))"

section \<open>Policy\<close>

definition MAX_TEXT_PREVIEW_BYTES :: nat where "MAX_TEXT_PREVIEW_BYTES = 2 * 1024 * 1024"
definition MAX_IMAGE_PREVIEW_BYTES :: nat where "MAX_IMAGE_PREVIEW_BYTES = 25 * 1024 * 1024"
definition MAX_PDF_PREVIEW_BYTES :: nat where "MAX_PDF_PREVIEW_BYTES = 100 * 1024 * 1024"
definition MAX_DOWNLOAD_BYTES :: nat where "MAX_DOWNLOAD_BYTES = 512 * 1024 * 1024"
definition BRIDGE_MAX_UPLOAD_BYTES :: nat where "BRIDGE_MAX_UPLOAD_BYTES = 20 * 1024 * 1024"
definition SNIFF_PREFIX_BYTES :: nat where "SNIFF_PREFIX_BYTES = 8 * 1024"

datatype classification = InlineText | InlineImage string | InlinePdf | Attachment string

fun content_type :: "classification \<Rightarrow> string" where
  "content_type InlineText = ''text/plain; charset=utf-8''"
| "content_type (InlineImage m) = m"
| "content_type (Attachment m) = m"
| "content_type InlinePdf = ''application/pdf''"

fun is_inline :: "classification \<Rightarrow> bool" where
  "is_inline (Attachment _) = False"
| "is_inline _ = True"

fun preview_limit :: "classification \<Rightarrow> nat option" where
  "preview_limit InlineText = Some MAX_TEXT_PREVIEW_BYTES"
| "preview_limit (InlineImage _) = Some MAX_IMAGE_PREVIEW_BYTES"
| "preview_limit InlinePdf = Some MAX_PDF_PREVIEW_BYTES"
| "preview_limit (Attachment _) = None"

text \<open>\<open>infer\<close> is the type that the library recognises in the first bytes.\<close>

definition classify_bytes :: "(bytes \<Rightarrow> string option) \<Rightarrow> bytes \<Rightarrow> classification" where
  "classify_bytes infer header = (case infer header of
     Some mime \<Rightarrow>
       if starts_with ''text/'' mime \<or> mime = ''image/svg+xml'' then InlineText
       else if mime \<in> {''image/png'', ''image/jpeg'', ''image/webp'', ''image/gif''} then InlineImage mime
       else if mime = ''application/pdf'' then InlinePdf
       else Attachment mime
   | None \<Rightarrow> if utf8_valid header then InlineText else Attachment ''application/octet-stream'')"

definition check_preview :: "classification \<Rightarrow> nat \<Rightarrow> not_previewable + unit" where
  "check_preview c n = (case preview_limit c of
     None \<Rightarrow> Inl TypeUnsupported
   | Some limit \<Rightarrow> if n > limit then Inl (SizeLimit n limit) else Inr ())"

definition check_download :: "nat \<Rightarrow> files_error + unit" where
  "check_download n = (if n > MAX_DOWNLOAD_BYTES then Inl FeTooLarge else Inr ())"

text \<open>One range, as first and last byte.\<close>

definition range_len :: "nat \<times> nat \<Rightarrow> nat" where
  "range_len r = snd r - fst r + 1"

definition content_range_value :: "nat \<times> nat \<Rightarrow> nat \<Rightarrow> string" where
  "content_range_value r len = ''bytes '' @ show_nat (fst r) @ ''-'' @ show_nat (snd r) @ ''/'' @ show_nat len"

definition parse_single_range :: "string \<Rightarrow> nat \<Rightarrow> files_error + nat \<times> nat" where
  "parse_single_range header len = (case strip_prefix ''bytes='' (str_trim header) of
     None \<Rightarrow> Inl FeRangeInvalid
   | Some spec \<Rightarrow>
       if CHR '','' \<in> set spec then Inl FeRangeInvalid
       else (case split_once (CHR ''-'') (str_trim spec) of
         None \<Rightarrow> Inl FeRangeInvalid
       | Some (first, final) \<Rightarrow>
           if first = [] then (case parse_usize (str_trim final) of
             None \<Rightarrow> Inl FeRangeInvalid
           | Some n \<Rightarrow> if n = 0 \<or> len = 0 then Inl FeRangeInvalid else Inr (len - n, len - 1))
           else (case parse_usize (str_trim first) of
             None \<Rightarrow> Inl FeRangeInvalid
           | Some a \<Rightarrow>
               if a \<ge> len then Inl FeRangeInvalid
               else if final = [] then Inr (a, len - 1)
               else (case parse_usize (str_trim final) of
                 None \<Rightarrow> Inl FeRangeInvalid
               | Some e \<Rightarrow> if e < a then Inl FeRangeInvalid else Inr (a, min e (len - 1))))))"

datatype transfer_mode = ModePreview | ModeDownload

record file_slice =
  sl_content_type :: string
  sl_inline :: bool
  sl_body :: bytes
  sl_body_len :: nat
  sl_content_range :: "(nat \<times> nat) option"
  sl_total_len :: nat

text \<open>\<open>read_exact\<close> fails when the file is shorter than what it asks for; the body is read up to \<open>body_len\<close> bytes.\<close>

definition open_slice :: "(bytes \<Rightarrow> string option) \<Rightarrow> verified_file \<Rightarrow> transfer_mode \<Rightarrow> string option \<Rightarrow> files_error + file_slice" where
  "open_slice infer v mode header =
    (let len = vf_size v; want = min SNIFF_PREFIX_BYTES len
     in case check_download len of
       Inl e \<Rightarrow> Inl e
     | Inr _ \<Rightarrow>
         if length (vf_content v) < want then Inl FeIo
         else (let c = classify_bytes infer (take want (vf_content v))
           in case (if mode = ModePreview then check_preview c len else Inr ()) of
                Inl e \<Rightarrow> Inl (FeNotPreviewable e)
              | Inr _ \<Rightarrow> (case (case header of Some h \<Rightarrow> map_sum id Some (parse_single_range h len) | None \<Rightarrow> Inr None) of
                  Inl e \<Rightarrow> Inl e
                | Inr rng \<Rightarrow>
                    (let (offset, n) = (case rng of Some r \<Rightarrow> (fst r, range_len r) | None \<Rightarrow> (0, len))
                     in Inr \<lparr>sl_content_type = content_type c, sl_inline = is_inline c, sl_body = take n (drop offset (vf_content v)),
                          sl_body_len = n, sl_content_range = rng, sl_total_len = len\<rparr>))))"

section \<open>Uploads\<close>

text \<open>The sink of one upload with what has reached its file. A write may fail after some bytes.\<close>

record upload_sink =
  us_written :: bytes
  us_open :: bool
  us_prefix :: bytes
  us_size :: nat
  us_max_bytes :: nat
  us_finished :: bool

definition upload_create :: "nat \<Rightarrow> bool \<Rightarrow> files_error + upload_sink" where
  "upload_create max_bytes io_ok =
    (if max_bytes > BRIDGE_MAX_UPLOAD_BYTES then Inl (FeInternal ''upload limit above first-version cap'')
     else if \<not> io_ok then Inl FeIo
     else Inr \<lparr>us_written = [], us_open = True, us_prefix = [], us_size = 0, us_max_bytes = max_bytes, us_finished = False\<rparr>)"

definition write_chunk :: "bytes \<Rightarrow> nat option \<Rightarrow> upload_sink \<Rightarrow> upload_sink \<times> (files_error + unit)" where
  "write_chunk data fails_after u =
    (if us_finished u then (u, Inl (FeInternal ''upload sink already finished''))
     else if us_size u + length data > us_max_bytes u then (u, Inl FeTooLarge)
     else (let u1 = (if length (us_prefix u) < SNIFF_PREFIX_BYTES
             then u\<lparr>us_prefix := us_prefix u @ take (SNIFF_PREFIX_BYTES - length (us_prefix u)) data\<rparr> else u)
       in if \<not> us_open u1 then (u1, Inl (FeInternal ''sink closed''))
          else (case fails_after of
            Some n \<Rightarrow> (u1\<lparr>us_written := us_written u1 @ take n data\<rparr>, Inl FeIo)
          | None \<Rightarrow> (u1\<lparr>us_written := us_written u1 @ data, us_size := us_size u1 + length data\<rparr>, Inr ()))))"

definition upload_finish :: "(nat \<Rightarrow> fs) \<Rightarrow> path \<Rightarrow> string \<Rightarrow> string \<Rightarrow> nat \<Rightarrow> string \<Rightarrow> nat \<Rightarrow> nat \<Rightarrow> bool \<Rightarrow> upload_sink \<Rightarrow> grants \<Rightarrow> upload_sink \<times> grants \<times> (files_error + file_handle)" where
  "upload_finish fss dir device session ttl token wall now sync_ok u m =
    (if \<not> us_open u then (u, m, Inl (FeInternal ''sink closed''))
     else if \<not> sync_ok then (u\<lparr>us_open := False\<rparr>, m, Inl FeIo)
     else (case issue fss device session dir ''payload'' actions_all SessionUpload ttl token wall now m of
       (m1, res) \<Rightarrow> (u\<lparr>us_open := False, us_finished := True\<rparr>, m1, res)))"

text \<open>Whether dropping the sink removes its file: an upload that did not finish leaves nothing behind.\<close>

definition upload_drop_removes :: "upload_sink \<Rightarrow> bool" where
  "upload_drop_removes u \<longleftrightarrow> \<not> us_finished u"
section \<open>Handles at work\<close>

text \<open>
  Operations of the manager in any order, each system call on a file system of its own. \<open>gs_issued\<close> records what was found when
  a handle was issued: the resolved target, its metadata, the deadline and the time of issue; \<open>gs_slots\<close> the slots in use.
\<close>

record issued_grant =
  ig_handle :: file_handle
  ig_target :: path
  ig_meta :: fmeta
  ig_deadline :: nat
  ig_issued_at :: nat

record gstate =
  gs_grants :: grants
  gs_slots :: "string list"
  gs_issued :: "issued_grant list"

datatype grant_op =
    GIssue "nat \<Rightarrow> fs" string string path string u8 grant_source nat string nat nat
  | GResolve "nat \<Rightarrow> fs" string string string grant_action nat
  | GRevoke string
  | GSweep nat
  | GAcquire string
  | GDropSlot string

definition gstate_new :: gstate where
  "gstate_new = \<lparr>gs_grants = grants_new, gs_slots = [], gs_issued = []\<rparr>"

fun grant_step :: "gstate \<Rightarrow> grant_op \<Rightarrow> gstate" where
  "grant_step s (GIssue fss device session root relative acts source ttl token wall now) =
     (case (issue fss device session root relative acts source ttl token wall now (gs_grants s), locate fss root relative) of
        ((m, Inr h), Inr (root_c, rel, target, md)) \<Rightarrow> s\<lparr>gs_grants := m, gs_issued := gs_issued s @
          [\<lparr>ig_handle = h, ig_target = target, ig_meta = md, ig_deadline = now + min ttl MAX_GRANT_TTL, ig_issued_at = now\<rparr>]\<rparr>
      | _ \<Rightarrow> s)"
| "grant_step s (GResolve fss device session token action now) =
     s\<lparr>gs_grants := fst (resolve_for_read fss device session token action now (gs_grants s))\<rparr>"
| "grant_step s (GRevoke token) = s\<lparr>gs_grants := fst (revoke token (gs_grants s))\<rparr>"
| "grant_step s (GSweep now) = s\<lparr>gs_grants := fst (sweep_expired now (gs_grants s))\<rparr>"
| "grant_step s (GAcquire device) = (case acquire_transfer_slot device (gs_grants s) of
     (m, Inr _) \<Rightarrow> s\<lparr>gs_grants := m, gs_slots := device # gs_slots s\<rparr> | (m, Inl _) \<Rightarrow> s\<lparr>gs_grants := m\<rparr>)"
| "grant_step s (GDropSlot device) = (if device \<in> set (gs_slots s)
     then (case drop_transfer_slot device (gs_grants s) of
        Some m \<Rightarrow> s\<lparr>gs_grants := m, gs_slots := remove1 device (gs_slots s)\<rparr> | None \<Rightarrow> s)
     else s)"

definition same_file :: "fmeta \<Rightarrow> file_handle \<Rightarrow> bool" where
  "same_file md h \<longleftrightarrow> (fm_dev md, fm_ino md) = (fh_dev h, fh_ino h) \<and> fm_len md = fh_size h \<and> fm_mtime_ns md = fh_mtime_ns h"

definition issued_ok :: "issued_grant \<Rightarrow> bool" where
  "issued_ok x \<longleftrightarrow> path_starts_with (ig_target x) (fh_root (ig_handle x)) \<and> fm_is_file (ig_meta x) \<and> same_file (ig_meta x) (ig_handle x) \<and>
     ig_deadline x \<le> ig_issued_at x + MAX_GRANT_TTL \<and> fh_device_id (ig_handle x) \<noteq> [] \<and> fh_session (ig_handle x) \<noteq> []"

definition slot_count :: "string \<Rightarrow> grants \<Rightarrow> nat" where
  "slot_count device m = (case map_of (gm_transfers m) device of Some n \<Rightarrow> n | None \<Rightarrow> 0)"

definition grants_ok :: "grants \<Rightarrow> issued_grant list \<Rightarrow> bool" where
  "grants_ok m xs \<longleftrightarrow> distinct (map fst (gm_grants m)) \<and> (\<forall>t e. map_of (gm_grants m) t = Some e \<longrightarrow>
     fh_token (ge_handle e) = t \<and> (\<exists>x\<in>set xs. ig_handle x = ge_handle e \<and> ig_deadline x = ge_deadline e))"

definition slots_ok :: "grants \<Rightarrow> string list \<Rightarrow> bool" where
  "slots_ok m slots \<longleftrightarrow> (\<forall>device. slot_count device m = count_list slots device \<and> count_list slots device \<le> MAX_ACTIVE_TRANSFERS_PER_DEVICE)"

definition gstate_ok :: "gstate \<Rightarrow> bool" where
  "gstate_ok s \<longleftrightarrow> list_all issued_ok (gs_issued s) \<and> grants_ok (gs_grants s) (gs_issued s) \<and> slots_ok (gs_grants s) (gs_slots s)"

lemma issue_found:
  assumes "issue fss device session root relative acts source ttl token wall now m = (m1, Inr h)"
  obtains root_c rel target md where "locate fss root relative = Inr (root_c, rel, target, md)"
    "m1 = m\<lparr>gm_grants := AList.update token \<lparr>ge_handle = h, ge_deadline = now + min ttl MAX_GRANT_TTL\<rparr> (gm_grants m)\<rparr>"
    "fh_token h = token" "fh_root h = root_c" "same_file md h" "fh_device_id h \<noteq> []" "fh_session h \<noteq> []" "fh_actions h = acts"
  using assms that
  by (fastforce simp: issue_def same_file_def Let_def split: if_splits sum.splits prod.splits)

lemma locate_inside: "locate fss root relative = Inr (root_c, rel, target, md) \<Longrightarrow> path_starts_with target root_c \<and> fm_is_file md"
  by (auto simp: locate_def split: option.splits sum.splits if_splits)

lemma map_of_filter_sub: "map_of (filter P xs) k = Some v \<Longrightarrow> distinct (map fst xs) \<Longrightarrow> map_of xs k = Some v"
  by (meson distinct_map_filter map_of_SomeD map_of_eq_Some_iff mem_Collect_eq filter_is_subset subsetD)
lemma count_list_remove1_if: "count_list (remove1 x xs) y = (if y = x then count_list xs y - 1 else count_list xs y)"
  by (induction xs) auto

lemma lookup_grants:
  "gm_transfers (fst (lookup_valid device session token action now m)) = gm_transfers m \<and>
   (gm_grants (fst (lookup_valid device session token action now m)) = gm_grants m \<or>
    gm_grants (fst (lookup_valid device session token action now m)) = AList.delete token (gm_grants m))"
  by (auto simp: lookup_valid_def split: option.splits)

lemma resolve_grants: "fst (resolve_for_read fss device session token action now m) = fst (lookup_valid device session token action now m)"
  by (simp add: resolve_for_read_def split: prod.splits sum.splits)

lemma slots_ok_same: "gm_transfers m = gm_transfers m' \<Longrightarrow> slots_ok m slots = slots_ok m' slots"
  by (simp add: slots_ok_def slot_count_def)

lemma grants_ok_same: "gm_grants m = gm_grants m' \<Longrightarrow> grants_ok m xs = grants_ok m' xs"
  by (simp add: grants_ok_def)

lemma grants_ok_fewer:
  assumes "grants_ok m xs" "distinct (map fst (gm_grants m'))"
    "\<And>t e. map_of (gm_grants m') t = Some e \<Longrightarrow> map_of (gm_grants m) t = Some e"
  shows "grants_ok m' xs"
  using assms unfolding grants_ok_def by blast

lemma grants_ok_delete: "grants_ok m xs \<Longrightarrow> gm_grants m' = AList.delete token (gm_grants m) \<Longrightarrow> grants_ok m' xs"
  by (rule grants_ok_fewer) (auto simp: grants_ok_def distinct_delete delete_conv' split: if_splits)

lemma grants_ok_update:
  assumes "grants_ok m xs" "fh_token h = token" "ig_handle x = h" "ig_deadline x = d"
  shows "grants_ok (m\<lparr>gm_grants := AList.update token \<lparr>ge_handle = h, ge_deadline = d\<rparr> (gm_grants m)\<rparr>) (xs @ [x])"
  using assms unfolding grants_ok_def by (auto simp: update_conv' distinct_update)

lemma slot_count_update [simp]:
  "slot_count d (m\<lparr>gm_transfers := AList.update device k (gm_transfers m)\<rparr>) = (if d = device then k else slot_count d m)"
  "slot_count d (m\<lparr>gm_transfers := AList.delete device (gm_transfers m)\<rparr>) = (if d = device then 0 else slot_count d m)"
  by (simp_all add: slot_count_def update_conv' delete_conv')

lemma acquire_slots:
  assumes "slots_ok m slots" "acquire_transfer_slot device m = (m1, res)"
  shows "gm_grants m1 = gm_grants m \<and> slots_ok m1 (case res of Inr _ \<Rightarrow> device # slots | Inl _ \<Rightarrow> slots)"
  using assms by (auto simp: acquire_transfer_slot_def slots_ok_def Let_def simp flip: slot_count_def split: if_splits)

lemma drop_slots:
  assumes "slots_ok m slots" "device \<in> set slots"
  obtains m1 where "drop_transfer_slot device m = Some m1" "gm_grants m1 = gm_grants m" "slots_ok m1 (remove1 device slots)"
proof -
  have c: "slot_count d m = count_list slots d" "count_list slots d \<le> MAX_ACTIVE_TRANSFERS_PER_DEVICE" for d using assms(1) by (auto simp: slots_ok_def)
  have pos: "count_list slots device \<noteq> 0" using assms(2) by (simp add: count_list_0_iff)
  then obtain n where n: "map_of (gm_transfers m) device = Some (Suc n)" "count_list slots device = Suc n"
    using c(1) [of device] by (cases "map_of (gm_transfers m) device") (auto simp: slot_count_def gr0_conv_Suc)
  define m1 where "m1 = m\<lparr>gm_transfers := (if n = 0 then AList.delete device (gm_transfers m) else AList.update device n (gm_transfers m))\<rparr>"
  have "slots_ok m1 (remove1 device slots)"
    unfolding slots_ok_def
  proof
    fix d
    have "count_list (remove1 device slots) d = (if d = device then n else count_list slots d)"
      using n(2) by (simp add: count_list_remove1_if)
    then show "slot_count d m1 = count_list (remove1 device slots) d \<and> count_list (remove1 device slots) d \<le> MAX_ACTIVE_TRANSFERS_PER_DEVICE"
      using c [of d] n(2) by (auto simp: m1_def)
  qed
  then show ?thesis using that [of m1] n(1) by (simp add: drop_transfer_slot_def m1_def)
qed

lemma grant_step_ok:
  assumes ok: "gstate_ok s"
  shows "gstate_ok (grant_step s x)"
proof -
  have g: "list_all issued_ok (gs_issued s)" "grants_ok (gs_grants s) (gs_issued s)" "slots_ok (gs_grants s) (gs_slots s)"
    using ok by (simp_all add: gstate_ok_def)
  show ?thesis
  proof (cases x)
    case (GIssue fss device session root relative acts source ttl token wall now)
    show ?thesis
    proof (cases "snd (issue fss device session root relative acts source ttl token wall now (gs_grants s))")
      case (Inr h)
      then obtain m1 where i: "issue fss device session root relative acts source ttl token wall now (gs_grants s) = (m1, Inr h)" by (metis prod.collapse)
      obtain root_c rel target md where f: "locate fss root relative = Inr (root_c, rel, target, md)"
        "m1 = (gs_grants s)\<lparr>gm_grants := AList.update token \<lparr>ge_handle = h, ge_deadline = now + min ttl MAX_GRANT_TTL\<rparr> (gm_grants (gs_grants s))\<rparr>"
        "fh_token h = token" "fh_root h = root_c" "same_file md h" "fh_device_id h \<noteq> []" "fh_session h \<noteq> []" by (rule issue_found [OF i])
      let ?x = "\<lparr>ig_handle = h, ig_target = target, ig_meta = md, ig_deadline = now + min ttl MAX_GRANT_TTL, ig_issued_at = now\<rparr>"
      have "issued_ok ?x" using f locate_inside [OF f(1)] by (simp add: issued_ok_def)
      moreover have "grants_ok m1 (gs_issued s @ [?x])" unfolding f(2) by (rule grants_ok_update [OF g(2) f(3)]) simp_all
      moreover have "slots_ok m1 (gs_slots s)" using g(3) f(2) slots_ok_same [of m1 "gs_grants s"] by simp
      ultimately show ?thesis using g(1) GIssue i f(1) by (simp add: gstate_ok_def)
    qed (use ok GIssue in \<open>auto split: prod.splits sum.splits\<close>)
  next
    case (GResolve fss device session token action now)
    let ?m = "fst (lookup_valid device session token action now (gs_grants s))"
    have "grants_ok ?m (gs_issued s)" "slots_ok ?m (gs_slots s)"
      using g lookup_grants [of device session token action now "gs_grants s"] grants_ok_delete [of "gs_grants s" _ ?m token]
        grants_ok_same [of ?m "gs_grants s"] slots_ok_same [of ?m "gs_grants s"] by auto
    then show ?thesis using g(1) GResolve by (simp add: gstate_ok_def resolve_grants)
  next
    case (GRevoke token)
    then show ?thesis using g grants_ok_delete [OF g(2)] slots_ok_same [of "fst (revoke token (gs_grants s))" "gs_grants s"]
      by (simp add: gstate_ok_def revoke_def)
  next
    case (GSweep now)
    let ?m = "fst (sweep_expired now (gs_grants s))"
    have d: "distinct (map fst (gm_grants (gs_grants s)))" using g(2) by (simp add: grants_ok_def)
    have m: "gm_grants ?m = filter (\<lambda>(t, e). ge_deadline e > now) (gm_grants (gs_grants s))" "gm_transfers ?m = gm_transfers (gs_grants s)"
      by (simp_all add: sweep_expired_def Let_def)
    have "grants_ok ?m (gs_issued s)"
      by (rule grants_ok_fewer [OF g(2)]) (use d m(1) map_of_filter_sub [OF _ d] in \<open>auto simp: distinct_map_filter\<close>)
    then show ?thesis using g slots_ok_same [OF m(2)] GSweep by (simp add: gstate_ok_def)
  next
    case (GAcquire device)
    obtain m1 res where a: "acquire_transfer_slot device (gs_grants s) = (m1, res)" by fastforce
    show ?thesis using acquire_slots [OF g(3) a] g grants_ok_same [of m1 "gs_grants s"] a GAcquire
      by (cases res) (simp_all add: gstate_ok_def)
  next
    case (GDropSlot device)
    show ?thesis
    proof (cases "device \<in> set (gs_slots s)")
      case True
      obtain m1 where "drop_transfer_slot device (gs_grants s) = Some m1" "gm_grants m1 = gm_grants (gs_grants s)" "slots_ok m1 (remove1 device (gs_slots s))"
        by (rule drop_slots [OF g(3) True])
      then show ?thesis using True GDropSlot g grants_ok_same [of m1 "gs_grants s"] by (simp add: gstate_ok_def)
    qed (use ok GDropSlot in simp)
  qed
qed

interpretation grant_m: op_machine_init grant_step gstate_ok gstate_new
  by unfold_locales (rule grant_step_ok, assumption, simp add: gstate_ok_def gstate_new_def grants_new_def slot_count_def grants_ok_def slots_ok_def)

lemma revoked_handle_is_unknown:
  "snd (resolve_for_read fss device session token action now (fst (revoke token m))) = Inl (FeHandleInvalid ''unknown token'')"
  by (simp add: resolve_for_read_def lookup_valid_def revoke_def delete_conv')

section \<open>Ranges and slices\<close>

lemma parsed_range_in_file: "parse_single_range header len = Inr (a, b) \<Longrightarrow> a \<le> b \<and> b < len"
  by (auto simp: parse_single_range_def split: option.splits if_splits prod.splits)

text \<open>What is served is never an active document.\<close>

lemma classify_passive:
  "content_type (classify_bytes infer hd') = ''text/plain; charset=utf-8'' \<or>
   \<not> starts_with ''text/'' (content_type (classify_bytes infer hd')) \<and> content_type (classify_bytes infer hd') \<noteq> ''image/svg+xml''"
  by (auto simp: classify_bytes_def starts_with_def split: option.splits)

text \<open>
  C39. What is served of a verified file: at most 512 MiB; in a preview only text up to 2 MiB, PNG, JPEG, WebP or GIF images up to 25
  MiB and PDF up to 100 MiB; text of any kind, HTML and SVG included, only as plain text; and
  exactly the bytes asked for: the whole file, or the one range of the header, which lies
  in the file and is never widened to the whole file.
\<close>

theorem slice_is_bounded_and_exact:
  assumes "open_slice infer v mode header = Inr sl" "length (vf_content v) = vf_size v"
  shows "sl_total_len sl = vf_size v \<and> vf_size v \<le> 512 * 1024 * 1024 \<and>
    (mode = ModePreview \<longrightarrow> sl_inline sl \<and> (\<exists>limit. preview_limit (classify_bytes infer (take (min SNIFF_PREFIX_BYTES (vf_size v)) (vf_content v))) = Some limit \<and> vf_size v \<le> limit)) \<and>
    (sl_content_type sl = ''text/plain; charset=utf-8'' \<or> \<not> starts_with ''text/'' (sl_content_type sl) \<and> sl_content_type sl \<noteq> ''image/svg+xml'') \<and>
    length (sl_body sl) = sl_body_len sl \<and>
    (case header of
       None \<Rightarrow> sl_content_range sl = None \<and> sl_body sl = vf_content v
     | Some h \<Rightarrow> (\<exists>a b. parse_single_range h (vf_size v) = Inr (a, b) \<and> sl_content_range sl = Some (a, b) \<and> a \<le> b \<and> b < vf_size v \<and>
         sl_body sl = take (b - a + 1) (drop a (vf_content v))))"
proof -
  let ?c = "classify_bytes infer (take (min SNIFF_PREFIX_BYTES (vf_size v)) (vf_content v))"
  have dl: "vf_size v \<le> MAX_DOWNLOAD_BYTES" using assms(1) by (auto simp: open_slice_def Let_def check_download_def split: if_splits)
  have pv: "mode = ModePreview \<longrightarrow> check_preview ?c (vf_size v) = Inr ()"
    using assms(1) dl by (auto simp: open_slice_def Let_def check_download_def split: if_splits sum.splits)
  have inl: "check_preview c n = Inr () \<Longrightarrow> is_inline c \<and> (\<exists>limit. preview_limit c = Some limit \<and> n \<le> limit)" for c n
    by (cases c) (auto simp: check_preview_def split: if_splits)
  obtain rng where rng: "(case header of Some h \<Rightarrow> map_sum id Some (parse_single_range h (vf_size v)) | None \<Rightarrow> Inr None) = Inr rng"
    "sl = \<lparr>sl_content_type = content_type ?c, sl_inline = is_inline ?c,
       sl_body = take (case rng of Some r \<Rightarrow> range_len r | None \<Rightarrow> vf_size v) (drop (case rng of Some r \<Rightarrow> fst r | None \<Rightarrow> 0) (vf_content v)),
       sl_body_len = (case rng of Some r \<Rightarrow> range_len r | None \<Rightarrow> vf_size v), sl_content_range = rng, sl_total_len = vf_size v\<rparr>"
    using assms(1) by (auto simp: open_slice_def Let_def split: if_splits sum.splits option.splits prod.splits)
  have "case header of
       None \<Rightarrow> rng = None
     | Some h \<Rightarrow> (\<exists>a b. parse_single_range h (vf_size v) = Inr (a, b) \<and> rng = Some (a, b) \<and> a \<le> b \<and> b < vf_size v)"
  proof (cases header)
    case (Some h)
    then show ?thesis using rng(1) parsed_range_in_file by (cases "parse_single_range h (vf_size v)") auto
  qed (use rng(1) in simp)
  then show ?thesis using dl pv inl [of ?c "vf_size v"] classify_passive [of infer] rng(2) assms(2)
    by (auto simp: MAX_DOWNLOAD_BYTES_def range_len_def split: option.splits)
qed
section \<open>Normalised paths\<close>

lemma split_on_no: "p \<in> set (split_on c s) \<Longrightarrow> c \<notin> set p"
  by (induction c s arbitrary: p rule: split_on.induct) (auto split: if_splits list.splits)

lemma split_on_nonempty: "split_on c s \<noteq> []"
  by (induction c s rule: split_on.induct) (auto split: list.splits)

lemma split_on_one: "c \<notin> set p \<Longrightarrow> split_on c p = [p]"
  by (induction p) auto

lemma split_on_append: "c \<notin> set p \<Longrightarrow> split_on c (p @ c # s) = p # split_on c s"
  by (induction p) auto

lemma split_on_join: "ps \<noteq> [] \<Longrightarrow> list_all (\<lambda>p. c \<notin> set p) ps \<Longrightarrow> split_on c (join_with [c] ps) = ps"
  by (induction "[c]" ps rule: join_with.induct) (simp_all add: split_on_one split_on_append)

lemma normal_parts_some: "normal_parts cs = Some ps \<longleftrightarrow> cs = map Normal ps"
  by (induction cs arbitrary: ps rule: normal_parts.induct) auto

lemma normal_parts_map [simp]: "normal_parts (map Normal ps) = Some ps"
  by (simp add: normal_parts_some)

text \<open>A normalised path is its own components below the root: none empty, a dot, two dots or with a separator.\<close>

lemma normalised_path:
  assumes "normalize_relative rel = Inr p"
  obtains parts where "parts \<noteq> []" "list_all (\<lambda>x. x \<noteq> [] \<and> x \<noteq> ''.'' \<and> x \<noteq> ''..'' \<and> CHR ''/'' \<notin> set x) parts"
    "p = join_with ''/'' parts" "join_path root p = root @ parts"
proof -
  obtain parts where np: "normal_parts (path_components rel) = Some parts" "parts \<noteq> []" "p = join_with ''/'' parts"
    using assms by (cases "normal_parts (path_components rel)") (auto simp: normalize_relative_def split: if_splits list.splits)
  then have parts: "path_components rel = map Normal parts" "parts \<noteq> []" "p = join_with ''/'' parts" by (simp_all add: normal_parts_some)
  have good: "x \<noteq> [] \<and> x \<noteq> ''.'' \<and> x \<noteq> ''..'' \<and> CHR ''/'' \<notin> set x" if "x \<in> set parts" for x
  proof -
    have "Normal x \<in> set (path_components rel)" using that parts(1) by simp
    then have "x \<in> set (split_on (CHR ''/'') rel) \<and> x \<noteq> [] \<and> x \<noteq> ''.'' \<and> x \<noteq> ''..''"
      by (auto simp: path_components_def split: if_splits)
    then show ?thesis using split_on_no by blast
  qed
  have split: "split_on (CHR ''/'') p = parts" using split_on_join [OF parts(2), of "CHR ''/''"] good parts(3) by (simp add: list_all_iff)
  have first: "hd parts \<noteq> []" "hd parts \<noteq> ''.''" "CHR ''/'' \<notin> set (hd parts)" using good [of "hd parts"] parts(2) by simp_all
  have "hd p = hd (hd parts)" "p \<noteq> []" using first(1) parts(2,3) by (cases parts rule: list.exhaust; cases "tl parts"; simp)+
  then have "hd p \<noteq> CHR ''/''" using first(1,3) by (metis list.set_sel(1))
  then have "path_components p = map Normal parts"
    using split first(2) good by (simp add: path_components_def filter_id_conv)
  then have "join_path root p = root @ parts" by (simp add: join_path_def)
  moreover have "list_all (\<lambda>x. x \<noteq> [] \<and> x \<noteq> ''.'' \<and> x \<noteq> ''..'' \<and> CHR ''/'' \<notin> set x) parts" using good by (simp add: list_all_iff)
  ultimately show ?thesis using that parts by blast
qed

section \<open>Uploads\<close>

definition sink_ok :: "upload_sink \<Rightarrow> bool" where
  "sink_ok u \<longleftrightarrow> us_size u = length (us_written u) \<and> us_size u \<le> us_max_bytes u \<and> us_max_bytes u \<le> BRIDGE_MAX_UPLOAD_BYTES \<and>
     us_prefix u = take SNIFF_PREFIX_BYTES (us_written u)"

lemma upload_create_ok: "upload_create max_bytes ok = Inr u \<Longrightarrow> sink_ok u"
  by (auto simp: upload_create_def sink_ok_def split: if_splits)

text \<open>A chunk is taken whole or refused; a refused one changes nothing unless the disk failed.\<close>

lemma write_chunk_ok:
  assumes "sink_ok u" "write_chunk data None u = (u1, res)" "us_open u"
  shows "sink_ok u1 \<and> (case res of Inr _ \<Rightarrow> us_written u1 = us_written u @ data | Inl e \<Rightarrow> u1 = u)"
proof -
  have "take SNIFF_PREFIX_BYTES (us_written u @ data) = (if length (us_prefix u) < SNIFF_PREFIX_BYTES
      then us_prefix u @ take (SNIFF_PREFIX_BYTES - length (us_prefix u)) data else us_prefix u)"
    using assms(1) by (auto simp: sink_ok_def)
  then show ?thesis using assms by (auto simp: write_chunk_def sink_ok_def Let_def split: if_splits)
qed

section \<open>Examples\<close>

definition ex_meta :: fmeta where
  "ex_meta = \<lparr>fm_is_dir = False, fm_is_file = True, fm_dev = 1, fm_ino = 7, fm_len = 3, fm_mtime_ns = 9\<rparr>"

definition ex_fs :: fs where
  "ex_fs = \<lparr>fs_canonicalize = Some, fs_metadata = (\<lambda>p. Some (if p = [''r''] then ex_meta\<lparr>fm_is_dir := True, fm_is_file := False\<rparr> else ex_meta)),
     fs_open = (\<lambda>p. Some (ex_meta, [1, 2, 3]))\<rparr>"

definition ex_grant_ops :: "grant_op list" where
  "ex_grant_ops = [GIssue (\<lambda>_. ex_fs) ''d'' ''s'' [''r''] ''a/b'' actions_all UserOpened 60 ''t'' 0 0, GAcquire ''d'']"

lemma ex_resolves:
  "\<exists>m v. resolve_for_read (\<lambda>_. ex_fs) ''d'' ''s'' ''t'' GPreview 5 (gs_grants (foldl grant_step gstate_new ex_grant_ops)) = (m, Inr v)"
  by (simp add: ex_grant_ops_def gstate_new_def grants_new_def issue_def source_kind_def locate_def ex_fs_def ex_meta_def
    normalize_relative_def path_components_def join_path_def path_starts_with_def MAX_GRANT_TTL_def acquire_transfer_slot_def
    MAX_ACTIVE_TRANSFERS_PER_DEVICE_def resolve_for_read_def lookup_valid_def allows_def actions_all_def open_granted_def Let_def)


definition ex_verified :: verified_file where
  "ex_verified = \<lparr>vf_meta = ex_meta, vf_content = [65, 66, 67], vf_size = 3, vf_handle = \<lparr>fh_token = ''t'', fh_device_id = ''d'', fh_session = ''s'',
     fh_root = [''r''], fh_relative_path = ''a/b'', fh_actions = actions_all, fh_source_kind = KUserOpened, fh_dev = 1, fh_ino = 7, fh_size = 3,
     fh_mtime_ns = 9, fh_expires_at = 60\<rparr>\<rparr>"

lemma ex_slice: "\<exists>sl. open_slice (\<lambda>_. Some ''text/html'') ex_verified ModePreview None = Inr sl"
  by (simp add: open_slice_def ex_verified_def check_download_def MAX_DOWNLOAD_BYTES_def SNIFF_PREFIX_BYTES_def classify_bytes_def
    starts_with_def check_preview_def MAX_TEXT_PREVIEW_BYTES_def Let_def)

theorem slice_is_bounded_and_exact_witness:
  "\<exists>sl. open_slice (\<lambda>_. Some ''text/html'') ex_verified ModePreview None = Inr sl \<and> sl_body sl = [65, 66, 67] \<and> sl_inline sl"
proof -
  obtain sl where sl: "open_slice (\<lambda>_. Some ''text/html'') ex_verified ModePreview None = Inr sl" using ex_slice by blast
  have "length (vf_content ex_verified) = vf_size ex_verified" by (simp add: ex_verified_def)
  from slice_is_bounded_and_exact [OF sl this] sl show ?thesis by (auto simp: ex_verified_def)
qed

end
