(* ===== verification/Json.thy ===== *)
theory Json
  imports Utf8
begin

text \<open>
  JSON values as the bridge handles them (\<open>serde_json::Value\<close> without the feature that keeps the order of keys:
  an object is a \<open>BTreeMap\<close>), and the patches of the desktop application that are applied to them
  (\<open>apps/bridge/src/adapter/codex/projection.rs\<close>). A mutable reference into a value is the step from its
  parent that leads there.
\<close>

section \<open>Values\<close>

text \<open>A number is an unsigned integer, a negative integer or a double, kept as its bits.\<close>

datatype jnum = JPos u64 | JNeg int | JFloat u64

datatype json = JNull | JBool bool | JNum jnum | JStr string | JArr "json list" | JObj "(string \<times> json) list"

fun as_str :: "json \<Rightarrow> string option" where
  "as_str (JStr s) = Some s" | "as_str _ = None"

fun as_bool :: "json \<Rightarrow> bool option" where
  "as_bool (JBool b) = Some b" | "as_bool _ = None"

fun as_u64 :: "json \<Rightarrow> u64 option" where
  "as_u64 (JNum (JPos u)) = Some u" | "as_u64 _ = None"

fun as_i64 :: "json \<Rightarrow> int option" where
  "as_i64 (JNum (JPos u)) = (if uint u < 2 ^ 63 then Some (uint u) else None)"
| "as_i64 (JNum (JNeg i)) = Some i"
| "as_i64 _ = None"

fun as_array :: "json \<Rightarrow> json list option" where
  "as_array (JArr xs) = Some xs" | "as_array _ = None"

fun as_object :: "json \<Rightarrow> (string \<times> json) list option" where
  "as_object (JObj m) = Some m" | "as_object _ = None"

text \<open>\<open>Value::get\<close> with a key, and the chains of \<open>get\<close>, \<open>or_else\<close> and \<open>and_then\<close> the code builds from it.\<close>

definition jget :: "string \<Rightarrow> json \<Rightarrow> json option" where
  "jget k v = Option.bind (as_object v) (\<lambda>m. map_of m k)"

definition or_else :: "'a option \<Rightarrow> 'a option \<Rightarrow> 'a option" where
  "or_else a b = (case a of None \<Rightarrow> b | Some x \<Rightarrow> Some x)"

definition get_str :: "string \<Rightarrow> json \<Rightarrow> string option" where
  "get_str k v = Option.bind (jget k v) as_str"

definition get_list :: "string \<Rightarrow> json \<Rightarrow> json list option" where
  "get_list k v = Option.bind (jget k v) as_array"

definition unwrap_or :: "'a \<Rightarrow> 'a option \<Rightarrow> 'a" where
  "unwrap_or d x = (case x of None \<Rightarrow> d | Some y \<Rightarrow> y)"

lemma unwrap_or_simps [simp]: "unwrap_or d None = d" "unwrap_or d (Some x) = x"
  by (simp_all add: unwrap_or_def)

lemma or_else_simps [simp]: "or_else None b = b" "or_else (Some x) b = Some x"
  by (simp_all add: or_else_def)

lemma jget_simps [simp]: "jget k (JObj m) = map_of m k" "jget k JNull = None" "jget k (JBool b) = None"
    "jget k (JNum n) = None" "jget k (JStr s) = None" "jget k (JArr xs) = None"
  by (simp_all add: jget_def)

section \<open>Well-formed values\<close>

text \<open>What the Rust types promise: every string is UTF-8 and the keys of an object are in order.\<close>

definition str_bytes :: "string \<Rightarrow> bytes" where
  "str_bytes s = map (\<lambda>c. word_of_nat (of_char c)) s"

definition str_ok :: "string \<Rightarrow> bool" where
  "str_ok s \<longleftrightarrow> utf8_valid (str_bytes s)"

lemma json_child_size:
  "x \<in> set xs \<Longrightarrow> size x < Suc (size_list size xs)"
  "(k, x) \<in> set m \<Longrightarrow> size x < Suc (size_list (size_prod (\<lambda>s. 0) size) m)"
  by (induction xs, auto) (induction m, auto)

fun json_ok :: "json \<Rightarrow> bool" where
  "json_ok (JStr s) = str_ok s"
| "json_ok (JArr xs) = list_all json_ok xs"
| "json_ok (JObj m) = (bt_ok m \<and> list_all (\<lambda>kv. str_ok (fst kv) \<and> json_ok (snd kv)) m)"
| "json_ok (JNum (JNeg i)) = (- (2 ^ 63) \<le> i \<and> i < 0)"
| "json_ok v = True"

lemma json_ok_get: "json_ok v \<Longrightarrow> jget k v = Some x \<Longrightarrow> json_ok x"
  by (cases v) (auto simp: list_all_iff dest!: map_of_SomeD)

lemma json_ok_str: "json_ok v \<Longrightarrow> get_str k v = Some s \<Longrightarrow> str_ok s"
  using json_ok_get [of v k] by (cases "jget k v"; cases "the (jget k v)") (auto simp: get_str_def)

lemma json_ok_elem: "json_ok v \<Longrightarrow> as_array v = Some xs \<Longrightarrow> x \<in> set xs \<Longrightarrow> json_ok x"
  by (cases v) (auto simp: list_all_iff)

section \<open>Patches\<close>

datatype patch_error = NotAnObject | UnsupportedOp string | InvalidPath nat

datatype jstep = Key string | Idx nat

fun child :: "jstep \<Rightarrow> json \<Rightarrow> json option" where
  "child (Key k) (JObj m) = map_of m k"
| "child (Idx i) (JArr xs) = (if i < length xs then Some (xs ! i) else None)"
| "child _ _ = None"

text \<open>Assignment through the reference that a step denotes.\<close>

fun set_child :: "jstep \<Rightarrow> json \<Rightarrow> json \<Rightarrow> json" where
  "set_child (Key k) x (JObj m) = JObj (bt_insert k x m)"
| "set_child (Idx i) x (JArr xs) = JArr (xs[i := x])"
| "set_child _ x v = v"

definition present :: "jstep \<Rightarrow> json \<Rightarrow> (jstep \<times> json) option" where
  "present st node = map_option (Pair st) (child st node)"

definition descend_mut :: "json \<Rightarrow> json \<Rightarrow> (jstep \<times> json) option" where
  "descend_mut node segment = (case as_str segment of
     Some key \<Rightarrow>
       if as_object node \<noteq> None then present (Key key) node
       else (case parse_usize key of Some i \<Rightarrow> present (Idx i) node | None \<Rightarrow> None)
   | None \<Rightarrow> (case as_u64 segment of Some u \<Rightarrow> present (Idx (unat u)) node | None \<Rightarrow> None))"

text \<open>The walk to the parent of the last segment, with what is done there.\<close>

fun at_parent :: "(json \<Rightarrow> json \<Rightarrow> patch_error + json) \<Rightarrow> nat \<Rightarrow> json list \<Rightarrow> json \<Rightarrow> patch_error + json" where
  "at_parent act i [] node = Inl (InvalidPath 0)"
| "at_parent act i [lst] node = act lst node"
| "at_parent act i (seg # segs) node = (case descend_mut node seg of
     None \<Rightarrow> Inl (InvalidPath i)
   | Some (st, sub) \<Rightarrow> map_sum id (\<lambda>x. set_child st x node) (at_parent act (Suc i) segs sub))"

definition insert_nth :: "nat \<Rightarrow> 'a \<Rightarrow> 'a list \<Rightarrow> 'a list" where
  "insert_nth i x xs = take i xs @ x # drop i xs"

definition patch_put :: "nat \<Rightarrow> json \<Rightarrow> json \<Rightarrow> json \<Rightarrow> patch_error + json" where
  "patch_put depth x lst node = (case descend_mut node lst of
     Some (st, _) \<Rightarrow> Inr (set_child st x node)
   | None \<Rightarrow> (case (node, as_str lst) of
       (JObj m, Some key) \<Rightarrow> Inr (JObj (bt_insert key x m))
     | (JArr xs, s) \<Rightarrow> (case or_else (map_option unat (as_u64 lst)) (Option.bind s parse_usize) of
         Some i \<Rightarrow> Inr (JArr (insert_nth (min i (length xs)) x xs))
       | None \<Rightarrow> Inl (InvalidPath depth))
     | _ \<Rightarrow> Inl (InvalidPath depth)))"

definition patch_remove :: "json \<Rightarrow> json \<Rightarrow> patch_error + json" where
  "patch_remove lst node = Inr (case (node, as_str lst) of
     (JObj m, Some key) \<Rightarrow> JObj (AList.delete key m)
   | (JArr xs, _) \<Rightarrow> (case as_u64 lst of
       Some u \<Rightarrow> if unat u < length xs then JArr (remove_nth (unat u) xs) else node
     | None \<Rightarrow> node)
   | _ \<Rightarrow> node)"

definition apply_one :: "json \<Rightarrow> json \<Rightarrow> patch_error + json" where
  "apply_one state patch = (case as_object patch of
     None \<Rightarrow> Inl NotAnObject
   | Some obj \<Rightarrow> (case get_str ''op'' patch of
       None \<Rightarrow> Inl (UnsupportedOp ''<missing>'')
     | Some op \<Rightarrow> (case get_list ''path'' patch of
         None \<Rightarrow> Inl (InvalidPath 0)
       | Some path \<Rightarrow>
           if path = [] then Inl (InvalidPath 0)
           else at_parent (\<lambda>lst node.
             if op = ''add'' \<or> op = ''replace''
             then patch_put (length path - 1) (unwrap_or JNull (jget ''value'' patch)) lst node
             else if op = ''remove'' then patch_remove lst node
             else Inl (UnsupportedOp op)) 0 path state)))"

text \<open>The state is changed in place: what was applied before an error stays applied.\<close>

fun apply_immer_patches :: "json \<Rightarrow> json list \<Rightarrow> json \<times> patch_error option" where
  "apply_immer_patches state [] = (state, None)"
| "apply_immer_patches state (patch # patches) = (case apply_one state patch of
     Inl e \<Rightarrow> (state, Some e)
   | Inr state' \<Rightarrow> apply_immer_patches state' patches)"

section \<open>What a patch does\<close>

text \<open>The value at the end of a path of steps, and the steps a segment of a patch's path can name.\<close>

fun node_at :: "json \<Rightarrow> jstep list \<Rightarrow> json option" where
  "node_at v [] = Some v"
| "node_at v (st # q) = (case child st v of None \<Rightarrow> None | Some x \<Rightarrow> node_at x q)"

definition seg_index :: "json \<Rightarrow> nat option" where
  "seg_index seg = or_else (map_option unat (as_u64 seg)) (Option.bind (as_str seg) parse_usize)"

fun addresses :: "json \<Rightarrow> jstep \<Rightarrow> bool" where
  "addresses seg (Key k) = (as_str seg = Some k)"
| "addresses seg (Idx i) = (seg_index seg = Some i)"

lemma node_at_append: "node_at v (p @ q) = (case node_at v p of None \<Rightarrow> None | Some x \<Rightarrow> node_at x q)"
  by (induction v p rule: node_at.induct) (auto split: option.splits)

lemma as_str_not_u64: "as_str seg = Some s \<Longrightarrow> as_u64 seg = None"
  by (induction seg rule: as_str.induct) auto

lemma descend_mutD:
  assumes "descend_mut node seg = Some (st, sub)"
  shows "child st node = Some sub" "addresses seg st"
  using assms
  by (auto simp: descend_mut_def present_def seg_index_def as_str_not_u64 split: option.splits if_splits)

lemma child_ok: "json_ok node \<Longrightarrow> child st node = Some x \<Longrightarrow> json_ok x"
  by (induction st node rule: child.induct) (auto simp: list_all_iff dest!: map_of_SomeD split: if_splits)

lemma set_child_ok:
  assumes "json_ok node" "json_ok x" "child st node = Some y"
  shows "json_ok (set_child st x node)"
  using assms
proof (induction st x node rule: set_child.induct)
  case (1 k x m)
  then have "str_ok k" by (auto simp: list_all_iff dest!: map_of_SomeD)
  then show ?case using 1 bt_set_insert [of k x m] by (auto simp: list_all_iff)
next
  case (2 i x xs)
  then show ?case using set_update_subset_insert [of xs i x] by (auto simp: list_all_iff)
qed auto

lemma child_set_child:
  assumes "json_ok node" "child st node = Some y"
  shows "child st' (set_child st x node) = (if st' = st then Some x else child st' node)"
  using assms
  by (induction st node rule: child.induct; cases st') (auto simp: nth_list_update split: if_splits)

lemma at_parentE:
  assumes "at_parent act i path node = Inr node'" "json_ok node"
  obtains ps parent parent' where "path \<noteq> []" "list_all2 addresses (butlast path) ps" "node_at node ps = Some parent"
    "json_ok parent" "act (last path) parent = Inr parent'" "node_at node' ps = Some parent'"
    "\<And>q. \<not> prefix ps q \<Longrightarrow> \<not> prefix q ps \<Longrightarrow> node_at node' q = node_at node q"
    "json_ok parent' \<Longrightarrow> json_ok node'"
  using assms
proof (induction act i path node arbitrary: node' thesis rule: at_parent.induct)
  case (2 act i lst node)
  show ?case by (rule "2.prems"(1) [of "[]" node node']) (use "2.prems" in auto)
next
  case (3 act i seg s2 segs node)
  from "3.prems"(2) obtain st sub sub' where d: "descend_mut node seg = Some (st, sub)"
    and sub': "at_parent act (Suc i) (s2 # segs) sub = Inr sub'" and node': "node' = set_child st sub' node"
    by (auto split: option.splits sum.splits simp: map_sum_def)
  note c = descend_mutD [OF d]
  have ok: "json_ok sub" using child_ok [OF "3.prems"(3) c(1)] .
  obtain ps parent parent' where ps: "list_all2 addresses (butlast (s2 # segs)) ps" "node_at sub ps = Some parent"
    "json_ok parent" "act (last (s2 # segs)) parent = Inr parent'" "node_at sub' ps = Some parent'"
    "\<And>q. \<not> prefix ps q \<Longrightarrow> \<not> prefix q ps \<Longrightarrow> node_at sub' q = node_at sub q"
    "json_ok parent' \<Longrightarrow> json_ok sub'"
    using "3.IH" [OF d refl _ sub' ok] by metis
  note set = child_set_child [OF "3.prems"(3) c(1), of _ sub'] and keep = set_child_ok [OF "3.prems"(3) _ c(1)]
  show ?case
  proof (rule "3.prems"(1) [of "st # ps" parent parent'])
    fix q assume "\<not> prefix (st # ps) q" "\<not> prefix q (st # ps)"
    then show "node_at node' q = node_at node q"
      using ps(6) c(1) by (cases q) (auto simp: node' set)
  qed (use ps c in \<open>auto simp: node' set keep\<close>)
qed auto

lemma insert_nth_end: "insert_nth (length xs) x xs = xs @ [x]"
  by (simp add: insert_nth_def)

lemma list_all_insert_nth: "list_all P xs \<Longrightarrow> P x \<Longrightarrow> list_all P (insert_nth i x xs)"
  by (auto simp: insert_nth_def list_all_iff dest: in_set_takeD in_set_dropD)

lemma absent_index:
  assumes "descend_mut (JArr xs) seg = None" "seg_index seg = Some i"
  shows "length xs \<le> i"
  using assms by (auto simp: descend_mut_def seg_index_def present_def as_str_not_u64 split: option.splits if_splits)

text \<open>Where a value is put: in the place of a child, under a new key, or at the end of an array.\<close>

lemma patch_putE:
  assumes "patch_put depth x lst node = Inr node'"
  obtains (there) st y where "addresses lst st" "child st node = Some y" "node' = set_child st x node"
  | (key) k m where "addresses lst (Key k)" "node = JObj m" "node' = JObj (bt_insert k x m)"
  | (end') xs i where "seg_index lst = Some i" "length xs \<le> i" "node = JArr xs" "node' = JArr (xs @ [x])"
proof (cases "descend_mut node lst")
  case (Some p)
  then show thesis using assms there [of "fst p" "snd p"] descend_mutD [of node lst "fst p" "snd p"]
    by (simp add: patch_put_def split: prod.splits)
next
  case None
  show thesis
  proof (cases node)
    case (JArr xs)
    then obtain i where "seg_index lst = Some i" "node' = JArr (insert_nth (min i (length xs)) x xs)"
      using assms None by (auto simp: patch_put_def seg_index_def split: option.splits)
    then show thesis using end' [of i xs] JArr absent_index [of xs lst i] None
      by (simp add: insert_nth_end min_absorb2)
  next
    case (JObj m)
    then show thesis using assms None key by (auto simp: patch_put_def split: option.splits)
  qed (use assms None in \<open>auto simp: patch_put_def\<close>)
qed

lemma patch_put_ok:
  assumes "patch_put depth x lst node = Inr node'" "json_ok node" "json_ok x" "json_ok lst"
  shows "json_ok node'"
  using assms(1)
proof (cases rule: patch_putE)
  case there
  then show ?thesis using set_child_ok [OF assms(2,3)] by simp
next
  case (key k m)
  then have "str_ok k" using assms(4) by (cases lst) auto
  then show ?thesis using key assms(2,3) bt_set_insert [of k x m] by (auto simp: list_all_iff)
qed (use assms in auto)

lemma set_delete_subset: "set (AList.delete k m) \<subseteq> set m"
  by (auto simp: AList.delete_eq)

lemma patch_remove_ok: "patch_remove lst node = Inr node' \<Longrightarrow> json_ok node \<Longrightarrow> json_ok node'"
  by (cases node)
    (auto simp: patch_remove_def list_all_iff split: option.splits if_splits
      dest!: set_remove_nth [THEN subsetD] set_delete_subset [THEN subsetD])

lemma patch_put_child:
  assumes "patch_put depth x lst node = Inr node'" "json_ok node"
  obtains st where "addresses lst st \<or> (\<exists>xs i. node = JArr xs \<and> seg_index lst = Some i \<and> length xs \<le> i \<and> st = Idx (length xs))"
    "child st node' = Some x" "\<And>st'. st' \<noteq> st \<Longrightarrow> child st' node' = child st' node"
  using assms(1)
proof (cases rule: patch_putE)
  case (there st y)
  then show thesis using that [of st] child_set_child [OF assms(2) there(2)] by auto
next
  case (key k m)
  then have "child st' node' = child st' node" if "st' \<noteq> Key k" for st' using that assms(2) by (cases st') auto
  then show thesis using that [of "Key k"] key assms(2) by auto
next
  case (end' xs i)
  have "child st' node' = child st' node" if "st' \<noteq> Idx (length xs)" for st'
    using that end' by (cases st') (auto simp: nth_append)
  then show thesis using that [of "Idx (length xs)"] end' by simp
qed

lemma apply_oneE:
  assumes "apply_one state patch = Inr state'"
  obtains op path where "get_str ''op'' patch = Some op" "get_list ''path'' patch = Some path" "path \<noteq> []"
    "at_parent (\<lambda>lst node. if op = ''add'' \<or> op = ''replace''
       then patch_put (length path - 1) (unwrap_or JNull (jget ''value'' patch)) lst node
       else if op = ''remove'' then patch_remove lst node else Inl (UnsupportedOp op)) 0 path state = Inr state'"
  using assms by (auto simp: apply_one_def split: option.splits if_splits)

lemma apply_one_ok:
  assumes "apply_one state patch = Inr state'" "json_ok state" "json_ok patch"
  shows "json_ok state'"
  using assms(1)
proof (cases rule: apply_oneE)
  case (1 op path)
  have v: "json_ok (unwrap_or JNull (jget ''value'' patch))"
    using json_ok_get [OF assms(3)] by (cases "jget ''value'' patch") auto
  from 1(2) have "list_all json_ok path" using json_ok_get [OF assms(3), of "''path''"]
    by (cases "jget ''path'' patch"; cases "the (jget ''path'' patch)") (auto simp: get_list_def)
  then have l: "json_ok (last path)" using 1(3) by (simp add: list_all_iff)
  from 1(4) assms(2) show ?thesis
    by (rule at_parentE) (use v l patch_put_ok patch_remove_ok in \<open>auto split: if_splits\<close>)
qed


definition ex_state :: json where
  "ex_state = JObj [(''items'', JArr [JStr ''a'', JStr ''b'']), (''title'', JStr ''t'')]"

definition ex_patch :: "string \<Rightarrow> json list \<Rightarrow> json \<Rightarrow> json" where
  "ex_patch op path v = JObj [(''op'', JStr op), (''path'', JArr path), (''value'', v)]"

lemma str_ok_ascii: "list_all (\<lambda>c. (of_char c :: nat) < 128) s \<Longrightarrow> str_ok s"
proof (induction s)
  case (Cons c s)
  let ?b = "word_of_nat (of_char c) :: u8"
  have "?b < 0x80" using Cons.prems by (simp add: word_less_nat_alt unat_of_nat)
  then show ?case using Cons by (simp add: str_ok_def str_bytes_def utf8_valid.simps [of "?b # _"] utf8_width_def)
qed (simp add: str_ok_def str_bytes_def utf8_valid.simps)


text \<open>
  C26. A patch that adds or replaces writes its value at exactly one place. The place is the one its path names,
  except that an index beyond the end of an array means the end, and every part of the state that neither
  contains that place nor is contained in it is as before. In particular nothing that follows an element of an
  array moves.
\<close>

theorem patch_writes_one_place:
  assumes "json_ok state" "apply_one state patch = Inr state'"
    "get_str ''op'' patch \<in> {Some ''add'', Some ''replace''}"
  shows "\<exists>path ps st. get_list ''path'' patch = Some path \<and> path \<noteq> [] \<and> list_all2 addresses (butlast path) ps \<and>
    (addresses (last path) st \<or> (\<exists>xs i. node_at state ps = Some (JArr xs) \<and> seg_index (last path) = Some i \<and>
       length xs \<le> i \<and> st = Idx (length xs))) \<and>
    node_at state' (ps @ [st]) = Some (unwrap_or JNull (jget ''value'' patch)) \<and>
    (\<forall>q. \<not> prefix (ps @ [st]) q \<longrightarrow> \<not> prefix q (ps @ [st]) \<longrightarrow> node_at state' q = node_at state q)"
  using assms(2)
proof (cases rule: apply_oneE)
  case (1 op path)
  have op: "op = ''add'' \<or> op = ''replace''" using 1(1) assms(3) by auto
  from 1(4) assms(1) show ?thesis
  proof (rule at_parentE)
    fix ps parent parent'
    assume a: "list_all2 addresses (butlast path) ps" "node_at state ps = Some parent" "json_ok parent"
      "node_at state' ps = Some parent'"
      and frame: "\<And>q. \<not> prefix ps q \<Longrightarrow> \<not> prefix q ps \<Longrightarrow> node_at state' q = node_at state q"
    assume "(if op = ''add'' \<or> op = ''replace''
        then patch_put (length path - 1) (unwrap_or JNull (jget ''value'' patch)) (last path) parent
        else if op = ''remove'' then patch_remove (last path) parent else Inl (UnsupportedOp op)) = Inr parent'"
    then have "patch_put (length path - 1) (unwrap_or JNull (jget ''value'' patch)) (last path) parent = Inr parent'"
      using op by presburger
    then obtain st where st: "addresses (last path) st \<or>
        (\<exists>xs i. parent = JArr xs \<and> seg_index (last path) = Some i \<and> length xs \<le> i \<and> st = Idx (length xs))"
      "child st parent' = Some (unwrap_or JNull (jget ''value'' patch))"
      "\<And>st'. st' \<noteq> st \<Longrightarrow> child st' parent' = child st' parent"
      using patch_put_child [OF _ a(3)] by blast
    have "node_at state' q = node_at state q" if q: "\<not> prefix (ps @ [st]) q" "\<not> prefix q (ps @ [st])" for q
    proof (cases "prefix ps q")
      case True
      then obtain st' r where "q = ps @ st' # r" using q(2) by (metis append_Nil2 neq_Nil_conv prefixE prefix_append)
      moreover from this q(1) have "st' \<noteq> st" by auto
      ultimately show ?thesis using a(2,4) st(3) by (simp add: node_at_append)
    next
      case False
      then show ?thesis using frame q(2) prefix_order.trans by (metis prefixI)
    qed
    moreover have "node_at state' (ps @ [st]) = Some (unwrap_or JNull (jget ''value'' patch))"
      using a(4) st(2) by (simp add: node_at_append)
    ultimately show ?thesis using 1(2,3) a(1,2) st(1) by blast
  qed
qed

theorem patch_writes_one_place_witness:
  "\<exists>path ps st. get_list ''path'' (ex_patch ''add'' [JStr ''items'', JNum (JPos 9)] JNull) = Some path \<and> path \<noteq> [] \<and>
    list_all2 addresses (butlast path) ps \<and>
    (addresses (last path) st \<or> (\<exists>xs i. node_at ex_state ps = Some (JArr xs) \<and> seg_index (last path) = Some i \<and>
       length xs \<le> i \<and> st = Idx (length xs))) \<and>
    node_at (JObj [(''items'', JArr [JStr ''a'', JStr ''b'', JNull]), (''title'', JStr ''t'')]) (ps @ [st]) =
      Some (unwrap_or JNull (jget ''value'' (ex_patch ''add'' [JStr ''items'', JNum (JPos 9)] JNull))) \<and>
    (\<forall>q. \<not> prefix (ps @ [st]) q \<longrightarrow> \<not> prefix q (ps @ [st]) \<longrightarrow>
       node_at (JObj [(''items'', JArr [JStr ''a'', JStr ''b'', JNull]), (''title'', JStr ''t'')]) q = node_at ex_state q)"
proof (rule patch_writes_one_place)
  show "json_ok ex_state" by (simp add: ex_state_def str_ok_ascii)
  show "apply_one ex_state (ex_patch ''add'' [JStr ''items'', JNum (JPos 9)] JNull) =
      Inr (JObj [(''items'', JArr [JStr ''a'', JStr ''b'', JNull]), (''title'', JStr ''t'')])"
    by (simp add: apply_one_def ex_patch_def ex_state_def get_str_def get_list_def descend_mut_def present_def
        patch_put_def insert_nth_def)
  show "get_str ''op'' (ex_patch ''add'' [JStr ''items'', JNum (JPos 9)] JNull) \<in> {Some ''add'', Some ''replace''}"
    by (simp add: ex_patch_def get_str_def)
qed

text \<open>
  Removing by an index that is written as a string does nothing, although the same segment names the element when
  a value is put there.
\<close>

lemma string_index_is_not_removed:
  "apply_one (JArr [JNull]) (ex_patch ''remove'' [JStr ''0''] JNull) = Inr (JArr [JNull])"
  "apply_one (JArr [JNull]) (ex_patch ''replace'' [JStr ''0''] (JBool True)) = Inr (JArr [JBool True])"
  by (simp_all add: apply_one_def ex_patch_def get_str_def get_list_def patch_remove_def patch_put_def
      descend_mut_def present_def parse_usize_def digit_val_def Let_def)

end
