(* ===== verification/Projection.thy ===== *)
theory Projection
  imports Json Domain
begin

text \<open>
  The projection of the desktop application's state to the domain
  (\<open>apps/bridge/src/adapter/codex/projection.rs\<close>, with the items of \<open>domain/items.rs\<close>). What the date library
  makes of a number of milliseconds is the argument \<open>tmo\<close> (\<open>timestamp_millis_opt(..).single()\<close>). User-visible
  text is its string.
\<close>

section \<open>Items\<close>

datatype command_status_state = CsRunning | CsCompleted | CsFailed | CsInterrupted | CsUnknown
datatype plan_step_status = StepPending | StepInProgress | StepCompleted
datatype file_change_kind = FcAdded | FcModified | FcDeleted | FcRenamed | FcUnknown

record plan_step =
  ps_step_id :: string
  ps_title :: string
  ps_status :: plan_step_status

record file_change =
  fc_path :: string
  fc_change :: file_change_kind

datatype dm_item_content =
    UserMessage string
  | AssistantMessage string bool
  | ReasoningSummary string
  | PlanItem "plan_step list"
  | ToolCall string string plan_step_status "string option" u64
  | CommandStatus string command_status_state "string option" "int option" u64
  | FileChanges "file_change list"
  | SubAgentStatus "turn_id option" string active_turn_phase "last_turn_outcome option"
  | QuestionItem string string
  | ApprovalItem string string
  | TokenUsage u64 u64 "u64 option" "u64 option"
  | OpaqueItem string

record item =
  im_item_id :: item_id
  im_turn :: "turn_id option"
  im_revision :: u64
  im_created_at :: "string option"
  im_content :: dm_item_content

section \<open>Known keys\<close>

definition KNOWN_STATE_KEYS :: "string list" where
  "KNOWN_STATE_KEYS =
    [''id'', ''title'', ''cwd'', ''hostId'', ''resumeState'', ''threadRuntimeStatus'', ''threadSource'', ''source'',
     ''ephemeral'', ''hasUnreadTurn'', ''latestModel'', ''latestReasoningEffort'', ''latestCollaborationMode'',
     ''latestTokenUsageInfo'', ''gitInfo'', ''currentPermissions'', ''turns'', ''turnHistory'', ''turnsPagination'',
     ''createdAt'', ''updatedAt'', ''recencyAt'', ''agentNickname'', ''forkedFromId'', ''generatedTitle'',
     ''historyMode'', ''latestThreadSettings'', ''mode'', ''modelProvider'', ''previousTurnModel'',
     ''projectlessOutputDirectory'', ''requests'', ''rolloutPath'', ''sessionId'', ''shellEnvironmentPolicy'',
     ''sideConversation'', ''threadStartKind'', ''workspaceBrowserRoot'', ''workspaceKind'', ''pendingQuestions'',
     ''pendingApprovals'', ''queuedFollowUps'', ''paginatedHistory'', ''parentThreadId'', ''threadGoal'',
     ''threadGoalResumeConfirmation'', ''unreadMessageCount'']"

definition count_unknown_keys :: "json \<Rightarrow> (string \<times> u64) list" where
  "count_unknown_keys state = (case as_object state of
     None \<Rightarrow> []
   | Some m \<Rightarrow> fold (\<lambda>kv counts. if fst kv \<in> set KNOWN_STATE_KEYS then counts
       else bt_insert (fst kv) (unwrap_or 0 (map_of counts (fst kv)) + 1) counts) m [])"

section \<open>Native values to the domain\<close>

definition map_phase :: "string option \<Rightarrow> active_turn_phase" where
  "map_phase native_status = (case native_status of
     None \<Rightarrow> PhIdle
   | Some s \<Rightarrow>
       if s = ''idle'' then PhIdle
       else if s = ''active'' \<or> s = ''inProgress'' then PhRunning
       else if s = ''finishing'' then PhFinishing
       else PhIdle)"

definition map_turn_outcome :: "string option \<Rightarrow> last_turn_outcome option" where
  "map_turn_outcome native_status =
     (if native_status = Some ''completed'' then Some OutCompleted
      else if native_status = Some ''failed'' then Some OutFailed
      else if native_status = Some ''interrupted'' then Some OutInterrupted
      else None)"

definition map_command_status :: "string option \<Rightarrow> command_status_state" where
  "map_command_status native_status =
     (if native_status \<in> {Some ''inProgress'', Some ''running''} then CsRunning
      else if native_status = Some ''completed'' then CsCompleted
      else if native_status = Some ''failed'' then CsFailed
      else if native_status \<in> {Some ''interrupted'', Some ''userStopped'', Some ''stopped''} then CsInterrupted
      else CsUnknown)"

fun command_state_to_background :: "command_status_state \<Rightarrow> background_state" where
  "command_state_to_background CsRunning = BgRunning"
| "command_state_to_background CsCompleted = BgCompleted"
| "command_state_to_background CsFailed = BgFailed"
| "command_state_to_background CsInterrupted = BgStopped"
| "command_state_to_background CsUnknown = BgUnknown"

definition command_status_is_terminal :: "command_status_state \<Rightarrow> bool" where
  "command_status_is_terminal s \<longleftrightarrow> \<not> (s = CsRunning \<or> s = CsUnknown)"

definition ms_to_datetime :: "(int \<Rightarrow> string option) \<Rightarrow> int \<Rightarrow> string option" where
  "ms_to_datetime tmo ms = (if ms \<le> 0 then None else tmo ms)"

section \<open>Parsing items\<close>

definition native_item_id :: "json \<Rightarrow> string \<Rightarrow> item_id" where
  "native_item_id js native_type = (case get_str ''id'' js of
     Some i \<Rightarrow> if i \<noteq> [] then item_native i else item_synthetic (native_type @ '':unnamed'')
   | None \<Rightarrow> item_synthetic (native_type @ '':unnamed''))"

definition tool_status :: "string option \<Rightarrow> plan_step_status" where
  "tool_status native =
     (if native \<in> {Some ''inProgress'', Some ''running''} then StepInProgress
      else if native = Some ''completed'' then StepCompleted
      else StepPending)"

definition file_change_kind_of :: "string option \<Rightarrow> file_change_kind" where
  "file_change_kind_of k =
     (if k \<in> {Some ''added'', Some ''add'', Some ''created''} then FcAdded
      else if k \<in> {Some ''modified'', Some ''edited'', Some ''updated''} then FcModified
      else if k \<in> {Some ''deleted'', Some ''removed''} then FcDeleted
      else if k \<in> {Some ''renamed'', Some ''moved''} then FcRenamed
      else FcUnknown)"

text \<open>\<open>get(a).or_else(|| get(b)).and_then(as_str)\<close>: the second key is read only when the first is absent.\<close>

definition get_str2 :: "string \<Rightarrow> string \<Rightarrow> json \<Rightarrow> string option" where
  "get_str2 a b v = Option.bind (or_else (jget a v) (jget b v)) as_str"

definition parse_file_changes :: "json option \<Rightarrow> file_change list" where
  "parse_file_changes value = (case Option.bind value as_array of
     None \<Rightarrow> []
   | Some entries \<Rightarrow> List.map_filter (\<lambda>entry. case get_str2 ''path'' ''file'' entry of
       None \<Rightarrow> None
     | Some path \<Rightarrow> Some \<lparr>fc_path = path, fc_change = file_change_kind_of
         (Option.bind (or_else (or_else (jget ''kind'' entry) (jget ''changeType'' entry)) (jget ''type'' entry)) as_str)\<rparr>) entries)"

definition parse_step :: "json \<Rightarrow> plan_step" where
  "parse_step step = \<lparr>
     ps_step_id = (case get_str2 ''id'' ''stepId'' step of
       Some i \<Rightarrow> i
     | None \<Rightarrow> ''plan-step:'' @ unwrap_or [] (get_str2 ''title'' ''step'' step)),
     ps_title = unwrap_or [] (get_str2 ''title'' ''step'' step),
     ps_status = (let s = get_str ''status'' step in
       if s \<in> {Some ''inProgress'', Some ''in-progress'', Some ''running''} then StepInProgress
       else if s \<in> {Some ''completed'', Some ''done''} then StepCompleted
       else StepPending)\<rparr>"

definition parse_plan :: "json option \<Rightarrow> plan_step list" where
  "parse_plan value = (case Option.bind value as_array of None \<Rightarrow> [] | Some steps \<Rightarrow> map parse_step steps)"

definition text_from :: "json option \<Rightarrow> string" where
  "text_from value = (case value of
     Some (JStr s) \<Rightarrow> s
   | Some (JObj m) \<Rightarrow> unwrap_or [] (Option.bind (map_of m ''text'') as_str)
   | Some (JArr parts) \<Rightarrow> concat (List.map_filter (get_str ''text'') parts)
   | _ \<Rightarrow> [])"

definition command_output :: "json \<Rightarrow> string option" where
  "command_output js = get_str ''aggregatedOutput'' js"

definition get_u64 :: "string \<Rightarrow> json \<Rightarrow> u64 option" where
  "get_u64 k v = Option.bind (jget k v) as_u64"

definition tool_name :: "string \<Rightarrow> json \<Rightarrow> string" where
  "tool_name native_type js =
     (if native_type = ''mcpToolCall''
      then unwrap_or ''?'' (get_str ''server'' js) @ ''/'' @ unwrap_or ''?'' (get_str ''tool'' js)
      else native_type)"

definition parse_item_content :: "string \<Rightarrow> json \<Rightarrow> dm_item_content" where
  "parse_item_content native_type js =
    (if native_type = ''userMessage'' then UserMessage (text_from (jget ''content'' js))
     else if native_type = ''agentMessage'' then
       AssistantMessage (text_from (jget ''text'' js)) (unwrap_or True (map_option (\<lambda>p. p = ''final_answer'') (get_str ''phase'' js)))
     else if native_type = ''reasoning'' then ReasoningSummary (text_from (jget ''summary'' js))
     else if native_type \<in> {''commandExecution'', ''command'', ''localShellCall''} then
       CommandStatus (unwrap_or [] (get_str ''id'' js)) (map_command_status (get_str ''status'' js)) (get_str ''command'' js)
         (Option.bind (jget ''exitCode'' js) as_i64) (unwrap_or 0 (get_u64 ''durationMs'' js))
     else if native_type = ''fileChange'' then FileChanges (parse_file_changes (jget ''changes'' js))
     else if native_type = ''subAgentActivity'' then
       SubAgentStatus (map_option turn_native (get_str ''agentThreadId'' js)) (unwrap_or ''subagent'' (get_str ''kind'' js))
         (map_phase (get_str ''status'' js)) (map_turn_outcome (get_str ''status'' js))
     else if native_type \<in> {''mcpToolCall'', ''collabAgentToolCall'', ''dynamicToolCall'', ''webSearch''} then
       ToolCall (unwrap_or [] (get_str ''id'' js)) (tool_name native_type js) (tool_status (get_str ''status'' js)) None
         (unwrap_or 0 (get_u64 ''durationMs'' js))
     else if native_type \<in> {''plan'', ''updatePlan''} then PlanItem (parse_plan (jget ''steps'' js))
     else if native_type = ''question'' then
       QuestionItem (unwrap_or [] (get_str2 ''id'' ''questionId'' js)) (text_from (jget ''title'' js))
     else if native_type = ''approval'' then
       ApprovalItem (unwrap_or [] (get_str2 ''id'' ''approvalId'' js))
         (text_from (or_else (jget ''requestedAction'' js) (jget ''action'' js)))
     else if native_type \<in> {''tokenUsage'', ''tokenCount''} then
       TokenUsage (unwrap_or 0 (get_u64 ''inputTokens'' js)) (unwrap_or 0 (get_u64 ''outputTokens'' js))
         (get_u64 ''contextUsedTokens'' js) (get_u64 ''modelContextWindow'' js)
     else OpaqueItem native_type)"

definition parse_item :: "(int \<Rightarrow> string option) \<Rightarrow> string \<Rightarrow> json \<Rightarrow> turn_id option \<Rightarrow> int option \<Rightarrow> item" where
  "parse_item tmo native_type js turn created_ms = \<lparr>
     im_item_id = native_item_id js native_type,
     im_turn = turn,
     im_revision = unwrap_or 0 (get_u64 ''revision'' js),
     im_created_at = Option.bind created_ms (ms_to_datetime tmo),
     im_content = parse_item_content native_type js\<rparr>"

section \<open>Facts of a session\<close>

record session_facts =
  sf_native_id :: "string option"
  sf_title :: "string option"
  sf_project_display :: "string option"
  sf_git_branch :: "string option"
  sf_runtime_status :: "string option"
  sf_latest_model :: "string option"
  sf_latest_reasoning_effort :: "string option"
  sf_collaboration_mode :: "string option"
  sf_approval_policy :: "string option"
  sf_service_tier :: "string option"

definition no_facts :: session_facts where
  "no_facts = \<lparr>sf_native_id = None, sf_title = None, sf_project_display = None, sf_git_branch = None,
     sf_runtime_status = None, sf_latest_model = None, sf_latest_reasoning_effort = None,
     sf_collaboration_mode = None, sf_approval_policy = None, sf_service_tier = None\<rparr>"

definition project_display_from_cwd :: "string \<Rightarrow> string option" where
  "project_display_from_cwd cwd =
    (let trimmed = rev (dropWhile ((=) (CHR ''/'')) (rev cwd)) in
     if trimmed = [] then None else Some (rev (takeWhile ((\<noteq>) (CHR ''/'')) (rev trimmed))))"

definition get_in :: "string \<Rightarrow> string \<Rightarrow> json \<Rightarrow> json option" where
  "get_in a b v = Option.bind (jget a v) (jget b)"

definition extract_facts :: "json \<Rightarrow> session_facts" where
  "extract_facts state = \<lparr>
     sf_native_id = get_str ''id'' state,
     sf_title = get_str ''title'' state,
     sf_project_display = Option.bind (get_str ''cwd'' state) project_display_from_cwd,
     sf_git_branch = Option.bind (get_in ''gitInfo'' ''branch'' state) as_str,
     sf_runtime_status = Option.bind (get_in ''threadRuntimeStatus'' ''type'' state) as_str,
     sf_latest_model = get_str ''latestModel'' state,
     sf_latest_reasoning_effort = get_str ''latestReasoningEffort'' state,
     sf_collaboration_mode = Option.bind (get_in ''latestCollaborationMode'' ''mode'' state) as_str,
     sf_approval_policy = Option.bind (get_in ''currentPermissions'' ''approvalPolicy'' state) as_str,
     sf_service_tier =
       Option.bind (Option.bind (get_in ''latestCollaborationMode'' ''settings'' state) (jget ''serviceTier'')) as_str\<rparr>"

section \<open>Turns\<close>

text \<open>
  \<open>pointer("/turnHistory/history/entitiesByKey")\<close>; none of the three names is an index of an array. The keys
  of an object are in order, and the sort by start time is stable.
\<close>

definition history_turns :: "json \<Rightarrow> json list" where
  "history_turns state =
    sort_key (\<lambda>turn. unwrap_or 0 (get_u64 ''turnStartedAtMs'' turn))
      (case Option.bind (Option.bind (get_in ''turnHistory'' ''history'' state) (jget ''entitiesByKey'')) as_object of
         None \<Rightarrow> []
       | Some entities \<Rightarrow> filter (\<lambda>e. jget ''turnId'' e \<noteq> None) (map snd entities))"

definition extract_turns :: "json \<Rightarrow> json list" where
  "extract_turns state = (case get_list ''turns'' state of
     Some turns \<Rightarrow> if turns \<noteq> [] then turns else history_turns state
   | None \<Rightarrow> history_turns state)"

definition turn_id_of :: "json \<Rightarrow> nat \<Rightarrow> turn_id" where
  "turn_id_of turn index = (case get_str ''turnId'' turn of
     Some i \<Rightarrow> if i \<noteq> [] then turn_native i else turn_synthetic (''turn:'' @ show_nat index)
   | None \<Rightarrow> turn_synthetic (''turn:'' @ show_nat index))"

definition turn_status_of :: "json \<Rightarrow> string option" where
  "turn_status_of turn = get_str ''status'' turn"

definition turn_items_of :: "json \<Rightarrow> json list" where
  "turn_items_of turn = unwrap_or [] (get_list ''items'' turn)"

section \<open>Questions\<close>

record request_question =
  rq_question_id :: string
  rq_header :: string
  rq_question :: string
  rq_allow_free_text :: bool
  rq_option_labels :: "string list"

record requests_question =
  rqs_request_id :: string
  rqs_turn :: "turn_id option"
  rqs_questions :: "request_question list"

definition get_bool :: "string \<Rightarrow> json \<Rightarrow> bool option" where
  "get_bool k v = Option.bind (jget k v) as_bool"

definition parse_request_question :: "json \<Rightarrow> request_question" where
  "parse_request_question q = \<lparr>
     rq_question_id = unwrap_or [] (get_str ''id'' q),
     rq_header = unwrap_or [] (get_str ''header'' q),
     rq_question = unwrap_or [] (get_str ''question'' q),
     rq_allow_free_text = unwrap_or False (get_bool ''isOther'' q),
     rq_option_labels = List.map_filter (get_str ''label'') (unwrap_or [] (get_list ''options'' q))\<rparr>"

definition parse_user_input_request :: "json \<Rightarrow> requests_question option" where
  "parse_user_input_request request =
    (if get_str ''method'' request \<noteq> Some ''item/tool/requestUserInput'' then None
     else if get_bool ''completed'' request = Some True then None
     else (case jget ''params'' request of
       None \<Rightarrow> None
     | Some params \<Rightarrow>
         (let questions = map parse_request_question (unwrap_or [] (get_list ''questions'' params)) in
          if questions = [] then None
          else Some \<lparr>rqs_request_id = unwrap_or [] (get_str ''id'' request),
            rqs_turn = map_option turn_native (get_str ''turnId'' params), rqs_questions = questions\<rparr>)))"

definition extract_requests_questions_detail :: "json \<Rightarrow> requests_question list" where
  "extract_requests_questions_detail state =
     List.map_filter parse_user_input_request (unwrap_or [] (get_list ''requests'' state))"

definition request_card :: "requests_question \<Rightarrow> pending_question" where
  "request_card request = (case rqs_questions request of
     [] \<Rightarrow> \<lparr>pq_question_id = rqs_request_id request, pq_title = [], pq_description = [], pq_options = [],
         pq_allow_multiple = False, pq_allow_free_text = False, pq_turn = rqs_turn request, pq_created_at = None, pq_valid = True\<rparr>
   | q # qs \<Rightarrow> \<lparr>pq_question_id = rqs_request_id request, pq_title = rq_header q,
         pq_description = join_with '' / '' (map rq_question (q # qs)),
         pq_options = map (\<lambda>label. \<lparr>qo_option_id = label, qo_label = label\<rparr>) (rq_option_labels q),
         pq_allow_multiple = False, pq_allow_free_text = rq_allow_free_text q, pq_turn = rqs_turn request,
         pq_created_at = None, pq_valid = True\<rparr>)"

definition extract_requests_questions :: "json \<Rightarrow> pending_question list" where
  "extract_requests_questions state = map request_card (extract_requests_questions_detail state)"

definition parse_option :: "json \<Rightarrow> question_option option" where
  "parse_option o1 = map_option (\<lambda>i. \<lparr>qo_option_id = i, qo_label = text_from (jget ''label'' o1)\<rparr>) (get_str ''id'' o1)"

definition parse_question :: "(int \<Rightarrow> string option) \<Rightarrow> json \<Rightarrow> pending_question" where
  "parse_question tmo q = \<lparr>
     pq_question_id = unwrap_or [] (get_str2 ''id'' ''questionId'' q),
     pq_title = text_from (jget ''title'' q),
     pq_description = text_from (jget ''description'' q),
     pq_options = List.map_filter parse_option (unwrap_or [] (get_list ''options'' q)),
     pq_allow_multiple = unwrap_or False (get_bool ''allowMultiple'' q),
     pq_allow_free_text = unwrap_or False (get_bool ''allowFreeText'' q),
     pq_turn = map_option turn_native (get_str ''turnId'' q),
     pq_created_at = Option.bind (Option.bind (jget ''createdAtMs'' q) as_i64) (ms_to_datetime tmo),
     pq_valid = unwrap_or True (get_bool ''valid'' q)\<rparr>"

definition extract_questions :: "(int \<Rightarrow> string option) \<Rightarrow> json \<Rightarrow> pending_question list" where
  "extract_questions tmo state = (case get_list ''pendingQuestions'' state of
     Some qs \<Rightarrow> if qs \<noteq> [] then map (parse_question tmo) qs else extract_requests_questions state
   | None \<Rightarrow> extract_requests_questions state)"

text \<open>The answer to a request; only a request with one question has one.\<close>

definition answer_entries :: "string list \<Rightarrow> string option \<Rightarrow> json list" where
  "answer_entries answered_labels free_text =
     map JStr answered_labels @ (case free_text of None \<Rightarrow> [] | Some t \<Rightarrow> [JStr t])"

definition build_request_answer_response :: "requests_question \<Rightarrow> string list \<Rightarrow> string option \<Rightarrow> string + json" where
  "build_request_answer_response request answered_labels free_text = (case rqs_questions request of
     [question] \<Rightarrow> Inr (JObj [(''answers'', JObj [(rq_question_id question,
         JObj [(''answers'', JArr (answer_entries answered_labels free_text))])])])
   | qs \<Rightarrow> Inl (''native request '' @ rqs_request_id request @ '' carries '' @ show_nat (length qs) @
       '' questions; a single remote answer card cannot answer all of them completely, handle it in Codex Desktop''))"

section \<open>Approvals\<close>

definition parse_decision :: "json \<Rightarrow> approval_decision option" where
  "parse_decision d = map_option (\<lambda>i. \<lparr>ad_decision_id = i, ad_label = text_from (jget ''label'' d)\<rparr>) (get_str ''id'' d)"

definition parse_approval :: "(int \<Rightarrow> string option) \<Rightarrow> json \<Rightarrow> pending_approval" where
  "parse_approval tmo a = \<lparr>
     pa_approval_id = unwrap_or [] (get_str2 ''id'' ''approvalId'' a),
     pa_risk_description = text_from (jget ''riskDescription'' a),
     pa_requested_action = text_from (or_else (jget ''requestedAction'' a) (jget ''action'' a)),
     pa_decisions = List.map_filter parse_decision (unwrap_or [] (get_list ''decisions'' a)),
     pa_scope = get_str ''scope'' a,
     pa_turn = map_option turn_native (get_str ''turnId'' a),
     pa_created_at = Option.bind (Option.bind (jget ''createdAtMs'' a) as_i64) (ms_to_datetime tmo),
     pa_valid = unwrap_or True (get_bool ''valid'' a)\<rparr>"

definition parse_approval_request :: "json \<Rightarrow> pending_approval option" where
  "parse_approval_request request =
    (if get_str ''method'' request \<notin>
        {Some ''item/commandExecution/requestApproval'', Some ''item/fileChange/requestApproval''} then None
     else if get_bool ''completed'' request = Some True then None
     else (let params = unwrap_or JNull (jget ''params'' request) in
       Some \<lparr>pa_approval_id = unwrap_or [] (get_str ''id'' request), pa_risk_description = [],
         pa_requested_action = text_from (or_else (jget ''command'' params) (jget ''action'' params)),
         pa_decisions = [], pa_scope = None, pa_turn = map_option turn_native (get_str ''turnId'' params),
         pa_created_at = None, pa_valid = True\<rparr>))"

definition extract_requests_approvals :: "json \<Rightarrow> pending_approval list" where
  "extract_requests_approvals state =
     List.map_filter parse_approval_request (unwrap_or [] (get_list ''requests'' state))"

definition extract_approvals :: "(int \<Rightarrow> string option) \<Rightarrow> json \<Rightarrow> pending_approval list" where
  "extract_approvals tmo state = (case get_list ''pendingApprovals'' state of
     Some as \<Rightarrow> if as \<noteq> [] then map (parse_approval tmo) as else extract_requests_approvals state
   | None \<Rightarrow> extract_requests_approvals state)"

section \<open>Settings\<close>

definition collaboration_setting :: "json \<Rightarrow> string \<Rightarrow> string option" where
  "collaboration_setting state key =
     Option.bind (Option.bind (get_in ''latestCollaborationMode'' ''settings'' state) (jget key)) as_str"

fun all_strings :: "json list \<Rightarrow> string list option" where
  "all_strings [] = Some []"
| "all_strings (x # xs) = (case (as_str x, all_strings xs) of (Some s, Some ss) \<Rightarrow> Some (s # ss) | _ \<Rightarrow> None)"

definition effort_available_values :: "json \<Rightarrow> setting_value list" where
  "effort_available_values state =
    (case Option.bind (Option.bind (get_in ''latestCollaborationMode'' ''settings'' state) (jget ''effortAvailableValues'')) as_array of
       None \<Rightarrow> []
     | Some entries \<Rightarrow> map (\<lambda>t. \<lparr>sv_value = t, sv_label = t\<rparr>) (unwrap_or [] (all_strings entries)))"

definition setting_row ::
    "string \<Rightarrow> setting_kind \<Rightarrow> string option \<Rightarrow> setting_value list \<Rightarrow> bool \<Rightarrow> setting_option list" where
  "setting_row option_id kind current available mutable = (case current of
     None \<Rightarrow> []
   | Some c \<Rightarrow> [\<lparr>so_option_id = option_id, so_kind = kind, so_label = option_id, so_current_value = Some c,
       so_available_values = available, so_mutable = mutable\<rparr>])"

definition extract_settings :: "json \<Rightarrow> active_turn_phase \<Rightarrow> setting_option list" where
  "extract_settings state phase = (let facts = extract_facts state in
     setting_row ''model'' SkModel (or_else (sf_latest_model facts) (collaboration_setting state ''model'')) [] False @
     setting_row ''effort'' SkReasoningEffort (sf_latest_reasoning_effort facts) (effort_available_values state) (phase = PhIdle) @
     setting_row ''serviceTier'' SkServiceTier (sf_service_tier facts) [] False @
     setting_row ''approvalPolicy'' SkPermissionMode (sf_approval_policy facts) [] False @
     setting_row ''collaborationMode'' SkCollaborationMode (sf_collaboration_mode facts) [] False)"

end
