(* ===== verification/Mapper.thy ===== *)
theory Mapper
  imports Projection
begin

text \<open>
  The state machine of one session (\<open>apps/bridge/src/adapter/codex/mapper.rs\<close>): authoritative snapshots and patches
  of the desktop application in, domain events out. Output of commands is compared with what was seen before; an
  extension is kept in a buffer and sent in chunks, anything else replaces the output. \<open>expect\<close> on a chunk that
  cannot be cut is a panic, the result \<open>None\<close>. A clock gives the instant at which the output of an item is put
  into its buffer.
\<close>

section \<open>Events and summaries\<close>

datatype device_connection = DcConnecting | DcOnline | DcDegraded | DcOffline
datatype output_channel = ChStdout | ChStderr | ChCombined

record dm_queue_status =
  qs_state :: queue_state
  qs_after_turn_id :: "turn_id option"
  qs_accepted_runtime_revision :: "u64 option"

definition queue_status_default :: dm_queue_status where
  "queue_status_default = \<lparr>qs_state = QsEmpty, qs_after_turn_id = None, qs_accepted_runtime_revision = None\<rparr>"

record dm_session_summary =
  ss_session_key :: session_key
  ss_title :: "string option"
  ss_agent_kind :: agent_kind
  ss_project_display_name :: "string option"
  ss_current_branch :: "string option"
  ss_updated_at :: "string option"
  ss_device_connection :: device_connection
  ss_device_last_seen_at :: "string option"
  ss_degraded_reason :: "string option"
  ss_control_mode :: control_mode
  ss_compatibility_state :: compatibility_state
  ss_active_turn_phase :: active_turn_phase
  ss_pending_attention_count :: u32
  ss_pending_attention_kinds :: "attention_kind list"
  ss_queue_state :: queue_state
  ss_last_turn_outcome :: last_turn_outcome
  ss_pinned :: bool
  ss_muted :: bool
  ss_archived :: bool

record output_cursor =
  oc_item_id :: item_id
  oc_revision :: u64
  oc_byte_length :: nat
  oc_is_final :: bool
  oc_channel :: output_channel
  oc_final_unavailable :: bool

record running_command =
  rc_command_id :: string
  rc_item_id :: "item_id option"
  rc_started_at :: "string option"

text \<open>The whole of \<open>RuntimeSnapshot\<close>, as an extension of what the command pipeline reads of it.\<close>

record full_snapshot = runtime_snapshot +
  rs_plan :: "plan_step list"
  rs_running_commands :: "running_command list"
  rs_background_command_count :: u32
  rs_queue :: dm_queue_status
  rs_recent_output_cursors :: "output_cursor list"

datatype dm_event =
    DmTurnLifecycle turn_id active_turn_phase "last_turn_outcome option" "string option"
  | DmItemUpsert item
  | DmOutputAppend item_id nat bytes output_channel
  | DmOutputReplace item_id u64 bytes output_channel
  | DmOutputFinal item_id u64 nat output_channel bool
  | DmSessionSummaryChanged dm_session_summary
  | DmPendingAttentionAdded pending_attention
  | DmPendingAttentionRemoved attention_kind string "turn_id option"
  | DmQueueStateChanged dm_queue_status
  | DmBackgroundCommandChanged bg_command
  | DmCapabilityChanged capability_set

section \<open>State\<close>

record output_merge_policy =
  mp_max_delay :: nat
  mp_max_bytes :: nat

definition merge_policy_default :: output_merge_policy where
  "merge_policy_default = \<lparr>mp_max_delay = 75, mp_max_bytes = 64 * 1024\<rparr>"

record item_track =
  tk_seq :: nat
  tk_native_type :: string
  tk_status :: "string option"
  tk_content_len :: nat
  tk_output :: bytes
  tk_output_present :: bool
  tk_final_emitted :: bool

record pending_output =
  pd_expected_offset :: nat
  pd_buffer :: bytes
  pd_queued_at :: nat

record session_mapper =
  sm_session_key :: session_key
  sm_merge_policy :: output_merge_policy
  sm_revision :: "u64 option"
  sm_state :: "json option"
  sm_facts :: session_facts
  sm_capabilities :: capability_set
  sm_device_connection :: device_connection
  sm_queue :: dm_queue_status
  sm_items :: "(string \<times> item_track) list"
  sm_attentions :: "(string \<times> attention_kind) list"
  sm_pending :: "(string \<times> pending_output) list"
  sm_last_summary :: "dm_session_summary option"
  sm_current_turn :: "turn_id option"
  sm_phase :: active_turn_phase
  sm_last_outcome :: "last_turn_outcome option"
  sm_next_seq :: nat
  sm_unknown_keys :: "(string \<times> u64) list"

definition mapper_new :: "session_key \<Rightarrow> session_mapper" where
  "mapper_new key = \<lparr>sm_session_key = key, sm_merge_policy = merge_policy_default, sm_revision = None, sm_state = None,
     sm_facts = no_facts, sm_capabilities = read_only_degraded None, sm_device_connection = DcOnline,
     sm_queue = queue_status_default, sm_items = [], sm_attentions = [], sm_pending = [], sm_last_summary = None,
     sm_current_turn = None, sm_phase = PhIdle, sm_last_outcome = None, sm_next_seq = 0, sm_unknown_keys = []\<rparr>"

definition set_capabilities :: "capability_set \<Rightarrow> session_mapper \<Rightarrow> session_mapper" where
  "set_capabilities c m = m\<lparr>sm_capabilities := c\<rparr>"

definition mapper_set_device_connection :: "device_connection \<Rightarrow> session_mapper \<Rightarrow> session_mapper" where
  "mapper_set_device_connection c m = m\<lparr>sm_device_connection := c\<rparr>"

definition set_queue :: "dm_queue_status \<Rightarrow> session_mapper \<Rightarrow> session_mapper \<times> dm_event option" where
  "set_queue q m = (if sm_queue m = q then (m, None) else (m\<lparr>sm_queue := q\<rparr>, Some (DmQueueStateChanged q)))"

definition has_snapshot :: "session_mapper \<Rightarrow> bool" where
  "has_snapshot m \<longleftrightarrow> sm_state m \<noteq> None"

definition mapper_cwd :: "session_mapper \<Rightarrow> string option" where
  "mapper_cwd m = Option.bind (sm_state m) (get_str ''cwd'')"

definition steer_restore_message :: "session_mapper \<Rightarrow> json option" where
  "steer_restore_message m = (case sm_state m of
     None \<Rightarrow> None
   | Some state \<Rightarrow> (case get_str ''cwd'' state of
       None \<Rightarrow> None
     | Some cwd \<Rightarrow>
         (let context0 = [(''workspaceRoots'', JArr [JStr cwd])];
              context1 = (case jget ''latestCollaborationMode'' state of
                None \<Rightarrow> context0 | Some mode \<Rightarrow> bt_insert ''collaborationMode'' mode context0)
          in Some (JObj [(''context'', JObj context1), (''cwd'', JStr cwd)]))))"

section \<open>Helpers\<close>

definition item_type_of :: "json \<Rightarrow> string" where
  "item_type_of v = unwrap_or ''unknown'' (get_str2 ''type'' ''item_type'' v)"

definition is_output_item :: "string \<Rightarrow> bool" where
  "is_output_item native_type \<longleftrightarrow> native_type = ''commandExecution'' \<or> native_type = ''command''"

definition status_is_terminal :: "string option \<Rightarrow> bool" where
  "status_is_terminal status = (case status of
     None \<Rightarrow> False | Some s \<Rightarrow> command_status_is_terminal (map_command_status (Some s)))"

definition track_key :: "item_id \<Rightarrow> string" where
  "track_key i = ii_id i"

definition strip_suffix :: "string \<Rightarrow> string \<Rightarrow> string option" where
  "strip_suffix suf s = (if suffix suf s then Some (take (length s - length suf) s) else None)"

definition key_to_item_id :: "string \<Rightarrow> item_id" where
  "key_to_item_id key = (case strip_suffix '':unnamed'' key of
     Some base \<Rightarrow> item_synthetic base | None \<Rightarrow> item_native key)"

fun content_signature :: "dm_item_content \<Rightarrow> nat" where
  "content_signature (UserMessage text) = length text"
| "content_signature (AssistantMessage text _) = length text"
| "content_signature (ReasoningSummary text) = length text"
| "content_signature (PlanItem steps) = length steps"
| "content_signature (ToolCall _ _ _ _ duration) = unat duration"
| "content_signature (CommandStatus _ _ _ _ duration) = unat duration"
| "content_signature (FileChanges changes) = length changes"
| "content_signature (TokenUsage input _ _ _) = unat input"
| "content_signature _ = 0"

definition collect_turns :: "json \<Rightarrow> (turn_id \<times> json) list" where
  "collect_turns state = map (\<lambda>(i, turn). (turn_id_of turn i, turn)) (enumerate 0 (extract_turns state))"

text \<open>The items of all turns in order, each with its turn.\<close>

definition state_items :: "json \<Rightarrow> (turn_id \<times> json) list" where
  "state_items state = concat (map (\<lambda>(tid, turn). map (Pair tid) (turn_items_of turn)) (collect_turns state))"

definition has_item_id :: "string \<Rightarrow> turn_id \<times> json \<Rightarrow> bool" where
  "has_item_id key tv \<longleftrightarrow> get_str ''id'' (snd tv) = Some key"

definition find_item :: "(int \<Rightarrow> string option) \<Rightarrow> json \<Rightarrow> string \<Rightarrow> item option" where
  "find_item tmo state key =
     map_option (\<lambda>(tid, v). parse_item tmo (item_type_of v) v (Some tid) None) (find (has_item_id key) (state_items state))"

definition is_command :: "dm_item_content \<Rightarrow> bool" where
  "is_command c = (case c of CommandStatus _ _ _ _ _ \<Rightarrow> True | _ \<Rightarrow> False)"

definition build_track :: "string \<Rightarrow> json \<Rightarrow> item \<Rightarrow> nat \<Rightarrow> item_track" where
  "build_track native_type v it sq = \<lparr>
     tk_seq = sq,
     tk_native_type = native_type,
     tk_status = get_str ''status'' v,
     tk_content_len = content_signature (im_content it),
     tk_output = (if is_command (im_content it) then unwrap_or [] (map_option str_bytes (command_output v)) else []),
     tk_output_present = (is_command (im_content it) \<and> command_output v \<noteq> None),
     tk_final_emitted = False\<rparr>"

definition output_page :: "item_id \<Rightarrow> nat \<Rightarrow> nat \<Rightarrow> session_mapper \<Rightarrow> (bytes \<times> nat \<times> bool) option" where
  "output_page i offset limit m = (case map_of (sm_items m) (track_key i) of
     None \<Rightarrow> None
   | Some t \<Rightarrow>
       if \<not> is_output_item (tk_native_type t) \<or> \<not> tk_output_present t then None
       else (let start = min offset (length (tk_output t));
                 stop = min (start + limit) (length (tk_output t))
             in Some (take (stop - start) (drop start (tk_output t)), length (tk_output t), status_is_terminal (tk_status t))))"

section \<open>Merging output\<close>

definition take_pending_output :: "string \<Rightarrow> session_mapper \<Rightarrow> (session_mapper \<times> dm_event list) option" where
  "take_pending_output key m = (case map_of (sm_pending m) key of
     None \<Rightarrow> Some (m, [])
   | Some p \<Rightarrow> map_option
       (\<lambda>chunks. (m\<lparr>sm_pending := AList.delete key (sm_pending m)\<rparr>,
          map (\<lambda>(off, c). DmOutputAppend (key_to_item_id key) off c ChCombined) chunks))
       (flush_chunks (mp_max_bytes (sm_merge_policy m)) (pd_expected_offset p) (pd_buffer p)))"

fun take_pending_outputs :: "string list \<Rightarrow> session_mapper \<Rightarrow> (session_mapper \<times> dm_event list) option" where
  "take_pending_outputs [] m = Some (m, [])"
| "take_pending_outputs (key # keys) m = (case take_pending_output key m of
     None \<Rightarrow> None
   | Some (m1, e1) \<Rightarrow> map_option (apsnd ((@) e1)) (take_pending_outputs keys m1))"

definition flush_due_outputs :: "nat \<Rightarrow> session_mapper \<Rightarrow> (session_mapper \<times> dm_event list) option" where
  "flush_due_outputs now m = take_pending_outputs
     (map fst (filter (\<lambda>(k, p). now - pd_queued_at p \<ge> mp_max_delay (sm_merge_policy m)) (sm_pending m))) m"

definition maybe_flush_full :: "string \<Rightarrow> session_mapper \<Rightarrow> (session_mapper \<times> dm_event list) option" where
  "maybe_flush_full key m =
    (if (case map_of (sm_pending m) key of None \<Rightarrow> False | Some p \<Rightarrow> length (pd_buffer p) \<ge> mp_max_bytes (sm_merge_policy m))
     then take_pending_output key m else Some (m, []))"

section \<open>Differences\<close>

definition output_events_for_new_snapshot_item :: "string \<Rightarrow> item_track \<Rightarrow> dm_event list" where
  "output_events_for_new_snapshot_item key t =
    (if \<not> is_output_item (tk_native_type t) then []
     else (if tk_output t \<noteq> [] then [DmOutputReplace (key_to_item_id key) 0 (tk_output t) ChCombined] else []) @
       (if status_is_terminal (tk_status t) \<and> \<not> tk_final_emitted t
        then [DmOutputFinal (key_to_item_id key) 0 (length (tk_output t)) ChCombined (\<not> tk_output_present t)] else []))"

text \<open>The change of output: what is buffered or sent, without the final event.\<close>

definition output_change ::
    "nat \<Rightarrow> string \<Rightarrow> item_track \<Rightarrow> item_track \<Rightarrow> session_mapper \<Rightarrow> (session_mapper \<times> dm_event list) option" where
  "output_change now key old_track new_track m =
    (if length (tk_output new_track) \<noteq> length (tk_output old_track) then
       (if prefix (tk_output old_track) (tk_output new_track) then
          (let delta = drop (length (tk_output old_track)) (tk_output new_track);
               p = (case map_of (sm_pending m) key of
                 Some p \<Rightarrow> p
               | None \<Rightarrow> \<lparr>pd_expected_offset = length (tk_output old_track), pd_buffer = [], pd_queued_at = now\<rparr>)
           in maybe_flush_full key
                (m\<lparr>sm_pending := bt_insert key (p\<lparr>pd_buffer := pd_buffer p @ delta\<rparr>) (sm_pending m)\<rparr>))
        else Some (m\<lparr>sm_pending := AList.delete key (sm_pending m)\<rparr>,
               [DmOutputReplace (key_to_item_id key) 0 (tk_output new_track) ChCombined]))
     else Some (m, []))"

definition output_delta_events ::
    "nat \<Rightarrow> string \<Rightarrow> item_track \<Rightarrow> item_track \<Rightarrow> session_mapper \<Rightarrow> (session_mapper \<times> item_track \<times> dm_event list) option" where
  "output_delta_events now key old_track new_track m =
    (if \<not> is_output_item (tk_native_type new_track) then Some (m, new_track, [])
     else (case output_change now key old_track new_track m of
       None \<Rightarrow> None
     | Some (m1, e1) \<Rightarrow>
         if status_is_terminal (tk_status new_track) \<and> \<not> status_is_terminal (tk_status old_track) \<and> \<not> tk_final_emitted new_track
         then (case take_pending_output key m1 of
             None \<Rightarrow> None
           | Some (m2, e2) \<Rightarrow> Some (m2, new_track\<lparr>tk_final_emitted := True\<rparr>, e1 @ e2 @
               [DmOutputFinal (key_to_item_id key) 0 (length (tk_output new_track)) ChCombined (\<not> tk_output_present new_track)]))
         else Some (m1, new_track, e1)))"

definition put_item :: "string \<Rightarrow> item_track \<Rightarrow> session_mapper \<Rightarrow> session_mapper" where
  "put_item key t m = m\<lparr>sm_items := bt_insert key t (sm_items m)\<rparr>"

text \<open>One item of a snapshot, against what is known of it.\<close>

definition merge_item ::
    "(int \<Rightarrow> string option) \<Rightarrow> nat \<Rightarrow> bool \<Rightarrow> json \<Rightarrow> string \<Rightarrow> item_track \<Rightarrow> session_mapper \<Rightarrow> (session_mapper \<times> dm_event list) option" where
  "merge_item tmo now first state key new_track m = (case map_of (sm_items m) key of
     None \<Rightarrow> Some (put_item key new_track m,
       if first then []
       else (case find_item tmo state key of
           Some it \<Rightarrow> DmItemUpsert it # output_events_for_new_snapshot_item key new_track
         | None \<Rightarrow> []))
   | Some old_track \<Rightarrow>
       (let changed = (tk_status old_track \<noteq> tk_status new_track \<or> tk_content_len old_track \<noteq> tk_content_len new_track \<or>
              length (tk_output old_track) \<noteq> length (tk_output new_track))
        in map_option (\<lambda>(m1, t, e1). (put_item key t m1, e1 @
             (if changed then (case find_item tmo state key of Some it \<Rightarrow> [DmItemUpsert it] | None \<Rightarrow> []) else [])))
           (output_delta_events now key old_track new_track m)))"

fun merge_items ::
    "(int \<Rightarrow> string option) \<Rightarrow> (string \<Rightarrow> nat) \<Rightarrow> bool \<Rightarrow> json \<Rightarrow> (string \<times> item_track) list \<Rightarrow> session_mapper \<Rightarrow> (session_mapper \<times> dm_event list) option" where
  "merge_items tmo clock first state [] m = Some (m, [])"
| "merge_items tmo clock first state ((key, t) # ts) m = (case merge_item tmo (clock key) first state key t m of
     None \<Rightarrow> None
   | Some (m1, e1) \<Rightarrow> map_option (apsnd ((@) e1)) (merge_items tmo clock first state ts m1))"

text \<open>The tracks of a snapshot; of two items with the same key the first counts.\<close>

fun new_tracks ::
    "(int \<Rightarrow> string option) \<Rightarrow> (turn_id \<times> json) list \<Rightarrow> nat \<Rightarrow> (string \<times> item_track) list \<Rightarrow> (string \<times> item_track) list \<times> nat" where
  "new_tracks tmo [] sq ts = (ts, sq)"
| "new_tracks tmo ((tid, v) # vs) sq ts =
     (let it = parse_item tmo (item_type_of v) v (Some tid) None; key = track_key (im_item_id it) in
      if map_of ts key = None
      then new_tracks tmo vs (Suc sq) (bt_insert key (build_track (item_type_of v) v it sq) ts)
      else new_tracks tmo vs sq ts)"

definition drop_vanished :: "json \<Rightarrow> session_mapper \<Rightarrow> session_mapper" where
  "drop_vanished state m = m\<lparr>sm_items := filter (\<lambda>kt. list_ex (has_item_id (fst kt)) (state_items state)) (sm_items m)\<rparr>"

definition last_terminal :: "json \<Rightarrow> (turn_id \<times> last_turn_outcome) option" where
  "last_terminal state =
    (case List.map_filter (\<lambda>(tid, t). map_option (Pair tid) (map_turn_outcome (turn_status_of t))) (rev (collect_turns state)) of
       [] \<Rightarrow> None | x # _ \<Rightarrow> Some x)"

definition running_turn :: "json \<Rightarrow> turn_id option" where
  "running_turn state =
     map_option fst (find (\<lambda>(tid, t). turn_status_of t = Some ''inProgress'') (collect_turns state))"

definition new_phase :: "json \<Rightarrow> session_facts \<Rightarrow> active_turn_phase" where
  "new_phase state facts =
    (if running_turn state \<noteq> None then PhRunning
     else if sf_runtime_status facts = Some ''finishing'' then PhFinishing
     else if last_terminal state \<noteq> None then PhIdle
     else map_phase (sf_runtime_status facts))"

definition apply_lifecycle :: "json \<Rightarrow> session_mapper \<Rightarrow> session_mapper \<times> dm_event list" where
  "apply_lifecycle state m =
    (let phase = new_phase state (sm_facts m); cur = running_turn state; lt = last_terminal state in
     (m\<lparr>sm_phase := phase, sm_current_turn := cur,
        sm_last_outcome := (if phase = PhIdle then (case lt of Some (_, oc) \<Rightarrow> Some oc | None \<Rightarrow> sm_last_outcome m) else sm_last_outcome m)\<rparr>,
      if sm_phase m \<noteq> phase \<or> sm_current_turn m \<noteq> cur
      then [DmTurnLifecycle (unwrap_or (turn_synthetic ''unknown'') (or_else cur (map_option fst lt))) phase
              (if phase = PhIdle then map_option snd lt else None) None]
      else []))"

text \<open>Questions and approvals.\<close>

definition next_attentions :: "(int \<Rightarrow> string option) \<Rightarrow> json \<Rightarrow> (string \<times> attention_kind) list" where
  "next_attentions tmo state =
     fold (\<lambda>a. bt_insert (pa_approval_id a) RiskApproval) (extract_approvals tmo state)
       (fold (\<lambda>q. bt_insert (pq_question_id q) UserQuestion) (extract_questions tmo state) [])"

definition find_attention :: "(int \<Rightarrow> string option) \<Rightarrow> json \<Rightarrow> string \<Rightarrow> attention_kind \<Rightarrow> pending_attention option" where
  "find_attention tmo state i kind =
    (if kind = UserQuestion then map_option AtQuestion (find (\<lambda>q. pq_question_id q = i) (extract_questions tmo state))
     else map_option AtApproval (find (\<lambda>a. pa_approval_id a = i) (extract_approvals tmo state)))"

definition diff_attentions :: "(int \<Rightarrow> string option) \<Rightarrow> json \<Rightarrow> session_mapper \<Rightarrow> session_mapper \<times> dm_event list" where
  "diff_attentions tmo state m =
    (let next = next_attentions tmo state in
     (m\<lparr>sm_attentions := next\<rparr>,
      map (\<lambda>(i, kind). DmPendingAttentionRemoved kind i None)
        (filter (\<lambda>(i, _). map_of next i = None) (sm_attentions m)) @
      List.map_filter (\<lambda>(i, kind). if map_of (sm_attentions m) i \<noteq> None then None
        else map_option DmPendingAttentionAdded (find_attention tmo state i kind)) next))"

text \<open>Sorting and removing duplicates of a list of two kinds.\<close>

definition session_summary_of :: "session_mapper \<Rightarrow> dm_session_summary" where
  "session_summary_of m = \<lparr>
     ss_session_key = sm_session_key m,
     ss_title = sf_title (sm_facts m),
     ss_agent_kind = sk_agent_kind (sm_session_key m),
     ss_project_display_name = sf_project_display (sm_facts m),
     ss_current_branch = sf_git_branch (sm_facts m),
     ss_updated_at = None,
     ss_device_connection = sm_device_connection m,
     ss_device_last_seen_at = None,
     ss_degraded_reason = None,
     ss_control_mode = cs_control_mode (sm_capabilities m),
     ss_compatibility_state = cs_compatibility_state (sm_capabilities m),
     ss_active_turn_phase = sm_phase m,
     ss_pending_attention_count = of_nat (length (sm_attentions m)),
     ss_pending_attention_kinds = filter (\<lambda>k. k \<in> snd ` set (sm_attentions m)) [UserQuestion, RiskApproval],
     ss_queue_state = qs_state (sm_queue m),
     ss_last_turn_outcome = unwrap_or OutUnknown (sm_last_outcome m),
     ss_pinned = False,
     ss_muted = False,
     ss_archived = False\<rparr>"

definition refresh_summary :: "session_mapper \<Rightarrow> session_mapper \<times> dm_event list" where
  "refresh_summary m = (let summary = session_summary_of m in
     if sm_last_summary m \<noteq> Some summary
     then (m\<lparr>sm_last_summary := Some summary\<rparr>, [DmSessionSummaryChanged summary]) else (m, []))"

section \<open>Snapshots and patches\<close>

definition load_state :: "u64 \<Rightarrow> json \<Rightarrow> session_mapper \<Rightarrow> session_mapper" where
  "load_state revision state m = m\<lparr>sm_revision := Some revision, sm_state := Some state,
     sm_unknown_keys := count_unknown_keys state, sm_facts := extract_facts state\<rparr>"

definition finish_snapshot :: "(int \<Rightarrow> string option) \<Rightarrow> json \<Rightarrow> session_mapper \<Rightarrow> session_mapper \<times> dm_event list" where
  "finish_snapshot tmo state m =
    (let (m1, e1) = apply_lifecycle state (drop_vanished state m);
         (m2, e2) = diff_attentions tmo state m1;
         (m3, e3) = refresh_summary m2
     in (m3, e1 @ e2 @ e3))"

definition apply_snapshot ::
    "(int \<Rightarrow> string option) \<Rightarrow> (string \<Rightarrow> nat) \<Rightarrow> u64 \<Rightarrow> json \<Rightarrow> session_mapper \<Rightarrow> (session_mapper \<times> dm_event list) option" where
  "apply_snapshot tmo clock revision state m =
    (let (tracks, sq) = new_tracks tmo (state_items state) (sm_next_seq m) [];
         m0 = (load_state revision state m)\<lparr>sm_next_seq := sq\<rparr>
     in map_option (\<lambda>(m1, e1). (case finish_snapshot tmo state m1 of (m2, e2) \<Rightarrow> (m2, e1 @ e2)))
          (merge_items tmo clock (sm_state m = None) state tracks m0))"

datatype patch_outcome = Applied "dm_event list" | ResyncNeeded

definition mapper_apply_patches ::
    "(int \<Rightarrow> string option) \<Rightarrow> (string \<Rightarrow> nat) \<Rightarrow> u64 \<Rightarrow> u64 \<Rightarrow> json list \<Rightarrow> session_mapper \<Rightarrow> (session_mapper \<times> patch_outcome) option" where
  "mapper_apply_patches tmo clock base_revision revision patches m =
    (if sm_revision m \<noteq> Some base_revision \<or> revision \<le> base_revision then Some (m, ResyncNeeded)
     else (case sm_state m of
       None \<Rightarrow> Some (m, ResyncNeeded)
     | Some previous \<Rightarrow> (case apply_immer_patches previous patches of
         (patched, Some _) \<Rightarrow> Some (m, ResyncNeeded)
       | (patched, None) \<Rightarrow> map_option (apsnd Applied) (apply_snapshot tmo clock revision patched m))))"

section \<open>The runtime snapshot\<close>

definition derive_running :: "json \<Rightarrow> running_command list" where
  "derive_running state = concat (map (\<lambda>(tid, turn).
     List.map_filter (\<lambda>v.
       if item_type_of v = ''commandExecution'' \<and> map_command_status (get_str ''status'' v) = CsRunning
       then map_option (\<lambda>i. \<lparr>rc_command_id = i, rc_item_id = Some (native_item_id v ''commandExecution''), rc_started_at = None\<rparr>)
              (get_str ''id'' v)
       else None) (turn_items_of turn))
     (filter (\<lambda>(tid, turn). turn_status_of turn = Some ''inProgress'') (collect_turns state)))"

definition derive_backgrounds :: "json \<Rightarrow> bg_command list" where
  "derive_backgrounds state = concat (map (\<lambda>(tid, turn).
     List.map_filter (\<lambda>v.
       if item_type_of v = ''commandExecution'' \<and> map_command_status (get_str ''status'' v) = CsRunning
       then Some \<lparr>bc_command_id = get_str ''id'' v, bc_item_id = Some (native_item_id v ''commandExecution''),
         bc_state = command_state_to_background CsRunning, bc_display = get_str ''command'' v,
         bc_started_at = None, bc_finished_at = None\<rparr>
       else None) (turn_items_of turn))
     (filter (\<lambda>(tid, turn). turn_status_of turn \<noteq> Some ''inProgress'') (collect_turns state)))"

definition latest_plan :: "json \<Rightarrow> plan_step list" where
  "latest_plan state =
    (case find (\<lambda>(tid, v). item_type_of v \<in> {''plan'', ''updatePlan''}) (state_items state) of
       Some (tid, v) \<Rightarrow> parse_plan (jget ''steps'' v) | None \<Rightarrow> [])"

definition recent_output_cursors :: "session_mapper \<Rightarrow> output_cursor list" where
  "recent_output_cursors m =
     map (\<lambda>(key, t). \<lparr>oc_item_id = key_to_item_id key, oc_revision = unwrap_or 0 (sm_revision m),
         oc_byte_length = length (tk_output t), oc_is_final = (tk_final_emitted t \<or> status_is_terminal (tk_status t)),
         oc_channel = ChCombined, oc_final_unavailable = (\<not> tk_output_present t)\<rparr>)
       (take 20 (rev (sort_key (\<lambda>(key, t). tk_seq t)
         (filter (\<lambda>(key, t). tk_output t \<noteq> [] \<or> tk_output_present t) (sm_items m)))))"

definition mapper_runtime_snapshot :: "(int \<Rightarrow> string option) \<Rightarrow> session_mapper \<Rightarrow> full_snapshot option" where
  "mapper_runtime_snapshot tmo m = map_option (\<lambda>state. \<lparr>
     rs_session_key = sm_session_key m,
     rs_runtime_revision = unwrap_or 0 (sm_revision m),
     rs_current_turn = map_option (\<lambda>t. \<lparr>cu_turn = t, cu_phase = sm_phase m, cu_started_at = None\<rparr>) (sm_current_turn m),
     rs_pending_questions = extract_questions tmo state,
     rs_pending_approvals = extract_approvals tmo state,
     rs_background_commands = derive_backgrounds state,
     rs_capabilities = (sm_capabilities m)\<lparr>cs_settings := extract_settings state (sm_phase m)\<rparr>,
     rs_plan = latest_plan state,
     rs_running_commands = derive_running state,
     rs_background_command_count = of_nat (length (derive_backgrounds state)),
     rs_queue = sm_queue m,
     rs_recent_output_cursors = recent_output_cursors m\<rparr>) (sm_state m)"

definition pending_request_questions :: "session_mapper \<Rightarrow> requests_question list" where
  "pending_request_questions m = unwrap_or [] (map_option extract_requests_questions_detail (sm_state m))"

end
