(* ===== verification/Mapper_Inv.thy ===== *)
theory Mapper_Inv
  imports Mapper
begin

text \<open>
  What the events of the session mapper are worth. The mapper never panics on well-formed values. A client that
  follows the output events has, for every command, the output of the last snapshot up to what is still buffered.
  The same holds for the questions and approvals. Nothing that leaves the mapper depends on the directory of the
  session beyond its last name.
\<close>

section \<open>Well-formed mappers do not panic\<close>

lemma utf8_char_width: "utf8_char c \<Longrightarrow> length c = utf8_width (hd c) \<and> c \<noteq> []"
  by (cases c) auto

lemma utf8_valid_rest: "utf8_valid xs \<Longrightarrow> utf8_valid (xs @ ys) \<Longrightarrow> utf8_valid ys"
proof (induction xs rule: utf8_valid.induct)
  case (1 xs)
  show ?case
  proof (cases "xs = []")
    case False
    let ?w = "utf8_width (hd xs)"
    have c: "utf8_char (take ?w xs)" "utf8_valid (drop ?w xs)"
      using "1.prems"(1) False by (subst (asm) utf8_valid.simps, simp split: if_splits)+
    have "hd (take ?w xs) = hd xs" using utf8_char_width [OF c(1)] by (cases ?w) auto
    then have "length (take ?w xs) = ?w" using utf8_char_width [OF c(1)] by simp
    then have w: "?w \<le> length xs" by simp
    have "utf8_valid (drop ?w (xs @ ys))"
      using "1.prems"(2) False by (subst (asm) utf8_valid.simps) (simp split: if_splits)
    then show ?thesis using "1.IH" [OF False c(1) c(2)] w by simp
  qed (use "1.prems" in simp)
qed

lemma utf8_valid_append: "utf8_valid xs \<Longrightarrow> utf8_valid ys \<Longrightarrow> utf8_valid (xs @ ys)"
  using utf8_valid_chars [of xs] utf8_valid_chars [of ys] utf8_valid_concat by (metis concat_append list_all_append)

lemma utf8_valid_Nil [simp]: "utf8_valid []"
  by (subst utf8_valid.simps) simp

definition track_ok :: "item_track \<Rightarrow> bool" where
  "track_ok t \<longleftrightarrow> utf8_valid (tk_output t)"

definition buffers_ok :: "session_mapper \<Rightarrow> bool" where
  "buffers_ok m \<longleftrightarrow> bt_ok (sm_pending m) \<and> (\<forall>k p. map_of (sm_pending m) k = Some p \<longrightarrow> utf8_valid (pd_buffer p)) \<and>
     sm_merge_policy m = merge_policy_default"

definition mapper_ok :: "session_mapper \<Rightarrow> bool" where
  "mapper_ok m \<longleftrightarrow> buffers_ok m \<and> bt_ok (sm_items m) \<and> (\<forall>k t. map_of (sm_items m) k = Some t \<longrightarrow> track_ok t) \<and>
     (\<forall>s. sm_state m = Some s \<longrightarrow> json_ok s)"

lemma map_of_delete [simp]: "map_of (AList.delete k m) = (map_of m)(k := None)"
  by (rule delete_conv')

lemma pending_ok_delete: "buffers_ok m \<Longrightarrow> buffers_ok (m\<lparr>sm_pending := AList.delete k (sm_pending m)\<rparr>)"
  by (auto simp: buffers_ok_def)

lemma take_pending_output_frame:
  "take_pending_output key m = Some (m', e) \<Longrightarrow>
     map_of (sm_pending m') = (map_of (sm_pending m))(key := None) \<and> m' = m\<lparr>sm_pending := sm_pending m'\<rparr>"
  by (auto simp: take_pending_output_def split: option.splits)

lemma take_pending_output_ok:
  assumes "buffers_ok m"
  obtains m' e where "take_pending_output key m = Some (m', e)" "buffers_ok m'"
proof (cases "map_of (sm_pending m) key")
  case None
  then show thesis using that assms by (simp add: take_pending_output_def)
next
  case (Some p)
  then obtain cs where "flush_chunks (mp_max_bytes (sm_merge_policy m)) (pd_expected_offset p) (pd_buffer p) = Some cs"
    using flush_chunks_ok [of "pd_buffer p" "mp_max_bytes (sm_merge_policy m)" "pd_expected_offset p"] assms
    by (auto simp: buffers_ok_def merge_policy_default_def)
  then show thesis using that Some pending_ok_delete [OF assms] by (simp add: take_pending_output_def)
qed

lemma maybe_flush_full_ok:
  assumes "buffers_ok m"
  obtains m' e where "maybe_flush_full key m = Some (m', e)" "buffers_ok m'"
  using take_pending_output_ok [OF assms, of key] assms unfolding maybe_flush_full_def by metis

lemma output_change_ok:
  assumes "buffers_ok m" "track_ok old_track" "track_ok new_track"
  obtains m' e where "output_change now key old_track new_track m = Some (m', e)" "buffers_ok m'"
proof (cases "length (tk_output new_track) \<noteq> length (tk_output old_track) \<and> prefix (tk_output old_track) (tk_output new_track)")
  case True
  define p where "p = (case map_of (sm_pending m) key of Some p \<Rightarrow> p
    | None \<Rightarrow> \<lparr>pd_expected_offset = length (tk_output old_track), pd_buffer = [], pd_queued_at = now\<rparr>)"
  define d where "d = drop (length (tk_output old_track)) (tk_output new_track)"
  define m1 where "m1 = m\<lparr>sm_pending := bt_insert key (p\<lparr>pd_buffer := pd_buffer p @ d\<rparr>) (sm_pending m)\<rparr>"
  from True obtain r where "tk_output new_track = tk_output old_track @ r" unfolding prefix_def by blast
  then have "utf8_valid d" using assms(2,3) utf8_valid_rest [of "tk_output old_track" r] by (simp add: track_ok_def d_def)
  moreover have "utf8_valid (pd_buffer p)"
    using assms(1) by (cases "map_of (sm_pending m) key") (simp_all add: p_def buffers_ok_def)
  ultimately have "utf8_valid (pd_buffer p @ d)" by (simp add: utf8_valid_append)
  then have "buffers_ok m1" using assms(1) by (simp add: buffers_ok_def m1_def)
  then obtain m' e where "maybe_flush_full key m1 = Some (m', e)" "buffers_ok m'" by (rule maybe_flush_full_ok)
  then show thesis using that True by (simp add: output_change_def Let_def m1_def p_def d_def)
next
  case False
  then show thesis using that assms(1) pending_ok_delete [OF assms(1), of key]
    by (cases "length (tk_output new_track) = length (tk_output old_track)") (simp_all add: output_change_def)
qed

lemma maybe_flush_full_frame:
  assumes "maybe_flush_full key m = Some (m', e)"
  shows "m' = m\<lparr>sm_pending := sm_pending m'\<rparr>" "k \<noteq> key \<Longrightarrow> map_of (sm_pending m') k = map_of (sm_pending m) k"
  using assms take_pending_output_frame [of key m m' e] by (auto simp: maybe_flush_full_def split: if_splits)

lemma output_change_frame:
  assumes "output_change now key old_track new_track m = Some (m', e)"
  shows "m' = m\<lparr>sm_pending := sm_pending m'\<rparr>"
proof -
  have "m' = m\<lparr>sm_pending := sm_pending m'\<rparr>" if "maybe_flush_full key (m\<lparr>sm_pending := P\<rparr>) = Some (m', e)" for P
    using maybe_flush_full_frame(1) [OF that] by simp
  then show ?thesis using assms by (auto simp: output_change_def Let_def split: if_splits)
qed

lemma output_delta_frame:
  assumes "output_delta_events now key old_track new_track m = Some (m', t, e)"
  shows "m' = m\<lparr>sm_pending := sm_pending m'\<rparr>" "tk_output t = tk_output new_track" "tk_native_type t = tk_native_type new_track"
proof -
  from assms show "tk_output t = tk_output new_track" "tk_native_type t = tk_native_type new_track"
    by (auto simp: output_delta_events_def split: if_splits option.splits prod.splits)
  have "m2 = m\<lparr>sm_pending := sm_pending m2\<rparr>"
    if c: "output_change now key old_track new_track m = Some (m1, e1)" "take_pending_output key m1 = Some (m2, e2)" for m1 e1 m2 e2
  proof -
    obtain P1 where "m1 = m\<lparr>sm_pending := P1\<rparr>" using output_change_frame [OF c(1)] by blast
    moreover obtain P2 where "m2 = m1\<lparr>sm_pending := P2\<rparr>" using take_pending_output_frame [OF c(2)] by blast
    ultimately show ?thesis by simp
  qed
  then show "m' = m\<lparr>sm_pending := sm_pending m'\<rparr>"
    using assms output_change_frame by (auto simp: output_delta_events_def split: if_splits option.splits prod.splits)
qed

lemma output_delta_ok:
  assumes "buffers_ok m" "track_ok old_track" "track_ok new_track"
  obtains m' t e where "output_delta_events now key old_track new_track m = Some (m', t, e)" "buffers_ok m'"
proof -
  obtain m1 e1 where 1: "output_change now key old_track new_track m = Some (m1, e1)" "buffers_ok m1"
    using output_change_ok [OF assms] by blast
  obtain m2 e2 where 2: "take_pending_output key m1 = Some (m2, e2)" "buffers_ok m2"
    using take_pending_output_ok [OF 1(2)] by blast
  show thesis
  proof (cases "is_output_item (tk_native_type new_track)")
    case True
    then show thesis using 1 2 that
      by (cases "status_is_terminal (tk_status new_track) \<and> \<not> status_is_terminal (tk_status old_track) \<and> \<not> tk_final_emitted new_track")
        (auto simp: output_delta_events_def)
  qed (use that assms(1) in \<open>simp add: output_delta_events_def\<close>)
qed

lemma mapper_ok_put: "mapper_ok m \<Longrightarrow> track_ok t \<Longrightarrow> mapper_ok (put_item key t m)"
  by (auto simp: mapper_ok_def put_item_def buffers_ok_def)

lemma mapper_ok_pending: "mapper_ok m \<Longrightarrow> buffers_ok (m\<lparr>sm_pending := P\<rparr>) \<Longrightarrow> mapper_ok (m\<lparr>sm_pending := P\<rparr>)"
  by (simp add: mapper_ok_def)

lemma merge_item_ok:
  assumes "mapper_ok m" "track_ok t"
  obtains m' e where "merge_item tmo now first state key t m = Some (m', e)" "mapper_ok m'" "sm_state m' = sm_state m"
proof (cases "map_of (sm_items m) key")
  case None
  then show thesis using that mapper_ok_put [OF assms] by (simp add: merge_item_def put_item_def)
next
  case (Some old)
  then have "buffers_ok m" "track_ok old" using assms(1) by (auto simp: mapper_ok_def)
  then obtain m1 t1 e1 where d: "output_delta_events now key old t m = Some (m1, t1, e1)" "buffers_ok m1"
    using output_delta_ok [of m old t] assms(2) by blast
  note fr = output_delta_frame [OF d(1)]
  have "mapper_ok m1" using mapper_ok_pending [OF assms(1), of "sm_pending m1"] d(2) fr(1) by metis
  moreover have "track_ok t1" using assms(2) fr(2) by (simp add: track_ok_def)
  moreover have "sm_state m1 = sm_state m" by (subst fr(1)) simp
  ultimately show thesis using that Some d(1) mapper_ok_put [of m1 t1 key]
    by (simp add: merge_item_def put_item_def)
qed

lemma merge_items_ok:
  assumes "mapper_ok m" "\<forall>kt\<in>set ts. track_ok (snd kt)"
  shows "\<exists>m' e. merge_items tmo clock first state ts m = Some (m', e) \<and> mapper_ok m' \<and> sm_state m' = sm_state m"
  using assms
proof (induction ts arbitrary: m)
  case (Cons kt ts)
  obtain key t where kt: "kt = (key, t)" by (cases kt)
  obtain m1 e1 where 1: "merge_item tmo (clock key) first state key t m = Some (m1, e1)" "mapper_ok m1" "sm_state m1 = sm_state m"
    using merge_item_ok [OF Cons.prems(1)] Cons.prems(2) kt by (metis list.set_intros(1) snd_conv)
  obtain m2 e2 where "merge_items tmo clock first state ts m1 = Some (m2, e2)" "mapper_ok m2" "sm_state m2 = sm_state m1"
    using Cons.IH [OF 1(2)] Cons.prems(2) by auto
  then show ?case using 1 kt by simp
qed simp

text \<open>The items of a well-formed state are well formed, and so are the tracks built from them.\<close>

lemma get_list_ok:
  assumes "json_ok v" "get_list k v = Some xs" "x \<in> set xs"
  shows "json_ok x"
proof (cases "jget k v")
  case (Some y)
  then have "json_ok y" "as_array y = Some xs" using assms(1,2) json_ok_get by (simp_all add: get_list_def)
  then show ?thesis using assms(3) by (rule json_ok_elem)
qed (use assms(2) in \<open>simp add: get_list_def\<close>)

lemma get_in_ok: "json_ok v \<Longrightarrow> get_in a b v = Some x \<Longrightarrow> json_ok x"
  by (cases "jget a v") (auto simp: get_in_def dest: json_ok_get)

lemma object_values_ok: "json_ok v \<Longrightarrow> as_object v = Some m \<Longrightarrow> x \<in> snd ` set m \<Longrightarrow> json_ok x"
  by (cases v) (auto simp: list_all_iff)

lemma history_turns_ok:
  assumes "json_ok state" "turn \<in> set (history_turns state)"
  shows "json_ok turn"
proof (cases "Option.bind (get_in ''turnHistory'' ''history'' state) (jget ''entitiesByKey'')")
  case (Some e)
  then obtain h where h: "get_in ''turnHistory'' ''history'' state = Some h" "jget ''entitiesByKey'' h = Some e"
    by (cases "get_in ''turnHistory'' ''history'' state") auto
  have ok: "json_ok e" using json_ok_get [OF get_in_ok [OF assms(1) h(1)] h(2)] .
  show ?thesis
  proof (cases "as_object e")
    case (Some m)
    then have "turn \<in> snd ` set m" using assms(2) h by (auto simp: history_turns_def)
    then show ?thesis by (rule object_values_ok [OF ok Some])
  qed (use assms(2) h in \<open>simp add: history_turns_def\<close>)
qed (use assms(2) in \<open>simp add: history_turns_def\<close>)

lemma extract_turns_ok: "json_ok state \<Longrightarrow> turn \<in> set (extract_turns state) \<Longrightarrow> json_ok turn"
  by (cases "get_list ''turns'' state")
    (auto simp: extract_turns_def split: if_splits intro: history_turns_ok dest: get_list_ok)

lemma turn_items_ok: "json_ok turn \<Longrightarrow> v \<in> set (turn_items_of turn) \<Longrightarrow> json_ok v"
  by (cases "get_list ''items'' turn") (auto simp: turn_items_of_def dest: get_list_ok)

lemma state_items_ok:
  assumes "json_ok state" "(tid, v) \<in> set (state_items state)"
  shows "json_ok v"
proof -
  from assms(2) obtain turn where t: "(tid, turn) \<in> set (collect_turns state)" "v \<in> set (turn_items_of turn)"
    by (auto simp: state_items_def)
  then have "turn \<in> set (extract_turns state)" by (auto simp: collect_turns_def in_set_enumerate_eq)
  then show ?thesis using turn_items_ok [OF extract_turns_ok [OF assms(1)] t(2)] by blast
qed

lemma build_track_ok: "json_ok v \<Longrightarrow> track_ok (build_track ty v it sq)"
  using json_ok_str [of v "''aggregatedOutput''"]
  by (auto simp: track_ok_def build_track_def command_output_def str_ok_def unwrap_or_def split: option.splits)

lemma new_tracks_ok:
  assumes "\<forall>(tid, v)\<in>set vs. json_ok v" "\<forall>kt\<in>set ts. track_ok (snd kt)" "bt_ok ts"
  shows "(\<forall>kt\<in>set (fst (new_tracks tmo vs sq ts)). track_ok (snd kt)) \<and> bt_ok (fst (new_tracks tmo vs sq ts))"
  using assms
proof (induction tmo vs sq ts rule: new_tracks.induct)
  case (2 tmo tid v vs sq ts)
  let ?it = "parse_item tmo (item_type_of v) v (Some tid) None"
  let ?k = "track_key (im_item_id ?it)"
  have ins: "\<forall>kt\<in>set (bt_insert ?k (build_track (item_type_of v) v ?it sq) ts). track_ok (snd kt)"
    using 2(3,4) build_track_ok [of v] bt_set_insert [of ?k "build_track (item_type_of v) v ?it sq" ts] by auto
  show ?case
  proof (cases "map_of ts ?k = None")
    case True
    then show ?thesis using "2.IH"(1) [OF refl refl True] 2(3,5) ins by (simp add: Let_def)
  next
    case False
    then show ?thesis using "2.IH"(2) [OF refl refl False] 2(3-5) by (auto simp: Let_def)
  qed
qed simp

lemma bt_ok_filter: "bt_ok m \<Longrightarrow> bt_ok (filter P m)"
  by (induction m) auto

lemma map_of_filter_key:
  "bt_ok m \<Longrightarrow> map_of (filter (\<lambda>kt. P (fst kt)) m) k = (if P k then map_of m k else None)"
  by (induction m) auto

abbreviation still_there :: "json \<Rightarrow> string \<Rightarrow> bool" where
  "still_there state k \<equiv> list_ex (has_item_id k) (state_items state)"

lemma finish_snapshot_keeps:
  assumes "finish_snapshot tmo state m = (m', e)"
  shows "sm_pending m' = sm_pending m" "sm_merge_policy m' = sm_merge_policy m" "sm_state m' = sm_state m"
    "sm_items m' = filter (\<lambda>kt. list_ex (has_item_id (fst kt)) (state_items state)) (sm_items m)"
  using assms
  by (auto simp: finish_snapshot_def apply_lifecycle_def drop_vanished_def diff_attentions_def refresh_summary_def Let_def
      split: if_splits)

lemma finish_snapshot_items:
  assumes "finish_snapshot tmo state m = (m', e)" "bt_ok (sm_items m)"
  shows "map_of (sm_items m') k = (if still_there state k then map_of (sm_items m) k else None)"
  using finish_snapshot_keeps(4) [OF assms(1)] map_of_filter_key [OF assms(2), of "still_there state"] by simp

lemma finish_snapshot_ok: "finish_snapshot tmo state m = (m', e) \<Longrightarrow> mapper_ok m \<Longrightarrow> mapper_ok m'"
  using finish_snapshot_keeps [of tmo state m m' e] finish_snapshot_items [of tmo state m m' e]
  by (simp add: mapper_ok_def buffers_ok_def bt_ok_filter)

lemma apply_snapshotE:
  assumes "mapper_ok m" "json_ok state"
  obtains ts sq m1 e1 m' e2 where "new_tracks tmo (state_items state) (sm_next_seq m) [] = (ts, sq)"
    "merge_items tmo clock (sm_state m = None) state ts ((load_state revision state m)\<lparr>sm_next_seq := sq\<rparr>) = Some (m1, e1)"
    "finish_snapshot tmo state m1 = (m', e2)" "apply_snapshot tmo clock revision state m = Some (m', e1 @ e2)" "mapper_ok m'"
    "sm_state m' = Some state"
proof -
  obtain ts sq where ts: "new_tracks tmo (state_items state) (sm_next_seq m) [] = (ts, sq)" by fastforce
  have tok: "\<forall>kt\<in>set ts. track_ok (snd kt)"
    using new_tracks_ok [of "state_items state" "[]" tmo "sm_next_seq m"] state_items_ok [OF assms(2)] ts by auto
  let ?m0 = "(load_state revision state m)\<lparr>sm_next_seq := sq\<rparr>"
  have "mapper_ok ?m0" using assms by (simp add: mapper_ok_def buffers_ok_def load_state_def)
  then obtain m1 e1 where m1: "merge_items tmo clock (sm_state m = None) state ts ?m0 = Some (m1, e1)" "mapper_ok m1"
    "sm_state m1 = sm_state ?m0" using merge_items_ok [OF _ tok] by blast
  obtain m' e2 where f: "finish_snapshot tmo state m1 = (m', e2)" by fastforce
  show thesis
    by (rule that [OF ts m1(1) f]) (use ts m1 f finish_snapshot_ok [OF f m1(2)] finish_snapshot_keeps(3) [OF f] in
      \<open>simp_all add: apply_snapshot_def load_state_def\<close>)
qed

section \<open>Runs\<close>

datatype mapper_step =
    MSnapshot "string \<Rightarrow> nat" u64 json
  | MPatches "string \<Rightarrow> nat" u64 u64 "json list"
  | MFlush nat
  | MCapabilities capability_set
  | MConnection device_connection
  | MQueue dm_queue_status

fun outcome_events :: "patch_outcome \<Rightarrow> dm_event list" where
  "outcome_events (Applied e) = e" | "outcome_events ResyncNeeded = []"

fun mapper_exec :: "(int \<Rightarrow> string option) \<Rightarrow> mapper_step \<Rightarrow> session_mapper \<Rightarrow> (session_mapper \<times> dm_event list) option" where
  "mapper_exec tmo (MSnapshot clock r s) m = apply_snapshot tmo clock r s m"
| "mapper_exec tmo (MPatches clock b r ps) m = map_option (apsnd outcome_events) (mapper_apply_patches tmo clock b r ps m)"
| "mapper_exec tmo (MFlush now) m = flush_due_outputs now m"
| "mapper_exec tmo (MCapabilities c) m = Some (set_capabilities c m, [])"
| "mapper_exec tmo (MConnection c) m = Some (mapper_set_device_connection c m, [])"
| "mapper_exec tmo (MQueue q) m = (case set_queue q m of (m', e) \<Rightarrow> Some (m', case e of None \<Rightarrow> [] | Some x \<Rightarrow> [x]))"

fun mapper_run :: "(int \<Rightarrow> string option) \<Rightarrow> mapper_step list \<Rightarrow> session_mapper \<Rightarrow> (session_mapper \<times> dm_event list) option" where
  "mapper_run tmo [] m = Some (m, [])"
| "mapper_run tmo (st # sts) m = (case mapper_exec tmo st m of
     None \<Rightarrow> None
   | Some (m1, e1) \<Rightarrow> map_option (apsnd ((@) e1)) (mapper_run tmo sts m1))"

fun step_input_ok :: "mapper_step \<Rightarrow> bool" where
  "step_input_ok (MSnapshot clock r s) = json_ok s"
| "step_input_ok (MPatches clock b r ps) = list_all json_ok ps"
| "step_input_ok _ = True"

lemma immer_keeps_ok: "json_ok s \<Longrightarrow> list_all json_ok ps \<Longrightarrow> json_ok (fst (apply_immer_patches s ps))"
  by (induction s ps rule: apply_immer_patches.induct) (auto split: sum.splits dest: apply_one_ok)

text \<open>When patches are applied: to the state of the base revision, all of them, as a snapshot of the new state.\<close>

lemma mapper_apply_patches_cases:
  obtains (resync) "mapper_apply_patches tmo clock b r ps m = Some (m, ResyncNeeded)"
  | (applied) previous patched where "sm_revision m = Some b" "b < r" "sm_state m = Some previous"
      "apply_immer_patches previous ps = (patched, None)"
      "mapper_apply_patches tmo clock b r ps m = map_option (apsnd Applied) (apply_snapshot tmo clock r patched m)"
proof (cases "sm_revision m \<noteq> Some b \<or> r \<le> b")
  case False
  show thesis
  proof (cases "sm_state m")
    case (Some previous)
    obtain patched err where p: "apply_immer_patches previous ps = (patched, err)" by fastforce
    show thesis
    proof (cases err)
      case None
      show thesis by (rule applied [of previous patched]) (use False Some p None in \<open>auto simp: mapper_apply_patches_def\<close>)
    qed (use resync False Some p in \<open>simp add: mapper_apply_patches_def\<close>)
  qed (use resync False in \<open>simp add: mapper_apply_patches_def\<close>)
qed (use resync in \<open>simp add: mapper_apply_patches_def\<close>)

lemma take_pending_outputs_ok:
  "mapper_ok m \<Longrightarrow> \<exists>m' e. take_pending_outputs keys m = Some (m', e) \<and> mapper_ok m' \<and> m' = m\<lparr>sm_pending := sm_pending m'\<rparr>"
proof (induction keys arbitrary: m)
  case (Cons key keys)
  then have "buffers_ok m" by (simp add: mapper_ok_def)
  then obtain m1 e1 where 1: "take_pending_output key m = Some (m1, e1)" "buffers_ok m1" by (rule take_pending_output_ok)
  obtain P where P: "m1 = m\<lparr>sm_pending := P\<rparr>" using take_pending_output_frame [OF 1(1)] by blast
  have "mapper_ok m1" using mapper_ok_pending [OF Cons.prems, of P] 1(2) P by simp
  then obtain m2 e2 where 2: "take_pending_outputs keys m1 = Some (m2, e2)" "mapper_ok m2" "m2 = m1\<lparr>sm_pending := sm_pending m2\<rparr>"
    using Cons.IH by blast
  then have "m2 = m\<lparr>sm_pending := sm_pending m2\<rparr>" using P by (metis session_mapper.surjective session_mapper.update_convs(11))
  then show ?case using 1 2 by simp
qed simp

lemma mapper_exec_ok:
  assumes "mapper_ok m" "step_input_ok st"
  shows "\<exists>m' e. mapper_exec tmo st m = Some (m', e) \<and> mapper_ok m'"
proof (cases st)
  case (MSnapshot clock r s)
  then have "json_ok s" using assms(2) by simp
  from apply_snapshotE [OF assms(1) this, of tmo clock r] show ?thesis using MSnapshot by (metis mapper_exec.simps(1))
next
  case (MPatches clock b r ps)
  show ?thesis
  proof (cases rule: mapper_apply_patches_cases [of tmo clock b r ps m])
    case (applied previous patched)
    have "json_ok patched"
      using immer_keeps_ok [of previous ps] applied(3,4) assms MPatches by (simp add: mapper_ok_def)
    from apply_snapshotE [OF assms(1) this, of tmo clock r] obtain m' e where "apply_snapshot tmo clock r patched m = Some (m', e)" "mapper_ok m'" by metis
    then show ?thesis using applied(5) MPatches by simp
  qed (use MPatches assms(1) in simp)
next
  case (MFlush now)
  then show ?thesis using take_pending_outputs_ok [OF assms(1)] by (fastforce simp: flush_due_outputs_def)
qed (use assms(1) in \<open>auto simp: mapper_ok_def buffers_ok_def set_capabilities_def mapper_set_device_connection_def
  set_queue_def\<close>)

lemma mapper_run_ok:
  assumes "mapper_ok m" "list_all step_input_ok sts"
  shows "\<exists>m' e. mapper_run tmo sts m = Some (m', e) \<and> mapper_ok m'"
  using assms
proof (induction sts arbitrary: m)
  case (Cons st sts)
  obtain m1 e1 where 1: "mapper_exec tmo st m = Some (m1, e1)" "mapper_ok m1"
    using mapper_exec_ok [OF Cons.prems(1)] Cons.prems(2) by fastforce
  obtain m2 e2 where "mapper_run tmo sts m1 = Some (m2, e2)" "mapper_ok m2" using Cons.IH [OF 1(2)] Cons.prems(2) by auto
  then show ?case using 1 by simp
qed simp

lemma mapper_new_ok: "mapper_ok (mapper_new key)"
  by (simp add: mapper_ok_def buffers_ok_def mapper_new_def)

section \<open>A client that follows the output\<close>

text \<open>
  The client keeps the bytes of every item. It takes an extension only at its own offset and a final event only
  with its own length; otherwise it is lost (\<open>None\<close>).
\<close>

fun view_event :: "dm_event \<Rightarrow> (item_id \<Rightarrow> bytes) \<Rightarrow> (item_id \<Rightarrow> bytes) option" where
  "view_event (DmOutputAppend i off b c) v = (if off = length (v i) then Some (v(i := v i @ b)) else None)"
| "view_event (DmOutputReplace i r b c) v = Some (v(i := b))"
| "view_event (DmOutputFinal i r n c u) v = (if n = length (v i) then Some v else None)"
| "view_event _ v = Some v"

fun view_events :: "dm_event list \<Rightarrow> (item_id \<Rightarrow> bytes) \<Rightarrow> (item_id \<Rightarrow> bytes) option" where
  "view_events [] v = Some v"
| "view_events (e # es) v = (case view_event e v of None \<Rightarrow> None | Some v' \<Rightarrow> view_events es v')"

text \<open>What the client has and what is in the buffer make up the output.\<close>

definition synced :: "pending_output option \<Rightarrow> bytes \<Rightarrow> bytes \<Rightarrow> bool" where
  "synced p seen out \<longleftrightarrow> (case p of
     None \<Rightarrow> seen = out
   | Some p \<Rightarrow> pd_expected_offset p = length seen \<and> pd_buffer p \<noteq> [] \<and> seen @ pd_buffer p = out)"

definition out_of :: "session_mapper \<Rightarrow> string \<Rightarrow> bytes" where
  "out_of m k = (case map_of (sm_items m) k of
     Some t \<Rightarrow> if is_output_item (tk_native_type t) then tk_output t else [] | None \<Rightarrow> [])"

definition view_in_step :: "session_mapper \<Rightarrow> (item_id \<Rightarrow> bytes) \<Rightarrow> bool" where
  "view_in_step m v \<longleftrightarrow> (\<forall>k. synced (map_of (sm_pending m) k) (v (key_to_item_id k)) (out_of m k))"

lemma key_of_item_id:
  "k = (if ii_synthetic (key_to_item_id k) then ii_id (key_to_item_id k) @ '':unnamed'' else ii_id (key_to_item_id k))"
proof (cases "suffix '':unnamed'' k")
  case True
  then have "take (length k - length '':unnamed'') k @ '':unnamed'' = k" by (auto simp: suffix_def)
  then show ?thesis using True by (simp only: key_to_item_id_def strip_suffix_def item_synthetic_def) simp
qed (simp add: key_to_item_id_def strip_suffix_def item_native_def)

lemma key_to_item_id_inj: "key_to_item_id k = key_to_item_id k' \<longleftrightarrow> k = k'"
  using key_of_item_id [of k] key_of_item_id [of k'] by metis

lemma view_events_append:
  "view_events (xs @ ys) v = (case view_events xs v of None \<Rightarrow> None | Some v' \<Rightarrow> view_events ys v')"
  by (induction xs arbitrary: v) (auto split: option.splits)

lemma view_chunks:
  assumes "flush_chunks mx off bs = Some cs" "off = length (v i)"
  shows "view_events (map (\<lambda>(off, c). DmOutputAppend i off c ChCombined) cs) v = Some (v(i := v i @ bs))"
  using assms
proof (induction mx off bs arbitrary: cs v rule: flush_chunks.induct)
  case (1 mx off bs)
  show ?case
  proof (cases "bs = []")
    case False
    from "1.prems"(1) False obtain c r cs' where s: "split_utf8_safe mx bs = Some (c, r)"
        "flush_chunks mx (off + length c) r = Some cs'" "cs = (off, c) # cs'"
      by (subst (asm) flush_chunks.simps) (auto split: option.splits)
    have "c @ r = bs" using s(1) by (auto simp: split_utf8_safe_def Let_def split: if_splits)
    moreover have "view_events (map (\<lambda>(off, c). DmOutputAppend i off c ChCombined) cs') (v(i := v i @ c)) =
        Some ((v(i := v i @ c))(i := (v(i := v i @ c)) i @ r))"
      by (rule "1.IH" [OF False s(1) refl s(2)]) (simp add: "1.prems"(2))
    ultimately show ?thesis using s(3) "1.prems"(2) by (simp del: fun_upd_apply add: fun_upd_same)
  qed (use "1.prems" in \<open>simp add: flush_chunks.simps\<close>)
qed

text \<open>Events about one item: what they leave of the others, and the item's new output.\<close>

definition shows_item :: "string \<Rightarrow> bytes \<Rightarrow> session_mapper \<Rightarrow> (item_id \<Rightarrow> bytes) \<Rightarrow> session_mapper \<Rightarrow> dm_event list \<Rightarrow> bool" where
  "shows_item key out m v m' e \<longleftrightarrow> (\<exists>v'. view_events e v = Some v' \<and> (\<forall>k. k \<noteq> key \<longrightarrow>
       v' (key_to_item_id k) = v (key_to_item_id k) \<and> map_of (sm_pending m') k = map_of (sm_pending m) k) \<and>
     synced (map_of (sm_pending m') key) (v' (key_to_item_id key)) out)"

lemma shows_itemI:
  assumes "view_events e v = Some (v(key_to_item_id key := w))" "synced (map_of (sm_pending m') key) w out"
    "\<And>k. k \<noteq> key \<Longrightarrow> map_of (sm_pending m') k = map_of (sm_pending m) k"
  shows "shows_item key out m v m' e"
  using assms by (auto simp: shows_item_def key_to_item_id_inj)

lemma take_pending_shows:
  assumes "take_pending_output key m = Some (m', e)" "synced (map_of (sm_pending m) key) (v (key_to_item_id key)) out"
  shows "view_events e v = Some (v(key_to_item_id key := out))"
proof (cases "map_of (sm_pending m) key")
  case None
  then show ?thesis using assms by (auto simp: take_pending_output_def synced_def)
next
  case (Some p)
  then obtain cs where cs: "flush_chunks (mp_max_bytes (sm_merge_policy m)) (pd_expected_offset p) (pd_buffer p) = Some cs"
    "e = map (\<lambda>(off, c). DmOutputAppend (key_to_item_id key) off c ChCombined) cs"
    using assms(1) by (auto simp: take_pending_output_def)
  then show ?thesis using view_chunks [OF cs(1)] Some assms(2) by (simp add: synced_def)
qed

lemma maybe_flush_shows:
  assumes "maybe_flush_full key m = Some (m', e)" "synced (map_of (sm_pending m) key) (v (key_to_item_id key)) out"
  shows "shows_item key out m v m' e"
proof (cases "e = [] \<and> m' = m")
  case True
  then show ?thesis using assms(2) by (auto simp: shows_item_def)
next
  case False
  then have t: "take_pending_output key m = Some (m', e)" using assms(1) by (auto simp: maybe_flush_full_def split: if_splits)
  show ?thesis
    by (rule shows_itemI [OF take_pending_shows [where v = v, OF t assms(2)]]) (use take_pending_output_frame [OF t] in \<open>auto simp: synced_def\<close>)
qed

lemma output_change_shows:
  assumes "output_change now key old_track new_track m = Some (m', e)"
    "synced (map_of (sm_pending m) key) (v (key_to_item_id key)) (tk_output old_track)" "bt_ok (sm_pending m)"
    "length (tk_output new_track) = length (tk_output old_track) \<Longrightarrow> tk_output new_track = tk_output old_track"
  shows "shows_item key (tk_output new_track) m v m' e"
proof -
  consider (same) "length (tk_output new_track) = length (tk_output old_track)"
    | (ext) "length (tk_output new_track) \<noteq> length (tk_output old_track)" "prefix (tk_output old_track) (tk_output new_track)"
    | (repl) "length (tk_output new_track) \<noteq> length (tk_output old_track)" "\<not> prefix (tk_output old_track) (tk_output new_track)"
    by blast
  then show ?thesis
  proof cases
    case same
    then show ?thesis using assms by (auto simp: output_change_def shows_item_def)
  next
    case ext
    define p where "p = (case map_of (sm_pending m) key of Some p \<Rightarrow> p
      | None \<Rightarrow> \<lparr>pd_expected_offset = length (tk_output old_track), pd_buffer = [], pd_queued_at = now\<rparr>)"
    define d where "d = drop (length (tk_output old_track)) (tk_output new_track)"
    define m1 where "m1 = m\<lparr>sm_pending := bt_insert key (p\<lparr>pd_buffer := pd_buffer p @ d\<rparr>) (sm_pending m)\<rparr>"
    have f: "maybe_flush_full key m1 = Some (m', e)"
      using assms(1) ext by (simp add: output_change_def Let_def m1_def p_def d_def)
    have "pd_expected_offset p = length (v (key_to_item_id key)) \<and> v (key_to_item_id key) @ pd_buffer p = tk_output old_track"
      using assms(2) by (cases "map_of (sm_pending m) key") (simp_all add: synced_def p_def)
    moreover have "tk_output new_track = tk_output old_track @ d" "d \<noteq> []" using ext by (auto simp: d_def prefix_def)
    ultimately have "synced (map_of (sm_pending m1) key) (v (key_to_item_id key)) (tk_output new_track)"
      using assms(3) by (auto simp: synced_def m1_def)
    from maybe_flush_shows [where v = v, OF f this] show ?thesis using assms(3) by (auto simp: shows_item_def m1_def)
  next
    case repl
    show ?thesis by (rule shows_itemI [where w = "tk_output new_track"])
      (use assms(1,3) repl in \<open>auto simp: output_change_def synced_def\<close>)
  qed
qed

definition track_out :: "item_track \<Rightarrow> bytes" where
  "track_out t = (if is_output_item (tk_native_type t) then tk_output t else [])"

lemma out_of_track: "map_of (sm_items m) k = Some t \<Longrightarrow> out_of m k = track_out t"
  by (simp add: out_of_def track_out_def)

lemma out_of_untracked: "map_of (sm_items m) k = None \<Longrightarrow> out_of m k = []"
  by (simp add: out_of_def)

lemma shows_item_then:
  assumes "shows_item key out m v m' e" "\<And>v'. view_events e' v' = Some v'"
  shows "shows_item key out m v m' (e @ e')"
  using assms by (auto simp: shows_item_def view_events_append)

lemma output_delta_shows:
  assumes "output_delta_events now key old_track new_track m = Some (m', t, e)"
    "synced (map_of (sm_pending m) key) (v (key_to_item_id key)) (track_out old_track)" "bt_ok (sm_pending m)"
    "tk_native_type new_track = tk_native_type old_track"
    "length (tk_output new_track) = length (tk_output old_track) \<Longrightarrow> tk_output new_track = tk_output old_track"
  shows "shows_item key (track_out new_track) m v m' e"
proof (cases "is_output_item (tk_native_type new_track)")
  case False
  then show ?thesis using assms by (auto simp: output_delta_events_def shows_item_def track_out_def)
next
  case True
  then obtain m1 e1 where c: "output_change now key old_track new_track m = Some (m1, e1)"
    using assms(1) by (auto simp: output_delta_events_def split: option.splits)
  have s: "shows_item key (tk_output new_track) m v m1 e1"
    by (rule output_change_shows [OF c _ assms(3,5)]) (use assms(2,4) True in \<open>simp_all add: track_out_def\<close>)
  show ?thesis
  proof (cases "status_is_terminal (tk_status new_track) \<and> \<not> status_is_terminal (tk_status old_track) \<and> \<not> tk_final_emitted new_track")
    case False
    then show ?thesis using assms(1) c s True by (auto simp: output_delta_events_def track_out_def)
  next
    case terminal: True
    then obtain e2 where t: "take_pending_output key m1 = Some (m', e2)"
      and e: "e = e1 @ e2 @ [DmOutputFinal (key_to_item_id key) 0 (length (tk_output new_track)) ChCombined (\<not> tk_output_present new_track)]"
      using assms(1) c True by (auto simp: output_delta_events_def split: option.splits)
    from s obtain v1 where v1: "view_events e1 v = Some v1"
      "\<And>k. k \<noteq> key \<Longrightarrow> v1 (key_to_item_id k) = v (key_to_item_id k) \<and> map_of (sm_pending m1) k = map_of (sm_pending m) k"
      "synced (map_of (sm_pending m1) key) (v1 (key_to_item_id key)) (tk_output new_track)"
      by (auto simp: shows_item_def)
    have "view_events e v = Some (v1(key_to_item_id key := tk_output new_track))"
      using v1(1) take_pending_shows [where v = v1, OF t v1(3)] by (simp add: e view_events_append)
    then show ?thesis
      using v1(2) take_pending_output_frame [OF t] True
      by (auto simp: shows_item_def synced_def track_out_def key_to_item_id_inj)
  qed
qed

lemma find_item_still_there: "find_item tmo state key = None \<longleftrightarrow> \<not> still_there state key"
  by (auto simp: find_item_def find_None_iff list_ex_iff)

text \<open>What a snapshot does to the output of an item that is still there, and of one that is not.\<close>

definition out_in :: "json \<Rightarrow> session_mapper \<Rightarrow> string \<Rightarrow> bytes" where
  "out_in state m k = (if still_there state k then out_of m k else [])"

definition steady_item :: "json \<Rightarrow> session_mapper \<Rightarrow> string \<Rightarrow> item_track \<Rightarrow> bool" where
  "steady_item state m k t = (case map_of (sm_items m) k of
     None \<Rightarrow> True
   | Some old \<Rightarrow> tk_native_type t = tk_native_type old \<and> (is_output_item (tk_native_type old) \<longrightarrow> still_there state k) \<and>
       (length (tk_output t) = length (tk_output old) \<longrightarrow> tk_output t = tk_output old))"

lemma new_item_shows:
  assumes "synced (map_of (sm_pending m) key) (v (key_to_item_id key)) []"
  shows "shows_item key (track_out t) m v m (output_events_for_new_snapshot_item key t)"
proof -
  have n: "map_of (sm_pending m) key = None" "v (key_to_item_id key) = []"
    using assms by (auto simp: synced_def split: option.splits)
  show ?thesis
    by (rule shows_itemI [where w = "track_out t"])
      (use n in \<open>auto simp: output_events_for_new_snapshot_item_def track_out_def synced_def\<close>)
qed

lemma merge_item_shows:
  assumes m: "merge_item tmo now False state key t m = Some (m', e)"
    and v: "synced (map_of (sm_pending m) key) (v (key_to_item_id key)) (out_in state m key)"
    and ok: "mapper_ok m" and steady: "steady_item state m key t"
  shows "shows_item key (out_in state m' key) m v m' e"
proof (cases "map_of (sm_items m) key")
  case None
  have items: "map_of (sm_items m') key = Some t" and p: "sm_pending m' = sm_pending m"
    using m ok None by (auto simp: merge_item_def put_item_def mapper_ok_def)
  have s0: "synced (map_of (sm_pending m) key) (v (key_to_item_id key)) []"
    using v out_of_untracked [OF None] by (simp add: out_in_def split: if_splits)
  show ?thesis
  proof (cases "find_item tmo state key")
    case None
    then show ?thesis using m \<open>map_of (sm_items m) key = None\<close> s0 p find_item_still_there [of tmo state key]
      by (simp add: merge_item_def out_in_def shows_item_def)
  next
    case (Some it)
    then have "e = DmItemUpsert it # output_events_for_new_snapshot_item key t"
      using m \<open>map_of (sm_items m) key = None\<close> by (simp add: merge_item_def)
    moreover have "out_in state m' key = track_out t"
      using Some find_item_still_there [of tmo state key] out_of_track [OF items] by (auto simp: out_in_def)
    ultimately show ?thesis using new_item_shows [where v = v, OF s0, of t] p by (simp add: shows_item_def)
  qed
next
  case (Some old)
  then obtain m1 t1 e1 where d: "output_delta_events now key old t m = Some (m1, t1, e1)" and m': "m' = put_item key t1 m1"
    and e: "e = e1 @ (if tk_status old \<noteq> tk_status t \<or> tk_content_len old \<noteq> tk_content_len t \<or> length (tk_output old) \<noteq> length (tk_output t)
      then (case find_item tmo state key of Some it \<Rightarrow> [DmItemUpsert it] | None \<Rightarrow> []) else [])"
    using m by (auto simp: merge_item_def Let_def)
  note fr = output_delta_frame [OF d]
  have st: "tk_native_type t = tk_native_type old" "is_output_item (tk_native_type old) \<Longrightarrow> still_there state key"
    "length (tk_output t) = length (tk_output old) \<Longrightarrow> tk_output t = tk_output old"
    using steady Some by (auto simp: steady_item_def)
  have "out_in state m key = track_out old"
    using st(2) out_of_track [OF Some] by (auto simp: out_in_def track_out_def)
  then have "synced (map_of (sm_pending m) key) (v (key_to_item_id key)) (track_out old)" using v by simp
  from output_delta_shows [where v = v, OF d this _ st(1,3)] ok
  have "shows_item key (track_out t) m v m1 e1" by (simp add: mapper_ok_def buffers_ok_def)
  then have "shows_item key (track_out t) m v m1 e" unfolding e
    by (rule shows_item_then) (auto split: option.splits)
  moreover have "bt_ok (sm_items m1)" by (subst fr(1)) (use ok in \<open>simp add: mapper_ok_def\<close>)
  then have "map_of (sm_items m') key = Some t1" "sm_pending m' = sm_pending m1" by (simp_all add: m' put_item_def)
  moreover from this(1) have "out_in state m' key = track_out t"
    using fr(2,3) st(1,2) out_of_track [of m' key t1] by (auto simp: out_in_def track_out_def)
  ultimately show ?thesis by (simp add: shows_item_def)
qed

lemma merge_item_frame:
  assumes "merge_item tmo now first state key t m = Some (m', e)" "mapper_ok m" "k \<noteq> key"
  shows "map_of (sm_items m') k = map_of (sm_items m) k"
proof (cases "map_of (sm_items m) key")
  case None
  then show ?thesis using assms by (auto simp: merge_item_def put_item_def mapper_ok_def)
next
  case (Some old)
  then obtain m1 t1 e1 where d: "output_delta_events now key old t m = Some (m1, t1, e1)" "m' = put_item key t1 m1"
    using assms(1) by (auto simp: merge_item_def Let_def)
  have "sm_items m1 = sm_items m" by (subst output_delta_frame(1) [OF d(1)]) simp
  then show ?thesis using d(2) assms(2,3) by (simp add: put_item_def mapper_ok_def)
qed

definition followed :: "json \<Rightarrow> session_mapper \<Rightarrow> (item_id \<Rightarrow> bytes) \<Rightarrow> bool" where
  "followed state m v \<longleftrightarrow> (\<forall>k. synced (map_of (sm_pending m) k) (v (key_to_item_id k)) (out_in state m k))"

lemma shows_item_followed:
  assumes "shows_item key (out_in state m' key) m v m' e" "followed state m v"
    "\<And>k. k \<noteq> key \<Longrightarrow> map_of (sm_items m') k = map_of (sm_items m) k"
  obtains v' where "view_events e v = Some v'" "followed state m' v'"
proof -
  from assms(1) obtain v' where v': "view_events e v = Some v'"
    "\<And>k. k \<noteq> key \<Longrightarrow> v' (key_to_item_id k) = v (key_to_item_id k) \<and> map_of (sm_pending m') k = map_of (sm_pending m) k"
    "synced (map_of (sm_pending m') key) (v' (key_to_item_id key)) (out_in state m' key)" by (auto simp: shows_item_def)
  have "synced (map_of (sm_pending m') k) (v' (key_to_item_id k)) (out_in state m' k)" for k
  proof (cases "k = key")
    case False
    then have "out_in state m' k = out_in state m k" using assms(3) by (simp add: out_in_def out_of_def)
    then show ?thesis using False v'(2) assms(2) by (simp add: followed_def)
  qed (use v'(3) in simp)
  then show thesis using that v'(1) by (simp add: followed_def)
qed

lemma merge_items_follow:
  assumes "merge_items tmo clock False state ts m = Some (m', e)" "mapper_ok m" "followed state m v" "bt_ok ts"
    "\<forall>(k, t)\<in>set ts. track_ok t \<and> steady_item state m k t"
  shows "\<exists>v'. view_events e v = Some v' \<and> followed state m' v'"
  using assms
proof (induction ts arbitrary: m v e)
  case (Cons kt ts)
  obtain key t where kt: "kt = (key, t)" by (cases kt)
  with Cons.prems(1) obtain m1 e1 e2 where 1: "merge_item tmo (clock key) False state key t m = Some (m1, e1)"
    "merge_items tmo clock False state ts m1 = Some (m', e2)" "e = e1 @ e2"
    by (auto split: option.splits)
  have t: "track_ok t" "steady_item state m key t" using Cons.prems(5) kt by auto
  obtain m1' e1' where "merge_item tmo (clock key) False state key t m = Some (m1', e1')" "mapper_ok m1'"
    using merge_item_ok [OF Cons.prems(2) t(1)] by metis
  then have ok1: "mapper_ok m1" using 1(1) by simp
  note fr = merge_item_frame [OF 1(1) Cons.prems(2)]
  have "shows_item key (out_in state m1 key) m v m1 e1"
    by (rule merge_item_shows [OF 1(1) _ Cons.prems(2) t(2)]) (use Cons.prems(3) in \<open>simp add: followed_def\<close>)
  then obtain v1 where v1: "view_events e1 v = Some v1" "followed state m1 v1"
    using shows_item_followed [OF _ Cons.prems(3) fr] by blast
  have "steady_item state m1 k t'" if "(k, t') \<in> set ts" for k t'
  proof -
    have "k \<noteq> key" using that Cons.prems(4) kt by force
    then show ?thesis using that Cons.prems(5) fr [of k] by (auto simp: steady_item_def)
  qed
  then have all: "\<forall>(k, t)\<in>set ts. track_ok t \<and> steady_item state m1 k t" using Cons.prems(5) by auto
  obtain v2 where "view_events e2 v1 = Some v2" "followed state m' v2"
    using Cons.IH [OF 1(2) ok1 v1(2) _ all] Cons.prems(4) by auto
  then show ?case using v1(1) 1(3) by (simp add: view_events_append)
qed simp

lemma finish_snapshot_silent: "finish_snapshot tmo state m = (m', e) \<Longrightarrow> view_events e v = Some v"
proof -
  have "view_events (map (\<lambda>(i, kind). DmPendingAttentionRemoved kind i None) xs) v = Some v" for xs
    by (induction xs) auto
  moreover have "view_events (List.map_filter (\<lambda>(i, kind). if P i then None else map_option DmPendingAttentionAdded (f i kind)) xs) v = Some v"
    for P f and xs :: "(string \<times> attention_kind) list"
    by (induction xs) (auto simp: map_filter_simps split: option.splits if_splits)
  ultimately show "finish_snapshot tmo state m = (m', e) \<Longrightarrow> view_events e v = Some v"
    by (auto simp: finish_snapshot_def apply_lifecycle_def diff_attentions_def refresh_summary_def Let_def view_events_append
        split: if_splits)
qed

text \<open>
  A snapshot is steady for a mapper when every command the mapper knows is still among its items, no item changes
  its type, and no output changes without changing its length.
\<close>

definition steady :: "(int \<Rightarrow> string option) \<Rightarrow> json \<Rightarrow> session_mapper \<Rightarrow> bool" where
  "steady tmo state m \<longleftrightarrow>
     list_all (\<lambda>(k, t). is_output_item (tk_native_type t) \<longrightarrow> still_there state k) (sm_items m) \<and>
     list_all (\<lambda>(k, t). steady_item state m k t) (fst (new_tracks tmo (state_items state) (sm_next_seq m) []))"

lemma apply_snapshot_follow:
  assumes "mapper_ok m" "json_ok state" "steady tmo state m" "sm_state m \<noteq> None" "view_in_step m v"
  obtains m' e v' where "apply_snapshot tmo clock revision state m = Some (m', e)" "mapper_ok m'" "sm_state m' \<noteq> None"
    "view_events e v = Some v'" "view_in_step m' v'"
proof (rule apply_snapshotE [OF assms(1,2), of tmo clock revision])
  fix ts sq m1 e1 m' e2
  let ?m0 = "(load_state revision state m)\<lparr>sm_next_seq := sq\<rparr>"
  assume ts: "new_tracks tmo (state_items state) (sm_next_seq m) [] = (ts, sq)"
    and m1: "merge_items tmo clock (sm_state m = None) state ts ?m0 = Some (m1, e1)"
    and f: "finish_snapshot tmo state m1 = (m', e2)"
    and a: "apply_snapshot tmo clock revision state m = Some (m', e1 @ e2)" "mapper_ok m'" "sm_state m' = Some state"
  have m1: "merge_items tmo clock False state ts ?m0 = Some (m1, e1)" using m1 assms(4) by auto
  have t: "bt_ok ts" "\<forall>kt\<in>set ts. track_ok (snd kt)"
    using new_tracks_ok [of "state_items state" "[]" tmo "sm_next_seq m"] state_items_ok [OF assms(2)] ts by auto
  have ok0: "mapper_ok ?m0" using assms(1,2) by (simp add: mapper_ok_def buffers_ok_def load_state_def)
  have out: "out_in state ?m0 k = out_of m k" for k
  proof (cases "map_of (sm_items m) k")
    case (Some t)
    then have "is_output_item (tk_native_type t) \<longrightarrow> still_there state k"
      using assms(3) map_of_SomeD [OF Some] by (auto simp: steady_def list_all_iff)
    then show ?thesis using Some by (auto simp: out_in_def out_of_def load_state_def)
  qed (auto simp: out_in_def out_of_def load_state_def)
  have "sm_pending ?m0 = sm_pending m" by (simp add: load_state_def)
  then have fol: "followed state ?m0 v" using assms(5) by (simp only: followed_def view_in_step_def out simp_thms)
  have steady: "\<forall>(k, t)\<in>set ts. track_ok t \<and> steady_item state ?m0 k t"
    using assms(3) t(2) ts by (auto simp: steady_def list_all_iff steady_item_def load_state_def)
  obtain v' where v': "view_events e1 v = Some v'" "followed state m1 v'"
    using merge_items_follow [OF m1 ok0 fol t(1) steady] by blast
  obtain m1' e1' where "merge_items tmo clock False state ts ?m0 = Some (m1', e1')" "mapper_ok m1'"
    using merge_items_ok [OF ok0 t(2)] by metis
  then have bt: "bt_ok (sm_items m1)" using m1 by (simp add: mapper_ok_def)
  have "out_of m' k = out_in state m1 k" for k
    using finish_snapshot_items [OF f bt] by (simp add: out_of_def out_in_def)
  then have "view_in_step m' v'" using v'(2) finish_snapshot_keeps(1) [OF f] by (simp add: view_in_step_def followed_def)
  moreover have "view_events (e1 @ e2) v = Some v'"
    using v'(1) finish_snapshot_silent [OF f] by (simp add: view_events_append)
  ultimately show thesis using that a by auto
qed

lemma take_pending_outputs_follow:
  assumes "mapper_ok m" "view_in_step m v" "take_pending_outputs keys m = Some (m', e)"
  shows "\<exists>v'. view_events e v = Some v' \<and> view_in_step m' v'"
  using assms
proof (induction keys arbitrary: m v e)
  case (Cons key keys)
  then obtain m1 e1 e2 where 1: "take_pending_output key m = Some (m1, e1)"
    "take_pending_outputs keys m1 = Some (m', e2)" "e = e1 @ e2" by (auto split: option.splits)
  note fr = take_pending_output_frame [OF 1(1)]
  have items: "sm_items m1 = sm_items m" by (subst conjunct2 [OF fr]) simp
  obtain m1' e1' where "take_pending_output key m = Some (m1', e1')" "buffers_ok m1'"
    using take_pending_output_ok [of m] Cons.prems(1) by (metis mapper_ok_def)
  then have "buffers_ok m1" using 1(1) by simp
  then have ok: "mapper_ok m1" using mapper_ok_pending [OF Cons.prems(1), of "sm_pending m1"] fr by metis
  have s: "synced (map_of (sm_pending m) key) (v (key_to_item_id key)) (out_of m key)"
    using Cons.prems(2) by (simp add: view_in_step_def)
  let ?v = "v(key_to_item_id key := out_of m key)"
  have "view_events e1 v = Some ?v" by (rule take_pending_shows [where v = v, OF 1(1) s])
  moreover have "view_in_step m1 ?v"
    using Cons.prems(2) fr items by (auto simp: view_in_step_def synced_def out_of_def key_to_item_id_inj)
  ultimately show ?case using Cons.IH [OF ok _ 1(2)] 1(3) by (auto simp: view_events_append)
qed simp

text \<open>Every snapshot of a run, and every state that patches give, is steady where it is applied.\<close>

fun steady_step :: "(int \<Rightarrow> string option) \<Rightarrow> mapper_step \<Rightarrow> session_mapper \<Rightarrow> bool" where
  "steady_step tmo (MSnapshot clock r s) m = steady tmo s m"
| "steady_step tmo (MPatches clock b r ps) m = (case sm_state m of
     None \<Rightarrow> True | Some s \<Rightarrow> steady tmo (fst (apply_immer_patches s ps)) m)"
| "steady_step tmo st m = True"

fun steady_run :: "(int \<Rightarrow> string option) \<Rightarrow> mapper_step list \<Rightarrow> session_mapper \<Rightarrow> bool" where
  "steady_run tmo [] m = True"
| "steady_run tmo (st # sts) m = (steady_step tmo st m \<and>
     (case mapper_exec tmo st m of None \<Rightarrow> True | Some (m1, e1) \<Rightarrow> steady_run tmo sts m1))"

lemma mapper_exec_follow:
  assumes "mapper_ok m" "step_input_ok st" "steady_step tmo st m" "sm_state m \<noteq> None" "view_in_step m v"
  obtains m' e v' where "mapper_exec tmo st m = Some (m', e)" "mapper_ok m'" "sm_state m' \<noteq> None"
    "view_events e v = Some v'" "view_in_step m' v'"
proof (cases st)
  case (MSnapshot clock r s)
  then have "json_ok s" "steady tmo s m" using assms(2,3) by simp_all
  from apply_snapshot_follow [OF assms(1) this assms(4,5), of clock r] show thesis
    using that MSnapshot by (metis mapper_exec.simps(1))
next
  case (MPatches clock b r ps)
  show thesis
  proof (cases rule: mapper_apply_patches_cases [of tmo clock b r ps m])
    case (applied previous patched)
    have "json_ok patched" "steady tmo patched m"
      using immer_keeps_ok [of previous ps] applied(3,4) assms(1-3) MPatches by (simp_all add: mapper_ok_def)
    from apply_snapshot_follow [OF assms(1) this assms(4,5), of clock r]
    obtain m' e v' where "apply_snapshot tmo clock r patched m = Some (m', e)" "mapper_ok m'" "sm_state m' \<noteq> None"
      "view_events e v = Some v'" "view_in_step m' v'" by metis
    then show thesis using that [of m' e v'] applied(5) MPatches by simp
  qed (use that [of m "[]" v] MPatches assms in simp)
next
  case (MFlush now)
  obtain m' e where f: "flush_due_outputs now m = Some (m', e)" "mapper_ok m'" "m' = m\<lparr>sm_pending := sm_pending m'\<rparr>"
    using take_pending_outputs_ok [OF assms(1)] unfolding flush_due_outputs_def by metis
  obtain v' where "view_events e v = Some v'" "view_in_step m' v'"
    using take_pending_outputs_follow [OF assms(1,5)] f(1) unfolding flush_due_outputs_def by metis
  moreover have "sm_state m' \<noteq> None" by (subst f(3)) (use assms(4) in simp)
  ultimately show thesis using that [of m' e v'] f(1,2) MFlush by simp
next
  case (MCapabilities c)
  then show thesis using that [of "set_capabilities c m" "[]" v] assms
    by (simp add: set_capabilities_def mapper_ok_def buffers_ok_def view_in_step_def out_of_def)
next
  case (MConnection c)
  then show thesis using that [of "mapper_set_device_connection c m" "[]" v] assms
    by (simp add: mapper_set_device_connection_def mapper_ok_def buffers_ok_def view_in_step_def out_of_def)
next
  case (MQueue q)
  show thesis
    by (rule that [of "fst (set_queue q m)" "case snd (set_queue q m) of None \<Rightarrow> [] | Some x \<Rightarrow> [x]" v])
      (use assms MQueue in \<open>auto simp: set_queue_def mapper_ok_def buffers_ok_def view_in_step_def out_of_def\<close>)
qed

lemma mapper_run_follow:
  assumes "mapper_ok m" "list_all step_input_ok sts" "steady_run tmo sts m" "sm_state m \<noteq> None" "view_in_step m v"
  shows "\<exists>m' e v'. mapper_run tmo sts m = Some (m', e) \<and> view_events e v = Some v' \<and> view_in_step m' v'"
  using assms
proof (induction sts arbitrary: m v)
  case (Cons st sts)
  have st: "step_input_ok st" "steady_step tmo st m" using Cons.prems(2,3) by simp_all
  obtain m1 e1 v1 where 1: "mapper_exec tmo st m = Some (m1, e1)" "mapper_ok m1" "sm_state m1 \<noteq> None"
    "view_events e1 v = Some v1" "view_in_step m1 v1"
    using mapper_exec_follow [OF Cons.prems(1) st Cons.prems(4,5)] by metis
  then obtain m2 e2 v2 where "mapper_run tmo sts m1 = Some (m2, e2)" "view_events e2 v1 = Some v2" "view_in_step m2 v2"
    using Cons.IH [OF 1(2) _ _ 1(3,5)] Cons.prems(2,3) by auto
  then show ?case using 1(1,4) by (auto simp: view_events_append)
qed simp

text \<open>
  C7. The output events can be followed. Start with a client that has the output of every command, when nothing is
  buffered (after the first snapshot, say). Whatever snapshots, patches and flushes come then, as long as commands
  neither vanish nor change their output without changing its length, the mapper does not panic, every event fits
  what the client has, and at every moment the client's bytes and the buffered ones together are the output of the
  last state.
\<close>

theorem output_events_can_be_followed:
  assumes "list_all step_input_ok (before @ after)"
    and "mapper_run tmo before (mapper_new key) = Some (m0, e0)" "sm_state m0 \<noteq> None" "sm_pending m0 = []"
    and "\<forall>k. seen (key_to_item_id k) = out_of m0 k" "steady_run tmo after m0"
  shows "\<exists>m e seen'. mapper_run tmo after m0 = Some (m, e) \<and> view_events e seen = Some seen' \<and>
    (\<forall>k. case map_of (sm_pending m) k of
       None \<Rightarrow> seen' (key_to_item_id k) = out_of m k
     | Some p \<Rightarrow> pd_expected_offset p = length (seen' (key_to_item_id k)) \<and> pd_buffer p \<noteq> [] \<and>
         seen' (key_to_item_id k) @ pd_buffer p = out_of m k)"
proof -
  have "mapper_ok m0" using mapper_run_ok [OF mapper_new_ok] assms(1,2) by (metis list_all_append option.inject prod.inject)
  moreover have "view_in_step m0 seen" using assms(4,5) by (simp add: view_in_step_def synced_def)
  ultimately show ?thesis
    using mapper_run_follow [of m0 after tmo seen] assms(1,3,6) by (simp add: view_in_step_def synced_def)
qed

definition ex_session :: session_key where
  "ex_session = \<lparr>sk_device_id = ''d'', sk_agent_kind = CodexDesktop, sk_native_session_id = ''n'', sk_relay_session_uuid = None\<rparr>"

definition ex_command :: "string \<Rightarrow> string \<Rightarrow> json" where
  "ex_command status out = JObj [(''turns'', JArr [JObj [(''items'', JArr [JObj [(''aggregatedOutput'', JStr out), (''id'', JStr ''c''),
     (''status'', JStr status), (''type'', JStr ''command'')]]), (''status'', JStr ''inProgress''), (''turnId'', JStr ''t'')]])]"

definition ex_track :: "string \<Rightarrow> string \<Rightarrow> nat \<Rightarrow> item_track" where
  "ex_track status out sq = \<lparr>tk_seq = sq, tk_native_type = ''command'', tk_status = Some status, tk_content_len = 0,
     tk_output = str_bytes out, tk_output_present = True, tk_final_emitted = False\<rparr>"

lemma ex_command_ok: "str_ok status \<Longrightarrow> str_ok out \<Longrightarrow> json_ok (ex_command status out)"
  by (simp add: ex_command_def str_ok_ascii)

lemma ex_items: "state_items (ex_command status out) = [(turn_native ''t'', JObj [(''aggregatedOutput'', JStr out), (''id'', JStr ''c''),
     (''status'', JStr status), (''type'', JStr ''command'')])]"
  by (simp add: state_items_def collect_turns_def extract_turns_def get_list_def ex_command_def turn_items_of_def turn_id_of_def get_str_def)

lemma ex_tracks: "new_tracks tmo (state_items (ex_command status out)) sq [] = ([(''c'', ex_track status out sq)], Suc sq)"
  by (simp add: ex_items item_type_of_def get_str2_def get_str_def parse_item_def native_item_id_def item_native_def track_key_def
      build_track_def ex_track_def parse_item_content_def is_command_def command_output_def get_u64_def)

lemma ex_first:
  assumes "str_ok status" "str_ok out"
  obtains m e where "mapper_run tmo [MSnapshot clock r (ex_command status out)] (mapper_new ex_session) = Some (m, e)"
    "sm_items m = [(''c'', ex_track status out 0)]" "sm_pending m = []" "sm_state m = Some (ex_command status out)" "sm_next_seq m = 1"
proof (rule apply_snapshotE [OF mapper_new_ok ex_command_ok [OF assms], of tmo ex_session clock r])
  fix ts sq m1 e1 m' e2
  assume ts: "new_tracks tmo (state_items (ex_command status out)) (sm_next_seq (mapper_new ex_session)) [] = (ts, sq)"
    and m1: "merge_items tmo clock (sm_state (mapper_new ex_session) = None) (ex_command status out) ts
       ((load_state r (ex_command status out) (mapper_new ex_session))\<lparr>sm_next_seq := sq\<rparr>) = Some (m1, e1)"
    and f: "finish_snapshot tmo (ex_command status out) m1 = (m', e2)"
    and a: "apply_snapshot tmo clock r (ex_command status out) (mapper_new ex_session) = Some (m', e1 @ e2)"
      "sm_state m' = Some (ex_command status out)"
  have "sm_next_seq m' = sm_next_seq m1"
    using f by (auto simp: finish_snapshot_def apply_lifecycle_def drop_vanished_def diff_attentions_def refresh_summary_def Let_def
      split: if_splits)
  moreover have "sm_items m1 = [(''c'', ex_track status out 0)]" "sm_pending m1 = []" "sm_next_seq m1 = 1"
    using ts m1 by (auto simp: ex_tracks mapper_new_def load_state_def merge_item_def put_item_def)
  ultimately show thesis using that [of m' "e1 @ e2"] a finish_snapshot_keeps [OF f]
    by (simp add: ex_items has_item_id_def get_str_def)
qed

lemma ex_steady:
  assumes "sm_items m = [(''c'', ex_track status out sq)]" "length out \<noteq> length out'"
  shows "steady tmo (ex_command status' out') m"
proof -
  have "still_there (ex_command status' out') ''c''" by (simp add: ex_items has_item_id_def get_str_def)
  then show ?thesis using assms by (simp add: steady_def ex_tracks steady_item_def ex_track_def str_bytes_def)
qed

theorem output_events_can_be_followed_witness:
  "\<exists>m0 e0 m e seen'. mapper_run (\<lambda>_. None) [MSnapshot (\<lambda>_. 0) 1 (ex_command ''running'' ''a'')] (mapper_new ex_session) = Some (m0, e0) \<and>
     mapper_run (\<lambda>_. None) [MSnapshot (\<lambda>_. 0) 2 (ex_command ''completed'' ''ab''), MFlush 100] m0 = Some (m, e) \<and>
     view_events e (\<lambda>i. if i = item_native ''c'' then str_bytes ''a'' else []) = Some seen' \<and>
     (\<forall>k. case map_of (sm_pending m) k of
       None \<Rightarrow> seen' (key_to_item_id k) = out_of m k
     | Some p \<Rightarrow> pd_expected_offset p = length (seen' (key_to_item_id k)) \<and> pd_buffer p \<noteq> [] \<and>
         seen' (key_to_item_id k) @ pd_buffer p = out_of m k)"
proof (rule ex_first [of "''running''" "''a''" "\<lambda>_. None" "\<lambda>_. 0" 1])
  fix m0 e0
  assume m0: "mapper_run (\<lambda>_. None) [MSnapshot (\<lambda>_. 0) 1 (ex_command ''running'' ''a'')] (mapper_new ex_session) = Some (m0, e0)"
    "sm_items m0 = [(''c'', ex_track ''running'' ''a'' 0)]" "sm_pending m0 = []" "sm_state m0 = Some (ex_command ''running'' ''a'')" "sm_next_seq m0 = 1"
  have "key_to_item_id ''c'' = item_native ''c''" by (simp add: key_to_item_id_def strip_suffix_def suffix_def)
  then have c: "key_to_item_id k = item_native ''c'' \<longleftrightarrow> k = ''c''" for k using key_to_item_id_inj by metis
  let ?seen = "\<lambda>i. if i = item_native ''c'' then str_bytes ''a'' else []"
  have inputs: "list_all step_input_ok ([MSnapshot (\<lambda>_. 0) 1 (ex_command ''running'' ''a'')] @
      [MSnapshot (\<lambda>_. 0) 2 (ex_command ''completed'' ''ab''), MFlush 100])"
    by (simp add: ex_command_ok str_ok_ascii)
  have seen: "\<forall>k. ?seen (key_to_item_id k) = out_of m0 k"
    by (simp add: c out_of_def m0(2) ex_track_def is_output_item_def)
  have steady: "steady_run (\<lambda>_. None) [MSnapshot (\<lambda>_. 0) 2 (ex_command ''completed'' ''ab''), MFlush 100] m0"
    using ex_steady [OF m0(2), of "''ab''"] by (simp split: option.splits)
  have "sm_state m0 \<noteq> None" using m0(4) by simp
  from output_events_can_be_followed [OF inputs m0(1) this m0(3) seen steady] show ?thesis using m0(1) by blast
qed (simp_all add: str_ok_ascii)

text \<open>
  What can go wrong otherwise. An output that is rewritten with the same length is not sent. A command that leaves
  the window of the snapshot keeps its buffer, also when it comes back as a new item and is sent as a whole; the
  buffer is then sent at an offset that no longer fits.
\<close>

lemma equal_length_rewrite_is_not_sent:
  assumes "map_of (sm_items m) key = Some old" "tk_status t = tk_status old" "tk_content_len t = tk_content_len old"
    "length (tk_output t) = length (tk_output old)"
  shows "merge_item tmo now first state key t m = Some (put_item key t m, [])"
  using assms by (auto simp: merge_item_def output_delta_events_def output_change_def)

lemma vanished_item_keeps_its_buffer:
  assumes "finish_snapshot tmo state m = (m', e)" "\<not> still_there state key" "bt_ok (sm_items m)"
  shows "map_of (sm_items m') key = None \<and> map_of (sm_pending m') key = map_of (sm_pending m) key"
  using finish_snapshot_items [OF assms(1,3), of key] finish_snapshot_keeps(1) [OF assms(1)] assms(2) by simp

lemma stale_buffer_does_not_fit:
  assumes "map_of (sm_items m) key = None" "find_item tmo state key = Some it" "is_output_item (tk_native_type t)"
    "tk_output t \<noteq> []" "\<not> status_is_terminal (tk_status t)" "map_of (sm_pending m) key = Some p" "pd_buffer p \<noteq> []"
    "pd_expected_offset p \<noteq> length (tk_output t)" "merge_item tmo now False state key t m = Some (m1, e1)"
    "take_pending_output key m1 = Some (m2, e2)"
  shows "view_events (e1 @ e2) v = None"
proof -
  have e1: "e1 = [DmItemUpsert it, DmOutputReplace (key_to_item_id key) 0 (tk_output t) ChCombined]" "m1 = put_item key t m"
    using assms by (auto simp: merge_item_def output_events_for_new_snapshot_item_def)
  obtain cs where cs: "flush_chunks (mp_max_bytes (sm_merge_policy m1)) (pd_expected_offset p) (pd_buffer p) = Some cs"
    "e2 = map (\<lambda>(off, c). DmOutputAppend (key_to_item_id key) off c ChCombined) cs"
    using assms(6,10) e1(2) by (auto simp: take_pending_output_def put_item_def)
  obtain c cs' where "cs = (pd_expected_offset p, c) # cs'"
    using cs(1) assms(7) by (subst (asm) flush_chunks.simps) (auto split: option.splits)
  then show ?thesis using e1(1) cs(2) assms(8) by simp
qed

text \<open>The plan of the runtime snapshot is the first plan of the oldest turn that has one.\<close>

lemma latest_plan_is_the_oldest:
  "latest_plan (JObj [(''turns'', JArr [
      JObj [(''items'', JArr [JObj [(''steps'', JArr [JObj [(''id'', JStr ''old'')]]), (''type'', JStr ''plan'')]])],
      JObj [(''items'', JArr [JObj [(''steps'', JArr [JObj [(''id'', JStr ''new'')]]), (''type'', JStr ''plan'')]])]])]) =
   [\<lparr>ps_step_id = ''old'', ps_title = [], ps_status = StepPending\<rparr>]"
  by (simp add: latest_plan_def state_items_def collect_turns_def extract_turns_def get_list_def turn_items_of_def
      item_type_of_def get_str2_def get_str_def parse_plan_def parse_step_def)

section \<open>Phase and pending decisions\<close>

text \<open>A client that follows the phase of the turn and the questions and approvals that are waiting.\<close>

fun mirror_event :: "dm_event \<Rightarrow> active_turn_phase \<times> string set \<Rightarrow> active_turn_phase \<times> string set" where
  "mirror_event (DmTurnLifecycle t ph oc fin) (p, S) = (ph, S)"
| "mirror_event (DmPendingAttentionAdded a) (p, S) = (p, insert (attention_native_id a) S)"
| "mirror_event (DmPendingAttentionRemoved kind i t) (p, S) = (p, S - {i})"
| "mirror_event _ s = s"

definition mirror :: "session_mapper \<Rightarrow> active_turn_phase \<times> string set" where
  "mirror m = (sm_phase m, fst ` set (sm_attentions m))"

fun item_event :: "dm_event \<Rightarrow> bool" where
  "item_event (DmItemUpsert i) = True"
| "item_event (DmOutputAppend i off b c) = True"
| "item_event (DmOutputReplace i r b c) = True"
| "item_event (DmOutputFinal i r n c u) = True"
| "item_event _ = False"

lemma mirror_item_events: "list_all item_event e \<Longrightarrow> fold mirror_event e s = s"
proof (induction e arbitrary: s)
  case (Cons x e)
  then have "mirror_event x s = s" by (cases x; cases s) auto
  then show ?case using Cons by simp
qed simp

lemma take_pending_item_events: "take_pending_output key m = Some (m', e) \<Longrightarrow> list_all item_event e"
  by (auto simp: take_pending_output_def list_all_iff split: option.splits)

lemma output_change_item_events: "output_change now key old t m = Some (m', e) \<Longrightarrow> list_all item_event e"
  by (auto simp: output_change_def maybe_flush_full_def Let_def split: if_splits dest: take_pending_item_events)

lemma merge_item_events:
  assumes "merge_item tmo now first state key t m = Some (m', e)"
  shows "list_all item_event e \<and> mirror m' = mirror m"
proof (cases "map_of (sm_items m) key")
  case None
  then show ?thesis using assms
    by (auto simp: merge_item_def put_item_def mirror_def output_events_for_new_snapshot_item_def split: option.splits)
next
  case (Some old)
  then obtain m1 t1 e1 where d: "output_delta_events now key old t m = Some (m1, t1, e1)" "m' = put_item key t1 m1"
    and e: "\<exists>e2. e = e1 @ e2 \<and> list_all item_event e2"
    using assms by (auto simp: merge_item_def Let_def split: option.splits)
  have "list_all item_event e1"
    using d(1) by (auto simp: output_delta_events_def split: if_splits option.splits
      dest!: output_change_item_events take_pending_item_events)
  moreover have "mirror m1 = mirror m" by (subst output_delta_frame(1) [OF d(1)]) (simp add: mirror_def)
  ultimately show ?thesis using d(2) e by (auto simp: put_item_def mirror_def)
qed

lemma merge_items_events:
  "merge_items tmo clock first state ts m = Some (m', e) \<Longrightarrow> list_all item_event e \<and> mirror m' = mirror m"
proof (induction ts arbitrary: m e)
  case (Cons kt ts)
  then show ?case by (cases kt) (auto split: option.splits dest!: merge_item_events)
qed simp

definition waiting_ids :: "(int \<Rightarrow> string option) \<Rightarrow> json \<Rightarrow> string set" where
  "waiting_ids tmo state = pq_question_id ` set (extract_questions tmo state) \<union> pa_approval_id ` set (extract_approvals tmo state)"

lemma fold_bt_insert_keys: "fst ` set (fold (\<lambda>x. bt_insert (f x) (g x)) xs m) = f ` set xs \<union> fst ` set m"
  by (induction xs arbitrary: m) auto

lemma fold_bt_insert_entries: "set (fold (\<lambda>x. bt_insert (f x) (g x)) xs m) \<subseteq> (\<lambda>x. (f x, g x)) ` set xs \<union> set m"
proof (induction xs arbitrary: m)
  case (Cons x xs)
  then show ?case using bt_set_insert [of "f x" "g x" m] by (auto dest!: subsetD [OF Cons.IH])
qed simp

lemma next_attention_ids: "fst ` set (next_attentions tmo state) = waiting_ids tmo state"
  by (auto simp: next_attentions_def waiting_ids_def fold_bt_insert_keys)

lemma next_attention_found:
  assumes "(i, kind) \<in> set (next_attentions tmo state)"
  obtains a where "find_attention tmo state i kind = Some a" "attention_native_id a = i"
proof (cases kind)
  case UserQuestion
  then have "\<exists>q\<in>set (extract_questions tmo state). pq_question_id q = i"
    using assms subsetD [OF fold_bt_insert_entries, OF assms [unfolded next_attentions_def]]
      subsetD [OF fold_bt_insert_entries [of pq_question_id "\<lambda>_. UserQuestion" "extract_questions tmo state" "[]"]]
    by fastforce
  then obtain q where "find (\<lambda>q. pq_question_id q = i) (extract_questions tmo state) = Some q" "pq_question_id q = i"
    by (metis (mono_tags, lifting) find_None_iff find_Some_iff option.exhaust)
  then show thesis using that UserQuestion by (simp add: find_attention_def)
next
  case RiskApproval
  then have "\<exists>a\<in>set (extract_approvals tmo state). pa_approval_id a = i"
    using assms subsetD [OF fold_bt_insert_entries, OF assms [unfolded next_attentions_def]]
      subsetD [OF fold_bt_insert_entries [of pq_question_id "\<lambda>_. UserQuestion" "extract_questions tmo state" "[]"]]
    by fastforce
  then obtain a where "find (\<lambda>a. pa_approval_id a = i) (extract_approvals tmo state) = Some a" "pa_approval_id a = i"
    by (metis (mono_tags, lifting) find_None_iff find_Some_iff option.exhaust)
  then show thesis using that RiskApproval by (simp add: find_attention_def)
qed

lemma map_filter_empty: "List.map_filter f xs = [] \<longleftrightarrow> (\<forall>x\<in>set xs. f x = None)"
  by (induction xs) (auto simp: map_filter_simps split: option.splits)

lemma mirror_removed: "fold mirror_event (map (\<lambda>(i, kind). DmPendingAttentionRemoved kind i None) xs) (p, S) = (p, S - fst ` set xs)"
  by (induction xs arbitrary: S) auto

lemma mirror_added:
  assumes "\<forall>(i, kind)\<in>set xs. \<exists>a. f i kind = Some a \<and> attention_native_id a = i"
  shows "fold mirror_event (List.map_filter (\<lambda>(i, kind). if P i then None else map_option DmPendingAttentionAdded (f i kind)) xs) (p, S) =
    (p, S \<union> {i \<in> fst ` set xs. \<not> P i})"
  using assms
proof (induction xs arbitrary: S)
  case (Cons x xs)
  then show ?case by (cases x) (auto simp: map_filter_simps)
qed (simp add: map_filter_simps)

lemma map_of_None_keys: "map_of m k = None \<longleftrightarrow> k \<notin> fst ` set m"
  by (rule map_of_eq_None_iff)

lemma diff_attentions_mirror:
  assumes "diff_attentions tmo state m = (m', e)" "mirror m = (p, S)"
  shows "fold mirror_event e (p, S) = (p, waiting_ids tmo state) \<and> mirror m' = (p, waiting_ids tmo state)"
proof -
  let ?next = "next_attentions tmo state"
  have "\<forall>(i, kind)\<in>set ?next. \<exists>a. find_attention tmo state i kind = Some a \<and> attention_native_id a = i"
  proof (safe)
    fix i kind assume "(i, kind) \<in> set ?next"
    then show "\<exists>a. find_attention tmo state i kind = Some a \<and> attention_native_id a = i"
      by (rule next_attention_found) blast
  qed
  note add = mirror_added [OF this]
  have S: "S = fst ` set (sm_attentions m)" and p: "p = sm_phase m" using assms(2) by (simp_all add: mirror_def)
  have rem: "fst ` set (filter (\<lambda>(i, _). map_of ?next i = None) (sm_attentions m)) = S - waiting_ids tmo state"
    by (force simp: S map_of_None_keys next_attention_ids)
  have e: "e = map (\<lambda>(i, kind). DmPendingAttentionRemoved kind i None) (filter (\<lambda>(i, _). map_of ?next i = None) (sm_attentions m)) @
      List.map_filter (\<lambda>(i, kind). if map_of (sm_attentions m) i \<noteq> None then None
        else map_option DmPendingAttentionAdded (find_attention tmo state i kind)) ?next"
    and m': "m' = m\<lparr>sm_attentions := ?next\<rparr>"
    using assms(1) by (auto simp: diff_attentions_def Let_def)
  have "fold mirror_event e (p, S) = (p, (S - (S - waiting_ids tmo state)) \<union> {i \<in> waiting_ids tmo state. i \<notin> S})"
    unfolding e fold_append comp_apply mirror_removed rem add
    by (simp only: not_Some_eq not_not next_attention_ids map_of_None_keys S)
  then show ?thesis by (auto simp: m' mirror_def p next_attention_ids)
qed

lemma finish_snapshot_mirror:
  assumes "finish_snapshot tmo state m = (m', e)"
  shows "fold mirror_event e (mirror m) = mirror m' \<and> mirror m' = (new_phase state (sm_facts m), waiting_ids tmo state)"
proof -
  obtain m1 e1 where 1: "apply_lifecycle state (drop_vanished state m) = (m1, e1)" by fastforce
  obtain m2 e2 where 2: "diff_attentions tmo state m1 = (m2, e2)" by fastforce
  obtain e3 where 3: "refresh_summary m2 = (m', e3)" and e: "e = e1 @ e2 @ e3"
    using assms 1 2 by (auto simp: finish_snapshot_def split: prod.splits)
  have p1: "fold mirror_event e1 (mirror m) = mirror m1 \<and> sm_phase m1 = new_phase state (sm_facts m)"
    using 1 by (auto simp: apply_lifecycle_def drop_vanished_def mirror_def Let_def split: if_splits)
  note p2 = diff_attentions_mirror [OF 2, of "sm_phase m1" "fst ` set (sm_attentions m1)"]
  have p3: "fold mirror_event e3 (mirror m2) = mirror m2 \<and> mirror m' = mirror m2"
    using 3 by (auto simp: refresh_summary_def mirror_def Let_def split: if_splits)
  show ?thesis using p1 p2 p3 by (simp add: e mirror_def)
qed

text \<open>What holds between steps: phase and waiting decisions are those of the last state.\<close>

definition mirrors_state :: "(int \<Rightarrow> string option) \<Rightarrow> session_mapper \<Rightarrow> bool" where
  "mirrors_state tmo m \<longleftrightarrow> mirror m = (case sm_state m of
     None \<Rightarrow> (PhIdle, {}) | Some s \<Rightarrow> (new_phase s (extract_facts s), waiting_ids tmo s))"

lemma merge_item_keeps:
  assumes "merge_item tmo now first state key t m = Some (m', e)"
  shows "sm_facts m' = sm_facts m \<and> sm_state m' = sm_state m"
proof (cases "map_of (sm_items m) key")
  case (Some old)
  then obtain m1 t1 e1 where d: "output_delta_events now key old t m = Some (m1, t1, e1)" "m' = put_item key t1 m1"
    using assms by (auto simp: merge_item_def Let_def)
  have "sm_facts m1 = sm_facts m \<and> sm_state m1 = sm_state m" by (subst (1 2) output_delta_frame(1) [OF d(1)]) simp
  then show ?thesis using d(2) by (simp add: put_item_def)
qed (use assms in \<open>auto simp: merge_item_def put_item_def\<close>)

lemma merge_items_keeps:
  "merge_items tmo clock first state ts m = Some (m', e) \<Longrightarrow> sm_facts m' = sm_facts m \<and> sm_state m' = sm_state m"
proof (induction ts arbitrary: m e)
  case (Cons kt ts)
  then show ?case by (cases kt) (auto split: option.splits dest!: merge_item_keeps)
qed simp

lemma apply_snapshot_parts:
  assumes "apply_snapshot tmo clock r state m = Some (m', e)"
  obtains ts sq m1 e1 e2 where "new_tracks tmo (state_items state) (sm_next_seq m) [] = (ts, sq)"
    "merge_items tmo clock (sm_state m = None) state ts ((load_state r state m)\<lparr>sm_next_seq := sq\<rparr>) = Some (m1, e1)"
    "finish_snapshot tmo state m1 = (m', e2)" "e = e1 @ e2"
proof -
  obtain ts sq where ts: "new_tracks tmo (state_items state) (sm_next_seq m) [] = (ts, sq)" by fastforce
  from assms ts obtain m1 e1 where m1:
    "merge_items tmo clock (sm_state m = None) state ts ((load_state r state m)\<lparr>sm_next_seq := sq\<rparr>) = Some (m1, e1)"
    "(case finish_snapshot tmo state m1 of (m2, e2) \<Rightarrow> (m2, e1 @ e2)) = (m', e)"
    by (auto simp: apply_snapshot_def)
  then show thesis using that [OF ts m1(1)] by (auto split: prod.splits)
qed

lemma apply_snapshot_state: "apply_snapshot tmo clock r state m = Some (m', e) \<Longrightarrow> sm_state m' = Some state"
  by (erule apply_snapshot_parts) (auto simp: load_state_def dest!: merge_items_keeps finish_snapshot_keeps(3))

lemma apply_snapshot_mirror:
  assumes "apply_snapshot tmo clock r state m = Some (m', e)"
  shows "fold mirror_event e (mirror m) = mirror m' \<and> mirrors_state tmo m'"
  using assms
proof (rule apply_snapshot_parts)
  fix ts sq m1 e1 e2
  assume 1: "merge_items tmo clock (sm_state m = None) state ts ((load_state r state m)\<lparr>sm_next_seq := sq\<rparr>) = Some (m1, e1)"
    "finish_snapshot tmo state m1 = (m', e2)" "e = e1 @ e2"
  note ev = merge_items_events [OF 1(1)] and fin = finish_snapshot_mirror [OF 1(2)]
  have "mirror ((load_state r state m)\<lparr>sm_next_seq := sq\<rparr>) = mirror m" by (simp add: mirror_def load_state_def)
  moreover have "sm_facts m1 = extract_facts state \<and> sm_state m1 = Some state"
    using merge_items_keeps [OF 1(1)] by (simp add: load_state_def)
  ultimately show ?thesis
    using ev fin finish_snapshot_keeps(3) [OF 1(2)] by (simp add: 1(3) mirror_item_events mirrors_state_def)
qed

lemma take_pending_outputs_events:
  "take_pending_outputs keys m = Some (m', e) \<Longrightarrow> list_all item_event e"
proof (induction keys arbitrary: m e)
  case (Cons key keys)
  then show ?case by (auto split: option.splits dest!: take_pending_item_events)
qed simp

lemma mapper_exec_mirror:
  assumes "mapper_exec tmo st m = Some (m', e)" "mapper_ok m" "mirrors_state tmo m"
  shows "fold mirror_event e (mirror m) = mirror m' \<and> mirrors_state tmo m'"
proof (cases st)
  case (MSnapshot clock r s)
  then show ?thesis using assms(1) apply_snapshot_mirror by simp
next
  case (MPatches clock b r ps)
  show ?thesis
  proof (cases rule: mapper_apply_patches_cases [of tmo clock b r ps m])
    case (applied previous patched)
    then show ?thesis using assms(1) MPatches by (auto dest: apply_snapshot_mirror)
  qed (use assms MPatches in auto)
next
  case (MFlush now)
  then have f: "take_pending_outputs (map fst (filter (\<lambda>(k, p). now - pd_queued_at p \<ge> mp_max_delay (sm_merge_policy m)) (sm_pending m))) m =
      Some (m', e)" using assms(1) by (simp add: flush_due_outputs_def)
  obtain P where "m' = m\<lparr>sm_pending := P\<rparr>" using take_pending_outputs_ok [OF assms(2)] f by (metis option.inject prod.inject)
  then show ?thesis using mirror_item_events [OF take_pending_outputs_events [OF f]] assms(3)
    by (simp add: mirror_def mirrors_state_def)
qed (use assms in \<open>auto simp: set_capabilities_def mapper_set_device_connection_def set_queue_def mirror_def mirrors_state_def
  split: if_splits\<close>)

lemma mapper_run_mirror:
  assumes "mapper_run tmo sts m = Some (m', e)" "mapper_ok m" "list_all step_input_ok sts" "mirrors_state tmo m"
  shows "fold mirror_event e (mirror m) = mirror m' \<and> mirrors_state tmo m'"
  using assms
proof (induction sts arbitrary: m e)
  case (Cons st sts)
  then obtain m1 e1 e2 where 1: "mapper_exec tmo st m = Some (m1, e1)" "mapper_run tmo sts m1 = Some (m', e2)" "e = e1 @ e2"
    by (auto split: option.splits)
  have "mapper_ok m1" using mapper_exec_ok [OF Cons.prems(2), of st tmo] Cons.prems(3) 1(1) by simp
  then show ?case
    using mapper_exec_mirror [OF 1(1) Cons.prems(2,4)] Cons.IH [OF 1(2)] Cons.prems(3) 1(3) by simp
qed simp

text \<open>
  C15. Decisions that wait for the user are never lost or left behind. After any sequence of snapshots, patches and
  flushes, a client that started with nothing and took every event knows the phase of the turn and exactly the
  questions and approvals of the last authoritative state: a running turn is shown as running, whatever else the
  state says, and a state with only finished turns as idle, unless it reports that it is finishing.
\<close>

theorem phase_and_decisions_are_mirrored:
  assumes "mapper_run tmo sts (mapper_new key) = Some (m, e)" "list_all step_input_ok sts" "sm_state m = Some s"
  shows "fold mirror_event e (PhIdle, {}) =
    (if \<exists>t\<in>set (extract_turns s). turn_status_of t = Some ''inProgress'' then PhRunning
     else if sf_runtime_status (extract_facts s) = Some ''finishing'' then PhFinishing
     else if \<exists>t\<in>set (extract_turns s). map_turn_outcome (turn_status_of t) \<noteq> None then PhIdle
     else map_phase (sf_runtime_status (extract_facts s)),
     pq_question_id ` set (extract_questions tmo s) \<union> pa_approval_id ` set (extract_approvals tmo s))"
proof -
  have new: "mirror (mapper_new key) = (PhIdle, {})" "mirrors_state tmo (mapper_new key)"
    by (simp_all add: mirror_def mapper_new_def mirrors_state_def)
  have r: "fold mirror_event e (PhIdle, {}) = mirror m" "mirrors_state tmo m"
    using mapper_run_mirror [OF assms(1) mapper_new_ok assms(2) new(2)] new(1) by simp_all
  have turns: "snd ` set (collect_turns s) = set (extract_turns s)"
    by (simp add: collect_turns_def comp_def case_prod_beta flip: set_map)
  have run: "running_turn s \<noteq> None \<longleftrightarrow> (\<exists>t\<in>set (extract_turns s). turn_status_of t = Some ''inProgress'')"
    unfolding turns [symmetric] by (force simp: running_turn_def find_None_iff)
  have finished: "last_terminal s \<noteq> None \<longleftrightarrow> (\<exists>t\<in>set (extract_turns s). map_turn_outcome (turn_status_of t) \<noteq> None)"
  proof -
    let ?f = "\<lambda>(tid :: turn_id, t). map_option (Pair tid) (map_turn_outcome (turn_status_of t))"
    have "last_terminal s = None \<longleftrightarrow> List.map_filter ?f (rev (collect_turns s)) = []"
      by (simp add: last_terminal_def split: list.splits)
    also have "\<dots> \<longleftrightarrow> (\<forall>x\<in>set (collect_turns s). ?f x = None)"
      by (simp add: map_filter_empty)
    also have "\<dots> \<longleftrightarrow> (\<forall>t\<in>snd ` set (collect_turns s). map_turn_outcome (turn_status_of t) = None)" by auto
    finally show ?thesis by (auto simp: turns)
  qed
  show ?thesis using r assms(3) by (simp only: mirrors_state_def new_phase_def run finished waiting_ids_def option.case)
qed

theorem phase_and_decisions_are_mirrored_witness:
  "\<exists>m e. mapper_run (\<lambda>_. None) [MSnapshot (\<lambda>_. 0) 1 (ex_command ''running'' ''a'')] (mapper_new ex_session) = Some (m, e) \<and>
     fold mirror_event e (PhIdle, {}) = (PhRunning, {})"
proof (rule ex_first [of "''running''" "''a''" "\<lambda>_. None" "\<lambda>_. 0" 1])
  fix m e
  assume m: "mapper_run (\<lambda>_. None) [MSnapshot (\<lambda>_. 0) 1 (ex_command ''running'' ''a'')] (mapper_new ex_session) = Some (m, e)"
    and st: "sm_state m = Some (ex_command ''running'' ''a'')"
  have ok: "list_all step_input_ok [MSnapshot (\<lambda>_. 0) 1 (ex_command ''running'' ''a'')]" by (simp add: ex_command_ok str_ok_ascii)
  have "fold mirror_event e (PhIdle, {}) = (PhRunning, {})"
    using phase_and_decisions_are_mirrored [OF m ok st]
    by (simp add: ex_command_def extract_turns_def get_list_def turn_status_of_def get_str_def extract_questions_def
        extract_requests_questions_def extract_requests_questions_detail_def extract_approvals_def extract_requests_approvals_def
        map_filter_simps)
  then show ?thesis using m by blast
qed (simp_all add: str_ok_ascii)

section \<open>What does not leave the mapper\<close>

text \<open>Two states that differ in the directory of the session, but not in its last name.\<close>

definition same_but_cwd :: "json \<Rightarrow> json \<Rightarrow> bool" where
  "same_but_cwd s s' \<longleftrightarrow> (\<forall>k. k \<noteq> ''cwd'' \<longrightarrow> jget k s = jget k s') \<and>
     Option.bind (get_str ''cwd'' s) project_display_from_cwd = Option.bind (get_str ''cwd'' s') project_display_from_cwd"

definition with_state :: "json option \<Rightarrow> (string \<times> u64) list \<Rightarrow> session_mapper \<Rightarrow> session_mapper" where
  "with_state x y m = m\<lparr>sm_state := x, sm_unknown_keys := y\<rparr>"

lemma with_state_fields [simp]:
  "sm_items (with_state x y m) = sm_items m" "sm_pending (with_state x y m) = sm_pending m"
  "sm_merge_policy (with_state x y m) = sm_merge_policy m" "sm_facts (with_state x y m) = sm_facts m"
  "sm_phase (with_state x y m) = sm_phase m" "sm_current_turn (with_state x y m) = sm_current_turn m"
  "sm_attentions (with_state x y m) = sm_attentions m" "sm_last_summary (with_state x y m) = sm_last_summary m"
  "sm_last_outcome (with_state x y m) = sm_last_outcome m" "sm_state (with_state x y m) = x"
  "sm_session_key (with_state x y m) = sm_session_key m" "sm_capabilities (with_state x y m) = sm_capabilities m"
  "sm_device_connection (with_state x y m) = sm_device_connection m" "sm_queue (with_state x y m) = sm_queue m"
  "sm_revision (with_state x y m) = sm_revision m"
  by (simp_all add: with_state_def)

lemma with_state_updates:
  "(with_state x y m)\<lparr>sm_pending := P\<rparr> = with_state x y (m\<lparr>sm_pending := P\<rparr>)"
  "(with_state x y m)\<lparr>sm_items := I\<rparr> = with_state x y (m\<lparr>sm_items := I\<rparr>)"
  "(with_state x y m)\<lparr>sm_attentions := A\<rparr> = with_state x y (m\<lparr>sm_attentions := A\<rparr>)"
  "(with_state x y m)\<lparr>sm_last_summary := S\<rparr> = with_state x y (m\<lparr>sm_last_summary := S\<rparr>)"
  "(with_state x y m)\<lparr>sm_phase := p, sm_current_turn := c, sm_last_outcome := q\<rparr> =
     with_state x y (m\<lparr>sm_phase := p, sm_current_turn := c, sm_last_outcome := q\<rparr>)"
  by (simp_all add: with_state_def)

lemma take_pending_with_state:
  "take_pending_output key (with_state x y m) = map_option (map_prod (with_state x y) id) (take_pending_output key m)"
  by (simp add: take_pending_output_def with_state_updates option.map_comp comp_def split: option.splits)

lemma maybe_flush_with_state:
  "maybe_flush_full key (with_state x y m) = map_option (map_prod (with_state x y) id) (maybe_flush_full key m)"
  by (simp add: maybe_flush_full_def take_pending_with_state split: option.splits)

lemma output_change_with_state:
  "output_change now key old t (with_state x y m) = map_option (map_prod (with_state x y) id) (output_change now key old t m)"
  by (simp add: output_change_def Let_def with_state_updates maybe_flush_with_state)

lemma output_delta_with_state:
  "output_delta_events now key old t (with_state x y m) =
     map_option (map_prod (with_state x y) id) (output_delta_events now key old t m)"
  by (auto simp: output_delta_events_def output_change_with_state take_pending_with_state split: option.splits)

lemma merge_item_with_state:
  assumes "find_item tmo s key = find_item tmo s' key"
  shows "merge_item tmo now first s' key t (with_state x y m) =
     map_option (map_prod (with_state x y) id) (merge_item tmo now first s key t m)"
  using assms
  by (auto simp: merge_item_def put_item_def Let_def output_delta_with_state with_state_updates option.map_comp comp_def
      split: option.splits intro!: option.map_cong)

lemma merge_items_with_state:
  assumes "\<And>key. find_item tmo s key = find_item tmo s' key"
  shows "merge_items tmo clock first s' ts (with_state x y m) =
     map_option (map_prod (with_state x y) id) (merge_items tmo clock first s ts m)"
proof (induction ts arbitrary: m)
  case (Cons kt ts)
  obtain key t where kt: "kt = (key, t)" by (cases kt)
  show ?case
  proof (cases "merge_item tmo (clock key) first s key t m")
    case None
    then show ?thesis using merge_item_with_state [where key = key, OF assms] by (simp add: kt)
  next
    case (Some p)
    then show ?thesis using merge_item_with_state [where key = key, OF assms] Cons.IH [of "fst p"]
      by (cases p) (auto simp: kt option.map_comp comp_def intro!: option.map_cong)
  qed
qed simp

lemma same_but_cwd_reads:
  assumes "same_but_cwd s s'"
  shows "state_items s = state_items s'" "collect_turns s = collect_turns s'" "extract_facts s = extract_facts s'"
    "extract_questions tmo s = extract_questions tmo s'" "extract_approvals tmo s = extract_approvals tmo s'"
    "extract_settings s ph = extract_settings s' ph" "latest_plan s = latest_plan s'" "derive_running s = derive_running s'"
    "derive_backgrounds s = derive_backgrounds s'" "find_item tmo s k = find_item tmo s' k"
proof -
  have g: "jget k s = jget k s'" if "k \<noteq> ''cwd''" for k using assms that by (simp add: same_but_cwd_def)
  have gs: "get_str k s = get_str k s'" "get_list k s = get_list k s'" "get_in k b s = get_in k b s'" if "k \<noteq> ''cwd''" for k b
    using g [OF that] by (simp_all add: get_str_def get_list_def get_in_def)
  have "history_turns s = history_turns s'" by (simp add: history_turns_def gs)
  then have "extract_turns s = extract_turns s'" by (simp add: extract_turns_def gs split: option.splits)
  then show turns: "collect_turns s = collect_turns s'" by (simp add: collect_turns_def)
  then show items: "state_items s = state_items s'" by (simp add: state_items_def)
  show facts: "extract_facts s = extract_facts s'" using assms by (simp add: extract_facts_def gs same_but_cwd_def)
  show "extract_questions tmo s = extract_questions tmo s'"
    by (simp add: extract_questions_def extract_requests_questions_def extract_requests_questions_detail_def gs split: option.splits)
  show "extract_approvals tmo s = extract_approvals tmo s'"
    by (simp add: extract_approvals_def extract_requests_approvals_def gs split: option.splits)
  show "extract_settings s ph = extract_settings s' ph"
    by (simp add: extract_settings_def facts collaboration_setting_def effort_available_values_def gs)
  show "latest_plan s = latest_plan s'" "find_item tmo s k = find_item tmo s' k"
    by (simp_all add: latest_plan_def find_item_def items)
  show "derive_running s = derive_running s'" "derive_backgrounds s = derive_backgrounds s'"
    by (simp_all add: derive_running_def derive_backgrounds_def turns)
qed

lemma finish_snapshot_with_state:
  assumes "same_but_cwd s s'"
  shows "finish_snapshot tmo s' (with_state x y m) = map_prod (with_state x y) id (finish_snapshot tmo s m)"
proof -
  note r = same_but_cwd_reads [OF assms]
  have d: "drop_vanished s' (with_state x y m) = with_state x y (drop_vanished s m)" for m
    by (simp add: drop_vanished_def with_state_updates r(1))
  have l: "apply_lifecycle s' (with_state x y m) = map_prod (with_state x y) id (apply_lifecycle s m)" for m
  proof -
    have "running_turn s' = running_turn s" "last_terminal s' = last_terminal s"
      by (simp_all add: running_turn_def last_terminal_def r(2))
    moreover from this have "new_phase s' f = new_phase s f" for f by (simp add: new_phase_def)
    ultimately show ?thesis by (cases "last_terminal s") (simp_all add: apply_lifecycle_def Let_def with_state_updates case_prod_beta)
  qed
  have a: "diff_attentions tmo s' (with_state x y m) = map_prod (with_state x y) id (diff_attentions tmo s m)" for m
  proof -
    have f: "next_attentions tmo s' = next_attentions tmo s" "find_attention tmo s' = find_attention tmo s"
      by (simp_all add: next_attentions_def find_attention_def r(4,5) fun_eq_iff)
    show ?thesis unfolding diff_attentions_def Let_def f by (simp add: with_state_updates)
  qed
  have q: "refresh_summary (with_state x y m) = map_prod (with_state x y) id (refresh_summary m)" for m
    by (simp add: refresh_summary_def Let_def with_state_updates session_summary_of_def)
  show ?thesis
    by (simp add: finish_snapshot_def d l a q Let_def case_prod_beta)
qed

lemma project_display_is_a_name:
  assumes "project_display_from_cwd cwd = Some d"
  shows "d \<noteq> [] \<and> CHR ''/'' \<notin> set d"
proof -
  let ?t = "rev (dropWhile ((=) (CHR ''/'')) (rev cwd))"
  have d: "?t \<noteq> []" "d = rev (takeWhile ((\<noteq>) (CHR ''/'')) (rev ?t))"
    using assms by (auto simp: project_display_from_cwd_def Let_def split: if_splits)
  have "hd (rev ?t) \<noteq> CHR ''/''" using d(1) hd_dropWhile [of "(=) (CHR ''/'')" "rev cwd"] by auto
  then have "takeWhile ((\<noteq>) (CHR ''/'')) (rev ?t) \<noteq> []" using d(1) by (cases "rev ?t") auto
  then show ?thesis by (auto simp: d(2) dest: set_takeWhileD)
qed

lemma apply_snapshot_with_state:
  assumes "same_but_cwd s s'"
  shows "apply_snapshot tmo clock r s' m =
    map_option (map_prod (with_state (Some s') (count_unknown_keys s')) id) (apply_snapshot tmo clock r s m)"
proof -
  note reads = same_but_cwd_reads [OF assms]
  let ?w = "with_state (Some s') (count_unknown_keys s')"
  obtain ts sq where ts: "new_tracks tmo (state_items s) (sm_next_seq m) [] = (ts, sq)" by fastforce
  let ?m = "(load_state r s m)\<lparr>sm_next_seq := sq\<rparr>"
  have m0: "(load_state r s' m)\<lparr>sm_next_seq := sq\<rparr> = ?w ?m"
    by (simp add: load_state_def with_state_def reads(3))
  have "merge_items tmo clock (sm_state m = None) s' ts (?w ?m) =
      map_option (map_prod ?w id) (merge_items tmo clock (sm_state m = None) s ts ?m)"
    by (rule merge_items_with_state) (rule reads(10))
  then show ?thesis
    by (cases "merge_items tmo clock (sm_state m = None) s ts ?m")
      (auto simp: apply_snapshot_def ts m0 reads(1) [symmetric] finish_snapshot_with_state [OF assms] case_prod_beta)
qed

text \<open>
  C17. The directory of a session does not leave the bridge. The events of a snapshot, the summary and the runtime
  snapshot after it are the same for any two states that differ only in the directory, as long as its last name is
  the same, and the name that is shown is never empty and has no separator in it.
\<close>

theorem directory_does_not_leave_the_mapper:
  assumes "same_but_cwd s s'" "apply_snapshot tmo clock r s m = Some (m1, e1)"
  shows "\<exists>m2. apply_snapshot tmo clock r s' m = Some (m2, e1) \<and> session_summary_of m2 = session_summary_of m1 \<and>
    mapper_runtime_snapshot tmo m2 = mapper_runtime_snapshot tmo m1 \<and>
    (\<forall>d. sf_project_display (extract_facts s) = Some d \<longrightarrow> d \<noteq> [] \<and> CHR ''/'' \<notin> set d)"
proof -
  note reads = same_but_cwd_reads [OF assms(1)]
  let ?m2 = "with_state (Some s') (count_unknown_keys s') m1"
  have "apply_snapshot tmo clock r s' m = Some (?m2, e1)" using apply_snapshot_with_state [OF assms(1)] assms(2) by simp
  moreover have "session_summary_of ?m2 = session_summary_of m1" by (simp add: session_summary_of_def)
  moreover have "mapper_runtime_snapshot tmo ?m2 = mapper_runtime_snapshot tmo m1"
    using apply_snapshot_state [OF assms(2)] by (simp add: mapper_runtime_snapshot_def reads(4-9) recent_output_cursors_def)
  moreover have "d \<noteq> [] \<and> CHR ''/'' \<notin> set d" if "sf_project_display (extract_facts s) = Some d" for d
    using that project_display_is_a_name by (cases "get_str ''cwd'' s") (auto simp: extract_facts_def)
  ultimately show ?thesis by blast
qed

definition ex_dir :: "string \<Rightarrow> json" where
  "ex_dir cwd = JObj [(''cwd'', JStr cwd)]"

theorem directory_does_not_leave_the_mapper_witness:
  "\<exists>m1 e1 m2. apply_snapshot (\<lambda>_. None) (\<lambda>_. 0) 1 (ex_dir ''/home/me/proj'') (mapper_new ex_session) = Some (m1, e1) \<and>
     apply_snapshot (\<lambda>_. None) (\<lambda>_. 0) 1 (ex_dir ''/srv/proj/'') (mapper_new ex_session) = Some (m2, e1) \<and>
     session_summary_of m2 = session_summary_of m1 \<and>
     mapper_runtime_snapshot (\<lambda>_. None) m2 = mapper_runtime_snapshot (\<lambda>_. None) m1 \<and>
     (\<forall>d. sf_project_display (extract_facts (ex_dir ''/home/me/proj'')) = Some d \<longrightarrow> d \<noteq> [] \<and> CHR ''/'' \<notin> set d)"
proof -
  have "json_ok (ex_dir ''/home/me/proj'')" by (simp add: ex_dir_def str_ok_ascii)
  from apply_snapshotE [OF mapper_new_ok this, of "\<lambda>_. None" ex_session "\<lambda>_. 0" 1] obtain m1 e1 where
    1: "apply_snapshot (\<lambda>_. None) (\<lambda>_. 0) 1 (ex_dir ''/home/me/proj'') (mapper_new ex_session) = Some (m1, e1)" by metis
  have same: "same_but_cwd (ex_dir ''/home/me/proj'') (ex_dir ''/srv/proj/'')"
    by (simp add: same_but_cwd_def ex_dir_def get_str_def project_display_from_cwd_def Let_def)
  from directory_does_not_leave_the_mapper [OF same 1] 1 show ?thesis by blast
qed

text \<open>Hidden reasoning is not read: of such an item only the identifier, the revision and the summary count.\<close>

lemma reasoning_content_is_not_read:
  assumes "\<forall>k\<in>{''id'', ''revision'', ''summary''}. jget k a = jget k b"
  shows "parse_item tmo ''reasoning'' a turn c = parse_item tmo ''reasoning'' b turn c"
  using assms by (simp add: parse_item_def native_item_id_def get_str_def get_u64_def parse_item_content_def)

end
