(* ===== verification/Capabilities.thy ===== *)
theory Capabilities
  imports Domain
begin

text \<open>
  The capability probe (\<open>apps/bridge/src/capabilities/mod.rs\<close>) and the version table it rests on
  (\<open>adapter/codex/ipc/discovery.rs\<close>): which writes are opened, from which evidence.
\<close>

section \<open>Versions\<close>

definition VERIFIED_VERSIONS :: "string list" where
  "VERIFIED_VERSIONS = [''0.153.0-alpha.5'', ''0.153.1'', ''0.153.4'']"

definition normalized_version :: "string \<Rightarrow> string" where
  "normalized_version version =
     (let v = str_trim version
      in case strip_prefix ''codex-cli'' v of Some r \<Rightarrow> trim_start r | None \<Rightarrow> v)"

definition version_is_verified :: "string \<Rightarrow> bool" where
  "version_is_verified version \<longleftrightarrow> normalized_version version \<in> set VERIFIED_VERSIONS"

section \<open>Probe\<close>

datatype probe_result = NotProbed | Passed | Failed

record write_method_probes =
  wm_start_turn :: probe_result
  wm_steer_turn :: probe_result
  wm_interrupt_turn :: probe_result
  wm_answer_question :: probe_result
  wm_update_settings :: probe_result

definition probes_default :: write_method_probes where
  "probes_default = \<lparr>wm_start_turn = NotProbed, wm_steer_turn = NotProbed, wm_interrupt_turn = NotProbed,
     wm_answer_question = NotProbed, wm_update_settings = NotProbed\<rparr>"

definition all_passed :: "write_method_probes \<Rightarrow> bool" where
  "all_passed w \<longleftrightarrow> wm_start_turn w = Passed \<and> wm_steer_turn w = Passed \<and> wm_interrupt_turn w = Passed \<and>
     wm_answer_question w = Passed \<and> wm_update_settings w = Passed"

definition any_passed :: "write_method_probes \<Rightarrow> bool" where
  "any_passed w \<longleftrightarrow> Passed \<in> set [wm_start_turn w, wm_steer_turn w, wm_interrupt_turn w,
     wm_answer_question w, wm_update_settings w]"

definition REAL_DESKTOP_VERIFIED_CORE_OPS :: write_method_probes where
  "REAL_DESKTOP_VERIFIED_CORE_OPS = \<lparr>wm_start_turn = Passed, wm_steer_turn = Passed, wm_interrupt_turn = Passed,
     wm_answer_question = NotProbed, wm_update_settings = NotProbed\<rparr>"

definition verified_write_probes :: "string option \<Rightarrow> write_method_probes" where
  "verified_write_probes version_report =
     (case map_option normalized_version version_report of
        Some v \<Rightarrow> if v = ''0.153.1'' \<or> v = ''0.153.4'' then REAL_DESKTOP_VERIFIED_CORE_OPS else probes_default
      | None \<Rightarrow> probes_default)"

record probe_input =
  pi_version_report :: "string option"
  pi_version_verified :: bool
  pi_confirmed_incompatible :: bool
  pi_ipc_handshake_ok :: bool
  pi_owner_confirmed :: bool
  pi_write_methods :: write_method_probes
  pi_catalog_sessions_listable :: bool
  pi_catalog_history_readable :: bool
  pi_snapshot_observed :: bool
  pi_settings :: "setting_option list"

text \<open>\<open>Vec::dedup_by\<close> on a key: of adjacent equal ones the first stays.\<close>

fun dedup_key :: "('a \<Rightarrow> 'k) \<Rightarrow> 'a list \<Rightarrow> 'a list" where
  "dedup_key k [] = []"
| "dedup_key k [x] = [x]"
| "dedup_key k (x # y # xs) = (if k x = k y then dedup_key k (x # xs) else x # dedup_key k (y # xs))"

definition dedupe_settings :: "setting_option list \<Rightarrow> setting_option list" where
  "dedupe_settings settings = dedup_key so_option_id (sort_key so_option_id settings)"

definition writes_open :: "probe_input \<Rightarrow> bool" where
  "writes_open i \<longleftrightarrow> pi_version_verified i \<and> pi_ipc_handshake_ok i \<and> pi_owner_confirmed i"

definition probe_operations :: "probe_input \<Rightarrow> operation list" where
  "probe_operations i = (let wo = writes_open i; wm = pi_write_methods i in
     (if wo \<and> wm_start_turn wm = Passed then [StartTurn, QueueNextTurn] else []) @
     (if wo \<and> wm_steer_turn wm = Passed then [SteerTurn] else []) @
     (if wo \<and> wm_interrupt_turn wm = Passed then [InterruptTurn] else []) @
     (if wo \<and> wm_answer_question wm = Passed then [AnswerQuestion, SubmitApproval] else []) @
     (if wo \<and> wm_update_settings wm = Passed then [UpdateSettings] else []))"

definition probe_mode :: "probe_input \<Rightarrow> control_mode" where
  "probe_mode i =
     (if \<not> (pi_ipc_handshake_ok i \<or> pi_catalog_sessions_listable i \<or> pi_catalog_history_readable i) then Unavailable
      else if writes_open i \<and> all_passed (pi_write_methods i) then FullControl
      else if writes_open i \<and> any_passed (pi_write_methods i) then LimitedControl
      else ReadOnly)"

definition probe :: "probe_input \<Rightarrow> capability_set" where
  "probe i =
     \<lparr>cs_control_mode = probe_mode i,
      cs_compatibility_state =
        (if pi_confirmed_incompatible i then Unsupported else if pi_version_verified i then Verified else Degraded),
      cs_codex_version = pi_version_report i,
      cs_supported_operations = probe_operations i,
      cs_settings = dedupe_settings (pi_settings i),
      cs_transfer_limits = transfer_limits_default\<rparr>"

section \<open>Facts\<close>

text \<open>On a list sorted by the key, \<open>dedup_key\<close> keeps exactly the first element of each key.\<close>

lemma dedup_key_keys: "k ` set (dedup_key k xs) = k ` set xs"
  by (induction k xs rule: dedup_key.induct) auto

lemma dedup_key_hd: "xs \<noteq> [] \<Longrightarrow> dedup_key k xs \<noteq> [] \<and> hd (dedup_key k xs) = hd xs"
  by (induction k xs rule: dedup_key.induct) auto

lemma dedup_key_strict:
  fixes k :: "'a \<Rightarrow> 'k::linorder"
  shows "sorted (map k xs) \<Longrightarrow> sorted_wrt (<) (map k (dedup_key k xs))"
proof (induction k xs rule: dedup_key.induct)
  case (3 k x y xs)
  show ?case
  proof (cases "k x = k y")
    case True
    then show ?thesis using "3.IH"(1) "3.prems" by simp
  next
    case False
    then have "k x < k y" using "3.prems" by (simp add: less_le)
    then have "k x < z" if "z \<in> k ` set (dedup_key k (y # xs))" for z
      using that "3.prems" dedup_key_keys [of k "y # xs"] by (auto intro: less_le_trans)
    then show ?thesis using False "3.IH"(2) "3.prems" by auto
  qed
qed auto

lemma dedup_key_first:
  fixes k :: "'a \<Rightarrow> 'k::linorder"
  shows "sorted (map k xs) \<Longrightarrow> s \<in> set (dedup_key k xs) \<Longrightarrow> List.find (\<lambda>x. k x = k s) xs = Some s"
proof (induction k xs rule: dedup_key.induct)
  case (3 k x y xs)
  show ?case
  proof (cases "k x = k y")
    case True
    then show ?thesis using "3.IH"(1) "3.prems" by auto
  next
    case False
    then have lt: "k x < k y" using "3.prems" by (simp add: less_le)
    show ?thesis
    proof (cases "s \<in> set (dedup_key k (y # xs))")
      case True
      then have "k s \<in> k ` set (y # xs)" using dedup_key_keys [of k "y # xs"] by blast
      then have "k x < k s" using lt "3.prems" by auto
      then show ?thesis using False "3.IH"(2) "3.prems" True by auto
    next
      case f: False
      then show ?thesis using False "3.prems" by auto
    qed
  qed
qed auto

lemma find_sort_key:
  fixes k :: "'a \<Rightarrow> 'k::linorder"
  shows "List.find (\<lambda>x. k x = c) (sort_key k xs) = List.find (\<lambda>x. k x = c) xs"
proof -
  have head: "List.find p ys = (case filter p ys of [] \<Rightarrow> None | y # _ \<Rightarrow> Some y)" for p and ys :: "'a list"
    by (induction ys) auto
  have "filter (\<lambda>x. k x = c) (sort_key k xs) = filter (\<lambda>x. k x = c) xs"
    by (rule sort_key_stable [of k c xs])
  then show ?thesis by (simp add: head)
qed

section \<open>Properties\<close>

text \<open>
  C33. Writes are opened only on evidence: an operation is supported exactly when the version is in
  the verified table, the handshake succeeded, an owner is confirmed and the probe of its own method
  passed; operations without a method are never supported; and the control mode says so: full
  control needs every method, read-only and unavailable modes support nothing unless the local
  sources are missing altogether.
\<close>

theorem probe_opens_writes_only_on_evidence:
  "(caps_supports (probe i) x \<longleftrightarrow> writes_open i \<and>
      (case x of
         StartTurn \<Rightarrow> wm_start_turn (pi_write_methods i) = Passed
       | QueueNextTurn \<Rightarrow> wm_start_turn (pi_write_methods i) = Passed
       | SteerTurn \<Rightarrow> wm_steer_turn (pi_write_methods i) = Passed
       | InterruptTurn \<Rightarrow> wm_interrupt_turn (pi_write_methods i) = Passed
       | AnswerQuestion \<Rightarrow> wm_answer_question (pi_write_methods i) = Passed
       | SubmitApproval \<Rightarrow> wm_answer_question (pi_write_methods i) = Passed
       | UpdateSettings \<Rightarrow> wm_update_settings (pi_write_methods i) = Passed
       | _ \<Rightarrow> False)) \<and>
   (cs_control_mode (probe i) \<in> {ReadOnly, Unavailable} \<longleftrightarrow> cs_supported_operations (probe i) = []) \<and>
   (cs_compatibility_state (probe i) = Degraded \<longrightarrow> cs_control_mode (probe i) \<in> {ReadOnly, Unavailable})"
proof (intro conjI)
  show "caps_supports (probe i) x \<longleftrightarrow> writes_open i \<and>
      (case x of
         StartTurn \<Rightarrow> wm_start_turn (pi_write_methods i) = Passed
       | QueueNextTurn \<Rightarrow> wm_start_turn (pi_write_methods i) = Passed
       | SteerTurn \<Rightarrow> wm_steer_turn (pi_write_methods i) = Passed
       | InterruptTurn \<Rightarrow> wm_interrupt_turn (pi_write_methods i) = Passed
       | AnswerQuestion \<Rightarrow> wm_answer_question (pi_write_methods i) = Passed
       | SubmitApproval \<Rightarrow> wm_answer_question (pi_write_methods i) = Passed
       | UpdateSettings \<Rightarrow> wm_update_settings (pi_write_methods i) = Passed
       | _ \<Rightarrow> False)"
    by (cases x) (simp_all add: caps_supports_def probe_def probe_operations_def Let_def)
  show "cs_control_mode (probe i) \<in> {ReadOnly, Unavailable} \<longleftrightarrow> cs_supported_operations (probe i) = []"
    by (auto simp: probe_def probe_operations_def probe_mode_def any_passed_def all_passed_def writes_open_def Let_def)
  show "cs_compatibility_state (probe i) = Degraded \<longrightarrow> cs_control_mode (probe i) \<in> {ReadOnly, Unavailable}"
    by (auto simp: probe_def probe_mode_def writes_open_def)
qed

text \<open>
  The settings of a probe are strictly ordered by option id, cover every option id that was
  supplied, and each one is the first supplied with its id.
\<close>

theorem dedupe_settings_first_of_each:
  "sorted_wrt (<) (map so_option_id (dedupe_settings ss)) \<and>
   so_option_id ` set (dedupe_settings ss) = so_option_id ` set ss \<and>
   (\<forall>s. s \<in> set (dedupe_settings ss) \<longrightarrow> List.find (\<lambda>x. so_option_id x = so_option_id s) ss = Some s)"
  unfolding dedupe_settings_def
  using dedup_key_strict [of so_option_id "sort_key so_option_id ss"] dedup_key_keys [of so_option_id "sort_key so_option_id ss"]
    dedup_key_first [of so_option_id "sort_key so_option_id ss"] find_sort_key [of so_option_id _ ss]
  by simp

definition ex_probe :: probe_input where
  "ex_probe = \<lparr>pi_version_report = Some ''codex-cli 0.153.1'', pi_version_verified = False, pi_confirmed_incompatible = False,
     pi_ipc_handshake_ok = True, pi_owner_confirmed = True, pi_write_methods = REAL_DESKTOP_VERIFIED_CORE_OPS,
     pi_catalog_sessions_listable = True, pi_catalog_history_readable = True, pi_snapshot_observed = True, pi_settings = []\<rparr>"

theorem probe_opens_writes_only_on_evidence_witness:
  "cs_compatibility_state (probe ex_probe) = Degraded \<and> cs_control_mode (probe ex_probe) \<in> {ReadOnly, Unavailable}"
proof -
  have "cs_compatibility_state (probe ex_probe) = Degraded" by (simp add: probe_def ex_probe_def)
  with probe_opens_writes_only_on_evidence [of ex_probe StartTurn] show ?thesis by blast
qed

definition ex_setting :: "string \<Rightarrow> string \<Rightarrow> setting_option" where
  "ex_setting i l = \<lparr>so_option_id = i, so_kind = SkModel, so_label = l, so_current_value = None, so_available_values = [], so_mutable = True\<rparr>"

theorem dedupe_settings_first_of_each_witness:
  "List.find (\<lambda>x. so_option_id x = ''a'') [ex_setting ''b'' ''1'', ex_setting ''a'' ''2'', ex_setting ''a'' ''3''] = Some (ex_setting ''a'' ''2'')"
proof -
  let ?ss = "[ex_setting ''b'' ''1'', ex_setting ''a'' ''2'', ex_setting ''a'' ''3'']"
  have "ex_setting ''a'' ''2'' \<in> set (dedupe_settings ?ss)"
    by (simp add: dedupe_settings_def ex_setting_def less_char_def)
  then show ?thesis using dedupe_settings_first_of_each [of ?ss] by (fastforce simp: ex_setting_def)
qed

text \<open>The write matrix opens starting, steering and interrupting turns for version 0.153.4.\<close>

lemma writes_verified_for_0_153_4: "verified_write_probes (Some ''0.153.4'') = REAL_DESKTOP_VERIFIED_CORE_OPS"
proof -
  have ws: "hd w \<noteq> CHR ''0'' \<and> last w \<noteq> CHR ''4''" if "w \<in> set ws_seqs" for w
    using that by (auto simp: ws_seqs_def utf8_bytes_def upt_rec char_of_eq_iff)
  have "\<not> starts_with w ''0.153.4''" if "w \<in> set ws_seqs" "w \<noteq> []" for w
    using ws [OF that(1)] that(2) by (cases w) (auto simp: starts_with_def)
  then have "trim_start ''0.153.4'' = ''0.153.4''" unfolding trim_start_def by (rule strip_seqs_id)
  moreover have "\<not> starts_with w (rev ''0.153.4'')" if w: "w \<in> set (map rev ws_seqs)" and ne: "w \<noteq> []" for w
  proof -
    obtain v where "v \<in> set ws_seqs" "w = rev v" using w by auto
    then have "hd w \<noteq> CHR ''4''" using ws [of v] by (simp add: hd_rev)
    then show ?thesis using ne by (cases w) (auto simp: starts_with_def)
  qed
  then have "trim_end ''0.153.4'' = ''0.153.4''" unfolding trim_end_def
    by (subst strip_seqs_id) simp_all
  ultimately show ?thesis
    by (simp add: verified_write_probes_def normalized_version_def str_trim_def strip_prefix_def starts_with_def)
qed

end
