(* ===== verification/Local_Store.thy ===== *)
theory Local_Store
  imports Domain
begin

text \<open>
  The bridge's own database (\<open>apps/bridge/src/local_store\<close>): binding, authorised workspaces, request
  receipts, the one-entry next-turn queue, capability cache, cursors, privacy switches and the
  cleanup log. A table is an association list from its primary key; a statement or transaction is
  one function. SQLite itself is not part of the repository: its failures are an argument \<open>flt\<close> of
  each operation, and a failed operation leaves the tables unchanged, as transactions promise.
  \<open>now\<close> is the time text of \<open>now_rfc3339\<close>.
\<close>

section \<open>Models\<close>

record session_ref =
  sr_device_id :: string
  sr_agent_kind :: int
  sr_native_session_id :: string

datatype binding_status = BsUnbound | BsPairing | BsPaired

fun binding_status_str :: "binding_status \<Rightarrow> string" where
  "binding_status_str BsUnbound = ''UNBOUND''"
| "binding_status_str BsPairing = ''PAIRING''"
| "binding_status_str BsPaired = ''PAIRED''"

definition binding_status_parse :: "string \<Rightarrow> binding_status" where
  "binding_status_parse s = (if s = ''PAIRING'' then BsPairing else if s = ''PAIRED'' then BsPaired else BsUnbound)"

record binding =
  bd_relay_url :: string
  bd_device_id :: string
  bd_status :: binding_status

record authorized_workspace =
  aw_root_path :: string
  aw_display_name :: string
  aw_authorized_at :: string

record request_receipt =
  rr_request_id :: string
  rr_session :: session_ref
  rr_operation :: string
  rr_status :: string
  rr_payload_digest :: string
  rr_created_at :: string
  rr_updated_at :: string

datatype upsert_outcome = Inserted | Existing

datatype queue_status = StQueued | StPaused | StEmpty

fun queue_status_str :: "queue_status \<Rightarrow> string" where
  "queue_status_str StQueued = ''QUEUED''"
| "queue_status_str StPaused = ''PAUSED''"
| "queue_status_str StEmpty = ''EMPTY''"

definition queue_status_parse :: "string \<Rightarrow> queue_status" where
  "queue_status_parse s = (if s = ''PAUSED'' then StPaused else if s = ''EMPTY'' then StEmpty else StQueued)"

record next_turn_entry =
  nt_session :: session_ref
  nt_prompt :: string
  nt_after_turn_id :: string
  nt_runtime_revision :: u64
  nt_status :: queue_status
  nt_created_at :: string
  nt_updated_at :: string

record capability_entry =
  ce_probe_json :: string
  ce_schema_version :: int
  ce_updated_at :: string

record upload_cleanup =
  uc_id :: nat
  uc_directory :: string
  uc_reason :: string
  uc_cleaned_at :: string

text \<open>An error of the SQL library, of which the code only reads the message.\<close>

datatype sqlx_error = Sqlx_error (sqlx_text: string)

datatype store_error =
    SeSqlx sqlx_error
  | SeIo string
  | SeMigration string
  | SeDuplicateRequestMismatch string
  | SeQueueAlreadyExists

fun store_error_text :: "store_error \<Rightarrow> string" where
  "store_error_text (SeSqlx e) = ''sqlite: '' @ sqlx_text e"
| "store_error_text (SeIo m) = ''io: '' @ m"
| "store_error_text (SeMigration m) = ''migration: '' @ m"
| "store_error_text (SeDuplicateRequestMismatch i) = ''duplicate request mismatch: '' @ i"
| "store_error_text SeQueueAlreadyExists = ''queue already exists for session''"

section \<open>Tables\<close>

record queue_row =
  qr_prompt :: string
  qr_after_turn_id :: string
  qr_runtime_revision :: u64
  qr_status :: string
  qr_created_at :: string
  qr_updated_at :: string

record binding_row =
  br_relay_url :: string
  br_device_id :: string
  br_status :: string
  br_updated_at :: string

record store =
  st_binding :: binding_row
  st_workspaces :: "(string \<times> string \<times> string) list"
  st_receipts :: "(string \<times> request_receipt) list"
  st_queue :: "(session_ref \<times> queue_row) list"
  st_capability :: "capability_entry option"
  st_cursors :: "(string \<times> string \<times> string) list"
  st_privacy :: "(string \<times> int \<times> string) list"
  st_cleanups :: "upload_cleanup list"

definition store_new :: store where
  "store_new = \<lparr>st_binding = \<lparr>br_relay_url = [], br_device_id = [], br_status = ''UNBOUND'', br_updated_at = []\<rparr>,
     st_workspaces = [], st_receipts = [], st_queue = [], st_capability = None, st_cursors = [], st_privacy = [], st_cleanups = []\<rparr>"

text \<open>A statement that fails has no effect.\<close>

definition guarded :: "sqlx_error option \<Rightarrow> (store \<Rightarrow> store \<times> (store_error + 'a)) \<Rightarrow> store \<Rightarrow> store \<times> (store_error + 'a)" where
  "guarded flt f st = (case flt of Some e \<Rightarrow> (st, Inl (SeSqlx e)) | None \<Rightarrow> f st)"

section \<open>Binding and workspaces\<close>

definition get_binding :: "sqlx_error option \<Rightarrow> store \<Rightarrow> store_error + binding" where
  "get_binding flt st = (case flt of Some e \<Rightarrow> Inl (SeSqlx e)
     | None \<Rightarrow> (let r = st_binding st in Inr \<lparr>bd_relay_url = br_relay_url r, bd_device_id = br_device_id r,
         bd_status = binding_status_parse (br_status r)\<rparr>))"

definition set_binding :: "string \<Rightarrow> string \<Rightarrow> string \<Rightarrow> binding_status \<Rightarrow> sqlx_error option \<Rightarrow> store \<Rightarrow> store \<times> (store_error + unit)" where
  "set_binding now url dev status flt = guarded flt (\<lambda>st. (st\<lparr>st_binding := \<lparr>br_relay_url = url, br_device_id = dev,
     br_status = binding_status_str status, br_updated_at = now\<rparr>\<rparr>, Inr ()))"

definition clear_binding :: "string \<Rightarrow> sqlx_error option \<Rightarrow> store \<Rightarrow> store \<times> (store_error + unit)" where
  "clear_binding now flt = guarded flt (\<lambda>st. (st\<lparr>st_binding := (st_binding st)\<lparr>br_device_id := [],
     br_status := ''UNBOUND'', br_updated_at := now\<rparr>\<rparr>, Inr ()))"

definition authorize_workspace :: "string \<Rightarrow> string \<Rightarrow> string \<Rightarrow> sqlx_error option \<Rightarrow> store \<Rightarrow> store \<times> (store_error + unit)" where
  "authorize_workspace now root name flt = guarded flt (\<lambda>st. (st\<lparr>st_workspaces := AList.update root (name, now) (st_workspaces st)\<rparr>, Inr ()))"

definition list_workspaces :: "sqlx_error option \<Rightarrow> store \<Rightarrow> store_error + authorized_workspace list" where
  "list_workspaces flt st = (case flt of Some e \<Rightarrow> Inl (SeSqlx e)
     | None \<Rightarrow> Inr (sort_key aw_authorized_at (map (\<lambda>(root, name, at).
         \<lparr>aw_root_path = root, aw_display_name = name, aw_authorized_at = at\<rparr>) (st_workspaces st))))"

definition revoke_workspace :: "string \<Rightarrow> sqlx_error option \<Rightarrow> store \<Rightarrow> store \<times> (store_error + bool)" where
  "revoke_workspace root flt = guarded flt (\<lambda>st. (st\<lparr>st_workspaces := AList.delete root (st_workspaces st)\<rparr>,
     Inr (map_of (st_workspaces st) root \<noteq> None)))"

section \<open>Receipts\<close>

definition record_receipt :: "request_receipt \<Rightarrow> sqlx_error option \<Rightarrow> store \<Rightarrow> store \<times> (store_error + upsert_outcome)" where
  "record_receipt r flt = guarded flt (\<lambda>st. case map_of (st_receipts st) (rr_request_id r) of
     Some old \<Rightarrow> if rr_payload_digest old \<noteq> rr_payload_digest r
                 then (st, Inl (SeDuplicateRequestMismatch (rr_request_id r))) else (st, Inr Existing)
   | None \<Rightarrow> (st\<lparr>st_receipts := AList.update (rr_request_id r) r (st_receipts st)\<rparr>, Inr Inserted))"

definition update_receipt_status :: "string \<Rightarrow> string \<Rightarrow> string \<Rightarrow> sqlx_error option \<Rightarrow> store \<Rightarrow> store \<times> (store_error + bool)" where
  "update_receipt_status now i status flt = guarded flt (\<lambda>st. case map_of (st_receipts st) i of
     None \<Rightarrow> (st, Inr False)
   | Some r \<Rightarrow> (st\<lparr>st_receipts := AList.update i (r\<lparr>rr_status := status, rr_updated_at := now\<rparr>) (st_receipts st)\<rparr>, Inr True))"

text \<open>The query does not select \<open>updated_at\<close>; the result repeats \<open>created_at\<close> there.\<close>

definition get_receipt :: "string \<Rightarrow> sqlx_error option \<Rightarrow> store \<Rightarrow> store_error + request_receipt option" where
  "get_receipt i flt st = (case flt of Some e \<Rightarrow> Inl (SeSqlx e)
     | None \<Rightarrow> Inr (map_option (\<lambda>r. r\<lparr>rr_updated_at := rr_created_at r\<rparr>) (map_of (st_receipts st) i)))"

section \<open>The next-turn queue\<close>

definition set_next_turn :: "string \<Rightarrow> next_turn_entry \<Rightarrow> bool \<Rightarrow> sqlx_error option \<Rightarrow> store \<Rightarrow> store \<times> (store_error + unit)" where
  "set_next_turn now e replace flt = guarded flt (\<lambda>st. case map_of (st_queue st) (nt_session e) of
     Some old \<Rightarrow>
       if \<not> replace then (st, Inl SeQueueAlreadyExists)
       else (st\<lparr>st_queue := AList.update (nt_session e) (old\<lparr>qr_prompt := nt_prompt e, qr_after_turn_id := nt_after_turn_id e,
               qr_runtime_revision := nt_runtime_revision e, qr_status := queue_status_str (nt_status e), qr_updated_at := now\<rparr>)
               (st_queue st)\<rparr>, Inr ())
   | None \<Rightarrow> (st\<lparr>st_queue := AList.update (nt_session e) \<lparr>qr_prompt = nt_prompt e, qr_after_turn_id = nt_after_turn_id e,
               qr_runtime_revision = nt_runtime_revision e, qr_status = queue_status_str (nt_status e),
               qr_created_at = nt_created_at e, qr_updated_at = nt_updated_at e\<rparr> (st_queue st)\<rparr>, Inr ()))"

text \<open>A row as \<open>get_next_turn\<close> reports it; again \<open>updated_at\<close> is not selected.\<close>

definition entry_of_row :: "session_ref \<Rightarrow> queue_row \<Rightarrow> next_turn_entry" where
  "entry_of_row s r = \<lparr>nt_session = s, nt_prompt = qr_prompt r, nt_after_turn_id = qr_after_turn_id r,
     nt_runtime_revision = qr_runtime_revision r, nt_status = queue_status_parse (qr_status r),
     nt_created_at = qr_created_at r, nt_updated_at = qr_created_at r\<rparr>"

definition get_next_turn :: "session_ref \<Rightarrow> sqlx_error option \<Rightarrow> store \<Rightarrow> store_error + next_turn_entry option" where
  "get_next_turn s flt st = (case flt of Some e \<Rightarrow> Inl (SeSqlx e)
     | None \<Rightarrow> Inr (map_option (entry_of_row s) (map_of (st_queue st) s)))"

definition clear_next_turn :: "session_ref \<Rightarrow> sqlx_error option \<Rightarrow> store \<Rightarrow> store \<times> (store_error + bool)" where
  "clear_next_turn s flt = guarded flt (\<lambda>st. (st\<lparr>st_queue := AList.delete s (st_queue st)\<rparr>,
     Inr (map_of (st_queue st) s \<noteq> None)))"

section \<open>Capability cache, cursors, privacy, cleanups\<close>

definition put_capability :: "string \<Rightarrow> string \<Rightarrow> int \<Rightarrow> sqlx_error option \<Rightarrow> store \<Rightarrow> store \<times> (store_error + unit)" where
  "put_capability now json v flt = guarded flt (\<lambda>st. (st\<lparr>st_capability :=
     Some \<lparr>ce_probe_json = json, ce_schema_version = v, ce_updated_at = now\<rparr>\<rparr>, Inr ()))"

definition get_capability :: "sqlx_error option \<Rightarrow> store \<Rightarrow> store_error + capability_entry option" where
  "get_capability flt st = (case flt of Some e \<Rightarrow> Inl (SeSqlx e) | None \<Rightarrow> Inr (st_capability st))"

definition put_cursor :: "string \<Rightarrow> string \<Rightarrow> string \<Rightarrow> sqlx_error option \<Rightarrow> store \<Rightarrow> store \<times> (store_error + unit)" where
  "put_cursor now k v flt = guarded flt (\<lambda>st. (st\<lparr>st_cursors := AList.update k (v, now) (st_cursors st)\<rparr>, Inr ()))"

definition get_cursor :: "string \<Rightarrow> sqlx_error option \<Rightarrow> store \<Rightarrow> store_error + string option" where
  "get_cursor k flt st = (case flt of Some e \<Rightarrow> Inl (SeSqlx e) | None \<Rightarrow> Inr (map_option fst (map_of (st_cursors st) k)))"

definition set_privacy :: "string \<Rightarrow> string \<Rightarrow> bool \<Rightarrow> sqlx_error option \<Rightarrow> store \<Rightarrow> store \<times> (store_error + unit)" where
  "set_privacy now k b flt = guarded flt (\<lambda>st. (st\<lparr>st_privacy := AList.update k (if b then 1 else 0, now) (st_privacy st)\<rparr>, Inr ()))"

definition get_privacy :: "string \<Rightarrow> sqlx_error option \<Rightarrow> store \<Rightarrow> store_error + bool option" where
  "get_privacy k flt st = (case flt of Some e \<Rightarrow> Inl (SeSqlx e)
     | None \<Rightarrow> Inr (map_option (\<lambda>(v, _). v \<noteq> 0) (map_of (st_privacy st) k)))"

text \<open>The key is \<open>AUTOINCREMENT\<close>; rows are never deleted, so the next id is one more than the number of rows.\<close>

definition record_upload_cleanup :: "string \<Rightarrow> string \<Rightarrow> string \<Rightarrow> sqlx_error option \<Rightarrow> store \<Rightarrow> store \<times> (store_error + unit)" where
  "record_upload_cleanup now dir reason flt = guarded flt (\<lambda>st. (st\<lparr>st_cleanups := st_cleanups st @
     [\<lparr>uc_id = length (st_cleanups st) + 1, uc_directory = dir, uc_reason = reason, uc_cleaned_at = now\<rparr>]\<rparr>, Inr ()))"

definition list_upload_cleanups :: "sqlx_error option \<Rightarrow> store \<Rightarrow> store_error + upload_cleanup list" where
  "list_upload_cleanups flt st = (case flt of Some e \<Rightarrow> Inl (SeSqlx e) | None \<Rightarrow> Inr (sort_key uc_id (st_cleanups st)))"

section \<open>Runs of the store\<close>

datatype store_op =
    SoSetBinding string string string binding_status "sqlx_error option"
  | SoClearBinding string "sqlx_error option"
  | SoAuthorize string string string "sqlx_error option"
  | SoRevoke string "sqlx_error option"
  | SoRecord request_receipt "sqlx_error option"
  | SoUpdateStatus string string string "sqlx_error option"
  | SoSetNextTurn string next_turn_entry bool "sqlx_error option"
  | SoClearNextTurn session_ref "sqlx_error option"
  | SoPutCapability string string int "sqlx_error option"
  | SoPutCursor string string string "sqlx_error option"
  | SoSetPrivacy string string bool "sqlx_error option"
  | SoCleanup string string string "sqlx_error option"

fun store_step :: "store \<Rightarrow> store_op \<Rightarrow> store" where
  "store_step st (SoSetBinding now url dev s f) = fst (set_binding now url dev s f st)"
| "store_step st (SoClearBinding now f) = fst (clear_binding now f st)"
| "store_step st (SoAuthorize now root name f) = fst (authorize_workspace now root name f st)"
| "store_step st (SoRevoke root f) = fst (revoke_workspace root f st)"
| "store_step st (SoRecord r f) = fst (record_receipt r f st)"
| "store_step st (SoUpdateStatus now i s f) = fst (update_receipt_status now i s f st)"
| "store_step st (SoSetNextTurn now e rep f) = fst (set_next_turn now e rep f st)"
| "store_step st (SoClearNextTurn s f) = fst (clear_next_turn s f st)"
| "store_step st (SoPutCapability now j v f) = fst (put_capability now j v f st)"
| "store_step st (SoPutCursor now k v f) = fst (put_cursor now k v f st)"
| "store_step st (SoSetPrivacy now k b f) = fst (set_privacy now k b f st)"
| "store_step st (SoCleanup now d r f) = fst (record_upload_cleanup now d r f st)"

fun store_enters :: "store \<Rightarrow> store_op \<Rightarrow> string list" where
  "store_enters st (SoRecord r f) = (if snd (record_receipt r f st) = Inr Inserted then [rr_request_id r] else [])"
| "store_enters st _ = []"

abbreviation has_receipt :: "store \<Rightarrow> string \<Rightarrow> bool" where
  "has_receipt st i \<equiv> map_of (st_receipts st) i \<noteq> None"

lemmas store_ops = set_binding_def clear_binding_def authorize_workspace_def revoke_workspace_def
  update_receipt_status_def set_next_turn_def clear_next_turn_def put_capability_def put_cursor_def
  set_privacy_def record_upload_cleanup_def

definition store_ok :: "store \<Rightarrow> bool" where
  "store_ok st \<longleftrightarrow> keys_distinct (st_workspaces st) \<and> keys_distinct (st_receipts st) \<and> keys_distinct (st_queue st) \<and>
     keys_distinct (st_cursors st) \<and> keys_distinct (st_privacy st) \<and>
     map uc_id (st_cleanups st) = [1..<length (st_cleanups st) + 1] \<and>
     list_all (\<lambda>kr. rr_request_id (snd kr) = fst kr) (st_receipts st) \<and>
     list_all (\<lambda>kr. qr_status (snd kr) \<in> {''QUEUED'', ''PAUSED'', ''EMPTY''}) (st_queue st)"

lemma list_all_update: "list_all p kvs \<Longrightarrow> p (k, v) \<Longrightarrow> list_all p (AList.update k v kvs)"
  by (induction kvs) auto

lemma queue_status_str_valid: "queue_status_str q \<in> {''QUEUED'', ''PAUSED'', ''EMPTY''}"
  by (cases q) auto

lemma store_ok_step:
  assumes "store_ok st"
  shows "store_ok (store_step st x)"
proof (cases x)
  case (SoRecord r f)
  then show ?thesis using assms
    by (auto simp: record_receipt_def guarded_def store_ok_def split: option.splits intro!: list_all_update)
next
  case (SoUpdateStatus now i s f)
  have "rr_request_id r = i" if "map_of (st_receipts st) i = Some r" for r
    using assms map_of_SomeD [OF that] by (auto simp: store_ok_def list_all_iff)
  then show ?thesis using assms SoUpdateStatus
    by (auto simp: update_receipt_status_def guarded_def store_ok_def split: option.splits intro!: list_all_update)
next
  case (SoSetNextTurn now e rep f)
  then show ?thesis using assms queue_status_str_valid [of "nt_status e"]
    by (auto simp: set_next_turn_def guarded_def store_ok_def split: option.splits intro!: list_all_update)
next
  case (SoClearNextTurn s f)
  then show ?thesis using assms
    by (auto simp: clear_next_turn_def guarded_def store_ok_def AList.delete_eq list_all_iff distinct_map_filter split: option.splits)
next
  case (SoRevoke root f)
  then show ?thesis using assms
    by (auto simp: revoke_workspace_def guarded_def store_ok_def AList.delete_eq distinct_map_filter split: option.splits)
qed (use assms in \<open>auto simp: store_ops guarded_def store_ok_def split: option.splits\<close>)

lemma store_new_ok: "store_ok store_new"
  by (simp add: store_ok_def store_new_def)

interpretation store_m: op_machine_init store_step store_ok store_new
  by unfold_locales (rule store_ok_step store_new_ok, assumption?)+

text \<open>What a receipt keeps for ever: everything but its status and the time of its last change.\<close>

definition receipt_core :: "request_receipt \<Rightarrow> request_receipt" where
  "receipt_core r = r\<lparr>rr_status := [], rr_updated_at := []\<rparr>"

lemma receipt_core_stays:
  "map_of (st_receipts st) i = Some r \<Longrightarrow>
     \<exists>r'. map_of (st_receipts (store_step st x)) i = Some r' \<and> receipt_core r' = receipt_core r"
proof (cases x)
  case (SoRecord q f)
  assume "map_of (st_receipts st) i = Some r"
  then show ?thesis using SoRecord by (auto simp: record_receipt_def guarded_def split: option.splits)
next
  case (SoUpdateStatus now j s f)
  assume "map_of (st_receipts st) i = Some r"
  then show ?thesis using SoUpdateStatus
    by (auto simp: update_receipt_status_def guarded_def receipt_core_def split: option.splits)
qed (auto simp: store_ops guarded_def split: option.splits)

interpretation receipts: once_ledger store_step "\<lambda>_. True" store_enters has_receipt
proof
  show "\<not> has_receipt s i \<and> has_receipt (store_step s x) i" if "i \<in> set (store_enters s x)" for i s x
    using that by (cases "(s, x)" rule: store_enters.cases)
      (auto simp: record_receipt_def guarded_def split: option.splits if_splits)
  show "distinct (store_enters s x)" for s x by (cases "(s, x)" rule: store_enters.cases) auto
  show "has_receipt (store_step s x) i" if "has_receipt s i" for s i x
    using that receipt_core_stays [of s i _ x] by auto
qed

section \<open>Properties\<close>

text \<open>
  The receipts are a ledger: in every run of the store, a request id is entered at most once,
  whatever is retried, updated or failing in between; and from then on session, operation, digest
  and creation time of its receipt never change, only the status does.
\<close>

theorem receipt_entered_once_and_kept:
  "count_list (run_log store_step store_enters store_new ops) i \<le> 1 \<and>
   (\<forall>r. map_of (st_receipts st) i = Some r \<longrightarrow>
      (\<exists>r'. map_of (st_receipts (foldl store_step st ops)) i = Some r' \<and> receipt_core r' = receipt_core r) \<and>
      i \<notin> set (run_log store_step store_enters st ops))"
proof (intro conjI allI impI)
  show "count_list (run_log store_step store_enters store_new ops) i \<le> 1"
    using receipts.entered_at_most_once [of store_new ops i] by (simp split: if_splits)
  fix r
  assume r: "map_of (st_receipts st) i = Some r"
  show "\<exists>r'. map_of (st_receipts (foldl store_step st ops)) i = Some r' \<and> receipt_core r' = receipt_core r"
    using r
  proof (induction ops arbitrary: st r)
    case (Cons x ops)
    obtain r' where "map_of (st_receipts (store_step st x)) i = Some r'" "receipt_core r' = receipt_core r"
      using receipt_core_stays [OF Cons.prems] by blast
    then show ?case using Cons.IH [of "store_step st x" r'] by simp
  qed simp
  show "i \<notin> set (run_log store_step store_enters st ops)"
    using r receipts.known_not_entered [of st i ops] by simp
qed

lemma queue_status_round_trip [simp]: "queue_status_parse (queue_status_str q) = q"
  by (cases q) (simp_all add: queue_status_parse_def)

lemma binding_status_round_trip [simp]: "binding_status_parse (binding_status_str b) = b"
  by (cases b) (simp_all add: binding_status_parse_def)

lemma binding_unbound [simp]: "binding_status_parse ''UNBOUND'' = BsUnbound"
  by (simp add: binding_status_parse_def)

declare delete_conv' [simp]

lemma set_next_turn_get:
  assumes "set_next_turn now e rep None st = (st', Inr ())"
  shows "get_next_turn (nt_session e) None st' = Inr (Some (case map_of (st_queue st) (nt_session e) of
      Some old \<Rightarrow> e\<lparr>nt_created_at := qr_created_at old, nt_updated_at := qr_created_at old\<rparr>
    | None \<Rightarrow> e\<lparr>nt_updated_at := nt_created_at e\<rparr>))"
  using assms by (auto simp: set_next_turn_def guarded_def get_next_turn_def entry_of_row_def split: option.splits if_splits)

text \<open>
  The next-turn queue holds at most one entry per session: a first entry can be read back;
  without \<open>replace\<close> a second one is refused and changes nothing; with \<open>replace\<close> it takes the
  place of the old one, keeping the creation time; clearing removes it and says whether there was
  one; other sessions never notice.
\<close>

theorem queue_entry_round_trip:
  "(case set_next_turn now e rep None st of
      (st', Inr _) \<Rightarrow>
        get_next_turn (nt_session e) None st' = Inr (Some (case map_of (st_queue st) (nt_session e) of
            Some old \<Rightarrow> e\<lparr>nt_created_at := qr_created_at old, nt_updated_at := qr_created_at old\<rparr>
          | None \<Rightarrow> e\<lparr>nt_updated_at := nt_created_at e\<rparr>)) \<and>
        (rep \<or> get_next_turn (nt_session e) None st = Inr None) \<and>
        (map_of (st_queue st'))(nt_session e := None) = (map_of (st_queue st))(nt_session e := None)
    | (st', Inl err) \<Rightarrow> err = SeQueueAlreadyExists \<and> st' = st \<and> \<not> rep \<and> get_next_turn (nt_session e) None st \<noteq> Inr None) \<and>
   (case clear_next_turn s None st of
      (st', Inr b) \<Rightarrow> get_next_turn s None st' = Inr None \<and> b = (get_next_turn s None st \<noteq> Inr None) \<and>
        (map_of (st_queue st'))(s := None) = (map_of (st_queue st))(s := None)
    | (st', Inl err) \<Rightarrow> False)"
  by (auto simp: set_next_turn_def clear_next_turn_def guarded_def get_next_turn_def entry_of_row_def fun_upd_def split: option.splits)

text \<open>
  What is stored is what is read: binding, cursors, privacy switches, capability cache and
  receipts read back as written, and unpairing keeps the relay address.
\<close>

theorem store_round_trips:
  "get_binding None (fst (set_binding now url dev bs None st)) = Inr \<lparr>bd_relay_url = url, bd_device_id = dev, bd_status = bs\<rparr> \<and>
   get_binding None (fst (clear_binding now' None (fst (set_binding now url dev bs None st)))) =
     Inr \<lparr>bd_relay_url = url, bd_device_id = [], bd_status = BsUnbound\<rparr> \<and>
   get_cursor k None (fst (put_cursor now k v None st)) = Inr (Some v) \<and>
   get_privacy k None (fst (set_privacy now k b None st)) = Inr (Some b) \<and>
   get_capability None (fst (put_capability now v j None st)) = Inr (Some \<lparr>ce_probe_json = v, ce_schema_version = j, ce_updated_at = now\<rparr>) \<and>
   (case record_receipt r None st of
      (st', Inr Inserted) \<Rightarrow> get_receipt (rr_request_id r) None st' = Inr (Some (r\<lparr>rr_updated_at := rr_created_at r\<rparr>))
    | (st', Inr Existing) \<Rightarrow> st' = st \<and> (\<exists>old. get_receipt (rr_request_id r) None st = Inr (Some old) \<and> rr_payload_digest old = rr_payload_digest r)
    | (st', Inl err) \<Rightarrow> st' = st \<and> err = SeDuplicateRequestMismatch (rr_request_id r) \<and>
        (\<exists>old. get_receipt (rr_request_id r) None st = Inr (Some old) \<and> rr_payload_digest old \<noteq> rr_payload_digest r))"
  by (auto simp: store_ops record_receipt_def guarded_def get_binding_def get_cursor_def get_privacy_def get_capability_def
      get_receipt_def split: option.splits)

definition ex_receipt :: "string \<Rightarrow> string \<Rightarrow> request_receipt" where
  "ex_receipt i d = \<lparr>rr_request_id = i, rr_session = \<lparr>sr_device_id = ''d'', sr_agent_kind = 1, sr_native_session_id = ''s''\<rparr>,
     rr_operation = ''start_turn'', rr_status = ''ACCEPTED_BY_BRIDGE'', rr_payload_digest = d, rr_created_at = ''t0'', rr_updated_at = ''t0''\<rparr>"

theorem receipt_entered_once_and_kept_witness:
  "''r1'' \<notin> set (run_log store_step store_enters (store_step store_new (SoRecord (ex_receipt ''r1'' ''x'') None))
     [SoRecord (ex_receipt ''r1'' ''y'') None, SoRecord (ex_receipt ''r1'' ''x'') None])"
proof -
  let ?st = "store_step store_new (SoRecord (ex_receipt ''r1'' ''x'') None)"
  have "map_of (st_receipts ?st) ''r1'' = Some (ex_receipt ''r1'' ''x'')"
    by (simp add: record_receipt_def guarded_def store_new_def ex_receipt_def)
  then show ?thesis
    using receipt_entered_once_and_kept [where st = ?st and i = "''r1''" and
        ops = "[SoRecord (ex_receipt ''r1'' ''y'') None, SoRecord (ex_receipt ''r1'' ''x'') None]"] by blast
qed

end
