(* ===== verification/Commands.thy ===== *)
theory Commands
  imports Local_Store
begin

text \<open>
  What the write pipeline of the bridge shares (\<open>apps/bridge/src/commands/mod.rs\<close>): names of
  operations and receipt states, error codes of the store, the errors of the desktop adapter
  (\<open>adapter/codex/mod.rs\<close>), and the database as the pipeline calls it. The environment decides for
  each store call whether SQLite fails: the faults of the coming calls are a list, of which every
  call takes the first.
\<close>

section \<open>Names and codes\<close>

fun operation_name :: "operation \<Rightarrow> string" where
  "operation_name CreateSession = ''create_session''"
| "operation_name StartTurn = ''start_turn''"
| "operation_name QueueNextTurn = ''queue_next_turn''"
| "operation_name SteerTurn = ''steer_turn''"
| "operation_name InterruptTurn = ''interrupt_turn''"
| "operation_name AnswerQuestion = ''answer_question''"
| "operation_name SubmitApproval = ''submit_approval''"
| "operation_name UpdateSettings = ''update_settings''"
| "operation_name RenameSession = ''rename_session''"
| "operation_name ArchiveSession = ''archive_session''"
| "operation_name UnarchiveSession = ''unarchive_session''"
| "operation_name ForkSession = ''fork_session''"
| "operation_name StopBackgroundCommand = ''stop_background_command''"
| "operation_name StopAllBackgroundCommands = ''stop_all_background_commands''"

fun receipt_status_str :: "receipt_state \<Rightarrow> string" where
  "receipt_status_str RsDispatchedToCodex = ''DISPATCHED_TO_CODEX''"
| "receipt_status_str RsCompleted = ''COMPLETED''"
| "receipt_status_str (RsRejected c m) = ''REJECTED''"
| "receipt_status_str RsOutcomeUnknown = ''OUTCOME_UNKNOWN''"

fun store_error_code :: "store_error \<Rightarrow> stable_error_code" where
  "store_error_code (SeDuplicateRequestMismatch i) = DuplicateRequestMismatch"
| "store_error_code SeQueueAlreadyExists = QueueAlreadyExists"
| "store_error_code _ = InternalError"

definition store_err :: "store_error \<Rightarrow> bridge_error" where
  "store_err e = bridge_err (store_error_code e) (store_error_text e)"

definition session_ref_of :: "session_key \<Rightarrow> session_ref" where
  "session_ref_of k = \<lparr>sr_device_id = sk_device_id k, sr_agent_kind = proto_value (sk_agent_kind k),
     sr_native_session_id = sk_native_session_id k\<rparr>"

section \<open>Adapter errors\<close>

datatype adapter_error = AeIpc string | AeCatalog string | AeStable stable_error_code string

fun adapter_code :: "adapter_error \<Rightarrow> stable_error_code" where
  "adapter_code (AeStable c m) = c"
| "adapter_code (AeIpc m) = CodexUnavailable"
| "adapter_code (AeCatalog m) = CodexUnavailable"

fun adapter_error_text :: "adapter_error \<Rightarrow> string" where
  "adapter_error_text (AeIpc m) = ''ipc: '' @ m"
| "adapter_error_text (AeCatalog m) = ''catalog: '' @ m"
| "adapter_error_text (AeStable c m) = code_as_str c @ '': '' @ m"

fun adapter_message :: "adapter_error \<Rightarrow> string" where
  "adapter_message (AeStable c m) = m"
| "adapter_message e = adapter_error_text e"

section \<open>The database as it is called\<close>

record db =
  db_store :: store
  db_faults :: "sqlx_error option list"
  db_slept :: nat

definition next_fault :: "db \<Rightarrow> sqlx_error option" where
  "next_fault d = (case db_faults d of [] \<Rightarrow> None | f # _ \<Rightarrow> f)"

definition db_call :: "(sqlx_error option \<Rightarrow> store \<Rightarrow> store \<times> 'a) \<Rightarrow> db \<Rightarrow> db \<times> 'a" where
  "db_call f d = (let (st, r) = f (next_fault d) (db_store d) in (d\<lparr>db_store := st, db_faults := tl (db_faults d)\<rparr>, r))"

definition db_read :: "(sqlx_error option \<Rightarrow> store \<Rightarrow> 'a) \<Rightarrow> db \<Rightarrow> db \<times> 'a" where
  "db_read f d = (d\<lparr>db_faults := tl (db_faults d)\<rparr>, f (next_fault d) (db_store d))"

definition is_busy :: "store_error \<Rightarrow> bool" where
  "is_busy e = (case e of SeSqlx x \<Rightarrow> str_contains ''database is locked'' (sqlx_text x) | _ \<Rightarrow> False)"

definition MAX_ATTEMPTS :: nat where [simp]: "MAX_ATTEMPTS = 10"

text \<open>
  The bounded retry of the queue writes, from the given number of failed attempts on; \<open>db_slept\<close>
  adds up the milliseconds it sleeps.
\<close>

function retry_busy_from :: "nat \<Rightarrow> (db \<Rightarrow> db \<times> (store_error + 'a)) \<Rightarrow> db \<Rightarrow> db \<times> (store_error + 'a)" where
  "retry_busy_from attempt f d = (case f d of
     (d', Inr v) \<Rightarrow> (d', Inr v)
   | (d', Inl err) \<Rightarrow> let attempt' = attempt + 1 in
       if \<not> is_busy err \<or> attempt' \<ge> MAX_ATTEMPTS then (d', Inl err)
       else retry_busy_from attempt' f (d'\<lparr>db_slept := db_slept d' + 10 * attempt'\<rparr>))"
  by pat_completeness auto
termination by (relation "measure (\<lambda>(a, f, d). MAX_ATTEMPTS - a)") auto

declare retry_busy_from.simps [simp del]

definition retry_busy :: "(db \<Rightarrow> db \<times> (store_error + 'a)) \<Rightarrow> db \<Rightarrow> db \<times> (store_error + 'a)" where
  "retry_busy f d = retry_busy_from 0 f d"

section \<open>Facts on store calls\<close>

text \<open>
  A write of the store: a failing call changes nothing and reports the fault; a call that SQLite
  executes may be refused, with no effect either and never as busy. This is all that the retry loop
  relies on, and what the transactions of the next-turn queue provide.
\<close>

locale store_write =
  fixes w :: "sqlx_error option \<Rightarrow> store \<Rightarrow> store \<times> (store_error + 'a)"
  assumes faulty: "w (Some e) st = (st, Inl (SeSqlx e))"
    and refused: "w None st = (st', Inl err) \<Longrightarrow> st' = st \<and> \<not> is_busy err"
begin

lemma call_ok: "next_fault d = None \<Longrightarrow> w None (db_store d) = (st, r) \<Longrightarrow>
    db_call w d = (d\<lparr>db_store := st, db_faults := tl (db_faults d)\<rparr>, r)"
  by (simp add: db_call_def)

lemma call_faulty: "next_fault d = Some e \<Longrightarrow> db_call w d = (d\<lparr>db_faults := tl (db_faults d)\<rparr>, Inl (SeSqlx e))"
  by (simp add: db_call_def faulty)

lemma retry_ok:
  assumes "next_fault d = None"
  shows "retry_busy_from a (db_call w) d = db_call w d"
proof (cases "w None (db_store d)")
  case (Pair st r)
  show ?thesis
  proof (cases r)
    case (Inl e)
    then show ?thesis using Pair call_ok [OF assms Pair] refused [of "db_store d" st e]
      by (subst retry_busy_from.simps) (simp add: Let_def)
  next
    case (Inr v)
    then show ?thesis using Pair call_ok [OF assms Pair] by (subst retry_busy_from.simps) simp
  qed
qed

lemma retry_faulty:
  assumes "next_fault d = Some e"
  shows "retry_busy_from a (db_call w) d =
    (if \<not> is_busy (SeSqlx e) \<or> MAX_ATTEMPTS \<le> a + 1 then (d\<lparr>db_faults := tl (db_faults d)\<rparr>, Inl (SeSqlx e))
     else retry_busy_from (a + 1) (db_call w) (d\<lparr>db_faults := tl (db_faults d), db_slept := db_slept d + 10 * (a + 1)\<rparr>))"
  by (subst retry_busy_from.simps) (simp add: call_faulty [OF assms] Let_def)

text \<open>The write happens once or not at all, on the store as it was.\<close>

lemma retry_effect:
  assumes "a < MAX_ATTEMPTS"
  shows "case retry_busy_from a (db_call w) d of (d', r) \<Rightarrow>
    w None (db_store d) = (db_store d', r) \<or> db_store d' = db_store d \<and> (\<exists>e. r = Inl (SeSqlx e) \<and> Some e \<in> set (db_faults d))"
  using assms
proof (induction "MAX_ATTEMPTS - a" arbitrary: a d)
  case (Suc n)
  show ?case
  proof (cases "next_fault d")
    case None
    then show ?thesis by (simp add: retry_ok) (simp add: db_call_def split: prod.split)
  next
    case (Some e)
    then obtain fs where fs: "db_faults d = Some e # fs" by (auto simp: next_fault_def split: list.splits)
    show ?thesis
    proof (cases "\<not> is_busy (SeSqlx e) \<or> MAX_ATTEMPTS \<le> a + 1")
      case True
      then show ?thesis using fs by (auto simp: retry_faulty [OF Some])
    next
      case False
      let ?d = "d\<lparr>db_faults := tl (db_faults d), db_slept := db_slept d + 10 * (a + 1)\<rparr>"
      have "case retry_busy_from (a + 1) (db_call w) ?d of (d', r) \<Rightarrow> w None (db_store ?d) = (db_store d', r) \<or>
          db_store d' = db_store ?d \<and> (\<exists>e. r = Inl (SeSqlx e) \<and> Some e \<in> set (db_faults ?d))"
        using Suc.hyps(2) False by (intro Suc.hyps(1)) auto
      then show ?thesis using False fs by (simp add: retry_faulty [OF Some]) (auto split: prod.splits)
    qed
  qed
qed simp

text \<open>How many calls the loop makes and how long it sleeps.\<close>

lemma retry_cost:
  assumes "a < MAX_ATTEMPTS"
  shows "\<exists>k. 1 \<le> k \<and> k \<le> MAX_ATTEMPTS - a \<and> db_faults (fst (retry_busy_from a (db_call w) d)) = drop k (db_faults d) \<and>
    db_slept (fst (retry_busy_from a (db_call w) d)) = db_slept d + 10 * \<Sum>{a + 1..<a + k}"
  using assms
proof (induction "MAX_ATTEMPTS - a" arbitrary: a d)
  case (Suc n)
  have once: "db_faults (fst (db_call w d)) = drop 1 (db_faults d)" "db_slept (fst (db_call w d)) = db_slept d"
    by (simp_all add: db_call_def drop_Suc split: prod.split)
  show ?case
  proof (cases "next_fault d")
    case None
    then show ?thesis using once Suc.prems by (intro exI [of _ 1]) (simp add: retry_ok)
  next
    case (Some e)
    show ?thesis
    proof (cases "\<not> is_busy (SeSqlx e) \<or> MAX_ATTEMPTS \<le> a + 1")
      case True
      then show ?thesis using Suc.prems
        by (intro exI [of _ 1]) (auto simp: retry_faulty [OF Some] drop_Suc)
    next
      case False
      let ?d = "d\<lparr>db_faults := tl (db_faults d), db_slept := db_slept d + 10 * (a + 1)\<rparr>"
      obtain k where k: "1 \<le> k" "k \<le> MAX_ATTEMPTS - (a + 1)"
        "db_faults (fst (retry_busy_from (a + 1) (db_call w) ?d)) = drop k (db_faults ?d)"
        "db_slept (fst (retry_busy_from (a + 1) (db_call w) ?d)) = db_slept ?d + 10 * \<Sum>{a + 1 + 1..<a + 1 + k}"
      proof -
        have "n = MAX_ATTEMPTS - (a + 1)" "a + 1 < MAX_ATTEMPTS" using Suc.hyps(2) False by linarith+
        from Suc.hyps(1) [OF this, of ?d] show thesis using that by blast
      qed
      have "\<Sum>{a + 1..<a + (k + 1)} = (a + 1) + \<Sum>{a + 1 + 1..<a + 1 + k}"
        using k(1) by (simp add: sum.atLeast_Suc_lessThan)
      then show ?thesis using k False
        by (intro exI [of _ "k + 1"]) (simp add: retry_faulty [OF Some] drop_Suc algebra_simps)
    qed
  qed
qed simp

text \<open>Fewer than ten locked answers in a row are survived.\<close>

lemma retry_survives:
  assumes "list_all (\<lambda>f. case f of Some e \<Rightarrow> is_busy (SeSqlx e) | None \<Rightarrow> False) fs"
    and "db_faults d = fs @ rest" "rest = [] \<or> hd rest = None" "a + length fs < MAX_ATTEMPTS"
  shows "case retry_busy_from a (db_call w) d of (d', r) \<Rightarrow> (db_store d', r) = w None (db_store d) \<and> db_faults d' = tl rest"
  using assms
proof (induction fs arbitrary: a d)
  case Nil
  then have "next_fault d = None" by (auto simp: next_fault_def split: list.splits)
  then show ?case using Nil by (simp add: retry_ok) (simp add: db_call_def split: prod.split)
next
  case (Cons f fs)
  then obtain e where e: "f = Some e" "is_busy (SeSqlx e)" by (auto split: option.splits)
  then have n: "next_fault d = Some e" using Cons.prems(2) by (simp add: next_fault_def)
  let ?d = "d\<lparr>db_faults := tl (db_faults d), db_slept := db_slept d + 10 * (a + 1)\<rparr>"
  have "case retry_busy_from (a + 1) (db_call w) ?d of (d', r) \<Rightarrow> (db_store d', r) = w None (db_store ?d) \<and> db_faults d' = tl rest"
    using Cons.prems by (intro Cons.IH) auto
  then show ?case using e(2) Cons.prems(4) by (simp add: retry_faulty [OF n])
qed

lemma retry_bounds:
  "case retry_busy_from 0 (db_call w) d of (d', r) \<Rightarrow>
     (\<exists>k. 1 \<le> k \<and> k \<le> MAX_ATTEMPTS \<and> db_faults d' = drop k (db_faults d)) \<and> db_slept d' \<le> db_slept d + 450 \<and>
     (w None (db_store d) = (db_store d', r) \<or> (\<exists>x. r = Inl x) \<and> db_store d' = db_store d) \<and>
     (db_faults d = fs @ rest \<and> list_all (\<lambda>f. case f of Some x \<Rightarrow> is_busy (SeSqlx x) | None \<Rightarrow> False) fs \<and> length fs < 10 \<and>
        (rest = [] \<or> hd rest = None) \<longrightarrow> w None (db_store d) = (db_store d', r))"
proof -
  obtain d' r where r: "retry_busy_from 0 (db_call w) d = (d', r)" by fastforce
  obtain k where k: "1 \<le> k" "k \<le> MAX_ATTEMPTS" "db_faults d' = drop k (db_faults d)"
    "db_slept d' = db_slept d + 10 * \<Sum>{0 + 1..<0 + k}"
    using retry_cost [of 0 d] r by auto
  have "\<Sum>{0 + 1..<0 + k} \<le> \<Sum>{1..<10::nat}" using k(2) by (intro sum_mono2) auto
  also have "\<dots> = 45" by (simp add: sum.atLeast_Suc_lessThan eval_nat_numeral)
  finally have "db_slept d' \<le> db_slept d + 450" using k(4) by simp
  then show ?thesis using r k retry_effect [of 0 d] retry_survives [of fs d rest 0] by auto
qed

end

lemma not_busy_refusal [simp]: "\<not> is_busy SeQueueAlreadyExists"
  by (simp add: is_busy_def)

interpretation set_w: store_write "set_next_turn now e rep" for now e rep
  by unfold_locales (auto simp: set_next_turn_def guarded_def split: option.splits if_splits)

interpretation clear_w: store_write "clear_next_turn s" for s
  by unfold_locales (auto simp: clear_next_turn_def guarded_def)

end
