(* ===== verification/Codex_Adapter.thy ===== *)
theory Codex_Adapter
  imports Mapper Capabilities Commands
begin

text \<open>
  The adapter for the desktop application (\<open>apps/bridge/src/adapter/codex/mod.rs\<close>): it keeps one mapper per session,
  feeds them from the stream of the application, hands their events to the watchers, attaches again when the
  connection was lost, and performs write commands. What the application answers, the version probe, the
  catalogue and the clocks are arguments. Other tasks run while an operation waits: an operation that waits is
  given the state of the adapter again when it goes on.
\<close>

section \<open>Errors of the connection\<close>

datatype ipc_error =
    IeConnect string
  | IeNotConnected
  | IeHandshake string
  | IeRequestTimeout string nat
  | IePeer string
  | IeConnectionLost string
  | IeFrame string
  | IeQueueFull nat

fun ipc_error_text :: "ipc_error \<Rightarrow> string" where
  "ipc_error_text (IeConnect m) = ''socket connect failed: '' @ m"
| "ipc_error_text IeNotConnected = ''not connected''"
| "ipc_error_text (IeHandshake m) = ''handshake failed: '' @ m"
| "ipc_error_text (IeRequestTimeout method s) =
     ''request timed out after '' @ show_nat s @ ''s (method: '' @ method @ '')''"
| "ipc_error_text (IePeer m) = ''peer returned error: '' @ m"
| "ipc_error_text (IeConnectionLost m) = ''connection lost: '' @ m"
| "ipc_error_text (IeFrame m) = ''frame protocol violated: '' @ m"
| "ipc_error_text (IeQueueFull n) = ''outbound queue full (capacity '' @ show_nat n @ '')''"

definition map_ipc_write_error :: "ipc_error \<Rightarrow> adapter_error" where
  "map_ipc_write_error err = (case err of
     IePeer msg \<Rightarrow>
       if str_contains ''NoActiveTurn'' msg \<or> str_contains ''SteerTurnInactive'' msg then AeStable StaleTurn msg
       else if str_contains ''no-client-found'' msg then AeStable SessionNotFound ''owner disappeared before write''
       else if str_contains ''request-version-mismatch'' msg
         then AeStable CodexVersionUnverified ''desktop rejected method version''
       else AeIpc (ipc_error_text err)
   | IeConnectionLost _ \<Rightarrow> AeStable OutcomeUnknownCode ''connection lost during write; outcome unknown''
   | IeNotConnected \<Rightarrow> AeStable OutcomeUnknownCode ''connection lost during write; outcome unknown''
   | _ \<Rightarrow> AeIpc (ipc_error_text err))"

section \<open>State\<close>

text \<open>A watcher is the identity of its channel; an IPC client is the generation it was attached in.\<close>

record session_runtime =
  rn_key :: session_key
  rn_mapper :: session_mapper
  rn_watchers :: "nat list"
  rn_following :: bool

definition runtime_new :: "session_key \<Rightarrow> session_runtime" where
  "runtime_new key = \<lparr>rn_key = key, rn_mapper = mapper_new key, rn_watchers = [], rn_following = False\<rparr>"

record adapter =
  ca_device_id :: string
  ca_ipc :: "nat option"
  ca_connected :: bool
  ca_has_ipc_config :: bool
  ca_version_report :: "string option"
  ca_version_binary :: bool
  ca_write_probes :: write_method_probes
  ca_catalog :: "(bool \<times> bool) option"
  ca_sessions :: "(string \<times> session_runtime) list"
  ca_caps :: capability_set
  ca_generation :: nat

record adapter_config =
  cg_device_id :: string
  cg_socket :: bool
  cg_version_report :: "string option"
  cg_version_binary :: bool
  cg_write_probes :: write_method_probes

definition codex_key :: "adapter \<Rightarrow> string \<Rightarrow> session_key" where
  "codex_key a conversation = \<lparr>sk_device_id = ca_device_id a, sk_agent_kind = CodexDesktop,
     sk_native_session_id = conversation, sk_relay_session_uuid = None\<rparr>"

definition capability_probe_input ::
    "string option \<Rightarrow> write_method_probes \<Rightarrow> bool \<Rightarrow> (bool \<times> bool) option \<Rightarrow> probe_input" where
  "capability_probe_input version_report write_methods connected catalog = \<lparr>
     pi_version_report = version_report,
     pi_version_verified = (case version_report of None \<Rightarrow> False | Some v \<Rightarrow> version_is_verified v),
     pi_confirmed_incompatible = False,
     pi_ipc_handshake_ok = connected,
     pi_owner_confirmed = connected,
     pi_write_methods = write_methods,
     pi_catalog_sessions_listable = (case catalog of None \<Rightarrow> False | Some (l, h) \<Rightarrow> l),
     pi_catalog_history_readable = (case catalog of None \<Rightarrow> False | Some (l, h) \<Rightarrow> h),
     pi_snapshot_observed = connected,
     pi_settings = []\<rparr>"

text \<open>\<open>opened\<close>: what opening the catalogue gave, as (sessions listable, history readable).\<close>

definition adapter_connect :: "adapter_config \<Rightarrow> bool \<Rightarrow> (bool \<times> bool) option \<Rightarrow> adapter" where
  "adapter_connect cfg ipc_ok opened =
    (let up = cg_socket cfg \<and> ipc_ok;
         catalog = (case opened of Some (l, h) \<Rightarrow> if l \<or> h then Some (l, h) else None | None \<Rightarrow> None)
     in \<lparr>ca_device_id = cg_device_id cfg, ca_ipc = (if up then Some 1 else None), ca_connected = up,
         ca_has_ipc_config = cg_socket cfg, ca_version_report = cg_version_report cfg,
         ca_version_binary = cg_version_binary cfg, ca_write_probes = cg_write_probes cfg, ca_catalog = catalog,
         ca_sessions = [],
         ca_caps = probe (capability_probe_input (cg_version_report cfg) (cg_write_probes cfg) up catalog),
         ca_generation = (if up then 1 else 0)\<rparr>)"

definition ensure_session :: "string \<Rightarrow> adapter \<Rightarrow> adapter" where
  "ensure_session conversation a =
    (if map_of (ca_sessions a) conversation = None
     then a\<lparr>ca_sessions := AList.update conversation (runtime_new (codex_key a conversation)) (ca_sessions a)\<rparr> else a)"

definition put_runtime :: "string \<Rightarrow> session_runtime \<Rightarrow> adapter \<Rightarrow> adapter" where
  "put_runtime conversation rt a = a\<lparr>ca_sessions := AList.update conversation rt (ca_sessions a)\<rparr>"

section \<open>Attaching\<close>

definition ATTACH_BACKOFF_STEPS :: "nat list" where "ATTACH_BACKOFF_STEPS = [1, 2, 5, 10]"
definition ATTACH_MAX_BACKOFF :: nat where "ATTACH_MAX_BACKOFF = 30"
definition ATTACH_CONNECTED_POLL :: nat where "ATTACH_CONNECTED_POLL = 30"

definition attach_backoff :: "nat \<Rightarrow> nat" where
  "attach_backoff failures = (let idx = failures - 1 in
     min (if idx < length ATTACH_BACKOFF_STEPS then ATTACH_BACKOFF_STEPS ! idx else ATTACH_MAX_BACKOFF) ATTACH_MAX_BACKOFF)"

text \<open>The version and the write methods that are trusted after attaching; \<open>vp\<close> is what the version probe gives.\<close>

definition attach_evidence :: "string + string \<Rightarrow> adapter \<Rightarrow> string option \<times> write_method_probes" where
  "attach_evidence vp a =
    (if \<not> ca_version_binary a then (ca_version_report a, ca_write_probes a)
     else (case vp of
       Inr fresh \<Rightarrow>
         if (case ca_version_report a of
               Some configured \<Rightarrow> normalized_version fresh = normalized_version configured | None \<Rightarrow> True)
         then (Some fresh, ca_write_probes a)
         else (Some fresh, probes_default)
     | Inl _ \<Rightarrow> (None, probes_default)))"

definition following_conversations :: "adapter \<Rightarrow> string list" where
  "following_conversations a = map fst (filter (\<lambda>(k, r). rn_following r) (ca_sessions a))"

text \<open>One attempt; the conversations for which following is announced again.\<close>

definition try_attach :: "ipc_error option \<Rightarrow> string + string \<Rightarrow> adapter \<Rightarrow> adapter \<times> (ipc_error + string list)" where
  "try_attach connect_error vp a =
    (if \<not> ca_has_ipc_config a then (a, Inl IeNotConnected)
     else (case connect_error of
       Some e \<Rightarrow> (a, Inl e)
     | None \<Rightarrow>
         (let (version_report, probes) = attach_evidence vp a;
              gen = ca_generation a + 1
          in (a\<lparr>ca_generation := gen, ca_ipc := Some gen, ca_connected := True,
                ca_caps := probe (capability_probe_input version_report probes True (ca_catalog a))\<rparr>,
              Inr (following_conversations a)))))"

text \<open>One round of the supervisor: the new number of failures and the seconds to wait.\<close>

definition supervise :: "ipc_error option \<Rightarrow> string + string \<Rightarrow> nat \<Rightarrow> adapter \<Rightarrow> adapter \<times> nat \<times> nat" where
  "supervise connect_error vp failures a =
    (if ca_ipc a \<noteq> None \<and> ca_connected a then (a, 0, ATTACH_CONNECTED_POLL)
     else (case try_attach connect_error vp a of
       (a', Inr _) \<Rightarrow> (a', 0, ATTACH_CONNECTED_POLL)
     | (a', Inl _) \<Rightarrow> (let f = min (failures + 1) (2 ^ 32 - 1) in (a', f, attach_backoff f))))"

section \<open>Following and reading\<close>

definition ensure_owner :: "ipc_error + string option \<Rightarrow> adapter \<Rightarrow> adapter_error + string" where
  "ensure_owner discovered a =
    (if ca_ipc a = None then Inl (AeStable CodexUnavailable ''ipc offline'')
     else (case discovered of
       Inl e \<Rightarrow> Inl (AeIpc (ipc_error_text e))
     | Inr None \<Rightarrow> Inl (AeStable SessionNotFound ''session has no desktop owner (not open)'')
     | Inr (Some owner) \<Rightarrow> Inr owner))"

text \<open>Whether following is announced is the last component.\<close>

definition follow_locked :: "string \<Rightarrow> adapter \<Rightarrow> adapter \<times> adapter_error option \<times> bool" where
  "follow_locked conversation a =
    (if ca_ipc a = None then (a, Some (AeStable CodexUnavailable ''ipc offline; cannot follow session''), False)
     else (let a1 = ensure_session conversation a in
       case map_of (ca_sessions a1) conversation of
         None \<Rightarrow> (a1, None, False)
       | Some rt \<Rightarrow>
           if rn_following rt then (a1, None, False)
           else (put_runtime conversation (rt\<lparr>rn_following := True\<rparr>) a1, None, True)))"

definition session_snapshot :: "(int \<Rightarrow> string option) \<Rightarrow> string \<Rightarrow> adapter \<Rightarrow> full_snapshot option" where
  "session_snapshot tmo conversation a =
     Option.bind (map_of (ca_sessions a) conversation) (\<lambda>rt. mapper_runtime_snapshot tmo (rn_mapper rt))"

text \<open>The polling loop until the deadline: the states it sees, and the first snapshot that satisfies it.\<close>

fun await_snapshot :: "(int \<Rightarrow> string option) \<Rightarrow> (full_snapshot \<Rightarrow> bool) \<Rightarrow> string \<Rightarrow> string \<Rightarrow> adapter list \<Rightarrow> adapter_error + full_snapshot" where
  "await_snapshot tmo good msg conversation [] = Inl (AeStable CodexUnavailable msg)"
| "await_snapshot tmo good msg conversation (a # as) = (case session_snapshot tmo conversation a of
     Some s \<Rightarrow> if good s then Inr s else await_snapshot tmo good msg conversation as
   | None \<Rightarrow> await_snapshot tmo good msg conversation as)"

text \<open>The first half of \<open>runtime_snapshot\<close>: a snapshot at once, an error, or nothing yet.\<close>

definition runtime_snapshot_begin ::
    "(int \<Rightarrow> string option) \<Rightarrow> ipc_error + string option \<Rightarrow> string \<Rightarrow> adapter \<Rightarrow> adapter \<times> (adapter_error + full_snapshot option)" where
  "runtime_snapshot_begin tmo discovered conversation a = (case ensure_owner discovered a of
     Inl e \<Rightarrow> (a, Inl e)
   | Inr _ \<Rightarrow>
       (let a1 = ensure_session conversation a in
        case session_snapshot tmo conversation a1 of
          Some s \<Rightarrow> (a1, Inr (Some s))
        | None \<Rightarrow> (case follow_locked conversation a1 of
            (a2, Some e, _) \<Rightarrow> (a2, Inl e)
          | (a2, None, _) \<Rightarrow> (a2, Inr None))))"

definition adapter_runtime_snapshot ::
    "(int \<Rightarrow> string option) \<Rightarrow> ipc_error + string option \<Rightarrow> string \<Rightarrow> adapter \<Rightarrow> adapter list \<Rightarrow> adapter \<times> (adapter_error + full_snapshot)" where
  "adapter_runtime_snapshot tmo discovered conversation a polled =
    (case runtime_snapshot_begin tmo discovered conversation a of
       (a1, Inl e) \<Rightarrow> (a1, Inl e)
     | (a1, Inr (Some s)) \<Rightarrow> (a1, Inr s)
     | (a1, Inr None) \<Rightarrow>
         (a1, await_snapshot tmo (\<lambda>_. True) ''no snapshot received before timeout'' conversation polled))"

text \<open>\<open>refresh_snapshot\<close> up to the request for the history: following is set before the request is sent.\<close>

definition refresh_begin :: "ipc_error + string option \<Rightarrow> session_key \<Rightarrow> adapter \<Rightarrow> adapter \<Rightarrow> adapter \<times> (adapter_error + unit)" where
  "refresh_begin discovered key a a1 = (case ensure_owner discovered a of
     Inl e \<Rightarrow> (a1, Inl e)
   | Inr _ \<Rightarrow>
       if ca_ipc a1 = None then (a1, Inl (AeStable CodexUnavailable ''ipc offline''))
       else (let conversation = sk_native_session_id key;
                 rt = (case map_of (ca_sessions a1) conversation of Some rt \<Rightarrow> rt | None \<Rightarrow> runtime_new key)
             in (put_runtime conversation (rt\<lparr>rn_following := True\<rparr>) a1, Inr ())))"

definition refresh_finish ::
    "(int \<Rightarrow> string option) \<Rightarrow> ipc_error option \<Rightarrow> ipc_error + u64 \<Rightarrow> string \<Rightarrow> adapter list \<Rightarrow> adapter_error + full_snapshot" where
  "refresh_finish tmo announced loaded conversation polled = (case announced of
     Some e \<Rightarrow> Inl (AeIpc (ipc_error_text e))
   | None \<Rightarrow> (case loaded of
       Inl e \<Rightarrow> Inl (AeIpc (ipc_error_text e))
     | Inr expected \<Rightarrow> await_snapshot tmo (\<lambda>s. rs_runtime_revision s \<ge> expected)
         ''authoritative snapshot not received before timeout'' conversation polled))"

definition adapter_output_page :: "session_key \<Rightarrow> item_id \<Rightarrow> nat \<Rightarrow> nat \<Rightarrow> adapter \<Rightarrow> (bytes \<times> nat \<times> bool) option" where
  "adapter_output_page key i offset limit a =
     Option.bind (map_of (ca_sessions a) (sk_native_session_id key)) (\<lambda>rt. output_page i offset limit (rn_mapper rt))"

definition session_cwd :: "session_key \<Rightarrow> adapter \<Rightarrow> string option" where
  "session_cwd key a = Option.bind (map_of (ca_sessions a) (sk_native_session_id key)) (\<lambda>rt. mapper_cwd (rn_mapper rt))"

text \<open>A watcher is registered before following is tried, so it stays registered when that fails.\<close>

definition adapter_subscribe :: "string \<Rightarrow> nat \<Rightarrow> adapter \<Rightarrow> adapter \<times> adapter_error option \<times> dm_event list" where
  "adapter_subscribe conversation watcher a =
    (let a1 = ensure_session conversation a in
     case map_of (ca_sessions a1) conversation of
       None \<Rightarrow> (a1, None, [])
     | Some rt \<Rightarrow>
         (let a2 = put_runtime conversation (rt\<lparr>rn_watchers := rn_watchers rt @ [watcher]\<rparr>) a1;
              intro = (if has_snapshot (rn_mapper rt) then [DmSessionSummaryChanged (session_summary_of (rn_mapper rt))] else [])
          in case follow_locked conversation a2 of
               (a3, Some e, _) \<Rightarrow> (a3, Some e, [])
             | (a3, None, _) \<Rightarrow> (a3, None, intro)))"

section \<open>The pump\<close>

datatype ipc_stream_change = IcSnapshot u64 json | IcPatches u64 u64 "json list"

text \<open>Every event goes to every watcher, in order.\<close>

definition dispatch_to_watchers :: "nat list \<Rightarrow> dm_event list \<Rightarrow> (nat \<times> dm_event) list" where
  "dispatch_to_watchers watchers events = concat (map (\<lambda>e. map (\<lambda>w. (w, e)) watchers) events)"

text \<open>
  A change of the stream. The result has what the watchers get and whether the complete history is requested.
  A conversation that is not registered is ignored.
\<close>

definition on_stream_changed ::
    "(int \<Rightarrow> string option) \<Rightarrow> (string \<Rightarrow> nat) \<Rightarrow> string \<Rightarrow> ipc_stream_change \<Rightarrow> adapter \<Rightarrow> (adapter \<times> (nat \<times> dm_event) list \<times> bool) option" where
  "on_stream_changed tmo clock conversation change a = (case map_of (ca_sessions a) conversation of
     None \<Rightarrow> Some (a, [], False)
   | Some rt \<Rightarrow>
       (let m = set_capabilities (ca_caps a) (rn_mapper rt) in
        case change of
          IcSnapshot revision state \<Rightarrow> map_option (\<lambda>(m', e).
            (put_runtime conversation (rt\<lparr>rn_mapper := m'\<rparr>) a, dispatch_to_watchers (rn_watchers rt) e, False))
              (apply_snapshot tmo clock revision state m)
        | IcPatches base revision patches \<Rightarrow> map_option (\<lambda>(m', r). (case r of
              Applied e \<Rightarrow> (put_runtime conversation (rt\<lparr>rn_mapper := m'\<rparr>) a, dispatch_to_watchers (rn_watchers rt) e, False)
            | ResyncNeeded \<Rightarrow> (put_runtime conversation (rt\<lparr>rn_mapper := m'\<rparr>) a, [], True)))
              (mapper_apply_patches tmo clock base revision patches m)))"

definition CLIENT_STATUS_CHANGED :: string where "CLIENT_STATUS_CHANGED = ''client-status-changed''"
definition THREAD_STREAM_FOLLOWING_STATUS_REQUESTED :: string where
  "THREAD_STREAM_FOLLOWING_STATUS_REQUESTED = ''thread-stream-following-status-requested''"

definition on_ipc_broadcast :: "string \<Rightarrow> adapter \<Rightarrow> string list" where
  "on_ipc_broadcast method a =
    (if method = CLIENT_STATUS_CHANGED \<or> method = THREAD_STREAM_FOLLOWING_STATUS_REQUESTED
     then following_conversations a else [])"

definition flush_session :: "nat \<Rightarrow> string \<Rightarrow> adapter \<Rightarrow> (adapter \<times> (nat \<times> dm_event) list) option" where
  "flush_session now conversation a = (case map_of (ca_sessions a) conversation of
     None \<Rightarrow> Some (a, [])
   | Some rt \<Rightarrow> map_option (\<lambda>(m', e).
       (put_runtime conversation (rt\<lparr>rn_mapper := m'\<rparr>) a, dispatch_to_watchers (rn_watchers rt) e))
         (flush_due_outputs now (rn_mapper rt)))"

fun flush_sessions :: "(string \<Rightarrow> nat) \<Rightarrow> string list \<Rightarrow> adapter \<Rightarrow> (adapter \<times> (nat \<times> dm_event) list) option" where
  "flush_sessions clock [] a = Some (a, [])"
| "flush_sessions clock (c # cs) a = (case flush_session (clock c) c a of
     None \<Rightarrow> None
   | Some (a1, d1) \<Rightarrow> map_option (apsnd ((@) d1)) (flush_sessions clock cs a1))"

definition flush_due_outputs_all :: "(string \<Rightarrow> nat) \<Rightarrow> adapter \<Rightarrow> (adapter \<times> (nat \<times> dm_event) list) option" where
  "flush_due_outputs_all clock a = flush_sessions clock (map fst (ca_sessions a)) a"

section \<open>Write commands\<close>

datatype native_write =
    NwStartTurn string string string
  | NwSteerTurn string string string json
  | NwInterruptTurn string string string
  | NwRequest string string json

definition current_turn_id :: "(int \<Rightarrow> string option) \<Rightarrow> session_runtime \<Rightarrow> turn_id option" where
  "current_turn_id tmo rt =
     Option.bind (mapper_runtime_snapshot tmo (rn_mapper rt)) (\<lambda>s. map_option cu_turn (rs_current_turn s))"

definition answer_response_for ::
    "requests_question list \<Rightarrow> string \<Rightarrow> string list \<Rightarrow> string option \<Rightarrow> adapter_error + string \<times> json" where
  "answer_response_for request_questions question_id answered_labels free_text =
    (case find (\<lambda>r. rqs_request_id r = question_id) request_questions of
       Some request \<Rightarrow> (case build_request_answer_response request answered_labels free_text of
           Inl message \<Rightarrow> Inl (AeStable CapabilityUnsupported message)
         | Inr response \<Rightarrow> Inr (rqs_request_id request, response))
     | None \<Rightarrow> Inr (question_id, JObj [(''answers'', JObj [(question_id,
           JObj [(''answers'', JArr (answer_entries answered_labels free_text))])])]))"

definition write_gate :: "capability_set \<Rightarrow> operation \<Rightarrow> adapter_error option" where
  "write_gate caps x =
    (if caps_supports caps x then None
     else if cs_control_mode caps = ReadOnly
       then Some (AeStable ControlReadOnly ''desktop capability probe did not enable this write'')
     else Some (AeStable CapabilityUnsupported ''operation not supported by current desktop version''))"

definition check_turn :: "turn_id option \<Rightarrow> turn_id option \<Rightarrow> adapter_error option" where
  "check_turn expected current = (case (expected, current) of
     (Some e, Some c) \<Rightarrow> if ti_id e \<noteq> ti_id c then Some (AeStable StaleTurn ''target turn is no longer current'') else None
   | _ \<Rightarrow> None)"

definition check_target :: "(int \<Rightarrow> string option) \<Rightarrow> string \<Rightarrow> command_request \<Rightarrow> adapter \<Rightarrow> adapter_error option" where
  "check_target tmo conversation request a = (case map_of (ca_sessions a) conversation of
     None \<Rightarrow> None
   | Some rt \<Rightarrow>
       (let current = current_turn_id tmo rt in
        case (cr_expected_runtime_revision request, sm_revision (rn_mapper rt)) of
          (Some expected, Some now_at) \<Rightarrow>
            if expected \<noteq> now_at \<and> \<not> permits_revision_drift request current
            then Some (AeStable StaleTurn (''runtime revision moved '' @ show_nat (unat expected) @ '' -> '' @ show_nat (unat now_at)))
            else check_turn (cr_expected_turn_id request) current
        | _ \<Rightarrow> check_turn (cr_expected_turn_id request) current))"

text \<open>What is sent for a command, or why nothing is sent.\<close>

definition settings_object :: "setting_update list \<Rightarrow> json" where
  "settings_object values = JObj (fold (\<lambda>u. bt_insert (native_key (su_kind u)) (JStr (su_value u))) values [])"

definition session_questions :: "string \<Rightarrow> adapter \<Rightarrow> requests_question list" where
  "session_questions conversation a =
     (case map_of (ca_sessions a) conversation of Some rt \<Rightarrow> pending_request_questions (rn_mapper rt) | None \<Rightarrow> [])"

definition gated :: "capability_set \<Rightarrow> operation \<Rightarrow> adapter_error + native_write \<Rightarrow> adapter_error + native_write" where
  "gated caps x w = (case write_gate caps x of Some e \<Rightarrow> Inl e | None \<Rightarrow> w)"

definition prepare_write ::
    "capability_set \<Rightarrow> string \<Rightarrow> string \<Rightarrow> command_request \<Rightarrow> adapter \<Rightarrow> (adapter_error + native_write) option" where
  "prepare_write caps owner conversation request a = (case cr_payload request of
     PlStartTurn input \<Rightarrow> Some (gated caps StartTurn (Inr (NwStartTurn owner conversation input)))
   | PlSteer input \<Rightarrow> Some (gated caps SteerTurn
       (case Option.bind (map_of (ca_sessions a) conversation) (\<lambda>rt. steer_restore_message (rn_mapper rt)) of
          None \<Rightarrow> Inl (AeStable CodexUnavailable ''steer requires current session context'')
        | Some restore \<Rightarrow> Inr (NwSteerTurn owner conversation input restore)))
   | PlInterrupt \<Rightarrow> Some (gated caps InterruptTurn
       (case cr_expected_turn_id request of
          None \<Rightarrow> Inl (AeStable InternalError ''interrupt requires expected_turn_id'')
        | Some turn \<Rightarrow> Inr (NwInterruptTurn owner conversation (ti_id turn))))
   | PlAnswerQuestion question_id option_ids free_text \<Rightarrow> Some (gated caps AnswerQuestion
       (case answer_response_for (session_questions conversation a) question_id option_ids free_text of
          Inl e \<Rightarrow> Inl e
        | Inr (request_id, response) \<Rightarrow> Inr (NwRequest owner ''thread-follower-submit-user-input''
            (JObj [(''conversationId'', JStr conversation), (''requestId'', JStr request_id), (''response'', response)]))))
   | PlSubmitApproval approval_id decision_id \<Rightarrow> Some (gated caps SubmitApproval
       (Inr (NwRequest owner ''thread-follower-command-approval-decision''
          (JObj [(''conversationId'', JStr conversation), (''decision'', JStr decision_id), (''requestId'', JStr approval_id)]))))
   | PlUpdateSettings values \<Rightarrow> Some (gated caps UpdateSettings
       (Inr (NwRequest owner ''thread-follower-update-thread-settings''
          (JObj [(''conversationId'', JStr conversation), (''threadSettings'', settings_object values)]))))
   | _ \<Rightarrow> None)"

text \<open>
  \<open>a0\<close> is the state at the call, \<open>a1\<close> after the owner was found, \<open>a2\<close> when the write is put together; \<open>written\<close> is what the
  application answers. The result has the receipts of the channel and what was written.
\<close>

definition execute_command ::
    "(int \<Rightarrow> string option) \<Rightarrow> string option \<Rightarrow> ipc_error + string option \<Rightarrow> ipc_error option \<Rightarrow> adapter \<Rightarrow> adapter \<Rightarrow> adapter \<Rightarrow>
     session_key \<Rightarrow> command_request \<Rightarrow> (adapter_error + command_receipt list) \<times> native_write list" where
  "execute_command tmo now discovered written a0 a1 a2 key request =
    (let conversation = sk_native_session_id key; caps = ca_caps a0;
         receipt = (\<lambda>st. \<lparr>ct_request_id = cr_request_id request, ct_state = st, ct_at = now\<rparr>)
     in case ensure_owner discovered a0 of
       Inl e \<Rightarrow> (Inl e, [])
     | Inr owner \<Rightarrow>
         if ca_ipc a1 = None then (Inl (AeStable CodexUnavailable ''ipc offline''), [])
         else (case check_target tmo conversation request a1 of
           Some e \<Rightarrow> (Inl e, [])
         | None \<Rightarrow> (case prepare_write caps owner conversation request a2 of
             None \<Rightarrow> (Inr [receipt (RsRejected CapabilityUnsupported
               ''queue lifecycle is owned by the commands layer; background-command stop has no verified native method'')], [])
           | Some (Inl e) \<Rightarrow> (Inl e, [])
           | Some (Inr w) \<Rightarrow> (case written of
               Some e \<Rightarrow> (Inl (map_ipc_write_error e), [w])
             | None \<Rightarrow> (Inr [receipt RsDispatchedToCodex, receipt RsCompleted], [w])))))"

section \<open>Lists\<close>

record catalog_thread =
  th_id :: string
  th_title :: "string option"
  th_project_display_name :: "string option"
  th_model :: "string option"
  th_reasoning_effort :: "string option"
  th_git_branch :: "string option"
  th_created_at :: "string option"
  th_updated_at :: "string option"
  th_archived :: bool
  th_agent_nickname :: "string option"
  th_agent_role :: "string option"

datatype catalog_error = CeUnavailable string | CeTimeout nat | CeSql string

fun catalog_error_text :: "catalog_error \<Rightarrow> string" where
  "catalog_error_text (CeUnavailable m) = ''catalog capability unavailable: '' @ m"
| "catalog_error_text (CeTimeout ms) = ''catalog query timed out after '' @ show_nat ms @ ''ms''"
| "catalog_error_text (CeSql m) = m"

definition summary_from_catalog :: "string option \<Rightarrow> catalog_thread \<Rightarrow> adapter \<Rightarrow> dm_session_summary" where
  "summary_from_catalog now thread a =
    (let ms = map_option (\<lambda>rt. session_summary_of (rn_mapper rt)) (map_of (ca_sessions a) (th_id thread)) in \<lparr>
     ss_session_key = codex_key a (th_id thread),
     ss_title = th_title thread,
     ss_agent_kind = CodexDesktop,
     ss_project_display_name = th_project_display_name thread,
     ss_current_branch = th_git_branch thread,
     ss_updated_at = th_updated_at thread,
     ss_device_connection = (if ca_ipc a \<noteq> None then DcOnline else DcDegraded),
     ss_device_last_seen_at = now,
     ss_degraded_reason = None,
     ss_control_mode = cs_control_mode (ca_caps a),
     ss_compatibility_state = cs_compatibility_state (ca_caps a),
     ss_active_turn_phase = unwrap_or PhIdle (map_option ss_active_turn_phase ms),
     ss_pending_attention_count = unwrap_or 0 (map_option ss_pending_attention_count ms),
     ss_pending_attention_kinds = unwrap_or [] (map_option ss_pending_attention_kinds ms),
     ss_queue_state = unwrap_or QsEmpty (map_option ss_queue_state ms),
     ss_last_turn_outcome = unwrap_or OutUnknown (map_option ss_last_turn_outcome ms),
     ss_pinned = False,
     ss_muted = False,
     ss_archived = th_archived thread\<rparr>)"

text \<open>\<open>static\<close> is the list used without a catalogue, \<open>listed\<close> what the catalogue gives: threads, cursor, more.\<close>

definition add_known_sessions :: "adapter \<Rightarrow> dm_session_summary list \<Rightarrow> dm_session_summary list" where
  "add_known_sessions a summaries =
     fold (\<lambda>(k, rt) ss. if list_ex (\<lambda>s. sk_native_session_id (ss_session_key s) = sk_native_session_id (rn_key rt)) ss then ss
        else ss @ [session_summary_of (rn_mapper rt)]) (ca_sessions a) summaries"

definition adapter_list_sessions ::
    "string option \<Rightarrow> catalog_thread list \<Rightarrow> catalog_error + catalog_thread list \<times> string option \<times> bool \<Rightarrow> bool \<Rightarrow> adapter \<Rightarrow>
     adapter_error + dm_session_summary list \<times> string option \<times> bool" where
  "adapter_list_sessions now static listed include_archived a =
    (if ca_catalog a \<noteq> None then (case listed of
        Inr (threads, cursor, has_more) \<Rightarrow> Inr (add_known_sessions a (map (\<lambda>t. summary_from_catalog now t a) threads), cursor, has_more)
      | Inl (CeUnavailable _) \<Rightarrow> Inr (add_known_sessions a [], None, False)
      | Inl (CeTimeout _) \<Rightarrow> Inl (AeStable RateLimited ''catalog query timed out'')
      | Inl e \<Rightarrow> Inl (AeCatalog (catalog_error_text e)))
     else Inr (add_known_sessions a
        (map (\<lambda>t. summary_from_catalog now t a) (filter (\<lambda>t. include_archived \<or> \<not> th_archived t) static)), None, False))"

text \<open>A page of the history; the entries are those of the catalogue.\<close>

definition history_page ::
    "catalog_error + 'entry list \<times> string option \<times> bool \<Rightarrow> adapter \<Rightarrow> adapter_error + 'entry list \<times> string option \<times> bool" where
  "history_page read a =
    (if ca_catalog a = None then Inl (AeStable CodexUnavailable ''no catalog source configured'')
     else (case read of
       Inr page \<Rightarrow> Inr page
     | Inl (CeUnavailable _) \<Rightarrow> Inl (AeStable CapabilityUnsupported ''history reading disabled by schema probe'')
     | Inl (CeTimeout _) \<Rightarrow> Inl (AeStable RateLimited ''catalog query timed out'')
     | Inl e \<Rightarrow> Inl (AeCatalog (catalog_error_text e))))"

section \<open>Reachable states\<close>

text \<open>What the tasks of the adapter and its callers do to it, one critical section at a time.\<close>

inductive adapter_step :: "(int \<Rightarrow> string option) \<Rightarrow> adapter \<Rightarrow> adapter \<Rightarrow> bool" for tmo where
  attach: "try_attach e vp a = (a', r) \<Longrightarrow> adapter_step tmo a a'"
| lost: "adapter_step tmo a (a\<lparr>ca_connected := False\<rparr>)"
| stream: "on_stream_changed tmo clock conversation change a = Some (a', d, resync) \<Longrightarrow> adapter_step tmo a a'"
| flush: "flush_session now conversation a = Some (a', d) \<Longrightarrow> adapter_step tmo a a'"
| subscribe: "adapter_subscribe conversation w a = (a', r, e) \<Longrightarrow> adapter_step tmo a a'"
| begin_snapshot: "runtime_snapshot_begin tmo discovered conversation a = (a', r) \<Longrightarrow> adapter_step tmo a a'"
| begin_refresh: "refresh_begin discovered key a0 a = (a', r) \<Longrightarrow> adapter_step tmo a a'"

inductive adapter_reachable :: "(int \<Rightarrow> string option) \<Rightarrow> adapter_config \<Rightarrow> adapter \<Rightarrow> bool" for tmo cfg where
  start: "adapter_reachable tmo cfg (adapter_connect cfg ipc_ok opened)"
| step: "adapter_reachable tmo cfg a \<Longrightarrow> adapter_step tmo a a' \<Longrightarrow> adapter_reachable tmo cfg a'"

inductive_cases adapter_stepE: "adapter_step tmo a a'"

text \<open>What the capabilities of an adapter rest on.\<close>

definition caps_evidence :: "adapter_config \<Rightarrow> adapter \<Rightarrow> bool" where
  "caps_evidence cfg a \<longleftrightarrow> ca_version_report a = cg_version_report cfg \<and> ca_write_probes a = cg_write_probes cfg \<and>
     ca_version_binary a = cg_version_binary cfg \<and>
     (\<exists>vr wp up. ca_caps a = probe (capability_probe_input vr wp up (ca_catalog a)) \<and>
        (wp = probes_default \<or> wp = cg_write_probes cfg \<and> (vr = cg_version_report cfg \<or>
           (\<exists>fresh. vr = Some fresh \<and> (\<forall>configured. cg_version_report cfg = Some configured \<longrightarrow>
              normalized_version fresh = normalized_version configured)))))"

lemma put_runtime_fields [simp]:
  "ca_version_report (put_runtime c rt a) = ca_version_report a" "ca_write_probes (put_runtime c rt a) = ca_write_probes a"
  "ca_version_binary (put_runtime c rt a) = ca_version_binary a" "ca_caps (put_runtime c rt a) = ca_caps a"
  "ca_catalog (put_runtime c rt a) = ca_catalog a" "ca_ipc (put_runtime c rt a) = ca_ipc a"
  by (simp_all add: put_runtime_def)

lemma ensure_session_fields [simp]:
  "ca_version_report (ensure_session c a) = ca_version_report a" "ca_write_probes (ensure_session c a) = ca_write_probes a"
  "ca_version_binary (ensure_session c a) = ca_version_binary a" "ca_caps (ensure_session c a) = ca_caps a"
  "ca_catalog (ensure_session c a) = ca_catalog a" "ca_ipc (ensure_session c a) = ca_ipc a"
  by (simp_all add: ensure_session_def)

text \<open>Everything but attaching leaves the configuration and the capabilities as they are.\<close>

definition same_config :: "adapter \<Rightarrow> adapter \<Rightarrow> bool" where
  "same_config a a' \<longleftrightarrow> ca_version_report a' = ca_version_report a \<and> ca_write_probes a' = ca_write_probes a \<and>
     ca_version_binary a' = ca_version_binary a \<and> ca_caps a' = ca_caps a \<and> ca_catalog a' = ca_catalog a"

lemma same_config_evidence: "same_config a a' \<Longrightarrow> caps_evidence cfg a \<Longrightarrow> caps_evidence cfg a'"
  by (simp add: same_config_def caps_evidence_def)

lemma follow_locked_config: "follow_locked c a = (a', e, b) \<Longrightarrow> same_config a a'"
  by (auto simp: follow_locked_def same_config_def Let_def split: if_splits option.splits)

lemma same_config_trans: "same_config a b \<Longrightarrow> same_config b c \<Longrightarrow> same_config a c"
  by (simp add: same_config_def)

lemma attach_keeps_evidence:
  assumes "try_attach e vp a = (a', r)" "caps_evidence cfg a"
  shows "caps_evidence cfg a'"
proof (cases "ca_has_ipc_config a \<and> e = None")
  case True
  obtain vr wp where ev: "attach_evidence vp a = (vr, wp)" by fastforce
  have a': "ca_caps a' = probe (capability_probe_input vr wp True (ca_catalog a'))" "ca_version_report a' = ca_version_report a"
    "ca_write_probes a' = ca_write_probes a" "ca_version_binary a' = ca_version_binary a"
    using assms(1) True ev by (auto simp: try_attach_def Let_def)
  have "wp = probes_default \<or> wp = ca_write_probes a \<and> (vr = ca_version_report a \<or>
      (\<exists>fresh. vr = Some fresh \<and> (\<forall>configured. ca_version_report a = Some configured \<longrightarrow>
         normalized_version fresh = normalized_version configured)))"
    using ev by (auto simp: attach_evidence_def split: if_splits sum.splits option.splits)
  then show ?thesis using a' assms(2) by (auto simp: caps_evidence_def)
next
  case False
  then have "a' = a" using assms(1) by (auto simp: try_attach_def split: if_splits option.splits)
  then show ?thesis using assms(2) by simp
qed

lemma adapter_step_evidence:
  assumes "adapter_step tmo a a'" "caps_evidence cfg a"
  shows "caps_evidence cfg a'"
  using assms(1)
proof (cases rule: adapter_step.cases)
  case (attach e vp r)
  then show ?thesis using attach_keeps_evidence assms(2) by blast
next
  case (stream clock conversation change d resync)
  then have "same_config a a'"
    by (auto simp: on_stream_changed_def Let_def split: option.splits ipc_stream_change.splits)
      (auto simp: same_config_def split: patch_outcome.split_asm)
  then show ?thesis using assms(2) same_config_evidence by blast
next
  case (flush now conversation d)
  then have "same_config a a'" by (auto simp: flush_session_def same_config_def split: option.splits)
  then show ?thesis using assms(2) same_config_evidence by blast
next
  case (subscribe conversation w r e)
  then have "same_config a a'"
    by (auto simp: adapter_subscribe_def Let_def split: option.splits prod.splits dest!: follow_locked_config)
      (auto simp: same_config_def)
  then show ?thesis using assms(2) same_config_evidence by blast
next
  case (begin_snapshot discovered conversation r)
  then have "same_config a a'"
    by (auto simp: runtime_snapshot_begin_def Let_def split: option.splits prod.splits sum.splits dest!: follow_locked_config)
      (auto simp: same_config_def)
  then show ?thesis using assms(2) same_config_evidence by blast
next
  case (begin_refresh discovered key a0 r)
  then have "same_config a a'" by (auto simp: refresh_begin_def same_config_def Let_def split: sum.splits if_splits)
  then show ?thesis using assms(2) same_config_evidence by blast
qed (use assms(2) in \<open>auto simp: caps_evidence_def\<close>)

lemma reachable_evidence: "adapter_reachable tmo cfg a \<Longrightarrow> caps_evidence cfg a"
proof (induction rule: adapter_reachable.induct)
  case (start ipc_ok opened)
  show ?case by (auto simp: caps_evidence_def adapter_connect_def Let_def)
qed (use adapter_step_evidence in blast)
section \<open>What a write rests on\<close>

text \<open>The operation a payload is written under; queue and background commands have none.\<close>

fun native_operation :: "command_payload \<Rightarrow> operation option" where
  "native_operation (PlStartTurn _) = Some StartTurn"
| "native_operation (PlSteer _) = Some SteerTurn"
| "native_operation PlInterrupt = Some InterruptTurn"
| "native_operation (PlAnswerQuestion _ _ _) = Some AnswerQuestion"
| "native_operation (PlSubmitApproval _ _) = Some SubmitApproval"
| "native_operation (PlUpdateSettings _) = Some UpdateSettings"
| "native_operation _ = None"

fun method_passed :: "write_method_probes \<Rightarrow> operation \<Rightarrow> bool" where
  "method_passed p StartTurn = (wm_start_turn p = Passed)"
| "method_passed p QueueNextTurn = (wm_start_turn p = Passed)"
| "method_passed p SteerTurn = (wm_steer_turn p = Passed)"
| "method_passed p InterruptTurn = (wm_interrupt_turn p = Passed)"
| "method_passed p AnswerQuestion = (wm_answer_question p = Passed)"
| "method_passed p SubmitApproval = (wm_answer_question p = Passed)"
| "method_passed p UpdateSettings = (wm_update_settings p = Passed)"
| "method_passed p _ = False"

fun write_target :: "native_write \<Rightarrow> string \<times> string option" where
  "write_target (NwStartTurn owner c _) = (owner, Some c)"
| "write_target (NwSteerTurn owner c _ _) = (owner, Some c)"
| "write_target (NwInterruptTurn owner c _) = (owner, Some c)"
| "write_target (NwRequest owner _ params) = (owner, get_str ''conversationId'' params)"

lemma method_passed_default [simp]: "\<not> method_passed probes_default x"
  by (cases x) (simp_all add: probes_default_def)

lemma supported_by_probe:
  "caps_supports (probe i) x \<Longrightarrow> writes_open i \<and> method_passed (pi_write_methods i) x"
  by (cases x) (auto simp: caps_supports_def probe_def probe_operations_def Let_def split: if_splits)

lemma gated_write: "gated caps x w = Inr v \<longleftrightarrow> caps_supports caps x \<and> w = Inr v"
  by (auto simp: gated_def write_gate_def split: option.splits if_splits)

lemma supported_on_evidence:
  assumes "caps_evidence cfg a" "caps_supports (ca_caps a) x"
  shows "\<exists>vr. version_is_verified vr \<and> method_passed (cg_write_probes cfg) x \<and>
    (\<forall>configured. cg_version_report cfg = Some configured \<longrightarrow> normalized_version vr = normalized_version configured)"
proof -
  obtain vr wp up where caps: "ca_caps a = probe (capability_probe_input vr wp up (ca_catalog a))"
    and wp: "wp = probes_default \<or> wp = cg_write_probes cfg \<and> (vr = cg_version_report cfg \<or>
        (\<exists>fresh. vr = Some fresh \<and> (\<forall>configured. cg_version_report cfg = Some configured \<longrightarrow>
           normalized_version fresh = normalized_version configured)))"
    using assms(1) unfolding caps_evidence_def by blast
  have s: "writes_open (capability_probe_input vr wp up (ca_catalog a))" "method_passed wp x"
    using supported_by_probe [of "capability_probe_input vr wp up (ca_catalog a)" x] assms(2) caps
    by (simp_all add: capability_probe_input_def)
  obtain v where v: "vr = Some v" "version_is_verified v"
    using s(1) by (auto simp: writes_open_def capability_probe_input_def split: option.splits)
  have "wp \<noteq> probes_default" using s(2) by auto
  then show ?thesis using wp s(2) v by auto
qed

lemma prepared_write:
  assumes "prepare_write caps owner conversation request a = Some (Inr w)"
  shows "\<exists>x. native_operation (cr_payload request) = Some x \<and> caps_supports caps x \<and> write_target w = (owner, Some conversation)"
  using assms
  by (cases "cr_payload request") (auto simp: prepare_write_def gated_write get_str_def jget_def split: option.splits sum.splits)

lemma prepared_answer:
  assumes "prepare_write caps owner conversation request a = Some (Inr w)"
    "cr_payload request = PlAnswerQuestion q opts ft"
    "find (\<lambda>r. rqs_request_id r = q) (session_questions conversation a) = Some r"
  shows "length (rqs_questions r) = 1"
  using assms
  by (auto simp: prepare_write_def gated_write answer_response_for_def build_request_answer_response_def
      split: sum.splits list.splits)

lemma executed_write:
  assumes "execute_command tmo now discovered written a0 a1 a2 key request = (res, ws)" "w \<in> set ws"
  shows "ws = [w] \<and> (\<exists>owner. discovered = Inr (Some owner) \<and>
      prepare_write (ca_caps a0) owner (sk_native_session_id key) request a2 = Some (Inr w)) \<and>
    check_target tmo (sk_native_session_id key) request a1 = None"
  using assms
  by (auto simp: execute_command_def ensure_owner_def Let_def split: if_splits option.splits sum.splits)


definition ex_adapter_config :: adapter_config where
  "ex_adapter_config = \<lparr>cg_device_id = ''d'', cg_socket = True, cg_version_report = Some ''0.153.4'',
     cg_version_binary = True, cg_write_probes = REAL_DESKTOP_VERIFIED_CORE_OPS\<rparr>"

definition ex_adapter :: adapter where
  "ex_adapter = adapter_connect ex_adapter_config True None"

definition ex_write_request :: command_request where
  "ex_write_request = \<lparr>cr_request_id = ''r'', cr_operation = StartTurn, cr_session_key = codex_key ex_adapter ''c'',
     cr_expected_turn_id = None, cr_expected_runtime_revision = Some 3, cr_payload_digest = None, cr_payload = PlStartTurn ''go''\<rparr>"

lemma ex_versions: "normalized_version ''0.153.4'' = ''0.153.4''" "normalized_version ''0.200.0'' = ''0.200.0''"
  by (simp_all add: normalized_version_def str_trim_id ascii_graphic_def strip_prefix_def starts_with_def)

lemma ex_version_verified: "version_is_verified ''0.153.4''"
  by (simp add: version_is_verified_def ex_versions VERIFIED_VERSIONS_def)

lemma ex_adapter_supports: "caps_supports (ca_caps ex_adapter) StartTurn"
  by (simp add: ex_adapter_def ex_adapter_config_def adapter_connect_def capability_probe_input_def caps_supports_def probe_def
      probe_operations_def writes_open_def ex_version_verified REAL_DESKTOP_VERIFIED_CORE_OPS_def)

lemma ex_adapter_fields: "ca_ipc ex_adapter = Some 1" "ca_sessions ex_adapter = []"
  by (simp_all add: ex_adapter_def ex_adapter_config_def adapter_connect_def)

lemma ex_adapter_writes:
  "execute_command (\<lambda>_. None) None (Inr (Some ''o'')) None ex_adapter ex_adapter ex_adapter (codex_key ex_adapter ''c'') ex_write_request =
   (Inr [\<lparr>ct_request_id = ''r'', ct_state = RsDispatchedToCodex, ct_at = None\<rparr>,
         \<lparr>ct_request_id = ''r'', ct_state = RsCompleted, ct_at = None\<rparr>], [NwStartTurn ''o'' ''c'' ''go''])"
  by (simp add: execute_command_def ensure_owner_def check_target_def prepare_write_def gated_def write_gate_def
      ex_write_request_def codex_key_def ex_adapter_fields ex_adapter_supports)


text \<open>
  The capabilities are those at the call, the connection is the one after the owner was found. When the supervisor
  attaches to another version in between, the write goes out although the capabilities by then support nothing.
\<close>

definition ex_reattached :: adapter where
  "ex_reattached = fst (try_attach None (Inr ''0.200.0'') ex_adapter)"

lemma write_after_reattach:
  "cs_supported_operations (ca_caps ex_reattached) = [] \<and>
   snd (execute_command (\<lambda>_. None) None (Inr (Some ''o'')) None ex_adapter ex_reattached ex_reattached
     (codex_key ex_adapter ''c'') ex_write_request) = [NwStartTurn ''o'' ''c'' ''go'']"
proof
  have r: "ex_reattached = ex_adapter\<lparr>ca_generation := 2, ca_ipc := Some 2, ca_connected := True,
      ca_caps := probe (capability_probe_input (Some ''0.200.0'') probes_default True None)\<rparr>"
    by (simp add: ex_versions ex_reattached_def try_attach_def attach_evidence_def ex_adapter_def ex_adapter_config_def adapter_connect_def)
  show "cs_supported_operations (ca_caps ex_reattached) = []"
    by (simp add: r capability_probe_input_def probe_def probe_operations_def probes_default_def)
  show "snd (execute_command (\<lambda>_. None) None (Inr (Some ''o'')) None ex_adapter ex_reattached ex_reattached
      (codex_key ex_adapter ''c'') ex_write_request) = [NwStartTurn ''o'' ''c'' ''go'']"
    by (simp add: r execute_command_def ensure_owner_def check_target_def prepare_write_def gated_def write_gate_def
        ex_write_request_def codex_key_def ex_adapter_fields ex_adapter_supports)
qed

text \<open>
  Two consequences for the list. A lost connection keeps its client, so sessions are still shown online; and a known
  session is appended to every page that does not have it, also an archived one that was filtered out.
\<close>

lemma lost_connection_is_shown_online:
  "ca_ipc a \<noteq> None \<Longrightarrow> ss_device_connection (summary_from_catalog now t (a\<lparr>ca_connected := False\<rparr>)) = DcOnline"
  by (simp add: summary_from_catalog_def Let_def)

definition add_known :: "string \<times> session_runtime \<Rightarrow> dm_session_summary list \<Rightarrow> dm_session_summary list" where
  "add_known = (\<lambda>(k, rt) ss. if list_ex (\<lambda>s. sk_native_session_id (ss_session_key s) = sk_native_session_id (rn_key rt)) ss then ss
     else ss @ [session_summary_of (rn_mapper rt)])"

lemma add_known_mono: "set ss \<subseteq> set (fold add_known ks ss)"
proof (induction ks arbitrary: ss)
  case (Cons k ks)
  have "set ss \<subseteq> set (add_known k ss)" by (auto simp: add_known_def split: prod.splits)
  then show ?case using Cons [of "add_known k ss"] by auto
qed simp

lemma add_known_member:
  assumes "(c, rt) \<in> set ks" "sk_native_session_id (ss_session_key (session_summary_of (rn_mapper rt))) = sk_native_session_id (rn_key rt)"
  shows "sk_native_session_id (rn_key rt) \<in> (\<lambda>s. sk_native_session_id (ss_session_key s)) ` set (fold add_known ks ss)"
  using assms(1)
proof (induction ks arbitrary: ss)
  case (Cons k ks)
  show ?case
  proof (cases "k = (c, rt)")
    case True
    then have "sk_native_session_id (rn_key rt) \<in> (\<lambda>s. sk_native_session_id (ss_session_key s)) ` set (add_known k ss)"
      using assms(2) by (auto simp: add_known_def list_ex_iff image_iff eq_commute [of "sk_native_session_id (rn_key rt)"])
    then show ?thesis using add_known_mono [of "add_known k ss" ks] by auto
  qed (use Cons in auto)
qed simp

lemma known_session_on_every_page:
  assumes "(c, rt) \<in> set (ca_sessions a)"
    "sk_native_session_id (ss_session_key (session_summary_of (rn_mapper rt))) = sk_native_session_id (rn_key rt)"
    "adapter_list_sessions now static (Inr (threads, cursor, has_more)) include_archived a = Inr (page, cursor', more')"
    "ca_catalog a \<noteq> None"
  shows "sk_native_session_id (rn_key rt) \<in> (\<lambda>s. sk_native_session_id (ss_session_key s)) ` set page"
proof -
  have "page = fold add_known (ca_sessions a) (map (\<lambda>t. summary_from_catalog now t a) threads)"
    using assms(3,4) by (auto simp: adapter_list_sessions_def add_known_sessions_def add_known_def)
  then show ?thesis using add_known_member [OF assms(1,2)] by simp
qed

end
