(* ===== verification/Proto_Mapping.thy ===== *)
theory Proto_Mapping
  imports Mapper
begin

text \<open>
  The conversion between the bridge's domain types and the messages of the protocol
  (\<open>apps/bridge/src/runtime/proto_mapping.rs\<close>). An enumeration is its number in a message; a number that the protocol
  does not know is read as the variant that stands for it in the source. Times of the domain are RFC 3339 texts;
  the date and UUID libraries are arguments.
\<close>

section \<open>Libraries\<close>

text \<open>\<open>we_stamp\<close>: seconds and nanoseconds of a time; \<open>we_time\<close>: the time of seconds and nanoseconds, if in range;
  \<open>we_uuid\<close>: the canonical text of a UUID, if the text is one.\<close>

record wire_env =
  we_stamp :: "string \<Rightarrow> int \<times> int"
  we_time :: "int \<Rightarrow> int \<Rightarrow> string option"
  we_now :: string
  we_uuid :: "string \<Rightarrow> string option"

type_synonym wire_time = "int \<times> int"

definition timestamp_to_proto :: "wire_env \<Rightarrow> string \<Rightarrow> wire_time" where
  "timestamp_to_proto env t = we_stamp env t"

definition timestamp_from_proto :: "wire_env \<Rightarrow> wire_time \<Rightarrow> string" where
  "timestamp_from_proto env v = unwrap_or (we_now env) (we_time env (fst v) (max (snd v) 0))"

definition opt_timestamp_to_proto :: "wire_env \<Rightarrow> string option \<Rightarrow> wire_time option" where
  "opt_timestamp_to_proto env = map_option (timestamp_to_proto env)"

definition opt_timestamp_from_proto :: "wire_env \<Rightarrow> wire_time option \<Rightarrow> string option" where
  "opt_timestamp_from_proto env = map_option (timestamp_from_proto env)"

text \<open>\<open>unwrap_or_default\<close> of a text, and the reading of an empty text and of zero as absent.\<close>

definition blank :: "string option \<Rightarrow> string" where "blank = unwrap_or []"
definition unblank :: "string \<Rightarrow> string option" where "unblank s = (if s = [] then None else Some s)"
definition nonzero :: "u64 \<Rightarrow> u64 option" where "nonzero n = (if n = 0 then None else Some n)"

section \<open>Identifiers\<close>

record wire_session_key =
  wk_device_id :: string
  wk_agent_kind :: int
  wk_native_session_id :: string
  wk_relay_session_uuid :: string

record wire_turn_id =
  wt_id :: string
  wt_synthetic :: bool

record wire_item_id =
  wi_id :: string
  wi_synthetic :: bool

definition session_key_to_proto :: "session_key \<Rightarrow> wire_session_key" where
  "session_key_to_proto key = \<lparr>wk_device_id = sk_device_id key, wk_agent_kind = proto_value (sk_agent_kind key),
     wk_native_session_id = sk_native_session_id key, wk_relay_session_uuid = blank (sk_relay_session_uuid key)\<rparr>"

definition session_key_from_proto :: "wire_env \<Rightarrow> wire_session_key \<Rightarrow> session_key option" where
  "session_key_from_proto env key = map_option (\<lambda>kind.
     \<lparr>sk_device_id = wk_device_id key, sk_agent_kind = kind, sk_native_session_id = wk_native_session_id key,
      sk_relay_session_uuid = we_uuid env (wk_relay_session_uuid key)\<rparr>) (from_proto_value (wk_agent_kind key))"

definition turn_id_to_proto :: "turn_id \<Rightarrow> wire_turn_id" where
  "turn_id_to_proto i = \<lparr>wt_id = ti_id i, wt_synthetic = ti_synthetic i\<rparr>"

definition turn_id_from_proto :: "wire_turn_id \<Rightarrow> turn_id" where
  "turn_id_from_proto i = \<lparr>ti_id = wt_id i, ti_synthetic = wt_synthetic i\<rparr>"

definition opt_turn_id_to_proto :: "turn_id option \<Rightarrow> wire_turn_id option" where
  "opt_turn_id_to_proto = map_option turn_id_to_proto"

definition opt_turn_id_from_proto :: "wire_turn_id option \<Rightarrow> turn_id option" where
  "opt_turn_id_from_proto = map_option turn_id_from_proto"

definition item_id_to_proto :: "item_id \<Rightarrow> wire_item_id" where
  "item_id_to_proto i = \<lparr>wi_id = ii_id i, wi_synthetic = ii_synthetic i\<rparr>"

definition item_id_from_proto :: "wire_item_id \<Rightarrow> item_id" where
  "item_id_from_proto i = \<lparr>ii_id = wi_id i, ii_synthetic = wi_synthetic i\<rparr>"

section \<open>Enumerations\<close>

fun device_connection_to_proto :: "device_connection \<Rightarrow> int" where
  "device_connection_to_proto DcConnecting = 1"
| "device_connection_to_proto DcOnline = 2"
| "device_connection_to_proto DcDegraded = 3"
| "device_connection_to_proto DcOffline = 4"

definition device_connection_from_proto :: "int \<Rightarrow> device_connection" where
  "device_connection_from_proto n = (if n = 1 then DcConnecting else if n = 2 then DcOnline else if n = 3 then DcDegraded
     else if n = 4 then DcOffline else DcOffline)"

fun control_mode_to_proto :: "control_mode \<Rightarrow> int" where
  "control_mode_to_proto FullControl = 1"
| "control_mode_to_proto LimitedControl = 2"
| "control_mode_to_proto ReadOnly = 3"
| "control_mode_to_proto Unavailable = 4"

definition control_mode_from_proto :: "int \<Rightarrow> control_mode" where
  "control_mode_from_proto n = (if n = 1 then FullControl else if n = 2 then LimitedControl else if n = 3 then ReadOnly
     else if n = 4 then Unavailable else Unavailable)"

fun compatibility_state_to_proto :: "compatibility_state \<Rightarrow> int" where
  "compatibility_state_to_proto Verified = 1"
| "compatibility_state_to_proto Degraded = 2"
| "compatibility_state_to_proto Unsupported = 3"

definition compatibility_state_from_proto :: "int \<Rightarrow> compatibility_state" where
  "compatibility_state_from_proto n = (if n = 1 then Verified else if n = 2 then Degraded else if n = 3 then Unsupported
     else Degraded)"

fun turn_phase_to_proto :: "active_turn_phase \<Rightarrow> int" where
  "turn_phase_to_proto PhIdle = 1"
| "turn_phase_to_proto PhRunning = 2"
| "turn_phase_to_proto PhFinishing = 3"

definition turn_phase_from_proto :: "int \<Rightarrow> active_turn_phase" where
  "turn_phase_from_proto n = (if n = 1 then PhIdle else if n = 2 then PhRunning else if n = 3 then PhFinishing else PhIdle)"

fun attention_kind_to_proto :: "attention_kind \<Rightarrow> int" where
  "attention_kind_to_proto UserQuestion = 1"
| "attention_kind_to_proto RiskApproval = 2"

text \<open>Unspecified is read as a question; a number that is not in the protocol is dropped.\<close>

definition attention_kind_from_proto :: "int \<Rightarrow> attention_kind option" where
  "attention_kind_from_proto n = (if n = 0 \<or> n = 1 then Some UserQuestion else if n = 2 then Some RiskApproval else None)"

fun queue_state_to_proto :: "queue_state \<Rightarrow> int" where
  "queue_state_to_proto QsEmpty = 1"
| "queue_state_to_proto QsQueued = 2"
| "queue_state_to_proto QsPaused = 3"

definition queue_state_from_proto :: "int \<Rightarrow> queue_state" where
  "queue_state_from_proto n = (if n = 1 then QsEmpty else if n = 2 then QsQueued else if n = 3 then QsPaused else QsEmpty)"

fun turn_outcome_to_proto :: "last_turn_outcome \<Rightarrow> int" where
  "turn_outcome_to_proto OutCompleted = 1"
| "turn_outcome_to_proto OutFailed = 2"
| "turn_outcome_to_proto OutInterrupted = 3"
| "turn_outcome_to_proto OutUnknown = 4"

definition turn_outcome_from_proto :: "int \<Rightarrow> last_turn_outcome" where
  "turn_outcome_from_proto n = (if n = 1 then OutCompleted else if n = 2 then OutFailed else if n = 3 then OutInterrupted
     else if n = 4 then OutUnknown else OutUnknown)"

fun background_state_to_proto :: "background_state \<Rightarrow> int" where
  "background_state_to_proto BgRunning = 1"
| "background_state_to_proto BgCompleted = 2"
| "background_state_to_proto BgFailed = 3"
| "background_state_to_proto BgStopped = 4"
| "background_state_to_proto BgUnknown = 5"

definition background_state_from_proto :: "int \<Rightarrow> background_state" where
  "background_state_from_proto n = (if n = 1 then BgRunning else if n = 2 then BgCompleted else if n = 3 then BgFailed
     else if n = 4 then BgStopped else if n = 5 then BgUnknown else BgUnknown)"

fun output_channel_to_proto :: "output_channel \<Rightarrow> int" where
  "output_channel_to_proto ChStdout = 1"
| "output_channel_to_proto ChStderr = 2"
| "output_channel_to_proto ChCombined = 3"

definition output_channel_from_proto :: "int \<Rightarrow> output_channel" where
  "output_channel_from_proto n = (if n = 1 then ChStdout else if n = 2 then ChStderr else if n = 3 then ChCombined else ChCombined)"

fun plan_step_status_to_proto :: "plan_step_status \<Rightarrow> int" where
  "plan_step_status_to_proto StepPending = 1"
| "plan_step_status_to_proto StepInProgress = 2"
| "plan_step_status_to_proto StepCompleted = 3"

definition plan_step_status_from_proto :: "int \<Rightarrow> plan_step_status" where
  "plan_step_status_from_proto n = (if n = 1 then StepPending else if n = 2 then StepInProgress else if n = 3 then StepCompleted
     else StepPending)"

fun file_change_kind_to_proto :: "file_change_kind \<Rightarrow> int" where
  "file_change_kind_to_proto FcAdded = 1"
| "file_change_kind_to_proto FcModified = 2"
| "file_change_kind_to_proto FcDeleted = 3"
| "file_change_kind_to_proto FcRenamed = 4"
| "file_change_kind_to_proto FcUnknown = 0"

definition file_change_kind_from_proto :: "int \<Rightarrow> file_change_kind" where
  "file_change_kind_from_proto n = (if n = 1 then FcAdded else if n = 2 then FcModified else if n = 3 then FcDeleted
     else if n = 4 then FcRenamed else FcUnknown)"

fun setting_kind_to_proto :: "setting_kind \<Rightarrow> int" where
  "setting_kind_to_proto SkModel = 1"
| "setting_kind_to_proto SkReasoningEffort = 2"
| "setting_kind_to_proto SkServiceTier = 3"
| "setting_kind_to_proto SkPermissionMode = 4"
| "setting_kind_to_proto SkCollaborationMode = 5"

definition setting_kind_from_proto :: "int \<Rightarrow> setting_kind option" where
  "setting_kind_from_proto n = (if n = 1 then Some SkModel else if n = 2 then Some SkReasoningEffort else if n = 3 then Some SkServiceTier
     else if n = 4 then Some SkPermissionMode else if n = 5 then Some SkCollaborationMode else None)"

text \<open>The number of a stable error code is its place in the protocol's list.\<close>

definition stable_error_codes :: "stable_error_code list" where
  "stable_error_codes =
    [AuthRequired, AuthExpired, CsrfInvalid, WsTicketInvalid, WsTicketExpired, WsTicketConsumed, DeviceOffline, DeviceRevoked,
     CodexUnavailable, CodexVersionUnverified, ControlReadOnly, CapabilityUnsupported, SessionNotFound, StaleTurn,
     DuplicateRequestMismatch, OutcomeUnknownCode, ResyncRequiredCode, QueueAlreadyExists, QueuePausedCode, QuestionExpired,
     ApprovalExpired, SettingCombinationUnsupported, FileHandleInvalid, FileOutsideScope, FileChanged, FileTypeNotPreviewable,
     TransferExpired, TransferTooLarge, TransferRangeInvalid, DiffTooLarge, RateLimited, InternalError]"

definition stable_error_to_proto :: "stable_error_code \<Rightarrow> int" where
  "stable_error_to_proto c = 1 + int (length (takeWhile (\<lambda>x. x \<noteq> c) stable_error_codes))"

definition stable_error_from_proto :: "int \<Rightarrow> stable_error_code" where
  "stable_error_from_proto n =
    (if 1 \<le> n \<and> n \<le> int (length stable_error_codes) then stable_error_codes ! nat (n - 1) else InternalError)"

text \<open>What is written is read back.\<close>

lemma enum_round_trips [simp]:
  "device_connection_from_proto (device_connection_to_proto dc) = dc"
  "control_mode_from_proto (control_mode_to_proto cm) = cm"
  "compatibility_state_from_proto (compatibility_state_to_proto co) = co"
  "turn_phase_from_proto (turn_phase_to_proto ph) = ph"
  "attention_kind_from_proto (attention_kind_to_proto ak) = Some ak"
  "queue_state_from_proto (queue_state_to_proto qs) = qs"
  "turn_outcome_from_proto (turn_outcome_to_proto oc) = oc"
  "background_state_from_proto (background_state_to_proto bs) = bs"
  "output_channel_from_proto (output_channel_to_proto ch) = ch"
  "plan_step_status_from_proto (plan_step_status_to_proto st) = st"
  "file_change_kind_from_proto (file_change_kind_to_proto fk) = fk"
  "setting_kind_from_proto (setting_kind_to_proto sk) = Some sk"
  "from_proto_value (proto_value kind) = Some kind"
  subgoal by (cases dc) (simp_all add: device_connection_from_proto_def)
  subgoal by (cases cm) (simp_all add: control_mode_from_proto_def)
  subgoal by (cases co) (simp_all add: compatibility_state_from_proto_def)
  subgoal by (cases ph) (simp_all add: turn_phase_from_proto_def)
  subgoal by (cases ak) (simp_all add: attention_kind_from_proto_def)
  subgoal by (cases qs) (simp_all add: queue_state_from_proto_def)
  subgoal by (cases oc) (simp_all add: turn_outcome_from_proto_def)
  subgoal by (cases bs) (simp_all add: background_state_from_proto_def)
  subgoal by (cases ch) (simp_all add: output_channel_from_proto_def)
  subgoal by (cases st) (simp_all add: plan_step_status_from_proto_def)
  subgoal by (cases fk) (simp_all add: file_change_kind_from_proto_def)
  subgoal by (cases sk) (simp_all add: setting_kind_from_proto_def)
  subgoal by (cases kind) (simp_all add: from_proto_value_def)
  done

lemma stable_error_round_trip [simp]: "stable_error_from_proto (stable_error_to_proto c) = c"
  by (cases c) (simp_all add: stable_error_to_proto_def stable_error_from_proto_def stable_error_codes_def)
section \<open>Summaries, queues and cursors\<close>

record wire_summary =
  wu_session_key :: "wire_session_key option"
  wu_title :: string
  wu_agent_kind :: int
  wu_project_display_name :: string
  wu_current_branch :: string
  wu_updated_at :: "wire_time option"
  wu_device_connection :: int
  wu_device_last_seen_at :: "wire_time option"
  wu_degraded_reason :: string
  wu_control_mode :: int
  wu_compatibility_state :: int
  wu_active_turn_phase :: int
  wu_pending_attention_count :: u32
  wu_pending_attention_kinds :: "int list"
  wu_queue_state :: int
  wu_last_turn_outcome :: int
  wu_pinned :: bool
  wu_muted :: bool
  wu_archived :: bool

definition session_summary_to_proto :: "wire_env \<Rightarrow> dm_session_summary \<Rightarrow> wire_summary" where
  "session_summary_to_proto env s = \<lparr>
     wu_session_key = Some (session_key_to_proto (ss_session_key s)),
     wu_title = blank (ss_title s),
     wu_agent_kind = proto_value (sk_agent_kind (ss_session_key s)),
     wu_project_display_name = blank (ss_project_display_name s),
     wu_current_branch = blank (ss_current_branch s),
     wu_updated_at = opt_timestamp_to_proto env (ss_updated_at s),
     wu_device_connection = device_connection_to_proto (ss_device_connection s),
     wu_device_last_seen_at = opt_timestamp_to_proto env (ss_device_last_seen_at s),
     wu_degraded_reason = blank (ss_degraded_reason s),
     wu_control_mode = control_mode_to_proto (ss_control_mode s),
     wu_compatibility_state = compatibility_state_to_proto (ss_compatibility_state s),
     wu_active_turn_phase = turn_phase_to_proto (ss_active_turn_phase s),
     wu_pending_attention_count = ss_pending_attention_count s,
     wu_pending_attention_kinds = map attention_kind_to_proto (ss_pending_attention_kinds s),
     wu_queue_state = queue_state_to_proto (ss_queue_state s),
     wu_last_turn_outcome = turn_outcome_to_proto (ss_last_turn_outcome s),
     wu_pinned = ss_pinned s,
     wu_muted = ss_muted s,
     wu_archived = ss_archived s\<rparr>"

definition session_summary_from_proto :: "wire_env \<Rightarrow> wire_summary \<Rightarrow> dm_session_summary option" where
  "session_summary_from_proto env p = map_option (\<lambda>key. \<lparr>
     ss_session_key = key,
     ss_title = unblank (wu_title p),
     ss_agent_kind = sk_agent_kind key,
     ss_project_display_name = unblank (wu_project_display_name p),
     ss_current_branch = unblank (wu_current_branch p),
     ss_updated_at = opt_timestamp_from_proto env (wu_updated_at p),
     ss_device_connection = device_connection_from_proto (wu_device_connection p),
     ss_device_last_seen_at = opt_timestamp_from_proto env (wu_device_last_seen_at p),
     ss_degraded_reason = unblank (wu_degraded_reason p),
     ss_control_mode = control_mode_from_proto (wu_control_mode p),
     ss_compatibility_state = compatibility_state_from_proto (wu_compatibility_state p),
     ss_active_turn_phase = turn_phase_from_proto (wu_active_turn_phase p),
     ss_pending_attention_count = wu_pending_attention_count p,
     ss_pending_attention_kinds = List.map_filter attention_kind_from_proto (wu_pending_attention_kinds p),
     ss_queue_state = queue_state_from_proto (wu_queue_state p),
     ss_last_turn_outcome = turn_outcome_from_proto (wu_last_turn_outcome p),
     ss_pinned = wu_pinned p,
     ss_muted = wu_muted p,
     ss_archived = wu_archived p\<rparr>) (Option.bind (wu_session_key p) (session_key_from_proto env))"

record wire_queue_status =
  wq_state :: int
  wq_after_turn_id :: "wire_turn_id option"
  wq_accepted_runtime_revision :: u64

definition queue_status_to_proto :: "dm_queue_status \<Rightarrow> wire_queue_status" where
  "queue_status_to_proto q = \<lparr>wq_state = queue_state_to_proto (qs_state q),
     wq_after_turn_id = opt_turn_id_to_proto (qs_after_turn_id q),
     wq_accepted_runtime_revision = unwrap_or 0 (qs_accepted_runtime_revision q)\<rparr>"

definition queue_status_from_proto :: "wire_queue_status \<Rightarrow> dm_queue_status" where
  "queue_status_from_proto p = \<lparr>qs_state = queue_state_from_proto (wq_state p),
     qs_after_turn_id = opt_turn_id_from_proto (wq_after_turn_id p),
     qs_accepted_runtime_revision = nonzero (wq_accepted_runtime_revision p)\<rparr>"

record wire_output_cursor =
  wc_item_id :: "wire_item_id option"
  wc_revision :: u64
  wc_byte_length :: nat
  wc_is_final :: bool
  wc_channel :: int

definition output_cursor_to_proto :: "output_cursor \<Rightarrow> wire_output_cursor" where
  "output_cursor_to_proto c = \<lparr>wc_item_id = Some (item_id_to_proto (oc_item_id c)), wc_revision = oc_revision c,
     wc_byte_length = oc_byte_length c, wc_is_final = oc_is_final c, wc_channel = output_channel_to_proto (oc_channel c)\<rparr>"

definition output_cursor_from_proto :: "wire_output_cursor \<Rightarrow> output_cursor" where
  "output_cursor_from_proto p = \<lparr>
     oc_item_id = unwrap_or (item_synthetic []) (map_option item_id_from_proto (wc_item_id p)),
     oc_revision = wc_revision p, oc_byte_length = wc_byte_length p, oc_is_final = wc_is_final p,
     oc_channel = output_channel_from_proto (wc_channel p), oc_final_unavailable = False\<rparr>"

record wire_current_turn =
  wr_turn :: "wire_turn_id option"
  wr_phase :: int
  wr_started_at :: "wire_time option"

definition current_turn_to_proto :: "wire_env \<Rightarrow> current_turn \<Rightarrow> wire_current_turn" where
  "current_turn_to_proto env t = \<lparr>wr_turn = Some (turn_id_to_proto (cu_turn t)), wr_phase = turn_phase_to_proto (cu_phase t),
     wr_started_at = opt_timestamp_to_proto env (cu_started_at t)\<rparr>"

definition current_turn_from_proto :: "wire_env \<Rightarrow> wire_current_turn \<Rightarrow> current_turn" where
  "current_turn_from_proto env p = \<lparr>
     cu_turn = unwrap_or (turn_synthetic []) (map_option turn_id_from_proto (wr_turn p)),
     cu_phase = turn_phase_from_proto (wr_phase p), cu_started_at = opt_timestamp_from_proto env (wr_started_at p)\<rparr>"

record wire_plan_step =
  wp_step_id :: string
  wp_title :: string
  wp_status :: int

definition plan_to_proto :: "plan_step list \<Rightarrow> wire_plan_step list" where
  "plan_to_proto = map (\<lambda>s. \<lparr>wp_step_id = ps_step_id s, wp_title = ps_title s, wp_status = plan_step_status_to_proto (ps_status s)\<rparr>)"

definition plan_from_proto :: "wire_plan_step list \<Rightarrow> plan_step list" where
  "plan_from_proto = map (\<lambda>s. \<lparr>ps_step_id = wp_step_id s, ps_title = wp_title s, ps_status = plan_step_status_from_proto (wp_status s)\<rparr>)"

record wire_running_command =
  wn_command_id :: string
  wn_item_id :: "wire_item_id option"
  wn_started_at :: "wire_time option"

definition running_command_to_proto :: "wire_env \<Rightarrow> running_command \<Rightarrow> wire_running_command" where
  "running_command_to_proto env c = \<lparr>wn_command_id = rc_command_id c, wn_item_id = map_option item_id_to_proto (rc_item_id c),
     wn_started_at = opt_timestamp_to_proto env (rc_started_at c)\<rparr>"

definition running_command_from_proto :: "wire_env \<Rightarrow> wire_running_command \<Rightarrow> running_command" where
  "running_command_from_proto env p = \<lparr>rc_command_id = wn_command_id p, rc_item_id = map_option item_id_from_proto (wn_item_id p),
     rc_started_at = opt_timestamp_from_proto env (wn_started_at p)\<rparr>"

record wire_background_command =
  wb_command_id :: string
  wb_item_id :: "wire_item_id option"
  wb_state :: int
  wb_started_at :: "wire_time option"
  wb_finished_at :: "wire_time option"

definition background_command_to_proto :: "wire_env \<Rightarrow> bg_command \<Rightarrow> wire_background_command" where
  "background_command_to_proto env c = \<lparr>wb_command_id = blank (bc_command_id c), wb_item_id = map_option item_id_to_proto (bc_item_id c),
     wb_state = background_state_to_proto (bc_state c), wb_started_at = opt_timestamp_to_proto env (bc_started_at c),
     wb_finished_at = opt_timestamp_to_proto env (bc_finished_at c)\<rparr>"

definition background_command_from_proto :: "wire_env \<Rightarrow> wire_background_command \<Rightarrow> bg_command" where
  "background_command_from_proto env p = \<lparr>bc_command_id = unblank (wb_command_id p),
     bc_item_id = map_option item_id_from_proto (wb_item_id p), bc_state = background_state_from_proto (wb_state p),
     bc_display = None, bc_started_at = opt_timestamp_from_proto env (wb_started_at p),
     bc_finished_at = opt_timestamp_from_proto env (wb_finished_at p)\<rparr>"

section \<open>Capabilities\<close>

text \<open>The limits have the same fields on both sides; zero and an empty list are read as not filled in.\<close>

definition transfer_limits_to_proto :: "transfer_limits \<Rightarrow> transfer_limits" where
  "transfer_limits_to_proto l = \<lparr>
     tl_text_inline_max_bytes = tl_text_inline_max_bytes l, tl_image_inline_max_bytes = tl_image_inline_max_bytes l,
     tl_pdf_range_max_bytes = tl_pdf_range_max_bytes l, tl_download_max_bytes = tl_download_max_bytes l,
     tl_upload_max_bytes = tl_upload_max_bytes l, tl_max_concurrent_per_browser = tl_max_concurrent_per_browser l,
     tl_max_concurrent_per_device = tl_max_concurrent_per_device l,
     tl_previewable_mime_prefixes = tl_previewable_mime_prefixes l\<rparr>"

definition or_default :: "nat \<Rightarrow> nat \<Rightarrow> nat" where "or_default d n = (if n = 0 then d else n)"

definition transfer_limits_from_proto :: "transfer_limits \<Rightarrow> transfer_limits" where
  "transfer_limits_from_proto p = (let d = transfer_limits_default in \<lparr>
     tl_text_inline_max_bytes = or_default (tl_text_inline_max_bytes d) (tl_text_inline_max_bytes p),
     tl_image_inline_max_bytes = or_default (tl_image_inline_max_bytes d) (tl_image_inline_max_bytes p),
     tl_pdf_range_max_bytes = or_default (tl_pdf_range_max_bytes d) (tl_pdf_range_max_bytes p),
     tl_download_max_bytes = or_default (tl_download_max_bytes d) (tl_download_max_bytes p),
     tl_upload_max_bytes = or_default (tl_upload_max_bytes d) (tl_upload_max_bytes p),
     tl_max_concurrent_per_browser = or_default (tl_max_concurrent_per_browser d) (tl_max_concurrent_per_browser p),
     tl_max_concurrent_per_device = or_default (tl_max_concurrent_per_device d) (tl_max_concurrent_per_device p),
     tl_previewable_mime_prefixes =
       (if tl_previewable_mime_prefixes p = [] then tl_previewable_mime_prefixes d else tl_previewable_mime_prefixes p)\<rparr>)"

record wire_setting_option =
  wo_option_id :: string
  wo_kind :: int
  wo_label :: string
  wo_current_value :: string
  wo_available_values :: "setting_value list"
  wo_mutable :: bool

definition setting_option_to_proto :: "setting_option \<Rightarrow> wire_setting_option" where
  "setting_option_to_proto x = \<lparr>wo_option_id = so_option_id x, wo_kind = setting_kind_to_proto (so_kind x), wo_label = so_label x,
     wo_current_value = blank (so_current_value x), wo_available_values = so_available_values x, wo_mutable = so_mutable x\<rparr>"

definition setting_option_from_proto :: "wire_setting_option \<Rightarrow> setting_option option" where
  "setting_option_from_proto p = map_option (\<lambda>kind. \<lparr>so_option_id = wo_option_id p, so_kind = kind, so_label = wo_label p,
     so_current_value = unblank (wo_current_value p), so_available_values = wo_available_values p, so_mutable = wo_mutable p\<rparr>)
     (setting_kind_from_proto (wo_kind p))"

fun operation_to_proto :: "operation \<Rightarrow> int" where
  "operation_to_proto CreateSession = 1"
| "operation_to_proto StartTurn = 2"
| "operation_to_proto QueueNextTurn = 3"
| "operation_to_proto SteerTurn = 6"
| "operation_to_proto InterruptTurn = 7"
| "operation_to_proto AnswerQuestion = 8"
| "operation_to_proto SubmitApproval = 9"
| "operation_to_proto UpdateSettings = 10"
| "operation_to_proto RenameSession = 11"
| "operation_to_proto ArchiveSession = 12"
| "operation_to_proto UnarchiveSession = 13"
| "operation_to_proto ForkSession = 14"
| "operation_to_proto StopBackgroundCommand = 15"
| "operation_to_proto StopAllBackgroundCommands = 16"

record wire_capabilities =
  wz_control_mode :: int
  wz_compatibility_state :: int
  wz_codex_version :: string
  wz_supported_operations :: "int list"
  wz_settings :: "wire_setting_option list"
  wz_transfer_limits :: "transfer_limits option"

text \<open>The one queue capability of the domain is setting, replacing and cancelling in the protocol.\<close>

definition capability_set_to_proto :: "capability_set \<Rightarrow> wire_capabilities" where
  "capability_set_to_proto c = \<lparr>wz_control_mode = control_mode_to_proto (cs_control_mode c),
     wz_compatibility_state = compatibility_state_to_proto (cs_compatibility_state c),
     wz_codex_version = blank (cs_codex_version c),
     wz_supported_operations = concat (map (\<lambda>x. if x = QueueNextTurn then [3, 4, 5] else [operation_to_proto x]) (cs_supported_operations c)),
     wz_settings = map setting_option_to_proto (cs_settings c),
     wz_transfer_limits = Some (transfer_limits_to_proto (cs_transfer_limits c))\<rparr>"

definition capability_set_from_proto :: "wire_capabilities \<Rightarrow> capability_set" where
  "capability_set_from_proto p = \<lparr>cs_control_mode = control_mode_from_proto (wz_control_mode p),
     cs_compatibility_state = compatibility_state_from_proto (wz_compatibility_state p),
     cs_codex_version = unblank (wz_codex_version p),
     cs_supported_operations = [],
     cs_settings = List.map_filter setting_option_from_proto (wz_settings p),
     cs_transfer_limits = unwrap_or transfer_limits_default (map_option transfer_limits_from_proto (wz_transfer_limits p))\<rparr>"

section \<open>Questions and approvals\<close>

record wire_question =
  wy_question_id :: string
  wy_title :: string
  wy_description :: string
  wy_options :: "question_option list"
  wy_allow_multiple :: bool
  wy_allow_free_text :: bool
  wy_turn :: "wire_turn_id option"
  wy_created_at :: "wire_time option"
  wy_valid :: bool

definition question_to_proto :: "wire_env \<Rightarrow> pending_question \<Rightarrow> wire_question" where
  "question_to_proto env q = \<lparr>wy_question_id = pq_question_id q, wy_title = pq_title q, wy_description = pq_description q,
     wy_options = pq_options q, wy_allow_multiple = pq_allow_multiple q, wy_allow_free_text = pq_allow_free_text q,
     wy_turn = opt_turn_id_to_proto (pq_turn q), wy_created_at = opt_timestamp_to_proto env (pq_created_at q), wy_valid = pq_valid q\<rparr>"

definition question_from_proto :: "wire_env \<Rightarrow> wire_question \<Rightarrow> pending_question" where
  "question_from_proto env p = \<lparr>pq_question_id = wy_question_id p, pq_title = wy_title p, pq_description = wy_description p,
     pq_options = wy_options p, pq_allow_multiple = wy_allow_multiple p, pq_allow_free_text = wy_allow_free_text p,
     pq_turn = opt_turn_id_from_proto (wy_turn p), pq_created_at = opt_timestamp_from_proto env (wy_created_at p), pq_valid = wy_valid p\<rparr>"

record wire_approval =
  wa_approval_id :: string
  wa_risk_description :: string
  wa_requested_action :: string
  wa_decisions :: "approval_decision list"
  wa_scope :: string
  wa_turn :: "wire_turn_id option"
  wa_created_at :: "wire_time option"
  wa_valid :: bool

definition approval_to_proto :: "wire_env \<Rightarrow> pending_approval \<Rightarrow> wire_approval" where
  "approval_to_proto env a = \<lparr>wa_approval_id = pa_approval_id a, wa_risk_description = pa_risk_description a,
     wa_requested_action = pa_requested_action a, wa_decisions = pa_decisions a, wa_scope = blank (pa_scope a),
     wa_turn = opt_turn_id_to_proto (pa_turn a), wa_created_at = opt_timestamp_to_proto env (pa_created_at a), wa_valid = pa_valid a\<rparr>"

definition approval_from_proto :: "wire_env \<Rightarrow> wire_approval \<Rightarrow> pending_approval" where
  "approval_from_proto env p = \<lparr>pa_approval_id = wa_approval_id p, pa_risk_description = wa_risk_description p,
     pa_requested_action = wa_requested_action p, pa_decisions = wa_decisions p, pa_scope = unblank (wa_scope p),
     pa_turn = opt_turn_id_from_proto (wa_turn p), pa_created_at = opt_timestamp_from_proto env (wa_created_at p), pa_valid = wa_valid p\<rparr>"

datatype wire_attention = WaQuestion wire_question | WaApproval wire_approval

fun pending_attention_to_proto :: "wire_env \<Rightarrow> pending_attention \<Rightarrow> wire_attention" where
  "pending_attention_to_proto env (AtQuestion q) = WaQuestion (question_to_proto env q)"
| "pending_attention_to_proto env (AtApproval a) = WaApproval (approval_to_proto env a)"
section \<open>Items and history\<close>

text \<open>The options, decisions and values of questions, approvals and settings have the same two texts on both sides.\<close>

record wire_file_change =
  wf_path :: string
  wf_kind :: int
  wf_new_path :: string
  wf_inline_diff :: bytes
  wf_diff_truncated :: bool

datatype wire_content =
    WcUserMessage string
  | WcAssistantMessage string bool
  | WcReasoningSummary string
  | WcPlan "wire_plan_step list"
  | WcToolCall string string int string u64
  | WcCommandStatus string int "wire_time option" "wire_time option" u64
  | WcFileChange "wire_file_change list"
  | WcSubagentStatus "wire_turn_id option" "wire_turn_id option" string int int
  | WcQuestion wire_question
  | WcApproval wire_approval
  | WcTokenUsage u64 u64 u64 u64

record wire_item =
  wm_item_id :: "wire_item_id option"
  wm_turn :: "wire_turn_id option"
  wm_revision :: u64
  wm_created_at :: "wire_time option"
  wm_content :: "wire_content option"

fun status_to_background :: "command_status_state \<Rightarrow> background_state" where
  "status_to_background CsRunning = BgRunning"
| "status_to_background CsCompleted = BgCompleted"
| "status_to_background CsFailed = BgFailed"
| "status_to_background CsInterrupted = BgUnknown"
| "status_to_background CsUnknown = BgUnknown"

definition opt_outcome_to_proto :: "last_turn_outcome option \<Rightarrow> int" where
  "opt_outcome_to_proto x = (case x of Some v \<Rightarrow> turn_outcome_to_proto v | None \<Rightarrow> 0)"

definition opt_outcome_from_proto :: "int \<Rightarrow> last_turn_outcome option" where
  "opt_outcome_from_proto n = (if 1 \<le> n \<and> n \<le> 4 then Some (turn_outcome_from_proto n) else None)"

definition question_default :: wire_question where
  "question_default = \<lparr>wy_question_id = [], wy_title = [], wy_description = [], wy_options = [], wy_allow_multiple = False,
     wy_allow_free_text = False, wy_turn = None, wy_created_at = None, wy_valid = False\<rparr>"

definition approval_default :: wire_approval where
  "approval_default = \<lparr>wa_approval_id = [], wa_risk_description = [], wa_requested_action = [], wa_decisions = [], wa_scope = [],
     wa_turn = None, wa_created_at = None, wa_valid = False\<rparr>"

fun content_to_proto :: "dm_item_content \<Rightarrow> wire_content option" where
  "content_to_proto (UserMessage text) = Some (WcUserMessage text)"
| "content_to_proto (AssistantMessage text final) = Some (WcAssistantMessage text final)"
| "content_to_proto (ReasoningSummary text) = Some (WcReasoningSummary text)"
| "content_to_proto (PlanItem plan) = Some (WcPlan (plan_to_proto plan))"
| "content_to_proto (ToolCall i name status summary duration) =
     Some (WcToolCall i name (plan_step_status_to_proto status) (blank summary) duration)"
| "content_to_proto (CommandStatus i state display exit_code duration) =
     Some (WcCommandStatus i (background_state_to_proto (status_to_background state)) None None duration)"
| "content_to_proto (FileChanges changes) = Some (WcFileChange (map (\<lambda>c.
     \<lparr>wf_path = fc_path c, wf_kind = file_change_kind_to_proto (fc_change c), wf_new_path = [], wf_inline_diff = [],
      wf_diff_truncated = False\<rparr>) changes))"
| "content_to_proto (SubAgentStatus turn label phase outcome) =
     Some (WcSubagentStatus (opt_turn_id_to_proto turn) None label (turn_phase_to_proto phase) (opt_outcome_to_proto outcome))"
| "content_to_proto (QuestionItem i title) = Some (WcQuestion (question_default\<lparr>wy_question_id := i, wy_title := title\<rparr>))"
| "content_to_proto (ApprovalItem i action) = Some (WcApproval (approval_default\<lparr>wa_approval_id := i, wa_requested_action := action\<rparr>))"
| "content_to_proto (TokenUsage i x used window) = Some (WcTokenUsage i x (unwrap_or 0 used) (unwrap_or 0 window))"
| "content_to_proto (OpaqueItem native_type) = None"

definition item_to_proto :: "wire_env \<Rightarrow> item \<Rightarrow> wire_item option" where
  "item_to_proto env i = map_option (\<lambda>content.
     \<lparr>wm_item_id = Some (item_id_to_proto (im_item_id i)), wm_turn = opt_turn_id_to_proto (im_turn i), wm_revision = im_revision i,
      wm_created_at = opt_timestamp_to_proto env (im_created_at i), wm_content = Some content\<rparr>) (content_to_proto (im_content i))"

fun content_from_proto :: "wire_content option \<Rightarrow> dm_item_content" where
  "content_from_proto (Some (WcUserMessage text)) = UserMessage text"
| "content_from_proto (Some (WcAssistantMessage text final)) = AssistantMessage text final"
| "content_from_proto (Some (WcReasoningSummary text)) = ReasoningSummary text"
| "content_from_proto (Some (WcPlan plan)) = PlanItem (plan_from_proto plan)"
| "content_from_proto (Some (WcToolCall i name status summary duration)) =
     ToolCall i name (plan_step_status_from_proto status) (unblank summary) duration"
| "content_from_proto (Some (WcCommandStatus i state started finished duration)) = CommandStatus i CsUnknown None None duration"
| "content_from_proto (Some (WcFileChange files)) = FileChanges (map (\<lambda>c.
     \<lparr>fc_path = wf_path c, fc_change = file_change_kind_from_proto (wf_kind c)\<rparr>) files)"
| "content_from_proto (Some (WcSubagentStatus turn parent label phase outcome)) =
     SubAgentStatus (opt_turn_id_from_proto turn) label (turn_phase_from_proto phase) (opt_outcome_from_proto outcome)"
| "content_from_proto (Some (WcQuestion q)) = QuestionItem (wy_question_id q) (wy_title q)"
| "content_from_proto (Some (WcApproval a)) = ApprovalItem (wa_approval_id a) (wa_requested_action a)"
| "content_from_proto (Some (WcTokenUsage i x used window)) = TokenUsage i x (nonzero used) (nonzero window)"
| "content_from_proto None = OpaqueItem ''proto-item-without-content''"

definition item_from_proto :: "wire_env \<Rightarrow> wire_item \<Rightarrow> item" where
  "item_from_proto env p = \<lparr>im_item_id = unwrap_or (item_synthetic []) (map_option item_id_from_proto (wm_item_id p)),
     im_turn = opt_turn_id_from_proto (wm_turn p), im_revision = wm_revision p,
     im_created_at = opt_timestamp_from_proto env (wm_created_at p), im_content = content_from_proto (wm_content p)\<rparr>"

type_synonym dm_history_page = "(turn_id \<times> item) list \<times> string option \<times> bool"
type_synonym wire_history_page = "(wire_turn_id option \<times> wire_item option) list \<times> string \<times> bool"

definition history_page_to_proto :: "wire_env \<Rightarrow> dm_history_page \<Rightarrow> wire_history_page" where
  "history_page_to_proto env page = (case page of (entries, cursor, has_more) \<Rightarrow>
     (List.map_filter (\<lambda>(t, i). map_option (\<lambda>w. (Some (turn_id_to_proto t), Some w)) (item_to_proto env i)) entries, blank cursor, has_more))"

text \<open>An entry without an item is a panic (\<open>expect\<close>).\<close>

fun history_entries_from_proto :: "wire_env \<Rightarrow> (wire_turn_id option \<times> wire_item option) list \<Rightarrow> (turn_id \<times> item) list option" where
  "history_entries_from_proto env [] = Some []"
| "history_entries_from_proto env ((t, i) # rest) = (case i of
     None \<Rightarrow> None
   | Some w \<Rightarrow> map_option ((#) (unwrap_or (turn_synthetic []) (map_option turn_id_from_proto t), item_from_proto env w))
       (history_entries_from_proto env rest))"

definition history_page_from_proto :: "wire_env \<Rightarrow> wire_history_page \<Rightarrow> dm_history_page option" where
  "history_page_from_proto env p = (case p of (entries, cursor, has_more) \<Rightarrow>
     map_option (\<lambda>es. (es, unblank cursor, has_more)) (history_entries_from_proto env entries))"

section \<open>Runtime snapshots\<close>

record wire_snapshot =
  wx_runtime_revision :: u64
  wx_current_turn :: "wire_current_turn option"
  wx_plan :: "wire_plan_step list option"
  wx_pending_questions :: "wire_question list"
  wx_pending_approvals :: "wire_approval list"
  wx_running_commands :: "wire_running_command list"
  wx_background_commands :: "wire_background_command list"
  wx_background_command_count :: u32
  wx_queue :: "wire_queue_status option"
  wx_capabilities :: "wire_capabilities option"
  wx_recent_output_cursors :: "wire_output_cursor list"

definition runtime_snapshot_to_proto :: "wire_env \<Rightarrow> full_snapshot \<Rightarrow> wire_snapshot" where
  "runtime_snapshot_to_proto env s = \<lparr>
     wx_runtime_revision = rs_runtime_revision s,
     wx_current_turn = map_option (current_turn_to_proto env) (rs_current_turn s),
     wx_plan = Some (plan_to_proto (rs_plan s)),
     wx_pending_questions = map (question_to_proto env) (rs_pending_questions s),
     wx_pending_approvals = map (approval_to_proto env) (rs_pending_approvals s),
     wx_running_commands = map (running_command_to_proto env) (rs_running_commands s),
     wx_background_commands = map (background_command_to_proto env) (rs_background_commands s),
     wx_background_command_count = rs_background_command_count s,
     wx_queue = Some (queue_status_to_proto (rs_queue s)),
     wx_capabilities = Some (capability_set_to_proto (rs_capabilities s)),
     wx_recent_output_cursors = map output_cursor_to_proto (rs_recent_output_cursors s)\<rparr>"

definition runtime_snapshot_from_proto :: "wire_env \<Rightarrow> wire_snapshot \<Rightarrow> session_key \<Rightarrow> full_snapshot" where
  "runtime_snapshot_from_proto env p key = \<lparr>
     rs_session_key = key,
     rs_runtime_revision = wx_runtime_revision p,
     rs_current_turn = map_option (current_turn_from_proto env) (wx_current_turn p),
     rs_pending_questions = map (question_from_proto env) (wx_pending_questions p),
     rs_pending_approvals = map (approval_from_proto env) (wx_pending_approvals p),
     rs_background_commands = map (background_command_from_proto env) (wx_background_commands p),
     rs_capabilities = unwrap_or (read_only_degraded None) (map_option capability_set_from_proto (wx_capabilities p)),
     rs_plan = unwrap_or [] (map_option plan_from_proto (wx_plan p)),
     rs_running_commands = map (running_command_from_proto env) (wx_running_commands p),
     rs_background_command_count = wx_background_command_count p,
     rs_queue = unwrap_or queue_status_default (map_option queue_status_from_proto (wx_queue p)),
     rs_recent_output_cursors = map output_cursor_from_proto (wx_recent_output_cursors p)\<rparr>"

section \<open>Events\<close>

datatype wire_event =
    WeTurnLifecycle wire_turn_id int int "wire_time option"
  | WeItemUpsert wire_item
  | WeOutputAppend wire_item_id nat bytes int
  | WeOutputReplace wire_item_id u64 bytes int
  | WeOutputFinal wire_item_id u64 nat int
  | WeSessionSummaryChanged wire_summary
  | WePendingAttentionAdded wire_attention
  | WePendingAttentionRemoved int string "wire_turn_id option"
  | WeQueueStateChanged wire_queue_status
  | WeBackgroundCommandChanged wire_background_command
  | WeCapabilityChanged wire_capabilities

fun event_to_proto :: "wire_env \<Rightarrow> dm_event \<Rightarrow> wire_event option" where
  "event_to_proto env (DmTurnLifecycle turn phase outcome finished_at) = Some (WeTurnLifecycle (turn_id_to_proto turn)
     (turn_phase_to_proto phase) (opt_outcome_to_proto outcome) (opt_timestamp_to_proto env finished_at))"
| "event_to_proto env (DmItemUpsert i) = map_option WeItemUpsert (item_to_proto env i)"
| "event_to_proto env (DmOutputAppend i offset data ch) = Some (WeOutputAppend (item_id_to_proto i) offset data (output_channel_to_proto ch))"
| "event_to_proto env (DmOutputReplace i revision data ch) = Some (WeOutputReplace (item_id_to_proto i) revision data (output_channel_to_proto ch))"
| "event_to_proto env (DmOutputFinal i revision len ch unavailable) =
     Some (WeOutputFinal (item_id_to_proto i) revision len (output_channel_to_proto ch))"
| "event_to_proto env (DmSessionSummaryChanged s) = Some (WeSessionSummaryChanged (session_summary_to_proto env s))"
| "event_to_proto env (DmPendingAttentionAdded a) = Some (WePendingAttentionAdded (pending_attention_to_proto env a))"
| "event_to_proto env (DmPendingAttentionRemoved kind i turn) =
     Some (WePendingAttentionRemoved (attention_kind_to_proto kind) i (opt_turn_id_to_proto turn))"
| "event_to_proto env (DmQueueStateChanged q) = Some (WeQueueStateChanged (queue_status_to_proto q))"
| "event_to_proto env (DmBackgroundCommandChanged c) = Some (WeBackgroundCommandChanged (background_command_to_proto env c))"
| "event_to_proto env (DmCapabilityChanged c) = Some (WeCapabilityChanged (capability_set_to_proto c))"

definition domain_event_to_proto :: "wire_env \<Rightarrow> dm_event \<Rightarrow> (wire_time \<times> wire_event) option" where
  "domain_event_to_proto env e = map_option (Pair (timestamp_to_proto env (we_now env))) (event_to_proto env e)"
section \<open>Commands and receipts\<close>

record wire_setting_update =
  wv_option_id :: string
  wv_value :: string

text \<open>The payloads; what the conversion does not read of them is left out (it is documented per payload in the protocol).\<close>

datatype wire_payload =
    WpCreateTask
  | WpStartTurn string
  | WpQueueSet string
  | WpQueueReplace string
  | WpQueueCancel
  | WpSteer string
  | WpInterrupt
  | WpAnswerQuestion string "string list" string
  | WpAnswerApproval string string
  | WpUpdateSettings "wire_setting_update list"
  | WpRenameTask
  | WpArchiveTask
  | WpUnarchiveTask
  | WpForkTask
  | WpStopBackgroundCommand string
  | WpStopAllBackgroundCommands

record wire_command =
  wd_request_id :: string
  wd_operation :: int
  wd_session_key :: "wire_session_key option"
  wd_expected_turn_id :: "wire_turn_id option"
  wd_expected_runtime_revision :: "u64 option"
  wd_payload_digest :: string
  wd_payload :: "wire_payload option"

definition unsupported :: "string \<Rightarrow> bridge_error" where
  "unsupported what = bridge_err CapabilityUnsupported (what @ '' is not supported by current desktop version'')"

text \<open>The kind of a setting is looked up in the current capabilities.\<close>

fun setting_updates_from_proto :: "capability_set \<Rightarrow> wire_setting_update list \<Rightarrow> bridge_error + setting_update list" where
  "setting_updates_from_proto caps [] = Inr []"
| "setting_updates_from_proto caps (u # us) = (case find (\<lambda>x. so_option_id x = wv_option_id u) (cs_settings caps) of
     None \<Rightarrow> Inl (bridge_err SettingCombinationUnsupported ''unknown setting option'')
   | Some x \<Rightarrow> (case setting_updates_from_proto caps us of
       Inl e \<Rightarrow> Inl e
     | Inr vs \<Rightarrow> Inr (\<lparr>su_kind = so_kind x, su_value = wv_value u\<rparr> # vs)))"

fun payload_from_proto :: "capability_set \<Rightarrow> wire_payload option \<Rightarrow> bridge_error + command_payload" where
  "payload_from_proto caps (Some (WpStartTurn prompt)) = Inr (PlStartTurn prompt)"
| "payload_from_proto caps (Some (WpSteer prompt)) = Inr (PlSteer prompt)"
| "payload_from_proto caps (Some WpInterrupt) = Inr PlInterrupt"
| "payload_from_proto caps (Some (WpAnswerQuestion i option_ids free_text)) = Inr (PlAnswerQuestion i option_ids (unblank free_text))"
| "payload_from_proto caps (Some (WpAnswerApproval i decision)) = Inr (PlSubmitApproval i decision)"
| "payload_from_proto caps (Some (WpUpdateSettings updates)) = map_sum id PlUpdateSettings (setting_updates_from_proto caps updates)"
| "payload_from_proto caps (Some (WpQueueSet prompt)) = Inr (PlQueueNextTurn prompt False)"
| "payload_from_proto caps (Some (WpQueueReplace prompt)) = Inr (PlQueueNextTurn prompt True)"
| "payload_from_proto caps (Some WpQueueCancel) = Inr PlCancelQueue"
| "payload_from_proto caps (Some (WpStopBackgroundCommand i)) = Inr (PlStopBackgroundCommand i)"
| "payload_from_proto caps (Some WpStopAllBackgroundCommands) = Inr PlStopAllBackgroundCommands"
| "payload_from_proto caps (Some WpCreateTask) = Inl (unsupported ''create task'')"
| "payload_from_proto caps (Some WpRenameTask) = Inl (unsupported ''rename task'')"
| "payload_from_proto caps (Some WpArchiveTask) = Inl (unsupported ''archive task'')"
| "payload_from_proto caps (Some WpUnarchiveTask) = Inl (unsupported ''unarchive task'')"
| "payload_from_proto caps (Some WpForkTask) = Inl (unsupported ''fork task'')"
| "payload_from_proto caps None = Inl (bridge_err InternalError ''command request without payload'')"

text \<open>The operation of a number of the protocol; the operations of the queue are one.\<close>

definition operation_from_proto :: "int \<Rightarrow> operation option" where
  "operation_from_proto n =
    (if n = 3 \<or> n = 4 \<or> n = 5 then Some QueueNextTurn
     else if n = 2 then Some StartTurn else if n = 6 then Some SteerTurn else if n = 7 then Some InterruptTurn
     else if n = 8 then Some AnswerQuestion else if n = 9 then Some SubmitApproval else if n = 10 then Some UpdateSettings
     else if n = 15 then Some StopBackgroundCommand else if n = 16 then Some StopAllBackgroundCommands else None)"

definition command_request_from_proto :: "wire_env \<Rightarrow> wire_command \<Rightarrow> capability_set \<Rightarrow> bridge_error + command_request" where
  "command_request_from_proto env p caps = (case we_uuid env (wd_request_id p) of
     None \<Rightarrow> Inl (bridge_err InternalError ''command request_id is not a UUID'')
   | Some request_id \<Rightarrow>
       if \<not> (0 \<le> wd_operation p \<and> wd_operation p \<le> 16) then Inl (bridge_err CapabilityUnsupported ''unknown operation'')
       else (case Option.bind (wd_session_key p) (session_key_from_proto env) of
         None \<Rightarrow> Inl (bridge_err CapabilityUnsupported ''command request has unknown or missing agent kind'')
       | Some key \<Rightarrow> (case payload_from_proto caps (wd_payload p) of
           Inl e \<Rightarrow> Inl e
         | Inr payload \<Rightarrow> (case operation_from_proto (wd_operation p) of
             None \<Rightarrow> Inl (unsupported ''operation'')
           | Some x \<Rightarrow> Inr \<lparr>cr_request_id = request_id, cr_operation = x, cr_session_key = key,
               cr_expected_turn_id = opt_turn_id_from_proto (wd_expected_turn_id p),
               cr_expected_runtime_revision = wd_expected_runtime_revision p, cr_payload_digest = None, cr_payload = payload\<rparr>))))"

definition RECEIPT_RECEIVED :: int where "RECEIPT_RECEIVED = 1"
definition RECEIPT_ACCEPTED_BY_BRIDGE :: int where "RECEIPT_ACCEPTED_BY_BRIDGE = 2"
definition RECEIPT_DISPATCHED_TO_CODEX :: int where "RECEIPT_DISPATCHED_TO_CODEX = 3"
definition RECEIPT_COMPLETED :: int where "RECEIPT_COMPLETED = 4"
definition RECEIPT_REJECTED :: int where "RECEIPT_REJECTED = 5"
definition RECEIPT_OUTCOME_UNKNOWN :: int where "RECEIPT_OUTCOME_UNKNOWN = 6"

fun receipt_state_to_status :: "receipt_state \<Rightarrow> int \<times> int option" where
  "receipt_state_to_status RsDispatchedToCodex = (RECEIPT_DISPATCHED_TO_CODEX, None)"
| "receipt_state_to_status RsCompleted = (RECEIPT_COMPLETED, None)"
| "receipt_state_to_status (RsRejected code message) = (RECEIPT_REJECTED, Some (stable_error_to_proto code))"
| "receipt_state_to_status RsOutcomeUnknown = (RECEIPT_OUTCOME_UNKNOWN, None)"
section \<open>What comes back\<close>

text \<open>The date library: the time of the seconds and nanoseconds of a time is that time.\<close>

definition wire_env_ok :: "wire_env \<Rightarrow> bool" where
  "wire_env_ok env \<longleftrightarrow> (\<forall>t. 0 \<le> snd (we_stamp env t) \<and> we_time env (fst (we_stamp env t)) (snd (we_stamp env t)) = Some t)"

text \<open>What a conversion and its inverse lose: an empty text is read as absent, zero as not given, and some fields
  are not in the protocol.\<close>

definition unblanked :: "string option \<Rightarrow> string option" where "unblanked x = (if x = Some [] then None else x)"
definition unzeroed :: "u64 option \<Rightarrow> u64 option" where "unzeroed x = (if x = Some 0 then None else x)"

definition summary_on_wire :: "dm_session_summary \<Rightarrow> dm_session_summary" where
  "summary_on_wire s = s\<lparr>ss_title := unblanked (ss_title s), ss_agent_kind := sk_agent_kind (ss_session_key s),
     ss_project_display_name := unblanked (ss_project_display_name s), ss_current_branch := unblanked (ss_current_branch s),
     ss_degraded_reason := unblanked (ss_degraded_reason s)\<rparr>"

definition caps_on_wire :: "capability_set \<Rightarrow> capability_set" where
  "caps_on_wire c = c\<lparr>cs_codex_version := unblanked (cs_codex_version c), cs_supported_operations := [],
     cs_settings := map (\<lambda>x. x\<lparr>so_current_value := unblanked (so_current_value x)\<rparr>) (cs_settings c)\<rparr>"

definition limits_filled :: "transfer_limits \<Rightarrow> bool" where
  "limits_filled l \<longleftrightarrow> 0 < tl_text_inline_max_bytes l \<and> 0 < tl_image_inline_max_bytes l \<and> 0 < tl_pdf_range_max_bytes l \<and>
     0 < tl_download_max_bytes l \<and> 0 < tl_upload_max_bytes l \<and> 0 < tl_max_concurrent_per_browser l \<and>
     0 < tl_max_concurrent_per_device l \<and> tl_previewable_mime_prefixes l \<noteq> []"

definition snapshot_on_wire :: "full_snapshot \<Rightarrow> full_snapshot" where
  "snapshot_on_wire s = s\<lparr>
     rs_pending_approvals := map (\<lambda>a. a\<lparr>pa_scope := unblanked (pa_scope a)\<rparr>) (rs_pending_approvals s),
     rs_background_commands := map (\<lambda>c. c\<lparr>bc_command_id := unblanked (bc_command_id c), bc_display := None\<rparr>) (rs_background_commands s),
     rs_capabilities := caps_on_wire (rs_capabilities s),
     rs_queue := (rs_queue s)\<lparr>qs_accepted_runtime_revision := unzeroed (qs_accepted_runtime_revision (rs_queue s))\<rparr>,
     rs_recent_output_cursors := map (\<lambda>c. c\<lparr>oc_final_unavailable := False\<rparr>) (rs_recent_output_cursors s)\<rparr>"

fun content_on_wire :: "dm_item_content \<Rightarrow> dm_item_content" where
  "content_on_wire (ToolCall i name status summary duration) = ToolCall i name status (unblanked summary) duration"
| "content_on_wire (CommandStatus i state display exit_code duration) = CommandStatus i CsUnknown None None duration"
| "content_on_wire (TokenUsage i x used window) = TokenUsage i x (unzeroed used) (unzeroed window)"
| "content_on_wire c = c"

definition item_on_wire :: "item \<Rightarrow> item" where
  "item_on_wire i = i\<lparr>im_content := content_on_wire (im_content i)\<rparr>"

definition opaque :: "item \<Rightarrow> bool" where
  "opaque i \<longleftrightarrow> (case im_content i of OpaqueItem _ \<Rightarrow> True | _ \<Rightarrow> False)"

lemma times_come_back [simp]:
  "wire_env_ok env \<Longrightarrow> opt_timestamp_from_proto env (opt_timestamp_to_proto env t) = t"
  by (cases t) (simp_all add: opt_timestamp_from_proto_def opt_timestamp_to_proto_def timestamp_from_proto_def
      timestamp_to_proto_def wire_env_ok_def max_absorb1)

lemma texts_come_back [simp]: "unblank (blank x) = unblanked x"
  by (cases x) (simp_all add: unblank_def blank_def unblanked_def)

lemma ids_come_back [simp]:
  "turn_id_from_proto (turn_id_to_proto t) = t" "item_id_from_proto (item_id_to_proto i) = i"
  "opt_turn_id_from_proto (opt_turn_id_to_proto ot) = ot" "map_option item_id_from_proto (map_option item_id_to_proto oi) = oi"
  by (cases ot; cases oi; simp add: turn_id_from_proto_def turn_id_to_proto_def item_id_from_proto_def item_id_to_proto_def
      opt_turn_id_from_proto_def opt_turn_id_to_proto_def)+

lemma zero_comes_back [simp]: "nonzero (unwrap_or 0 x) = unzeroed x"
  by (cases x) (simp_all add: unzeroed_def nonzero_def)

lemma outcome_comes_back [simp]: "opt_outcome_from_proto (opt_outcome_to_proto x) = x"
proof (cases x)
  case (Some v)
  then show ?thesis by (cases v) (simp_all add: opt_outcome_from_proto_def opt_outcome_to_proto_def turn_outcome_from_proto_def)
qed (simp add: opt_outcome_from_proto_def opt_outcome_to_proto_def)

lemma map_filter_known: "(\<And>x. f (g x) = Some (h x)) \<Longrightarrow> List.map_filter f (map g xs) = map h xs"
  by (induction xs) simp_all

lemma plan_comes_back [simp]: "plan_from_proto (plan_to_proto plan) = plan"
  by (simp add: plan_from_proto_def plan_to_proto_def map_idI)

lemma content_comes_back:
  "content_to_proto c = Some w \<Longrightarrow> content_from_proto (Some w) = content_on_wire c"
  by (cases c) (auto simp: o_def map_idI)

lemma item_comes_back:
  assumes "wire_env_ok env" "item_to_proto env i = Some w"
  shows "item_from_proto env w = item_on_wire i"
  using assms content_comes_back by (auto simp: item_to_proto_def item_from_proto_def item_on_wire_def)

lemma item_to_proto_None: "item_to_proto env i = None \<longleftrightarrow> opaque i"
  by (cases "im_content i") (simp_all add: item_to_proto_def opaque_def)

lemma limits_come_back: "limits_filled l \<Longrightarrow> transfer_limits_from_proto (transfer_limits_to_proto l) = l"
  by (simp add: transfer_limits_from_proto_def transfer_limits_to_proto_def or_default_def limits_filled_def Let_def)

lemma capabilities_come_back:
  "limits_filled (cs_transfer_limits c) \<Longrightarrow> capability_set_from_proto (capability_set_to_proto c) = caps_on_wire c"
  by (simp add: capability_set_from_proto_def capability_set_to_proto_def caps_on_wire_def limits_come_back
      map_filter_known [where h = "\<lambda>x. x\<lparr>so_current_value := unblanked (so_current_value x)\<rparr>"]
      setting_option_from_proto_def setting_option_to_proto_def)

lemma snapshot_comes_back:
  assumes "wire_env_ok env" "limits_filled (cs_transfer_limits (rs_capabilities s))"
  shows "runtime_snapshot_from_proto env (runtime_snapshot_to_proto env s) (rs_session_key s) = snapshot_on_wire s"
proof -
  have q: "queue_status_from_proto (queue_status_to_proto (rs_queue s)) =
      (rs_queue s)\<lparr>qs_accepted_runtime_revision := unzeroed (qs_accepted_runtime_revision (rs_queue s))\<rparr>"
    by (simp add: queue_status_from_proto_def queue_status_to_proto_def)
  have t: "map_option (\<lambda>x. current_turn_from_proto env (current_turn_to_proto env x)) y = y" for y
    using assms(1) by (cases y) (simp_all add: current_turn_from_proto_def current_turn_to_proto_def)
  have l: "question_from_proto env (question_to_proto env a) = a"
    "approval_from_proto env (approval_to_proto env b) = b\<lparr>pa_scope := unblanked (pa_scope b)\<rparr>"
    "running_command_from_proto env (running_command_to_proto env c) = c"
    "background_command_from_proto env (background_command_to_proto env d) = d\<lparr>bc_command_id := unblanked (bc_command_id d), bc_display := None\<rparr>"
    "output_cursor_from_proto (output_cursor_to_proto e) = e\<lparr>oc_final_unavailable := False\<rparr>" for a b c d e
    using assms(1) by (simp_all add: question_from_proto_def question_to_proto_def approval_from_proto_def approval_to_proto_def
        running_command_from_proto_def running_command_to_proto_def background_command_from_proto_def background_command_to_proto_def
        output_cursor_from_proto_def output_cursor_to_proto_def)
  show ?thesis
    by (simp add: runtime_snapshot_from_proto_def runtime_snapshot_to_proto_def snapshot_on_wire_def option.map_comp t q l o_def
        capabilities_come_back [OF assms(2)])
qed

lemma summary_comes_back:
  assumes "wire_env_ok env" "we_uuid env (blank (sk_relay_session_uuid (ss_session_key s))) = sk_relay_session_uuid (ss_session_key s)"
  shows "session_summary_from_proto env (session_summary_to_proto env s) = Some (summary_on_wire s)"
  using assms by (simp add: session_summary_from_proto_def session_summary_to_proto_def summary_on_wire_def
      session_key_from_proto_def session_key_to_proto_def map_filter_known [where h = id])

lemma history_comes_back:
  assumes "wire_env_ok env"
  shows "history_entries_from_proto env
      (List.map_filter (\<lambda>(t, i). map_option (\<lambda>w. (Some (turn_id_to_proto t), Some w)) (item_to_proto env i)) es) =
    Some (map (apsnd item_on_wire) (filter (\<lambda>(t, i). \<not> opaque i) es))"
proof (induction es)
  case (Cons e es)
  obtain t i where e: "e = (t, i)" by fastforce
  show ?case
  proof (cases "item_to_proto env i")
    case None
    then have "opaque i" using item_to_proto_None [of env i] by simp
    then show ?thesis using Cons e None by (simp add: List.map_filter_simps)
  next
    case (Some w)
    then have "\<not> opaque i" using item_to_proto_None [of env i] by simp
    then show ?thesis using Cons e Some item_comes_back [OF assms Some] by (simp add: List.map_filter_simps)
  qed
qed (simp add: List.map_filter_simps)

text \<open>
  C27. What the messages carry. For a date library that reads back the times it wrote, reading back what was written
  gives the same snapshot, summary, item and page of the history, but for what is named here: empty texts are read as
  absent and zero as not given, the list of operations, the displayed command, the missing final output, and the
  state, display and exit code of a command item do not come back, and items the bridge does not understand are never
  written: exactly those are left out of a page.
\<close>

theorem messages_round_trip:
  assumes "wire_env_ok env"
  shows "(limits_filled (cs_transfer_limits (rs_capabilities snap)) \<longrightarrow>
      runtime_snapshot_from_proto env (runtime_snapshot_to_proto env snap) (rs_session_key snap) = snapshot_on_wire snap) \<and>
    (we_uuid env (blank (sk_relay_session_uuid (ss_session_key s))) = sk_relay_session_uuid (ss_session_key s) \<longrightarrow>
      session_summary_from_proto env (session_summary_to_proto env s) = Some (summary_on_wire s)) \<and>
    map_option (item_from_proto env) (item_to_proto env i) = (if opaque i then None else Some (item_on_wire i)) \<and>
    history_page_from_proto env (history_page_to_proto env (es, cursor, has_more)) =
      Some (map (apsnd item_on_wire) (filter (\<lambda>(t, i). \<not> opaque i) es), unblanked cursor, has_more)"
proof (intro conjI impI)
  show "map_option (item_from_proto env) (item_to_proto env i) = (if opaque i then None else Some (item_on_wire i))"
    using item_to_proto_None [of env i] item_comes_back [OF assms] by (cases "item_to_proto env i") auto
  show "history_page_from_proto env (history_page_to_proto env (es, cursor, has_more)) =
      Some (map (apsnd item_on_wire) (filter (\<lambda>(t, i). \<not> opaque i) es), unblanked cursor, has_more)"
    by (simp add: history_page_from_proto_def history_page_to_proto_def history_comes_back [OF assms])
qed (use assms snapshot_comes_back summary_comes_back in blast)+
text \<open>The numbers the capabilities advertise are those whose operation they support.\<close>

lemma advertised_operation:
  "operation_from_proto n = Some x \<Longrightarrow>
   n \<in> set (wz_supported_operations (capability_set_to_proto caps)) \<longleftrightarrow> caps_supports caps x"
proof -
  assume "operation_from_proto n = Some x"
  then have n: "n \<in> set (if y = QueueNextTurn then [3, 4, 5] else [operation_to_proto y]) \<longleftrightarrow> y = x" for y
    by (cases y) (auto simp: operation_from_proto_def split: if_splits)
  have "n \<in> set (concat (map f xs)) \<longleftrightarrow> x \<in> set xs" if "\<And>y. n \<in> set (f y) \<longleftrightarrow> y = x" for f :: "operation \<Rightarrow> int list" and xs
    using that by auto
  then show ?thesis using n by (simp add: capability_set_to_proto_def caps_supports_def del: set_concat)
qed

lemma setting_updates_known:
  "setting_updates_from_proto caps us = Inr vs \<Longrightarrow>
   list_all2 (\<lambda>u v. su_value v = wv_value u \<and>
     (\<exists>x. find (\<lambda>x. so_option_id x = wv_option_id u) (cs_settings caps) = Some x \<and> su_kind v = so_kind x)) us vs"
  by (induction us arbitrary: vs) (auto split: option.splits sum.splits)

lemma setting_updates_accepted:
  "(\<exists>vs. setting_updates_from_proto caps us = Inr vs) \<longleftrightarrow>
   (\<forall>u \<in> set us. wv_option_id u \<in> so_option_id ` set (cs_settings caps))"
proof (induction us)
  case (Cons u us)
  show ?case
    using Cons by (auto simp: find_None_iff image_iff split: option.splits sum.splits dest!: find_Some_iff [THEN iffD1])
      (metis nth_mem)+
qed simp

definition payload_known :: "capability_set \<Rightarrow> wire_payload option \<Rightarrow> bool" where
  "payload_known caps p = (case p of
     None \<Rightarrow> False
   | Some WpCreateTask \<Rightarrow> False | Some WpRenameTask \<Rightarrow> False | Some WpArchiveTask \<Rightarrow> False | Some WpUnarchiveTask \<Rightarrow> False
   | Some WpForkTask \<Rightarrow> False
   | Some (WpUpdateSettings us) \<Rightarrow> (\<forall>u \<in> set us. wv_option_id u \<in> so_option_id ` set (cs_settings caps))
   | _ \<Rightarrow> True)"

lemma payload_accepted: "(\<exists>q. payload_from_proto caps p = Inr q) \<longleftrightarrow> payload_known caps p"
proof (cases p)
  case (Some w)
  have u: "(\<exists>q. map_sum id PlUpdateSettings r = Inr q) \<longleftrightarrow> (\<exists>vs. r = Inr vs)" for r :: "bridge_error + setting_update list"
    by (cases r) auto
  show ?thesis unfolding Some by (cases w) (simp_all add: payload_known_def u setting_updates_accepted)
qed (simp add: payload_known_def)

text \<open>
  C28. The bridge understands what it offers. A command is accepted exactly when its identifier is a UUID, its session
  names a known kind of agent, its payload is one the bridge has an operation for, with settings that the capabilities
  list, and its operation is one of those the bridge carries out. The operation of an accepted command is supported by
  the capabilities exactly when its number is among those the browser was sent with them. Nothing of the digest, which
  the sender computes, is taken over.
\<close>

theorem commands_match_the_offer:
  "((\<exists>req. command_request_from_proto env p caps = Inr req) \<longleftrightarrow>
      we_uuid env (wd_request_id p) \<noteq> None \<and>
      (\<exists>key kind. wd_session_key p = Some key \<and> from_proto_value (wk_agent_kind key) = Some kind) \<and>
      payload_known caps (wd_payload p) \<and> operation_from_proto (wd_operation p) \<noteq> None) \<and>
   (case command_request_from_proto env p caps of
      Inl e \<Rightarrow> be_code e \<in> {InternalError, CapabilityUnsupported, SettingCombinationUnsupported}
    | Inr req \<Rightarrow> (caps_supports caps (cr_operation req) \<longleftrightarrow>
          wd_operation p \<in> set (wz_supported_operations (capability_set_to_proto caps))) \<and>
        we_uuid env (wd_request_id p) = Some (cr_request_id req) \<and> cr_payload_digest req = None)"
proof -
  have op: "operation_from_proto n \<noteq> None \<Longrightarrow> 0 \<le> n \<and> n \<le> 16" for n
    by (auto simp: operation_from_proto_def split: if_splits)
  have settings: "setting_updates_from_proto caps us = Inl e \<Longrightarrow> be_code e = SettingCombinationUnsupported" for us e
    by (induction us) (auto simp: bridge_err_def split: option.splits sum.splits)
  have pay: "payload_from_proto caps w = Inl e \<Longrightarrow> be_code e \<in> {InternalError, CapabilityUnsupported, SettingCombinationUnsupported}" for w e
    by (cases "(caps, w)" rule: payload_from_proto.cases)
      (auto simp: unsupported_def bridge_err_def settings map_sum_def split: sum.splits)
  show ?thesis
  proof (rule conjI)
    show "(\<exists>req. command_request_from_proto env p caps = Inr req) \<longleftrightarrow>
      we_uuid env (wd_request_id p) \<noteq> None \<and>
      (\<exists>key kind. wd_session_key p = Some key \<and> from_proto_value (wk_agent_kind key) = Some kind) \<and>
      payload_known caps (wd_payload p) \<and> operation_from_proto (wd_operation p) \<noteq> None"
      using op [of "wd_operation p"] payload_accepted [of caps "wd_payload p"]
      by (cases "wd_session_key p"; cases "payload_from_proto caps (wd_payload p)")
        (auto simp: command_request_from_proto_def session_key_from_proto_def split: option.splits)
    show "case command_request_from_proto env p caps of
      Inl e \<Rightarrow> be_code e \<in> {InternalError, CapabilityUnsupported, SettingCombinationUnsupported}
    | Inr req \<Rightarrow> (caps_supports caps (cr_operation req) \<longleftrightarrow>
          wd_operation p \<in> set (wz_supported_operations (capability_set_to_proto caps))) \<and>
        we_uuid env (wd_request_id p) = Some (cr_request_id req) \<and> cr_payload_digest req = None"
      using pay [of "wd_payload p"] advertised_operation [of "wd_operation p" _ caps]
      by (auto simp: command_request_from_proto_def bridge_err_def unsupported_def split: option.splits sum.splits)
  qed
qed

section \<open>Examples\<close>

text \<open>A date library in which a time is the number its text is written as.\<close>

fun ex_text_number :: "string \<Rightarrow> nat" where
  "ex_text_number [] = 1"
| "ex_text_number (c # cs) = of_char c + 256 * ex_text_number cs"

fun ex_number_text :: "nat \<Rightarrow> string" where
  "ex_number_text n = (if n \<le> 1 then [] else char_of (n mod 256) # ex_number_text (n div 256))"

declare ex_number_text.simps [simp del]

lemma ex_text_number_pos: "1 \<le> ex_text_number cs"
  by (induction cs) auto

lemma ex_number_text_back: "ex_number_text (ex_text_number cs) = cs"
proof (induction cs)
  case (Cons c cs)
  let ?n = "ex_text_number (c # cs)"
  have c: "(of_char c :: nat) < 256" by simp
  have "\<not> ?n \<le> 1" using ex_text_number_pos [of cs] by simp
  then have "ex_number_text ?n = char_of (?n mod 256) # ex_number_text (?n div 256)" by (subst ex_number_text.simps) simp
  moreover have "?n mod 256 = of_char c" "?n div 256 = ex_text_number cs" using c by simp_all
  ultimately show ?case using Cons by simp
qed (subst ex_number_text.simps, simp)

definition ex_wire_env :: wire_env where
  "ex_wire_env = \<lparr>we_stamp = (\<lambda>t. (int (ex_text_number t), 0)), we_time = (\<lambda>s n. Some (ex_number_text (nat s))),
     we_now = ''now'', we_uuid = unblank\<rparr>"

lemma ex_wire_env_ok: "wire_env_ok ex_wire_env"
  by (simp add: wire_env_ok_def ex_wire_env_def ex_number_text_back)

definition ex_wire_item :: item where
  "ex_wire_item = \<lparr>im_item_id = item_native ''i'', im_turn = None, im_revision = 1, im_created_at = Some ''t'',
     im_content = UserMessage ''hello''\<rparr>"

definition ex_opaque_item :: item where
  "ex_opaque_item = ex_wire_item\<lparr>im_content := OpaqueItem ''x''\<rparr>"

definition ex_wire_key :: session_key where
  "ex_wire_key = \<lparr>sk_device_id = ''d'', sk_agent_kind = ZcodeDesktop, sk_native_session_id = ''n'', sk_relay_session_uuid = None\<rparr>"

definition ex_wire_snapshot :: full_snapshot where
  "ex_wire_snapshot = \<lparr>rs_session_key = ex_wire_key, rs_runtime_revision = 7,
     rs_current_turn = Some \<lparr>cu_turn = turn_native ''a'', cu_phase = PhRunning, cu_started_at = Some ''t''\<rparr>,
     rs_pending_questions = [], rs_pending_approvals = [], rs_background_commands = [], rs_capabilities = read_only_degraded (Some []),
     rs_plan = [], rs_running_commands = [], rs_background_command_count = 0,
     rs_queue = \<lparr>qs_state = QsPaused, qs_after_turn_id = None, qs_accepted_runtime_revision = Some 0\<rparr>, rs_recent_output_cursors = []\<rparr>"

definition ex_wire_summary :: dm_session_summary where
  "ex_wire_summary = \<lparr>ss_session_key = ex_wire_key, ss_title = Some ''title'', ss_agent_kind = ZcodeDesktop,
     ss_project_display_name = None, ss_current_branch = Some [], ss_updated_at = Some ''t'', ss_device_connection = DcOnline,
     ss_device_last_seen_at = None, ss_degraded_reason = None, ss_control_mode = ReadOnly, ss_compatibility_state = Degraded,
     ss_active_turn_phase = PhRunning, ss_pending_attention_count = 1, ss_pending_attention_kinds = [RiskApproval],
     ss_queue_state = QsPaused, ss_last_turn_outcome = OutFailed, ss_pinned = False, ss_muted = True, ss_archived = False\<rparr>"

theorem messages_round_trip_witness:
  "runtime_snapshot_from_proto ex_wire_env (runtime_snapshot_to_proto ex_wire_env ex_wire_snapshot) ex_wire_key =
     ex_wire_snapshot\<lparr>rs_capabilities := read_only_degraded None, rs_queue := \<lparr>qs_state = QsPaused, qs_after_turn_id = None, qs_accepted_runtime_revision = None\<rparr>\<rparr> \<and>
   session_summary_from_proto ex_wire_env (session_summary_to_proto ex_wire_env ex_wire_summary) = Some (ex_wire_summary\<lparr>ss_current_branch := None\<rparr>) \<and>
   history_page_from_proto ex_wire_env (history_page_to_proto ex_wire_env
     ([(turn_native ''a'', ex_wire_item), (turn_native ''a'', ex_opaque_item)], Some [], False)) =
   Some ([(turn_native ''a'', ex_wire_item)], None, False)"
proof -
  have l: "limits_filled (cs_transfer_limits (rs_capabilities ex_wire_snapshot))"
    by (simp add: ex_wire_snapshot_def read_only_degraded_def limits_filled_def transfer_limits_default_def Let_def)
  have u: "we_uuid ex_wire_env (blank (sk_relay_session_uuid (ss_session_key ex_wire_summary))) =
      sk_relay_session_uuid (ss_session_key ex_wire_summary)"
    by (simp add: ex_wire_summary_def ex_wire_key_def ex_wire_env_def blank_def unblank_def)
  have k: "rs_session_key ex_wire_snapshot = ex_wire_key" by (simp add: ex_wire_snapshot_def)
  have s: "snapshot_on_wire ex_wire_snapshot = ex_wire_snapshot\<lparr>rs_capabilities := read_only_degraded None,
      rs_queue := \<lparr>qs_state = QsPaused, qs_after_turn_id = None, qs_accepted_runtime_revision = None\<rparr>\<rparr>"
    "summary_on_wire ex_wire_summary = ex_wire_summary\<lparr>ss_current_branch := None\<rparr>"
    by (simp_all add: snapshot_on_wire_def ex_wire_snapshot_def caps_on_wire_def read_only_degraded_def unblanked_def unzeroed_def
        summary_on_wire_def ex_wire_summary_def ex_wire_key_def)
  show ?thesis
    using messages_round_trip [OF ex_wire_env_ok, of ex_wire_snapshot ex_wire_summary ex_wire_item
        "[(turn_native ''a'', ex_wire_item), (turn_native ''a'', ex_opaque_item)]" "Some []" False] l u
    by (simp add: k s opaque_def ex_wire_item_def ex_opaque_item_def item_on_wire_def unblanked_def)
qed

end
