(* ===== verification/Runtime_Streams.thy ===== *)
theory Runtime_Streams
  imports Codex_Adapter Proto_Mapping
begin

text \<open>
  The runtime of the bridge, as far as it keeps state (\<open>apps/bridge/src/runtime/mod.rs\<close>, \<open>runtime/observe.rs\<close>): the
  streams to the relay with their epochs and sequence numbers, the caches of sessions and outputs with the pages read
  from them, and the schedule of observations. What the adapter, the queue and the hooks answer are arguments. Tasks
  interleave between critical sections; a section under the lock of the streams is one operation here.
\<close>

section \<open>Streams\<close>

type_synonym slot = "agent_kind \<times> string"

definition slot_of :: "session_key \<Rightarrow> slot" where
  "slot_of key = (sk_agent_kind key, sk_native_session_id key)"

definition slot_key :: "string \<Rightarrow> slot \<Rightarrow> session_key" where
  "slot_key device x = \<lparr>sk_device_id = device, sk_agent_kind = fst x, sk_native_session_id = snd x, sk_relay_session_uuid = None\<rparr>"

type_synonym up_event = "wire_time \<times> wire_event"

text \<open>What goes to the relay; the constant parts of an envelope are left out.\<close>

datatype up_payload =
    UpSubscribed string nat nat
  | UpSummaryBatch "wire_summary list" bool
  | UpRuntimeSnapshot wire_snapshot
  | UpEventBatch string "up_event list"
  | UpProtocolError int string
  | UpCapabilitySnapshot wire_capabilities
  | UpCommandAccepted string int
  | UpCommandResult string int int
  | UpHeartbeatAck

record up_envelope =
  ue_correlation :: string
  ue_stream_id :: string
  ue_stream_epoch :: nat
  ue_sequence :: nat
  ue_payload :: up_payload

record stream_state =
  st_stream_id :: string
  st_slot :: "slot option"
  st_epoch :: nat
  st_next_sequence :: nat
  st_buffering :: bool
  st_buffer :: "up_event list"

text \<open>\<open>ru_out\<close>: the envelopes handed to the connection, in order.\<close>

record runtime_streams =
  ru_epoch_counter :: nat
  ru_list :: "stream_state option"
  ru_sessions :: "(slot \<times> stream_state) list"
  ru_out :: "up_envelope list"

definition runtime_streams_new :: runtime_streams where
  "runtime_streams_new = \<lparr>ru_epoch_counter = 0, ru_list = None, ru_sessions = [], ru_out = []\<rparr>"

text \<open>The list stream is at \<open>None\<close>, that of a session at its slot.\<close>

definition stream_at :: "slot option \<Rightarrow> runtime_streams \<Rightarrow> stream_state option" where
  "stream_at k r = (case k of None \<Rightarrow> ru_list r | Some x \<Rightarrow> map_of (ru_sessions r) x)"

definition put_runtime_stream :: "slot option \<Rightarrow> stream_state \<Rightarrow> runtime_streams \<Rightarrow> runtime_streams" where
  "put_runtime_stream k s r = (case k of None \<Rightarrow> r\<lparr>ru_list := Some s\<rparr> | Some x \<Rightarrow> r\<lparr>ru_sessions := AList.update x s (ru_sessions r)\<rparr>)"

definition send_connection :: "string \<Rightarrow> up_payload \<Rightarrow> runtime_streams \<Rightarrow> runtime_streams" where
  "send_connection correlation payload r = r\<lparr>ru_out := ru_out r @
     [\<lparr>ue_correlation = correlation, ue_stream_id = [], ue_stream_epoch = 0, ue_sequence = 0, ue_payload = payload\<rparr>]\<rparr>"

definition send_runtime_error :: "string \<Rightarrow> stable_error_code \<Rightarrow> string \<Rightarrow> runtime_streams \<Rightarrow> runtime_streams" where
  "send_runtime_error correlation code message = send_connection correlation (UpProtocolError (stable_error_to_proto code) message)"

text \<open>\<open>assign_sequence\<close> and \<open>send_stream_locked\<close>.\<close>

definition emit :: "slot option \<Rightarrow> string \<Rightarrow> up_payload \<Rightarrow> runtime_streams \<Rightarrow> runtime_streams" where
  "emit k correlation payload r = (case stream_at k r of
     None \<Rightarrow> r
   | Some s \<Rightarrow> (let r1 = put_runtime_stream k (s\<lparr>st_next_sequence := st_next_sequence s + 1\<rparr>) r in r1\<lparr>ru_out := ru_out r1 @
       [\<lparr>ue_correlation = correlation, ue_stream_id = st_stream_id s, ue_stream_epoch = st_epoch s,
         ue_sequence = st_next_sequence s, ue_payload = payload\<rparr>]\<rparr>))"

definition send_subscribed :: "string \<Rightarrow> string \<Rightarrow> nat \<Rightarrow> runtime_streams \<Rightarrow> runtime_streams" where
  "send_subscribed correlation stream_id epoch r = r\<lparr>ru_out := ru_out r @
     [\<lparr>ue_correlation = correlation, ue_stream_id = stream_id, ue_stream_epoch = epoch, ue_sequence = 0,
       ue_payload = UpSubscribed stream_id epoch 1\<rparr>]\<rparr>"

definition default_stream_id :: "slot option \<Rightarrow> string" where
  "default_stream_id k = (case k of None \<Rightarrow> ''list'' | Some x \<Rightarrow> ''session:'' @ kind_name (fst x) @ '':'' @ snd x)"

text \<open>The first section of \<open>establish_list_stream\<close> and \<open>establish_session_stream\<close>: a new epoch, and events are kept back.\<close>

definition establish_begin :: "slot option \<Rightarrow> string option \<Rightarrow> runtime_streams \<Rightarrow> runtime_streams \<times> string \<times> nat" where
  "establish_begin k upstream_id r =
    (let epoch = ru_epoch_counter r + 1;
         s = (case stream_at k r of Some s \<Rightarrow> s
              | None \<Rightarrow> \<lparr>st_stream_id = default_stream_id k, st_slot = k, st_epoch = epoch, st_next_sequence = 1,
                         st_buffering = False, st_buffer = []\<rparr>);
         i = (case upstream_id of Some i \<Rightarrow> i | None \<Rightarrow> if st_stream_id s = [] then default_stream_id k else st_stream_id s)
     in (put_runtime_stream k (s\<lparr>st_stream_id := i, st_epoch := epoch, st_next_sequence := 1, st_buffering := True, st_buffer := []\<rparr>)
           (r\<lparr>ru_epoch_counter := epoch\<rparr>), i, epoch))"

text \<open>An event of the list stream is sent as a batch of one summary.\<close>

definition flush_list_event :: "string \<Rightarrow> up_event \<Rightarrow> runtime_streams \<Rightarrow> runtime_streams" where
  "flush_list_event correlation ev r = (case snd ev of
     WeSessionSummaryChanged summary \<Rightarrow> emit None correlation (UpSummaryBatch [summary] False) r
   | _ \<Rightarrow> r)"

definition send_event :: "slot \<Rightarrow> up_event \<Rightarrow> runtime_streams \<Rightarrow> runtime_streams" where
  "send_event x ev r = (case stream_at (Some x) r of
     None \<Rightarrow> r | Some s \<Rightarrow> emit (Some x) [] (UpEventBatch (st_stream_id s) [ev]) r)"

text \<open>The last section of \<open>establish_list_stream\<close>: the summaries, then what was kept back.\<close>

definition establish_list_finish :: "string \<Rightarrow> wire_summary list \<Rightarrow> runtime_streams \<Rightarrow> runtime_streams" where
  "establish_list_finish correlation summaries r = (case stream_at None r of
     None \<Rightarrow> r
   | Some s \<Rightarrow> fold (flush_list_event correlation) (st_buffer s)
       (emit None correlation (UpSummaryBatch summaries True) (put_runtime_stream None (s\<lparr>st_buffering := False, st_buffer := []\<rparr>) r)))"

text \<open>The last section of \<open>establish_session_stream\<close>, with the snapshot or the reason why there is none.\<close>

definition establish_session_finish ::
    "wire_env \<Rightarrow> string \<Rightarrow> slot \<Rightarrow> bridge_error + full_snapshot \<Rightarrow> runtime_streams \<Rightarrow> runtime_streams" where
  "establish_session_finish env correlation x result r = (case result of
     Inr snapshot \<Rightarrow> (case stream_at (Some x) r of
       None \<Rightarrow> r
     | Some s \<Rightarrow> fold (send_event x) (st_buffer s)
         (emit (Some x) correlation (UpRuntimeSnapshot (runtime_snapshot_to_proto env snapshot))
           (put_runtime_stream (Some x) (s\<lparr>st_buffering := False, st_buffer := []\<rparr>) r)))
   | Inl err \<Rightarrow>
       (let r1 = send_runtime_error correlation (be_code err) (code_as_str (be_code err) @ '': '' @ be_message err) r in
        case stream_at (Some x) r1 of
          None \<Rightarrow> r1
        | Some s \<Rightarrow> put_runtime_stream (Some x) (s\<lparr>st_buffering := False\<rparr>) r1))"

text \<open>The queue of the bridge is part of the summaries that leave it; \<open>queue\<close> is its state, if it could be read.\<close>

definition with_queue :: "queue_state option \<Rightarrow> up_event \<Rightarrow> up_event" where
  "with_queue queue ev = (case (snd ev, queue) of
     (WeSessionSummaryChanged summary, Some q) \<Rightarrow> (fst ev, WeSessionSummaryChanged (summary\<lparr>wu_queue_state := queue_state_to_proto q\<rparr>))
   | _ \<Rightarrow> ev)"

definition keep_or_send :: "slot option \<Rightarrow> (runtime_streams \<Rightarrow> runtime_streams) \<Rightarrow> up_event \<Rightarrow> runtime_streams \<Rightarrow> runtime_streams" where
  "keep_or_send k send ev r = (case stream_at k r of
     None \<Rightarrow> r
   | Some s \<Rightarrow> if st_buffering s then put_runtime_stream k (s\<lparr>st_buffer := st_buffer s @ [ev]\<rparr>) r else send r)"

definition dispatch_domain_event :: "wire_env \<Rightarrow> session_key \<Rightarrow> queue_state option \<Rightarrow> dm_event \<Rightarrow> runtime_streams \<Rightarrow> runtime_streams" where
  "dispatch_domain_event env key queue event r = (case domain_event_to_proto env event of
     None \<Rightarrow> r
   | Some ev0 \<Rightarrow>
       (let ev = with_queue queue ev0; x = slot_of key; r1 = keep_or_send (Some x) (send_event x ev) ev r in
        case event of
          DmSessionSummaryChanged _ \<Rightarrow> keep_or_send None (flush_list_event [] ev) ev r1
        | _ \<Rightarrow> r1))"

text \<open>A confirming snapshot when an observation found another revision.\<close>

definition confirm_snapshot :: "wire_env \<Rightarrow> slot \<Rightarrow> bool \<Rightarrow> full_snapshot \<Rightarrow> runtime_streams \<Rightarrow> runtime_streams" where
  "confirm_snapshot env x changed snapshot r = (case stream_at (Some x) r of
     None \<Rightarrow> r
   | Some s \<Rightarrow> if \<not> st_buffering s \<and> changed
       then emit (Some x) [] (UpRuntimeSnapshot (runtime_snapshot_to_proto env snapshot)) r else r)"

text \<open>The periodic refresh of the list, for the stream and epoch it was started for.\<close>

definition refresh_list_summary :: "string \<times> nat \<Rightarrow> wire_summary list \<Rightarrow> runtime_streams \<Rightarrow> runtime_streams" where
  "refresh_list_summary started summaries r = (case stream_at None r of
     None \<Rightarrow> r
   | Some s \<Rightarrow> if st_stream_id s = fst started \<and> st_epoch s = snd started \<and> \<not> st_buffering s
       then emit None [] (UpSummaryBatch summaries True) r else r)"

definition handle_unsubscribe :: "string \<Rightarrow> runtime_streams \<Rightarrow> runtime_streams" where
  "handle_unsubscribe stream_id r =
    (if (case ru_list r of Some s \<Rightarrow> st_stream_id s = stream_id | None \<Rightarrow> False) then r\<lparr>ru_list := None\<rparr>
     else r\<lparr>ru_sessions := filter (\<lambda>(k, s). st_stream_id s \<noteq> stream_id) (ru_sessions r)\<rparr>)"

text \<open>Which stream is established again for a resync; the outer option is whether there is one.\<close>

definition stream_resync_target :: "string \<Rightarrow> runtime_streams \<Rightarrow> slot option option" where
  "stream_resync_target stream_id r =
    (if (case ru_list r of Some s \<Rightarrow> st_stream_id s = stream_id | None \<Rightarrow> False) then Some None
     else map_option st_slot (find (\<lambda>s. st_stream_id s = stream_id) (map snd (ru_sessions r))))"

datatype subscribe_decision = SdEstablish "slot option" | SdRefuse stable_error_code string

text \<open>\<open>handle_subscribe\<close>: \<open>None\<close> for a message without target, \<open>Some None\<close> for the list.\<close>

definition handle_subscribe :: "wire_env \<Rightarrow> wire_session_key option option \<Rightarrow> subscribe_decision" where
  "handle_subscribe env target = (case target of
     None \<Rightarrow> SdRefuse InternalError ''subscribe target missing''
   | Some None \<Rightarrow> SdEstablish None
   | Some (Some key) \<Rightarrow> (case session_key_from_proto env key of
       None \<Rightarrow> SdRefuse CapabilityUnsupported ''subscribe target has unknown agent kind''
     | Some k \<Rightarrow> SdEstablish (Some (slot_of k))))"

section \<open>Caches and output pages\<close>

definition OUTPUT_PAGE_MAX :: nat where "OUTPUT_PAGE_MAX = 256 * 1024"
definition OUTPUT_BUFFER_MAX :: nat where "OUTPUT_BUFFER_MAX = 8 * 1024 * 1024"

record session_cache =
  sc_turn_active :: bool
  sc_attention_count :: nat
  sc_runtime_revision :: u64
  sc_has_snapshot :: bool

definition session_cache_default :: session_cache where
  "session_cache_default = \<lparr>sc_turn_active = False, sc_attention_count = 0, sc_runtime_revision = 0, sc_has_snapshot = False\<rparr>"

record output_buffer =
  ob_data :: bytes
  ob_is_final :: bool

definition output_buffer_default :: output_buffer where
  "output_buffer_default = \<lparr>ob_data = [], ob_is_final = False\<rparr>"

text \<open>The outputs are kept by slot and the text of the item's identifier.\<close>

record runtime_caches =
  rk_sessions :: "(slot \<times> session_cache) list"
  rk_outputs :: "((slot \<times> string) \<times> output_buffer) list"

definition cache_of :: "slot \<Rightarrow> runtime_caches \<Rightarrow> session_cache" where
  "cache_of x c = unwrap_or session_cache_default (map_of (rk_sessions c) x)"

definition put_cache :: "slot \<Rightarrow> session_cache \<Rightarrow> runtime_caches \<Rightarrow> runtime_caches" where
  "put_cache x v c = c\<lparr>rk_sessions := AList.update x v (rk_sessions c)\<rparr>"

fun note_session_event :: "dm_event \<Rightarrow> session_cache \<Rightarrow> session_cache" where
  "note_session_event (DmTurnLifecycle turn phase outcome finished) v = v\<lparr>sc_turn_active := (phase = PhRunning \<or> phase = PhFinishing)\<rparr>"
| "note_session_event (DmPendingAttentionAdded a) v = v\<lparr>sc_attention_count := sc_attention_count v + 1\<rparr>"
| "note_session_event (DmPendingAttentionRemoved kind i turn) v = v\<lparr>sc_attention_count := sc_attention_count v - 1\<rparr>"
| "note_session_event _ v = v"

definition buffer_of :: "slot \<times> string \<Rightarrow> runtime_caches \<Rightarrow> output_buffer" where
  "buffer_of k c = unwrap_or output_buffer_default (map_of (rk_outputs c) k)"

definition put_buffer :: "slot \<times> string \<Rightarrow> output_buffer \<Rightarrow> runtime_caches \<Rightarrow> runtime_caches" where
  "put_buffer k b c = c\<lparr>rk_outputs := AList.update k b (rk_outputs c)\<rparr>"

text \<open>The buffer of the item is made even when the append does not fit.\<close>

fun note_output_event :: "slot \<Rightarrow> dm_event \<Rightarrow> runtime_caches \<Rightarrow> runtime_caches" where
  "note_output_event x (DmOutputAppend i offset data ch) c =
     (let b = buffer_of (x, ii_id i) c in put_buffer (x, ii_id i)
        (if offset = length (ob_data b) \<and> length (ob_data b) < OUTPUT_BUFFER_MAX
         then b\<lparr>ob_data := ob_data b @ take (min (OUTPUT_BUFFER_MAX - length (ob_data b)) (length data)) data\<rparr> else b) c)"
| "note_output_event x (DmOutputReplace i revision data ch) c =
     put_buffer (x, ii_id i) ((buffer_of (x, ii_id i) c)\<lparr>ob_data := take (min (length data) OUTPUT_BUFFER_MAX) data\<rparr>) c"
| "note_output_event x (DmOutputFinal i revision len ch unavailable) c = (case map_of (rk_outputs c) (x, ii_id i) of
     None \<Rightarrow> c | Some b \<Rightarrow> put_buffer (x, ii_id i) (b\<lparr>ob_is_final := True\<rparr>) c)"
| "note_output_event x _ c = c"

definition note_event :: "session_key \<Rightarrow> dm_event \<Rightarrow> runtime_caches \<Rightarrow> runtime_caches" where
  "note_event key e c = (let x = slot_of key in note_output_event x e (put_cache x (note_session_event e (cache_of x c)) c))"

definition note_snapshot :: "slot \<Rightarrow> full_snapshot \<Rightarrow> runtime_caches \<Rightarrow> runtime_caches \<times> session_cache" where
  "note_snapshot x snapshot c = (put_cache x \<lparr>
     sc_turn_active = (case rs_current_turn snapshot of None \<Rightarrow> False | Some t \<Rightarrow> cu_phase t \<noteq> PhIdle),
     sc_attention_count = length (rs_pending_questions snapshot) + length (rs_pending_approvals snapshot),
     sc_runtime_revision = rs_runtime_revision snapshot, sc_has_snapshot = True\<rparr> c, cache_of x c)"

text \<open>The inputs of the wake assertion: some turn is active, something waits for the user.\<close>

definition power_inputs :: "runtime_caches \<Rightarrow> bool \<times> bool" where
  "power_inputs c = (list_ex (\<lambda>(x, v). sc_turn_active v) (rk_sessions c), list_ex (\<lambda>(x, v). 0 < sc_attention_count v) (rk_sessions c))"

text \<open>A page of output: where the next one begins, the bytes, and whether this was all.\<close>

definition query_command_output_page ::
    "session_key option \<Rightarrow> wire_item_id option \<Rightarrow> string \<Rightarrow> nat \<Rightarrow> runtime_caches \<Rightarrow> adapter \<Rightarrow> bridge_error + string \<times> bytes \<times> bool" where
  "query_command_output_page key item cursor page_size c a = (case key of
     None \<Rightarrow> Inl (bridge_err InternalError ''query requires session key'')
   | Some k \<Rightarrow>
       if sk_agent_kind k \<noteq> CodexDesktop
       then Inl (bridge_err CapabilityUnsupported ''command output is not available for zcode hook sessions'')
       else (case item of
         None \<Rightarrow> Inl (bridge_err InternalError ''missing item id'')
       | Some i \<Rightarrow>
           (let offset = unwrap_or 0 (parse_usize cursor);
                limit = (if page_size = 0 then OUTPUT_PAGE_MAX else min page_size OUTPUT_PAGE_MAX);
                buffered = map_option (\<lambda>b. let start = min offset (length (ob_data b)); stop = min (start + limit) (length (ob_data b))
                   in (take (stop - start) (drop start (ob_data b)), length (ob_data b), ob_is_final b))
                   (map_of (rk_outputs c) (slot_of k, wi_id i));
                found = (case buffered of Some x \<Rightarrow> Some x
                   | None \<Rightarrow> adapter_output_page k \<lparr>ii_id = wi_id i, ii_synthetic = wi_synthetic i\<rparr> offset limit a)
            in case found of
                 None \<Rightarrow> Inl (bridge_err ResyncRequiredCode ''output unavailable in current authoritative snapshot'')
               | Some (chunk, total_len, output_final) \<Rightarrow>
                   (let stop = min offset total_len + length chunk
                    in Inr (if stop < total_len then show_nat stop else [], chunk, output_final \<and> total_len \<le> stop)))))"

section \<open>Observation\<close>

definition DETAIL_RUNNING_OBSERVE_INTERVAL :: nat where "DETAIL_RUNNING_OBSERVE_INTERVAL = 500"
definition LIGHT_STATE_CHECK_INTERVAL :: nat where "LIGHT_STATE_CHECK_INTERVAL = 2000"
definition IDLE_SUMMARY_INTERVAL :: nat where "IDLE_SUMMARY_INTERVAL = 30000"
definition BATTERY_SLOWDOWN :: nat where "BATTERY_SLOWDOWN = 2"
definition ACTIVE_TASK_PRESSURE_THRESHOLD :: nat where "ACTIVE_TASK_PRESSURE_THRESHOLD = 3"
definition PRESSURE_SLOWDOWN :: nat where "PRESSURE_SLOWDOWN = 2"
definition MAX_SLOWDOWN :: nat where "MAX_SLOWDOWN = 4"

record observe_state =
  os_has_detail_subscription :: bool
  os_has_list_subscription :: bool
  os_turn_active :: bool

record observe_pressure =
  op_battery_powered :: bool
  op_active_tasks :: nat

text \<open>In milliseconds; \<open>None\<close> is no observation.\<close>

definition next_interval :: "observe_state \<Rightarrow> observe_pressure \<Rightarrow> nat option" where
  "next_interval s p =
    (let base = (if os_turn_active s then Some (if os_has_detail_subscription s then DETAIL_RUNNING_OBSERVE_INTERVAL else LIGHT_STATE_CHECK_INTERVAL)
                 else if os_has_list_subscription s then Some IDLE_SUMMARY_INTERVAL else None);
         battery = (if op_battery_powered p then BATTERY_SLOWDOWN else 1);
         pressure = (if op_active_tasks p \<ge> ACTIVE_TASK_PRESSURE_THRESHOLD then PRESSURE_SLOWDOWN else 1)
     in map_option (\<lambda>b. b * min (battery * pressure) MAX_SLOWDOWN) base)"

type_synonym schedule = "(string \<times> nat option) list"

definition schedule_register :: "nat \<Rightarrow> string \<Rightarrow> schedule \<Rightarrow> schedule" where
  "schedule_register now session due = AList.update session (Some now) due"

definition is_due :: "nat \<Rightarrow> nat option \<Rightarrow> bool" where
  "is_due now d = (case d of Some t \<Rightarrow> t \<le> now | None \<Rightarrow> False)"

definition take_due :: "nat \<Rightarrow> (string \<Rightarrow> observe_state option) \<Rightarrow> observe_pressure \<Rightarrow> schedule \<Rightarrow> schedule \<times> string list" where
  "take_due now state_of pressure due =
    (map (\<lambda>(x, d). (x, if is_due now d
       then map_option ((+) now) (Option.bind (state_of x) (\<lambda>s. next_interval s pressure)) else d)) due,
     map fst (filter (\<lambda>(x, d). is_due now d) due))"

text \<open>One tick of the observer: new sessions are registered, and the sessions that are due are observed.\<close>

definition observe_tick :: "nat \<Rightarrow> string list \<Rightarrow> (string \<Rightarrow> observe_state option) \<Rightarrow> observe_pressure \<Rightarrow> schedule \<Rightarrow> schedule \<times> string list" where
  "observe_tick now known_ids state_of pressure due =
     take_due now state_of pressure
       (fold (\<lambda>x d. if map_of d x = None then schedule_register now x d else d) known_ids due)"

definition known_session_ids :: "runtime_caches \<Rightarrow> string list" where
  "known_session_ids c = sort (map snd (filter (\<lambda>x. fst x = CodexDesktop) (map fst (rk_sessions c))))"

definition observe_state_of :: "string \<Rightarrow> runtime_caches \<Rightarrow> runtime_streams \<Rightarrow> observe_state option" where
  "observe_state_of native c r = map_option (\<lambda>v. \<lparr>os_has_detail_subscription = (stream_at (Some (CodexDesktop, native)) r \<noteq> None),
     os_has_list_subscription = (ru_list r \<noteq> None), os_turn_active = sc_turn_active v\<rparr>) (map_of (rk_sessions c) (CodexDesktop, native))"

section \<open>Numbering\<close>

text \<open>Everything that happens to the streams; \<open>may_fail\<close> says whether a session's snapshot may be unavailable.\<close>

inductive runtime_move :: "wire_env \<Rightarrow> bool \<Rightarrow> runtime_streams \<Rightarrow> runtime_streams \<Rightarrow> bool" for env may_fail where
  begin_stream: "establish_begin k upstream_id r = (r', i, epoch) \<Longrightarrow> runtime_move env may_fail r r'"
| subscribed: "runtime_move env may_fail r (send_subscribed correlation i epoch r)"
| connection: "runtime_move env may_fail r (send_connection correlation payload r)"
| list_done: "runtime_move env may_fail r (establish_list_finish correlation summaries r)"
| session_done: "runtime_move env may_fail r (establish_session_finish env correlation x (Inr snapshot) r)"
| session_failed: "may_fail \<Longrightarrow> runtime_move env may_fail r (establish_session_finish env correlation x (Inl err) r)"
| confirm: "runtime_move env may_fail r (confirm_snapshot env x changed snapshot r)"
| refresh: "runtime_move env may_fail r (refresh_list_summary started summaries r)"
| unsubscribe: "runtime_move env may_fail r (handle_unsubscribe i r)"

text \<open>The events that were given to the stream of a session, by the epoch it was in: a record of the history, not of the program.\<close>

type_synonym given_events = "nat \<Rightarrow> up_event list"

definition given_to :: "wire_env \<Rightarrow> session_key \<Rightarrow> queue_state option \<Rightarrow> dm_event \<Rightarrow> runtime_streams \<Rightarrow> given_events \<Rightarrow> given_events" where
  "given_to env key queue event r g = (case (domain_event_to_proto env event, stream_at (Some (slot_of key)) r) of
     (Some ev, Some s) \<Rightarrow> g(st_epoch s := g (st_epoch s) @ [with_queue queue ev])
   | _ \<Rightarrow> g)"

inductive runtime_run :: "wire_env \<Rightarrow> bool \<Rightarrow> runtime_streams \<Rightarrow> given_events \<Rightarrow> bool" for env may_fail where
  start: "runtime_run env may_fail runtime_streams_new (\<lambda>_. [])"
| move: "runtime_run env may_fail r g \<Longrightarrow> runtime_move env may_fail r r' \<Longrightarrow> runtime_run env may_fail r' g"
| event: "runtime_run env may_fail r g \<Longrightarrow>
    runtime_run env may_fail (dispatch_domain_event env key queue e r) (given_to env key queue e r g)"

text \<open>The numbered messages of an epoch, in the order they were sent.\<close>

definition numbered :: "nat \<Rightarrow> runtime_streams \<Rightarrow> up_envelope list" where
  "numbered e r = filter (\<lambda>m. ue_stream_epoch m = e \<and> ue_sequence m \<noteq> 0) (ru_out r)"

fun full_state :: "up_payload \<Rightarrow> bool" where
  "full_state (UpSummaryBatch _ snapshot) = snapshot"
| "full_state (UpRuntimeSnapshot _) = True"
| "full_state _ = False"

text \<open>Which payloads a stream carries: summaries the list stream, snapshots and events that of a session.\<close>

fun fits_stream :: "slot option \<Rightarrow> up_payload \<Rightarrow> bool" where
  "fits_stream None (UpSummaryBatch _ _) = True"
| "fits_stream (Some _) (UpRuntimeSnapshot _) = True"
| "fits_stream (Some _) (UpEventBatch _ _) = True"
| "fits_stream _ _ = False"

definition stream_ok :: "bool \<Rightarrow> slot option \<Rightarrow> stream_state \<Rightarrow> runtime_streams \<Rightarrow> bool" where
  "stream_ok may_fail k s r \<longleftrightarrow> 1 \<le> st_epoch s \<and> st_epoch s \<le> ru_epoch_counter r \<and> 1 \<le> st_next_sequence s \<and>
     map ue_sequence (numbered (st_epoch s) r) = [1..<st_next_sequence s] \<and>
     (\<forall>m \<in> set (numbered (st_epoch s) r). ue_stream_id m = st_stream_id s \<and> fits_stream k (ue_payload m)) \<and>
     (may_fail \<or> st_buffering s \<or> 1 < st_next_sequence s)"

definition epoch_ok :: "bool \<Rightarrow> up_envelope list \<Rightarrow> bool" where
  "epoch_ok may_fail ms \<longleftrightarrow> map ue_sequence ms = [1..<Suc (length ms)] \<and>
     (\<exists>i k. \<forall>m \<in> set ms. ue_stream_id m = i \<and> fits_stream k (ue_payload m)) \<and>
     (may_fail \<or> ms = [] \<or> full_state (ue_payload (hd ms)))"

definition runtime_ok :: "bool \<Rightarrow> runtime_streams \<Rightarrow> bool" where
  "runtime_ok may_fail r \<longleftrightarrow> (\<forall>k s. stream_at k r = Some s \<longrightarrow> stream_ok may_fail k s r) \<and>
     (\<forall>k s k' s'. stream_at k r = Some s \<longrightarrow> stream_at k' r = Some s' \<longrightarrow> st_epoch s = st_epoch s' \<longrightarrow> k = k') \<and>
     (\<forall>e. epoch_ok may_fail (numbered e r) \<and> (ru_epoch_counter r < e \<longrightarrow> numbered e r = []))"

lemma stream_at_put [simp]: "stream_at k' (put_runtime_stream k s r) = (if k' = k then Some s else stream_at k' r)"
  by (cases k; cases k') (auto simp: stream_at_def put_runtime_stream_def update_conv')

lemma put_stream_rest [simp]: "ru_out (put_runtime_stream k s r) = ru_out r" "ru_epoch_counter (put_runtime_stream k s r) = ru_epoch_counter r"
  "numbered e (put_runtime_stream k s r) = numbered e r"
  by (simp_all add: put_runtime_stream_def numbered_def split: option.splits)

lemma numbered_counter [simp]: "numbered e (r\<lparr>ru_epoch_counter := n\<rparr>) = numbered e r"
  by (simp add: numbered_def)

lemma stream_at_out [simp]: "stream_at k (r\<lparr>ru_out := ms\<rparr>) = stream_at k r" "stream_at k (r\<lparr>ru_epoch_counter := n\<rparr>) = stream_at k r"
  by (simp_all add: stream_at_def split: option.splits)

lemma stream_okD:
  assumes "runtime_ok mf r" "stream_at k r = Some s"
  shows "stream_ok mf k s r"
  using assms by (simp add: runtime_ok_def)

text \<open>Messages without a number change nothing.\<close>

lemma runtime_ok_unnumbered:
  assumes "runtime_ok mf r" "ue_sequence m = 0"
  shows "runtime_ok mf (r\<lparr>ru_out := ru_out r @ [m]\<rparr>)"
proof -
  have "numbered e (r\<lparr>ru_out := ru_out r @ [m]\<rparr>) = numbered e r" for e
    using assms(2) by (simp add: numbered_def)
  then show ?thesis using assms(1) by (simp add: runtime_ok_def stream_ok_def)
qed

text \<open>Changing a stream but for its number, epoch and name.\<close>

lemma runtime_ok_same_number:
  assumes "runtime_ok mf r" "stream_at k r = Some s" "st_epoch s' = st_epoch s" "st_next_sequence s' = st_next_sequence s"
    "st_stream_id s' = st_stream_id s" "mf \<or> st_buffering s' \<or> 1 < st_next_sequence s"
  shows "runtime_ok mf (put_runtime_stream k s' r)"
proof -
  have s: "stream_ok mf k s r" using stream_okD [OF assms(1,2)] .
  have "stream_ok mf k' u (put_runtime_stream k s' r)" if "stream_at k' (put_runtime_stream k s' r) = Some u" for k' u
  proof (cases "k' = k")
    case True
    then have "u = s'" using that by simp
    then show ?thesis using True s assms(3-6) by (simp add: stream_ok_def)
  next
    case False
    then have "stream_ok mf k' u r" using that stream_okD [OF assms(1), of k' u] by simp
    then show ?thesis by (simp add: stream_ok_def)
  qed
  moreover have "k1 = k2" if u: "stream_at k1 (put_runtime_stream k s' r) = Some u1" "stream_at k2 (put_runtime_stream k s' r) = Some u2"
    "st_epoch u1 = st_epoch u2" for k1 u1 k2 u2
  proof -
    obtain v1 where v1: "stream_at k1 r = Some v1" "st_epoch v1 = st_epoch u1"
      using u(1) assms(2,3) by (cases "k1 = k") auto
    obtain v2 where v2: "stream_at k2 r = Some v2" "st_epoch v2 = st_epoch u2"
      using u(2) assms(2,3) by (cases "k2 = k") auto
    show ?thesis using assms(1) v1 v2 u(3) unfolding runtime_ok_def by metis
  qed
  moreover have "\<forall>e. epoch_ok mf (numbered e r) \<and> (ru_epoch_counter r < e \<longrightarrow> numbered e r = [])"
    using assms(1) unfolding runtime_ok_def by blast
  ultimately show ?thesis unfolding runtime_ok_def put_stream_rest by blast
qed

text \<open>Sending on a stream, possibly opening it at the same time.\<close>

lemma numbered_emit:
  assumes "stream_at k r = Some s"
  shows "numbered e (emit k c p r) = numbered e r @
    (if e = st_epoch s \<and> st_next_sequence s \<noteq> 0 then [\<lparr>ue_correlation = c, ue_stream_id = st_stream_id s, ue_stream_epoch = st_epoch s,
       ue_sequence = st_next_sequence s, ue_payload = p\<rparr>] else [])"
  using assms by (auto simp: emit_def numbered_def Let_def)

lemma stream_at_emit:
  assumes "stream_at k r = Some s"
  shows "stream_at k' (emit k c p r) = (if k' = k then Some (s\<lparr>st_next_sequence := st_next_sequence s + 1\<rparr>) else stream_at k' r)"
    "ru_epoch_counter (emit k c p r) = ru_epoch_counter r"
  using assms by (simp_all add: emit_def Let_def)

definition same_numbers :: "stream_state \<Rightarrow> stream_state \<Rightarrow> bool" where
  "same_numbers s t \<longleftrightarrow> st_epoch t = st_epoch s \<and> st_next_sequence t = st_next_sequence s \<and> st_stream_id t = st_stream_id s"

lemma runtime_ok_send:
  assumes ok: "runtime_ok mf r" and s: "stream_at k r = Some s" and fits: "fits_stream k p"
    and full: "mf \<or> full_state p \<or> 1 < st_next_sequence s"
    and t: "stream_at k q = Some t" "same_numbers s t" "\<And>k'. k' \<noteq> k \<Longrightarrow> stream_at k' q = stream_at k' r"
    and q: "ru_out q = ru_out r" "ru_epoch_counter q = ru_epoch_counter r"
  shows "runtime_ok mf (emit k c p q) \<and> (\<exists>u. stream_at k (emit k c p q) = Some u \<and> 1 < st_next_sequence u)"
proof -
  let ?r = "emit k c p q"
  have so: "stream_ok mf k s r" using stream_okD [OF ok s] .
  have num: "numbered e ?r = numbered e r @ (if e = st_epoch s then [\<lparr>ue_correlation = c, ue_stream_id = st_stream_id s,
      ue_stream_epoch = st_epoch s, ue_sequence = st_next_sequence s, ue_payload = p\<rparr>] else [])" for e
    using numbered_emit [OF t(1), of e c p] so t(2) q(1) by (auto simp: stream_ok_def same_numbers_def numbered_def)
  have at: "stream_at k' ?r = (if k' = k then Some (t\<lparr>st_next_sequence := st_next_sequence t + 1\<rparr>) else stream_at k' r)" for k'
    using stream_at_emit(1) [OF t(1), of k' c p] t(3) by simp
  have cnt: "ru_epoch_counter ?r = ru_epoch_counter r" using stream_at_emit(2) [OF t(1)] q(2) by simp
  have len: "Suc (length (numbered (st_epoch s) r)) = st_next_sequence s"
  proof -
    have "length (map ue_sequence (numbered (st_epoch s) r)) = length [1..<st_next_sequence s]" "1 \<le> st_next_sequence s"
      using so by (simp_all only: stream_ok_def)
    then show ?thesis by simp
  qed
  have other: "stream_ok mf k' u ?r" if u: "stream_at k' r = Some u" "k' \<noteq> k" for k' u
  proof -
    have "st_epoch u \<noteq> st_epoch s" using ok u s unfolding runtime_ok_def by blast
    then show ?thesis using stream_okD [OF ok u(1)] by (simp add: stream_ok_def num cnt)
  qed
  have own: "stream_ok mf k (t\<lparr>st_next_sequence := st_next_sequence t + 1\<rparr>) ?r"
    using so fits t(2) by (simp add: stream_ok_def num cnt same_numbers_def)
  have epochs: "epoch_ok mf (numbered e ?r)" for e
  proof (cases "e = st_epoch s")
    case True
    have "epoch_ok mf (numbered e r)" using ok by (simp add: runtime_ok_def)
    moreover have "numbered e r \<noteq> []" if "1 < st_next_sequence s" using that len True by auto
    moreover have "\<exists>i k. \<forall>m \<in> set (numbered e ?r). ue_stream_id m = i \<and> fits_stream k (ue_payload m)"
      using so fits True by (intro exI [of _ "st_stream_id s"] exI [of _ k]) (simp add: num stream_ok_def)
    moreover have "map ue_sequence (numbered e ?r) = [1..<Suc (length (numbered e ?r))]"
      using so len True by (simp add: num stream_ok_def)
    ultimately show ?thesis using full True unfolding epoch_ok_def by (auto simp: num hd_append)
  next
    case False
    then show ?thesis using ok by (simp add: num runtime_ok_def)
  qed
  have "runtime_ok mf ?r"
    unfolding runtime_ok_def
  proof (intro conjI allI impI)
    fix k1 s1 k2 s2 assume "stream_at k1 ?r = Some s1" "stream_at k2 ?r = Some s2" "st_epoch s1 = st_epoch s2"
    moreover have "\<exists>v. stream_at k' r = Some v \<and> st_epoch v = st_epoch u" if "stream_at k' ?r = Some u" for k' u
      using that s t(2) by (cases "k' = k") (auto simp: at same_numbers_def)
    ultimately show "k1 = k2" using ok unfolding runtime_ok_def by metis
  next
    fix e assume "ru_epoch_counter ?r < e"
    then show "numbered e ?r = []" using ok so by (auto simp: num cnt runtime_ok_def stream_ok_def)
  qed (use own other epochs in \<open>auto simp: at split: if_splits\<close>)
  then show ?thesis using so t(2) by (auto simp: at stream_ok_def same_numbers_def)
qed

lemmas runtime_ok_emit = runtime_ok_send [OF _ _ _ _ _ _ refl refl refl]

text \<open>Opening a stream: a new epoch with nothing sent in it.\<close>

lemma runtime_ok_begin:
  assumes ok: "runtime_ok mf r" and b: "establish_begin k upstream_id r = (r', i, epoch)"
  shows "runtime_ok mf r'"
proof -
  obtain s where r': "r' = put_runtime_stream k s (r\<lparr>ru_epoch_counter := ru_epoch_counter r + 1\<rparr>)" and
    s: "st_epoch s = ru_epoch_counter r + 1" "st_next_sequence s = 1" "st_buffering s"
    using b by (auto simp: establish_begin_def Let_def)
  have num: "numbered e r' = numbered e r" for e by (simp add: r')
  have new: "numbered (ru_epoch_counter r + 1) r = []" using ok by (simp add: runtime_ok_def)
  have own: "stream_ok mf k s r'" using s new by (simp add: stream_ok_def num r')
  have other: "stream_ok mf k' u r'" "st_epoch u \<noteq> st_epoch s" if "stream_at k' r = Some u" for k' u
    using stream_okD [OF ok that] s(1) by (simp_all add: stream_ok_def num r')
  show ?thesis
    unfolding runtime_ok_def
  proof (intro conjI allI impI)
    fix k1 s1 assume "stream_at k1 r' = Some s1"
    then show "stream_ok mf k1 s1 r'" using own other(1) [of k1 s1] by (cases "k1 = k") (simp_all add: r')
  next
    fix k1 s1 k2 s2 assume "stream_at k1 r' = Some s1" "stream_at k2 r' = Some s2" "st_epoch s1 = st_epoch s2"
    then show "k1 = k2"
      using other(2) [of k1 s1] other(2) [of k2 s2] ok unfolding runtime_ok_def by (cases "k1 = k"; cases "k2 = k") (simp_all add: r')
  next
    fix e show "epoch_ok mf (numbered e r')" using ok by (simp add: num runtime_ok_def)
  next
    fix e assume "ru_epoch_counter r' < e"
    then show "numbered e r' = []" using ok by (simp add: num r' runtime_ok_def)
  qed
qed

text \<open>Sending what was kept back, once the stream is open.\<close>

definition stream_open :: "slot option \<Rightarrow> runtime_streams \<Rightarrow> bool" where
  "stream_open k r \<longleftrightarrow> (\<exists>u. stream_at k r = Some u \<and> 1 < st_next_sequence u)"

lemma runtime_ok_fold:
  assumes step: "\<And>ev q. runtime_ok mf q \<Longrightarrow> stream_open k q \<Longrightarrow> runtime_ok mf (f ev q) \<and> stream_open k (f ev q)"
    and "runtime_ok mf r" "stream_open k r"
  shows "runtime_ok mf (fold f evs r)"
  using assms(2,3) by (induction evs arbitrary: r) (use step in auto)

lemma flush_list_event_ok:
  assumes "runtime_ok mf r" "stream_open None r"
  shows "runtime_ok mf (flush_list_event c ev r) \<and> stream_open None (flush_list_event c ev r)"
proof -
  obtain s where s: "stream_at None r = Some s" "1 < st_next_sequence s" using assms(2) by (auto simp: stream_open_def)
  have "runtime_ok mf (emit None c (UpSummaryBatch [x] False) r) \<and> stream_open None (emit None c (UpSummaryBatch [x] False) r)" for x
    using runtime_ok_emit [OF assms(1) s(1) _ _ s(1), of "UpSummaryBatch [x] False" c] s(2)
    by (simp add: same_numbers_def stream_open_def)
  then show ?thesis using assms by (simp add: flush_list_event_def split: wire_event.split)
qed

lemma send_event_ok:
  assumes "runtime_ok mf r" "stream_open (Some x) r \<or> mf"
  shows "runtime_ok mf (send_event x ev r) \<and> (stream_open (Some x) r \<longrightarrow> stream_open (Some x) (send_event x ev r))"
proof (cases "stream_at (Some x) r")
  case (Some s)
  then have "mf \<or> 1 < st_next_sequence s" using assms(2) by (auto simp: stream_open_def)
  then show ?thesis using runtime_ok_emit [OF assms(1) Some _ _ Some, of "UpEventBatch (st_stream_id s) [ev]" "[]"] Some
    by (simp add: send_event_def same_numbers_def stream_open_def)
qed (use assms in \<open>simp add: send_event_def\<close>)

text \<open>A stream that does not keep events back is open, unless snapshots may fail.\<close>

lemma unbuffered_open:
  "runtime_ok mf r \<Longrightarrow> stream_at k r = Some s \<Longrightarrow> \<not> st_buffering s \<Longrightarrow> stream_open k r \<or> mf"
  using stream_okD [of mf r k s] by (auto simp: stream_ok_def stream_open_def)

lemma opened_with_state:
  assumes "runtime_ok mf r" "stream_at k r = Some s" "fits_stream k p" "full_state p"
  shows "runtime_ok mf (emit k c p (put_runtime_stream k (s\<lparr>st_buffering := False, st_buffer := []\<rparr>) r)) \<and>
    stream_open k (emit k c p (put_runtime_stream k (s\<lparr>st_buffering := False, st_buffer := []\<rparr>) r))"
  using runtime_ok_send [OF assms(1-3), of "put_runtime_stream k (s\<lparr>st_buffering := False, st_buffer := []\<rparr>) r"
      "s\<lparr>st_buffering := False, st_buffer := []\<rparr>" c] assms(4)
  by (simp add: same_numbers_def stream_open_def)

lemma list_finish_ok: "runtime_ok mf r \<Longrightarrow> runtime_ok mf (establish_list_finish c summaries r)"
  using opened_with_state [of mf r None _ "UpSummaryBatch summaries True" c]
    runtime_ok_fold [of mf None "flush_list_event c"] flush_list_event_ok [of mf _ c]
  by (auto simp: establish_list_finish_def split: option.split)

lemma session_finish_ok: "runtime_ok mf r \<Longrightarrow> runtime_ok mf (establish_session_finish env c x (Inr snapshot) r)"
  using opened_with_state [of mf r "Some x" _ "UpRuntimeSnapshot (runtime_snapshot_to_proto env snapshot)" c]
    runtime_ok_fold [of mf "Some x" "send_event x"] send_event_ok [of mf _ x]
  by (auto simp: establish_session_finish_def split: option.split)

lemma session_failed_ok: "runtime_ok True r \<Longrightarrow> runtime_ok True (establish_session_finish env c x (Inl err) r)"
  using runtime_ok_unnumbered [of True r] runtime_ok_same_number [of True _ "Some x"]
  by (auto simp: establish_session_finish_def send_runtime_error_def send_connection_def Let_def split: option.split)

lemma keep_or_send_ok:
  assumes "runtime_ok mf r" "stream_open k r \<or> mf \<Longrightarrow> runtime_ok mf (send r)"
  shows "runtime_ok mf (keep_or_send k send ev r)"
  using assms unbuffered_open [of mf r k] runtime_ok_same_number [of mf r k]
  by (auto simp: keep_or_send_def split: option.split)

lemma flush_list_event_ok': "runtime_ok mf r \<Longrightarrow> stream_open None r \<or> mf \<Longrightarrow> runtime_ok mf (flush_list_event c ev r)"
proof -
  assume ok: "runtime_ok mf r" "stream_open None r \<or> mf"
  have "runtime_ok mf (emit None c (UpSummaryBatch [x] False) r)" for x
  proof (cases "stream_at None r")
    case (Some s)
    then have "mf \<or> 1 < st_next_sequence s" using ok(2) by (auto simp: stream_open_def)
    then show ?thesis using runtime_ok_emit [OF ok(1) Some _ _ Some, of "UpSummaryBatch [x] False" c] by (simp add: same_numbers_def)
  qed (use ok(1) in \<open>simp add: emit_def\<close>)
  then show ?thesis using ok(1) by (simp add: flush_list_event_def split: wire_event.split)
qed

lemma dispatch_ok: "runtime_ok mf r \<Longrightarrow> runtime_ok mf (dispatch_domain_event env key queue e r)"
  using keep_or_send_ok [of mf _ "Some (slot_of key)"] keep_or_send_ok [of mf _ None] send_event_ok [of mf _ "slot_of key"]
    flush_list_event_ok' [of mf]
  by (auto simp: dispatch_domain_event_def Let_def split: option.split dm_event.split)

lemma confirm_ok: "runtime_ok mf r \<Longrightarrow> runtime_ok mf (confirm_snapshot env x changed snapshot r)"
  using runtime_ok_emit [of mf r "Some x" _ "UpRuntimeSnapshot (runtime_snapshot_to_proto env snapshot)"]
  by (auto simp: confirm_snapshot_def same_numbers_def split: option.split)

lemma refresh_ok: "runtime_ok mf r \<Longrightarrow> runtime_ok mf (refresh_list_summary started summaries r)"
  using runtime_ok_emit [of mf r None _ "UpSummaryBatch summaries True"]
  by (auto simp: refresh_list_summary_def same_numbers_def split: option.split)

lemma unsubscribe_ok:
  assumes ok: "runtime_ok mf r" and d: "distinct (map fst (ru_sessions r))"
  shows "runtime_ok mf (handle_unsubscribe i r)"
proof -
  have sub: "stream_at k (handle_unsubscribe i r) = Some s \<Longrightarrow> stream_at k r = Some s" for k s
    using d by (auto simp: stream_at_def handle_unsubscribe_def map_of_filter_in intro: map_of_is_SomeI
        dest!: map_of_SomeD split: option.splits if_splits)
  have rest: "numbered e (handle_unsubscribe i r) = numbered e r" "ru_epoch_counter (handle_unsubscribe i r) = ru_epoch_counter r" for e
    by (simp_all add: handle_unsubscribe_def numbered_def)
  have "stream_ok mf k s (handle_unsubscribe i r)" if "stream_at k (handle_unsubscribe i r) = Some s" for k s
    using stream_okD [OF ok sub [OF that]] by (simp add: stream_ok_def rest)
  moreover have "k1 = k2" if "stream_at k1 (handle_unsubscribe i r) = Some s1" "stream_at k2 (handle_unsubscribe i r) = Some s2"
    "st_epoch s1 = st_epoch s2" for k1 s1 k2 s2
    using ok sub [OF that(1)] sub [OF that(2)] that(3) unfolding runtime_ok_def by blast
  moreover have "\<forall>e. epoch_ok mf (numbered e r) \<and> (ru_epoch_counter r < e \<longrightarrow> numbered e r = [])"
    using ok unfolding runtime_ok_def by blast
  ultimately show ?thesis unfolding runtime_ok_def rest by blast
qed

text \<open>The slots of the session streams stay distinct.\<close>

definition stream_slots_ok :: "runtime_streams \<Rightarrow> bool" where
  "stream_slots_ok r \<longleftrightarrow> distinct (map fst (ru_sessions r))"

lemma slots_put [simp]: "stream_slots_ok r \<Longrightarrow> stream_slots_ok (put_runtime_stream k s r)"
  by (simp add: stream_slots_ok_def put_runtime_stream_def distinct_update split: option.split)

lemma slots_fields [simp]: "stream_slots_ok (r\<lparr>ru_out := ms\<rparr>) = stream_slots_ok r" "stream_slots_ok (r\<lparr>ru_epoch_counter := n\<rparr>) = stream_slots_ok r"
  "stream_slots_ok (r\<lparr>ru_list := l\<rparr>) = stream_slots_ok r"
  by (simp_all add: stream_slots_ok_def)

lemma slots_emit [simp]: "stream_slots_ok r \<Longrightarrow> stream_slots_ok (emit k c p r)"
  by (simp add: emit_def Let_def split: option.split)

lemma slots_send [simp]: "stream_slots_ok r \<Longrightarrow> stream_slots_ok (flush_list_event c ev r)" "stream_slots_ok r \<Longrightarrow> stream_slots_ok (send_event x ev r)"
  by (simp_all add: flush_list_event_def send_event_def split: wire_event.split option.split)

lemma slots_fold: "(\<And>ev q. stream_slots_ok q \<Longrightarrow> stream_slots_ok (f ev q)) \<Longrightarrow> stream_slots_ok r \<Longrightarrow> stream_slots_ok (fold f evs r)"
  by (induction evs arbitrary: r) auto

lemma slots_keep [simp]: "stream_slots_ok r \<Longrightarrow> stream_slots_ok (send r) \<Longrightarrow> stream_slots_ok (keep_or_send k send ev r)"
  by (simp add: keep_or_send_def split: option.split)

lemma slots_dispatch [simp]: "stream_slots_ok r \<Longrightarrow> stream_slots_ok (dispatch_domain_event env key queue e r)"
  by (simp add: dispatch_domain_event_def Let_def split: option.split dm_event.split)

lemma slots_move:
  assumes "runtime_move env mf r r'" "stream_slots_ok r"
  shows "stream_slots_ok r'"
  using assms(1)
proof cases
  case (begin_stream k upstream_id i epoch)
  then show ?thesis using assms(2) by (auto simp: establish_begin_def Let_def)
next
  case (unsubscribe i)
  then show ?thesis using assms(2) by (auto simp: handle_unsubscribe_def stream_slots_ok_def distinct_map_filter)
qed (use assms(2) in \<open>simp_all add: send_subscribed_def send_connection_def establish_list_finish_def establish_session_finish_def
    send_runtime_error_def confirm_snapshot_def refresh_list_summary_def slots_fold Let_def split: option.split\<close>)

lemma runtime_move_ok:
  assumes "runtime_move env mf r r'" "runtime_ok mf r" "stream_slots_ok r"
  shows "runtime_ok mf r'"
  using assms(1)
proof cases
  case (begin_stream k upstream_id i epoch)
  then show ?thesis using runtime_ok_begin [OF assms(2)] by blast
next
  case (subscribed correlation i epoch)
  then show ?thesis using runtime_ok_unnumbered [OF assms(2)] by (simp add: send_subscribed_def)
next
  case (connection correlation payload)
  then show ?thesis using runtime_ok_unnumbered [OF assms(2)] by (simp add: send_connection_def)
next
  case (session_failed correlation x err)
  then show ?thesis using session_failed_ok assms(2) by simp
next
  case (unsubscribe i)
  then show ?thesis using unsubscribe_ok [OF assms(2)] assms(3) by (simp add: stream_slots_ok_def)
qed (simp_all add: assms(2) list_finish_ok session_finish_ok confirm_ok refresh_ok)

lemma runtime_run_ok: "runtime_run env mf r g \<Longrightarrow> runtime_ok mf r \<and> stream_slots_ok r"
proof (induction rule: runtime_run.induct)
  case start
  have "stream_at k runtime_streams_new = None" for k
    by (simp add: runtime_streams_new_def stream_at_def split: option.split)
  then show ?case
    by (simp add: runtime_ok_def epoch_ok_def numbered_def stream_slots_ok_def) (simp add: runtime_streams_new_def)
next
  case (move r g r')
  then show ?case using runtime_move_ok slots_move by blast
next
  case (event r g key queue e)
  then show ?case using dispatch_ok by simp
qed

section \<open>No event is lost\<close>

fun payload_events :: "up_payload \<Rightarrow> up_event list" where
  "payload_events (UpEventBatch _ evs) = evs"
| "payload_events _ = []"

definition events_sent :: "nat \<Rightarrow> runtime_streams \<Rightarrow> up_event list" where
  "events_sent e r = concat (map (\<lambda>m. payload_events (ue_payload m)) (numbered e r))"

definition carried :: "runtime_streams \<Rightarrow> given_events \<Rightarrow> bool" where
  "carried r g \<longleftrightarrow> (\<forall>e. \<exists>rest. g e = events_sent e r @ rest) \<and>
     (\<forall>x s. stream_at (Some x) r = Some s \<longrightarrow> g (st_epoch s) = events_sent (st_epoch s) r @ st_buffer s \<and>
        (st_buffering s \<or> st_buffer s = [])) \<and>
     (\<forall>e. ru_epoch_counter r < e \<longrightarrow> g e = [])"

lemma carriedD:
  assumes "carried r g" "stream_at (Some x) r = Some s"
  shows "g (st_epoch s) = events_sent (st_epoch s) r @ st_buffer s" "st_buffering s \<or> st_buffer s = []"
  using assms unfolding carried_def by blast+

lemma events_sent_emit:
  assumes "stream_at k r = Some s" "1 \<le> st_next_sequence s"
  shows "events_sent e (emit k c p r) = events_sent e r @ (if e = st_epoch s then payload_events p else [])"
  using numbered_emit [OF assms(1), of e c p] assms(2) by (simp add: events_sent_def)

lemma events_sent_put [simp]: "events_sent e (put_runtime_stream k s r) = events_sent e r"
  by (simp add: events_sent_def)

text \<open>What sends no event and leaves the streams of sessions as they are.\<close>

definition eventless :: "runtime_streams \<Rightarrow> runtime_streams \<Rightarrow> bool" where
  "eventless r r' \<longleftrightarrow> (\<forall>e. events_sent e r' = events_sent e r) \<and> ru_epoch_counter r \<le> ru_epoch_counter r' \<and>
     (\<forall>x s'. stream_at (Some x) r' = Some s' \<longrightarrow> (\<exists>s. stream_at (Some x) r = Some s \<and> st_epoch s' = st_epoch s \<and>
        st_buffer s' = st_buffer s \<and> st_buffering s' = st_buffering s))"

lemma eventless_refl [simp]: "eventless r r"
  by (simp add: eventless_def)

lemma eventless_trans:
  assumes "eventless a b" "eventless b c"
  shows "eventless a c"
  unfolding eventless_def
proof (intro conjI allI impI)
  fix x s' assume "stream_at (Some x) c = Some s'"
  then obtain s where s: "stream_at (Some x) b = Some s" "st_epoch s' = st_epoch s" "st_buffer s' = st_buffer s" "st_buffering s' = st_buffering s"
    using assms(2) unfolding eventless_def by blast
  then obtain u where "stream_at (Some x) a = Some u" "st_epoch s = st_epoch u" "st_buffer s = st_buffer u" "st_buffering s = st_buffering u"
    using assms(1) unfolding eventless_def by blast
  then show "\<exists>s. stream_at (Some x) a = Some s \<and> st_epoch s' = st_epoch s \<and> st_buffer s' = st_buffer s \<and> st_buffering s' = st_buffering s"
    using s by auto
qed (use assms in \<open>auto simp: eventless_def\<close>)

lemma carried_eventless:
  assumes "carried r g" "eventless r r'"
  shows "carried r' g"
  unfolding carried_def
proof (intro conjI allI impI)
  have ev: "events_sent e r' = events_sent e r" for e using assms(2) by (simp add: eventless_def)
  show "\<exists>rest. g e = events_sent e r' @ rest" for e using assms(1) unfolding carried_def ev by blast
  fix x s' assume "stream_at (Some x) r' = Some s'"
  then obtain s where s: "stream_at (Some x) r = Some s" "st_epoch s' = st_epoch s" "st_buffer s' = st_buffer s" "st_buffering s' = st_buffering s"
    using assms(2) unfolding eventless_def by blast
  have "g (st_epoch s) = events_sent (st_epoch s) r @ st_buffer s \<and> (st_buffering s \<or> st_buffer s = [])"
    using assms(1) s(1) unfolding carried_def by blast
  then show "g (st_epoch s') = events_sent (st_epoch s') r' @ st_buffer s'" "st_buffering s' \<or> st_buffer s' = []"
    using s ev by simp_all
next
  fix e assume "ru_epoch_counter r' < e"
  then have "ru_epoch_counter r < e" using assms(2) unfolding eventless_def by linarith
  then show "g e = []" using assms(1) unfolding carried_def by blast
qed

lemma eventless_emit:
  assumes "payload_events p = []"
  shows "eventless r (emit k c p r)"
proof (cases "stream_at k r")
  case (Some s)
  have "events_sent e (emit k c p r) = events_sent e r" for e
    using numbered_emit [OF Some, of e c p] assms by (simp add: events_sent_def)
  then show ?thesis by (auto simp: eventless_def stream_at_emit [OF Some] Some split: if_splits)
qed (simp add: emit_def)

lemma eventless_list: "eventless r (put_runtime_stream None s r)"
  by (simp add: eventless_def)

lemma eventless_flush: "eventless r (flush_list_event c ev r)"
  using eventless_emit by (simp add: flush_list_event_def split: wire_event.split)

lemma eventless_fold: "(\<And>ev q. eventless q (f ev q)) \<Longrightarrow> eventless r (fold f evs r)"
  by (induction evs arbitrary: r) (auto intro: eventless_trans)

lemma eventless_list_finish: "eventless r (establish_list_finish c summaries r)"
proof (cases "stream_at None r")
  case (Some s)
  show ?thesis unfolding establish_list_finish_def Some option.case
    by (rule eventless_trans [OF eventless_trans [OF eventless_list eventless_emit] eventless_fold [OF eventless_flush]]) simp
qed (simp add: establish_list_finish_def)

lemma eventless_unsubscribe:
  assumes "stream_slots_ok r"
  shows "eventless r (handle_unsubscribe i r)"
proof -
  have "stream_at k (handle_unsubscribe i r) = Some s \<Longrightarrow> stream_at k r = Some s" for k s
    using assms by (auto simp: stream_slots_ok_def stream_at_def handle_unsubscribe_def intro: map_of_is_SomeI
        dest!: map_of_SomeD split: option.splits if_splits)
  then show ?thesis by (auto simp: eventless_def events_sent_def numbered_def handle_unsubscribe_def)
qed

text \<open>Opening the stream of a session: what was kept back before is given up with its epoch.\<close>

lemma carried_begin:
  assumes ok: "runtime_ok mf r" and c: "carried r g" and b: "establish_begin k upstream_id r = (r', i, epoch)"
  shows "carried r' g"
proof -
  obtain s where r': "r' = put_runtime_stream k s (r\<lparr>ru_epoch_counter := ru_epoch_counter r + 1\<rparr>)" and
    s: "st_epoch s = ru_epoch_counter r + 1" "st_buffering s" "st_buffer s = []"
    using b by (auto simp: establish_begin_def Let_def)
  have ev: "events_sent e r' = events_sent e r" for e by (simp add: r' events_sent_def)
  have new: "events_sent (ru_epoch_counter r + 1) r = []" "g (ru_epoch_counter r + 1) = []"
    using ok c by (auto simp: runtime_ok_def events_sent_def carried_def)
  show ?thesis
    unfolding carried_def
  proof (intro conjI allI impI)
    show "\<exists>rest. g e = events_sent e r' @ rest" for e using c unfolding carried_def ev by blast
    fix x u assume u: "stream_at (Some x) r' = Some u"
    have "g (st_epoch u) = events_sent (st_epoch u) r' @ st_buffer u \<and> (st_buffering u \<or> st_buffer u = [])"
    proof (cases "k = Some x")
      case True
      then have "u = s" using u by (simp add: r')
      then show ?thesis using s new by (simp add: ev)
    next
      case False
      then have "stream_at (Some x) r = Some u" using u by (simp add: r' eq_commute)
      then show ?thesis using c unfolding carried_def ev by blast
    qed
    then show "g (st_epoch u) = events_sent (st_epoch u) r' @ st_buffer u" "st_buffering u \<or> st_buffer u = []" by simp_all
  next
    fix e assume "ru_epoch_counter r' < e"
    then show "g e = []" using c by (simp add: r' carried_def)
  qed
qed

text \<open>Sending on, or keeping back for, one session.\<close>

lemma carried_update:
  assumes ok: "runtime_ok mf r" and c: "carried r g" and s: "stream_at (Some x) r = Some s"
    and ev: "\<And>e. events_sent e r' = events_sent e r @ (if e = st_epoch s then evs else [])"
    and s': "stream_at (Some x) r' = Some s'" "st_epoch s' = st_epoch s" "st_buffering s' \<or> st_buffer s' = []"
    and others: "\<And>y. y \<noteq> x \<Longrightarrow> stream_at (Some y) r' = stream_at (Some y) r"
    and cnt: "ru_epoch_counter r' = ru_epoch_counter r"
    and g: "g (st_epoch s) @ added = events_sent (st_epoch s) r @ evs @ st_buffer s'"
  shows "carried r' (g(st_epoch s := g (st_epoch s) @ added))"
proof -
  have own: "st_epoch s \<le> ru_epoch_counter r" using stream_okD [OF ok s] by (simp add: stream_ok_def)
  have diff: "st_epoch u \<noteq> st_epoch s" if "stream_at (Some y) r = Some u" "y \<noteq> x" for y u
    using ok that s unfolding runtime_ok_def by blast
  show ?thesis
    unfolding carried_def
  proof (intro conjI allI impI)
    fix e show "\<exists>rest. (g(st_epoch s := g (st_epoch s) @ added)) e = events_sent e r' @ rest"
      using c g by (cases "e = st_epoch s") (auto simp: ev carried_def)
  next
    fix y u assume u: "stream_at (Some y) r' = Some u"
    have "(g(st_epoch s := g (st_epoch s) @ added)) (st_epoch u) = events_sent (st_epoch u) r' @ st_buffer u \<and>
        (st_buffering u \<or> st_buffer u = [])"
    proof (cases "y = x")
      case True
      then show ?thesis using u s' g by (simp add: ev)
    next
      case False
      then have r: "stream_at (Some y) r = Some u" using u others by simp
      then show ?thesis using diff [OF r False] carriedD [OF c r] by (simp add: ev)
    qed
    then show "(g(st_epoch s := g (st_epoch s) @ added)) (st_epoch u) = events_sent (st_epoch u) r' @ st_buffer u"
      "st_buffering u \<or> st_buffer u = []" by simp_all
  next
    fix e assume "ru_epoch_counter r' < e"
    then show "(g(st_epoch s := g (st_epoch s) @ added)) e = []" using c own cnt by (auto simp: carried_def)
  qed
qed

lemma send_event_effect:
  assumes "stream_at (Some x) r = Some s" "1 \<le> st_next_sequence s"
  shows "events_sent e (send_event x ev r) = events_sent e r @ (if e = st_epoch s then [ev] else [])"
    "stream_at k (send_event x ev r) = (if k = Some x then Some (s\<lparr>st_next_sequence := st_next_sequence s + 1\<rparr>) else stream_at k r)"
    "ru_epoch_counter (send_event x ev r) = ru_epoch_counter r"
  using events_sent_emit [OF assms] stream_at_emit [OF assms(1)] assms(1) by (simp_all add: send_event_def)

lemma send_events_effect:
  assumes "stream_at (Some x) r = Some s" "1 \<le> st_next_sequence s"
  shows "events_sent e (fold (send_event x) evs r) = events_sent e r @ (if e = st_epoch s then evs else [])"
    "\<exists>u. stream_at (Some x) (fold (send_event x) evs r) = Some u \<and> st_epoch u = st_epoch s \<and> st_buffer u = st_buffer s"
    "y \<noteq> x \<Longrightarrow> stream_at (Some y) (fold (send_event x) evs r) = stream_at (Some y) r"
    "ru_epoch_counter (fold (send_event x) evs r) = ru_epoch_counter r"
proof -
  have "events_sent e (fold (send_event x) evs r) = events_sent e r @ (if e = st_epoch s then evs else []) \<and>
    (\<exists>u. stream_at (Some x) (fold (send_event x) evs r) = Some u \<and> st_epoch u = st_epoch s \<and> st_buffer u = st_buffer s) \<and>
    (y \<noteq> x \<longrightarrow> stream_at (Some y) (fold (send_event x) evs r) = stream_at (Some y) r) \<and>
    ru_epoch_counter (fold (send_event x) evs r) = ru_epoch_counter r"
    using assms
  proof (induction evs arbitrary: r s)
    case (Cons ev evs)
    let ?s = "s\<lparr>st_next_sequence := st_next_sequence s + 1\<rparr>"
    have "stream_at (Some x) (send_event x ev r) = Some ?s" using send_event_effect(2) [OF Cons.prems] by simp
    from Cons.IH [OF this] show ?case using send_event_effect [OF Cons.prems] by simp
  qed simp
  then show "events_sent e (fold (send_event x) evs r) = events_sent e r @ (if e = st_epoch s then evs else [])"
    "\<exists>u. stream_at (Some x) (fold (send_event x) evs r) = Some u \<and> st_epoch u = st_epoch s \<and> st_buffer u = st_buffer s"
    "y \<noteq> x \<Longrightarrow> stream_at (Some y) (fold (send_event x) evs r) = stream_at (Some y) r"
    "ru_epoch_counter (fold (send_event x) evs r) = ru_epoch_counter r" by simp_all
qed

lemma carried_session_finish:
  assumes ok: "runtime_ok mf r" and c: "carried r g"
  shows "carried (establish_session_finish env cor x (Inr snapshot) r) g"
proof (cases "stream_at (Some x) r")
  case (Some s)
  let ?t = "s\<lparr>st_buffering := False, st_buffer := []\<rparr>"
  let ?u = "?t\<lparr>st_next_sequence := st_next_sequence s + 1\<rparr>"
  define q where "q = emit (Some x) cor (UpRuntimeSnapshot (runtime_snapshot_to_proto env snapshot)) (put_runtime_stream (Some x) ?t r)"
  have n: "1 \<le> st_next_sequence s" using stream_okD [OF ok Some] by (simp add: stream_ok_def)
  have t: "stream_at (Some x) (put_runtime_stream (Some x) ?t r) = Some ?t" by simp
  have q: "stream_at k q = (if k = Some x then Some ?u else stream_at k r)"
    "ru_epoch_counter q = ru_epoch_counter r" "events_sent e q = events_sent e r" for k e
    using stream_at_emit [OF t] events_sent_emit [OF t] n by (simp_all add: q_def)
  have res: "establish_session_finish env cor x (Inr snapshot) r = fold (send_event x) (st_buffer s) q"
    using Some by (simp add: establish_session_finish_def q_def)
  have u: "stream_at (Some x) q = Some ?u" "1 \<le> st_next_sequence ?u" using q(1) by simp_all
  note fx = send_events_effect [OF u]
  obtain v where v: "stream_at (Some x) (fold (send_event x) (st_buffer s) q) = Some v" "st_epoch v = st_epoch s" "st_buffer v = []"
    using fx(2) [of "st_buffer s"] by auto
  have "carried (fold (send_event x) (st_buffer s) q) (g(st_epoch s := g (st_epoch s) @ []))"
    by (rule carried_update [OF ok c Some _ v(1,2), where evs = "st_buffer s"])
      (use fx q v(3) carriedD [OF c Some] in simp_all)
  then show ?thesis by (simp add: res)
qed (use c in \<open>simp add: establish_session_finish_def\<close>)

lemma carried_dispatch:
  assumes ok: "runtime_ok mf r" and c: "carried r g"
  shows "carried (dispatch_domain_event env key queue e r) (given_to env key queue e r g)"
proof (cases "domain_event_to_proto env e")
  case (Some ev0)
  let ?x = "slot_of key"
  let ?ev = "with_queue queue ev0"
  let ?r1 = "keep_or_send (Some ?x) (send_event ?x ?ev) ?ev r"
  have r1: "carried ?r1 (given_to env key queue e r g)"
  proof (cases "stream_at (Some ?x) r")
    case None
    then show ?thesis using c by (simp add: keep_or_send_def given_to_def Some)
  next
    case s: (Some s)
    have g: "g (st_epoch s) = events_sent (st_epoch s) r @ st_buffer s" "st_buffering s \<or> st_buffer s = []"
      using carriedD [OF c s] by simp_all
    have n: "1 \<le> st_next_sequence s" using stream_okD [OF ok s] by (simp add: stream_ok_def)
    have gv: "given_to env key queue e r g = g(st_epoch s := g (st_epoch s) @ [?ev])" by (simp add: given_to_def Some s)
    show ?thesis
    proof (cases "st_buffering s")
      case True
      then show ?thesis unfolding gv
        using carried_update [OF ok c s, where r' = ?r1 and evs = "[]" and added = "[?ev]" and s' = "s\<lparr>st_buffer := st_buffer s @ [?ev]\<rparr>"] s g
        by (simp add: keep_or_send_def)
    next
      case False
      then show ?thesis unfolding gv
        using carried_update [OF ok c s, where r' = ?r1 and evs = "[?ev]" and added = "[?ev]" and s' = "s\<lparr>st_next_sequence := st_next_sequence s + 1\<rparr>"]
          send_event_effect [OF s n] s g
        by (simp add: keep_or_send_def)
    qed
  qed
  have "eventless ?r1 (keep_or_send None (flush_list_event [] ?ev) ?ev ?r1)"
    by (simp add: keep_or_send_def eventless_list eventless_flush split: option.split)
  then show ?thesis using r1 carried_eventless [OF r1]
    by (simp add: dispatch_domain_event_def Some Let_def split: dm_event.split)
qed (use c in \<open>simp add: dispatch_domain_event_def given_to_def\<close>)

lemma carried_move:
  assumes "runtime_move env False r r'" "runtime_ok False r" "stream_slots_ok r" "carried r g"
  shows "carried r' g"
  using assms(1)
proof cases
  case (begin_stream k upstream_id i epoch)
  then show ?thesis using carried_begin [OF assms(2,4)] by blast
next
  case (session_done correlation x snapshot)
  then show ?thesis using carried_session_finish [OF assms(2,4)] by simp
next
  case (unsubscribe i)
  then show ?thesis using carried_eventless [OF assms(4) eventless_unsubscribe [OF assms(3)]] by simp
next
  case (list_done correlation summaries)
  then show ?thesis using carried_eventless [OF assms(4) eventless_list_finish] by simp
next
  case (confirm x changed snapshot)
  then show ?thesis using assms(4) carried_eventless [OF assms(4) eventless_emit]
    by (simp add: confirm_snapshot_def split: option.split)
next
  case (refresh started summaries)
  then show ?thesis using assms(4) carried_eventless [OF assms(4) eventless_emit]
    by (simp add: refresh_list_summary_def split: option.split)
next
  case (subscribed correlation i epoch)
  have "eventless r r'" by (simp add: subscribed eventless_def send_subscribed_def events_sent_def numbered_def)
  then show ?thesis using carried_eventless [OF assms(4)] by blast
next
  case (connection correlation payload)
  have "eventless r r'" by (simp add: connection eventless_def send_connection_def events_sent_def numbered_def)
  then show ?thesis using carried_eventless [OF assms(4)] by blast
qed simp

lemma runtime_run_carried: "runtime_run env False r g \<Longrightarrow> carried r g"
proof (induction rule: runtime_run.induct)
  case start
  show ?case by (simp add: carried_def events_sent_def numbered_def stream_at_def split: option.split) (simp add: runtime_streams_new_def)
next
  case (move r g r')
  then show ?case using carried_move runtime_run_ok by blast
next
  case (event r g key queue e)
  then show ?case using carried_dispatch runtime_run_ok by blast
qed



section \<open>Reading output page by page\<close>

text \<open>A reader that follows the cursors; \<open>None\<close> when it has not come to an end.\<close>

fun read_output :: "nat \<Rightarrow> (string \<Rightarrow> bridge_error + string \<times> bytes \<times> bool) \<Rightarrow> string \<Rightarrow> (bridge_error + bytes \<times> bool) option" where
  "read_output 0 q cursor = None"
| "read_output (Suc n) q cursor = (case q cursor of
     Inl e \<Rightarrow> Some (Inl e)
   | Inr (next_cursor, chunk, final) \<Rightarrow>
       if next_cursor = [] then Some (Inr (chunk, final))
       else (case read_output n q next_cursor of
         Some (Inr (rest, final')) \<Rightarrow> Some (Inr (chunk @ rest, final'))
       | other \<Rightarrow> other))"

text \<open>The output a query finds: what the runtime kept, or else what the adapter has.\<close>

definition available_output :: "session_key \<Rightarrow> wire_item_id \<Rightarrow> runtime_caches \<Rightarrow> adapter \<Rightarrow> (bytes \<times> bool) option" where
  "available_output k i c a = (case map_of (rk_outputs c) (slot_of k, wi_id i) of
     Some b \<Rightarrow> Some (ob_data b, ob_is_final b)
   | None \<Rightarrow> Option.bind (map_of (ca_sessions a) (sk_native_session_id k)) (\<lambda>rt.
       case map_of (sm_items (rn_mapper rt)) (track_key \<lparr>ii_id = wi_id i, ii_synthetic = wi_synthetic i\<rparr>) of
         None \<Rightarrow> None
       | Some t \<Rightarrow> if is_output_item (tk_native_type t) \<and> tk_output_present t then Some (tk_output t, status_is_terminal (tk_status t)) else None))"

definition output_page_limit :: "nat \<Rightarrow> nat" where
  "output_page_limit page_size = (if page_size = 0 then OUTPUT_PAGE_MAX else min page_size OUTPUT_PAGE_MAX)"

definition output_slice :: "nat \<Rightarrow> nat \<Rightarrow> bytes \<Rightarrow> bytes" where
  "output_slice offset limit d = (let start = min offset (length d); stop = min (start + limit) (length d) in take (stop - start) (drop start d))"

lemma output_page_at:
  assumes k: "sk_agent_kind k = CodexDesktop" and d: "available_output k i c a = Some (d, final)"
  shows "query_command_output_page (Some k) (Some i) cursor page_size c a =
    (let offset = unwrap_or 0 (parse_usize cursor); stop = min (min offset (length d) + output_page_limit page_size) (length d)
     in Inr (if stop < length d then show_nat stop else [], output_slice offset (output_page_limit page_size) d, final \<and> length d \<le> stop))"
proof -
  have page: "adapter_output_page k \<lparr>ii_id = wi_id i, ii_synthetic = wi_synthetic i\<rparr> offset limit a = Some (output_slice offset limit d, length d, final)"
    if "map_of (rk_outputs c) (slot_of k, wi_id i) = None" for offset limit
    using d that by (auto simp: available_output_def adapter_output_page_def output_page_def output_slice_def Let_def
        bind_eq_Some_conv split: option.split_asm if_split_asm)
  have len: "min offset (length d) + length (output_slice offset limit d) = min (min offset (length d) + limit) (length d)" for offset limit
    by (simp add: output_slice_def Let_def)
  show ?thesis
  proof (cases "map_of (rk_outputs c) (slot_of k, wi_id i)")
    case None
    then show ?thesis using k page [OF None]
      by (simp add: query_command_output_page_def output_page_limit_def [symmetric] Let_def len)
        (simp add: output_slice_def Let_def)
  next
    case (Some b)
    then have "d = ob_data b" "final = ob_is_final b" using d by (simp_all add: available_output_def)
    then show ?thesis using k Some len
      by (simp add: query_command_output_page_def output_page_limit_def [symmetric] Let_def output_slice_def)
  qed
qed

lemma read_output_from:
  assumes "sk_agent_kind k = CodexDesktop" "available_output k i c a = Some (d, final)" "length d < 2 ^ 64"
    and "parse_usize cursor = Some n \<or> parse_usize cursor = None \<and> n = 0" "n \<le> length d" "length d - n < fuel"
  shows "read_output fuel (\<lambda>cur. query_command_output_page (Some k) (Some i) cur page_size c a) cursor = Some (Inr (drop n d, final))"
  using assms(4-6)
proof (induction fuel arbitrary: cursor n)
  case (Suc fuel)
  define m where "m = min (n + output_page_limit page_size) (length d)"
  have lim: "1 \<le> output_page_limit page_size" by (simp add: output_page_limit_def OUTPUT_PAGE_MAX_def)
  have off: "unwrap_or 0 (parse_usize cursor) = n" using Suc.prems(1) by auto
  have q: "query_command_output_page (Some k) (Some i) cursor page_size c a =
      Inr (if m < length d then show_nat m else [], take (m - n) (drop n d), final \<and> length d \<le> m)"
    using output_page_at [OF assms(1,2), of cursor page_size] Suc.prems(2) by (simp add: off m_def Let_def min_absorb1 output_slice_def)
  show ?case
  proof (cases "m < length d")
    case False
    then have "m = length d" by (simp add: m_def)
    then show ?thesis using q by simp
  next
    case True
    have m: "n < m" "m \<le> length d" using True lim by (auto simp: m_def)
    have p: "parse_usize (show_nat m) = Some m" using parse_usize_show [of m] True assms(3) by simp
    have "read_output fuel (\<lambda>cur. query_command_output_page (Some k) (Some i) cur page_size c a) (show_nat m) = Some (Inr (drop m d, final))"
      using Suc.IH [of "show_nat m" m] p m Suc.prems(3) by simp
    moreover have "take (m - n) (drop n d) @ drop m d = drop n d"
      using m(1) append_take_drop_id [of "m - n" "drop n d"] by simp
    ultimately show ?thesis using q True show_nat_nonempty [of m] by simp
  qed
qed simp

text \<open>
  C25. The pages of an output are the output. For whatever page size, a reader that starts without a cursor and follows
  the cursors of the pages comes to an end after at most one page more than the output has bytes, has then read
  exactly the output the bridge has, and is told on the last page whether that output is complete.
\<close>

theorem output_pages_are_the_output:
  assumes "sk_agent_kind k = CodexDesktop" "available_output k i c a = Some (d, final)" "length d < 2 ^ 64" "length d < fuel"
  shows "read_output fuel (\<lambda>cur. query_command_output_page (Some k) (Some i) cur page_size c a) [] = Some (Inr (d, final))"
  using read_output_from [OF assms(1-3), of "[]" 0 fuel page_size] assms(4) by (simp add: parse_usize_def)

text \<open>The buffers stay within their bound.\<close>

definition outputs_bounded :: "runtime_caches \<Rightarrow> bool" where
  "outputs_bounded c \<longleftrightarrow> (\<forall>b \<in> set (rk_outputs c). length (ob_data (snd b)) \<le> OUTPUT_BUFFER_MAX)"

lemma outputs_bounded_put: "length (ob_data v) \<le> OUTPUT_BUFFER_MAX \<Longrightarrow> outputs_bounded c \<Longrightarrow> outputs_bounded (put_buffer k v c)"
proof -
  have "set (AList.update k v l) \<subseteq> insert (k, v) (set l)" for l :: "((slot \<times> string) \<times> output_buffer) list"
    by (induction l) auto
  then show "length (ob_data v) \<le> OUTPUT_BUFFER_MAX \<Longrightarrow> outputs_bounded c \<Longrightarrow> outputs_bounded (put_buffer k v c)"
    unfolding outputs_bounded_def put_buffer_def by fastforce
qed

lemma outputs_bounded_found: "outputs_bounded c \<Longrightarrow> map_of (rk_outputs c) k = Some b \<Longrightarrow> length (ob_data b) \<le> OUTPUT_BUFFER_MAX"
  unfolding outputs_bounded_def by (fastforce dest: map_of_SomeD)

lemma outputs_bounded_buffer: "outputs_bounded c \<Longrightarrow> length (ob_data (buffer_of k c)) \<le> OUTPUT_BUFFER_MAX"
  using outputs_bounded_found [of c k] by (cases "map_of (rk_outputs c) k") (simp_all add: buffer_of_def output_buffer_default_def)

lemma outputs_bounded_noted: "outputs_bounded c \<Longrightarrow> outputs_bounded (note_output_event x e c)"
proof (cases e)
  case (DmOutputAppend i offset data ch)
  assume c: "outputs_bounded c"
  show ?thesis using outputs_bounded_buffer [OF c, of "(x, ii_id i)"]
    by (simp add: DmOutputAppend Let_def outputs_bounded_put [OF _ c])
next
  case (DmOutputReplace i revision data ch)
  assume c: "outputs_bounded c"
  show ?thesis by (simp add: DmOutputReplace outputs_bounded_put [OF _ c])
next
  case (DmOutputFinal i revision len ch unavailable)
  assume c: "outputs_bounded c"
  show ?thesis using outputs_bounded_found [OF c] outputs_bounded_put [OF _ c] c
    by (simp add: DmOutputFinal split: option.split)
qed simp_all

lemma output_buffers_bounded: "outputs_bounded c \<Longrightarrow> outputs_bounded (note_event key e c)"
  unfolding note_event_def Let_def by (rule outputs_bounded_noted) (simp add: outputs_bounded_def put_cache_def)

section \<open>Examples\<close>

definition ex_run_key :: session_key where
  "ex_run_key = \<lparr>sk_device_id = ''d'', sk_agent_kind = CodexDesktop, sk_native_session_id = ''n'', sk_relay_session_uuid = None\<rparr>"

definition ex_removed :: "string \<Rightarrow> dm_event" where
  "ex_removed i = DmPendingAttentionRemoved UserQuestion i None"

definition ex_up_event :: "string \<Rightarrow> up_event" where
  "ex_up_event i = (timestamp_to_proto ex_wire_env (we_now ex_wire_env), WePendingAttentionRemoved 1 i None)"

lemma ex_removed_event: "domain_event_to_proto ex_wire_env (ex_removed i) = Some (ex_up_event i)"
  by (simp add: domain_event_to_proto_def ex_removed_def ex_up_event_def opt_turn_id_to_proto_def)

lemma ex_with_queue: "with_queue queue (ex_up_event i) = ex_up_event i"
  by (simp add: with_queue_def ex_up_event_def)

lemma ex_dispatch: "dispatch_domain_event ex_wire_env key queue (ex_removed i) r =
   keep_or_send (Some (slot_of key)) (send_event (slot_of key) (ex_up_event i)) (ex_up_event i) r"
  by (simp add: dispatch_domain_event_def ex_removed_event ex_with_queue Let_def) (simp add: ex_removed_def)

lemma ex_given_to: "given_to ex_wire_env key queue (ex_removed i) r g = (case stream_at (Some (slot_of key)) r of
   Some s \<Rightarrow> g(st_epoch s := g (st_epoch s) @ [ex_up_event i]) | None \<Rightarrow> g)"
  by (simp add: given_to_def ex_removed_event ex_with_queue split: option.split)

text \<open>A session is opened, an event comes before the snapshot, one after it.\<close>

definition ex_opening :: runtime_streams where
  "ex_opening = fst (establish_begin (Some (CodexDesktop, ''n'')) (Some ''u'') runtime_streams_new)"

definition ex_kept :: runtime_streams where
  "ex_kept = dispatch_domain_event ex_wire_env ex_run_key None (ex_removed ''a'') ex_opening"

definition ex_opened :: runtime_streams where
  "ex_opened = dispatch_domain_event ex_wire_env ex_run_key None (ex_removed ''b'')
     (establish_session_finish ex_wire_env ''c'' (CodexDesktop, ''n'') (Inr ex_wire_snapshot) ex_kept)"

definition ex_given :: given_events where
  "ex_given = (given_to ex_wire_env ex_run_key None (ex_removed ''b'')
     (establish_session_finish ex_wire_env ''c'' (CodexDesktop, ''n'') (Inr ex_wire_snapshot) ex_kept)
     (given_to ex_wire_env ex_run_key None (ex_removed ''a'') ex_opening (\<lambda>_. [])))"

lemma ex_opening_run: "runtime_run ex_wire_env False ex_opening (\<lambda>_. [])"
proof -
  obtain i e where "establish_begin (Some (CodexDesktop, ''n'')) (Some ''u'') runtime_streams_new = (ex_opening, i, e)"
    unfolding ex_opening_def by (metis prod.collapse)
  then show ?thesis by (rule runtime_run.move [OF runtime_run.start runtime_move.begin_stream])
qed

lemma ex_opened_run: "runtime_run ex_wire_env False ex_opened ex_given"
  unfolding ex_opened_def ex_given_def ex_kept_def
  by (intro runtime_run.event runtime_run.move [OF _ runtime_move.session_done] ex_opening_run)

lemmas ex_stream_defs = establish_begin_def establish_session_finish_def ex_dispatch ex_given_to keep_or_send_def
  send_event_def emit_def put_runtime_stream_def stream_at_def runtime_streams_new_def slot_of_def ex_run_key_def

lemma ex_kept_state: "ex_kept = \<lparr>ru_epoch_counter = 1, ru_list = None, ru_sessions = [((CodexDesktop, ''n''),
   \<lparr>st_stream_id = ''u'', st_slot = Some (CodexDesktop, ''n''), st_epoch = 1, st_next_sequence = 1, st_buffering = True,
    st_buffer = [ex_up_event ''a'']\<rparr>)], ru_out = []\<rparr>"
  by (simp add: ex_kept_def ex_opening_def ex_stream_defs Let_def)

lemma ex_opened_out: "map (\<lambda>m. (ue_stream_epoch m, ue_sequence m)) (ru_out ex_opened) = [(1, 1), (1, 2), (1, 3)]"
  by (simp add: ex_opened_def ex_kept_state ex_stream_defs Let_def)



text \<open>
  When the snapshot could not be had, the events that were kept back stay where they are while later ones are sent
  from number one on: the relay sees a stream without a gap that lacks them.
\<close>

definition ex_failed :: runtime_streams where
  "ex_failed = dispatch_domain_event ex_wire_env ex_run_key None (ex_removed ''b'')
     (establish_session_finish ex_wire_env ''c'' (CodexDesktop, ''n'') (Inl (bridge_err RateLimited [])) ex_kept)"

lemma failed_snapshot_drops_events:
  "events_sent 1 ex_failed = [ex_up_event ''b''] \<and> map ue_sequence (numbered 1 ex_failed) = [1] \<and>
   map_option st_buffer (stream_at (Some (CodexDesktop, ''n'')) ex_failed) = Some [ex_up_event ''a'']"
  by (simp add: ex_failed_def ex_kept_state ex_stream_defs Let_def events_sent_def numbered_def
      send_runtime_error_def send_connection_def)

text \<open>Pages of two bytes of an output of five.\<close>

definition ex_caches :: runtime_caches where
  "ex_caches = note_event ex_run_key (DmOutputAppend (item_native ''i'') 0 [1, 2, 3, 4, 5] ChCombined) \<lparr>rk_sessions = [], rk_outputs = []\<rparr>"

lemma ex_output: "available_output ex_run_key \<lparr>wi_id = ''i'', wi_synthetic = False\<rparr> ex_caches a = Some ([1, 2, 3, 4, 5], False)"
  by (simp add: available_output_def ex_caches_def note_event_def buffer_of_def put_buffer_def put_cache_def slot_of_def ex_run_key_def
      output_buffer_default_def OUTPUT_BUFFER_MAX_def item_native_def Let_def)

theorem output_pages_are_the_output_witness:
  "read_output 6 (\<lambda>cur. query_command_output_page (Some ex_run_key) (Some \<lparr>wi_id = ''i'', wi_synthetic = False\<rparr>) cur 2 ex_caches ex_adapter) [] =
   Some (Inr ([1, 2, 3, 4, 5], False))"
  using output_pages_are_the_output [OF _ ex_output, of 6 2 ex_adapter] by (simp add: ex_run_key_def)

text \<open>
  An append that does not fit makes an empty buffer, which hides the output the adapter has: a session that was
  opened while a command was running answers with an empty page, without a cursor.
\<close>

lemma late_append_hides_the_output:
  assumes "map_of (rk_outputs c) (slot_of key, ii_id i) = None" "0 < offset" "sk_agent_kind key = CodexDesktop"
  shows "query_command_output_page (Some key) (Some \<lparr>wi_id = ii_id i, wi_synthetic = ii_synthetic i\<rparr>) [] page_size
    (note_event key (DmOutputAppend i offset data ch) c) a = Inr ([], [], False)"
  using assms by (simp add: query_command_output_page_def note_event_def buffer_of_def put_buffer_def put_cache_def
      output_buffer_default_def Let_def parse_usize_def)

section \<open>The schedule\<close>

text \<open>Observation is never faster than twice a second and never slower than once in two minutes.\<close>

lemma next_interval_bounds: "next_interval s p = Some t \<Longrightarrow> 500 \<le> t \<and> t \<le> 120000"
  by (auto simp: next_interval_def DETAIL_RUNNING_OBSERVE_INTERVAL_def LIGHT_STATE_CHECK_INTERVAL_def IDLE_SUMMARY_INTERVAL_def
      BATTERY_SLOWDOWN_def PRESSURE_SLOWDOWN_def MAX_SLOWDOWN_def Let_def split: if_splits)

text \<open>
  A session that was found idle without subscription is parked, and a parked session is known: it is never due again,
  also when its turn becomes active or it is subscribed to.
\<close>

lemma parked_stays_parked:
  assumes "map_of due x = Some None" "observe_tick now ids state_of pressure due = (due', observed)" "distinct (map fst due)"
  shows "map_of due' x = Some None \<and> x \<notin> set observed \<and> distinct (map fst due')"
proof -
  let ?reg = "\<lambda>x d. if map_of d x = None then schedule_register now x d else d"
  have reg: "map_of (fold ?reg ids d) x = Some None \<and> distinct (map fst (fold ?reg ids d))"
    if "map_of d x = Some None" "distinct (map fst d)" for d :: schedule
    using that
  proof (induction ids arbitrary: d)
    case (Cons i ids)
    have "map_of (?reg i d) x = Some None" "distinct (map fst (?reg i d))"
      using Cons.prems by (auto simp: schedule_register_def update_conv' distinct_update)
    then show ?case using Cons.IH by simp
  qed simp
  define d where "d = fold ?reg ids due"
  have d: "map_of d x = Some None" "distinct (map fst d)" using reg [OF assms(1,3)] by (simp_all add: d_def)
  have due': "due' = map (\<lambda>(y, t). (y, if is_due now t
      then map_option ((+) now) (Option.bind (state_of y) (\<lambda>s. next_interval s pressure)) else t)) d"
    and obs: "observed = map fst (filter (\<lambda>(y, t). is_due now t) d)"
    using assms(2) by (auto simp: observe_tick_def take_due_def d_def)
  have "(x, None) \<in> set due'" using map_of_SomeD [OF d(1)] by (force simp: due' is_due_def)
  moreover have keys: "map fst due' = map fst d" by (simp add: due' case_prod_unfold)
  moreover have "x \<notin> set observed"
  proof
    assume "x \<in> set observed"
    then obtain t where t: "(x, t) \<in> set d" "is_due now t" by (auto simp: obs)
    then have "t = None" using d map_of_is_SomeI [OF d(2) t(1)] by simp
    then show False using t(2) by (simp add: is_due_def)
  qed
  ultimately show ?thesis using d(2) by simp
qed

end
