(* ===== verification/Pending.thy ===== *)
theory Pending
  imports Prelude
begin

text \<open>
  The registry of requests waiting for a user's decision (\<open>apps/bridge/src/zcode/pending.rs\<close>) with
  the reply type of its contract (\<open>zcode/contract.rs\<close>). The registry holds its records in a map
  from invoke ids and two \<open>oneshot\<close> channels per record: the reply channel to the waiting helper
  connection and the delivery channel to the command that decided. Channels live in a store of
  their own, because their other ends are held outside the registry and may be dropped at any
  moment. Each operation runs under the registry's lock, so a run is a sequence of operations;
  \<open>now\<close> is the reading of the monotonic clock in the operation, in milliseconds.
\<close>

section \<open>Contract\<close>

record hook_reply =
  hr_status :: string
  hr_message :: "string option"
  hr_option :: "string option"
  hr_text :: "string option"

definition reply_allowed :: hook_reply where
  "reply_allowed = \<lparr>hr_status = ''allowed'', hr_message = None, hr_option = None, hr_text = None\<rparr>"

definition reply_denied :: "string \<Rightarrow> hook_reply" where
  "reply_denied m = \<lparr>hr_status = ''denied'', hr_message = Some m, hr_option = None, hr_text = None\<rparr>"

definition reply_answered :: "string option \<Rightarrow> string option \<Rightarrow> hook_reply" where
  "reply_answered opt txt = \<lparr>hr_status = ''answered'', hr_message = None, hr_option = opt, hr_text = txt\<rparr>"

definition MIN_REMOTE_WAIT_MS :: nat where "MIN_REMOTE_WAIT_MS = 500"
definition MAX_REMOTE_WAIT_MS :: nat where "MAX_REMOTE_WAIT_MS = 45000"

definition clamp_wait_ms :: "nat \<Rightarrow> nat" where
  "clamp_wait_ms requested =
     (if requested < MIN_REMOTE_WAIT_MS then MIN_REMOTE_WAIT_MS
      else if requested > MAX_REMOTE_WAIT_MS then MAX_REMOTE_WAIT_MS else requested)"

record ask_request =
  ar_question :: string
  ar_options :: "string list"
  ar_allow_free_text :: bool
  ar_call_id :: "string option"

section \<open>State\<close>

datatype invoke_kind = PermissionRequest | AskUser

datatype pending_state =
    Waiting | Decided | ReturnedToRuntime | RuntimeProcessed | Expired | HandledLocally

fun is_terminal :: "pending_state \<Rightarrow> bool" where
  "is_terminal ReturnedToRuntime = True"
| "is_terminal RuntimeProcessed = True"
| "is_terminal Expired = True"
| "is_terminal HandledLocally = True"
| "is_terminal _ = False"

datatype pending_error = PeUnknown | PeAlreadyDecided | PeExpired | PeCancelled | PeDuplicate | PeRejected string

datatype delivery_outcome = Delivered | Unconfirmed

text \<open>A \<open>oneshot\<close> channel: open, used, or closed because one end went away before a value was sent.\<close>

datatype 'a oneshot = OsOpen | OsSent 'a | OsClosed

fun os_send :: "'a \<Rightarrow> 'a oneshot \<Rightarrow> 'a oneshot \<times> bool" where
  "os_send v OsOpen = (OsSent v, True)"
| "os_send v ch = (ch, False)"

fun os_drop :: "'a oneshot \<Rightarrow> 'a oneshot" where
  "os_drop OsOpen = OsClosed"
| "os_drop ch = ch"

record pending_record =
  pr_invoke_id :: string
  pr_kind :: invoke_kind
  pr_native_session_id :: "string option"
  pr_tool_name :: "string option"
  pr_tool_use_id :: "string option"
  pr_ask_question :: "string option"
  pr_ask_options :: "string list"
  pr_ask_allow_free_text :: bool
  pr_action_summary :: "string option"
  pr_state :: pending_state
  pr_created_at :: nat
  pr_deadline :: nat
  pr_responder :: "nat option"
  pr_delivery_tx :: "nat option"
  pr_delivery_rx :: "nat option"

record registry =
  rg_inner :: "(string \<times> pending_record) list"
  rg_reply :: "nat \<Rightarrow> hook_reply oneshot"
  rg_delivery :: "nat \<Rightarrow> delivery_outcome oneshot"
  rg_next_chan :: nat

definition registry_new :: registry where
  "registry_new = \<lparr>rg_inner = [], rg_reply = (\<lambda>_. OsClosed), rg_delivery = (\<lambda>_. OsClosed), rg_next_chan = 0\<rparr>"

abbreviation rec_of :: "registry \<Rightarrow> string \<Rightarrow> pending_record option" where
  "rec_of g i \<equiv> map_of (rg_inner g) i"

abbreviation put_rec :: "string \<Rightarrow> pending_record \<Rightarrow> registry \<Rightarrow> registry" where
  "put_rec i r g \<equiv> g\<lparr>rg_inner := AList.update i r (rg_inner g)\<rparr>"

section \<open>Operations\<close>

text \<open>Removing a record drops the channel ends it still holds.\<close>

definition drop_reply :: "nat option \<Rightarrow> registry \<Rightarrow> registry" where
  "drop_reply c g = (case c of None \<Rightarrow> g | Some n \<Rightarrow> g\<lparr>rg_reply := (rg_reply g)(n := os_drop (rg_reply g n))\<rparr>)"

definition drop_delivery :: "nat option \<Rightarrow> registry \<Rightarrow> registry" where
  "drop_delivery c g = (case c of None \<Rightarrow> g | Some n \<Rightarrow> g\<lparr>rg_delivery := (rg_delivery g)(n := os_drop (rg_delivery g n))\<rparr>)"

definition drop_record :: "pending_record \<Rightarrow> registry \<Rightarrow> registry" where
  "drop_record r g = drop_delivery (pr_delivery_rx r) (drop_delivery (pr_delivery_tx r) (drop_reply (pr_responder r) g))"

definition stays :: "nat \<Rightarrow> pending_record \<Rightarrow> bool" where
  "stays now r \<longleftrightarrow> pr_deadline r > now \<or> \<not> is_terminal (pr_state r)"

definition purge :: "nat \<Rightarrow> registry \<Rightarrow> registry" where
  "purge now g =
     (let g1 = fold (drop_record \<circ> snd) (filter (\<lambda>kv. \<not> stays now (snd kv)) (rg_inner g)) g
      in g1\<lparr>rg_inner := retain_values (stays now) (rg_inner g)\<rparr>)"

record reg_args =
  ra_kind :: invoke_kind
  ra_native_session_id :: "string option"
  ra_tool_name :: "string option"
  ra_tool_use_id :: "string option"
  ra_ask :: "ask_request option"
  ra_action_summary :: "string option"
  ra_wait :: nat

definition new_record :: "nat \<Rightarrow> string \<Rightarrow> reg_args \<Rightarrow> nat \<Rightarrow> pending_record" where
  "new_record now i a c = \<lparr>pr_invoke_id = i, pr_kind = ra_kind a, pr_native_session_id = ra_native_session_id a,
     pr_tool_name = ra_tool_name a, pr_tool_use_id = ra_tool_use_id a,
     pr_ask_question = map_option ar_question (ra_ask a),
     pr_ask_options = (case ra_ask a of Some q \<Rightarrow> ar_options q | None \<Rightarrow> []),
     pr_ask_allow_free_text = (case ra_ask a of Some q \<Rightarrow> ar_allow_free_text q | None \<Rightarrow> False),
     pr_action_summary = ra_action_summary a, pr_state = Waiting, pr_created_at = now,
     pr_deadline = now + ra_wait a, pr_responder = Some c, pr_delivery_tx = Some c, pr_delivery_rx = Some c\<rparr>"

definition pend_register :: "nat \<Rightarrow> string \<Rightarrow> reg_args \<Rightarrow> registry \<Rightarrow> registry \<times> (pending_error + nat)" where
  "pend_register now i a g =
     (if rec_of g i \<noteq> None then (g, Inl PeDuplicate)
      else (let g1 = purge now g; c = rg_next_chan g1
            in (put_rec i (new_record now i a c)
                 (g1\<lparr>rg_reply := (rg_reply g1)(c := OsOpen), rg_delivery := (rg_delivery g1)(c := OsOpen),
                     rg_next_chan := c + 1\<rparr>), Inr c)))"

definition pend_resolve :: "nat \<Rightarrow> string \<Rightarrow> hook_reply \<Rightarrow> registry \<Rightarrow> registry \<times> (pending_error + pending_state)" where
  "pend_resolve now i reply g = (case rec_of g i of
     None \<Rightarrow> (g, Inl PeUnknown)
   | Some r \<Rightarrow> (case pr_state r of
       Decided \<Rightarrow> (g, Inl PeAlreadyDecided)
     | Expired \<Rightarrow> (g, Inl PeExpired)
     | HandledLocally \<Rightarrow> (g, Inl PeCancelled)
     | ReturnedToRuntime \<Rightarrow> (g, Inl PeAlreadyDecided)
     | RuntimeProcessed \<Rightarrow> (g, Inl PeAlreadyDecided)
     | Waiting \<Rightarrow>
         if now \<ge> pr_deadline r then (put_rec i (r\<lparr>pr_state := Expired\<rparr>) g, Inl PeExpired)
         else (case pr_responder r of
             None \<Rightarrow> (put_rec i (r\<lparr>pr_state := HandledLocally\<rparr>) g, Inl PeCancelled)
           | Some c \<Rightarrow> (case os_send reply (rg_reply g c) of
               (ch, True) \<Rightarrow> (put_rec i (r\<lparr>pr_responder := None, pr_state := Decided\<rparr>)
                                (g\<lparr>rg_reply := (rg_reply g)(c := ch)\<rparr>), Inr Decided)
             | (ch, False) \<Rightarrow> (put_rec i (r\<lparr>pr_responder := None, pr_state := HandledLocally\<rparr>)
                                (g\<lparr>rg_reply := (rg_reply g)(c := ch)\<rparr>), Inl PeCancelled)))))"

definition take_delivery :: "string \<Rightarrow> registry \<Rightarrow> registry \<times> nat option" where
  "take_delivery i g = (case rec_of g i of
     None \<Rightarrow> (g, None)
   | Some r \<Rightarrow> (put_rec i (r\<lparr>pr_delivery_rx := None\<rparr>) g, pr_delivery_rx r))"

definition complete_delivery :: "string \<Rightarrow> delivery_outcome \<Rightarrow> registry \<Rightarrow> registry \<times> (pending_error + pending_state)" where
  "complete_delivery i outcome g = (case rec_of g i of
     None \<Rightarrow> (g, Inl PeUnknown)
   | Some r \<Rightarrow>
       if pr_state r \<noteq> Decided then (g, Inl PeAlreadyDecided)
       else (let st = (case outcome of Delivered \<Rightarrow> ReturnedToRuntime | Unconfirmed \<Rightarrow> HandledLocally);
                 g1 = (case pr_delivery_tx r of
                         None \<Rightarrow> g
                       | Some c \<Rightarrow> g\<lparr>rg_delivery := (rg_delivery g)(c := fst (os_send outcome (rg_delivery g c)))\<rparr>)
             in (put_rec i (r\<lparr>pr_state := st, pr_delivery_tx := None\<rparr>) g1, Inr st)))"

definition pend_transition :: "string \<Rightarrow> pending_state \<Rightarrow> pending_state \<Rightarrow> registry \<Rightarrow> registry \<times> (pending_error + unit)" where
  "pend_transition i from_st to_st g = (case rec_of g i of
     None \<Rightarrow> (g, Inl PeUnknown)
   | Some r \<Rightarrow> if pr_state r \<noteq> from_st then (g, Inl PeAlreadyDecided)
               else (put_rec i (r\<lparr>pr_state := to_st\<rparr>) g, Inr ()))"

definition mark_runtime_processed :: "string \<Rightarrow> registry \<Rightarrow> registry \<times> (pending_error + unit)" where
  "mark_runtime_processed i g = pend_transition i ReturnedToRuntime RuntimeProcessed g"

definition pend_expire :: "string \<Rightarrow> registry \<Rightarrow> registry \<times> (pending_error + pending_state)" where
  "pend_expire i g = (case rec_of g i of
     None \<Rightarrow> (g, Inl PeUnknown)
   | Some r \<Rightarrow> if pr_state r \<noteq> Waiting then (g, Inl PeAlreadyDecided)
               else (put_rec i (r\<lparr>pr_state := Expired\<rparr>) g, Inr Expired))"

definition expire_or_already_expired :: "string \<Rightarrow> registry \<Rightarrow> registry \<times> bool" where
  "expire_or_already_expired i g = (case rec_of g i of
     Some r \<Rightarrow> (case pr_state r of
         Waiting \<Rightarrow> (put_rec i (r\<lparr>pr_state := Expired\<rparr>) g, True)
       | Expired \<Rightarrow> (put_rec i (r\<lparr>pr_state := Expired\<rparr>) g, True)
       | _ \<Rightarrow> (g, False))
   | None \<Rightarrow> (g, False))"

definition finalize_decided_after_race :: "string \<Rightarrow> registry \<Rightarrow> registry \<times> bool" where
  "finalize_decided_after_race i g = (case rec_of g i of
     Some r \<Rightarrow> if pr_state r = Decided then (put_rec i (r\<lparr>pr_state := Expired\<rparr>) g, True) else (g, False)
   | None \<Rightarrow> (g, False))"

definition pend_cancel :: "string \<Rightarrow> registry \<Rightarrow> registry \<times> (pending_error + pending_state)" where
  "pend_cancel i g = (case rec_of g i of
     None \<Rightarrow> (g, Inl PeUnknown)
   | Some r \<Rightarrow> if pr_state r \<noteq> Waiting then (g, Inl PeAlreadyDecided)
               else (drop_reply (pr_responder r) (put_rec i (r\<lparr>pr_state := HandledLocally, pr_responder := None\<rparr>) g),
                     Inr HandledLocally))"

section \<open>Queries\<close>

record waiting_card =
  wc_invoke_id :: string
  wc_kind :: invoke_kind
  wc_native_session_id :: "string option"
  wc_tool_name :: "string option"
  wc_question :: "string option"
  wc_options :: "string list"
  wc_allow_free_text :: bool
  wc_action_summary :: "string option"

record pending_snapshot =
  ps_invoke_id :: string
  ps_kind :: invoke_kind
  ps_state :: pending_state
  ps_native_session_id :: "string option"

definition pend_get :: "string \<Rightarrow> registry \<Rightarrow> pending_snapshot option" where
  "pend_get i g = map_option (\<lambda>r. \<lparr>ps_invoke_id = pr_invoke_id r, ps_kind = pr_kind r, ps_state = pr_state r,
     ps_native_session_id = pr_native_session_id r\<rparr>) (rec_of g i)"

definition waiting_card_of :: "pending_record \<Rightarrow> waiting_card" where
  "waiting_card_of r = \<lparr>wc_invoke_id = pr_invoke_id r, wc_kind = pr_kind r, wc_native_session_id = pr_native_session_id r,
     wc_tool_name = pr_tool_name r, wc_question = pr_ask_question r, wc_options = pr_ask_options r,
     wc_allow_free_text = pr_ask_allow_free_text r, wc_action_summary = pr_action_summary r\<rparr>"

definition waiting_cards :: "registry \<Rightarrow> waiting_card list" where
  "waiting_cards g =
     sort_key wc_invoke_id (map waiting_card_of (filter (\<lambda>r. pr_state r = Waiting) (map snd (rg_inner g))))"

definition ask_allows_free_text :: "string \<Rightarrow> registry \<Rightarrow> bool option" where
  "ask_allows_free_text i g = (case rec_of g i of
     None \<Rightarrow> None
   | Some r \<Rightarrow> if pr_kind r \<noteq> AskUser then None else Some (pr_ask_allow_free_text r))"

definition find_returned_by_tool_use :: "string \<Rightarrow> registry \<Rightarrow> string option" where
  "find_returned_by_tool_use t g = map_option pr_invoke_id
     (List.find (\<lambda>r. pr_tool_use_id r = Some t \<and> pr_state r = ReturnedToRuntime) (map snd (rg_inner g)))"

definition ask_option_label :: "string \<Rightarrow> string \<Rightarrow> registry \<Rightarrow> string option" where
  "ask_option_label i option_id g = (case rec_of g i of
     None \<Rightarrow> None
   | Some r \<Rightarrow> if pr_kind r \<noteq> AskUser then None
               else (case strip_prefix ''option-'' option_id of
                   None \<Rightarrow> None
                 | Some d \<Rightarrow> (case parse_usize d of
                     None \<Rightarrow> None
                   | Some n \<Rightarrow> if n = 0 then None
                              else if n - 1 < length (pr_ask_options r) then Some (pr_ask_options r ! (n - 1)) else None)))"

section \<open>What an operation does to the records\<close>

text \<open>The reply and delivery stores are the only other state; dropping ends never touches records.\<close>

lemma drop_keeps_inner [simp]:
  "rg_inner (drop_reply c g) = rg_inner g" "rg_inner (drop_delivery c g) = rg_inner g"
  "rg_inner (drop_record r g) = rg_inner g"
  by (auto simp: drop_record_def drop_reply_def drop_delivery_def split: option.splits)

lemma rec_of_purge:
  "keys_distinct (rg_inner g) \<Longrightarrow>
     rec_of (purge now g) i = (case rec_of g i of Some r \<Rightarrow> if stays now r then Some r else None | None \<Rightarrow> None)"
  by (simp add: purge_def Let_def map_of_retain_values)

lemma purge_inner: "rg_inner (purge now g) = retain_values (stays now) (rg_inner g)"
  by (simp add: purge_def Let_def)

text \<open>The lifecycle of a record: the arrows of the module comment.\<close>

inductive lifecycle :: "pending_state \<Rightarrow> pending_state \<Rightarrow> bool" where
  decide: "lifecycle Waiting Decided"
| timeout: "lifecycle Waiting Expired"
| local: "lifecycle Waiting HandledLocally"
| returned: "lifecycle Decided ReturnedToRuntime"
| unconfirmed: "lifecycle Decided HandledLocally"
| raced: "lifecycle Decided Expired"
| processed: "lifecycle ReturnedToRuntime RuntimeProcessed"

code_pred lifecycle .

inductive_simps lifecycle_from [simp]:
  "lifecycle Waiting s" "lifecycle Decided s" "lifecycle ReturnedToRuntime s" "lifecycle RuntimeProcessed s"
  "lifecycle Expired s" "lifecycle HandledLocally s"

lemma lifecycle_no_return: "lifecycle\<^sup>+\<^sup>+ s t \<Longrightarrow> t \<noteq> Waiting \<and> s \<noteq> t"
proof -
  define rank where "rank = (\<lambda>st. case st of Waiting \<Rightarrow> 0 | Decided \<Rightarrow> 1 | ReturnedToRuntime \<Rightarrow> 2 | _ \<Rightarrow> (3::nat))"
  have up: "lifecycle a b \<Longrightarrow> rank a < rank b" for a b
    by (erule lifecycle.cases) (simp_all add: rank_def)
  assume "lifecycle\<^sup>+\<^sup>+ s t"
  then have "rank s < rank t"
    by (induction rule: tranclp_induct) (auto dest: up)
  then show ?thesis by (auto simp: rank_def)
qed

datatype pend_op =
    PRegister nat string reg_args
  | PResolve nat string hook_reply
  | PTakeDelivery string
  | PComplete string delivery_outcome
  | PMarkProcessed string
  | PExpire string
  | PExpireOr string
  | PFinalizeRace string
  | PCancel string
  | PReplyRxDrop nat
  | PDeliveryRxDrop nat

text \<open>
  One step of the registry. The last two are the environment's: a helper connection or a waiting
  command goes away and its end of the channel is dropped.
\<close>

fun pend_step :: "registry \<Rightarrow> pend_op \<Rightarrow> registry" where
  "pend_step g (PRegister now i a) = fst (pend_register now i a g)"
| "pend_step g (PResolve now i r) = fst (pend_resolve now i r g)"
| "pend_step g (PTakeDelivery i) = fst (take_delivery i g)"
| "pend_step g (PComplete i out) = fst (complete_delivery i out g)"
| "pend_step g (PMarkProcessed i) = fst (mark_runtime_processed i g)"
| "pend_step g (PExpire i) = fst (pend_expire i g)"
| "pend_step g (PExpireOr i) = fst (expire_or_already_expired i g)"
| "pend_step g (PFinalizeRace i) = fst (finalize_decided_after_race i g)"
| "pend_step g (PCancel i) = fst (pend_cancel i g)"
| "pend_step g (PReplyRxDrop c) = drop_reply (Some c) g"
| "pend_step g (PDeliveryRxDrop c) = drop_delivery (Some c) g"

lemmas pend_ops = pend_register_def pend_resolve_def take_delivery_def complete_delivery_def
  mark_runtime_processed_def pend_transition_def pend_expire_def expire_or_already_expired_def
  finalize_decided_after_race_def pend_cancel_def Let_def

definition reg_ok :: "registry \<Rightarrow> bool" where
  "reg_ok g \<longleftrightarrow> keys_distinct (rg_inner g) \<and>
     (\<forall>i r. rec_of g i = Some r \<longrightarrow> pr_invoke_id r = i \<and>
        (pr_state r = Waiting \<longrightarrow> pr_responder r \<noteq> None) \<and>
        (pr_state r \<in> {Waiting, Decided} \<longrightarrow> pr_delivery_tx r \<noteq> None))"

text \<open>What one operation may do to the record of an id.\<close>

definition rec_step :: "registry \<Rightarrow> pend_op \<Rightarrow> string \<Rightarrow> registry \<Rightarrow> bool" where
  "rec_step g x i g' = (case (rec_of g i, rec_of g' i) of
     (None, None) \<Rightarrow> True
   | (None, Some r') \<Rightarrow> (\<exists>now a. x = PRegister now i a) \<and> pr_state r' = Waiting
   | (Some r, None) \<Rightarrow> (\<exists>now j a. x = PRegister now j a \<and> pr_deadline r \<le> now) \<and> is_terminal (pr_state r)
   | (Some r, Some r') \<Rightarrow> pr_deadline r' = pr_deadline r \<and> pr_kind r' = pr_kind r \<and>
        pr_ask_options r' = pr_ask_options r \<and> (pr_state r' = pr_state r \<or> lifecycle (pr_state r) (pr_state r')))"

lemma drop_reply_keeps_rec_step: "rec_step g x i (drop_reply c g') = rec_step g x i g'"
  by (simp add: rec_step_def)

lemma rec_step_same [simp]: "rec_step g x i g"
  by (simp add: rec_step_def split: option.splits)

lemma rec_step_register:
  assumes "reg_ok g"
  shows "rec_step g (PRegister now j a) i (pend_step g (PRegister now j a))"
proof (cases "rec_of g j")
  case None
  have kd: "keys_distinct (rg_inner g)" using assms by (simp add: reg_ok_def)
  have inner: "rg_inner (pend_step g (PRegister now j a)) =
      AList.update j (new_record now j a (rg_next_chan (purge now g))) (retain_values (stays now) (rg_inner g))"
    using None by (simp add: pend_register_def Let_def purge_inner)
  show ?thesis
  proof (cases "i = j")
    case True
    then show ?thesis using None inner by (simp add: rec_step_def new_record_def)
  next
    case False
    then show ?thesis using inner map_of_retain_values [OF kd, of "stays now" i]
      by (auto simp: rec_step_def stays_def split: option.splits)
  qed
qed (simp add: pend_register_def)

lemma rec_step_pend_step:
  assumes "reg_ok g"
  shows "rec_step g x i (pend_step g x)"
proof (cases x)
  case (PRegister now j a)
  then show ?thesis using rec_step_register [OF assms] by simp
next
  case (PResolve now j r)
  then show ?thesis
    by (auto simp: pend_resolve_def rec_step_def split: option.splits pending_state.splits prod.splits bool.splits)
next
  case (PComplete j out)
  then show ?thesis
    by (auto simp: complete_delivery_def Let_def rec_step_def split: option.splits delivery_outcome.splits)
qed (auto simp: pend_ops drop_reply_keeps_rec_step rec_step_def split: option.splits pending_state.splits)

lemma reg_ok_put:
  assumes "reg_ok g" "pr_invoke_id r = i" "pr_state r = Waiting \<longrightarrow> pr_responder r \<noteq> None"
    and "pr_state r \<in> {Waiting, Decided} \<longrightarrow> pr_delivery_tx r \<noteq> None"
    and "rg_inner g' = AList.update i r (rg_inner g)"
  shows "reg_ok g'"
  using assms by (auto simp: reg_ok_def)

lemma reg_ok_same: "reg_ok g \<Longrightarrow> rg_inner g' = rg_inner g \<Longrightarrow> reg_ok g'"
  by (simp add: reg_ok_def)

lemma reg_ok_purge: "reg_ok g \<Longrightarrow> reg_ok (purge now g)"
  by (auto simp: reg_ok_def purge_inner map_of_retain_values split: option.splits if_splits)

lemma reg_okD:
  "reg_ok g \<Longrightarrow> rec_of g i = Some r \<Longrightarrow>
     pr_invoke_id r = i \<and> (pr_state r = Waiting \<longrightarrow> pr_responder r \<noteq> None) \<and>
     (pr_state r = Waiting \<or> pr_state r = Decided \<longrightarrow> pr_delivery_tx r \<noteq> None)"
  by (simp add: reg_ok_def)

lemma reg_ok_step:
  assumes "reg_ok g"
  shows "reg_ok (pend_step g x)"
proof (cases x)
  case (PRegister now i a)
  have ok: "reg_ok (put_rec i (new_record now i a c) (purge now g))" for c
    by (rule reg_ok_put [OF reg_ok_purge [OF assms, of now]]) (simp_all add: new_record_def)
  show ?thesis
  proof (cases "rec_of g i")
    case None
    show ?thesis
      by (rule reg_ok_same [OF ok [of "rg_next_chan (purge now g)"]]) (simp add: PRegister None pend_register_def Let_def)
  qed (use assms PRegister in \<open>simp add: pend_register_def\<close>)
next
  case (PResolve now i r)
  then show ?thesis using assms
    by (auto simp: pend_resolve_def reg_ok_def split: option.splits pending_state.splits prod.splits bool.splits if_splits)
next
  case (PComplete i out)
  then show ?thesis using assms
    by (auto simp: complete_delivery_def Let_def reg_ok_def split: option.splits delivery_outcome.splits if_splits)
qed (use assms in \<open>auto simp: pend_ops reg_ok_def split: option.splits pending_state.splits if_splits\<close>)

section \<open>Runs\<close>

text \<open>
  A run with the ids of the successful registrations, decisions, confirmed deliveries and
  processed marks, in order.
\<close>

record pend_trace =
  pt_reg :: registry
  pt_registered :: "string list"
  pt_decided :: "string list"
  pt_returned :: "string list"
  pt_processed :: "string list"

definition pend_start :: pend_trace where
  "pend_start = \<lparr>pt_reg = registry_new, pt_registered = [], pt_decided = [], pt_returned = [], pt_processed = []\<rparr>"

fun registers :: "registry \<Rightarrow> pend_op \<Rightarrow> string list" where
  "registers g (PRegister now i a) = (case snd (pend_register now i a g) of Inr _ \<Rightarrow> [i] | Inl _ \<Rightarrow> [])"
| "registers g _ = []"

fun decides :: "registry \<Rightarrow> pend_op \<Rightarrow> string list" where
  "decides g (PResolve now i r) = (case snd (pend_resolve now i r g) of Inr _ \<Rightarrow> [i] | Inl _ \<Rightarrow> [])"
| "decides g _ = []"

fun returns :: "registry \<Rightarrow> pend_op \<Rightarrow> string list" where
  "returns g (PComplete i out) =
     (case snd (complete_delivery i out g) of Inr st \<Rightarrow> if st = ReturnedToRuntime then [i] else [] | Inl _ \<Rightarrow> [])"
| "returns g _ = []"

fun processes :: "registry \<Rightarrow> pend_op \<Rightarrow> string list" where
  "processes g (PMarkProcessed i) = (case snd (mark_runtime_processed i g) of Inr _ \<Rightarrow> [i] | Inl _ \<Rightarrow> [])"
| "processes g _ = []"

definition pt_step :: "pend_trace \<Rightarrow> pend_op \<Rightarrow> pend_trace" where
  "pt_step t x = \<lparr>pt_reg = pend_step (pt_reg t) x,
     pt_registered = pt_registered t @ registers (pt_reg t) x,
     pt_decided = pt_decided t @ decides (pt_reg t) x,
     pt_returned = pt_returned t @ returns (pt_reg t) x,
     pt_processed = pt_processed t @ processes (pt_reg t) x\<rparr>"

definition in_state :: "registry \<Rightarrow> string \<Rightarrow> pending_state \<Rightarrow> nat" where
  "in_state g i st = (case rec_of g i of Some r \<Rightarrow> if pr_state r = st then 1 else 0 | None \<Rightarrow> 0)"

definition pt_ok :: "pend_trace \<Rightarrow> bool" where
  "pt_ok t \<longleftrightarrow> reg_ok (pt_reg t) \<and> (\<forall>i.
     count_list (pt_decided t) i + in_state (pt_reg t) i Waiting \<le> count_list (pt_registered t) i \<and>
     count_list (pt_returned t) i + in_state (pt_reg t) i Decided \<le> count_list (pt_decided t) i \<and>
     count_list (pt_processed t) i + in_state (pt_reg t) i ReturnedToRuntime \<le> count_list (pt_returned t) i)"

text \<open>A record enters a counted state only by the counted event, and leaves it at the next one.\<close>

lemma decides_iff:
  "i \<in> set (decides g x) \<Longrightarrow> in_state g i Waiting = 1 \<and> in_state (pend_step g x) i Waiting = 0 \<and> decides g x = [i]"
  by (cases "(g, x)" rule: decides.cases)
    (auto simp: pend_resolve_def in_state_def split: option.splits pending_state.splits prod.splits bool.splits sum.splits if_splits)

lemma returns_iff:
  "i \<in> set (returns g x) \<Longrightarrow> in_state g i Decided = 1 \<and> in_state (pend_step g x) i Decided = 0 \<and> returns g x = [i]"
  by (cases "(g, x)" rule: returns.cases)
    (auto simp: complete_delivery_def Let_def in_state_def split: option.splits delivery_outcome.splits sum.splits if_splits)

lemma processes_iff:
  "i \<in> set (processes g x) \<Longrightarrow>
     in_state g i ReturnedToRuntime = 1 \<and> in_state (pend_step g x) i ReturnedToRuntime = 0 \<and> processes g x = [i]"
  by (cases "(g, x)" rule: processes.cases)
    (auto simp: mark_runtime_processed_def pend_transition_def in_state_def split: option.splits sum.splits if_splits)

lemma waiting_entered:
  assumes "reg_ok g" "in_state (pend_step g x) i Waiting = 1" "in_state g i Waiting = 0"
  shows "registers g x = [i]"
proof -
  obtain r' where r': "rec_of (pend_step g x) i = Some r'" "pr_state r' = Waiting"
    using assms(2) by (auto simp: in_state_def split: option.splits if_splits)
  note st = rec_step_pend_step [OF assms(1), of x i]
  show ?thesis
  proof (cases "rec_of g i")
    case None
    then obtain now a where "x = PRegister now i a" using st r' by (auto simp: rec_step_def)
    then show ?thesis using None by (simp add: pend_register_def Let_def)
  next
    case (Some r)
    then have "pr_state r \<noteq> Waiting" using assms(3) by (simp add: in_state_def split: if_splits)
    then have "lifecycle (pr_state r) Waiting" using st r' Some by (simp add: rec_step_def)
    then show ?thesis using lifecycle_no_return by blast
  qed
qed

lemma rec_of_register:
  assumes "reg_ok g"
  shows "rec_of (pend_step g (PRegister now j a)) i =
    (if rec_of g j \<noteq> None then rec_of g i
     else if i = j then Some (new_record now j a (rg_next_chan (purge now g)))
     else rec_of (purge now g) i)"
  by (auto simp: pend_register_def Let_def)

lemma in_state_register:
  assumes "reg_ok g" "st \<noteq> Waiting" "in_state (pend_step g (PRegister now j a)) i st = 1"
  shows "in_state g i st = 1"
proof -
  have kd: "keys_distinct (rg_inner g)" using assms(1) by (simp add: reg_ok_def)
  show ?thesis
    using assms(2,3) unfolding in_state_def rec_of_register [OF assms(1)] rec_of_purge [OF kd]
    by (auto simp: new_record_def split: if_splits option.splits)
qed

lemma decided_entered:
  assumes "reg_ok g" "in_state (pend_step g x) i Decided = 1" "in_state g i Decided = 0"
  shows "decides g x = [i]"
proof (cases x)
  case (PRegister now j a)
  then show ?thesis using in_state_register [OF assms(1)] assms by fastforce
next
  case (PResolve now j r)
  then show ?thesis using assms(2,3)
    by (auto simp: pend_resolve_def in_state_def split: option.splits pending_state.splits prod.splits bool.splits if_splits)
next
  case (PComplete j out)
  then show ?thesis using assms(2,3)
    by (auto simp: complete_delivery_def Let_def in_state_def split: option.splits delivery_outcome.splits if_splits)
qed (use assms(2,3) in \<open>auto simp: pend_ops in_state_def split: option.splits pending_state.splits if_splits\<close>)

lemma returned_entered:
  assumes "reg_ok g" "in_state (pend_step g x) i ReturnedToRuntime = 1" "in_state g i ReturnedToRuntime = 0"
  shows "returns g x = [i]"
proof (cases x)
  case (PRegister now j a)
  then show ?thesis using in_state_register [OF assms(1)] assms by fastforce
next
  case (PResolve now j r)
  then show ?thesis using assms(2,3)
    by (auto simp: pend_resolve_def in_state_def split: option.splits pending_state.splits prod.splits bool.splits if_splits)
next
  case (PComplete j out)
  then show ?thesis using assms(2,3)
    by (auto simp: complete_delivery_def Let_def in_state_def split: option.splits delivery_outcome.splits if_splits)
qed (use assms(2,3) in \<open>auto simp: pend_ops in_state_def split: option.splits pending_state.splits if_splits\<close>)

lemma in_state_01: "in_state g i st = 0 \<or> in_state g i st = 1"
  by (auto simp: in_state_def split: option.splits)

text \<open>
  The accounting step shared by the three stages: an event consumes the credit of the record's
  state, and the state is entered only by the event of the stage before.
\<close>

lemma stage_credit:
  assumes "\<And>i. i \<in> set out \<Longrightarrow> before i = 1 \<and> after i = 0 \<and> out = [i]"
    and "\<And>i. after i = 1 \<Longrightarrow> before i = 0 \<Longrightarrow> inn = [i]"
    and "\<And>i. before i = 0 \<or> before i = 1" "\<And>i. after i = 0 \<or> after i = (1::nat)"
  shows "count_list out i + after i \<le> before i + count_list inn i"
proof (cases "i \<in> set out")
  case True
  then show ?thesis using assms(1) [OF True] by simp
next
  case False
  then have "count_list out i = 0" by simp
  then show ?thesis using assms(2,3,4) [of i] by fastforce
qed

lemma pt_ok_step: "pt_ok t \<Longrightarrow> pt_ok (pt_step t x)"
proof -
  assume ok: "pt_ok t"
  then have g: "reg_ok (pt_reg t)" by (simp add: pt_ok_def)
  let ?g = "pt_reg t"
  have 1: "count_list (decides ?g x) i + in_state (pend_step ?g x) i Waiting \<le> in_state ?g i Waiting + count_list (registers ?g x) i" for i
    by (rule stage_credit) (blast dest: decides_iff, blast dest: waiting_entered [OF g], rule in_state_01, rule in_state_01)
  have 2: "count_list (returns ?g x) i + in_state (pend_step ?g x) i Decided \<le> in_state ?g i Decided + count_list (decides ?g x) i" for i
    by (rule stage_credit) (blast dest: returns_iff, blast dest: decided_entered [OF g], rule in_state_01, rule in_state_01)
  have 3: "count_list (processes ?g x) i + in_state (pend_step ?g x) i ReturnedToRuntime
      \<le> in_state ?g i ReturnedToRuntime + count_list (returns ?g x) i" for i
    by (rule stage_credit) (blast dest: processes_iff, blast dest: returned_entered [OF g], rule in_state_01, rule in_state_01)
  have c: "count_list (pt_decided t) i + in_state ?g i Waiting \<le> count_list (pt_registered t) i \<and>
     count_list (pt_returned t) i + in_state ?g i Decided \<le> count_list (pt_decided t) i \<and>
     count_list (pt_processed t) i + in_state ?g i ReturnedToRuntime \<le> count_list (pt_returned t) i" for i
    using ok by (simp add: pt_ok_def)
  show ?thesis unfolding pt_ok_def
  proof (intro conjI allI)
    show "reg_ok (pt_reg (pt_step t x))" using reg_ok_step [OF g] by (simp add: pt_step_def)
  qed (use c 1 2 3 in \<open>simp_all add: pt_step_def\<close>, (smt (verit) add.assoc add.commute add_le_cancel_left le_trans)+)
qed

lemma pt_ok_start: "pt_ok pend_start"
  by (simp add: pt_ok_def pend_start_def registry_new_def reg_ok_def in_state_def)

lemma reg_ok_new: "reg_ok registry_new"
  by (simp add: registry_new_def reg_ok_def)

interpretation registry_m: op_machine_init pend_step reg_ok registry_new
  by unfold_locales (rule reg_ok_step reg_ok_new, assumption?)+

interpretation pending_m: op_machine_init pt_step pt_ok pend_start
  by unfold_locales (rule pt_ok_step pt_ok_start, assumption?)+

section \<open>Properties\<close>

text \<open>
  C2. At most one decision per request: in every run of the registry, whatever the order of
  registrations, decisions, timeouts, cancellations, confirmations and lost connections, an invoke
  id is decided at most as often as it was registered, returned to the runtime at most as often as
  it was decided, and marked processed at most as often as it was returned; and while it waits for
  a decision, one registration is still undecided.
\<close>

theorem at_most_one_decision_per_request:
  "count_list (pt_decided (foldl pt_step pend_start ops)) i + in_state (pt_reg (foldl pt_step pend_start ops)) i Waiting
      \<le> count_list (pt_registered (foldl pt_step pend_start ops)) i \<and>
   count_list (pt_returned (foldl pt_step pend_start ops)) i + in_state (pt_reg (foldl pt_step pend_start ops)) i Decided
      \<le> count_list (pt_decided (foldl pt_step pend_start ops)) i \<and>
   count_list (pt_processed (foldl pt_step pend_start ops)) i + in_state (pt_reg (foldl pt_step pend_start ops)) i ReturnedToRuntime
      \<le> count_list (pt_returned (foldl pt_step pend_start ops)) i"
  using pending_m.reachable_inv [of ops] by (simp add: pt_ok_def)

text \<open>
  A decision succeeds exactly when the request is still waiting, its deadline has not been
  reached and the helper still listens; it then reaches the helper unchanged and the record is
  decided. Otherwise no reply is sent to anyone: late, duplicate and expired decisions are refused.
\<close>

theorem resolve_succeeds_iff_live:
  assumes "pend_resolve now i reply g = (g', res)"
  shows "(res = Inr Decided \<longleftrightarrow> (\<exists>r c. rec_of g i = Some r \<and> pr_state r = Waiting \<and> now < pr_deadline r \<and>
            pr_responder r = Some c \<and> rg_reply g c = OsOpen)) \<and>
    (case res of
       Inr st \<Rightarrow> st = Decided \<and> (\<exists>r c. rec_of g i = Some r \<and> pr_responder r = Some c \<and>
            rg_reply g' = (rg_reply g)(c := OsSent reply) \<and>
            rec_of g' i = Some (r\<lparr>pr_responder := None, pr_state := Decided\<rparr>))
     | Inl e \<Rightarrow> rg_reply g' = rg_reply g) \<and>
    (\<forall>j. j \<noteq> i \<longrightarrow> rec_of g' j = rec_of g j)"
proof (cases "rec_of g i")
  case None
  then show ?thesis using assms by (auto simp: pend_resolve_def)
next
  case (Some r)
  note st = assms [unfolded pend_resolve_def Some option.case]
  show ?thesis
  proof (cases "pr_state r = Waiting \<and> now < pr_deadline r")
    case True
    then show ?thesis
    proof (cases "pr_responder r")
      case (Some c)
      then show ?thesis using True st \<open>rec_of g i = Some r\<close> by (cases "rg_reply g c") (auto simp: fun_upd_idem)
    qed (use True st \<open>rec_of g i = Some r\<close> in auto)
  next
    case False
    then show ?thesis using st Some by (cases "pr_state r") (auto simp: not_less)
  qed
qed

text \<open>
  C30. Every operation moves a record only along the arrows of its lifecycle: a new record is
  waiting; a decided, expired or locally handled one never waits again; deadline, kind and options
  never change; and a record disappears only by a later registration, when it is in a terminal state
  past its deadline.
\<close>

theorem records_follow_lifecycle:
  "rec_step (foldl pend_step registry_new ops) x i (pend_step (foldl pend_step registry_new ops) x)"
  by (rule rec_step_pend_step [OF registry_m.reachable_inv])

text \<open>
  The option ids shown on a question card map back to the option texts: the id of the n-th
  option (counted from 1) yields the n-th option, for every option of a registered question.
\<close>

theorem option_id_round_trip:
  assumes "rec_of g i = Some r" "pr_kind r = AskUser" "n < length (pr_ask_options r)" "n < 2 ^ 64 - 1"
  shows "ask_option_label i (''option-'' @ show_nat (n + 1)) g = Some (pr_ask_options r ! n)"
proof -
  have "parse_usize (show_nat (n + 1)) = Some (n + 1)" using assms(4) by (intro parse_usize_show) simp
  then show ?thesis using assms by (simp add: ask_option_label_def del: append.simps)
qed

lemma waiting_cards_of:
  assumes "reg_ok g"
  shows "sorted (map wc_invoke_id (waiting_cards g)) \<and> distinct (map wc_invoke_id (waiting_cards g)) \<and>
    set (waiting_cards g) = {waiting_card_of r | r. \<exists>i. rec_of g i = Some r \<and> pr_state r = Waiting}"
proof -
  let ?w = "filter (\<lambda>kv. pr_state (snd kv) = Waiting) (rg_inner g)"
  have kd: "keys_distinct (rg_inner g)" using assms by (simp add: reg_ok_def)
  have mem: "kv \<in> set (rg_inner g) \<longleftrightarrow> rec_of g (fst kv) = Some (snd kv)" for kv
    using map_of_eq_Some_iff [OF kd] by simp
  have cards: "waiting_cards g = sort_key wc_invoke_id (map (waiting_card_of \<circ> snd) ?w)"
    by (simp add: waiting_cards_def filter_map comp_def)
  have "map wc_invoke_id (map (waiting_card_of \<circ> snd) ?w) = map fst ?w"
    using reg_okD [OF assms] mem by (auto simp: waiting_card_of_def)
  then have "distinct (map wc_invoke_id (map (waiting_card_of \<circ> snd) ?w))"
    using distinct_map_filter [OF kd] by presburger
  moreover have "mset (map wc_invoke_id (waiting_cards g)) = mset (map wc_invoke_id (map (waiting_card_of \<circ> snd) ?w))"
    unfolding cards by (simp add: multiset.map_comp)
  ultimately have "distinct (map wc_invoke_id (waiting_cards g))" using mset_eq_imp_distinct_iff by blast
  moreover have "set (waiting_cards g) = {waiting_card_of r | r. \<exists>i. rec_of g i = Some r \<and> pr_state r = Waiting}"
    unfolding cards using mem by (force simp: image_iff)
  ultimately show ?thesis by (simp add: waiting_cards_def)
qed

text \<open>
  The cards offered to remote clients are exactly the waiting requests, sorted by invoke id,
  one card per id.
\<close>

theorem waiting_cards_exact:
  "sorted (map wc_invoke_id (waiting_cards (foldl pend_step registry_new ops))) \<and>
   distinct (map wc_invoke_id (waiting_cards (foldl pend_step registry_new ops))) \<and>
   set (waiting_cards (foldl pend_step registry_new ops)) =
     {waiting_card_of r | r. \<exists>i. rec_of (foldl pend_step registry_new ops) i = Some r \<and> pr_state r = Waiting}"
  by (rule waiting_cards_of [OF registry_m.reachable_inv])

definition ex_ask :: reg_args where
  "ex_ask = \<lparr>ra_kind = AskUser, ra_native_session_id = None, ra_tool_name = None, ra_tool_use_id = None,
     ra_ask = Some \<lparr>ar_question = ''go?'', ar_options = [''yes'', ''no''], ar_allow_free_text = False, ar_call_id = None\<rparr>,
     ra_action_summary = None, ra_wait = clamp_wait_ms 100\<rparr>"

lemmas ex_pending = ex_ask_def pend_register_def Let_def purge_def retain_values_def registry_new_def new_record_def
  clamp_wait_ms_def MIN_REMOTE_WAIT_MS_def MAX_REMOTE_WAIT_MS_def

theorem resolve_succeeds_iff_live_witness:
  "snd (pend_resolve 400 ''q'' reply_allowed (pend_step registry_new (PRegister 0 ''q'' ex_ask))) = Inr Decided"
proof -
  obtain g' res where r: "pend_resolve 400 ''q'' reply_allowed (pend_step registry_new (PRegister 0 ''q'' ex_ask)) = (g', res)"
    by fastforce
  from resolve_succeeds_iff_live [OF r] have "res = Inr Decided" by (simp add: ex_pending)
  then show ?thesis using r by simp
qed

theorem option_id_round_trip_witness:
  "ask_option_label ''q'' (''option-'' @ show_nat (1 + 1)) (pend_step registry_new (PRegister 0 ''q'' ex_ask)) = Some ''no''"
  using option_id_round_trip [of "pend_step registry_new (PRegister 0 ''q'' ex_ask)" "''q''"
      "new_record 0 ''q'' ex_ask 0" 1] by (simp add: ex_pending)

end
