(* ===== verification/Ipc_Frame.thy ===== *)
theory Ipc_Frame
  imports Utf8
begin

text \<open>
  Framing of the desktop IPC connection (\<open>apps/bridge/src/adapter/codex/ipc/frame.rs\<close>), the decoding
  part of the read loop and the revision tracker \<open>StreamSync\<close> (\<open>ipc/client.rs\<close>). A frame is a
  little-endian \<open>u32\<close> length and a JSON payload. \<open>serde_json\<close> is not part of the repository: its
  printer \<open>ser\<close>, its parser \<open>parse\<close> and \<open>is_object\<close> are parameters.
\<close>

section \<open>Length prefix\<close>

definition from_le_bytes :: "u8 \<Rightarrow> u8 \<Rightarrow> u8 \<Rightarrow> u8 \<Rightarrow> u32" where
  "from_le_bytes a b c d = word_of_nat (unat a + 256 * unat b + 65536 * unat c + 16777216 * unat d)"

definition put_u32_le :: "u32 \<Rightarrow> bytes" where
  "put_u32_le w = map (\<lambda>i. word_of_nat (unat w div 256 ^ i)) [0..<4]"

lemma put_u32_le_simp:
  "put_u32_le w = [word_of_nat (unat w), word_of_nat (unat w div 256),
     word_of_nat (unat w div 65536), word_of_nat (unat w div 16777216)]"
  by (simp add: put_u32_le_def upt_rec)

lemma length_put_u32_le [simp]: "length (put_u32_le w) = 4"
  by (simp add: put_u32_le_simp)

lemma unat_u8_of_nat: "unat (word_of_nat n :: u8) = n mod 256"
  by (simp add: unat_of_nat)

lemma four_digits:
  assumes "n < 4294967296"
  shows "n mod 256 + 256 * (n div 256 mod 256) + 65536 * (n div 65536 mod 256) + 16777216 * (n div 16777216 mod 256) = (n::nat)"
proof -
  have d: "n div 65536 = n div 256 div 256" "n div 16777216 = n div 256 div 256 div 256"
    by (simp_all add: div_mult2_eq [symmetric])
  have "n div 256 div 256 div 256 < 256" using assms by (simp add: div_mult2_eq [symmetric])
  then have "n div 256 div 256 div 256 mod 256 = n div 256 div 256 div 256" by simp
  moreover have "n div 256 div 256 = n div 256 div 256 mod 256 + 256 * (n div 256 div 256 div 256)"
    "n div 256 = n div 256 mod 256 + 256 * (n div 256 div 256)" "n = n mod 256 + 256 * (n div 256)" by simp_all
  ultimately show ?thesis unfolding d by linarith
qed

lemma byte_digits:
  assumes "a < 256" "b < 256" "c < 256" "d < (256::nat)"
  defines "s \<equiv> a + 256 * b + 65536 * c + 16777216 * d"
  shows "s mod 256 = a" "s div 256 mod 256 = b" "s div 65536 mod 256 = c" "s div 16777216 mod 256 = d" "s < 4294967296"
proof -
  define z y where "z = c + 256 * d" and "y = b + 256 * z"
  have s: "s = a + 256 * y" by (simp add: s_def y_def z_def)
  have "s mod 256 = a" "s div 256 = y" using assms(1) by (simp_all add: s)
  moreover have "y mod 256 = b" "y div 256 = z" using assms(2) by (simp_all add: y_def)
  moreover have "z mod 256 = c" "z div 256 = d" using assms(3) by (simp_all add: z_def)
  moreover have "s div 65536 = s div 256 div 256" "s div 16777216 = s div 256 div 256 div 256"
    by (simp_all add: div_mult2_eq [symmetric])
  ultimately show "s mod 256 = a" "s div 256 mod 256 = b" "s div 65536 mod 256 = c" "s div 16777216 mod 256 = d"
    using assms(4) by simp_all
  show "s < 4294967296" using assms unfolding s_def by linarith
qed

lemma unat_u8_bound: "unat (b :: u8) < 256"
  using unsigned_less [where ?'a = nat, of b] by simp

section \<open>Decoder\<close>

definition DEFAULT_MAX_FRAME_BYTES :: u32 where "DEFAULT_MAX_FRAME_BYTES = 67108864"

datatype frame_error =
    FeTooLarge u32 u32
  | FeZeroLength
  | FeInvalidUtf8
  | FeNotAnObject
  | FeEncode string

record frame_decoder =
  fd_max :: u32
  fd_buf :: bytes
  fd_current_len :: "u32 option"

text \<open>\<open>FrameDecoder::new\<close> asserts a limit of at least 8; a failed assertion is None.\<close>

definition frame_decoder_new :: "u32 \<Rightarrow> frame_decoder option" where
  "frame_decoder_new mx = (if mx \<ge> 8 then Some \<lparr>fd_max = mx, fd_buf = [], fd_current_len = None\<rparr> else None)"

definition check_limit :: "u32 \<Rightarrow> u32 \<Rightarrow> frame_error option" where
  "check_limit mx announced =
     (if announced = 0 then Some FeZeroLength
      else if announced > mx then Some (FeTooLarge announced mx) else None)"

definition announced_len :: "bytes \<Rightarrow> u32" where
  "announced_len b = from_le_bytes (b ! 0) (b ! 1) (b ! 2) (b ! 3)"

definition fd_push :: "bytes \<Rightarrow> frame_decoder \<Rightarrow> frame_decoder \<times> frame_error option" where
  "fd_push chunk d =
     (let d1 = d\<lparr>fd_buf := fd_buf d @ chunk\<rparr>
      in (d1, case fd_current_len d1 of
                Some len \<Rightarrow> check_limit (fd_max d1) len
              | None \<Rightarrow> if length (fd_buf d1) \<ge> 4 then check_limit (fd_max d1) (announced_len (fd_buf d1)) else None))"

text \<open>The payload of a complete frame: text, then JSON, then an object.\<close>

definition decode_payload :: "(bytes \<Rightarrow> 'v option) \<Rightarrow> ('v \<Rightarrow> bool) \<Rightarrow> bytes \<Rightarrow> frame_error + 'v" where
  "decode_payload parse is_object payload =
     (if \<not> utf8_valid payload then Inl FeInvalidUtf8
      else (case parse payload of
          None \<Rightarrow> Inl FeNotAnObject
        | Some v \<Rightarrow> if is_object v then Inr v else Inl FeNotAnObject))"

definition fd_take_payload ::
  "(bytes \<Rightarrow> 'v option) \<Rightarrow> ('v \<Rightarrow> bool) \<Rightarrow> u32 \<Rightarrow> frame_decoder \<Rightarrow> frame_decoder \<times> (frame_error + 'v option)" where
  "fd_take_payload parse is_object len d =
     (if length (fd_buf d) < unat len then (d, Inr None)
      else (let d1 = d\<lparr>fd_buf := drop (unat len) (fd_buf d), fd_current_len := None\<rparr>
            in case decode_payload parse is_object (take (unat len) (fd_buf d)) of
                 Inl e \<Rightarrow> (d1, Inl e)
               | Inr v \<Rightarrow> (d1, Inr (Some v))))"

definition next_frame ::
  "(bytes \<Rightarrow> 'v option) \<Rightarrow> ('v \<Rightarrow> bool) \<Rightarrow> frame_decoder \<Rightarrow> frame_decoder \<times> (frame_error + 'v option)" where
  "next_frame parse is_object d = (case fd_current_len d of
     Some len \<Rightarrow> fd_take_payload parse is_object len d
   | None \<Rightarrow>
       if length (fd_buf d) < 4 then (d, Inr None)
       else (let announced = announced_len (fd_buf d)
             in case check_limit (fd_max d) announced of
                  Some e \<Rightarrow> (d, Inl e)
                | None \<Rightarrow> fd_take_payload parse is_object announced
                            (d\<lparr>fd_buf := drop 4 (fd_buf d), fd_current_len := Some announced\<rparr>)))"

datatype frame_encode_error = FeeTooLarge u32 u32 | FeeSerialize

definition encode_frame :: "('v \<Rightarrow> bytes option) \<Rightarrow> 'v \<Rightarrow> u32 \<Rightarrow> frame_encode_error + bytes" where
  "encode_frame ser v mx = (case ser v of
     None \<Rightarrow> Inl FeeSerialize
   | Some payload \<Rightarrow>
       if payload = [] \<or> length payload > unat mx then Inl (FeeTooLarge (word_of_nat (length payload)) mx)
       else Inr (put_u32_le (word_of_nat (length payload)) @ payload))"

text \<open>
  The inner loop of \<open>reader_loop\<close>: frames until the buffer holds none, or an error. Every returned
  frame leaves the buffer shorter, or clears an announced length, so the loop ends.
\<close>

lemma next_frame_shrinks:
  assumes "next_frame parse is_object d = (d', Inr (Some v))"
  shows "2 * length (fd_buf d') + (case fd_current_len d' of None \<Rightarrow> 0 | Some _ \<Rightarrow> 1)
    < 2 * length (fd_buf d) + (case fd_current_len d of None \<Rightarrow> 0 | Some _ \<Rightarrow> (1::nat))"
  using assms
  by (auto simp: next_frame_def fd_take_payload_def Let_def split: option.splits if_splits sum.splits)

function drain_frames ::
  "(bytes \<Rightarrow> 'v option) \<Rightarrow> ('v \<Rightarrow> bool) \<Rightarrow> frame_decoder \<Rightarrow> frame_decoder \<times> 'v list \<times> frame_error option" where
  "drain_frames parse is_object d = (case next_frame parse is_object d of
     (d', Inl e) \<Rightarrow> (d', [], Some e)
   | (d', Inr None) \<Rightarrow> (d', [], None)
   | (d', Inr (Some v)) \<Rightarrow> (case drain_frames parse is_object d' of (d'', vs, e) \<Rightarrow> (d'', v # vs, e)))"
  by pat_completeness auto
termination
  by (relation "measure (\<lambda>(parse, is_object, d). 2 * length (fd_buf d) + (case fd_current_len d of None \<Rightarrow> 0 | Some _ \<Rightarrow> 1))")
    (auto dest: next_frame_shrinks [OF sym])

declare drain_frames.simps [simp del]

text \<open>The read loop over the chunks the socket delivers; an error ends it.\<close>

fun read_chunks ::
  "(bytes \<Rightarrow> 'v option) \<Rightarrow> ('v \<Rightarrow> bool) \<Rightarrow> frame_decoder \<Rightarrow> bytes list \<Rightarrow> frame_decoder \<times> 'v list \<times> frame_error option" where
  "read_chunks parse is_object d [] = (d, [], None)"
| "read_chunks parse is_object d (c # cs) = (case fd_push c d of
     (d1, Some e) \<Rightarrow> (d1, [], Some e)
   | (d1, None) \<Rightarrow> (case drain_frames parse is_object d1 of
       (d2, vs, Some e) \<Rightarrow> (d2, vs, Some e)
     | (d2, vs, None) \<Rightarrow> (case read_chunks parse is_object d2 cs of (d3, vs', e) \<Rightarrow> (d3, vs @ vs', e))))"

section \<open>Revisions\<close>

datatype stream_change = ScSnapshot u64 | ScPatches u64 u64
datatype stream_decision = TakeSnapshot | ApplyPatch u64 u64 | Resync
record stream_sync = sy_revision :: "u64 option"

definition sync_observe :: "stream_change \<Rightarrow> stream_sync \<Rightarrow> stream_sync \<times> stream_decision" where
  "sync_observe c s = (case c of
     ScSnapshot r \<Rightarrow> (s\<lparr>sy_revision := Some r\<rparr>, TakeSnapshot)
   | ScPatches base r \<Rightarrow>
       if sy_revision s = Some base \<and> r > base then (s\<lparr>sy_revision := Some r\<rparr>, ApplyPatch base r)
       else (s, Resync))"

definition sync_invalidate :: "stream_sync \<Rightarrow> stream_sync" where
  "sync_invalidate s = s\<lparr>sy_revision := None\<rparr>"

section \<open>The stream of frames as a function of the bytes\<close>

text \<open>
  What the bytes received so far mean, independent of how they arrived: the payloads of complete
  frames, an error, and what is left.
\<close>

function split_frames :: "(bytes \<Rightarrow> 'v option) \<Rightarrow> ('v \<Rightarrow> bool) \<Rightarrow> u32 \<Rightarrow> bytes \<Rightarrow> 'v list \<times> (frame_error + bytes)" where
  "split_frames parse is_object mx b =
     (if length b < 4 then ([], Inr b)
      else (case check_limit mx (announced_len b) of
          Some e \<Rightarrow> ([], Inl e)
        | None \<Rightarrow>
            (let n = unat (announced_len b)
             in if length b < 4 + n then ([], Inr b)
                else (case decode_payload parse is_object (take n (drop 4 b)) of
                    Inl e \<Rightarrow> ([], Inl e)
                  | Inr v \<Rightarrow> (case split_frames parse is_object mx (drop (4 + n) b) of (vs, r) \<Rightarrow> (v # vs, r))))))"
  by pat_completeness auto
termination
  by (relation "measure (\<lambda>(parse, is_object, mx, b). length b)") auto

declare split_frames.simps [simp del]

text \<open>The bytes a decoder stands for: an announced length counts as its prefix.\<close>

definition fd_view :: "frame_decoder \<Rightarrow> bytes" where
  "fd_view d = (case fd_current_len d of None \<Rightarrow> fd_buf d | Some n \<Rightarrow> put_u32_le n @ fd_buf d)"

definition fd_ok :: "frame_decoder \<Rightarrow> bool" where
  "fd_ok d \<longleftrightarrow> (case fd_current_len d of None \<Rightarrow> True | Some n \<Rightarrow> check_limit (fd_max d) n = None)"

lemma announced_four: "announced_len (a # b # c # d # r) = from_le_bytes a b c d"
  by (simp add: announced_len_def numeral_2_eq_2 numeral_3_eq_3)

lemma announced_put: "announced_len (put_u32_le n @ b) = n"
proof -
  have "unat n < 4294967296" using unsigned_less [where ?'a = nat, of n] by simp
  note dig = four_digits [OF this]
  show ?thesis
    unfolding put_u32_le_simp append_Cons announced_four from_le_bytes_def unat_u8_of_nat dig by simp
qed

lemma put_announced:
  assumes "4 \<le> length b"
  shows "put_u32_le (announced_len b) @ drop 4 b = b"
proof -
  obtain a0 a1 a2 a3 r where b: "b = a0 # a1 # a2 # a3 # r"
    using assms by (auto simp: numeral_eq_Suc Suc_le_length_iff)
  note dig = byte_digits [OF unat_u8_bound [of a0] unat_u8_bound [of a1] unat_u8_bound [of a2] unat_u8_bound [of a3]]
  have un: "unat (from_le_bytes a0 a1 a2 a3) = unat a0 + 256 * unat a1 + 65536 * unat a2 + 16777216 * unat a3"
    unfolding from_le_bytes_def using dig(5) by (simp only: unat_of_nat len_num0 len_bit0 len_num1) (simp)
  have eq: "word_of_nat x = (w :: u8)" if "x mod 256 = unat w" for x w
    using that by (metis unat_u8_of_nat word_unat_eq_iff)
  show ?thesis
    unfolding b announced_four put_u32_le_simp un dig(1-4) [THEN eq] by simp
qed

section \<open>The decoder computes that function\<close>

text \<open>One call of \<open>next_frame\<close>, in terms of the bytes the decoder stands for.\<close>

definition frame_at :: "u32 \<Rightarrow> bytes \<Rightarrow> (frame_error + nat) option" where
  "frame_at mx b = (if length b < 4 then None
     else (case check_limit mx (announced_len b) of
         Some e \<Rightarrow> Some (Inl e)
       | None \<Rightarrow> (let n = unat (announced_len b) in if length b < 4 + n then None else Some (Inr n))))"

lemma split_frames_at:
  "split_frames parse is_object mx b = (case frame_at mx b of
     None \<Rightarrow> ([], Inr b)
   | Some (Inl e) \<Rightarrow> ([], Inl e)
   | Some (Inr n) \<Rightarrow> (case decode_payload parse is_object (take n (drop 4 b)) of
       Inl e \<Rightarrow> ([], Inl e)
     | Inr v \<Rightarrow> (case split_frames parse is_object mx (drop (4 + n) b) of (vs, r) \<Rightarrow> (v # vs, r))))"
  by (subst split_frames.simps) (auto simp: frame_at_def Let_def split: option.splits)

lemma take_payload_spec:
  assumes "check_limit (fd_max d) n = None" "fd_current_len d = Some n" "fd_view d = b"
  shows "case frame_at (fd_max d) b of
     None \<Rightarrow> fd_take_payload parse is_object n d = (d, Inr None)
   | Some (Inl e) \<Rightarrow> False
   | Some (Inr k) \<Rightarrow> (\<exists>d'. fd_current_len d' = None \<and> fd_max d' = fd_max d \<and> fd_buf d' = drop (4 + k) b \<and>
       fd_take_payload parse is_object n d =
         (d', case decode_payload parse is_object (take k (drop 4 b)) of Inl e \<Rightarrow> Inl e | Inr v \<Rightarrow> Inr (Some v)))"
proof -
  have b: "b = put_u32_le n @ fd_buf d" using assms by (simp add: fd_view_def)
  have "frame_at (fd_max d) b = (if length (fd_buf d) < unat n then None else Some (Inr (unat n)))"
    using assms(1) by (auto simp: frame_at_def b announced_put Let_def)
  then show ?thesis by (auto simp: fd_take_payload_def Let_def b split: sum.splits)
qed

lemma next_frame_spec:
  assumes "fd_ok d"
  shows "case frame_at (fd_max d) (fd_view d) of
     None \<Rightarrow> (\<exists>d'. next_frame parse is_object d = (d', Inr None) \<and> fd_ok d' \<and> fd_max d' = fd_max d \<and> fd_view d' = fd_view d)
   | Some (Inl e) \<Rightarrow> next_frame parse is_object d = (d, Inl e)
   | Some (Inr k) \<Rightarrow> (\<exists>d'. fd_current_len d' = None \<and> fd_max d' = fd_max d \<and> fd_buf d' = drop (4 + k) (fd_view d) \<and>
       next_frame parse is_object d =
         (d', case decode_payload parse is_object (take k (drop 4 (fd_view d))) of Inl e \<Rightarrow> Inl e | Inr v \<Rightarrow> Inr (Some v)))"
proof (cases "fd_current_len d")
  case (Some n)
  then have "check_limit (fd_max d) n = None" using assms by (simp add: fd_ok_def)
  from take_payload_spec [OF this Some refl, of parse is_object] show ?thesis
    using Some assms by (auto simp: next_frame_def split: option.splits sum.splits)
next
  case None
  have view: "fd_view d = fd_buf d" using None by (simp add: fd_view_def)
  show ?thesis
  proof (cases "length (fd_buf d) < 4")
    case True
    then show ?thesis using None assms by (simp add: next_frame_def frame_at_def view)
  next
    case False
    let ?n = "announced_len (fd_buf d)" and ?d = "d\<lparr>fd_buf := drop 4 (fd_buf d), fd_current_len := Some (announced_len (fd_buf d))\<rparr>"
    show ?thesis
    proof (cases "check_limit (fd_max d) ?n")
      case (Some e)
      then show ?thesis using None False by (simp add: next_frame_def frame_at_def view Let_def)
    next
      case ok: None
      have v: "fd_view ?d = fd_buf d" using put_announced [of "fd_buf d"] False by (simp add: fd_view_def)
      have nf: "next_frame parse is_object d = fd_take_payload parse is_object ?n ?d"
        using None False ok by (simp add: next_frame_def Let_def)
      have fok: "fd_ok ?d" using ok by (simp add: fd_ok_def)
      have "fd_max ?d = fd_max d" by simp
      with take_payload_spec [of ?d ?n "fd_buf d" parse is_object] ok v show ?thesis
        unfolding nf view using fok v by (fastforce split: option.splits sum.splits)
    qed
  qed
qed

abbreviation outcome :: "frame_error option \<Rightarrow> bytes \<Rightarrow> frame_error + bytes" where
  "outcome e b \<equiv> (case e of Some x \<Rightarrow> Inl x | None \<Rightarrow> Inr b)"

lemma drain_frames_spec:
  assumes "fd_ok d" "drain_frames parse is_object d = (d', vs, e)"
  shows "split_frames parse is_object (fd_max d) (fd_view d) = (vs, outcome e (fd_view d')) \<and>
    fd_max d' = fd_max d \<and> (e = None \<longrightarrow> fd_ok d')"
  using assms
proof (induction parse is_object d arbitrary: d' vs e rule: drain_frames.induct)
  case (1 parse is_object d)
  note spec = next_frame_spec [OF "1.prems"(1), of parse is_object]
  note eq = "1.prems"(2) [unfolded drain_frames.simps [of parse is_object d]]
  note sf = split_frames_at [of parse is_object "fd_max d" "fd_view d"]
  show ?case
  proof (cases "frame_at (fd_max d) (fd_view d)")
    case None
    then show ?thesis using spec eq sf by auto
  next
    case (Some r)
    show ?thesis
    proof (cases r)
      case (Inl x)
      then show ?thesis using spec eq Some sf by auto
    next
      case (Inr k)
      obtain d1 where d1: "fd_current_len d1 = None" "fd_max d1 = fd_max d" "fd_buf d1 = drop (4 + k) (fd_view d)"
        "next_frame parse is_object d =
          (d1, case decode_payload parse is_object (take k (drop 4 (fd_view d))) of Inl e \<Rightarrow> Inl e | Inr v \<Rightarrow> Inr (Some v))"
        using spec Some Inr by auto
      show ?thesis
      proof (cases "decode_payload parse is_object (take k (drop 4 (fd_view d)))")
        case (Inl x)
        then show ?thesis using eq d1 Some \<open>r = Inr k\<close> sf by auto
      next
        case v: (Inr v)
        obtain vs' where r: "drain_frames parse is_object d1 = (d', vs', e)" "vs = v # vs'"
          using eq d1(4) v by (auto split: prod.splits)
        have "fd_ok d1" "fd_view d1 = drop (4 + k) (fd_view d)" using d1 by (simp_all add: fd_ok_def fd_view_def)
        moreover have "next_frame parse is_object d = (d1, Inr (Some v))" using d1(4) v by simp
        ultimately show ?thesis
          using "1.IH" [of d1 "Inr (Some v)" "Some v" v d' vs' e] r d1 v Some \<open>r = Inr k\<close> sf
          by auto
      qed
    qed
  qed
qed

lemma announced_append: "4 \<le> length b \<Longrightarrow> announced_len (b @ c) = announced_len b"
  by (auto simp: announced_len_def nth_append)

lemma frame_at_append: "frame_at mx b = Some r \<Longrightarrow> frame_at mx (b @ c) = Some r"
  by (auto simp: frame_at_def announced_append Let_def split: if_splits option.splits)

text \<open>Later bytes only continue what is left; an error stands.\<close>

lemma split_frames_append:
  "split_frames parse is_object mx (b @ c) = (case split_frames parse is_object mx b of
     (vs, Inl e) \<Rightarrow> (vs, Inl e)
   | (vs, Inr rest) \<Rightarrow> (case split_frames parse is_object mx (rest @ c) of (vs', r) \<Rightarrow> (vs @ vs', r)))"
proof (induction parse is_object mx b rule: split_frames.induct)
  case (1 parse is_object mx b)
  note sf = split_frames_at [of parse is_object mx b] and sfc = split_frames_at [of parse is_object mx "b @ c"]
  show ?case
  proof (cases "frame_at mx b")
    case None
    then show ?thesis using sf by simp
  next
    case (Some r)
    note ac = frame_at_append [OF Some, of c]
    show ?thesis
    proof (cases r)
      case (Inl e)
      then show ?thesis using sf sfc Some ac by simp
    next
      case (Inr n)
      have len: "4 + n \<le> length b" and n: "n = unat (announced_len b)"
        and ok: "\<not> length b < 4" "check_limit mx (announced_len b) = None"
        using Some Inr by (auto simp: frame_at_def Let_def split: if_splits option.splits)
      have pay: "take n (drop 4 (b @ c)) = take n (drop 4 b)" "drop (4 + n) (b @ c) = drop (4 + n) b @ c"
        using len by simp_all
      have sfc': "split_frames parse is_object mx (b @ c) =
          (case decode_payload parse is_object (take n (drop 4 b)) of
             Inl e \<Rightarrow> ([], Inl e)
           | Inr v \<Rightarrow> (case split_frames parse is_object mx (drop (4 + n) b @ c) of (vs, r) \<Rightarrow> (v # vs, r)))"
        using sfc unfolding ac Inr option.case sum.case pay .
      show ?thesis
      proof (cases "decode_payload parse is_object (take n (drop 4 b))")
        case (Inl e)
        then show ?thesis using sf sfc' Some \<open>r = Inr n\<close> by simp
      next
        case (Inr v)
        have "split_frames parse is_object mx (drop (4 + n) b @ c) =
            (case split_frames parse is_object mx (drop (4 + n) b) of
               (vs, Inl e) \<Rightarrow> (vs, Inl e)
             | (vs, Inr rest) \<Rightarrow> (case split_frames parse is_object mx (rest @ c) of (vs', r) \<Rightarrow> (vs @ vs', r)))"
          using "1.IH" [OF ok n _ Inr] len by simp
        then show ?thesis using sf sfc' Some \<open>r = Inr n\<close> Inr by (auto split: prod.splits sum.splits)
      qed
    qed
  qed
qed

lemma read_chunks_spec:
  assumes "fd_ok d" "read_chunks parse is_object d cs = (d', vs, e)"
    and "split_frames parse is_object (fd_max d) (fd_view d) = ([], Inr (fd_view d))"
  shows "split_frames parse is_object (fd_max d) (fd_view d @ concat cs) = (vs, outcome e (fd_view d'))"
  using assms
proof (induction cs arbitrary: d d' vs e)
  case (Cons c cs)
  obtain d1 pe where push: "fd_push c d = (d1, pe)" by fastforce
  have d1: "d1 = d\<lparr>fd_buf := fd_buf d @ c\<rparr>" using push by (simp add: fd_push_def Let_def)
  have view1: "fd_view d1 = fd_view d @ c" "fd_max d1 = fd_max d" "fd_ok d1"
    using Cons.prems(1) by (auto simp: d1 fd_view_def fd_ok_def split: option.splits)
  show ?case
  proof (cases pe)
    case (Some x)
    then have "fd_current_len d = None" "4 \<le> length (fd_view d1)" "check_limit (fd_max d) (announced_len (fd_view d1)) = Some x"
      using push Cons.prems(1) by (auto simp: fd_push_def Let_def fd_ok_def fd_view_def d1 split: option.splits if_splits)
    then have "split_frames parse is_object (fd_max d) (fd_view d @ c) = ([], Inl x)"
      unfolding view1(1) by (subst split_frames.simps) auto
    then show ?thesis
      using Cons.prems(2) push Some split_frames_append [of parse is_object "fd_max d" "fd_view d @ c" "concat cs"] by auto
  next
    case None
    obtain d2 ws de where drain: "drain_frames parse is_object d1 = (d2, ws, de)" by (metis prod_cases3)
    note ds = drain_frames_spec [OF view1(3) drain, unfolded view1]
    show ?thesis
    proof (cases de)
      case (Some x)
      then show ?thesis
        using Cons.prems(2) push None drain ds split_frames_append [of parse is_object "fd_max d" "fd_view d @ c" "concat cs"]
        by auto
    next
      case no: None
      obtain ws' where rest: "read_chunks parse is_object d2 cs = (d', ws', e)" "vs = ws @ ws'"
        using Cons.prems(2) push None drain no by (auto split: prod.splits)
      have d2: "fd_ok d2" "fd_max d2 = fd_max d"
        "split_frames parse is_object (fd_max d) (fd_view d @ c) = (ws, Inr (fd_view d2))"
        using ds no by simp_all
      have "split_frames parse is_object (fd_max d2) (fd_view d2) = ([], Inr (fd_view d2))"
        using split_frames_append [of parse is_object "fd_max d" "fd_view d @ c" "[]"] d2 by (auto split: prod.splits)
      from Cons.IH [OF d2(1) rest(1) this] show ?thesis
        using split_frames_append [of parse is_object "fd_max d" "fd_view d @ c" "concat cs"] d2 rest(2) by simp
    qed
  qed
qed simp

lemma new_decoder:
  assumes "frame_decoder_new mx = Some d"
  shows "fd_ok d" "fd_view d = []" "fd_max d = mx" "split_frames parse is_object (fd_max d) (fd_view d) = ([], Inr (fd_view d))"
  using assms by (auto simp: frame_decoder_new_def fd_ok_def fd_view_def split_frames.simps split: if_splits)

section \<open>Properties\<close>

text \<open>
  C29. Decoding does not depend on how the bytes are cut into chunks: whatever chunks the socket
  delivers, the frames returned, the error raised and the bytes kept are the ones determined by the
  concatenated bytes alone (\<open>split_frames\<close>).
\<close>

theorem decoding_is_chunking_independent:
  assumes "frame_decoder_new mx = Some d" "read_chunks parse is_object d cs = (d', vs, e)"
  shows "split_frames parse is_object mx (concat cs) = (vs, outcome e (fd_view d'))"
  using read_chunks_spec [OF new_decoder(1) assms(2) new_decoder(4)] new_decoder [OF assms(1)] assms(1) by simp

text \<open>
  What the codec needs of \<open>serde_json\<close> for a message: its text is valid UTF-8 and parses back to the
  message, which is an object.
\<close>

definition serde_faithful :: "('v \<Rightarrow> bytes option) \<Rightarrow> (bytes \<Rightarrow> 'v option) \<Rightarrow> ('v \<Rightarrow> bool) \<Rightarrow> 'v \<Rightarrow> bool" where
  "serde_faithful ser parse is_object v \<longleftrightarrow>
     (case ser v of None \<Rightarrow> True | Some p \<Rightarrow> utf8_valid p \<and> parse p = Some v \<and> is_object v)"

lemma split_encoded:
  assumes "encode_frame ser v mx = Inr raw" "serde_faithful ser parse is_object v"
  shows "split_frames parse is_object mx (raw @ b) =
    (case split_frames parse is_object mx b of (vs, r) \<Rightarrow> (v # vs, r))"
proof -
  obtain p where p: "ser v = Some p" "p \<noteq> []" "length p \<le> unat mx" "raw = put_u32_le (word_of_nat (length p)) @ p"
    using assms(1) by (auto simp: encode_frame_def split: option.splits if_splits)
  let ?n = "word_of_nat (length p) :: u32"
  have "length p < 2 ^ 32" using p(3) unsigned_less [where ?'a = nat, of mx] by simp
  then have n: "unat ?n = length p" by (simp add: unat_of_nat)
  have "?n \<noteq> 0" "\<not> ?n > mx" using n p(2,3) by (auto simp: word_less_nat_alt unat_eq_0 [symmetric])
  then have "frame_at mx (raw @ b) = Some (Inr (length p))"
    by (simp add: frame_at_def p(4) announced_put check_limit_def n)
  moreover have "decode_payload parse is_object p = Inr v"
    using assms(2) p(1) by (simp add: decode_payload_def serde_faithful_def)
  ultimately show ?thesis
    by (subst split_frames_at) (simp add: p(4))
qed

text \<open>
  Messages survive the connection: the frames the peer encodes, concatenated and delivered in
  any chunks, are decoded to exactly the messages sent, in order, with no error and no byte left.
\<close>

theorem frames_round_trip:
  assumes "frame_decoder_new mx = Some d" "list_all2 (\<lambda>v raw. encode_frame ser v mx = Inr raw) msgs raws"
    and "list_all (serde_faithful ser parse is_object) msgs" "concat chunks = concat raws"
  shows "case read_chunks parse is_object d chunks of (d', vs, e) \<Rightarrow> vs = msgs \<and> e = None \<and> fd_view d' = []"
proof -
  have "split_frames parse is_object mx (concat raws) = (msgs, Inr [])"
    using assms(2,3)
  proof (induction rule: list_all2_induct)
    case (Cons v vs raw raws)
    then show ?case using split_encoded [of ser v mx raw parse is_object "concat raws"] by simp
  qed (simp add: split_frames.simps)
  moreover obtain d' vs e where r: "read_chunks parse is_object d chunks = (d', vs, e)" by (metis prod_cases3)
  moreover have "split_frames parse is_object mx (concat chunks) = (vs, outcome e (fd_view d'))"
    using read_chunks_spec [OF new_decoder(1) r new_decoder(4)] new_decoder [OF assms(1)] assms(1) by simp
  ultimately show ?thesis using assms(4) by (auto split: option.splits)
qed

text \<open>
  Patches are applied only in an unbroken chain of revisions: a patch is accepted exactly when
  its base is the revision reached so far and it advances it; every other patch asks for a new
  snapshot and leaves the revision alone, and after an invalidation nothing but a snapshot is accepted.
\<close>

theorem patches_form_a_chain:
  "(case snd (sync_observe c s) of
      ApplyPatch b r \<Rightarrow> c = ScPatches b r \<and> sy_revision s = Some b \<and> b < r \<and> sy_revision (fst (sync_observe c s)) = Some r
    | TakeSnapshot \<Rightarrow> (\<exists>r. c = ScSnapshot r \<and> sy_revision (fst (sync_observe c s)) = Some r)
    | Resync \<Rightarrow> (\<exists>b r. c = ScPatches b r \<and> \<not> (sy_revision s = Some b \<and> b < r)) \<and> fst (sync_observe c s) = s) \<and>
   snd (sync_observe (ScPatches b r) (sync_invalidate s)) = Resync"
  by (auto simp: sync_observe_def sync_invalidate_def split: stream_change.splits)

theorem decoding_is_chunking_independent_witness:
  "split_frames (\<lambda>p. Some p) (\<lambda>_. True) 8 (concat [[2, 0], [0, 0, 0x7B, 0x7D]]) = ([[0x7B, 0x7D]], Inr [])"
proof -
  let ?d = "\<lambda>b. \<lparr>fd_max = 8, fd_buf = b, fd_current_len = None\<rparr>" and ?p = "\<lambda>p. Some p" and ?o = "\<lambda>_. True"
  have d: "frame_decoder_new 8 = Some (?d [])" by (simp add: frame_decoder_new_def)
  have u: "utf8_valid [0x7B, 0x7D]" by (simp add: utf8_valid.simps utf8_width_def)
  have a: "announced_len [2, 0, 0, 0, 0x7B, 0x7D] = 2" by (simp add: announced_four from_le_bytes_def)
  have 1: "drain_frames ?p ?o (?d [2, 0]) = (?d [2, 0], [], None)"
    by (subst drain_frames.simps) (simp add: next_frame_def)
  have 2: "drain_frames ?p ?o (?d []) = (?d [], [], None)"
    by (subst drain_frames.simps) (simp add: next_frame_def)
  have "next_frame ?p ?o (?d [2, 0, 0, 0, 0x7B, 0x7D]) = (?d [], Inr (Some [0x7B, 0x7D]))"
    by (simp add: next_frame_def a check_limit_def fd_take_payload_def decode_payload_def u)
  then have 3: "drain_frames ?p ?o (?d [2, 0, 0, 0, 0x7B, 0x7D]) = (?d [], [[0x7B, 0x7D]], None)"
    by (subst drain_frames.simps) (simp add: 2)
  have "read_chunks ?p ?o (?d []) [[2, 0], [0, 0, 0x7B, 0x7D]] = (?d [], [[0x7B, 0x7D]], None)"
    by (simp add: fd_push_def 1 3 a check_limit_def)
  from decoding_is_chunking_independent [OF d this] show ?thesis by (simp add: fd_view_def)
qed

theorem frames_round_trip_witness:
  "case read_chunks (\<lambda>p. Some p) (\<lambda>_. True) \<lparr>fd_max = 8, fd_buf = [], fd_current_len = None\<rparr>
       [put_u32_le 2, [0x7B], [0x7D]] of
     (d', vs, e) \<Rightarrow> vs = [[0x7B, 0x7D]] \<and> e = None \<and> fd_view d' = []"
  by (rule frames_round_trip [where mx = 8 and ser = Some and raws = "[put_u32_le 2 @ [0x7B, 0x7D]]"])
    (simp_all add: frame_decoder_new_def encode_frame_def serde_faithful_def utf8_valid.simps utf8_width_def)

end
