(* ===== verification/Turn_Queue.thy ===== *)
theory Turn_Queue
  imports Commands
begin

text \<open>
  The next-turn queue (\<open>apps/bridge/src/commands/queue.rs\<close>): one prompt per session, bound to the turn
  and revision at which it was accepted, sent automatically when that turn completes normally and
  nobody is asked anything, and paused whenever that cannot be done.

  An operation that awaits only the database is one function. \<open>maybe_auto_send\<close> awaits the desktop in
  between: it is \<open>auto_send_check\<close>, which decides and hands a request to \<open>execute_command\<close>, and
  \<open>auto_send_finish\<close>, which handles the outcome; other operations may run between the two. The
  adapter's answers (snapshots, receipts, whether a subscription succeeded), fresh request ids and
  clock readings are arguments. Parsing of UUIDs and times and the payload digest belong to
  libraries and are the fields of \<open>cmd_env\<close>.
\<close>

section \<open>State\<close>

record cmd_env =
  parse_uuid :: "string \<Rightarrow> string option"
  parse_time :: "string \<Rightarrow> string option"
  payload_digest :: "command_payload \<Rightarrow> string"

record qm =
  qm_db :: db
  qm_watchers :: "string set"
  qm_inflight :: "string set"

record queue_summary =
  qu_state :: queue_state
  qu_after_turn_id :: "turn_id option"
  qu_accepted_runtime_revision :: "u64 option"

definition queue_summary_default :: queue_summary where
  "queue_summary_default = \<lparr>qu_state = QsEmpty, qu_after_turn_id = None, qu_accepted_runtime_revision = None\<rparr>"

definition IDLE_AFTER_TURN :: string where "IDLE_AFTER_TURN = ''idle''"

definition qm_new :: "db \<Rightarrow> qm" where
  "qm_new d = \<lparr>qm_db = d, qm_watchers = {}, qm_inflight = {}\<rparr>"

section \<open>Shapes\<close>

fun store_state_to_domain :: "queue_status \<Rightarrow> queue_state" where
  "store_state_to_domain StQueued = QsQueued"
| "store_state_to_domain StPaused = QsPaused"
| "store_state_to_domain StEmpty = QsEmpty"

definition turn_id_of_str :: "string \<Rightarrow> turn_id" where
  "turn_id_of_str raw = (if raw = IDLE_AFTER_TURN then turn_synthetic IDLE_AFTER_TURN else turn_native raw)"

definition entry_from_snapshot :: "string \<Rightarrow> session_key \<Rightarrow> runtime_snapshot \<Rightarrow> string \<Rightarrow> next_turn_entry" where
  "entry_from_snapshot now key snap prompt = \<lparr>nt_session = session_ref_of key, nt_prompt = prompt,
     nt_after_turn_id = (case rs_current_turn snap of Some t \<Rightarrow> ti_id (cu_turn t) | None \<Rightarrow> IDLE_AFTER_TURN),
     nt_runtime_revision = rs_runtime_revision snap, nt_status = StQueued, nt_created_at = now, nt_updated_at = now\<rparr>"

definition domain_turn :: "cmd_env \<Rightarrow> next_turn_entry \<Rightarrow> string \<Rightarrow> string \<Rightarrow> queued_turn" where
  "domain_turn env e rid input = \<lparr>qt_request_id = rid, qt_input = input,
     qt_after_turn_id = turn_id_of_str (nt_after_turn_id e), qt_accepted_runtime_revision = nt_runtime_revision e,
     qt_state = store_state_to_domain (nt_status e), qt_accepted_at = parse_time env (nt_updated_at e)\<rparr>"

definition qm_snapshot :: "adapter_error + runtime_snapshot \<Rightarrow> bridge_error + runtime_snapshot" where
  "qm_snapshot r = (case r of Inl e \<Rightarrow> Inl (bridge_err (adapter_code e) (adapter_message e)) | Inr s \<Rightarrow> Inr s)"

definition cursor_name :: "session_key \<Rightarrow> string" where
  "cursor_name key = ''queue-request:'' @ sk_native_session_id key"

definition NIL_UUID :: string where "NIL_UUID = ''00000000-0000-0000-0000-000000000000''"

definition remember_request_id :: "string \<Rightarrow> session_key \<Rightarrow> string \<Rightarrow> qm \<Rightarrow> qm" where
  "remember_request_id now key rid q = q\<lparr>qm_db := fst (db_call (put_cursor now (cursor_name key) rid) (qm_db q))\<rparr>"

definition stored_request_id :: "cmd_env \<Rightarrow> session_key \<Rightarrow> qm \<Rightarrow> qm \<times> string" where
  "stored_request_id env key q = (let (d, r) = db_read (get_cursor (cursor_name key)) (qm_db q) in
     (q\<lparr>qm_db := d\<rparr>, case r of Inr (Some v) \<Rightarrow> (case parse_uuid env v of Some u \<Rightarrow> u | None \<Rightarrow> NIL_UUID) | _ \<Rightarrow> NIL_UUID))"

definition ensure_watcher :: "bool \<Rightarrow> session_key \<Rightarrow> qm \<Rightarrow> qm" where
  "ensure_watcher subscribed key q = (if sk_native_session_id key \<in> qm_watchers q \<or> \<not> subscribed then q
     else q\<lparr>qm_watchers := insert (sk_native_session_id key) (qm_watchers q)\<rparr>)"

section \<open>User operations\<close>

definition queue_set :: "cmd_env \<Rightarrow> string \<Rightarrow> session_key \<Rightarrow> string \<Rightarrow> bool \<Rightarrow> string \<Rightarrow> runtime_snapshot \<Rightarrow> bool \<Rightarrow> qm \<Rightarrow>
    qm \<times> (bridge_error + queued_turn)" where
  "queue_set env now key input replace rid snap subscribed q =
    (let (d1, ex) = db_read (get_next_turn (session_ref_of key)) (qm_db q);
         entry = entry_from_snapshot now key snap input;
         store_it = (let (d2, r) = retry_busy (db_call (set_next_turn now entry replace)) d1 in
           case r of
             Inl e \<Rightarrow> (q\<lparr>qm_db := d2\<rparr>, Inl (store_err e))
           | Inr _ \<Rightarrow> (ensure_watcher subscribed key (remember_request_id now key rid (q\<lparr>qm_db := d2\<rparr>)),
                       Inr (domain_turn env entry rid input)))
     in case ex of
       Inl e \<Rightarrow> (q\<lparr>qm_db := d1\<rparr>, Inl (store_err e))
     | Inr None \<Rightarrow> store_it
     | Inr (Some old) \<Rightarrow>
         if \<not> replace then (q\<lparr>qm_db := d1\<rparr>, Inl (if nt_status old = StPaused
             then bridge_err QueuePausedCode ''queue entry is paused; resume or replace explicitly''
             else bridge_err QueueAlreadyExists ''session already has a queued next turn''))
         else store_it)"

definition queue_replace :: "cmd_env \<Rightarrow> string \<Rightarrow> session_key \<Rightarrow> string \<Rightarrow> string \<Rightarrow> adapter_error + runtime_snapshot \<Rightarrow> bool \<Rightarrow> qm \<Rightarrow>
    qm \<times> (bridge_error + queued_turn)" where
  "queue_replace env now key input rid snapr subscribed q = (case qm_snapshot snapr of
     Inl e \<Rightarrow> (q, Inl e) | Inr snap \<Rightarrow> queue_set env now key input True rid snap subscribed q)"

definition queue_get :: "cmd_env \<Rightarrow> session_key \<Rightarrow> qm \<Rightarrow> qm \<times> (bridge_error + queued_turn option)" where
  "queue_get env key q = (let (d1, ex) = db_read (get_next_turn (session_ref_of key)) (qm_db q); q1 = q\<lparr>qm_db := d1\<rparr> in
     case ex of
       Inl e \<Rightarrow> (q1, Inl (store_err e))
     | Inr None \<Rightarrow> (q1, Inr None)
     | Inr (Some entry) \<Rightarrow> (let (q2, rid) = stored_request_id env key q1 in (q2, Inr (Some (domain_turn env entry rid (nt_prompt entry))))))"

definition queue_status_of :: "session_key \<Rightarrow> qm \<Rightarrow> qm \<times> (bridge_error + queue_summary)" where
  "queue_status_of key q = (let (d1, ex) = db_read (get_next_turn (session_ref_of key)) (qm_db q); q1 = q\<lparr>qm_db := d1\<rparr> in
     case ex of
       Inl e \<Rightarrow> (q1, Inl (store_err e))
     | Inr None \<Rightarrow> (q1, Inr queue_summary_default)
     | Inr (Some entry) \<Rightarrow> (q1, Inr \<lparr>qu_state = store_state_to_domain (nt_status entry),
         qu_after_turn_id = Some (turn_id_of_str (nt_after_turn_id entry)),
         qu_accepted_runtime_revision = Some (nt_runtime_revision entry)\<rparr>))"

definition queue_cancel :: "session_key \<Rightarrow> qm \<Rightarrow> qm \<times> (bridge_error + bool)" where
  "queue_cancel key q = (let (d, r) = retry_busy (db_call (clear_next_turn (session_ref_of key))) (qm_db q) in
     (q\<lparr>qm_db := d\<rparr>, case r of Inl e \<Rightarrow> Inl (store_err e) | Inr b \<Rightarrow> Inr b))"

definition queue_pause :: "string \<Rightarrow> session_key \<Rightarrow> qm \<Rightarrow> qm \<times> (bridge_error + bool)" where
  "queue_pause now key q = (let (d1, ex) = db_read (get_next_turn (session_ref_of key)) (qm_db q); q1 = q\<lparr>qm_db := d1\<rparr> in
     case ex of
       Inl e \<Rightarrow> (q1, Inl (store_err e))
     | Inr None \<Rightarrow> (q1, Inr False)
     | Inr (Some entry) \<Rightarrow>
         if nt_status entry = StPaused then (q1, Inr False)
         else (let (d2, r) = retry_busy (db_call (set_next_turn now (entry\<lparr>nt_status := StPaused, nt_updated_at := now\<rparr>) True)) d1 in
           (q\<lparr>qm_db := d2\<rparr>, case r of Inl e \<Rightarrow> Inl (store_err e) | Inr _ \<Rightarrow> Inr True)))"

section \<open>Automatic sending\<close>

definition mark_paused :: "string \<Rightarrow> session_ref \<Rightarrow> qm \<Rightarrow> qm" where
  "mark_paused now s q = (let (d1, ex) = db_read (get_next_turn s) (qm_db q) in
     case ex of
       Inr (Some entry) \<Rightarrow>
         if nt_status entry \<noteq> StQueued then q\<lparr>qm_db := d1\<rparr>
         else q\<lparr>qm_db := fst (retry_busy (db_call (set_next_turn now (entry\<lparr>nt_status := StPaused, nt_updated_at := now\<rparr>) True)) d1)\<rparr>
     | _ \<Rightarrow> q\<lparr>qm_db := d1\<rparr>)"

definition auto_send_request :: "cmd_env \<Rightarrow> string \<Rightarrow> session_key \<Rightarrow> string \<Rightarrow> command_request" where
  "auto_send_request env rid key prompt = \<lparr>cr_request_id = rid, cr_operation = StartTurn, cr_session_key = key,
     cr_expected_turn_id = None, cr_expected_runtime_revision = None,
     cr_payload_digest = Some (payload_digest env (PlStartTurn prompt)), cr_payload = PlStartTurn prompt\<rparr>"

definition auto_send_check :: "cmd_env \<Rightarrow> string \<Rightarrow> string \<Rightarrow> session_key \<Rightarrow> adapter_error + runtime_snapshot \<Rightarrow> qm \<Rightarrow>
    qm \<times> command_request option" where
  "auto_send_check env now rid key snapr q =
    (let s = session_ref_of key; (d1, ex) = db_read (get_next_turn s) (qm_db q); q1 = q\<lparr>qm_db := d1\<rparr> in
     case ex of
       Inr (Some entry) \<Rightarrow>
         if nt_status entry \<noteq> StQueued then (q1, None)
         else (case snapr of
           Inl _ \<Rightarrow> (mark_paused now s q1, None)
         | Inr snap \<Rightarrow>
             if rs_current_turn snap \<noteq> None then (q1, None)
             else if rs_pending_questions snap \<noteq> [] \<or> rs_pending_approvals snap \<noteq> [] then (q1, None)
             else (q1\<lparr>qm_inflight := insert (sk_native_session_id key) (qm_inflight q1)\<rparr>,
                   Some (auto_send_request env rid key (nt_prompt entry))))
     | _ \<Rightarrow> (q1, None))"

text \<open>The outcome of \<open>execute_command\<close>: an error, or the receipts its channel yields until it closes.\<close>

datatype exec_outcome = ExecOk "receipt_state list" | ExecErr adapter_error

fun auto_receipts :: "string \<Rightarrow> string \<Rightarrow> receipt_state list \<Rightarrow> db \<Rightarrow> db \<times> bool" where
  "auto_receipts now rid [] d = (d, False)"
| "auto_receipts now rid (r # rs) d =
    (let d1 = fst (db_call (update_receipt_status now rid (receipt_status_str r)) d) in
     case r of
       RsDispatchedToCodex \<Rightarrow> auto_receipts now rid rs d1
     | RsCompleted \<Rightarrow> (d1, True)
     | _ \<Rightarrow> (d1, False))"

definition auto_send_finish :: "string \<Rightarrow> session_key \<Rightarrow> string \<Rightarrow> exec_outcome \<Rightarrow> qm \<Rightarrow> qm" where
  "auto_send_finish now key rid outcome q =
    (let s = session_ref_of key;
         q2 = (case outcome of
             ExecOk rs \<Rightarrow> (let (d1, sent) = auto_receipts now rid rs (qm_db q) in
               if sent then q\<lparr>qm_db := fst (retry_busy (db_call (clear_next_turn s)) d1)\<rparr>
               else mark_paused now s (q\<lparr>qm_db := d1\<rparr>))
           | ExecErr err \<Rightarrow> mark_paused now s (q\<lparr>qm_db := fst (db_call (update_receipt_status now rid
               (if adapter_code err = OutcomeUnknownCode then ''OUTCOME_UNKNOWN'' else ''REJECTED'')) (qm_db q))\<rparr>))
     in q2\<lparr>qm_inflight := qm_inflight q2 - {sk_native_session_id key}\<rparr>)"

definition maybe_auto_send :: "cmd_env \<Rightarrow> string \<Rightarrow> string \<Rightarrow> session_key \<Rightarrow> adapter_error + runtime_snapshot \<Rightarrow> exec_outcome \<Rightarrow> qm \<Rightarrow> qm" where
  "maybe_auto_send env now rid key snapr outcome q = (case auto_send_check env now rid key snapr q of
     (q1, None) \<Rightarrow> q1 | (q1, Some _) \<Rightarrow> auto_send_finish now key rid outcome q1)"

text \<open>\<open>resume\<close>, up to the point where the prompt may be sent.\<close>

definition queue_resume :: "cmd_env \<Rightarrow> string \<Rightarrow> session_key \<Rightarrow> adapter_error + runtime_snapshot \<Rightarrow> bool \<Rightarrow> string \<Rightarrow>
    adapter_error + runtime_snapshot \<Rightarrow> qm \<Rightarrow> qm \<times> (bridge_error + queued_turn option) \<times> command_request option" where
  "queue_resume env now key snapr subscribed rid snapr2 q =
    (let (d1, ex) = db_read (get_next_turn (session_ref_of key)) (qm_db q); q1 = q\<lparr>qm_db := d1\<rparr> in
     case ex of
       Inl e \<Rightarrow> (q1, Inl (store_err e), None)
     | Inr None \<Rightarrow> (q1, Inr None, None)
     | Inr (Some entry) \<Rightarrow> (case qm_snapshot snapr of
         Inl e \<Rightarrow> (q1, Inl e, None)
       | Inr snap \<Rightarrow>
           (let rebound = entry_from_snapshot now key snap (nt_prompt entry);
                entry' = entry\<lparr>nt_after_turn_id := nt_after_turn_id rebound, nt_runtime_revision := nt_runtime_revision rebound,
                  nt_status := StQueued, nt_updated_at := now\<rparr>;
                (d2, r) = retry_busy (db_call (set_next_turn now entry' True)) d1;
                q2 = q\<lparr>qm_db := d2\<rparr>
            in case r of
              Inl e \<Rightarrow> (q2, Inl (store_err e), None)
            | Inr _ \<Rightarrow>
                (let (q4, stored) = stored_request_id env key (ensure_watcher subscribed key q2);
                     (q5, req) = auto_send_check env now rid key snapr2 q4
                 in (q5, Inr (Some (domain_turn env entry' stored (nt_prompt entry'))), req)))))"

section \<open>Events\<close>

datatype queue_event = TurnLifecycle turn_id active_turn_phase "last_turn_outcome option" | OtherEvent

text \<open>A turn runs that the queue did not start: unless it is the one the entry waits for, the entry is paused.\<close>

definition on_turn_started :: "string \<Rightarrow> session_ref \<Rightarrow> turn_id \<Rightarrow> qm \<Rightarrow> qm" where
  "on_turn_started now s turn q = (let (d1, ex) = db_read (get_next_turn s) (qm_db q); q1 = q\<lparr>qm_db := d1\<rparr> in
     case ex of
       Inr (Some entry) \<Rightarrow>
         if nt_status entry = StQueued \<and> nt_after_turn_id entry \<noteq> ti_id turn then mark_paused now s q1 else q1
     | _ \<Rightarrow> q1)"

definition on_event :: "cmd_env \<Rightarrow> string \<Rightarrow> session_key \<Rightarrow> queue_event \<Rightarrow> string \<Rightarrow> adapter_error + runtime_snapshot \<Rightarrow> qm \<Rightarrow>
    qm \<times> command_request option" where
  "on_event env now key ev rid snapr q =
    (let native = sk_native_session_id key; s = session_ref_of key; calm = q\<lparr>qm_inflight := qm_inflight q - {native}\<rparr> in
     case ev of
       TurnLifecycle turn PhIdle (Some OutCompleted) \<Rightarrow> auto_send_check env now rid key snapr calm
     | TurnLifecycle turn PhIdle (Some OutFailed) \<Rightarrow> (mark_paused now s calm, None)
     | TurnLifecycle turn PhIdle (Some OutInterrupted) \<Rightarrow> (mark_paused now s calm, None)
     | TurnLifecycle turn PhIdle _ \<Rightarrow> (q, None)
     | TurnLifecycle turn _ _ \<Rightarrow> (if native \<in> qm_inflight q then calm else on_turn_started now s turn q, None)
     | OtherEvent \<Rightarrow> (q, None))"

section \<open>The queue at work\<close>

text \<open>
  The manager together with the sends it is waiting for. A step is one operation: of the user, of a
  watcher that received an event, of a send whose outcome arrived, or of a watcher that ends.
\<close>

record qsys =
  qs_qm :: qm
  qs_sending :: "(session_key \<times> command_request) list"

datatype queue_op =
    QoSet string session_key string bool string runtime_snapshot bool
  | QoReplace string session_key string string "adapter_error + runtime_snapshot" bool
  | QoCancel session_key
  | QoPause string session_key
  | QoResume string session_key "adapter_error + runtime_snapshot" bool string "adapter_error + runtime_snapshot"
  | QoEvent string session_key queue_event string "adapter_error + runtime_snapshot"
  | QoFinish string nat exec_outcome
  | QoWatcherEnds string

definition note_send :: "session_key \<Rightarrow> qsys \<Rightarrow> qm \<times> command_request option \<Rightarrow> qsys" where
  "note_send key qs r = (case r of (q, req) \<Rightarrow> qs\<lparr>qs_qm := q, qs_sending := qs_sending qs @ (case req of Some x \<Rightarrow> [(key, x)] | None \<Rightarrow> [])\<rparr>)"

fun queue_step :: "cmd_env \<Rightarrow> qsys \<Rightarrow> queue_op \<Rightarrow> qsys" where
  "queue_step env qs (QoSet now key input rep rid snap sub) = qs\<lparr>qs_qm := fst (queue_set env now key input rep rid snap sub (qs_qm qs))\<rparr>"
| "queue_step env qs (QoReplace now key input rid snapr sub) = qs\<lparr>qs_qm := fst (queue_replace env now key input rid snapr sub (qs_qm qs))\<rparr>"
| "queue_step env qs (QoCancel key) = qs\<lparr>qs_qm := fst (queue_cancel key (qs_qm qs))\<rparr>"
| "queue_step env qs (QoPause now key) = qs\<lparr>qs_qm := fst (queue_pause now key (qs_qm qs))\<rparr>"
| "queue_step env qs (QoResume now key snapr sub rid snapr2) =
     (case queue_resume env now key snapr sub rid snapr2 (qs_qm qs) of (q, _, req) \<Rightarrow> note_send key qs (q, req))"
| "queue_step env qs (QoEvent now key ev rid snapr) = note_send key qs (on_event env now key ev rid snapr (qs_qm qs))"
| "queue_step env qs (QoFinish now i outcome) = (if i < length (qs_sending qs)
     then (case qs_sending qs ! i of (key, req) \<Rightarrow>
       qs\<lparr>qs_qm := auto_send_finish now key (cr_request_id req) outcome (qs_qm qs), qs_sending := remove_nth i (qs_sending qs)\<rparr>)
     else qs)"
| "queue_step env qs (QoWatcherEnds native) = qs\<lparr>qs_qm := (qs_qm qs)\<lparr>qm_watchers := qm_watchers (qs_qm qs) - {native}\<rparr>\<rparr>"

fun queue_sent :: "cmd_env \<Rightarrow> qsys \<Rightarrow> queue_op \<Rightarrow> command_request list" where
  "queue_sent env qs (QoResume now key snapr sub rid snapr2) =
     (case queue_resume env now key snapr sub rid snapr2 (qs_qm qs) of (_, _, Some x) \<Rightarrow> [x] | _ \<Rightarrow> [])"
| "queue_sent env qs (QoEvent now key ev rid snapr) = (case on_event env now key ev rid snapr (qs_qm qs) of (_, Some x) \<Rightarrow> [x] | _ \<Rightarrow> [])"
| "queue_sent env qs _ = []"

fun is_background :: "queue_op \<Rightarrow> bool" where
  "is_background (QoEvent now key ev rid snapr) = True"
| "is_background (QoFinish now i outcome) = True"
| "is_background (QoWatcherEnds native) = True"
| "is_background _ = False"

fun outcome_completed :: "exec_outcome \<Rightarrow> bool" where
  "outcome_completed (ExecOk rs) = (case dropWhile (\<lambda>r. r = RsDispatchedToCodex) rs of RsCompleted # _ \<Rightarrow> True | _ \<Rightarrow> False)"
| "outcome_completed (ExecErr e) = False"

section \<open>What the background may do to an entry\<close>

abbreviation qrows :: "qm \<Rightarrow> session_ref \<Rightarrow> queue_row option" where
  "qrows q \<equiv> map_of (st_queue (db_store (qm_db q)))"

text \<open>\<open>row'\<close> is \<open>row\<close>, possibly paused.\<close>

definition paused_copy :: "queue_row \<Rightarrow> queue_row \<Rightarrow> bool" where
  "paused_copy row row' \<longleftrightarrow> row' = row \<or> queue_status_parse (qr_status row) = StQueued \<and>
     row' = row\<lparr>qr_status := ''PAUSED'', qr_updated_at := qr_updated_at row'\<rparr>"

definition settles :: "queue_row option \<Rightarrow> queue_row option \<Rightarrow> bool" where
  "settles a b = (case (a, b) of (None, None) \<Rightarrow> True | (Some row, Some row') \<Rightarrow> paused_copy row row' | _ \<Rightarrow> False)"

lemma parse_PAUSED [simp]: "queue_status_parse ''PAUSED'' = StPaused"
  by (simp add: queue_status_parse_def)

lemma parse_QUEUED [simp]: "queue_status_parse ''QUEUED'' = StQueued"
  by (simp add: queue_status_parse_def)

lemma settles_refl [simp]: "settles a a"
  by (simp add: settles_def paused_copy_def split: option.split)

lemma paused_copy_trans: "paused_copy a b \<Longrightarrow> paused_copy b c \<Longrightarrow> paused_copy a c"
  by (auto simp: paused_copy_def) (metis parse_PAUSED queue_row.select_convs(4) queue_row.surjective queue_row.update_convs(4,6) queue_status.distinct(1))

lemma settles_trans: "settles a b \<Longrightarrow> settles b c \<Longrightarrow> settles a c"
  by (auto simp: settles_def split: option.splits dest: paused_copy_trans)

lemma db_read_store [simp]: "db_store (fst (db_read f d)) = db_store d"
  by (simp add: db_read_def)

lemma db_readD: "db_read f d = (d', r) \<Longrightarrow> db_store d' = db_store d \<and> r = f (next_fault d) (db_store d)"
  by (auto simp: db_read_def)

lemma get_next_turnD:
  "get_next_turn s flt st = Inr (Some e) \<Longrightarrow> \<exists>row. map_of (st_queue st) s = Some row \<and> e = entry_of_row s row"
  by (auto simp: get_next_turn_def split: option.splits)

lemma update_status_queue [simp]: "st_queue (db_store (fst (db_call (update_receipt_status now i s) d))) = st_queue (db_store d)"
  by (auto simp: db_call_def update_receipt_status_def guarded_def split: option.splits)

lemma put_cursor_queue [simp]: "st_queue (db_store (fst (db_call (put_cursor now k v) d))) = st_queue (db_store d)"
  by (auto simp: db_call_def put_cursor_def guarded_def split: option.splits)

lemma pause_row:
  assumes "map_of (st_queue st) s = Some row"
    and "set_next_turn now ((entry_of_row s row)\<lparr>nt_status := StPaused, nt_updated_at := now\<rparr>) True None st = (st', r)"
  shows "r = Inr () \<and> map_of (st_queue st') = (map_of (st_queue st))(s \<mapsto> row\<lparr>qr_status := ''PAUSED'', qr_updated_at := now\<rparr>)"
  using assms by (auto simp: set_next_turn_def guarded_def entry_of_row_def)

lemma mark_paused_settles: "settles (qrows q s') (qrows (mark_paused now s q) s')"
proof -
  obtain d1 ex where rd: "db_read (get_next_turn s) (qm_db q) = (d1, ex)" by fastforce
  note d1 = db_readD [OF rd]
  show ?thesis
  proof (cases "\<exists>e. ex = Inr (Some e) \<and> nt_status e = StQueued")
    case True
    then obtain e where e: "ex = Inr (Some e)" "nt_status e = StQueued" by blast
    obtain row where row: "qrows q s = Some row" "e = entry_of_row s row"
      using get_next_turnD d1 e(1) by metis
    let ?w = "set_next_turn now (e\<lparr>nt_status := StPaused, nt_updated_at := now\<rparr>) True"
    obtain d2 r where r: "retry_busy_from 0 (db_call ?w) d1 = (d2, r)" by fastforce
    have mp: "mark_paused now s q = q\<lparr>qm_db := d2\<rparr>"
      using rd e r by (simp add: mark_paused_def retry_busy_def)
    have st: "queue_status_parse (qr_status row) = StQueued" using e(2) row(2) by (simp add: entry_of_row_def)
    have "w_res \<or> db_store d2 = db_store d1" if "w_res = (?w None (db_store d1) = (db_store d2, r))" for w_res
      using set_w.retry_effect [of 0 now "e\<lparr>nt_status := StPaused, nt_updated_at := now\<rparr>" True d1] r that by auto
    then consider "?w None (db_store d1) = (db_store d2, r)" | "db_store d2 = db_store d1" by blast
    then show ?thesis
    proof cases
      case 1
      then show ?thesis using pause_row [of "db_store d1" s row now "db_store d2" r] row d1 st mp
        by (simp add: settles_def paused_copy_def split: option.split)
    qed (use d1 mp in simp)
  next
    case False
    then have "mark_paused now s q = q\<lparr>qm_db := d1\<rparr>"
      using rd by (auto simp: mark_paused_def split: sum.splits option.splits)
    then show ?thesis using d1 by simp
  qed
qed

lemma auto_send_check_settles: "settles (qrows q s') (qrows (fst (auto_send_check env now rid key snapr q)) s')"
  using mark_paused_settles [of "q\<lparr>qm_db := fst (db_read (get_next_turn (session_ref_of key)) (qm_db q))\<rparr>" s' now "session_ref_of key"]
  by (auto simp: auto_send_check_def Let_def split: prod.splits sum.splits option.splits dest: db_readD)

lemma on_turn_started_settles: "settles (qrows q s') (qrows (on_turn_started now s turn q) s')"
proof -
  obtain d1 ex where rd: "db_read (get_next_turn s) (qm_db q) = (d1, ex)" by fastforce
  have d1: "db_store d1 = db_store (qm_db q)" using db_readD [OF rd] ..
  show ?thesis using mark_paused_settles [of "q\<lparr>qm_db := d1\<rparr>" s' now s] rd d1
    by (auto simp: on_turn_started_def Let_def split: sum.splits option.splits)
qed

lemma on_event_settles: "settles (qrows q s') (qrows (fst (on_event env now key ev rid snapr q)) s')"
proof (cases ev)
  case (TurnLifecycle turn ph out)
  let ?calm = "q\<lparr>qm_inflight := qm_inflight q - {sk_native_session_id key}\<rparr>"
  have calm: "qrows ?calm = qrows q" by simp
  show ?thesis
  proof (cases ph)
    case PhIdle
    then show ?thesis using TurnLifecycle mark_paused_settles [of ?calm s' now "session_ref_of key"]
        auto_send_check_settles [of ?calm s' env now rid key snapr]
      by (cases out; cases "the out") (simp_all add: on_event_def Let_def)
  qed (use TurnLifecycle on_turn_started_settles in \<open>simp_all add: on_event_def Let_def\<close>)
qed (simp add: on_event_def)

lemma auto_receipts_queue: "st_queue (db_store (fst (auto_receipts now rid rs d))) = st_queue (db_store d)"
  by (induction rs arbitrary: d) (auto simp: Let_def split: receipt_state.splits)

lemma auto_receipts_sent: "snd (auto_receipts now rid rs d) = outcome_completed (ExecOk rs)"
  by (induction rs arbitrary: d) (auto simp: Let_def split: receipt_state.splits)

lemma clear_effect:
  "db_store (fst (retry_busy (db_call (clear_next_turn s)) d)) = db_store d \<or>
   map_of (st_queue (db_store (fst (retry_busy (db_call (clear_next_turn s)) d)))) = (map_of (st_queue (db_store d)))(s := None)"
proof -
  obtain d' r where r: "retry_busy_from 0 (db_call (clear_next_turn s)) d = (d', r)" by fastforce
  then have "db_store d' = fst (clear_next_turn s None (db_store d)) \<or> db_store d' = db_store d"
    using clear_w.retry_effect [of 0 s d] by auto
  then show ?thesis using r by (auto simp: retry_busy_def clear_next_turn_def guarded_def)
qed

lemma auto_send_finish_settles:
  "settles (qrows q s') (qrows (auto_send_finish now key rid outcome q) s') \<or>
   outcome_completed outcome \<and> s' = session_ref_of key \<and> qrows (auto_send_finish now key rid outcome q) s' = None"
proof (cases outcome)
  case (ExecOk rs)
  obtain d1 sent where ar: "auto_receipts now rid rs (qm_db q) = (d1, sent)" by fastforce
  then have d1: "st_queue (db_store d1) = st_queue (db_store (qm_db q))" "sent = outcome_completed outcome"
    using auto_receipts_queue [of now rid rs "qm_db q"] auto_receipts_sent [of now rid rs "qm_db q"] ExecOk by simp_all
  show ?thesis
  proof (cases sent)
    case True
    then show ?thesis using ExecOk ar d1 clear_effect [of "session_ref_of key" d1]
      by (cases "s' = session_ref_of key") (auto simp: auto_send_finish_def Let_def)
  next
    case False
    then show ?thesis using ExecOk ar d1 mark_paused_settles [of "q\<lparr>qm_db := d1\<rparr>" s' now "session_ref_of key"]
      by (auto simp: auto_send_finish_def Let_def)
  qed
next
  case (ExecErr err)
  let ?q = "q\<lparr>qm_db := fst (db_call (update_receipt_status now rid
     (if adapter_code err = OutcomeUnknownCode then ''OUTCOME_UNKNOWN'' else ''REJECTED'')) (qm_db q))\<rparr>"
  show ?thesis using ExecErr mark_paused_settles [of ?q s' now "session_ref_of key"]
    by (auto simp: auto_send_finish_def Let_def)
qed

text \<open>The step of a send that ended completed, for session \<open>s\<close>.\<close>

definition sent_for :: "qsys \<Rightarrow> queue_op \<Rightarrow> session_ref \<Rightarrow> bool" where
  "sent_for qs x s = (case x of QoFinish now i outcome \<Rightarrow> outcome_completed outcome \<and> i < length (qs_sending qs) \<and>
     session_ref_of (fst (qs_sending qs ! i)) = s | _ \<Rightarrow> False)"

lemma background_step:
  assumes "is_background x"
  shows "settles (qrows (qs_qm qs) s) (qrows (qs_qm (queue_step env qs x)) s) \<or>
    sent_for qs x s \<and> qrows (qs_qm (queue_step env qs x)) s = None"
proof (cases x)
  case (QoEvent now key ev rid snapr)
  then show ?thesis using on_event_settles [of "qs_qm qs" s env now key ev rid snapr]
    by (cases "on_event env now key ev rid snapr (qs_qm qs)") (simp add: note_send_def)
next
  case (QoFinish now i outcome)
  show ?thesis
  proof (cases "i < length (qs_sending qs)")
    case True
    obtain key req where e: "qs_sending qs ! i = (key, req)" by fastforce
    then show ?thesis using QoFinish True auto_send_finish_settles [of "qs_qm qs" s now key "cr_request_id req" outcome]
      by (auto simp: sent_for_def)
  qed (use QoFinish in simp)
qed (use assms in auto)

fun some_sent_for :: "cmd_env \<Rightarrow> qsys \<Rightarrow> queue_op list \<Rightarrow> session_ref \<Rightarrow> bool" where
  "some_sent_for env qs [] s = False"
| "some_sent_for env qs (x # xs) s = (sent_for qs x s \<or> some_sent_for env (queue_step env qs x) xs s)"

lemma settles_None [simp]: "settles None b \<longleftrightarrow> b = None"
  by (simp add: settles_def split: option.split)

lemma background_run:
  "list_all is_background ops \<Longrightarrow>
     settles (qrows (qs_qm qs) s) (qrows (qs_qm (foldl (queue_step env) qs ops)) s) \<or>
     some_sent_for env qs ops s \<and> qrows (qs_qm (foldl (queue_step env) qs ops)) s = None"
proof (induction ops arbitrary: qs)
  case (Cons x ops)
  let ?q = "queue_step env qs x"
  have IH: "settles (qrows (qs_qm ?q) s) (qrows (qs_qm (foldl (queue_step env) ?q ops)) s) \<or>
     some_sent_for env ?q ops s \<and> qrows (qs_qm (foldl (queue_step env) ?q ops)) s = None"
    using Cons by simp
  from background_step [of x qs s env] Cons.prems
  consider "settles (qrows (qs_qm qs) s) (qrows (qs_qm ?q) s)" | "sent_for qs x s" "qrows (qs_qm ?q) s = None" by auto
  then show ?case
  proof cases
    case 1
    then show ?thesis using IH settles_trans by auto
  next
    case 2
    then show ?thesis using IH by auto
  qed
qed simp

section \<open>When a prompt is sent\<close>

lemma auto_send_checkD:
  assumes "auto_send_check env now rid key snapr q = (q', Some req)"
  shows "\<exists>row snap. qrows q (session_ref_of key) = Some row \<and> queue_status_parse (qr_status row) = StQueued \<and>
    snapr = Inr snap \<and> rs_current_turn snap = None \<and> rs_pending_questions snap = [] \<and> rs_pending_approvals snap = [] \<and>
    req = auto_send_request env rid key (qr_prompt row) \<and> db_store (qm_db q') = db_store (qm_db q)"
proof -
  obtain d1 ex where rd: "db_read (get_next_turn (session_ref_of key)) (qm_db q) = (d1, ex)" by fastforce
  note d1 = db_readD [OF rd]
  obtain e where e: "ex = Inr (Some e)" using assms rd by (auto simp: auto_send_check_def Let_def split: sum.splits option.splits)
  then obtain row where row: "qrows q (session_ref_of key) = Some row" "e = entry_of_row (session_ref_of key) row"
    using get_next_turnD d1 by metis
  then show ?thesis using assms rd e d1
    by (auto simp: auto_send_check_def Let_def entry_of_row_def split: sum.splits if_splits)
qed

lemma set_effect:
  assumes "retry_busy (db_call (set_next_turn now e rep)) d = (d', Inr ())"
  shows "set_next_turn now e rep None (db_store d) = (db_store d', Inr ())"
  using assms set_w.retry_effect [of 0 now e rep d] by (auto simp: retry_busy_def)

lemma stored_request_id_store: "stored_request_id env key q = (q', i) \<Longrightarrow> db_store (qm_db q') = db_store (qm_db q)"
  by (auto simp: stored_request_id_def db_read_def)

lemma ensure_watcher_db [simp]: "qm_db (ensure_watcher sub key q) = qm_db q"
  by (simp add: ensure_watcher_def)

text \<open>A resumed entry keeps its prompt and is queued again, bound to what the snapshot shows.\<close>

lemma queue_resumeD:
  assumes "queue_resume env now key snapr sub rid snapr2 q = (q', r, Some req)"
  shows "\<exists>row row' snap0 q4. snapr = Inr snap0 \<and> qrows q (session_ref_of key) = Some row \<and>
    qrows q4 (session_ref_of key) = Some row' \<and> qr_prompt row' = qr_prompt row \<and>
    auto_send_check env now rid key snapr2 q4 = (q', Some req)"
proof -
  let ?s = "session_ref_of key"
  obtain d1 ex where rd: "db_read (get_next_turn ?s) (qm_db q) = (d1, ex)" by fastforce
  note d1 = db_readD [OF rd]
  obtain e where e: "ex = Inr (Some e)" using assms rd by (auto simp: queue_resume_def Let_def split: sum.splits option.splits)
  then obtain row where row: "qrows q ?s = Some row" "e = entry_of_row ?s row" using get_next_turnD d1 by metis
  obtain snap0 where snap0: "qm_snapshot snapr = Inr snap0"
    using assms rd e by (auto simp: queue_resume_def Let_def split: sum.splits)
  let ?e = "e\<lparr>nt_after_turn_id := nt_after_turn_id (entry_from_snapshot now key snap0 (nt_prompt e)),
     nt_runtime_revision := nt_runtime_revision (entry_from_snapshot now key snap0 (nt_prompt e)), nt_status := StQueued, nt_updated_at := now\<rparr>"
  obtain d2 r2 where r2: "retry_busy (db_call (set_next_turn now ?e True)) d1 = (d2, r2)" by fastforce
  have ok: "r2 = Inr ()" using assms rd e snap0 r2 by (auto simp: queue_resume_def Let_def split: sum.splits)
  obtain q4 i where q4: "stored_request_id env key (ensure_watcher sub key (q\<lparr>qm_db := d2\<rparr>)) = (q4, i)" by fastforce
  have "db_store d2 = fst (set_next_turn now ?e True None (db_store d1))" using set_effect r2 ok by simp
  then have "\<exists>row'. map_of (st_queue (db_store d2)) ?s = Some row' \<and> qr_prompt row' = qr_prompt row"
    using row d1 by (auto simp: set_next_turn_def guarded_def entry_of_row_def)
  moreover have "db_store (qm_db q4) = db_store d2" using stored_request_id_store [OF q4] by simp
  moreover have "auto_send_check env now rid key snapr2 q4 = (q', Some req)"
    using assms rd e snap0 r2 ok q4 by (auto simp: queue_resume_def Let_def split: prod.splits)
  moreover have "snapr = Inr snap0" using snap0 by (auto simp: qm_snapshot_def split: sum.splits)
  ultimately show ?thesis using row by metis
qed

lemma on_event_sends:
  assumes "on_event env now key ev rid snapr q = (q', Some req)"
  shows "\<exists>turn. ev = TurnLifecycle turn PhIdle (Some OutCompleted) \<and>
    auto_send_check env now rid key snapr (q\<lparr>qm_inflight := qm_inflight q - {sk_native_session_id key}\<rparr>) = (q', Some req)"
proof (cases ev)
  case (TurnLifecycle turn ph out)
  then show ?thesis using assms
    by (cases ph; cases out; cases "the out") (simp_all add: on_event_def Let_def)
qed (use assms in \<open>simp add: on_event_def\<close>)

section \<open>Calls on a healthy database\<close>

lemma next_fault_healthy [simp]: "db_faults d = [] \<Longrightarrow> next_fault d = None"
  by (simp add: next_fault_def)

lemma healthy_read: "db_faults d = [] \<Longrightarrow> db_read f d = (d, f None (db_store d))"
  by (simp add: db_read_def next_fault_def)

lemma healthy_call: "db_faults d = [] \<Longrightarrow> db_call f d = (d\<lparr>db_store := fst (f None (db_store d))\<rparr>, snd (f None (db_store d)))"
  by (simp add: db_call_def next_fault_def split: prod.split)

lemma healthy_set: "db_faults d = [] \<Longrightarrow> retry_busy (db_call (set_next_turn now e rep)) d = db_call (set_next_turn now e rep) d"
  by (simp add: retry_busy_def set_w.retry_ok)

lemma healthy_clear: "db_faults d = [] \<Longrightarrow> retry_busy (db_call (clear_next_turn s)) d = db_call (clear_next_turn s) d"
  by (simp add: retry_busy_def clear_w.retry_ok)

lemmas healthy = healthy_read healthy_call healthy_set healthy_clear

lemma mark_paused_healthy:
  assumes "db_faults (qm_db q) = []" "qrows q s = Some row" "queue_status_parse (qr_status row) = StQueued"
  shows "qrows (mark_paused now s q) = (qrows q)(s \<mapsto> row\<lparr>qr_status := ''PAUSED'', qr_updated_at := now\<rparr>)"
  using assms by (auto simp: mark_paused_def healthy get_next_turn_def entry_of_row_def set_next_turn_def guarded_def)

lemma auto_receipts_healthy: "db_faults d = [] \<Longrightarrow> db_faults (fst (auto_receipts now rid rs d)) = []"
  by (induction rs arbitrary: d) (auto simp: Let_def healthy split: receipt_state.splits)

lemma auto_send_finish_healthy:
  assumes "db_faults (qm_db q) = []" "qrows q (session_ref_of key) = Some row" "queue_status_parse (qr_status row) = StQueued"
  shows "qrows (auto_send_finish now key rid outcome q) = (qrows q)(session_ref_of key :=
    if outcome_completed outcome then None else Some (row\<lparr>qr_status := ''PAUSED'', qr_updated_at := now\<rparr>))"
proof (cases outcome)
  case (ExecOk rs)
  obtain d1 sent where ar: "auto_receipts now rid rs (qm_db q) = (d1, sent)" by fastforce
  then have d1: "st_queue (db_store d1) = st_queue (db_store (qm_db q))" "sent = outcome_completed outcome" "db_faults d1 = []"
    using auto_receipts_queue [of now rid rs "qm_db q"] auto_receipts_sent [of now rid rs "qm_db q"]
      auto_receipts_healthy [OF assms(1), of now rid rs] ExecOk by simp_all
  show ?thesis
  proof (cases sent)
    case True
    then show ?thesis using ExecOk ar d1 by (simp add: auto_send_finish_def healthy clear_next_turn_def guarded_def)
  next
    case False
    then show ?thesis using ExecOk ar d1 assms mark_paused_healthy [of "q\<lparr>qm_db := d1\<rparr>" "session_ref_of key" row now]
      by (simp add: auto_send_finish_def Let_def)
  qed
next
  case (ExecErr err)
  let ?q = "q\<lparr>qm_db := fst (db_call (update_receipt_status now rid
     (if adapter_code err = OutcomeUnknownCode then ''OUTCOME_UNKNOWN'' else ''REJECTED'')) (qm_db q))\<rparr>"
  have "db_faults (qm_db ?q) = []" using assms by (simp add: healthy)
  then show ?thesis using ExecErr assms mark_paused_healthy [of ?q "session_ref_of key" row now]
    by (simp add: auto_send_finish_def Let_def)
qed

section \<open>Properties\<close>



text \<open>
  A queued prompt is not lost and not sent twice by a send that runs undisturbed: with the
  desktop idle and asking nothing it is sent, and afterwards the entry is gone exactly if the desktop
  reported completion, and otherwise paused with its text; it is paused too when the desktop cannot be
  reached; and while the desktop is busy or asks something nothing happens. Other sessions' entries
  stay as they are.
\<close>

theorem auto_send_outcome:
  assumes "db_faults (qm_db q) = []"
    and "qrows q (session_ref_of key) = Some row" "queue_status_parse (qr_status row) = StQueued"
  shows "qrows (maybe_auto_send env now rid key snapr outcome q) = (qrows q)(session_ref_of key :=
    (case snapr of
       Inl _ \<Rightarrow> Some (row\<lparr>qr_status := ''PAUSED'', qr_updated_at := now\<rparr>)
     | Inr snap \<Rightarrow>
         if rs_current_turn snap \<noteq> None \<or> rs_pending_questions snap \<noteq> [] \<or> rs_pending_approvals snap \<noteq> [] then Some row
         else if outcome_completed outcome then None
         else Some (row\<lparr>qr_status := ''PAUSED'', qr_updated_at := now\<rparr>)))"
proof -
  let ?s = "session_ref_of key"
  have get: "get_next_turn ?s None (db_store (qm_db q)) = Inr (Some (entry_of_row ?s row))"
    using assms(2) by (simp add: get_next_turn_def)
  have st: "nt_status (entry_of_row ?s row) = StQueued" using assms(3) by (simp add: entry_of_row_def)
  show ?thesis
  proof (cases snapr)
    case (Inl e)
    then show ?thesis using assms get st mark_paused_healthy [OF assms]
      by (simp add: maybe_auto_send_def auto_send_check_def healthy)
  next
    case (Inr snap)
    show ?thesis
    proof (cases "rs_current_turn snap \<noteq> None \<or> rs_pending_questions snap \<noteq> [] \<or> rs_pending_approvals snap \<noteq> []")
      case True
      then show ?thesis using assms get st Inr by (auto simp: maybe_auto_send_def auto_send_check_def healthy fun_upd_idem)
    next
      case False
      let ?q = "q\<lparr>qm_inflight := insert (sk_native_session_id key) (qm_inflight q)\<rparr>"
      have "maybe_auto_send env now rid key snapr outcome q = auto_send_finish now key rid outcome ?q"
        using False assms get st Inr by (simp add: maybe_auto_send_def auto_send_check_def healthy)
      then show ?thesis using False assms Inr auto_send_finish_healthy [of ?q key row now rid outcome] by simp
    qed
  qed
qed

text \<open>
  The queue's writes survive contention: whatever the database answers, a write makes between
  one and ten calls and sleeps at most 450 milliseconds; fewer than ten \<open>database is locked\<close> answers
  in a row lead to the same store and result as none; and a write that fails has changed nothing.
\<close>

theorem queue_writes_are_bounded_and_survive_contention:
  "(case retry_busy (db_call (set_next_turn now e rep)) d of (d', r) \<Rightarrow>
     (\<exists>k. 1 \<le> k \<and> k \<le> MAX_ATTEMPTS \<and> db_faults d' = drop k (db_faults d)) \<and> db_slept d' \<le> db_slept d + 450 \<and>
     (set_next_turn now e rep None (db_store d) = (db_store d', r) \<or> (\<exists>x. r = Inl x) \<and> db_store d' = db_store d) \<and>
     (db_faults d = fs @ rest \<and> list_all (\<lambda>f. case f of Some x \<Rightarrow> is_busy (SeSqlx x) | None \<Rightarrow> False) fs \<and> length fs < 10 \<and>
        (rest = [] \<or> hd rest = None) \<longrightarrow> set_next_turn now e rep None (db_store d) = (db_store d', r))) \<and>
   (case retry_busy (db_call (clear_next_turn s)) d of (d', r) \<Rightarrow>
     (\<exists>k. 1 \<le> k \<and> k \<le> MAX_ATTEMPTS \<and> db_faults d' = drop k (db_faults d)) \<and> db_slept d' \<le> db_slept d + 450 \<and>
     (clear_next_turn s None (db_store d) = (db_store d', r) \<or> (\<exists>x. r = Inl x) \<and> db_store d' = db_store d) \<and>
     (db_faults d = fs @ rest \<and> list_all (\<lambda>f. case f of Some x \<Rightarrow> is_busy (SeSqlx x) | None \<Rightarrow> False) fs \<and> length fs < 10 \<and>
        (rest = [] \<or> hd rest = None) \<longrightarrow> clear_next_turn s None (db_store d) = (db_store d', r)))"
  using set_w.retry_bounds [where now = now and e = e and rep = rep and d = d and fs = fs and rest = rest]
    clear_w.retry_bounds [where s = s and d = d and fs = fs and rest = rest]
  by (intro conjI) (simp_all only: retry_busy_def)

text \<open>
  A replacement that arrives while the old prompt is being sent is lost: it is accepted, and then
  removed, unsent, together with the old one when that is reported completed.
\<close>

lemma replacement_during_send_is_lost:
  assumes "db_faults (qm_db q) = []" "qrows q (session_ref_of key) = Some row" "outcome_completed outcome"
  shows "case queue_set env now key text True rid snap sub q of (q1, r) \<Rightarrow> (\<exists>turn. r = Inr turn \<and> qt_state turn = QsQueued) \<and>
    map_option qr_prompt (qrows q1 (session_ref_of key)) = Some text \<and>
    (db_faults (qm_db q1) = [] \<longrightarrow> qrows (auto_send_finish now' key rid' outcome q1) (session_ref_of key) = None)"
proof -
  obtain q1 r where q1: "queue_set env now key text True rid snap sub q = (q1, r)" by fastforce
  have set: "(\<exists>turn. r = Inr turn \<and> qt_state turn = QsQueued) \<and> (\<exists>row'. qrows q1 (session_ref_of key) = Some row' \<and> qr_prompt row' = text \<and>
      queue_status_parse (qr_status row') = StQueued)"
    using q1 assms
    by (auto simp: queue_set_def healthy get_next_turn_def set_next_turn_def guarded_def remember_request_id_def Let_def
        domain_turn_def entry_from_snapshot_def put_cursor_def)
  then obtain row' where row': "qrows q1 (session_ref_of key) = Some row'" "qr_prompt row' = text"
      "queue_status_parse (qr_status row') = StQueued" by blast
  show ?thesis using q1 set row' assms(3) auto_send_finish_healthy [of q1 key row' now' rid' outcome] by auto
qed

section \<open>Witnesses\<close>

definition ex_cmd_env :: cmd_env where
  "ex_cmd_env = \<lparr>parse_uuid = Some, parse_time = Some, payload_digest = (\<lambda>p. case p of PlStartTurn t \<Rightarrow> t | _ \<Rightarrow> [])\<rparr>"

definition ex_key :: session_key where
  "ex_key = \<lparr>sk_device_id = ''d'', sk_agent_kind = CodexDesktop, sk_native_session_id = ''s'', sk_relay_session_uuid = None\<rparr>"

definition ex_idle :: runtime_snapshot where
  "ex_idle = \<lparr>rs_session_key = ex_key, rs_runtime_revision = 7, rs_current_turn = None, rs_pending_questions = [], rs_pending_approvals = [],
     rs_background_commands = [], rs_capabilities = caps_unavailable\<rparr>"

definition ex_row :: queue_row where
  "ex_row = \<lparr>qr_prompt = ''go on'', qr_after_turn_id = ''t1'', qr_runtime_revision = 6, qr_status = ''QUEUED'',
     qr_created_at = ''t0'', qr_updated_at = ''t0''\<rparr>"

definition ex_qm :: "sqlx_error option list \<Rightarrow> qm" where
  "ex_qm fs = qm_new \<lparr>db_store = store_new\<lparr>st_queue := [(session_ref_of ex_key, ex_row)]\<rparr>, db_faults = fs, db_slept = 0\<rparr>"

definition ex_completed :: queue_op where
  "ex_completed = QoEvent ''t2'' ex_key (TurnLifecycle (turn_native ''t1'') PhIdle (Some OutCompleted)) ''r9'' (Inr ex_idle)"

lemmas ex_queue_defs = ex_qm_def qm_new_def ex_row_def store_new_def ex_completed_def ex_idle_def ex_cmd_env_def



theorem auto_send_outcome_witness:
  "qrows (maybe_auto_send ex_cmd_env ''t2'' ''r9'' ex_key (Inr ex_idle) (ExecOk [RsDispatchedToCodex, RsCompleted]) (ex_qm []))
     (session_ref_of ex_key) = None"
  by (subst auto_send_outcome [where row = ex_row]) (simp_all add: ex_queue_defs)

theorem queue_writes_are_bounded_and_survive_contention_witness:
  "clear_next_turn (session_ref_of ex_key) None (db_store (qm_db (ex_qm (replicate 9 (Some (Sqlx_error ''database is locked'')))))) =
     (case retry_busy (db_call (clear_next_turn (session_ref_of ex_key))) (qm_db (ex_qm (replicate 9 (Some (Sqlx_error ''database is locked''))))) of
        (d', r) \<Rightarrow> (db_store d', r))"
proof -
  let ?fs = "replicate 9 (Some (Sqlx_error ''database is locked''))"
  have "list_all (\<lambda>f. case f of Some x \<Rightarrow> is_busy (SeSqlx x) | None \<Rightarrow> False) ?fs"
    by (simp add: list_all_iff is_busy_def starts_with_def)
  then show ?thesis
    using queue_writes_are_bounded_and_survive_contention [where s = "session_ref_of ex_key" and fs = ?fs and rest = "[]" and d = "qm_db (ex_qm ?fs)"]
    by (auto simp: ex_qm_def qm_new_def split: prod.splits)
qed

end
