(* ===== verification/Gateway.thy ===== *)
theory Gateway
  imports Turn_Queue
begin

text \<open>
  The command gateway (\<open>apps/bridge/src/commands/gateway.rs\<close>), through which every write command
  passes: gate on agent kind and capabilities, deduplication by request id together with the
  acceptance record, check of the expected turn and revision, hand-over to the queue or to the
  desktop, and the receipts that follow.

  \<open>submit\<close> awaits the database, the snapshot and the executor; between these points other tasks run.
  It is therefore given both as one function and as the phases it consists of, which the
  machine at the end interleaves with other submissions, the forwarders of receipts, the queue's own
  steps and the shutdown. \<open>gw_out\<close> lists what was sent to the callers' channels; the capability set,
  the snapshots and the executor's answers are arguments.
\<close>

section \<open>State\<close>

datatype stored_receipt_state = SrReceived | SrAcceptedByBridge | SrDispatchedToCodex | SrCompleted | SrRejected | SrOutcomeUnknown

definition stored_state_from_status :: "string \<Rightarrow> stored_receipt_state" where
  "stored_state_from_status s = (if s = ''RECEIVED'' then SrReceived
     else if s = ''DISPATCHED_TO_CODEX'' then SrDispatchedToCodex
     else if s = ''COMPLETED'' then SrCompleted
     else if s = ''REJECTED'' then SrRejected
     else if s = ''OUTCOME_UNKNOWN'' then SrOutcomeUnknown
     else SrAcceptedByBridge)"

datatype submission = SubAccepted | SubReplayed string stored_receipt_state

fun is_accepted :: "submission \<Rightarrow> bool" where
  "is_accepted SubAccepted = True"
| "is_accepted (SubReplayed i s) = False"

record gw =
  gw_qs :: qsys
  gw_closed :: bool
  gw_inflight :: "string set"
  gw_out :: "(string \<times> receipt_state) list"

abbreviation gw_db :: "gw \<Rightarrow> db" where "gw_db g \<equiv> qm_db (qs_qm (gw_qs g))"

definition set_qm :: "qm \<Rightarrow> gw \<Rightarrow> gw" where
  "set_qm q g = g\<lparr>gw_qs := (gw_qs g)\<lparr>qs_qm := q\<rparr>\<rparr>"

definition set_db :: "db \<Rightarrow> gw \<Rightarrow> gw" where
  "set_db d g = set_qm ((qs_qm (gw_qs g))\<lparr>qm_db := d\<rparr>) g"

definition gw_new :: "db \<Rightarrow> gw" where
  "gw_new d = \<lparr>gw_qs = \<lparr>qs_qm = qm_new d, qs_sending = []\<rparr>, gw_closed = False, gw_inflight = {}, gw_out = []\<rparr>"

section \<open>Receipts\<close>

definition finalize_receipt :: "string \<Rightarrow> string \<Rightarrow> receipt_state \<Rightarrow> gw \<Rightarrow> gw" where
  "finalize_receipt now rid state g =
    (let g1 = set_db (fst (db_call (update_receipt_status now rid (receipt_status_str state)) (gw_db g))) g
     in g1\<lparr>gw_out := gw_out g1 @ [(rid, state)], gw_inflight := gw_inflight g1 - {rid}\<rparr>)"

definition finalize_rejected :: "string \<Rightarrow> string \<Rightarrow> stable_error_code \<Rightarrow> string \<Rightarrow> gw \<Rightarrow> gw" where
  "finalize_rejected now rid code msg g = finalize_receipt now rid (RsRejected code msg) g"

definition finalize_local :: "string \<Rightarrow> string \<Rightarrow> bridge_error + 'a \<Rightarrow> gw \<Rightarrow> gw" where
  "finalize_local now rid result g = finalize_receipt now rid
     (case result of Inr _ \<Rightarrow> RsCompleted | Inl err \<Rightarrow> RsRejected (be_code err) (be_message err)) g"

fun is_final_receipt :: "receipt_state \<Rightarrow> bool" where
  "is_final_receipt RsDispatchedToCodex = False"
| "is_final_receipt _ = True"

text \<open>One receipt in the forwarder's loop; the end of the stream without a final receipt.\<close>

definition forward_one :: "string \<Rightarrow> string \<Rightarrow> receipt_state \<Rightarrow> gw \<Rightarrow> gw" where
  "forward_one now rid state g =
    (let g1 = set_db (fst (db_call (update_receipt_status now rid (receipt_status_str state)) (gw_db g))) g
     in g1\<lparr>gw_out := gw_out g1 @ [(rid, state)]\<rparr>)"

definition forward_end :: "string \<Rightarrow> gw \<Rightarrow> gw" where
  "forward_end rid g = g\<lparr>gw_inflight := gw_inflight g - {rid}\<rparr>"

fun spawn_forward :: "string \<Rightarrow> string \<Rightarrow> receipt_state list \<Rightarrow> gw \<Rightarrow> gw" where
  "spawn_forward now rid [] g = forward_end rid (forward_one now rid RsOutcomeUnknown g)"
| "spawn_forward now rid (r # rs) g =
    (let g1 = forward_one now rid r g in if is_final_receipt r then forward_end rid g1 else spawn_forward now rid rs g1)"

section \<open>Phases of a submission\<close>

definition submit_gate :: "bool \<Rightarrow> capability_set \<Rightarrow> command_request \<Rightarrow> bridge_error option" where
  "submit_gate closed caps req =
    (if closed then Some (bridge_err DeviceOffline ''bridge is shutting down; not accepting new commands'')
     else if sk_agent_kind (cr_session_key req) = ZcodeDesktop \<and>
       \<not> (case cr_payload req of PlAnswerQuestion _ _ _ \<Rightarrow> True | PlSubmitApproval _ _ \<Rightarrow> True | _ \<Rightarrow> False)
       then Some (bridge_err CapabilityUnsupported ''operation not supported for zcode hook sessions'')
     else if cr_operation req \<noteq> QueueNextTurn \<and> \<not> caps_supports caps (cr_operation req)
       then Some (if cs_control_mode caps = ReadOnly
         then bridge_err ControlReadOnly ''desktop capability probe did not enable this write''
         else bridge_err CapabilityUnsupported ''operation not supported by current desktop version'')
     else None)"

definition receipt_row :: "cmd_env \<Rightarrow> string \<Rightarrow> command_request \<Rightarrow> request_receipt" where
  "receipt_row env now req = \<lparr>rr_request_id = cr_request_id req, rr_session = session_ref_of (cr_session_key req),
     rr_operation = operation_name (cr_operation req), rr_status = ''ACCEPTED_BY_BRIDGE'',
     rr_payload_digest = payload_digest env (cr_payload req), rr_created_at = now, rr_updated_at = now\<rparr>"

text \<open>\<open>Inr None\<close>: recorded now, go on. \<open>Inr (Some s)\<close>: seen before.\<close>

definition submit_record :: "cmd_env \<Rightarrow> string \<Rightarrow> command_request \<Rightarrow> gw \<Rightarrow> gw \<times> (bridge_error + submission option)" where
  "submit_record env now req g = (case db_call (record_receipt (receipt_row env now req)) (gw_db g) of
     (d, Inr Inserted) \<Rightarrow> ((set_db d g)\<lparr>gw_inflight := insert (cr_request_id req) (gw_inflight g)\<rparr>, Inr None)
   | (d, Inr Existing) \<Rightarrow> (let (d2, r) = db_read (get_receipt (cr_request_id req)) d in
       (set_db d2 g, Inr (Some (SubReplayed (cr_request_id req)
          (case r of Inr (Some row) \<Rightarrow> stored_state_from_status (rr_status row) | _ \<Rightarrow> SrAcceptedByBridge)))))
   | (d, Inl err) \<Rightarrow> (set_db d g, Inl (bridge_err (store_error_code err) (store_error_text err))))"

definition needs_snapshot :: "command_request \<Rightarrow> bool" where
  "needs_snapshot req \<longleftrightarrow> cr_expected_turn_id req \<noteq> None \<or> cr_expected_runtime_revision req \<noteq> None \<or>
     (case cr_payload req of PlQueueNextTurn _ _ \<Rightarrow> True | _ \<Rightarrow> False)"

definition stale_reason :: "command_request \<Rightarrow> runtime_snapshot \<Rightarrow> string option" where
  "stale_reason req snap =
    (let current = map_option cu_turn (rs_current_turn snap) in
     case cr_expected_runtime_revision req of
       Some expected \<Rightarrow>
         if expected \<noteq> rs_runtime_revision snap \<and> \<not> permits_revision_drift req current
         then Some (''runtime revision moved '' @ show_nat (unat expected) @ '' -> '' @ show_nat (unat (rs_runtime_revision snap)))
         else if cr_expected_turn_id req \<noteq> None \<and> current \<noteq> cr_expected_turn_id req then Some ''target turn is no longer current''
         else None
     | None \<Rightarrow>
         if cr_expected_turn_id req \<noteq> None \<and> current \<noteq> cr_expected_turn_id req then Some ''target turn is no longer current'' else None)"

text \<open>\<open>Inl\<close>: rejected, done. \<open>Inr\<close>: the snapshot that was checked, if one was needed.\<close>

definition submit_validate :: "string \<Rightarrow> command_request \<Rightarrow> adapter_error + runtime_snapshot \<Rightarrow> gw \<Rightarrow> gw \<times> (unit + runtime_snapshot option)" where
  "submit_validate now req snapr g =
    (if \<not> needs_snapshot req then (g, Inr None)
     else case snapr of
       Inl err \<Rightarrow> (finalize_rejected now (cr_request_id req) (adapter_code err) (adapter_error_text err) g, Inl ())
     | Inr snap \<Rightarrow> (case stale_reason req snap of
         Some why \<Rightarrow> (finalize_rejected now (cr_request_id req) StaleTurn why g, Inl ())
       | None \<Rightarrow> (g, Inr (Some snap))))"

text \<open>
  Hand-over. Queue payloads are done here; every other payload yields the request for the executor.
  The source asserts that a queue entry always comes with a checked snapshot (\<open>expect\<close>).
\<close>

definition executor_request :: "cmd_env \<Rightarrow> command_request \<Rightarrow> command_request" where
  "executor_request env req = req\<lparr>cr_payload_digest := Some (payload_digest env (cr_payload req))\<rparr>"

datatype hand_over = HoDone | HoExecute command_request | HoPanic

definition submit_dispatch :: "cmd_env \<Rightarrow> string \<Rightarrow> command_request \<Rightarrow> runtime_snapshot option \<Rightarrow> bool \<Rightarrow> gw \<Rightarrow> gw \<times> hand_over" where
  "submit_dispatch env now req snap subscribed g =
    (let key = cr_session_key req; rid = cr_request_id req; q = qs_qm (gw_qs g) in
     case cr_payload req of
       PlQueueNextTurn input replace \<Rightarrow> (case snap of
         None \<Rightarrow> (g, HoPanic)
       | Some sn \<Rightarrow> (let (q1, r) = queue_set env now key input replace rid sn subscribed q in (finalize_local now rid r (set_qm q1 g), HoDone)))
     | PlCancelQueue \<Rightarrow> (let (q1, r) = queue_cancel key q in (finalize_local now rid r (set_qm q1 g), HoDone))
     | PlPauseQueue \<Rightarrow> (let (q1, r) = queue_pause now key q in (finalize_local now rid r (set_qm q1 g), HoDone))
     | _ \<Rightarrow> (g, HoExecute (executor_request env req)))"

definition submit_failed :: "string \<Rightarrow> string \<Rightarrow> adapter_error \<Rightarrow> gw \<Rightarrow> gw" where
  "submit_failed now rid err g = finalize_receipt now rid
     (if adapter_code err = OutcomeUnknownCode then RsOutcomeUnknown else RsRejected (adapter_code err) (adapter_message err)) g"

text \<open>
  The whole submission, run without interruption, with the forwarder run to its end. The last
  component lists what was handed to the executor.
\<close>

definition submit :: "cmd_env \<Rightarrow> string \<Rightarrow> capability_set \<Rightarrow> command_request \<Rightarrow> adapter_error + runtime_snapshot \<Rightarrow> bool \<Rightarrow> exec_outcome \<Rightarrow> gw \<Rightarrow>
    gw \<times> (bridge_error + submission) \<times> command_request list" where
  "submit env now caps req snapr subscribed outcome g =
    (case submit_gate (gw_closed g) caps req of
       Some err \<Rightarrow> (g, Inl err, [])
     | None \<Rightarrow> (case submit_record env now req g of
         (g1, Inl err) \<Rightarrow> (g1, Inl err, [])
       | (g1, Inr (Some s)) \<Rightarrow> (g1, Inr s, [])
       | (g1, Inr None) \<Rightarrow> (case submit_validate now req snapr g1 of
           (g2, Inl _) \<Rightarrow> (g2, Inr SubAccepted, [])
         | (g2, Inr snap) \<Rightarrow> (case submit_dispatch env now req snap subscribed g2 of
             (g3, HoExecute r) \<Rightarrow> ((case outcome of
                 ExecOk rs \<Rightarrow> spawn_forward now (cr_request_id req) rs g3
               | ExecErr err \<Rightarrow> submit_failed now (cr_request_id req) err g3), Inr SubAccepted, [r])
           | (g3, _) \<Rightarrow> (g3, Inr SubAccepted, [])))))"

section \<open>Shutdown\<close>

fun shutdown_each :: "string \<Rightarrow> string list \<Rightarrow> gw \<Rightarrow> gw" where
  "shutdown_each now [] g = g"
| "shutdown_each now (i # is) g = shutdown_each now is
     (let g1 = set_db (fst (db_call (update_receipt_status now i ''OUTCOME_UNKNOWN'') (gw_db g))) g
      in g1\<lparr>gw_out := gw_out g1 @ [(i, RsOutcomeUnknown)]\<rparr>)"

text \<open>\<open>pending\<close> is the order in which the map yields the ids in flight.\<close>

definition graceful_shutdown :: "string \<Rightarrow> string list \<Rightarrow> gw \<Rightarrow> gw \<times> string list" where
  "graceful_shutdown now pending g = (shutdown_each now pending (g\<lparr>gw_closed := True, gw_inflight := {}\<rparr>), pending)"

section \<open>The gateway at work\<close>

text \<open>
  A task is a submission or a forwarder at one of its await points. A step lets one task go on to
  its next await point, or submits, shuts down, or is a step of the queue. \<open>gs_done\<close> lists the ids of
  the requests that were handed to the queue or the executor.
\<close>

datatype gw_task =
    TkGated command_request
  | TkRecorded command_request
  | TkValidated command_request "runtime_snapshot option"
  | TkExecuting string
  | TkForwarding string

record gsys =
  gs_gw :: gw
  gs_tasks :: "gw_task list"
  gs_done :: "string list"

datatype gw_op =
    GoSubmit capability_set command_request
  | GoRecord nat string
  | GoValidate nat string "adapter_error + runtime_snapshot"
  | GoDispatch nat string bool
  | GoStarted nat
  | GoFailed nat string adapter_error
  | GoReceipt nat string "receipt_state option"
  | GoShutdown string "string list"
  | GoQueue queue_op

definition task_at :: "gsys \<Rightarrow> nat \<Rightarrow> gw_task option" where
  "task_at gs i = (if i < length (gs_tasks gs) then Some (gs_tasks gs ! i) else None)"

definition goes_on :: "nat \<Rightarrow> gw \<Rightarrow> gw_task \<Rightarrow> gsys \<Rightarrow> gsys" where
  "goes_on i g t gs = gs\<lparr>gs_gw := g, gs_tasks := (gs_tasks gs)[i := t]\<rparr>"

definition ends :: "nat \<Rightarrow> gw \<Rightarrow> gsys \<Rightarrow> gsys" where
  "ends i g gs = gs\<lparr>gs_gw := g, gs_tasks := remove_nth i (gs_tasks gs)\<rparr>"

fun gw_step :: "cmd_env \<Rightarrow> gsys \<Rightarrow> gw_op \<Rightarrow> gsys" where
  "gw_step env gs (GoSubmit caps req) = (case submit_gate (gw_closed (gs_gw gs)) caps req of
     None \<Rightarrow> gs\<lparr>gs_tasks := gs_tasks gs @ [TkGated req]\<rparr> | Some _ \<Rightarrow> gs)"
| "gw_step env gs (GoRecord i now) = (case task_at gs i of
     Some (TkGated req) \<Rightarrow> (case submit_record env now req (gs_gw gs) of
       (g, Inr None) \<Rightarrow> goes_on i g (TkRecorded req) gs | (g, _) \<Rightarrow> ends i g gs)
   | _ \<Rightarrow> gs)"
| "gw_step env gs (GoValidate i now snapr) = (case task_at gs i of
     Some (TkRecorded req) \<Rightarrow> (case submit_validate now req snapr (gs_gw gs) of
       (g, Inr snap) \<Rightarrow> goes_on i g (TkValidated req snap) gs | (g, Inl _) \<Rightarrow> ends i g gs)
   | _ \<Rightarrow> gs)"
| "gw_step env gs (GoDispatch i now sub) = (case task_at gs i of
     Some (TkValidated req snap) \<Rightarrow> (case submit_dispatch env now req snap sub (gs_gw gs) of
       (g, HoExecute r) \<Rightarrow> (goes_on i g (TkExecuting (cr_request_id req)) gs)\<lparr>gs_done := gs_done gs @ [cr_request_id r]\<rparr>
     | (g, HoDone) \<Rightarrow> (ends i g gs)\<lparr>gs_done := gs_done gs @ [cr_request_id req]\<rparr>
     | (g, HoPanic) \<Rightarrow> ends i g gs)
   | _ \<Rightarrow> gs)"
| "gw_step env gs (GoStarted i) = (case task_at gs i of
     Some (TkExecuting rid) \<Rightarrow> goes_on i (gs_gw gs) (TkForwarding rid) gs | _ \<Rightarrow> gs)"
| "gw_step env gs (GoFailed i now err) = (case task_at gs i of
     Some (TkExecuting rid) \<Rightarrow> ends i (submit_failed now rid err (gs_gw gs)) gs | _ \<Rightarrow> gs)"
| "gw_step env gs (GoReceipt i now r) = (case task_at gs i of
     Some (TkForwarding rid) \<Rightarrow> (case r of
       None \<Rightarrow> ends i (forward_end rid (forward_one now rid RsOutcomeUnknown (gs_gw gs))) gs
     | Some st \<Rightarrow> (let g = forward_one now rid st (gs_gw gs) in
         if is_final_receipt st then ends i (forward_end rid g) gs else goes_on i g (TkForwarding rid) gs))
   | _ \<Rightarrow> gs)"
| "gw_step env gs (GoShutdown now pending) =
     (if distinct pending \<and> set pending = gw_inflight (gs_gw gs) then gs\<lparr>gs_gw := fst (graceful_shutdown now pending (gs_gw gs))\<rparr> else gs)"
| "gw_step env gs (GoQueue x) = gs\<lparr>gs_gw := (gs_gw gs)\<lparr>gw_qs := queue_step env (gw_qs (gs_gw gs)) x\<rparr>\<rparr>"

section \<open>Which request ids are on record\<close>

definition known :: "db \<Rightarrow> string \<Rightarrow> bool" where
  "known d i \<longleftrightarrow> has_receipt (db_store d) i"

lemma known_store: "st_receipts (db_store d') = st_receipts (db_store d) \<Longrightarrow> known d' = known d"
  by (simp add: known_def fun_eq_iff)

lemma known_read: "db_read f d = (d', r) \<Longrightarrow> known d' = known d"
  by (rule known_store) (auto simp: db_read_def)

lemma known_update [simp]: "known (fst (db_call (update_receipt_status now rid s) d)) = known d"
  by (auto simp: known_def fun_eq_iff db_call_def update_receipt_status_def guarded_def split: option.splits)

text \<open>The queue's own writes leave the receipts alone, and a healthy database healthy.\<close>

definition spares :: "db \<Rightarrow> db \<Rightarrow> bool" where
  "spares d d' \<longleftrightarrow> st_receipts (db_store d') = st_receipts (db_store d) \<and> (db_faults d = [] \<longrightarrow> db_faults d' = [])"

lemma spares_refl [simp]: "spares d d"
  by (simp add: spares_def)

lemma spares_trans: "spares a b \<Longrightarrow> spares b c \<Longrightarrow> spares a c"
  by (auto simp: spares_def)

lemma spares_known: "spares d d' \<Longrightarrow> known d' = known d"
  unfolding spares_def by (rule known_store, erule conjunct1)

lemma spares_read: "db_read f d = (d', r) \<Longrightarrow> spares d d'"
  by (auto simp: db_read_def spares_def)

lemma spares_cursor: "spares d (fst (db_call (put_cursor now k v) d))"
  by (auto simp: spares_def db_call_def put_cursor_def guarded_def split: option.splits)

lemma spares_retry:
  "retry_busy (db_call (set_next_turn now e rep)) d = (d', r) \<Longrightarrow> spares d d'"
  "retry_busy (db_call (clear_next_turn s)) d = (d', r') \<Longrightarrow> spares d d'"
proof -
  assume r: "retry_busy (db_call (set_next_turn now e rep)) d = (d', r)"
  then have "db_store d' = fst (set_next_turn now e rep None (db_store d)) \<or> db_store d' = db_store d"
    using set_w.retry_effect [of 0 now e rep d] by (auto simp: retry_busy_def)
  moreover have "\<exists>k. db_faults d' = drop k (db_faults d)"
    using set_w.retry_cost [of 0 now e rep d] r by (auto simp: retry_busy_def)
  ultimately show "spares d d'" by (auto simp: spares_def set_next_turn_def guarded_def split: option.splits)
next
  assume r: "retry_busy (db_call (clear_next_turn s)) d = (d', r')"
  then have "db_store d' = fst (clear_next_turn s None (db_store d)) \<or> db_store d' = db_store d"
    using clear_w.retry_effect [of 0 s d] by (auto simp: retry_busy_def)
  moreover have "\<exists>k. db_faults d' = drop k (db_faults d)"
    using clear_w.retry_cost [of 0 s d] r by (auto simp: retry_busy_def)
  ultimately show "spares d d'" by (auto simp: spares_def clear_next_turn_def guarded_def)
qed

lemma known_set [simp]: "known (fst (retry_busy (db_call (set_next_turn now e rep)) d)) = known d"
  by (rule spares_known [OF spares_retry(1) [OF prod.collapse [symmetric]]])

lemma known_clear [simp]: "known (fst (retry_busy (db_call (clear_next_turn s)) d)) = known d"
  by (rule spares_known [OF spares_retry(2) [OF prod.collapse [symmetric]]])

lemma known_record:
  assumes "db_call (record_receipt r) d = (d', res)"
  shows "known d' = (if res = Inr Inserted then (known d)(rr_request_id r := True) else known d) \<and>
    (res = Inr Inserted \<longrightarrow> \<not> known d (rr_request_id r))"
  using assms
  by (auto simp: known_def fun_eq_iff db_call_def record_receipt_def guarded_def split: option.splits if_splits)

lemma known_mark_paused [simp]: "known (qm_db (mark_paused now s q)) = known (qm_db q)"
  by (auto simp: mark_paused_def Let_def split: prod.splits sum.splits option.splits dest: known_read)

lemma known_auto_receipts [simp]: "known (fst (auto_receipts now rid rs d)) = known d"
  by (induction rs arbitrary: d) (auto simp: Let_def split: receipt_state.splits)

lemma known_auto_send_check [simp]: "known (qm_db (fst (auto_send_check env now rid key snapr q))) = known (qm_db q)"
  by (auto simp: auto_send_check_def Let_def split: prod.splits sum.splits option.splits dest: known_read)

lemma known_auto_send_finish [simp]: "known (qm_db (auto_send_finish now key rid outcome q)) = known (qm_db q)"
proof (cases outcome)
  case (ExecOk rs)
  obtain d1 sent where ar: "auto_receipts now rid rs (qm_db q) = (d1, sent)" by fastforce
  then have "known d1 = known (qm_db q)" using known_auto_receipts [of now rid rs "qm_db q"] by simp
  then show ?thesis using ExecOk ar by (simp add: auto_send_finish_def Let_def)
qed (simp add: auto_send_finish_def Let_def)

lemma known_on_turn_started [simp]: "known (qm_db (on_turn_started now s turn q)) = known (qm_db q)"
  by (auto simp: on_turn_started_def Let_def split: prod.splits sum.splits option.splits dest: known_read)

lemma known_on_event [simp]: "known (qm_db (fst (on_event env now key ev rid snapr q))) = known (qm_db q)"
proof (cases ev)
  case (TurnLifecycle turn ph out)
  then show ?thesis by (cases ph; cases out; cases "the out") (simp_all add: on_event_def Let_def)
qed (simp add: on_event_def)

lemma known_retry:
  "retry_busy (db_call (set_next_turn now e rep)) d = (d', r) \<Longrightarrow> known d' = known d"
  "retry_busy (db_call (clear_next_turn s)) d = (d', r') \<Longrightarrow> known d' = known d"
  using known_set [of now e rep d] known_clear [of s d] by simp_all

lemma known_stored: "stored_request_id env key q = (q', i) \<Longrightarrow> known (qm_db q') = known (qm_db q)"
  by (auto simp: stored_request_id_def Let_def split: prod.splits dest: known_read)

lemma spares_remember: "spares (qm_db q) (qm_db (remember_request_id now key rid q))"
  by (simp add: remember_request_id_def spares_cursor)

lemma spares_queue_set: "spares (qm_db q) (qm_db (fst (queue_set env now key input rep rid snap sub q)))"
proof -
  obtain d1 ex where rd: "db_read (get_next_turn (session_ref_of key)) (qm_db q) = (d1, ex)" by fastforce
  obtain d2 r where r: "retry_busy (db_call (set_next_turn now (entry_from_snapshot now key snap input) rep)) d1 = (d2, r)" by fastforce
  have "spares (qm_db q) d1" "spares (qm_db q) d2" "spares (qm_db q) (qm_db (remember_request_id now key rid (q\<lparr>qm_db := d2\<rparr>)))"
    using spares_read [OF rd] spares_retry(1) [OF r] spares_remember [of "q\<lparr>qm_db := d2\<rparr>" now key rid] by (auto intro: spares_trans)
  then show ?thesis using rd r by (auto simp: queue_set_def Let_def split: sum.splits option.splits)
qed

lemma spares_queue_cancel: "spares (qm_db q) (qm_db (fst (queue_cancel key q)))"
  by (auto simp: queue_cancel_def Let_def split: prod.splits intro: spares_retry)

lemma spares_queue_pause: "spares (qm_db q) (qm_db (fst (queue_pause now key q)))"
  by (auto simp: queue_pause_def Let_def split: prod.splits sum.splits option.splits
      intro: spares_read spares_retry spares_trans [OF spares_read spares_retry(1)])

lemmas known_queue_ops [simp] = spares_known [OF spares_queue_set] spares_known [OF spares_queue_cancel]
  spares_known [OF spares_queue_pause]

lemma known_queue_resume [simp]: "known (qm_db (fst (queue_resume env now key snapr sub rid snapr2 q))) = known (qm_db q)"
proof -
  obtain d1 ex where rd: "db_read (get_next_turn (session_ref_of key)) (qm_db q) = (d1, ex)" by fastforce
  have d1: "known d1 = known (qm_db q)" using known_read [OF rd] .
  have sent: "known (qm_db q5) = known (qm_db q4)" if "auto_send_check env now rid key snapr2 q4 = (q5, req)" for q4 q5 req
    using known_auto_send_check [of env now rid key snapr2 q4] that by simp
  show ?thesis using rd d1
    by (auto simp: queue_resume_def Let_def split: prod.splits sum.splits option.splits
        dest!: sent known_stored known_retry)
qed

lemma known_queue_step [simp]: "known (qm_db (qs_qm (queue_step env qs x))) = known (qm_db (qs_qm qs))"
proof (cases x)
  case (QoResume now key snapr sub rid snapr2)
  then show ?thesis using known_queue_resume [of env now key snapr sub rid snapr2 "qs_qm qs"]
    by (cases "queue_resume env now key snapr sub rid snapr2 (qs_qm qs)") (simp add: note_send_def)
next
  case (QoEvent now key ev rid snapr)
  then show ?thesis using known_on_event [of env now key ev rid snapr "qs_qm qs"]
    by (cases "on_event env now key ev rid snapr (qs_qm qs)") (simp add: note_send_def)
qed (auto simp: queue_replace_def split: prod.splits sum.splits)

lemma gw_db_set [simp]: "gw_db (set_db d g) = d" "gw_db (set_qm q g) = qm_db q"
  by (simp_all add: set_db_def set_qm_def)

lemma known_finalize [simp]: "known (gw_db (finalize_receipt now rid st g)) = known (gw_db g)"
  by (simp add: finalize_receipt_def Let_def)

lemma known_forward [simp]: "known (gw_db (forward_one now rid st g)) = known (gw_db g)" "gw_db (forward_end rid g) = gw_db g"
  by (simp_all add: forward_one_def forward_end_def Let_def)

lemma known_validate [simp]: "known (gw_db (fst (submit_validate now req snapr g))) = known (gw_db g)"
  by (auto simp: submit_validate_def finalize_rejected_def split: sum.splits option.splits)

lemma known_dispatch [simp]: "known (gw_db (fst (submit_dispatch env now req snap sub g))) = known (gw_db g)"
proof -
  have "known (qm_db q1) = known (qm_db q)" if "queue_set env now key input rep rid sn sub q = (q1, r)" for key input rep rid sn q q1 r
    using spares_known [OF spares_queue_set, of env now key input rep rid sn sub q] that by simp
  moreover have "known (qm_db q1) = known (qm_db q)" if "queue_cancel key q = (q1, r)" for key q q1 r
    using spares_known [OF spares_queue_cancel, of key q] that by simp
  moreover have "known (qm_db q1) = known (qm_db q)" if "queue_pause now key q = (q1, r)" for key q q1 r
    using spares_known [OF spares_queue_pause, of now key q] that by simp
  ultimately show ?thesis
    by (auto simp: submit_dispatch_def finalize_local_def Let_def split: command_payload.splits option.splits prod.splits)
qed

lemma known_shutdown [simp]: "known (gw_db (shutdown_each now is g)) = known (gw_db g)"
  by (induction "is" arbitrary: g) (simp_all add: Let_def)

lemma known_submit_record:
  assumes "submit_record env now req g = (g', r)"
  shows "known (gw_db g') = (if r = Inr None then (known (gw_db g))(cr_request_id req := True) else known (gw_db g)) \<and>
    (r = Inr None \<longrightarrow> \<not> known (gw_db g) (cr_request_id req))"
proof -
  obtain d res where d: "db_call (record_receipt (receipt_row env now req)) (gw_db g) = (d, res)" by fastforce
  have rid: "rr_request_id (receipt_row env now req) = cr_request_id req" by (simp add: receipt_row_def)
  show ?thesis using assms d known_record [OF d] rid
    by (auto simp: submit_record_def Let_def split: sum.splits upsert_outcome.splits prod.splits dest!: known_read)
qed

section \<open>A request is performed at most once\<close>

fun holds :: "string \<Rightarrow> gw_task \<Rightarrow> bool" where
  "holds i (TkRecorded req) = (cr_request_id req = i)"
| "holds i (TkValidated req snap) = (cr_request_id req = i)"
| "holds i _ = False"

text \<open>
  A request that came on record since the store was \<open>st\<close> is performed already, or about to be by one
  task, or neither; one that was on record then is not performed.
\<close>

definition once_ok :: "store \<Rightarrow> gsys \<Rightarrow> bool" where
  "once_ok st gs \<longleftrightarrow> (\<forall>i. count_list (gs_done gs) i + length (filter (holds i) (gs_tasks gs)) \<le> (if known (gw_db (gs_gw gs)) i \<and> \<not> has_receipt st i then 1 else 0)) \<and>
     (\<forall>i. has_receipt st i \<longrightarrow> known (gw_db (gs_gw gs)) i)"

lemma once_okD: "once_ok st gs \<Longrightarrow> count_list (gs_done gs) i + length (filter (holds i) (gs_tasks gs)) \<le>
    (if known (gw_db (gs_gw gs)) i \<and> \<not> has_receipt st i then 1 else 0)"
  "once_ok st gs \<Longrightarrow> has_receipt st i \<Longrightarrow> known (gw_db (gs_gw gs)) i"
  unfolding once_ok_def by blast+

lemma count_filter_update:
  "i < length xs \<Longrightarrow> length (filter p (xs[i := t])) + (if p (xs ! i) then 1 else 0) = length (filter p xs) + (if p t then 1 else 0)"
proof (induction xs arbitrary: i)
  case (Cons x xs)
  then show ?case by (cases i) (auto dest: Cons.IH)
qed simp

lemma count_filter_remove:
  "i < length xs \<Longrightarrow> length (filter p (remove_nth i xs)) + (if p (xs ! i) then 1 else 0) = length (filter p xs)"
proof (induction xs arbitrary: i)
  case (Cons x xs)
  then show ?case by (cases i) auto
qed simp

lemma task_atD: "task_at gs i = Some t \<Longrightarrow> i < length (gs_tasks gs) \<and> gs_tasks gs ! i = t"
  by (simp add: task_at_def split: if_splits)

lemma once_ok_same_tasks:
  "once_ok st gs \<Longrightarrow> known (gw_db g) = known (gw_db (gs_gw gs)) \<Longrightarrow> once_ok st (gs\<lparr>gs_gw := g\<rparr>)"
  by (simp add: once_ok_def)

lemma once_ok_goes_on:
  assumes "once_ok st gs" "task_at gs i = Some t0" "known (gw_db g) = known (gw_db (gs_gw gs))" "\<And>j. holds j t \<Longrightarrow> holds j t0"
  shows "once_ok st (goes_on i g t gs)"
  unfolding once_ok_def
proof (intro conjI allI)
  fix j
  show "has_receipt st j \<longrightarrow> known (gw_db (gs_gw (goes_on i g t gs))) j" using once_okD [OF assms(1), of j] assms(3) by (simp add: goes_on_def)
  show "count_list (gs_done (goes_on i g t gs)) j + length (filter (holds j) (gs_tasks (goes_on i g t gs))) \<le>
      (if known (gw_db (gs_gw (goes_on i g t gs))) j \<and> \<not> has_receipt st j then 1 else 0)"
    using once_okD [OF assms(1), of j] task_atD [OF assms(2)] assms(3) assms(4) [of j]
      count_filter_update [of i "gs_tasks gs" "holds j" t]
    by (simp add: goes_on_def split: if_splits)
qed

lemma once_ok_ends:
  assumes "once_ok st gs" "task_at gs i = Some t0" "known (gw_db g) = known (gw_db (gs_gw gs))"
  shows "once_ok st (ends i g gs)"
  unfolding once_ok_def
proof (intro conjI allI)
  fix j
  show "has_receipt st j \<longrightarrow> known (gw_db (gs_gw (ends i g gs))) j" using once_okD [OF assms(1), of j] assms(3) by (simp add: ends_def)
  show "count_list (gs_done (ends i g gs)) j + length (filter (holds j) (gs_tasks (ends i g gs))) \<le>
      (if known (gw_db (gs_gw (ends i g gs))) j \<and> \<not> has_receipt st j then 1 else 0)"
    using once_okD [OF assms(1), of j] task_atD [OF assms(2)] assms(3)
      count_filter_remove [of i "gs_tasks gs" "holds j"]
    by (simp add: ends_def split: if_splits)
qed

lemma once_ok_done:
  assumes "once_ok st gs" "task_at gs i = Some t0" "known (gw_db g) = known (gw_db (gs_gw gs))" "holds (cr_request_id req) t0"
  shows "once_ok st ((ends i g gs)\<lparr>gs_done := gs_done gs @ [cr_request_id req]\<rparr>)"
    and "once_ok st ((goes_on i g (TkExecuting rid) gs)\<lparr>gs_done := gs_done gs @ [cr_request_id req]\<rparr>)"
proof -
  have one: "holds j t0 \<Longrightarrow> j = cr_request_id req" for j using assms(4) by (cases t0) auto
  have "count_list (gs_done gs @ [cr_request_id req]) j + length (filter (holds j) (remove_nth i (gs_tasks gs))) \<le>
      (if known (gw_db g) j \<and> \<not> has_receipt st j then 1 else 0)" for j
    using once_okD [OF assms(1), of j] task_atD [OF assms(2)] assms(3,4) one [of j]
      count_filter_remove [of i "gs_tasks gs" "holds j"] by (auto simp del: length_0_conv split: if_splits)
  then show "once_ok st ((ends i g gs)\<lparr>gs_done := gs_done gs @ [cr_request_id req]\<rparr>)"
    using once_okD(2) [OF assms(1)] assms(3) by (simp add: once_ok_def ends_def)
  have "count_list (gs_done gs @ [cr_request_id req]) j + length (filter (holds j) ((gs_tasks gs)[i := TkExecuting rid])) \<le>
      (if known (gw_db g) j \<and> \<not> has_receipt st j then 1 else 0)" for j
    using once_okD [OF assms(1), of j] task_atD [OF assms(2)] assms(3,4) one [of j]
      count_filter_update [of i "gs_tasks gs" "holds j" "TkExecuting rid"] by (auto simp del: length_0_conv split: if_splits)
  then show "once_ok st ((goes_on i g (TkExecuting rid) gs)\<lparr>gs_done := gs_done gs @ [cr_request_id req]\<rparr>)"
    using once_okD(2) [OF assms(1)] assms(3) by (simp add: once_ok_def goes_on_def)
qed

lemma once_ok_recorded:
  assumes "once_ok st gs" "task_at gs i = Some (TkGated req)" "submit_record env now req (gs_gw gs) = (g, Inr None)"
  shows "once_ok st (goes_on i g (TkRecorded req) gs)"
proof -
  note k = known_submit_record [OF assms(3)]
  have new: "map_of (st_receipts st) (cr_request_id req) = None" using once_okD(2) [OF assms(1), of "cr_request_id req"] k
    by (cases "map_of (st_receipts st) (cr_request_id req)") auto
  have "count_list (gs_done gs) j + length (filter (holds j) ((gs_tasks gs)[i := TkRecorded req])) \<le> (if known (gw_db g) j \<and> \<not> has_receipt st j then 1 else 0)" for j
    using once_okD(1) [OF assms(1), of j] task_atD [OF assms(2)] k
      count_filter_update [of i "gs_tasks gs" "holds j" "TkRecorded req"] new by (auto split: if_splits)
  moreover have "known (gw_db g) j" if "has_receipt st j" for j using once_okD(2) [OF assms(1) that] k by simp
  ultimately show ?thesis by (simp add: once_ok_def goes_on_def)
qed

lemma submit_dispatch_request: "submit_dispatch env now req snap sub g = (g', HoExecute r) \<Longrightarrow> cr_request_id r = cr_request_id req"
  by (auto simp: submit_dispatch_def executor_request_def Let_def split: command_payload.splits option.splits prod.splits)

lemma once_ok_step:
  assumes ok: "once_ok st gs"
  shows "once_ok st (gw_step env gs x)"
proof (cases x)
  case (GoSubmit caps req)
  have "once_ok st (gs\<lparr>gs_tasks := gs_tasks gs @ [TkGated req]\<rparr>)" using ok by (simp add: once_ok_def)
  then show ?thesis using GoSubmit ok by (simp split: option.split)
next
  case (GoRecord i now)
  show ?thesis
  proof (cases "\<exists>req. task_at gs i = Some (TkGated req)")
    case True
    then obtain req where t: "task_at gs i = Some (TkGated req)" by blast
    obtain g r where r: "submit_record env now req (gs_gw gs) = (g, r)" by fastforce
    show ?thesis
    proof (cases "r = Inr None")
      case True
      then show ?thesis using GoRecord t r once_ok_recorded [OF ok t] by simp
    next
      case False
      then have "known (gw_db g) = known (gw_db (gs_gw gs))" using known_submit_record [OF r] by simp
      then show ?thesis using GoRecord t r False once_ok_ends [OF ok t] by (auto split: sum.splits option.splits)
    qed
  qed (use GoRecord ok in \<open>auto split: option.splits gw_task.splits\<close>)
next
  case (GoValidate i now snapr)
  show ?thesis
  proof (cases "\<exists>req. task_at gs i = Some (TkRecorded req)")
    case True
    then obtain req where t: "task_at gs i = Some (TkRecorded req)" by blast
    obtain g r where r: "submit_validate now req snapr (gs_gw gs) = (g, r)" by fastforce
    then have "known (gw_db g) = known (gw_db (gs_gw gs))" using known_validate [of now req snapr "gs_gw gs"] by simp
    then show ?thesis using GoValidate t r
      by (auto split: sum.splits intro: once_ok_goes_on [OF ok t] once_ok_ends [OF ok t])
  qed (use GoValidate ok in \<open>auto split: option.splits gw_task.splits\<close>)
next
  case (GoDispatch i now sub)
  show ?thesis
  proof (cases "\<exists>req snap. task_at gs i = Some (TkValidated req snap)")
    case True
    then obtain req snap where t: "task_at gs i = Some (TkValidated req snap)" by blast
    obtain g r where r: "submit_dispatch env now req snap sub (gs_gw gs) = (g, r)" by fastforce
    then have k: "known (gw_db g) = known (gw_db (gs_gw gs))" using known_dispatch [of env now req snap sub "gs_gw gs"] by simp
    show ?thesis using GoDispatch t r once_ok_ends [OF ok t k] once_ok_done [OF ok t k, of req] submit_dispatch_request
      by (cases r) auto
  qed (use GoDispatch ok in \<open>auto split: option.splits gw_task.splits\<close>)
next
  case (GoStarted i)
  then show ?thesis using ok by (auto split: option.splits gw_task.splits intro: once_ok_goes_on)
next
  case (GoFailed i now err)
  then show ?thesis using ok by (auto simp: submit_failed_def split: option.splits gw_task.splits intro: once_ok_ends)
next
  case (GoReceipt i now r)
  then show ?thesis using ok by (auto simp: Let_def split: option.splits gw_task.splits intro: once_ok_goes_on once_ok_ends)
next
  case (GoShutdown now pending)
  have "known (gw_db (fst (graceful_shutdown now pending (gs_gw gs)))) = known (gw_db (gs_gw gs))"
    by (simp add: graceful_shutdown_def)
  then show ?thesis using GoShutdown ok once_ok_same_tasks [OF ok] by simp
next
  case (GoQueue y)
  have "known (gw_db ((gs_gw gs)\<lparr>gw_qs := queue_step env (gw_qs (gs_gw gs)) y\<rparr>)) = known (gw_db (gs_gw gs))" by simp
  then show ?thesis using GoQueue ok once_ok_same_tasks [OF ok] by simp
qed

definition gsys_new :: "store \<Rightarrow> sqlx_error option list \<Rightarrow> gsys" where
  "gsys_new st fs = \<lparr>gs_gw = gw_new \<lparr>db_store = st, db_faults = fs, db_slept = 0\<rparr>, gs_tasks = [], gs_done = []\<rparr>"

interpretation gateway_m: op_machine_init "gw_step env" "once_ok st" "gsys_new st fs" for env st fs
  by (unfold_locales, erule once_ok_step) (simp add: once_ok_def gsys_new_def gw_new_def qm_new_def known_def)

section \<open>Facts on receipts\<close>

lemma gw_out_set [simp]: "gw_out (set_db d g) = gw_out g" "gw_closed (set_db d g) = gw_closed g" "gw_inflight (set_db d g) = gw_inflight g"
  "gw_out (set_qm q g) = gw_out g" "gw_closed (set_qm q g) = gw_closed g" "gw_inflight (set_qm q g) = gw_inflight g"
  by (simp_all add: set_db_def set_qm_def)

text \<open>The status on record for a request id.\<close>

definition status_of :: "gw \<Rightarrow> string \<Rightarrow> string option" where
  "status_of g i = map_option rr_status (map_of (st_receipts (db_store (gw_db g))) i)"

lemma healthy_update [simp]:
  "db_faults d = [] \<Longrightarrow> db_faults (fst (db_call (update_receipt_status now i s) d)) = []"
  by (simp add: healthy_call)

lemma status_update:
  assumes "db_faults d = []"
  shows "map_option rr_status (map_of (st_receipts (db_store (fst (db_call (update_receipt_status now i s) d)))) j) =
    (if j = i then map_option (\<lambda>_. s) (map_of (st_receipts (db_store d)) i) else map_option rr_status (map_of (st_receipts (db_store d)) j))"
  using assms by (auto simp: healthy_call update_receipt_status_def guarded_def split: option.splits)

text \<open>What the caller of a command hears: everything up to the first final receipt, and in any case one.\<close>

fun heard :: "receipt_state list \<Rightarrow> receipt_state list" where
  "heard [] = [RsOutcomeUnknown]"
| "heard (r # rs) = (if is_final_receipt r then [r] else r # heard rs)"

lemma heard_final: "heard rs \<noteq> [] \<and> is_final_receipt (last (heard rs)) \<and> list_all (\<lambda>r. \<not> is_final_receipt r) (butlast (heard rs))"
  by (induction rs) auto

lemma forward_one_healthy:
  assumes "db_faults (gw_db g) = []"
  shows "db_faults (gw_db (forward_one now rid r g)) = []"
    and "status_of (forward_one now rid r g) j = (if j = rid then map_option (\<lambda>_. receipt_status_str r) (status_of g rid) else status_of g j)"
  using assms by (simp_all add: forward_one_def Let_def status_of_def status_update option.map_comp o_def)

lemma forward_simps [simp]:
  "gw_out (forward_one now rid r g) = gw_out g @ [(rid, r)]" "gw_inflight (forward_one now rid r g) = gw_inflight g"
  "gw_out (forward_end rid g) = gw_out g" "gw_inflight (forward_end rid g) = gw_inflight g - {rid}"
  "status_of (forward_end rid g) = status_of g"
  by (simp_all add: forward_one_def forward_end_def Let_def status_of_def fun_eq_iff)

lemma spawn_forward_out: "gw_out (spawn_forward now rid rs g) = gw_out g @ map (Pair rid) (heard rs)"
  by (induction rs arbitrary: g) (simp_all add: Let_def)

lemma spawn_forward_inflight: "gw_inflight (spawn_forward now rid rs g) = gw_inflight g - {rid}"
  by (induction rs arbitrary: g) (simp_all add: Let_def)

lemma spawn_forward_status:
  "db_faults (gw_db g) = [] \<Longrightarrow> status_of (spawn_forward now rid rs g) j =
     (if j = rid then map_option (\<lambda>_. receipt_status_str (last (heard rs))) (status_of g rid) else status_of g j)"
proof (induction rs arbitrary: g)
  case Nil
  then show ?case by (simp add: forward_one_healthy)
next
  case (Cons r rs)
  have "heard rs \<noteq> []" using heard_final by blast
  then show ?case using Cons.prems forward_one_healthy [OF Cons.prems, of now rid r] Cons.IH [of "forward_one now rid r g"]
    by (auto simp: Let_def option.map_comp o_def)
qed

lemma finalize_receipt_effect:
  assumes "db_faults (gw_db g) = []"
  shows "gw_out (finalize_receipt now rid r g) = gw_out g @ [(rid, r)]"
    and "gw_inflight (finalize_receipt now rid r g) = gw_inflight g - {rid}"
    and "status_of (finalize_receipt now rid r g) j = (if j = rid then map_option (\<lambda>_. receipt_status_str r) (status_of g rid) else status_of g j)"
  using assms by (simp_all add: finalize_receipt_def Let_def status_of_def status_update option.map_comp o_def)

section \<open>A submission without interruption\<close>

definition is_queue_payload :: "command_payload \<Rightarrow> bool" where
  "is_queue_payload p = (case p of PlQueueNextTurn _ _ \<Rightarrow> True | PlCancelQueue \<Rightarrow> True | PlPauseQueue \<Rightarrow> True | _ \<Rightarrow> False)"

text \<open>The expectations of a request hold in a snapshot.\<close>

definition expectations_hold :: "command_request \<Rightarrow> runtime_snapshot \<Rightarrow> bool" where
  "expectations_hold req snap \<longleftrightarrow>
    (let current = map_option cu_turn (rs_current_turn snap) in
     (\<forall>r. cr_expected_runtime_revision req = Some r \<longrightarrow> r = rs_runtime_revision snap \<or>
        cr_payload req = PlInterrupt \<and> cr_expected_turn_id req \<noteq> None \<and> current = cr_expected_turn_id req) \<and>
     (\<forall>t. cr_expected_turn_id req = Some t \<longrightarrow> current = Some t))"

lemma stale_reason_iff: "stale_reason req snap = None \<longleftrightarrow> expectations_hold req snap"
  by (auto simp: stale_reason_def expectations_hold_def permits_revision_drift_def Let_def split: option.splits)

lemma submit_record_healthy:
  assumes "db_faults (gw_db g) = []"
  shows "submit_record env now req g = (case map_of (st_receipts (db_store (gw_db g))) (cr_request_id req) of
     None \<Rightarrow> ((set_db ((gw_db g)\<lparr>db_store := (db_store (gw_db g))\<lparr>st_receipts := AList.update (cr_request_id req) (receipt_row env now req)
          (st_receipts (db_store (gw_db g)))\<rparr>\<rparr>) g)\<lparr>gw_inflight := insert (cr_request_id req) (gw_inflight g)\<rparr>, Inr None)
   | Some old \<Rightarrow> (g, if rr_payload_digest old = payload_digest env (cr_payload req)
        then Inr (Some (SubReplayed (cr_request_id req) (stored_state_from_status (rr_status old))))
        else Inl (bridge_err DuplicateRequestMismatch (''duplicate request mismatch: '' @ cr_request_id req))))"
proof -
  have same: "set_db (gw_db g) g = g" by (simp add: set_db_def set_qm_def)
  show ?thesis using assms
    by (cases "map_of (st_receipts (db_store (gw_db g))) (cr_request_id req)")
      (simp_all add: submit_record_def healthy record_receipt_def guarded_def receipt_row_def get_receipt_def same)
qed

text \<open>A recorded request comes to a final receipt: what the last phases do, on a healthy database.\<close>

definition settled :: "string \<Rightarrow> gw \<Rightarrow> gw \<Rightarrow> bool" where
  "settled rid g g' \<longleftrightarrow> (\<exists>rs. gw_out g' = gw_out g @ map (Pair rid) rs \<and> rs \<noteq> [] \<and> is_final_receipt (last rs) \<and>
     list_all (\<lambda>r. \<not> is_final_receipt r) (butlast rs) \<and> status_of g' rid = Some (receipt_status_str (last rs)) \<and>
     gw_inflight g' = gw_inflight g - {rid})"

lemma settled_finalize:
  assumes "db_faults (gw_db g) = []" "status_of g rid \<noteq> None" "is_final_receipt r"
  shows "settled rid g (finalize_receipt now rid r g)"
  using assms finalize_receipt_effect [OF assms(1), of now rid r] unfolding settled_def by (intro exI [of _ "[r]"]) auto

lemma settled_forward:
  assumes "db_faults (gw_db g) = []" "status_of g rid \<noteq> None"
  shows "settled rid g (spawn_forward now rid rs g)"
  using assms heard_final [of rs] spawn_forward_out [of now rid rs g] spawn_forward_inflight [of now rid rs g]
    spawn_forward_status [OF assms(1), of now rid rs rid]
  unfolding settled_def by (intro exI [of _ "heard rs"]) auto

lemma settled_local:
  assumes "db_faults (gw_db g) = []" "status_of g rid \<noteq> None" "spares (gw_db g) (qm_db q1)"
  shows "settled rid g (finalize_local now rid r (set_qm q1 g))"
proof -
  have "db_faults (gw_db (set_qm q1 g)) = []" "status_of (set_qm q1 g) = status_of g"
    using assms by (simp_all add: spares_def status_of_def fun_eq_iff)
  then have "settled rid (set_qm q1 g) (finalize_local now rid r (set_qm q1 g))"
    using assms(2) unfolding finalize_local_def by (intro settled_finalize) (auto split: sum.splits)
  then show ?thesis by (simp add: settled_def)
qed

lemma submit_dispatch_settled:
  assumes "db_faults (gw_db g) = []" "status_of g (cr_request_id req) \<noteq> None"
    and "(case cr_payload req of PlQueueNextTurn _ _ \<Rightarrow> True | _ \<Rightarrow> False) \<longrightarrow> snap \<noteq> None"
    and "submit_dispatch env now req snap sub g = (g', h)"
  shows "if is_queue_payload (cr_payload req) then h = HoDone \<and> settled (cr_request_id req) g g'
    else h = HoExecute (executor_request env req) \<and> g' = g"
proof (cases "cr_payload req")
  case (PlQueueNextTurn input rep)
  then obtain sn where sn: "snap = Some sn" using assms(3) by auto
  obtain q1 r where q1: "queue_set env now (cr_session_key req) input rep (cr_request_id req) sn sub (qs_qm (gw_qs g)) = (q1, r)" by fastforce
  have "spares (gw_db g) (qm_db q1)" using spares_queue_set [of "qs_qm (gw_qs g)"] q1 by (metis fst_conv)
  then show ?thesis using settled_local [OF assms(1,2)] assms(4) PlQueueNextTurn sn q1
    by (auto simp: submit_dispatch_def is_queue_payload_def)
next
  case PlCancelQueue
  obtain q1 r where q1: "queue_cancel (cr_session_key req) (qs_qm (gw_qs g)) = (q1, r)" by fastforce
  have "spares (gw_db g) (qm_db q1)" using spares_queue_cancel [of "qs_qm (gw_qs g)"] q1 by (metis fst_conv)
  then show ?thesis using settled_local [OF assms(1,2)] assms(4) PlCancelQueue q1
    by (auto simp: submit_dispatch_def is_queue_payload_def)
next
  case PlPauseQueue
  obtain q1 r where q1: "queue_pause now (cr_session_key req) (qs_qm (gw_qs g)) = (q1, r)" by fastforce
  have "spares (gw_db g) (qm_db q1)" using spares_queue_pause [of "qs_qm (gw_qs g)"] q1 by (metis fst_conv)
  then show ?thesis using settled_local [OF assms(1,2)] assms(4) PlPauseQueue q1
    by (auto simp: submit_dispatch_def is_queue_payload_def)
qed (use assms(4) in \<open>simp_all add: submit_dispatch_def is_queue_payload_def\<close>)

lemma submit_validate_healthy:
  "submit_validate now req snapr g =
    (if \<not> needs_snapshot req then (g, Inr None)
     else case snapr of
       Inl err \<Rightarrow> (finalize_receipt now (cr_request_id req) (RsRejected (adapter_code err) (adapter_error_text err)) g, Inl ())
     | Inr snap \<Rightarrow> if expectations_hold req snap then (g, Inr (Some snap))
         else (finalize_receipt now (cr_request_id req) (RsRejected StaleTurn (the (stale_reason req snap))) g, Inl ()))"
  by (auto simp: submit_validate_def finalize_rejected_def stale_reason_iff [symmetric] split: sum.splits option.splits)

definition precondition_met :: "command_request \<Rightarrow> adapter_error + runtime_snapshot \<Rightarrow> bool" where
  "precondition_met req snapr \<longleftrightarrow> (needs_snapshot req \<longrightarrow> (case snapr of Inl _ \<Rightarrow> False | Inr snap \<Rightarrow> expectations_hold req snap))"

definition refusal_code :: "adapter_error + runtime_snapshot \<Rightarrow> stable_error_code" where
  "refusal_code snapr = (case snapr of Inl err \<Rightarrow> adapter_code err | Inr _ \<Rightarrow> StaleTurn)"

text \<open>A new request on a healthy database: rejected if its precondition fails, and otherwise handed over.\<close>

lemma submit_new:
  assumes "db_faults (gw_db g) = []" "submit_gate (gw_closed g) caps req = None"
    and "map_of (st_receipts (db_store (gw_db g))) (cr_request_id req) = None"
    and "submit env now caps req snapr sub outcome g = (g', r, ex)"
  shows "r = Inr SubAccepted \<and> settled (cr_request_id req) g g' \<and>
    (if precondition_met req snapr then ex = (if is_queue_payload (cr_payload req) then [] else [executor_request env req])
     else ex = [] \<and> (\<exists>why. gw_out g' = gw_out g @ [(cr_request_id req, RsRejected (refusal_code snapr) why)]))"
proof -
  let ?rid = "cr_request_id req"
  obtain g1 where rec: "submit_record env now req g = (g1, Inr None)" "db_faults (gw_db g1) = []" "status_of g1 ?rid \<noteq> None"
    "gw_out g1 = gw_out g" "gw_inflight g1 - {?rid} = gw_inflight g - {?rid}"
    using assms(1,3) by (auto simp: submit_record_healthy status_of_def)
  have settled: "settled ?rid g1 g2 \<Longrightarrow> settled ?rid g g2" for g2 using rec(4,5) by (simp add: settled_def)
  obtain g2 v where v: "submit_validate now req snapr g1 = (g2, v)" by fastforce
  show ?thesis
  proof (cases "precondition_met req snapr")
    case False
    then obtain why where why: "g2 = finalize_receipt now ?rid (RsRejected (refusal_code snapr) why) g1" "v = Inl ()"
      using v by (auto simp: submit_validate_healthy precondition_met_def refusal_code_def split: sum.splits)
    then show ?thesis using False assms(2,4) rec(1) v settled [OF settled_finalize [OF rec(2,3)]]
        finalize_receipt_effect(1) [OF rec(2)] rec(4)
      by (auto simp: submit_def)
  next
    case True
    then have v2: "g2 = g1" "\<exists>snap. v = Inr snap \<and> ((case cr_payload req of PlQueueNextTurn _ _ \<Rightarrow> True | _ \<Rightarrow> False) \<longrightarrow> snap \<noteq> None)"
      using v by (auto simp: submit_validate_healthy precondition_met_def needs_snapshot_def split: sum.splits if_splits)
    then obtain snap where snap: "v = Inr snap"
      "(case cr_payload req of PlQueueNextTurn _ _ \<Rightarrow> True | _ \<Rightarrow> False) \<longrightarrow> snap \<noteq> None" by blast
    obtain g3 h where h: "submit_dispatch env now req snap sub g1 = (g3, h)" by fastforce
    note d = submit_dispatch_settled [OF rec(2,3) snap(2) h]
    show ?thesis
    proof (cases "is_queue_payload (cr_payload req)")
      case q: True
      then show ?thesis using True assms(2,4) rec(1) v v2(1) snap(1) h d settled by (auto simp: submit_def)
    next
      case q: False
      then have "h = HoExecute (executor_request env req)" "g3 = g1" using d by auto
      then show ?thesis using True q assms(2,4) rec(1) v v2(1) snap(1) h
          settled [OF settled_forward [OF rec(2,3)]] settled [OF settled_finalize [OF rec(2,3)]]
        by (auto simp: submit_def submit_failed_def split: exec_outcome.splits)
    qed
  qed
qed

section \<open>Properties\<close>

text \<open>
  C1. A request is performed at most once. However submissions, retries, database failures, receipts,
  queue steps and shutdowns interleave, a request id is handed to the queue or the desktop at
  most once, and never if it was already on record when the bridge started.
\<close>

theorem request_performed_at_most_once:
  "count_list (gs_done (foldl (gw_step env) (gsys_new st fs) ops)) i \<le> (if has_receipt st i then 0 else 1)"
  using once_okD(1) [OF gateway_m.reachable_inv [where env = env and st = st and fs = fs and ops = ops], of i] by (auto split: if_splits)



text \<open>
  The refusal guards the entrance only: a request that passed the gate before the shutdown is
  still recorded and handed to the desktop after it.
\<close>

lemma gated_request_outlives_shutdown:
  assumes "submit_gate False caps req = None" "\<not> needs_snapshot req" "\<not> is_queue_payload (cr_payload req)"
    and "map_of (st_receipts st) (cr_request_id req) = None"
  shows "gs_done (foldl (gw_step env) (gsys_new st [])
     [GoSubmit caps req, GoShutdown t0 [], GoRecord 0 t1, GoValidate 0 t2 snapr, GoDispatch 0 t3 sub]) = [cr_request_id req]"
proof -
  let ?g0 = "gw_new \<lparr>db_store = st, db_faults = [], db_slept = 0\<rparr>"
  let ?g1 = "?g0\<lparr>gw_closed := True, gw_inflight := {}\<rparr>"
  obtain g2 where g2: "submit_record env t1 req ?g1 = (g2, Inr None)"
    using assms(4) by (auto simp: submit_record_healthy gw_new_def qm_new_def)
  have d: "submit_dispatch env t3 req None sub g2 = (g2, HoExecute (executor_request env req))"
    using assms(3) by (auto simp: submit_dispatch_def is_queue_payload_def split: command_payload.splits)
  show ?thesis using assms(1,2) g2 d
    by (simp add: gsys_new_def gw_new_def task_at_def graceful_shutdown_def goes_on_def submit_validate_def executor_request_def)
qed

section \<open>Witnesses\<close>

definition ex_gw :: gw where "ex_gw = gw_new \<lparr>db_store = store_new, db_faults = [], db_slept = 0\<rparr>"

definition ex_caps :: capability_set where
  "ex_caps = (read_only_degraded None)\<lparr>cs_control_mode := FullControl, cs_supported_operations := [StartTurn]\<rparr>"

definition ex_request :: command_request where
  "ex_request = \<lparr>cr_request_id = ''r1'', cr_operation = StartTurn, cr_session_key = ex_key, cr_expected_turn_id = None,
     cr_expected_runtime_revision = Some 6, cr_payload_digest = None, cr_payload = PlStartTurn ''hello''\<rparr>"



end
