(* ===== verification/Command_Front.thy ===== *)
theory Command_Front
  imports Gateway
begin

text \<open>
  The operations in front of the gateway: answers to questions and approvals
  (\<open>commands/attention.rs\<close>), session settings (\<open>commands/settings.rs\<close>), background commands
  (\<open>commands/background.rs\<close>) and the clean-up of uploads at the end of a turn
  (\<open>commands/upload_lifecycle.rs\<close>). Each checks the request against the current snapshot and then
  submits it under a fresh id. \<open>dbg\<close> is Rust's \<open>Debug\<close> formatting of a string, used in messages only.
\<close>

section \<open>Answers\<close>

definition front_request :: "string \<Rightarrow> operation \<Rightarrow> session_key \<Rightarrow> command_payload \<Rightarrow> command_request" where
  "front_request rid x key p = \<lparr>cr_request_id = rid, cr_operation = x, cr_session_key = key, cr_expected_turn_id = None,
     cr_expected_runtime_revision = None, cr_payload_digest = None, cr_payload = p\<rparr>"

definition invalid_request :: "string \<Rightarrow> bridge_error" where
  "invalid_request m = bridge_err InternalError m"

definition adapter_err :: "adapter_error \<Rightarrow> bridge_error" where
  "adapter_err e = bridge_err (adapter_code e) (adapter_error_text e)"

definition check_answer :: "runtime_snapshot \<Rightarrow> string \<Rightarrow> string list \<Rightarrow> string option \<Rightarrow> bridge_error option" where
  "check_answer snap qid option_ids free_text =
    (case List.find (\<lambda>q. pq_question_id q = qid) (rs_pending_questions snap) of
       None \<Rightarrow> Some (bridge_err QuestionExpired (''no pending question with native id '' @ qid))
     | Some q \<Rightarrow>
         if \<not> pq_valid q then Some (bridge_err QuestionExpired ''question is no longer valid'')
         else if \<not> pq_allow_multiple q \<and> length option_ids > 1
           then Some (invalid_request ''multiple options submitted for a single-choice question'')
         else (case List.find (\<lambda>i. i \<notin> qo_option_id ` set (pq_options q)) option_ids of
           Some i \<Rightarrow> Some (invalid_request (''option '' @ i @ '' is not a native option of question '' @ qid))
         | None \<Rightarrow>
             if free_text \<noteq> None \<and> \<not> pq_allow_free_text q then Some (invalid_request ''free text is not allowed for this question'')
             else if option_ids = [] \<and> free_text = None then Some (invalid_request ''answer requires an option id or free text'')
             else None))"

definition check_decision :: "runtime_snapshot \<Rightarrow> string \<Rightarrow> string \<Rightarrow> bridge_error option" where
  "check_decision snap aid did =
    (case List.find (\<lambda>a. pa_approval_id a = aid) (rs_pending_approvals snap) of
       None \<Rightarrow> Some (bridge_err ApprovalExpired (''no pending approval with native id '' @ aid))
     | Some a \<Rightarrow>
         if \<not> pa_valid a then Some (bridge_err ApprovalExpired ''approval is no longer valid'')
         else if did \<notin> ad_decision_id ` set (pa_decisions a)
           then Some (invalid_request (''decision '' @ did @ '' is not a native decision of approval '' @ aid))
         else None)"

text \<open>
  Every front operation is: take a snapshot, check, submit. \<open>subm\<close> stands for the submission of a
  request with what the environment will answer.
\<close>

type_synonym submitter = "command_request \<Rightarrow> gw \<Rightarrow> gw \<times> (bridge_error + submission) \<times> command_request list"

definition answer_question :: "submitter \<Rightarrow> string \<Rightarrow> session_key \<Rightarrow> string \<Rightarrow> string list \<Rightarrow> string option \<Rightarrow>
    adapter_error + runtime_snapshot \<Rightarrow> gw \<Rightarrow> gw \<times> (bridge_error + submission) \<times> command_request list" where
  "answer_question subm rid key qid option_ids free_text snapr g = (case snapr of
     Inl e \<Rightarrow> (g, Inl (adapter_err e), [])
   | Inr snap \<Rightarrow> (case check_answer snap qid option_ids free_text of
       Some e \<Rightarrow> (g, Inl e, [])
     | None \<Rightarrow> subm (front_request rid AnswerQuestion key (PlAnswerQuestion qid option_ids free_text)) g))"

definition answer_approval :: "submitter \<Rightarrow> string \<Rightarrow> session_key \<Rightarrow> string \<Rightarrow> string \<Rightarrow>
    adapter_error + runtime_snapshot \<Rightarrow> gw \<Rightarrow> gw \<times> (bridge_error + submission) \<times> command_request list" where
  "answer_approval subm rid key aid did snapr g = (case snapr of
     Inl e \<Rightarrow> (g, Inl (adapter_err e), [])
   | Inr snap \<Rightarrow> (case check_decision snap aid did of
       Some e \<Rightarrow> (g, Inl e, [])
     | None \<Rightarrow> subm (front_request rid SubmitApproval key (PlSubmitApproval aid did)) g))"

section \<open>Settings\<close>

datatype setting_effective = NextTurn | Immediate

record settings_submission =
  ss_submission :: submission
  ss_effective :: setting_effective

fun kind_debug :: "setting_kind \<Rightarrow> string" where
  "kind_debug SkModel = ''Model''"
| "kind_debug SkReasoningEffort = ''ReasoningEffort''"
| "kind_debug SkServiceTier = ''ServiceTier''"
| "kind_debug SkPermissionMode = ''PermissionMode''"
| "kind_debug SkCollaborationMode = ''CollaborationMode''"

definition check_setting :: "(string \<Rightarrow> string) \<Rightarrow> setting_option list \<Rightarrow> setting_update \<Rightarrow> bridge_error option" where
  "check_setting dbg options u = (let no = (\<lambda>m. Some (bridge_err SettingCombinationUnsupported m)) in
     if su_kind u \<noteq> SkReasoningEffort
       then no (''setting kind '' @ kind_debug (su_kind u) @ '' is not opened for writing: only reasoning effort is verified against a real desktop'')
     else case List.find (\<lambda>x. so_kind x = su_kind u) options of
       None \<Rightarrow> no (''setting kind '' @ kind_debug (su_kind u) @ '' is not offered by the current desktop'')
     | Some x \<Rightarrow>
         if so_available_values x = []
           then no (''desktop provides no dynamic available values for '' @ kind_debug (su_kind u) @ ''; settings write is closed'')
         else if su_value u \<notin> sv_value ` set (so_available_values x)
           then no (''value '' @ dbg (su_value u) @ '' is not an available value for '' @ kind_debug (su_kind u))
         else if \<not> so_mutable x then no (''setting '' @ kind_debug (su_kind u) @ '' is locked for the running turn'')
         else None)"

fun validate_setting_updates :: "(string \<Rightarrow> string) \<Rightarrow> setting_option list \<Rightarrow> setting_update list \<Rightarrow> bridge_error option" where
  "validate_setting_updates dbg options [] = None"
| "validate_setting_updates dbg options (u # us) = (case check_setting dbg options u of
     Some e \<Rightarrow> Some e | None \<Rightarrow> validate_setting_updates dbg options us)"

definition update_settings :: "(string \<Rightarrow> string) \<Rightarrow> submitter \<Rightarrow> string \<Rightarrow> session_key \<Rightarrow> setting_update list \<Rightarrow>
    adapter_error + runtime_snapshot \<Rightarrow> gw \<Rightarrow> gw \<times> (bridge_error + settings_submission) \<times> command_request list" where
  "update_settings dbg subm rid key updates snapr g = (case snapr of
     Inl e \<Rightarrow> (g, Inl (adapter_err e), [])
   | Inr snap \<Rightarrow> (case validate_setting_updates dbg (cs_settings (rs_capabilities snap)) updates of
       Some e \<Rightarrow> (g, Inl e, [])
     | None \<Rightarrow> (case subm (front_request rid UpdateSettings key (PlUpdateSettings updates)) g of
         (g', Inl e, ex) \<Rightarrow> (g', Inl e, ex)
       | (g', Inr s, ex) \<Rightarrow> (g', Inr \<lparr>ss_submission = s, ss_effective = NextTurn\<rparr>, ex))))"

section \<open>Background commands\<close>

definition BACKGROUND_STOP_GLOBAL_ONLY :: string where "BACKGROUND_STOP_GLOBAL_ONLY = ''BACKGROUND_STOP_GLOBAL_ONLY''"

definition background_commands :: "adapter_error + runtime_snapshot \<Rightarrow> bridge_error + bg_command list" where
  "background_commands snapr = (case snapr of Inl e \<Rightarrow> Inl (adapter_err e) | Inr snap \<Rightarrow> Inr (rs_background_commands snap))"

record background_stop_outcome =
  bo_submission :: submission
  bo_warnings :: "string list"

definition with_warnings :: "string list \<Rightarrow> gw \<times> (bridge_error + submission) \<times> command_request list \<Rightarrow>
    gw \<times> (bridge_error + background_stop_outcome) \<times> command_request list" where
  "with_warnings ws r = (case r of
     (g, Inl e, ex) \<Rightarrow> (g, Inl e, ex)
   | (g, Inr s, ex) \<Rightarrow> (g, Inr \<lparr>bo_submission = s, bo_warnings = ws\<rparr>, ex))"

definition stop_background_command :: "submitter \<Rightarrow> string \<Rightarrow> session_key \<Rightarrow> string \<Rightarrow> gw \<Rightarrow>
    gw \<times> (bridge_error + background_stop_outcome) \<times> command_request list" where
  "stop_background_command subm rid key cid g =
     with_warnings [] (subm (front_request rid StopBackgroundCommand key (PlStopBackgroundCommand cid)) g)"

definition stop_all_background_commands :: "capability_set \<Rightarrow> submitter \<Rightarrow> string \<Rightarrow> session_key \<Rightarrow> gw \<Rightarrow>
    gw \<times> (bridge_error + background_stop_outcome) \<times> command_request list" where
  "stop_all_background_commands caps subm rid key g =
     with_warnings (if caps_supports caps StopBackgroundCommand then [] else [BACKGROUND_STOP_GLOBAL_ONLY])
       (subm (front_request rid StopAllBackgroundCommands key PlStopAllBackgroundCommands) g)"

section \<open>Upload clean-up\<close>

fun finished_reason :: "last_turn_outcome \<Rightarrow> string" where
  "finished_reason OutCompleted = ''turn_completed''"
| "finished_reason OutFailed = ''turn_failed''"
| "finished_reason OutInterrupted = ''turn_interrupted''"
| "finished_reason OutUnknown = ''turn_finished''"

text \<open>
  The cleaner removes directories on disk and answers with an error or with what it removed; the
  removals are logged, and a log entry that cannot be written is dropped. \<open>DEFAULT_UPLOAD_TTL\<close> and the
  clock are in seconds.
\<close>

definition DEFAULT_UPLOAD_TTL :: nat where "DEFAULT_UPLOAD_TTL = 3600"

definition sweep_bound :: "nat \<Rightarrow> nat \<Rightarrow> nat" where
  "sweep_bound now ttl = (if ttl \<le> now then now - ttl else 0)"

fun log_cleanups :: "string \<Rightarrow> string \<Rightarrow> string list \<Rightarrow> db \<Rightarrow> db" where
  "log_cleanups now reason [] d = d"
| "log_cleanups now reason (dir # dirs) d = log_cleanups now reason dirs (fst (db_call (record_upload_cleanup now dir reason) d))"

definition on_turn_finished :: "string \<Rightarrow> string \<Rightarrow> string + string list \<Rightarrow> db \<Rightarrow> db \<times> string list" where
  "on_turn_finished now reason swept d = (case swept of
     Inr removed \<Rightarrow> (log_cleanups now reason removed d, removed) | Inl _ \<Rightarrow> (d, []))"

definition remove_upload :: "string \<Rightarrow> string \<Rightarrow> string \<Rightarrow> string option \<Rightarrow> db \<Rightarrow> db \<times> (string + unit)" where
  "remove_upload now dir reason io_error d = (case io_error of
     Some e \<Rightarrow> (d, Inl e) | None \<Rightarrow> (fst (db_call (record_upload_cleanup now dir reason) d), Inr ()))"

definition upload_event :: "string \<Rightarrow> queue_event \<Rightarrow> string + string list \<Rightarrow> db \<Rightarrow> db" where
  "upload_event now ev swept d = (case ev of
     TurnLifecycle turn PhIdle (Some out) \<Rightarrow> fst (on_turn_finished now (finished_reason out) swept d) | _ \<Rightarrow> d)"

section \<open>Facts\<close>

lemma submit_hands_over: "req' \<in> set (snd (snd (submit env now caps req snapr sub outcome g))) \<Longrightarrow> req' = executor_request env req"
  by (auto simp: submit_def submit_dispatch_def Let_def split: option.splits prod.splits sum.splits hand_over.splits command_payload.splits)

lemma find_None: "List.find p xs = None \<longleftrightarrow> (\<forall>x\<in>set xs. \<not> p x)"
  by (auto simp: find_None_iff)

lemma find_SomeD: "List.find p xs = Some x \<Longrightarrow> x \<in> set xs \<and> p x"
  by (auto simp: find_Some_iff)

lemma validate_ok: "validate_setting_updates dbg options us = None \<longleftrightarrow> (\<forall>u\<in>set us. check_setting dbg options u = None)"
  by (induction us) (auto split: option.splits)

lemma check_answer_ok:
  "check_answer snap qid ids ft = None \<Longrightarrow> \<exists>q\<in>set (rs_pending_questions snap). pq_question_id q = qid \<and> pq_valid q \<and>
     set ids \<subseteq> qo_option_id ` set (pq_options q) \<and> (length ids \<le> 1 \<or> pq_allow_multiple q) \<and>
     (ft = None \<or> pq_allow_free_text q) \<and> (ids \<noteq> [] \<or> ft \<noteq> None)"
  by (auto simp: check_answer_def find_None dest!: find_SomeD split: option.splits if_splits)

lemma check_decision_ok:
  "check_decision snap aid did = None \<Longrightarrow> \<exists>a\<in>set (rs_pending_approvals snap). pa_approval_id a = aid \<and> pa_valid a \<and>
     did \<in> ad_decision_id ` set (pa_decisions a)"
  by (auto simp: check_decision_def dest!: find_SomeD split: option.splits if_splits)

lemma check_setting_ok:
  "check_setting dbg options u = None \<Longrightarrow> su_kind u = SkReasoningEffort \<and>
     (\<exists>x\<in>set options. so_kind x = SkReasoningEffort \<and> so_mutable x \<and> su_value u \<in> sv_value ` set (so_available_values x))"
  by (auto simp: check_setting_def Let_def dest!: find_SomeD split: option.splits if_splits)

lemma validate_settings_ok:
  "validate_setting_updates dbg options us = None \<Longrightarrow> \<forall>u\<in>set us. su_kind u = SkReasoningEffort \<and>
     (\<exists>x\<in>set options. so_kind x = SkReasoningEffort \<and> so_mutable x \<and> su_value u \<in> sv_value ` set (so_available_values x))"
  unfolding validate_ok by (blast dest: check_setting_ok)

section \<open>Properties\<close>


definition ex_question :: pending_question where
  "ex_question = \<lparr>pq_question_id = ''q1'', pq_title = [], pq_description = [], pq_options = [\<lparr>qo_option_id = ''o1'', qo_label = []\<rparr>],
     pq_allow_multiple = False, pq_allow_free_text = False, pq_turn = None, pq_created_at = None, pq_valid = True\<rparr>"

definition ex_submit :: submitter where
  "ex_submit req g = submit ex_cmd_env ''t1'' (ex_caps\<lparr>cs_supported_operations := [AnswerQuestion]\<rparr>) req (Inr ex_idle) True (ExecOk [RsCompleted]) g"


end
