(* ===== verification/Wake_Policy.thy ===== *)
theory Wake_Policy
  imports Domain
begin

text \<open>
  The wake assertion (\<open>apps/bridge/src/power/mod.rs\<close>) and its coordinator
  (\<open>commands/power.rs\<close>): a \<open>caffeinate\<close> child process that keeps the machine awake. A child is named by
  the generation that \<open>spawn\<close> gave it; \<open>wk_procs\<close> lists the children alive with their arguments. The
  operating system decides whether a spawn succeeds and when a child exits by itself.
\<close>

section \<open>Policy\<close>

datatype power_source = Ac | Battery

definition should_hold :: "power_source \<Rightarrow> bool \<Rightarrow> bool \<Rightarrow> bool" where
  "should_hold source turn_active attention_pending = (case source of Ac \<Rightarrow> True | Battery \<Rightarrow> turn_active \<or> attention_pending)"

fun caffeinate_args :: "power_source \<Rightarrow> string list" where
  "caffeinate_args Ac = [''-i'', ''-s'']"
| "caffeinate_args Battery = [''-i'']"

record wake =
  wk_assertion :: "(power_source \<times> nat) option"
  wk_generation :: nat
  wk_procs :: "(nat \<times> string list) list"

definition wake_new :: wake where
  "wake_new = \<lparr>wk_assertion = None, wk_generation = 0, wk_procs = []\<rparr>"

definition assertion_held :: "wake \<Rightarrow> bool" where
  "assertion_held w \<longleftrightarrow> wk_assertion w \<noteq> None"

definition held_mode :: "wake \<Rightarrow> power_source option" where
  "held_mode w = map_option fst (wk_assertion w)"

text \<open>
  \<open>release\<close> takes the handle, and the supervisor of that child kills and reaps it before it answers.
  A handle that is overwritten instead is dropped: its supervisor ends without killing.
\<close>

definition wake_release :: "wake \<Rightarrow> wake" where
  "wake_release w = (case wk_assertion w of
     None \<Rightarrow> w
   | Some (m, gen) \<Rightarrow> w\<lparr>wk_assertion := None, wk_procs := filter (\<lambda>p. fst p \<noteq> gen) (wk_procs w)\<rparr>)"

datatype wake_error = SpawnFailed

definition wake_spawn :: "power_source \<Rightarrow> bool \<Rightarrow> wake \<Rightarrow> wake \<times> (wake_error + unit)" where
  "wake_spawn mode spawned w =
    (let gen = wk_generation w + 1; w1 = w\<lparr>wk_generation := gen\<rparr> in
     if spawned then (w1\<lparr>wk_procs := wk_procs w1 @ [(gen, caffeinate_args mode)], wk_assertion := Some (mode, gen)\<rparr>, Inr ())
     else (w1, Inl SpawnFailed))"

text \<open>\<open>update\<close> up to its await point, and as a whole.\<close>

definition wake_update_begin :: "power_source \<Rightarrow> bool \<Rightarrow> bool \<Rightarrow> wake \<Rightarrow> wake \<times> bool" where
  "wake_update_begin source turn_active attention_pending w =
    (case (should_hold source turn_active attention_pending, held_mode w) of
       (True, held) \<Rightarrow> if held = Some source then (w, False) else (wake_release w, True)
     | (False, Some _) \<Rightarrow> (wake_release w, False)
     | (False, None) \<Rightarrow> (w, False))"

definition wake_update :: "power_source \<Rightarrow> bool \<Rightarrow> bool \<Rightarrow> bool \<Rightarrow> wake \<Rightarrow> wake \<times> (wake_error + unit)" where
  "wake_update source turn_active attention_pending spawned w =
    (case wake_update_begin source turn_active attention_pending w of
       (w1, True) \<Rightarrow> wake_spawn source spawned w1 | (w1, False) \<Rightarrow> (w1, Inr ()))"

text \<open>The supervisor of a child that exits by itself.\<close>

definition child_exits :: "nat \<Rightarrow> wake \<Rightarrow> wake" where
  "child_exits gen w = (if gen \<in> fst ` set (wk_procs w)
     then w\<lparr>wk_procs := filter (\<lambda>p. fst p \<noteq> gen) (wk_procs w),
       wk_assertion := (if wk_generation w = gen then None else wk_assertion w)\<rparr>
     else w)"

section \<open>Coordinator\<close>

record activity_state =
  as_source :: power_source
  as_turn_active :: bool
  as_attention_pending :: bool

record power =
  po_wake :: wake
  po_state :: activity_state

definition power_new :: "power_source \<Rightarrow> power" where
  "power_new source = \<lparr>po_wake = wake_new, po_state = \<lparr>as_source = source, as_turn_active = False, as_attention_pending = False\<rparr>\<rparr>"

definition power_sync :: "bool \<Rightarrow> activity_state \<Rightarrow> power \<Rightarrow> power \<times> (wake_error + unit)" where
  "power_sync spawned st p = (case wake_update (as_source st) (as_turn_active st) (as_attention_pending st) spawned (po_wake p) of
     (w, r) \<Rightarrow> (p\<lparr>po_wake := w, po_state := st\<rparr>, r))"

definition set_power_source :: "power_source \<Rightarrow> bool \<Rightarrow> power \<Rightarrow> power \<times> (wake_error + unit)" where
  "set_power_source source spawned p = power_sync spawned ((po_state p)\<lparr>as_source := source\<rparr>) p"

definition set_turn_active :: "bool \<Rightarrow> bool \<Rightarrow> power \<Rightarrow> power \<times> (wake_error + unit)" where
  "set_turn_active active spawned p = power_sync spawned ((po_state p)\<lparr>as_turn_active := active\<rparr>) p"

definition set_attention_pending :: "bool \<Rightarrow> bool \<Rightarrow> power \<Rightarrow> power \<times> (wake_error + unit)" where
  "set_attention_pending pending spawned p = power_sync spawned ((po_state p)\<lparr>as_attention_pending := pending\<rparr>) p"

definition apply_if_changed :: "bool \<Rightarrow> bool \<Rightarrow> bool \<Rightarrow> power \<Rightarrow> power" where
  "apply_if_changed turn_active attention_pending spawned p =
    (let st = po_state p in
     if as_turn_active st = turn_active \<and> as_attention_pending st = attention_pending then p
     else fst (power_sync spawned (st\<lparr>as_turn_active := turn_active, as_attention_pending := attention_pending\<rparr>) p))"

text \<open>A watched session's event, with the snapshot read for it; other events are ignored.\<close>

datatype power_event = PeRelevant "runtime_snapshot option" | PeOther

definition watch_event :: "power_event \<Rightarrow> bool \<Rightarrow> power \<Rightarrow> power" where
  "watch_event ev spawned p = (case ev of
     PeRelevant (Some snap) \<Rightarrow> apply_if_changed
       (case rs_current_turn snap of Some t \<Rightarrow> cu_phase t \<noteq> PhIdle | None \<Rightarrow> False)
       (rs_pending_questions snap \<noteq> [] \<or> rs_pending_approvals snap \<noteq> []) spawned p
   | _ \<Rightarrow> p)"

datatype power_op =
    PoSource power_source bool
  | PoTurn bool bool
  | PoAttention bool bool
  | PoEvent power_event bool
  | PoRelease
  | PoExit nat

fun power_step :: "power \<Rightarrow> power_op \<Rightarrow> power" where
  "power_step p (PoSource s ok) = fst (set_power_source s ok p)"
| "power_step p (PoTurn b ok) = fst (set_turn_active b ok p)"
| "power_step p (PoAttention b ok) = fst (set_attention_pending b ok p)"
| "power_step p (PoEvent ev ok) = watch_event ev ok p"
| "power_step p PoRelease = p\<lparr>po_wake := wake_release (po_wake p)\<rparr>"
| "power_step p (PoExit gen) = p\<lparr>po_wake := child_exits gen (po_wake p)\<rparr>"

section \<open>Children match the assertion\<close>

definition wake_ok :: "wake \<Rightarrow> bool" where
  "wake_ok w \<longleftrightarrow> (case wk_assertion w of
     None \<Rightarrow> wk_procs w = []
   | Some (m, gen) \<Rightarrow> wk_procs w = [(gen, caffeinate_args m)] \<and> gen = wk_generation w)"

lemma wake_ok_new [simp]: "wake_ok wake_new"
  by (simp add: wake_ok_def wake_new_def)

lemma wake_ok_release: "wake_ok w \<Longrightarrow> wake_ok (wake_release w) \<and> wk_assertion (wake_release w) = None"
  by (auto simp: wake_ok_def wake_release_def split: option.splits)

lemma wake_ok_spawn:
  "wake_ok w \<Longrightarrow> wk_assertion w = None \<Longrightarrow> wake_ok (fst (wake_spawn m ok w)) \<and>
     held_mode (fst (wake_spawn m ok w)) = (if ok then Some m else None)"
  by (auto simp: wake_ok_def wake_spawn_def held_mode_def Let_def)

lemma wake_update_effect:
  assumes "wake_ok w"
  shows "wake_ok (fst (wake_update s t a ok w)) \<and>
    (ok \<longrightarrow> held_mode (fst (wake_update s t a ok w)) = (if should_hold s t a then Some s else None))"
  using assms wake_ok_release [OF assms] wake_ok_spawn [of "wake_release w" s ok]
  by (auto simp: wake_update_def wake_update_begin_def held_mode_def split: option.splits)

lemma wake_ok_exit: "wake_ok w \<Longrightarrow> wake_ok (child_exits gen w)"
  by (auto simp: wake_ok_def child_exits_def split: option.splits)

lemma power_sync_ok: "wake_ok (po_wake p) \<Longrightarrow> wake_ok (po_wake (fst (power_sync ok st p)))"
  using wake_update_effect [of "po_wake p" "as_source st" "as_turn_active st" "as_attention_pending st" ok]
  by (auto simp: power_sync_def split: prod.splits)

lemma power_step_ok: "wake_ok (po_wake p) \<Longrightarrow> wake_ok (po_wake (power_step p x))"
  by (cases x) (auto simp: set_power_source_def set_turn_active_def set_attention_pending_def watch_event_def apply_if_changed_def
      Let_def wake_ok_release wake_ok_exit intro: power_sync_ok split: power_event.splits option.splits)

interpretation power_m: op_machine_init power_step "\<lambda>p. wake_ok (po_wake p)" "power_new source" for source
  by (unfold_locales, erule power_step_ok) (simp add: power_new_def)

section \<open>Properties\<close>


text \<open>
  The coordinator keeps one activity state for all watched sessions: on battery, an event of an
  idle session releases the assertion while another session's turn is running.
\<close>

lemma idle_session_releases_busy_one:
  assumes "rs_current_turn busy = Some t" "cu_phase t = PhRunning" "rs_current_turn idle = None"
    "rs_pending_questions idle = []" "rs_pending_approvals idle = []"
  shows "assertion_held (po_wake (foldl power_step (power_new Battery) [PoEvent (PeRelevant (Some busy)) True])) \<and>
    \<not> assertion_held (po_wake (foldl power_step (power_new Battery) [PoEvent (PeRelevant (Some busy)) True, PoEvent (PeRelevant (Some idle)) True]))"
  using assms
  by (simp add: watch_event_def apply_if_changed_def power_sync_def wake_update_def wake_update_begin_def should_hold_def
      held_mode_def wake_spawn_def wake_release_def wake_new_def power_new_def assertion_held_def Let_def)

text \<open>
  \<open>update\<close> is not atomic: of two updates that both passed their await point, the second overwrites
  the handle of the first, and a release then leaves a child running that nothing refers to.
\<close>

lemma overlapping_updates_leak_a_child:
  "let (w1, b1) = wake_update_begin Ac False False wake_new; (w2, b2) = wake_update_begin Ac False False w1;
       w3 = fst (wake_spawn Ac True w2); w4 = fst (wake_spawn Ac True w3); w5 = wake_release w4
   in b1 \<and> b2 \<and> \<not> assertion_held w5 \<and> wk_procs w5 = [(1, caffeinate_args Ac)]"
  by (simp add: wake_update_begin_def should_hold_def held_mode_def wake_new_def wake_release_def wake_spawn_def assertion_held_def Let_def)


end
