(* ===== verification/Transfers.thy ===== *)
theory Transfers
  imports Relay_State
begin

text \<open>
  The file data plane of the relay (\<open>apps/relay/src/transfers/mod.rs\<close>): the registry of transfers and
  the handlers of both sides. A transfer is shared by the handlers that hold it, also after it left
  the registry: the transfers ever created are a heap by id, and the registry is the list of ids it
  still maps. Channels are the flags of their unused ends. A handler that panics while it holds a
  lock poisons it, and every later use of that lock panics too (\<open>lock().unwrap()\<close>); an operation that
  panics returns \<open>Panics\<close>. Identity, database answers, the digest, clock readings and fresh ids are arguments.
\<close>

section \<open>Requests\<close>

datatype direction = Upload | Download

record range_spec =
  ra_start :: nat
  ra_end_inclusive :: "nat option"

text \<open>Range from the JSON body, or else from the header.\<close>

definition parse_range :: "(nat \<times> nat option) option \<Rightarrow> string option \<Rightarrow> wire_code + range_spec option" where
  "parse_range body header =
    (let bad = Inl (Wc TransferRangeInvalid) in
     case body of
       Some (start, end) \<Rightarrow>
         if (case end of Some e \<Rightarrow> start > e | None \<Rightarrow> False) then bad
         else Inr (Some \<lparr>ra_start = start, ra_end_inclusive = end\<rparr>)
     | None \<Rightarrow> (case header of
         None \<Rightarrow> Inr None
       | Some raw \<Rightarrow> (case strip_prefix ''bytes='' (str_trim raw) of
           None \<Rightarrow> bad
         | Some spec \<Rightarrow>
             if CHR '','' \<in> set spec then bad
             else (case split_once (CHR ''-'') spec of
               None \<Rightarrow> bad
             | Some (start, end) \<Rightarrow> (case parse_usize (str_trim start) of
                 None \<Rightarrow> bad
               | Some s \<Rightarrow>
                   if str_trim end = [] then Inr (Some \<lparr>ra_start = s, ra_end_inclusive = None\<rparr>)
                   else (case parse_usize (str_trim end) of
                     Some e \<Rightarrow> if e \<ge> s then Inr (Some \<lparr>ra_start = s, ra_end_inclusive = Some e\<rparr>) else bad
                   | None \<Rightarrow> bad))))))"

definition sanitize_name :: "string \<Rightarrow> string" where
  "sanitize_name name = (let safe = take 128 (filter (\<lambda>c. ascii_graphic c \<and> c \<noteq> CHR 0x22 \<and> c \<noteq> CHR 0x5C) (str_trim name))
     in if safe = [] then ''file'' else safe)"

record transfer_info =
  in_direction :: direction
  in_owner :: string
  in_device :: string
  in_session :: string
  in_file_name :: string
  in_mime :: string
  in_length :: "nat option"
  in_range :: "range_spec option"
  in_disposition :: string
  in_file_handle :: string

definition offer_file_handle :: "transfer_info \<Rightarrow> string" where
  "offer_file_handle i = (if in_direction i = Download then in_file_handle i else [])"

section \<open>Transfers\<close>

record producer_handoff =
  ph_content_type :: "string option"
  ph_content_disposition :: "string option"
  ph_content_range :: "string option"
  ph_total_length :: "nat option"

record transfer_result =
  re_transfer_id :: string
  re_outcome :: int
  re_error_code :: int
  re_upload_file_handle :: string

abbreviation OUTCOME_CANCELLED :: int where "OUTCOME_CANCELLED \<equiv> 2"

record transfer =
  tf_id :: string
  tf_token :: string
  tf_info :: transfer_info
  tf_expires_at :: nat
  tf_producer_tx :: bool
  tf_consumer_tx :: bool
  tf_consumer_rx :: bool
  tf_handoff :: "producer_handoff option"
  tf_producer_ack :: bool
  tf_result_tx :: bool
  tf_result :: "transfer_result option"
  tf_cancelled :: bool
  tf_terminal :: bool
  tf_terminal_code :: "wire_code option"
  tf_poisoned :: bool

definition tf_expired :: "nat \<Rightarrow> transfer \<Rightarrow> bool" where
  "tf_expired now t \<longleftrightarrow> now > tf_expires_at t"

definition set_producer :: "producer_handoff \<Rightarrow> transfer \<Rightarrow> transfer \<times> bool" where
  "set_producer h t = (if tf_terminal t then (t, False)
     else if tf_producer_tx t then (t\<lparr>tf_producer_tx := False, tf_handoff := Some h\<rparr>, True) else (t, False))"

definition set_consumer :: "transfer \<Rightarrow> transfer \<times> bool" where
  "set_consumer t = (if tf_terminal t then (t, False)
     else if tf_consumer_tx t then (t\<lparr>tf_consumer_tx := False\<rparr>, True) else (t, False))"

definition tf_complete :: "transfer \<Rightarrow> transfer" where
  "tf_complete t = t\<lparr>tf_terminal := True, tf_producer_ack := False\<rparr>"

definition cancel_result :: "transfer \<Rightarrow> wire_code \<Rightarrow> transfer_result" where
  "cancel_result t code = \<lparr>re_transfer_id = tf_id t, re_outcome = OUTCOME_CANCELLED, re_error_code = wire_number code, re_upload_file_handle = []\<rparr>"

definition deliver_result :: "transfer_result \<Rightarrow> transfer \<Rightarrow> transfer" where
  "deliver_result r t = (if tf_result_tx t then t\<lparr>tf_result_tx := False, tf_result := Some r\<rparr> else t)"

definition tf_cancel :: "wire_code \<Rightarrow> transfer \<Rightarrow> transfer" where
  "tf_cancel code t = (if tf_terminal t then t
     else deliver_result (cancel_result t code)
       (t\<lparr>tf_terminal := True, tf_terminal_code := Some code, tf_producer_ack := False, tf_cancelled := True\<rparr>))"

section \<open>Registry\<close>

record transfer_registry =
  rg_heap :: "(string \<times> transfer) list"
  rg_ids :: "string list"
  rg_poisoned :: bool
  rg_notified :: "(string \<times> transfer_result) list"

datatype 'a run_result = Panics | Returns 'a

abbreviation MAX_CONCURRENT_PER_BROWSER :: nat where "MAX_CONCURRENT_PER_BROWSER \<equiv> 2"
abbreviation MAX_CONCURRENT_PER_DEVICE :: nat where "MAX_CONCURRENT_PER_DEVICE \<equiv> 2"

definition TRANSFER_TTL :: nat where "TRANSFER_TTL = 600"
definition MAX_UPLOAD_BYTES :: nat where "MAX_UPLOAD_BYTES = 20 * 1024 * 1024"

definition transfers_new :: transfer_registry where
  "transfers_new = \<lparr>rg_heap = [], rg_ids = [], rg_poisoned = False, rg_notified = []\<rparr>"

definition put_transfer :: "transfer \<Rightarrow> transfer_registry \<Rightarrow> transfer_registry" where
  "put_transfer t r = r\<lparr>rg_heap := AList.update (tf_id t) t (rg_heap r)\<rparr>"

definition rg_get :: "string \<Rightarrow> transfer_registry \<Rightarrow> transfer option" where
  "rg_get i r = (if i \<in> set (rg_ids r) then map_of (rg_heap r) i else None)"

definition rg_remove :: "string \<Rightarrow> transfer_registry \<Rightarrow> transfer_registry" where
  "rg_remove i r = r\<lparr>rg_ids := filter (\<lambda>j. j \<noteq> i) (rg_ids r)\<rparr>"

definition notify_cancelled :: "transfer \<Rightarrow> wire_code \<Rightarrow> transfer_registry \<Rightarrow> transfer_registry" where
  "notify_cancelled t code r = r\<lparr>rg_notified := rg_notified r @ [(in_device (tf_info t), cancel_result t code)]\<rparr>"

text \<open>
  The common part of \<open>cancel_and_remove\<close> and \<open>sweep\<close>: cancel a transfer, and tell the bridge if it
  was not over yet. The code reads \<open>already\<close> under a lock that it releases before it cancels; the
  operations below take the two together.
\<close>

definition cancel_unless :: "bool \<Rightarrow> transfer \<Rightarrow> wire_code \<Rightarrow> transfer_registry \<Rightarrow> transfer_registry" where
  "cancel_unless already t code r = (let r1 = put_transfer (tf_cancel code t) r in
     if already then r1 else notify_cancelled t code r1)"

definition cancel_and_notify :: "transfer \<Rightarrow> wire_code \<Rightarrow> transfer_registry \<Rightarrow> transfer_registry" where
  "cancel_and_notify t code r = cancel_unless (tf_terminal t) t code r"

definition cancel_and_remove :: "string \<Rightarrow> wire_code \<Rightarrow> transfer_registry \<Rightarrow> transfer_registry \<times> unit run_result" where
  "cancel_and_remove i code r =
    (if rg_poisoned r then (r, Panics)
     else case rg_get i r of
       None \<Rightarrow> (r, Returns ())
     | Some t \<Rightarrow> if tf_poisoned t then (r, Panics) else (rg_remove i (cancel_and_notify t code r), Returns ()))"

definition live_transfers :: "transfer_registry \<Rightarrow> transfer list" where
  "live_transfers r = List.map_filter (\<lambda>i. map_of (rg_heap r) i) (rg_ids r)"

definition count_live :: "(transfer_info \<Rightarrow> bool) \<Rightarrow> transfer_registry \<Rightarrow> nat" where
  "count_live p r = length (filter (\<lambda>t. \<not> tf_terminal t \<and> p (tf_info t)) (live_transfers r))"

definition transfer_new :: "string \<Rightarrow> transfer_info \<Rightarrow> nat \<Rightarrow> transfer" where
  "transfer_new i info now = \<lparr>tf_id = i, tf_token = i, tf_info = info, tf_expires_at = now + TRANSFER_TTL,
     tf_producer_tx = True, tf_consumer_tx = True, tf_consumer_rx = True, tf_handoff = None, tf_producer_ack = False,
     tf_result_tx = True, tf_result = None, tf_cancelled = False, tf_terminal = False, tf_terminal_code = None, tf_poisoned = False\<rparr>"

definition rg_create :: "string \<Rightarrow> transfer_info \<Rightarrow> nat \<Rightarrow> transfer_registry \<Rightarrow> transfer_registry \<times> (wire_code + transfer) run_result" where
  "rg_create i info now r =
    (if rg_poisoned r then (r, Panics)
     else if list_ex tf_poisoned (live_transfers r) then (r\<lparr>rg_poisoned := True\<rparr>, Panics)
     else if count_live (\<lambda>j. in_owner j = in_owner info) r \<ge> MAX_CONCURRENT_PER_BROWSER then (r, Returns (Inl (Wc RateLimited)))
     else if count_live (\<lambda>j. in_device j = in_device info) r \<ge> MAX_CONCURRENT_PER_DEVICE then (r, Returns (Inl (Wc RateLimited)))
     else (let t = transfer_new i info now in
       ((put_transfer t r)\<lparr>rg_ids := i # filter (\<lambda>j. j \<noteq> i) (rg_ids r)\<rparr>, Returns (Inr t))))"

text \<open>\<open>sweep\<close>: take the expired ones out, then cancel them one after the other.\<close>

fun sweep_each :: "transfer list \<Rightarrow> transfer_registry \<Rightarrow> transfer_registry \<times> unit run_result" where
  "sweep_each [] r = (r, Returns ())"
| "sweep_each (t # ts) r = (if tf_poisoned t then (r, Panics) else sweep_each ts (cancel_and_notify t (Wc TransferExpired) r))"

definition rg_sweep :: "nat \<Rightarrow> transfer_registry \<Rightarrow> transfer_registry \<times> unit run_result" where
  "rg_sweep now r =
    (if rg_poisoned r then (r, Panics)
     else (let old = filter (tf_expired now) (live_transfers r)
           in sweep_each old (r\<lparr>rg_ids := filter (\<lambda>i. i \<notin> tf_id ` set old) (rg_ids r)\<rparr>)))"

section \<open>Device side\<close>

text \<open>\<open>sha\<close> is the SHA-256 digest in hexadecimal.\<close>

definition authorize_transfer :: "(string \<Rightarrow> string) \<Rightarrow> transfer option \<Rightarrow> string option \<Rightarrow> string \<Rightarrow> direction \<Rightarrow> (nat \<times> wire_code) + transfer" where
  "authorize_transfer sha transfer header device dir =
    (let provided = (case header of Some v \<Rightarrow> v | None \<Rightarrow> []) in
     case transfer of
       None \<Rightarrow> Inl (404, Wc TransferExpired)
     | Some t \<Rightarrow>
         if \<not> (provided \<noteq> [] \<and> sha provided = sha (tf_token t)) \<or> in_device (tf_info t) \<noteq> device \<or> in_direction (tf_info t) \<noteq> dir
         then Inl (401, Wc AuthRequired) else Inr t)"

text \<open>The producer and consumer endpoints up to the point where the bodies flow, for an authenticated device.\<close>

definition device_connects :: "(string \<Rightarrow> string) \<Rightarrow> string \<Rightarrow> string \<Rightarrow> string option \<Rightarrow> direction \<Rightarrow> nat \<Rightarrow>
    (transfer \<Rightarrow> transfer \<times> bool) \<Rightarrow> transfer_registry \<Rightarrow> transfer_registry \<times> ((nat \<times> wire_code) + unit) run_result" where
  "device_connects sha device i header dir now connect r =
    (if rg_poisoned r then (r, Panics)
     else case authorize_transfer sha (rg_get i r) header device dir of
       Inl reply \<Rightarrow> (r, Returns (Inl reply))
     | Inr t \<Rightarrow>
         if tf_expired now t then (case cancel_and_remove i (Wc TransferExpired) r of
             (r1, Panics) \<Rightarrow> (r1, Panics) | (r1, Returns _) \<Rightarrow> (r1, Returns (Inl (404, Wc TransferExpired))))
         else if tf_poisoned t then (r, Panics)
         else (case connect t of
           (t1, True) \<Rightarrow> (put_transfer t1 r, Returns (Inr ()))
         | (t1, False) \<Rightarrow> (put_transfer t1 r, Returns (Inl (404, Wc TransferExpired)))))"

definition producer_connects :: "(string \<Rightarrow> string) \<Rightarrow> string \<Rightarrow> string \<Rightarrow> string option \<Rightarrow> producer_handoff \<Rightarrow> nat \<Rightarrow> transfer_registry \<Rightarrow>
    transfer_registry \<times> ((nat \<times> wire_code) + unit) run_result" where
  "producer_connects sha device i header h now =
     device_connects sha device i header Download now (set_producer h)"

text \<open>The producer stores the sender of its response body under a second lock, when the transfer may be over already.\<close>

definition producer_acks :: "string \<Rightarrow> transfer_registry \<Rightarrow> transfer_registry \<times> unit run_result" where
  "producer_acks i r = (case map_of (rg_heap r) i of
     None \<Rightarrow> (r, Returns ())
   | Some t \<Rightarrow> if tf_poisoned t then (r, Panics) else (put_transfer (t\<lparr>tf_producer_ack := True\<rparr>) r, Returns ()))"

definition consumer_connects :: "(string \<Rightarrow> string) \<Rightarrow> string \<Rightarrow> string \<Rightarrow> string option \<Rightarrow> nat \<Rightarrow> transfer_registry \<Rightarrow>
    transfer_registry \<times> ((nat \<times> wire_code) + unit) run_result" where
  "consumer_connects sha device i header now = device_connects sha device i header Upload now set_consumer"

text \<open>What the bridge reports over its own connection.\<close>

definition on_bridge_ready :: "string \<Rightarrow> string \<Rightarrow> bool \<Rightarrow> int \<Rightarrow> transfer_registry \<Rightarrow> transfer_registry \<times> unit run_result" where
  "on_bridge_ready device i ready rejection r =
    (if rg_poisoned r then (r, Panics)
     else case rg_get i r of
       None \<Rightarrow> (r, Returns ())
     | Some t \<Rightarrow>
         if in_device (tf_info t) \<noteq> device \<or> ready then (r, Returns ())
         else if tf_poisoned t then (r, Panics)
         else (put_transfer (tf_cancel (case wire_try_from rejection of Some c \<Rightarrow> c | None \<Rightarrow> Wc InternalError) t) r, Returns ()))"

definition on_bridge_result :: "string \<Rightarrow> transfer_result \<Rightarrow> transfer_registry \<Rightarrow> transfer_registry \<times> unit run_result" where
  "on_bridge_result device res r =
    (if rg_poisoned r then (r, Panics)
     else case rg_get (re_transfer_id res) r of
       None \<Rightarrow> (r, Returns ())
     | Some t \<Rightarrow>
         if in_device (tf_info t) \<noteq> device then (r, Returns ())
         else if tf_poisoned t then (r, Panics)
         else (put_transfer (tf_complete (deliver_result res t)) r, Returns ()))"

section \<open>Body pumps\<close>

text \<open>
  What a pump meets next, in the order it happens: a chunk (and whether the other end still takes
  it), the end or an error of the body, the timeout, a cancellation.
\<close>

datatype body_event = BvChunk bytes bool | BvEof | BvError | BvTimeout | BvCancelled

datatype pump_exit = PxEof | PxTimeout | PxStreamError | PxCancelled | PxSinkClosed | PxWaiting

text \<open>\<open>Inl\<close> marks the error item that ends a broken download for the browser, if the channel has \<open>room\<close> for it (\<open>try_send\<close>).\<close>

fun pump_body :: "bool \<Rightarrow> body_event list \<Rightarrow> (string + bytes) list \<times> pump_exit" where
  "pump_body room [] = ([], PxWaiting)"
| "pump_body room (BvChunk c taken # es) = (if taken then (case pump_body room es of (out, x) \<Rightarrow> (Inr c # out, x)) else ([], PxSinkClosed))"
| "pump_body room (BvEof # es) = ([], PxEof)"
| "pump_body room (BvError # es) = (if room then [Inl ''stream error''] else [], PxStreamError)"
| "pump_body room (BvTimeout # es) = (if room then [Inl ''idle read timeout''] else [], PxTimeout)"
| "pump_body room (BvCancelled # es) = (if room then [Inl ''transfer cancelled''] else [], PxCancelled)"

definition pump_ends :: "string \<Rightarrow> pump_exit \<Rightarrow> transfer_registry \<Rightarrow> transfer_registry \<times> unit run_result" where
  "pump_ends i x r = (case x of
     PxEof \<Rightarrow> (case map_of (rg_heap r) i of
         Some t \<Rightarrow> if tf_poisoned t \<or> rg_poisoned r then (r, Panics) else (rg_remove i (put_transfer (tf_complete t) r), Returns ())
       | None \<Rightarrow> (r, Returns ()))
   | PxTimeout \<Rightarrow> cancel_and_remove i (Wc TransferExpired) r
   | PxStreamError \<Rightarrow> cancel_and_remove i (Wc InternalError) r
   | PxSinkClosed \<Rightarrow> cancel_and_remove i (Wc InternalError) r
   | PxCancelled \<Rightarrow> cancel_and_remove i (Wc TransferExpired) r
   | PxWaiting \<Rightarrow> (r, Returns ()))"

datatype upload_exit = UxDone nat | UxTimeout | UxError | UxTooLarge | UxSinkClosed | UxCancelled | UxWaiting

fun upload_pump :: "nat \<Rightarrow> body_event list \<Rightarrow> bytes list \<times> upload_exit" where
  "upload_pump transferred [] = ([], UxWaiting)"
| "upload_pump transferred (BvChunk c taken # es) =
    (let transferred' = transferred + length c in
     if transferred' > MAX_UPLOAD_BYTES then ([], UxTooLarge)
     else if \<not> taken then ([], UxSinkClosed)
     else (case upload_pump transferred' es of (out, x) \<Rightarrow> (c # out, x)))"
| "upload_pump transferred (BvEof # es) = ([], UxDone transferred)"
| "upload_pump transferred (BvError # es) = ([], UxError)"
| "upload_pump transferred (BvTimeout # es) = ([], UxTimeout)"
| "upload_pump transferred (BvCancelled # es) = ([], UxCancelled)"

section \<open>Browser side\<close>

text \<open>
  A handler first establishes identity and the session it owns (\<open>Inl\<close>: the refusal). \<open>offered\<close> says
  whether the offer reached the device.
\<close>

record session_row =
  sw_id :: string
  sw_device_id :: string

definition announce :: "string \<Rightarrow> transfer_info \<Rightarrow> nat \<Rightarrow> bool \<Rightarrow> transfer_registry \<Rightarrow> transfer_registry \<times> ((nat \<times> wire_code) + transfer) run_result" where
  "announce i info now offered r = (case rg_create i info now r of
     (r1, Panics) \<Rightarrow> (r1, Panics)
   | (r1, Returns (Inl code)) \<Rightarrow> (r1, Returns (Inl (status_for_code code, code)))
   | (r1, Returns (Inr t)) \<Rightarrow>
       if offered then (r1, Returns (Inr t))
       else (case cancel_and_remove i (Wc DeviceOffline) r1 of
         (r2, Panics) \<Rightarrow> (r2, Panics)
       | (r2, Returns _) \<Rightarrow> (r2, Returns (Inl (status_for_code (Wc DeviceOffline), Wc DeviceOffline)))))"

definition start_download :: "string \<Rightarrow> (nat \<times> wire_code) + string \<Rightarrow> (nat \<times> wire_code) + session_row \<Rightarrow> bool \<Rightarrow>
    (string \<times> string option \<times> (nat \<times> nat option) option) option \<Rightarrow> string option \<Rightarrow> string \<Rightarrow> nat \<Rightarrow> bool \<Rightarrow> transfer_registry \<Rightarrow>
    transfer_registry \<times> ((nat \<times> wire_code) + transfer) run_result" where
  "start_download i ident row online body header disposition now offered r =
    (case ident of Inl e \<Rightarrow> (r, Returns (Inl e)) | Inr owner \<Rightarrow>
     case row of Inl e \<Rightarrow> (r, Returns (Inl e)) | Inr s \<Rightarrow>
       if \<not> online then (r, Returns (Inl (status_for_code (Wc DeviceOffline), Wc DeviceOffline)))
       else case body of
         None \<Rightarrow> (r, Returns (Inl (400, Wc InternalError)))
       | Some (handle, name, brange) \<Rightarrow>
           if handle = [] then (r, Returns (Inl (400, Wc FileHandleInvalid)))
           else (case parse_range brange header of
             Inl code \<Rightarrow> (r, Returns (Inl (400, code)))
           | Inr rng \<Rightarrow> announce i \<lparr>in_direction = Download, in_owner = owner, in_device = sw_device_id s, in_session = sw_id s,
               in_file_name = sanitize_name (case name of Some n \<Rightarrow> n | None \<Rightarrow> ''file''), in_mime = [], in_length = None,
               in_range = rng, in_disposition = disposition, in_file_handle = handle\<rparr> now offered r))"

definition upload_declare :: "string \<Rightarrow> (nat \<times> wire_code) + string \<Rightarrow> (nat \<times> wire_code) + session_row \<Rightarrow> bool \<Rightarrow>
    string \<Rightarrow> string option \<Rightarrow> nat \<Rightarrow> nat \<Rightarrow> bool \<Rightarrow> transfer_registry \<Rightarrow> transfer_registry \<times> ((nat \<times> wire_code) + transfer) run_result" where
  "upload_declare i ident row online name mime len now offered r =
    (case ident of Inl e \<Rightarrow> (r, Returns (Inl e)) | Inr owner \<Rightarrow>
     case row of Inl e \<Rightarrow> (r, Returns (Inl e)) | Inr s \<Rightarrow>
       if \<not> online then (r, Returns (Inl (status_for_code (Wc DeviceOffline), Wc DeviceOffline)))
       else if len > MAX_UPLOAD_BYTES then (r, Returns (Inl (413, Wc TransferTooLarge)))
       else announce i \<lparr>in_direction = Upload, in_owner = owner, in_device = sw_device_id s, in_session = sw_id s,
          in_file_name = sanitize_name name, in_mime = (case mime of Some m \<Rightarrow> m | None \<Rightarrow> ''application/octet-stream''),
          in_length = Some len, in_range = None, in_disposition = ''attachment'', in_file_handle = []\<rparr> now offered r)"

text \<open>
  The upload request up to the wait for the device. \<open>consumer_rx.take().expect(..)\<close> runs under the
  lock of the transfer: a second request for the same transfer panics there.
\<close>

definition upload_begin :: "(nat \<times> wire_code) + string \<Rightarrow> (nat \<times> wire_code) + session_row \<Rightarrow> string \<Rightarrow> nat \<Rightarrow> transfer_registry \<Rightarrow>
    transfer_registry \<times> ((nat \<times> wire_code) + transfer) run_result" where
  "upload_begin ident row i now r =
    (case ident of Inl e \<Rightarrow> (r, Returns (Inl e)) | Inr owner \<Rightarrow>
     case row of Inl e \<Rightarrow> (r, Returns (Inl e)) | Inr s \<Rightarrow>
       if rg_poisoned r then (r, Panics)
       else case rg_get i r of
         None \<Rightarrow> (r, Returns (Inl (404, Wc TransferExpired)))
       | Some t \<Rightarrow>
           if in_owner (tf_info t) \<noteq> owner \<or> in_session (tf_info t) \<noteq> sw_id s \<or> in_direction (tf_info t) \<noteq> Upload
             then (r, Returns (Inl (404, Wc TransferExpired)))
           else if tf_expired now t then (case cancel_and_remove i (Wc TransferExpired) r of
             (r1, Panics) \<Rightarrow> (r1, Panics) | (r1, Returns _) \<Rightarrow> (r1, Returns (Inl (404, Wc TransferExpired))))
           else if tf_poisoned t then (r, Panics)
           else if \<not> tf_consumer_rx t then (put_transfer (t\<lparr>tf_poisoned := True\<rparr>) r, Panics)
           else (let t1 = t\<lparr>tf_consumer_rx := False\<rparr> in (put_transfer t1 r, Returns (Inr t1))))"

text \<open>A waiting handler that was cancelled: its answer, and the removal.\<close>

definition waiter_cancelled :: "string \<Rightarrow> transfer_registry \<Rightarrow> transfer_registry \<times> (nat \<times> wire_code) run_result" where
  "waiter_cancelled i r = (case map_of (rg_heap r) i of
     None \<Rightarrow> (r, Panics)
   | Some t \<Rightarrow>
       if tf_poisoned t \<or> rg_poisoned r then (r, Panics)
       else (let code = (case tf_terminal_code t of Some c \<Rightarrow> c | None \<Rightarrow> Wc TransferExpired)
             in (rg_remove i r, Returns (if code = Wc TransferExpired then 504 else status_for_code code, code))))"

definition waiter_times_out :: "string \<Rightarrow> transfer_registry \<Rightarrow> transfer_registry \<times> unit run_result" where
  "waiter_times_out i r = cancel_and_remove i (Wc TransferExpired) r"

definition upload_ends :: "string \<Rightarrow> upload_exit \<Rightarrow> transfer_registry \<Rightarrow> transfer_registry \<times> unit run_result" where
  "upload_ends i x r = (case x of
     UxTimeout \<Rightarrow> cancel_and_remove i (Wc TransferExpired) r
   | UxError \<Rightarrow> cancel_and_remove i (Wc InternalError) r
   | UxTooLarge \<Rightarrow> cancel_and_remove i (Wc TransferTooLarge) r
   | UxSinkClosed \<Rightarrow> cancel_and_remove i (Wc InternalError) r
   | UxDone n \<Rightarrow> (if rg_poisoned r then (r, Panics) else (rg_remove i r, Returns ()))
   | _ \<Rightarrow> (r, Returns ()))"

section \<open>The transfer_registry at work\<close>

datatype transfer_op =
    ToDownload string "(nat \<times> wire_code) + string" "(nat \<times> wire_code) + session_row" bool
      "(string \<times> string option \<times> (nat \<times> nat option) option) option" "string option" string nat bool
  | ToDeclare string "(nat \<times> wire_code) + string" "(nat \<times> wire_code) + session_row" bool string "string option" nat nat bool
  | ToUpload "(nat \<times> wire_code) + string" "(nat \<times> wire_code) + session_row" string nat
  | ToProducer string string "string option" producer_handoff nat
  | ToProducerAck string
  | ToConsumer string string "string option" nat
  | ToReady string string bool int
  | ToResult string transfer_result
  | ToPumpEnds string pump_exit
  | ToUploadEnds string upload_exit
  | ToWaiterCancelled string
  | ToWaiterTimesOut string
  | ToSweep nat

text \<open>Fresh ids are 256 random bits; a collision is left out.\<close>

abbreviation fresh_id :: "string \<Rightarrow> transfer_registry \<Rightarrow> bool" where
  "fresh_id i r \<equiv> map_of (rg_heap r) i = None"

fun transfer_step :: "(string \<Rightarrow> string) \<Rightarrow> transfer_registry \<Rightarrow> transfer_op \<Rightarrow> transfer_registry" where
  "transfer_step sha r (ToDownload i ident row online body header disp now offered) =
     (if fresh_id i r then fst (start_download i ident row online body header disp now offered r) else r)"
| "transfer_step sha r (ToDeclare i ident row online name mime len now offered) =
     (if fresh_id i r then fst (upload_declare i ident row online name mime len now offered r) else r)"
| "transfer_step sha r (ToUpload ident row i now) = fst (upload_begin ident row i now r)"
| "transfer_step sha r (ToProducer device i header h now) = fst (producer_connects sha device i header h now r)"
| "transfer_step sha r (ToProducerAck i) = fst (producer_acks i r)"
| "transfer_step sha r (ToConsumer device i header now) = fst (consumer_connects sha device i header now r)"
| "transfer_step sha r (ToReady device i ready code) = fst (on_bridge_ready device i ready code r)"
| "transfer_step sha r (ToResult device res) = fst (on_bridge_result device res r)"
| "transfer_step sha r (ToPumpEnds i x) = fst (pump_ends i x r)"
| "transfer_step sha r (ToUploadEnds i x) = fst (upload_ends i x r)"
| "transfer_step sha r (ToWaiterCancelled i) = fst (waiter_cancelled i r)"
| "transfer_step sha r (ToWaiterTimesOut i) = fst (waiter_times_out i r)"
| "transfer_step sha r (ToSweep now) = fst (rg_sweep now r)"

section \<open>How transfers advance\<close>

definition evolves :: "transfer \<Rightarrow> transfer \<Rightarrow> bool" where
  "evolves t t' \<longleftrightarrow> tf_id t' = tf_id t \<and> tf_info t' = tf_info t \<and> tf_token t' = tf_token t \<and>
     (tf_terminal t \<longrightarrow> tf_terminal t' \<and> tf_terminal_code t' = tf_terminal_code t) \<and>
     (tf_result t \<noteq> None \<longrightarrow> tf_result t' = tf_result t) \<and> (\<not> tf_result_tx t \<longrightarrow> \<not> tf_result_tx t')"

lemma evolves_refl [simp]: "evolves t t"
  by (simp add: evolves_def)

lemma evolves_trans: "evolves a b \<Longrightarrow> evolves b c \<Longrightarrow> evolves a c"
  by (auto simp: evolves_def)

definition tf_ok :: "transfer \<Rightarrow> bool" where
  "tf_ok t \<longleftrightarrow> (tf_result t \<noteq> None \<longrightarrow> \<not> tf_result_tx t)"

lemma tf_ok_ops:
  "tf_ok t \<Longrightarrow> tf_ok (tf_cancel code t)" "tf_ok t \<Longrightarrow> tf_ok (tf_complete t)" "tf_ok t \<Longrightarrow> tf_ok (deliver_result res t)"
  "tf_ok t \<Longrightarrow> tf_ok (fst (set_producer h t))" "tf_ok t \<Longrightarrow> tf_ok (fst (set_consumer t))"
  by (auto simp: tf_ok_def tf_cancel_def tf_complete_def deliver_result_def set_producer_def set_consumer_def)

lemma evolves_ops:
  "tf_ok t \<Longrightarrow> evolves t (tf_cancel code t)" "evolves t (tf_complete t)" "tf_ok t \<Longrightarrow> evolves t (deliver_result res t)"
  "evolves t (fst (set_producer h t))" "evolves t (fst (set_consumer t))"
  by (auto simp: evolves_def tf_ok_def tf_cancel_def tf_complete_def deliver_result_def set_producer_def set_consumer_def)

definition reg_wf :: "transfer_registry \<Rightarrow> bool" where
  "reg_wf r \<longleftrightarrow> distinct (rg_ids r) \<and> (\<forall>i\<in>set (rg_ids r). map_of (rg_heap r) i \<noteq> None) \<and>
     (\<forall>i t. map_of (rg_heap r) i = Some t \<longrightarrow> tf_id t = i \<and> tf_ok t)"

lemma reg_wfD: "reg_wf r \<Longrightarrow> map_of (rg_heap r) i = Some t \<Longrightarrow> tf_id t = i \<and> tf_ok t"
  by (simp add: reg_wf_def)

text \<open>
  What every operation but a creation does: transfers advance, ids may leave the registry, and a
  notification is sent only for a transfer that ends with it.
\<close>

definition news :: "transfer_registry \<Rightarrow> transfer_registry \<Rightarrow> (string \<times> transfer_result) list \<Rightarrow> bool" where
  "news r r' ns \<longleftrightarrow> rg_notified r' = rg_notified r @ ns \<and> distinct (map (\<lambda>n. re_transfer_id (snd n)) ns) \<and>
     (\<forall>n\<in>set ns. \<exists>t t'. map_of (rg_heap r) (re_transfer_id (snd n)) = Some t \<and> \<not> tf_terminal t \<and>
        map_of (rg_heap r') (re_transfer_id (snd n)) = Some t' \<and> tf_terminal t')"

definition advances :: "transfer_registry \<Rightarrow> transfer_registry \<Rightarrow> bool" where
  "advances r r' \<longleftrightarrow> reg_wf r' \<and> subseq (rg_ids r') (rg_ids r) \<and>
     (\<forall>i. rel_option evolves (map_of (rg_heap r) i) (map_of (rg_heap r') i)) \<and> (\<exists>ns. news r r' ns)"

lemma advances_refl: "reg_wf r \<Longrightarrow> advances r r"
  unfolding advances_def by (auto simp: news_def option.rel_refl intro!: exI [of _ "[]"])

lemma advances_Some: "advances r r' \<Longrightarrow> map_of (rg_heap r) i = Some t \<Longrightarrow> \<exists>t'. map_of (rg_heap r') i = Some t' \<and> evolves t t'"
  unfolding advances_def by (metis option_rel_Some1)

lemma advances_back: "advances r r' \<Longrightarrow> map_of (rg_heap r') i = Some t' \<Longrightarrow> \<exists>t. map_of (rg_heap r) i = Some t \<and> evolves t t'"
  unfolding advances_def by (metis option_rel_Some2)

lemma news_append:
  assumes "advances r r1" "advances r1 r2" "news r r1 ns" "news r1 r2 ms"
  shows "news r r2 (ns @ ms)"
proof -
  have ended: "\<exists>t'. map_of (rg_heap r2) i = Some t' \<and> tf_terminal t'" if "map_of (rg_heap r1) i = Some t" "tf_terminal t" for i t
    using advances_Some [OF assms(2) that(1)] that(2) by (auto simp: evolves_def)
  have open1: "\<exists>t. map_of (rg_heap r) i = Some t \<and> \<not> tf_terminal t" if "map_of (rg_heap r1) i = Some t'" "\<not> tf_terminal t'" for i t'
    using advances_back [OF assms(1) that(1)] that(2) by (auto simp: evolves_def)
  have "re_transfer_id (snd n) \<noteq> re_transfer_id (snd m)" if "n \<in> set ns" "m \<in> set ms" for n m
  proof -
    from that(1) assms(3) obtain t' where t': "map_of (rg_heap r1) (re_transfer_id (snd n)) = Some t'" "tf_terminal t'"
      unfolding news_def by blast
    from that(2) assms(4) obtain t where t: "map_of (rg_heap r1) (re_transfer_id (snd m)) = Some t" "\<not> tf_terminal t"
      unfolding news_def by blast
    from t t' show ?thesis by auto
  qed
  then have d: "distinct (map (\<lambda>n. re_transfer_id (snd n)) (ns @ ms))"
    using assms(3,4) by (auto simp: news_def)
  have "\<exists>t t'. map_of (rg_heap r) (re_transfer_id (snd n)) = Some t \<and> \<not> tf_terminal t \<and>
      map_of (rg_heap r2) (re_transfer_id (snd n)) = Some t' \<and> tf_terminal t'" if n: "n \<in> set (ns @ ms)" for n
  proof (cases "n \<in> set ns")
    case True
    then show ?thesis using assms(3) ended unfolding news_def by blast
  next
    case False
    then show ?thesis using n assms(4) open1 unfolding news_def by (metis Un_iff set_append)
  qed
  with d show ?thesis using assms(3,4) by (simp add: news_def)
qed

lemma rel_evolves_trans: "rel_option evolves a b \<Longrightarrow> rel_option evolves b c \<Longrightarrow> rel_option evolves a c"
  by (cases a; cases b; cases c) (auto intro: evolves_trans)

lemma advances_trans: "advances r r1 \<Longrightarrow> advances r1 r2 \<Longrightarrow> advances r r2"
proof -
  assume a: "advances r r1" "advances r1 r2"
  have "rel_option evolves (map_of (rg_heap r) i) (map_of (rg_heap r2) i)" for i
    using a unfolding advances_def by (blast intro: rel_evolves_trans)
  moreover have "\<exists>ns. news r r2 ns" using news_append [OF a] a unfolding advances_def by blast
  ultimately show ?thesis using a unfolding advances_def by (meson subseq_order.trans)
qed

lemma advances_put:
  assumes "reg_wf r" "map_of (rg_heap r) (tf_id t') = Some t" "evolves t t'" "tf_ok t'"
  shows "advances r (put_transfer t' r)"
  using assms unfolding advances_def
  by (auto simp: put_transfer_def reg_wf_def news_def option.rel_refl evolves_def intro!: exI [of _ "[]"])

lemma subseq_distinct: "subseq xs ys \<Longrightarrow> distinct ys \<Longrightarrow> distinct xs"
  by (induction rule: list_emb.induct) (auto dest: subseq_set)

lemma advances_ids:
  assumes "reg_wf r" "subseq is (rg_ids r)"
  shows "advances r (r\<lparr>rg_ids := is\<rparr>)"
proof -
  have "distinct is" "set is \<subseteq> set (rg_ids r)"
    using assms subseq_set subseq_distinct by (auto simp: reg_wf_def)
  then show ?thesis using assms unfolding advances_def
    by (auto simp: reg_wf_def news_def option.rel_refl intro!: exI [of _ "[]"])
qed

lemma advances_remove: "reg_wf r \<Longrightarrow> advances r (rg_remove i r)"
  unfolding rg_remove_def by (rule advances_ids) auto

lemma advances_poison: "reg_wf r \<Longrightarrow> advances r (r\<lparr>rg_poisoned := b\<rparr>)"
  unfolding advances_def by (auto simp: reg_wf_def news_def option.rel_refl intro!: exI [of _ "[]"])

lemma advances_wf: "advances r r' \<Longrightarrow> reg_wf r'"
  by (simp add: advances_def)

lemma tf_cancel_id [simp]: "tf_id (tf_cancel code t) = tf_id t"
  by (simp add: tf_cancel_def deliver_result_def)

lemma tf_cancel_terminal [simp]: "tf_terminal (tf_cancel code t)"
  by (simp add: tf_cancel_def deliver_result_def)

lemma advances_cancel_and_notify:
  assumes "reg_wf r" "map_of (rg_heap r) (tf_id t) = Some t"
  shows "advances r (cancel_and_notify t code r)"
proof -
  let ?t = "tf_cancel code t"
  have ok: "tf_ok t" using reg_wfD [OF assms] by simp
  have put: "advances r (put_transfer ?t r)" using assms ok by (intro advances_put) (auto intro: evolves_ops tf_ok_ops)
  show ?thesis
  proof (cases "tf_terminal t")
    case True
    then show ?thesis using put by (simp add: cancel_and_notify_def cancel_unless_def)
  next
    case False
    have "news r (cancel_and_notify t code r) [(in_device (tf_info t), cancel_result t code)]"
      using False assms(2) by (auto simp: Let_def news_def cancel_and_notify_def cancel_unless_def notify_cancelled_def put_transfer_def cancel_result_def)
    then show ?thesis using put False unfolding advances_def
      by (auto simp: cancel_and_notify_def cancel_unless_def notify_cancelled_def reg_wf_def Let_def)
  qed
qed

lemma rg_getD: "reg_wf r \<Longrightarrow> rg_get i r = Some t \<Longrightarrow> map_of (rg_heap r) (tf_id t) = Some t \<and> tf_id t = i \<and> tf_ok t"
  using reg_wfD by (auto simp: rg_get_def split: if_splits)

lemma advances_cancel_and_remove: "reg_wf r \<Longrightarrow> advances r (fst (cancel_and_remove i code r))"
proof -
  assume wf: "reg_wf r"
  have "advances r (rg_remove i (cancel_and_notify t code r))" if "rg_get i r = Some t" for t
    using rg_getD [OF wf that] advances_cancel_and_notify [OF wf] advances_remove advances_trans advances_wf by metis
  then show ?thesis using advances_refl [OF wf] by (auto simp: cancel_and_remove_def split: option.split)
qed

lemma heap_cancel_and_notify:
  "map_of (rg_heap (cancel_and_notify t code r)) = (map_of (rg_heap r))(tf_id t \<mapsto> tf_cancel code t)"
  by (simp add: cancel_and_notify_def cancel_unless_def notify_cancelled_def put_transfer_def Let_def)

lemma advances_sweep_each:
  "reg_wf r \<Longrightarrow> distinct (map tf_id ts) \<Longrightarrow> (\<And>t. t \<in> set ts \<Longrightarrow> map_of (rg_heap r) (tf_id t) = Some t) \<Longrightarrow>
     advances r (fst (sweep_each ts r))"
proof (induction ts arbitrary: r)
  case (Cons t ts)
  have step: "advances r (cancel_and_notify t (Wc TransferExpired) r)"
    using Cons.prems by (intro advances_cancel_and_notify) auto
  have "tf_id t' \<noteq> tf_id t" if "t' \<in> set ts" for t' using Cons.prems(2) that by (metis distinct.simps(2) image_eqI list.simps(9) set_map)
  then have "advances (cancel_and_notify t (Wc TransferExpired) r) (fst (sweep_each ts (cancel_and_notify t (Wc TransferExpired) r)))"
    using Cons.prems by (intro Cons.IH advances_wf [OF step]) (auto simp: heap_cancel_and_notify)
  from advances_trans [OF step this] show ?case using advances_refl [OF Cons.prems(1)] by simp
qed (simp add: advances_refl)

lemma live_transfers_set:
  "reg_wf r \<Longrightarrow> set (live_transfers r) = {t. \<exists>i\<in>set (rg_ids r). map_of (rg_heap r) i = Some t}"
  by (auto simp: live_transfers_def map_filter_def) force+

lemma live_transfers_ids: "reg_wf r \<Longrightarrow> map tf_id (live_transfers r) = rg_ids r"
proof -
  assume wf: "reg_wf r"
  have "map tf_id (List.map_filter (map_of (rg_heap r)) is) = is" if "set is \<subseteq> set (rg_ids r)" for "is"
    using that wf by (induction "is") (auto simp: map_filter_simps reg_wf_def split: option.splits)
  then show ?thesis by (simp add: live_transfers_def)
qed

lemma advances_sweep: "reg_wf r \<Longrightarrow> advances r (fst (rg_sweep now r))"
proof -
  assume wf: "reg_wf r"
  let ?old = "filter (tf_expired now) (live_transfers r)"
  let ?r = "r\<lparr>rg_ids := filter (\<lambda>i. i \<notin> tf_id ` set ?old) (rg_ids r)\<rparr>"
  have a: "advances r ?r" using wf by (intro advances_ids) auto
  have "distinct (map tf_id (live_transfers r))" using live_transfers_ids [OF wf] wf by (simp add: reg_wf_def)
  then have "distinct (map tf_id ?old)" by (rule distinct_map_filter)
  moreover have "map_of (rg_heap ?r) (tf_id t) = Some t" if "t \<in> set ?old" for t
    using that live_transfers_set [OF wf] reg_wfD [OF wf] by auto
  ultimately have "advances ?r (fst (sweep_each ?old ?r))" by (intro advances_sweep_each advances_wf [OF a])
  from advances_trans [OF a this] show ?thesis using advances_refl [OF wf] by (simp add: rg_sweep_def Let_def)
qed

lemma advances_device_connects:
  assumes wf: "reg_wf r"
    and c: "\<And>t. tf_ok t \<Longrightarrow> evolves t (fst (connect t)) \<and> tf_ok (fst (connect t))"
  shows "advances r (fst (device_connects sha device i header dir now connect r))"
proof (cases "rg_poisoned r")
  case False
  show ?thesis
  proof (cases "authorize_transfer sha (rg_get i r) header device dir")
    case (Inl a)
    then show ?thesis using False advances_refl [OF wf] by (simp add: device_connects_def)
  next
    case (Inr t)
    then have "rg_get i r = Some t" by (auto simp: authorize_transfer_def Let_def split: option.splits if_splits)
    note t = rg_getD [OF wf this]
    obtain t1 ok where t1: "connect t = (t1, ok)" by fastforce
    have "evolves t t1" "tf_ok t1" using c [of t] t t1 by auto
    then have put: "advances r (put_transfer t1 r)" using t by (intro advances_put [OF wf, of t1 t]) (auto simp: evolves_def)
    show ?thesis using False Inr t1 put advances_refl [OF wf] advances_cancel_and_remove [OF wf, of i "Wc TransferExpired"]
      by (auto simp: device_connects_def split: prod.splits run_result.splits bool.splits)
  qed
qed (simp add: device_connects_def advances_refl [OF wf])

lemma advances_connects:
  "reg_wf r \<Longrightarrow> advances r (fst (producer_connects sha device i header h now r))"
  "reg_wf r \<Longrightarrow> advances r (fst (consumer_connects sha device i header now r))"
proof -
  assume wf: "reg_wf r"
  show "advances r (fst (producer_connects sha device i header h now r))"
    unfolding producer_connects_def
    by (rule advances_device_connects [OF wf]) (auto simp: set_producer_def evolves_def tf_ok_def)
  show "advances r (fst (consumer_connects sha device i header now r))"
    unfolding consumer_connects_def
    by (rule advances_device_connects [OF wf]) (auto simp: set_consumer_def evolves_def tf_ok_def)
qed

lemma advances_producer_acks: "reg_wf r \<Longrightarrow> advances r (fst (producer_acks i r))"
proof -
  assume wf: "reg_wf r"
  have "advances r (put_transfer (t\<lparr>tf_producer_ack := True\<rparr>) r)" if "map_of (rg_heap r) i = Some t" for t
    using reg_wfD [OF wf that] that by (intro advances_put [OF wf, of _ t]) (auto simp: evolves_def tf_ok_def)
  then show ?thesis using advances_refl [OF wf] by (auto simp: producer_acks_def split: option.split)
qed

lemma advances_ready: "reg_wf r \<Longrightarrow> advances r (fst (on_bridge_ready device i ready rejection r))"
proof -
  assume wf: "reg_wf r"
  have "advances r (put_transfer (tf_cancel code t) r)" if "rg_get i r = Some t" for t code
    using rg_getD [OF wf that] by (intro advances_put [OF wf, of _ t]) (auto intro: evolves_ops tf_ok_ops)
  then show ?thesis using advances_refl [OF wf] by (auto simp: on_bridge_ready_def split: option.split)
qed

lemma advances_result: "reg_wf r \<Longrightarrow> advances r (fst (on_bridge_result device res r))"
proof -
  assume wf: "reg_wf r"
  have "advances r (put_transfer (tf_complete (deliver_result res t)) r)" if "rg_get i r = Some t" for t i
  proof -
    note t = rg_getD [OF wf that]
    have "evolves t (tf_complete (deliver_result res t))" using t evolves_ops(2,3) evolves_trans by blast
    then show ?thesis using t by (intro advances_put [OF wf, of _ t]) (auto simp: evolves_def intro: tf_ok_ops)
  qed
  then show ?thesis using advances_refl [OF wf] by (auto simp: on_bridge_result_def split: option.split)
qed

lemma advances_pump_ends: "reg_wf r \<Longrightarrow> advances r (fst (pump_ends i x r))"
proof -
  assume wf: "reg_wf r"
  have "advances r (rg_remove i (put_transfer (tf_complete t) r))" if "map_of (rg_heap r) i = Some t" for t
  proof -
    have "advances r (put_transfer (tf_complete t) r)"
      using reg_wfD [OF wf that] that evolves_ops(2) [of t]
      by (intro advances_put [OF wf, of _ t]) (auto simp: evolves_def intro: tf_ok_ops)
    then show ?thesis using advances_remove advances_trans advances_wf by blast
  qed
  then show ?thesis using advances_refl [OF wf] advances_cancel_and_remove [OF wf]
    by (auto simp: pump_ends_def split: pump_exit.split option.split)
qed

lemma advances_upload_ends: "reg_wf r \<Longrightarrow> advances r (fst (upload_ends i x r))"
  using advances_refl advances_remove advances_cancel_and_remove by (auto simp: upload_ends_def split: upload_exit.split)

lemma advances_waiters:
  "reg_wf r \<Longrightarrow> advances r (fst (waiter_cancelled i r))" "reg_wf r \<Longrightarrow> advances r (fst (waiter_times_out i r))"
  using advances_refl advances_remove advances_cancel_and_remove
  by (auto simp: waiter_cancelled_def waiter_times_out_def Let_def split: option.split)

lemma advances_upload_begin:
  assumes wf: "reg_wf r"
  shows "advances r (fst (upload_begin ident row i now r))"
proof -
  have put: "advances r (put_transfer (t\<lparr>tf_poisoned := b\<rparr>) r)" "advances r (put_transfer (t\<lparr>tf_consumer_rx := b\<rparr>) r)"
    if "rg_get i r = Some t" for t b
    using rg_getD [OF wf that] by (auto intro!: advances_put [OF wf, of _ t] simp: evolves_def tf_ok_def)
  show ?thesis using advances_refl [OF wf] advances_cancel_and_remove [OF wf, of i "Wc TransferExpired"] put
    by (auto simp: upload_begin_def Let_def split: sum.split option.split prod.split run_result.split)
qed

section \<open>Limits\<close>

definition limits_ok :: "transfer_registry \<Rightarrow> bool" where
  "limits_ok r \<longleftrightarrow> (\<forall>owner. count_live (\<lambda>j. in_owner j = owner) r \<le> MAX_CONCURRENT_PER_BROWSER) \<and>
     (\<forall>device. count_live (\<lambda>j. in_device j = device) r \<le> MAX_CONCURRENT_PER_DEVICE)"

definition is_live :: "(transfer_info \<Rightarrow> bool) \<Rightarrow> transfer_registry \<Rightarrow> string \<Rightarrow> bool" where
  "is_live p r i = (case map_of (rg_heap r) i of Some t \<Rightarrow> \<not> tf_terminal t \<and> p (tf_info t) | None \<Rightarrow> False)"

lemma count_live_ids: "count_live p r = length (filter (is_live p r) (rg_ids r))"
proof -
  have "length (filter (\<lambda>t. \<not> tf_terminal t \<and> p (tf_info t)) (List.map_filter (map_of (rg_heap r)) is)) = length (filter (is_live p r) is)" for "is"
    by (induction "is") (auto simp: map_filter_simps is_live_def split: option.splits)
  then show ?thesis by (simp add: count_live_def live_transfers_def)
qed

lemma length_filter_subseq:
  assumes "subseq xs ys" "\<And>x. p x \<Longrightarrow> q x"
  shows "length (filter p xs) \<le> length (filter q ys)"
  using assms(1) by (induction rule: list_emb.induct) (auto intro: le_SucI dest: assms(2))

lemma count_live_advances: "advances r r' \<Longrightarrow> count_live p r' \<le> count_live p r"
proof -
  assume a: "advances r r'"
  have "is_live p r i" if "is_live p r' i" for i
  proof -
    from that obtain t' where t': "map_of (rg_heap r') i = Some t'" "\<not> tf_terminal t'" "p (tf_info t')"
      by (auto simp: is_live_def split: option.splits)
    from advances_back [OF a t'(1)] t' show ?thesis by (auto simp: is_live_def evolves_def)
  qed
  then show ?thesis using a unfolding count_live_ids by (intro length_filter_subseq) (auto simp: advances_def)
qed

lemma limits_advance: "advances r r' \<Longrightarrow> limits_ok r \<Longrightarrow> limits_ok r'"
  using count_live_advances unfolding limits_ok_def by (meson le_trans)

lemma create_effect:
  assumes wf: "reg_wf r" and lim: "limits_ok r" and fresh: "fresh_id i r" and c: "rg_create i info now r = (r', res)"
  shows "(advances r r' \<and> (\<forall>t. res \<noteq> Returns (Inr t))) \<or>
    (reg_wf r' \<and> limits_ok r' \<and> res = Returns (Inr (transfer_new i info now)) \<and> rg_notified r' = rg_notified r \<and>
     map_of (rg_heap r') = (map_of (rg_heap r))(i \<mapsto> transfer_new i info now) \<and> i \<in> set (rg_ids r'))"
proof -
  let ?t = "transfer_new i info now"
  let ?r = "(put_transfer ?t r)\<lparr>rg_ids := i # filter (\<lambda>j. j \<noteq> i) (rg_ids r)\<rparr>"
  have new: "i \<notin> set (rg_ids r)" using wf fresh by (auto simp: reg_wf_def)
  have heap: "map_of (rg_heap ?r) = (map_of (rg_heap r))(i \<mapsto> ?t)" by (simp add: put_transfer_def transfer_new_def)
  have ids: "rg_ids ?r = i # rg_ids r" using new by (auto simp: filter_id_conv)
  have wf': "reg_wf ?r" using wf new heap ids
    by (auto simp: reg_wf_def tf_ok_def transfer_new_def)
  have live: "count_live p ?r = (if p info then 1 else 0) + count_live p r" for p
  proof -
    have "is_live p ?r j = is_live p r j" if "j \<in> set (rg_ids r)" for j
      using that new heap by (auto simp: is_live_def)
    then have "filter (is_live p ?r) (rg_ids r) = filter (is_live p r) (rg_ids r)" by (auto intro: filter_cong)
    moreover have "is_live p ?r i = p info" using heap by (simp add: is_live_def transfer_new_def)
    ultimately show ?thesis by (simp add: count_live_ids ids)
  qed
  have "limits_ok ?r" if "count_live (\<lambda>j. in_owner j = in_owner info) r < MAX_CONCURRENT_PER_BROWSER"
    "count_live (\<lambda>j. in_device j = in_device info) r < MAX_CONCURRENT_PER_DEVICE"
    using lim that by (auto simp: limits_ok_def live)
  then show ?thesis using c wf' heap ids advances_refl [OF wf] advances_poison [OF wf]
    by (auto simp: rg_create_def Let_def not_le put_transfer_def split: if_splits)
qed

text \<open>
  One step of the registry: nothing is created and transfers advance, or one transfer is created
  (and advances, if the device turned out to be gone).
\<close>

definition transfers_ok :: "transfer_registry \<Rightarrow> bool" where
  "transfers_ok r \<longleftrightarrow> reg_wf r \<and> limits_ok r"

definition created :: "transfer_registry \<Rightarrow> transfer_registry \<Rightarrow> bool" where
  "created r r0 \<longleftrightarrow> transfers_ok r0 \<and> rg_notified r0 = rg_notified r \<and>
     (\<exists>i t. fresh_id i r \<and> \<not> tf_terminal t \<and> map_of (rg_heap r0) = (map_of (rg_heap r))(i \<mapsto> t))"

lemma announce_effect:
  assumes ok: "transfers_ok r" and fresh: "fresh_id i r"
  shows "advances r (fst (announce i info now offered r)) \<or> (\<exists>r0. created r r0 \<and> advances r0 (fst (announce i info now offered r)))"
proof -
  obtain r1 res where c: "rg_create i info now r = (r1, res)" by fastforce
  from create_effect [OF _ _ fresh c] ok
  consider "advances r r1" "\<forall>t. res \<noteq> Returns (Inr t)"
    | "reg_wf r1" "limits_ok r1" "res = Returns (Inr (transfer_new i info now))" "rg_notified r1 = rg_notified r"
      "map_of (rg_heap r1) = (map_of (rg_heap r))(i \<mapsto> transfer_new i info now)"
    unfolding transfers_ok_def by blast
  then show ?thesis
  proof cases
    case 1
    then show ?thesis using c by (auto simp: announce_def split: run_result.splits sum.splits)
  next
    case 2
    have cr: "created r r1" unfolding created_def transfers_ok_def
      using 2 fresh by (intro conjI exI [of _ i] exI [of _ "transfer_new i info now"]) (auto simp: transfer_new_def)
    have "advances r1 (fst (announce i info now offered r))"
      using 2(1,3) c advances_refl [OF 2(1)] advances_cancel_and_remove [OF 2(1), of i "Wc DeviceOffline"]
      by (auto simp: announce_def split: prod.splits run_result.splits)
    then show ?thesis using cr by blast
  qed
qed

lemma transfer_step_effect:
  assumes ok: "transfers_ok r"
  shows "advances r (transfer_step sha r x) \<or> (\<exists>r0. created r r0 \<and> advances r0 (transfer_step sha r x))"
proof -
  have wf: "reg_wf r" using ok by (simp add: transfers_ok_def)
  note simple = advances_refl [OF wf] advances_upload_begin [OF wf] advances_connects [OF wf] advances_producer_acks [OF wf] advances_ready [OF wf]
    advances_result [OF wf] advances_pump_ends [OF wf] advances_upload_ends [OF wf] advances_waiters [OF wf] advances_sweep [OF wf]
  show ?thesis
  proof (cases x)
    case (ToDownload i ident row online body header disp now offered)
    then show ?thesis using announce_effect [OF ok, of i] simple(1)
      by (auto simp: start_download_def split: sum.split option.split prod.split)
  next
    case (ToDeclare i ident row online name mime len now offered)
    then show ?thesis using announce_effect [OF ok, of i] simple(1)
      by (auto simp: upload_declare_def split: sum.split)
  qed (use simple in auto)
qed

lemma transfers_ok_step: "transfers_ok r \<Longrightarrow> transfers_ok (transfer_step sha r x)"
  using transfer_step_effect [of r sha x] advances_wf limits_advance unfolding transfers_ok_def created_def by metis

interpretation transfers_m: op_machine_init "transfer_step sha" transfers_ok transfers_new for sha
proof (unfold_locales, erule transfers_ok_step)
  show "transfers_ok transfers_new"
    by (simp add: transfers_ok_def reg_wf_def limits_ok_def count_live_def live_transfers_def transfers_new_def map_filter_simps)
qed

text \<open>The ids whose cancellation a step tells to a bridge, and the transfers that are over.\<close>

definition notified_ids :: "(string \<Rightarrow> string) \<Rightarrow> transfer_registry \<Rightarrow> transfer_op \<Rightarrow> string list" where
  "notified_ids sha r x = map (\<lambda>n. re_transfer_id (snd n)) (drop (length (rg_notified r)) (rg_notified (transfer_step sha r x)))"

definition is_over :: "transfer_registry \<Rightarrow> string \<Rightarrow> bool" where
  "is_over r i = (\<exists>t. map_of (rg_heap r) i = Some t \<and> tf_terminal t)"

lemma advances_over: "advances r r' \<Longrightarrow> is_over r i \<Longrightarrow> is_over r' i"
  using advances_Some [of r r' i] unfolding is_over_def evolves_def by blast

lemma advances_news:
  assumes "advances r0 r'" "rg_notified r0 = rg_notified r"
  shows "distinct (map (\<lambda>n. re_transfer_id (snd n)) (drop (length (rg_notified r)) (rg_notified r'))) \<and>
    (\<forall>n\<in>set (drop (length (rg_notified r)) (rg_notified r')). \<not> is_over r0 (re_transfer_id (snd n)) \<and> is_over r' (re_transfer_id (snd n)))"
proof -
  obtain ns where "news r0 r' ns" using assms(1) by (auto simp: advances_def)
  then show ?thesis using assms(2) by (auto simp: news_def is_over_def)
qed

lemma created_over: "created r r0 \<Longrightarrow> is_over r0 i = is_over r i"
  by (auto simp: created_def is_over_def split: if_splits)

lemma step_news:
  assumes ok: "transfers_ok r"
  shows "distinct (notified_ids sha r x) \<and> (\<forall>i\<in>set (notified_ids sha r x). \<not> is_over r i \<and> is_over (transfer_step sha r x) i)"
proof -
  obtain r0 where r0: "advances r0 (transfer_step sha r x)" "rg_notified r0 = rg_notified r" "\<And>i. is_over r0 i = is_over r i"
  proof -
    from transfer_step_effect [OF ok, of sha x] show thesis
    proof
      assume "advances r (transfer_step sha r x)"
      then show thesis by (rule that) simp_all
    next
      assume "\<exists>r0. created r r0 \<and> advances r0 (transfer_step sha r x)"
      then obtain r0 where c: "created r r0" and a: "advances r0 (transfer_step sha r x)" by blast
      show thesis by (rule that [OF a]) (use c created_over [OF c] in \<open>simp_all add: created_def\<close>)
    qed
  qed
  from advances_news [OF r0(1,2)] r0(3) ok show ?thesis by (auto simp: notified_ids_def)
qed

lemma step_over: "transfers_ok r \<Longrightarrow> is_over r i \<Longrightarrow> is_over (transfer_step sha r x) i"
  using transfer_step_effect [of r sha x] advances_over created_over by blast

interpretation endings: once_ledger "transfer_step sha" transfers_ok "notified_ids sha" is_over for sha
  by unfold_locales (use step_news step_over in blast)+

lemma step_evolves:
  assumes "transfers_ok r" "map_of (rg_heap r) i = Some t"
  shows "\<exists>t'. map_of (rg_heap (transfer_step sha r x)) i = Some t' \<and> evolves t t'"
proof -
  from transfer_step_effect [OF assms(1), of sha x] show ?thesis
  proof
    assume "\<exists>r0. created r r0 \<and> advances r0 (transfer_step sha r x)"
    then obtain r0 where "created r r0" "advances r0 (transfer_step sha r x)" by blast
    moreover from this(1) have "map_of (rg_heap r0) i = Some t" using assms(2) by (auto simp: created_def)
    ultimately show ?thesis using advances_Some by blast
  qed (use advances_Some assms(2) in blast)
qed

lemma run_evolves:
  assumes "transfers_ok r" "map_of (rg_heap r) i = Some t"
  shows "\<exists>t'. map_of (rg_heap (foldl (transfer_step sha) r ops)) i = Some t' \<and> evolves t t'"
proof (rule transfers_m.run_relation [OF assms(1), where R = "\<lambda>_ r'. \<exists>t'. map_of (rg_heap r') i = Some t' \<and> evolves t t'"])
  show "\<exists>t'. map_of (rg_heap r) i = Some t' \<and> evolves t t'" using assms(2) by simp
  fix r' x
  assume "transfers_ok r'" "\<exists>t'. map_of (rg_heap r') i = Some t' \<and> evolves t t'"
  then show "\<exists>t'. map_of (rg_heap (transfer_step sha r' x)) i = Some t' \<and> evolves t t'"
    using step_evolves evolves_trans by blast
qed

section \<open>Trimming and ranges\<close>

lemma digits_graphic: "c \<in> set (show_nat n) \<Longrightarrow> ascii_graphic c \<and> c \<noteq> CHR ''-'' \<and> c \<noteq> CHR '',''"
proof -
  assume c: "c \<in> set (show_nat n)"
  then obtain d :: nat where d: "d < 10" "c = char_of (48 + d)" using show_nat_digits by blast
  then have "(of_char c :: nat) = 48 + d" by (simp add: of_char_of)
  then show ?thesis using d(1) show_nat_no [OF c, of "CHR ''-''"] show_nat_no [OF c, of "CHR '',''"]
    by (simp add: ascii_graphic_def)
qed

lemma str_trim_show: "str_trim (show_nat n) = show_nat n"
  using show_nat_nonempty [of n] digits_graphic [of "hd (show_nat n)" n] digits_graphic [of "last (show_nat n)" n]
  by (intro str_trim_id) simp_all

lemma split_once_show:
  "split_once (CHR ''-'') (show_nat a @ CHR ''-'' # s) = Some (show_nat a, s)"
proof -
  have "takeWhile (\<lambda>x. x \<noteq> CHR ''-'') (show_nat a @ CHR ''-'' # s) = show_nat a"
    "dropWhile (\<lambda>x. x \<noteq> CHR ''-'') (show_nat a @ CHR ''-'' # s) = CHR ''-'' # s"
    using digits_graphic by (auto intro!: takeWhile_append2 [THEN trans] dropWhile_append2 [THEN trans])
  then show ?thesis by (simp add: split_once_def)
qed

lemma parse_range_header:
  assumes "a < 2 ^ 64" "b < 2 ^ 64"
  shows "parse_range None (Some (''bytes='' @ show_nat a @ ''-'' @ show_nat b)) =
      (if a \<le> b then Inr (Some \<lparr>ra_start = a, ra_end_inclusive = Some b\<rparr>) else Inl (Wc TransferRangeInvalid))"
    and "parse_range None (Some (''bytes='' @ show_nat a @ ''-'')) = Inr (Some \<lparr>ra_start = a, ra_end_inclusive = None\<rparr>)"
proof -
  have comma: "CHR '','' \<notin> set (show_nat n)" for n using digits_graphic by blast
  have trim: "str_trim (''bytes='' @ show_nat a @ CHR ''-'' # s) = ''bytes='' @ show_nat a @ CHR ''-'' # s"
    if "s = [] \<or> s = show_nat b" for s
    using that show_nat_nonempty [of b] digits_graphic [of "last (show_nat b)" b]
    by (intro str_trim_id) (auto simp: ascii_graphic_def)
  have empty: "str_trim [] = []" by (simp add: str_trim_def trim_start_def trim_end_def strip_seqs_id starts_with_def)
  have strip: "strip_prefix ''bytes='' (''bytes='' @ s) = Some s" for s by (rule strip_prefix_append)
  show "parse_range None (Some (''bytes='' @ show_nat a @ ''-'' @ show_nat b)) =
      (if a \<le> b then Inr (Some \<lparr>ra_start = a, ra_end_inclusive = Some b\<rparr>) else Inl (Wc TransferRangeInvalid))"
    using trim [of "show_nat b"] strip [of "show_nat a @ CHR ''-'' # show_nat b"] comma split_once_show str_trim_show
      parse_usize_show assms show_nat_nonempty by (simp add: parse_range_def Let_def)
  show "parse_range None (Some (''bytes='' @ show_nat a @ ''-'')) = Inr (Some \<lparr>ra_start = a, ra_end_inclusive = None\<rparr>)"
    using trim [of "[]"] strip [of "show_nat a @ CHR ''-'' # []"] comma split_once_show str_trim_show
      parse_usize_show assms empty by (simp add: parse_range_def Let_def)
qed

lemma parse_range_ordered: "parse_range body header = Inr (Some r) \<Longrightarrow> ra_end_inclusive r = Some e \<Longrightarrow> ra_start r \<le> e"
  by (auto simp: parse_range_def Let_def split: option.splits if_splits)

section \<open>Pumps\<close>

primrec chunks :: "body_event list \<Rightarrow> bytes list" where
  "chunks [] = []"
| "chunks (e # es) = (case e of BvChunk c taken \<Rightarrow> c # chunks es | _ \<Rightarrow> [])"

lemma upload_pump_prefix:
  "case upload_pump n es of (out, x) \<Rightarrow> (\<exists>rest. chunks es = out @ rest \<and> (\<forall>m. x = UxDone m \<longrightarrow> rest = [] \<and> m = n + length (concat out))) \<and>
     (out = [] \<or> n + length (concat out) \<le> MAX_UPLOAD_BYTES)"
proof (induction n es rule: upload_pump.induct)
  case (2 n c taken es)
  show ?case
  proof (cases "n + length c > MAX_UPLOAD_BYTES \<or> \<not> taken")
    case False
    obtain out x where px: "upload_pump (n + length c) es = (out, x)" by fastforce
    then show ?thesis using False 2 [OF refl] by (auto simp: Let_def)
  qed (auto simp: Let_def)
qed auto

section \<open>Properties\<close>

text \<open>
  C3. The limits hold at all times: however requests, device connections, cancellations, panics and
  sweeps follow each other, no user and no device ever has more than two transfers under way.
\<close>

theorem never_more_than_two_transfers:
  "count_live (\<lambda>j. in_owner j = owner) (foldl (transfer_step sha) transfers_new ops) \<le> 2 \<and>
   count_live (\<lambda>j. in_device j = device) (foldl (transfer_step sha) transfers_new ops) \<le> 2"
  using transfers_m.reachable_inv [of sha ops] by (simp add: transfers_ok_def limits_ok_def)

text \<open>
  C34. A transfer ends once. In every run whose registry operations do not overlap, a bridge is told
  at most once that a given transfer was cancelled; and once a transfer is over it stays over, with the same code, and a result that was
  delivered to the waiting browser is never replaced.
\<close>

theorem transfer_ends_once:
  "count_list (run_log (transfer_step sha) (notified_ids sha) transfers_new ops) i \<le> 1 \<and>
   (\<forall>t. map_of (rg_heap (foldl (transfer_step sha) transfers_new ops)) i = Some t \<longrightarrow>
      (\<exists>t'. map_of (rg_heap (foldl (transfer_step sha) transfers_new (ops @ ops2))) i = Some t' \<and> tf_info t' = tf_info t \<and>
         (tf_terminal t \<longrightarrow> tf_terminal t' \<and> tf_terminal_code t' = tf_terminal_code t) \<and>
         (tf_result t \<noteq> None \<longrightarrow> tf_result t' = tf_result t)))"
proof (intro conjI allI impI)
  show "count_list (run_log (transfer_step sha) (notified_ids sha) transfers_new ops) i \<le> 1"
    using endings.entered_at_most_once [OF transfers_m.init_inv, of sha ops i] by (simp split: if_splits)
  fix t
  assume "map_of (rg_heap (foldl (transfer_step sha) transfers_new ops)) i = Some t"
  from run_evolves [OF transfers_m.reachable_inv this, of sha ops2]
  show "\<exists>t'. map_of (rg_heap (foldl (transfer_step sha) transfers_new (ops @ ops2))) i = Some t' \<and> tf_info t' = tf_info t \<and>
         (tf_terminal t \<longrightarrow> tf_terminal t' \<and> tf_terminal_code t' = tf_terminal_code t) \<and>
         (tf_result t \<noteq> None \<longrightarrow> tf_result t' = tf_result t)"
    by (auto simp: evolves_def)
qed

text \<open>
  An upload forwards the beginning of the request body, chunk by chunk, in order, and never more
  than the upload limit; when it reports success, all of the body was forwarded and counted. A download range
  that is accepted is not inverted, and the header form means what it says.
\<close>

theorem upload_is_a_bounded_prefix:
  assumes "a < 2 ^ 64" "b < 2 ^ 64"
  shows "(case upload_pump 0 es of (out, x) \<Rightarrow> (\<exists>rest. chunks es = out @ rest \<and> (\<forall>m. x = UxDone m \<longrightarrow> rest = [] \<and> m = length (concat out))) \<and>
      length (concat out) \<le> MAX_UPLOAD_BYTES) \<and>
    parse_range None (Some (''bytes='' @ show_nat a @ ''-'' @ show_nat b)) =
      (if a \<le> b then Inr (Some \<lparr>ra_start = a, ra_end_inclusive = Some b\<rparr>) else Inl (Wc TransferRangeInvalid)) \<and>
    parse_range None (Some (''bytes='' @ show_nat a @ ''-'')) = Inr (Some \<lparr>ra_start = a, ra_end_inclusive = None\<rparr>) \<and>
    (\<forall>body header r e. parse_range body header = Inr (Some r) \<and> ra_end_inclusive r = Some e \<longrightarrow> ra_start r \<le> e)"
  using upload_pump_prefix [where n = 0 and es = es] parse_range_header [OF assms] parse_range_ordered
  by (auto split: prod.splits)

text \<open>
  Two cancellations that overlap, each having read that the transfer is not over, both tell the bridge.
\<close>

lemma overlapping_cancellations_notify_twice:
  assumes "map_of (rg_heap r) (tf_id t) = Some t" "\<not> tf_terminal t"
  shows "let r1 = cancel_unless (tf_terminal t) t code r; t1 = the (map_of (rg_heap r1) (tf_id t));
      r2 = cancel_unless (tf_terminal t) t1 code' r1
    in map (\<lambda>n. re_transfer_id (snd n)) (rg_notified r2) = map (\<lambda>n. re_transfer_id (snd n)) (rg_notified r) @ [tf_id t, tf_id t]"
  using assms by (simp add: cancel_unless_def notify_cancelled_def put_transfer_def cancel_result_def Let_def)

text \<open>
  The browser side of an upload can be entered twice, and the second entrance panics under the lock
  of the transfer. The next creation of any transfer then panics under the lock of the registry,
  and from there on every operation of the registry does, for every user.
\<close>

lemma second_upload_request_disables_the_registry:
  assumes "\<not> rg_poisoned r" "reg_wf r" "rg_get i r = Some t" "\<not> tf_poisoned t" "tf_consumer_rx t" "\<not> tf_expired now t"
    and "in_owner (tf_info t) = owner" "in_session (tf_info t) = sw_id s" "in_direction (tf_info t) = Upload"
  shows "let (r1, o1) = upload_begin (Inr owner) (Inr s) i now r; (r2, o2) = upload_begin (Inr owner) (Inr s) i now r1;
      (r3, o3) = rg_create j info now' r2
    in o2 = Panics \<and> o3 = Panics \<and> rg_poisoned r3 \<and> snd (rg_create j' info' now'' r3) = Panics \<and> snd (rg_sweep now'' r3) = Panics"
proof -
  let ?t1 = "t\<lparr>tf_consumer_rx := False\<rparr>"
  let ?t2 = "?t1\<lparr>tf_poisoned := True\<rparr>"
  let ?r1 = "put_transfer ?t1 r"
  let ?r2 = "put_transfer ?t2 ?r1"
  note t = rg_getD [OF assms(2,3)]
  have mem: "i \<in> set (rg_ids r)" using assms(3) by (simp add: rg_get_def split: if_splits)
  have b1: "upload_begin (Inr owner) (Inr s) i now r = (?r1, Returns (Inr ?t1))"
    using assms by (simp add: upload_begin_def tf_expired_def Let_def)
  have g1: "rg_get i ?r1 = Some ?t1" using mem t by (simp add: rg_get_def put_transfer_def)
  have b2: "upload_begin (Inr owner) (Inr s) i now ?r1 = (?r2, Panics)"
    using assms g1 by (simp add: upload_begin_def tf_expired_def Let_def put_transfer_def)
  have "?t2 \<in> set (live_transfers ?r2)"
    using mem t by (force simp: live_transfers_def map_filter_def put_transfer_def)
  then have "list_ex tf_poisoned (live_transfers ?r2)" by (force simp: list_ex_iff)
  then have b3: "rg_create j info now' ?r2 = (?r2\<lparr>rg_poisoned := True\<rparr>, Panics)"
    using assms(1) by (simp add: rg_create_def put_transfer_def)
  show ?thesis using b1 b2 b3 by (simp add: rg_create_def rg_sweep_def)
qed

theorem transfer_ends_once_witness:
  "tf_terminal_code (the (map_of (rg_heap (foldl (transfer_step (\<lambda>x. x)) transfers_new
     ([ToDeclare ''t1'' (Inr ''u'') (Inr \<lparr>sw_id = ''s'', sw_device_id = ''d''\<rparr>) True ''f'' None 3 0 True, ToReady ''d'' ''t1'' False 29] @
      [ToReady ''d'' ''t1'' False 28]))) ''t1'')) = Some (Wc TransferRangeInvalid)"
proof -
  let ?ops = "[ToDeclare ''t1'' (Inr ''u'') (Inr \<lparr>sw_id = ''s'', sw_device_id = ''d''\<rparr>) True ''f'' None 3 0 True, ToReady ''d'' ''t1'' False 29]"
  obtain t where t: "map_of (rg_heap (foldl (transfer_step (\<lambda>x. x)) transfers_new ?ops)) ''t1'' = Some t"
    "tf_terminal t" "tf_terminal_code t = Some (Wc TransferRangeInvalid)"
    by (simp add: transfers_new_def upload_declare_def announce_def rg_create_def live_transfers_def map_filter_simps count_live_def
        MAX_UPLOAD_BYTES_def put_transfer_def transfer_new_def on_bridge_ready_def rg_get_def tf_cancel_def deliver_result_def
        wire_try_from_def wire_codes_def Let_def)
  then show ?thesis using transfer_ends_once [of "\<lambda>x. x" ?ops "''t1''" "[ToReady ''d'' ''t1'' False 28]"] by auto
qed

theorem upload_is_a_bounded_prefix_witness:
  "parse_range None (Some (''bytes='' @ show_nat 5 @ ''-'' @ show_nat 9)) = Inr (Some \<lparr>ra_start = 5, ra_end_inclusive = Some 9\<rparr>)"
  using upload_is_a_bounded_prefix [where a = 5 and b = 9 and es = "[]"] by simp

end
