(* ===== verification/Spec2Isabelle.thy ===== *)
theory Spec2Isabelle
  imports Hub_Inv Relay_Commands Files Mapper_Inv Runtime_Streams DStream Pending Ipc_Frame Capabilities Command_Front Wake_Policy Transfers
begin

text \<open>
  Verification of Agent Console.

  \<^bold>\<open>The system.\<close> A bridge (\<open>apps/bridge\<close>) runs beside a desktop coding agent on the user's machine. It follows
  the desktop over a local socket, keeps a small SQLite store, and carries out the user's commands. A relay
  (\<open>apps/relay\<close>) on a server connects browsers with bridges: it turns the bridges' upstream messages into numbered
  downstream streams, buffers and replays them, forwards commands, pairs devices, and pipes files between browser and
  bridge. Both speak the protocol of \<open>crates/protocol\<close>. An event goes from the desktop (\<open>Ipc_Frame\<close>, \<open>Json\<close>) through the
  session's state machine (\<open>Projection\<close>, \<open>Mapper\<close>), the adapter (\<open>Codex_Adapter\<close>) and the runtime of the bridge
  (\<open>Runtime_Streams\<close>, \<open>Proto_Mapping\<close>) to the hub of the relay (\<open>DStream\<close>, \<open>Relay_Buffer\<close>, \<open>Hub\<close>) and the send queue of a
  browser (\<open>Outbox\<close>). A command goes the other way: the relay (\<open>Relay_Commands\<close>), the runtime (\<open>Proto_Mapping\<close>), the gateway with its
  store (\<open>Gateway\<close>, \<open>Local_Store\<close>), and the adapter, which performs it.

  \<^bold>\<open>Theories and sources, and what is shown.\<close>

  \<^item> \<open>Prelude\<close>: lists, options, association lists, strings, words; the locales of operation machines (an invariant that
    every step keeps holds in every run), of ledgers (what enters once never enters again) and of bounded writes. The
    component theories interpret them on their own operations.
  \<^item> \<open>Proto\<close>: the messages of \<open>proto/agent_console/v1\<close> that the relay reads, and \<open>crates/protocol/src/codec.rs\<close>: encoding and
    decoding are inverse up to the limit of a frame.

  The relay, \<open>apps/relay/src\<close>:

  \<^item> \<open>Relay_Buffer\<close>, \<open>Outbox\<close> (\<open>realtime/buffer.rs\<close>): the replay buffer of a stream with its three limits, and the send
    queue of a browser. Counters are exact and within the limits, critical frames survive an insertion, merging
    appends loses no output, and a queue delivers consecutive frames.
  \<^item> \<open>DStream\<close> (\<open>realtime/mod.rs\<close>): one downstream stream; every reachable stream can bring a subscriber up to date, in order.
  \<^item> \<open>Hub\<close>, \<open>Hub_Order\<close>, \<open>Hub_Inv\<close> (\<open>realtime/mod.rs\<close>): all operations of the hub on streams, subscribers, browsers and
    bridges; an active subscriber has been sent everything it needs, and belongs to the user of the stream.
  \<^item> \<open>Relay_Db\<close>, \<open>Relay_Sessions\<close>, \<open>Paging\<close> (\<open>sessions\<close>, \<open>audit\<close>, the migrations): tables as lists of rows; users are
    isolated from each other, and walking through the pages of a list ends and is stable.
  \<^item> \<open>Relay_Commands\<close> (\<open>realtime/mod.rs\<close>): dispatch of messages, and a command from the browser to its receipt: forwarded at
    most once, repetitions are answered from the receipt, and a lost bridge settles its commands.
  \<^item> \<open>Devices\<close> (\<open>devices\<close>): pairing and the connection of a bridge: one credential per challenge, whose rights only move forward.
  \<^item> \<open>Relay_State\<close>, \<open>Push\<close> (\<open>state.rs\<close>, \<open>push/mod.rs\<close>): error codes, networks, rate limits, and which events notify the user.
  \<^item> \<open>Transfers\<close> (\<open>transfers/mod.rs\<close>): the file data plane, its registry, ranges and limits.

  The bridge, \<open>apps/bridge/src\<close>:

  \<^item> \<open>Domain\<close>, \<open>Capabilities\<close> (\<open>domain\<close>, \<open>capabilities/mod.rs\<close>): the vocabulary, and the probe that opens writes only on evidence.
  \<^item> \<open>Local_Store\<close> (\<open>local_store\<close>): receipts, the queue, cursors and the clean-up log.
  \<^item> \<open>Commands\<close>, \<open>Turn_Queue\<close>, \<open>Gateway\<close>, \<open>Command_Front\<close>, \<open>Wake_Policy\<close> (\<open>commands\<close>, \<open>power/mod.rs\<close>): the command pipeline.
    A request is performed at most once, the queue is changed only by the user and sent only when the session is
    ready, only offered choices are executed, and the machine is kept awake by the policy.
  \<^item> \<open>Files\<close> (\<open>files\<close>): handles below an authorised root; a verified read is of the granted file.
  \<^item> \<open>Pending\<close> (\<open>zcode/pending.rs\<close>, \<open>zcode/contract.rs\<close>): decisions that a hook process waits for, taken at most once.
  \<^item> \<open>Utf8\<close>, \<open>Ipc_Frame\<close> (\<open>domain/text.rs\<close>, \<open>adapter/codex/ipc\<close>): framing, which does not depend on how the bytes arrive.
  \<^item> \<open>Json\<close>, \<open>Projection\<close>, \<open>Mapper\<close>, \<open>Mapper_Inv\<close> (\<open>adapter/codex/projection.rs\<close>, \<open>adapter/codex/mapper.rs\<close>): patches on the
    desktop's state and the events that follow from it. Output, phase and decisions can be followed from the events,
    and the directory of a session does not leave the mapper.
  \<^item> \<open>Codex_Adapter\<close> (\<open>adapter/codex/mod.rs\<close>): attaching, snapshots, watchers and native writes, each of which is licensed.
  \<^item> \<open>Proto_Mapping\<close> (\<open>runtime/proto_mapping.rs\<close>): domain types and messages; round trips up to named losses.
  \<^item> \<open>Runtime_Streams\<close> (\<open>runtime/mod.rs\<close>, \<open>runtime/observe.rs\<close>): streams to the relay, caches and output pages, and the
    schedule of observations. Streams are numbered without gap, events are sent in order, pages make up the output.

  \<^bold>\<open>How the code is modelled.\<close> A struct is a record, an enum a datatype, a map with its own operations an association list.
  A method on a struct is a function from the state to the state and the result; \<open>Err\<close>, a panic and an early return are
  values. Code between two suspension points under one lock is one operation; step relations interleave these freely.
  The clock, random numbers, identifiers, hash functions, the date library, the encoder of protocol buffers, SQLite
  faults and the answers of the file system and the desktop are arguments. Machine integers are words where they can wrap
  or saturate; lengths and counters that only grow by one are natural numbers.

  \<^bold>\<open>Bounds and fuel.\<close> Loops of the code are structural recursions or have a measure. Fuel occurs only in readers of the
  specifications, for example in walks through pages, with theorems that say how much is enough: one step more than rows
  or bytes remain. The constants of the code (limits, intervals, windows) are definitions of the same name.

  \<^bold>\<open>Not modelled.\<close> The queries of the desktop's catalogue database and the summaries of Git, which only run a foreign
  program and read its answer; the ZCode servers and the local processes around the registry of decisions; WebSocket
  and HTTP transport, key chain, configuration and start of the processes; sign-in at the relay; the streaming of
  bytes in \<open>runtime/transfers.rs\<close>; generated code, deployment, and the web client.
\<close>

end
